(* ===== verification/Prelude.thy ===== *)
theory Prelude
  imports Complex_Main "HOL-Library.Product_Lexorder"
begin

text \<open>
  Shared vocabulary of the development: the theorem collections, tables as
  lists of rows with the three statements the program issues on them
  (a filtered \<open>UPDATE\<close>, a filtered \<open>DELETE\<close>, the \<open>first()\<close> row of a query), the comparison
  of a nullable column with a value, and the list lemmas several components use.

  A table is the list of its rows in insertion order. A filtered update returns the new
  table; the row count the statement reports is \<open>count_where\<close> on the table before it.
\<close>

named_theorems row_simps \<open>how queries see a table after an update\<close>
named_theorems step_defs \<open>the definitions of the operations of a component\<close>

type_synonym time = rat

text \<open>
  The exceptions the modelled code raises, catches or lets through: Python's own, the
  repository's, FastAPI's \<open>HTTPException\<close> (status and detail), \<open>OtherError\<close> for the type name and text of any other exception of user code or
  of a library, and \<open>Interrupted\<close> for what only \<open>except BaseException\<close> catches (the exit on
  SIGTERM, a cancelled task). A transformation error has the transformation's name, the
  message, the step's position and the position of the record at fault, when known.
\<close>

datatype py_error =
    ValueError string
  | TypeError string
  | KeyError string
  | RuntimeError string
  | IntegrityError string
  | ZeroDivisionError
  | DBAPIError
  | PipelineError string
  | SkipJob string
  | SkipRecord string
  | RecordValidationError string
  | NotImplementedError string
  | TransformationError string string "nat option" "nat option"
  | StepOutputError string string nat nat
  | RecordFailure nat string
  | HTTPException nat string
  | OtherError string string
  | Interrupted

subsection \<open>Tables\<close>

definition update_where :: "('r \<Rightarrow> bool) \<Rightarrow> ('r \<Rightarrow> 'r) \<Rightarrow> 'r list \<Rightarrow> 'r list" where
  "update_where P f rows = map (\<lambda>r. if P r then f r else r) rows"

definition delete_where :: "('r \<Rightarrow> bool) \<Rightarrow> 'r list \<Rightarrow> 'r list" where
  "delete_where P rows = filter (\<lambda>r. \<not> P r) rows"

definition count_where :: "('r \<Rightarrow> bool) \<Rightarrow> 'r list \<Rightarrow> nat" where
  "count_where P rows = length (filter P rows)"

definition first_where :: "('r \<Rightarrow> bool) \<Rightarrow> 'r list \<Rightarrow> 'r option" where
  "first_where P rows = List.find P rows"

text \<open>\<open>column < v\<close> in SQL: not true when the column is null.\<close>

definition lt_null :: "'a::ord option \<Rightarrow> 'a \<Rightarrow> bool" where
  "lt_null c v = (case c of None \<Rightarrow> False | Some x \<Rightarrow> x < v)"

lemma lt_null_simps [simp]: "lt_null None v = False" "lt_null (Some x) v = (x < v)"
  by (simp_all add: lt_null_def)

lemma update_where_Nil [simp]: "update_where P f [] = []"
  by (simp add: update_where_def)

lemma update_where_Cons [simp]:
  "update_where P f (r # rs) = (if P r then f r else r) # update_where P f rs"
  by (simp add: update_where_def)

lemma update_where_append [simp]:
  "update_where P f (rs @ ss) = update_where P f rs @ update_where P f ss"
  by (simp add: update_where_def)

lemma length_update_where [simp]: "length (update_where P f rows) = length rows"
  by (simp add: update_where_def)

lemma count_where_Nil [simp]: "count_where P [] = 0"
  by (simp add: count_where_def)

lemma count_where_Cons [simp]:
  "count_where P (r # rs) = (if P r then Suc (count_where P rs) else count_where P rs)"
  by (simp add: count_where_def)

lemma count_where_append [simp]: "count_where P (rs @ ss) = count_where P rs + count_where P ss"
  by (simp add: count_where_def)

lemma first_where_Nil [simp]: "first_where P [] = None"
  by (simp add: first_where_def)

lemma first_where_Cons [simp]:
  "first_where P (r # rs) = (if P r then Some r else first_where P rs)"
  by (simp add: first_where_def)

lemma delete_where_Nil [simp]: "delete_where P [] = []"
  by (simp add: delete_where_def)

lemma delete_where_Cons [simp]:
  "delete_where P (r # rs) = (if P r then delete_where P rs else r # delete_where P rs)"
  by (simp add: delete_where_def)

text \<open>An update that keeps a column keeps the list of its values.\<close>

lemma map_update_where:
  "(\<And>r. P r \<Longrightarrow> k (f r) = k r) \<Longrightarrow> map k (update_where P f rows) = map k rows"
  by (induction rows) auto

lemma set_update_where:
  "r \<in> set (update_where P f rows) \<longleftrightarrow>
     (\<exists>q \<in> set rows. r = (if P q then f q else q))"
  by (auto simp: update_where_def)

lemma ball_update_where:
  "(\<And>r. r \<in> set rows \<Longrightarrow> Q r \<Longrightarrow> P r \<Longrightarrow> Q (f r)) \<Longrightarrow> (\<forall>r \<in> set rows. Q r) \<Longrightarrow>
   (\<forall>r \<in> set (update_where P f rows). Q r)"
  by (auto simp: update_where_def)

lemma update_where_none: "count_where P rows = 0 \<Longrightarrow> update_where P f rows = rows"
  by (induction rows) (auto split: if_splits)

lemma count_where_le: "count_where P rows \<le> length rows"
  by (simp add: count_where_def)

lemma count_where_zero: "count_where P rows = 0 \<longleftrightarrow> (\<forall>r \<in> set rows. \<not> P r)"
  by (induction rows) auto

lemma count_where_cong:
  "(\<And>r. r \<in> set rows \<Longrightarrow> P r = Q r) \<Longrightarrow> count_where P rows = count_where Q rows"
  by (induction rows) auto

lemma count_where_update:
  "(\<And>r. P r \<Longrightarrow> Q (f r) = Q r) \<Longrightarrow> count_where Q (update_where P f rows) = count_where Q rows"
  by (induction rows) auto

text \<open>How many rows satisfy \<open>Q\<close> after the rows satisfying \<open>P\<close> were rewritten into \<open>Q\<close>.\<close>

lemma count_where_update_into:
  "(\<And>r. P r \<Longrightarrow> Q (f r)) \<Longrightarrow>
   count_where Q (update_where P f rows) =
     count_where P rows + count_where (\<lambda>r. Q r \<and> \<not> P r) rows"
  by (induction rows) auto

lemma count_where_update_outof:
  "(\<And>r. P r \<Longrightarrow> \<not> Q (f r)) \<Longrightarrow>
   count_where Q (update_where P f rows) = count_where (\<lambda>r. Q r \<and> \<not> P r) rows"
  by (induction rows) auto

lemma first_where_Some_iff:
  "first_where P rows = Some r \<Longrightarrow> r \<in> set rows \<and> P r"
  by (induction rows) (auto split: if_splits)

lemma first_where_None_iff: "first_where P rows = None \<longleftrightarrow> (\<forall>r \<in> set rows. \<not> P r)"
  by (induction rows) auto

lemma first_where_update:
  "(\<And>r. Q (f r) = Q r) \<Longrightarrow>
   first_where Q (update_where P f rows) =
     map_option (\<lambda>r. if P r then f r else r) (first_where Q rows)"
  by (induction rows) auto

lemma set_delete_where: "set (delete_where P rows) = {r \<in> set rows. \<not> P r}"
  by (auto simp: delete_where_def)

lemma length_delete_where: "length (delete_where P rows) + count_where P rows = length rows"
  by (induction rows) auto

text \<open>A key column without duplicates: at most one row has a given key.\<close>

lemma distinct_key_unique:
  "distinct (map k rows) \<Longrightarrow> r \<in> set rows \<Longrightarrow> q \<in> set rows \<Longrightarrow> k r = k q \<Longrightarrow> r = q"
  by (metis distinct_map inj_on_def)

lemma first_where_key:
  assumes "distinct (map k rows)" and "r \<in> set rows"
  shows "first_where (\<lambda>q. k q = k r) rows = Some r"
  using assms by (induction rows) (auto simp: image_iff)

lemma count_where_key_le_one:
  assumes "distinct (map k rows)"
  shows "count_where (\<lambda>q. k q = v \<and> P q) rows \<le> 1"
  using assms
proof (induction rows)
  case (Cons r rs)
  then show ?case
  proof (cases "k r = v \<and> P r")
    case True
    then have "\<forall>q \<in> set rs. \<not> (k q = v \<and> P q)"
      using Cons.prems by (auto simp: image_iff)
    then have "count_where (\<lambda>q. k q = v \<and> P q) rs = 0"
      by (simp only: count_where_zero)
    with True show ?thesis by simp
  next
    case False
    with Cons show ?thesis by auto
  qed
qed simp

lemma count_where_key_pos:
  assumes "distinct (map k rows)" and "r \<in> set rows" and "k r = v" and "P r"
  shows "count_where (\<lambda>q. k q = v \<and> P q) rows = 1"
proof -
  have "count_where (\<lambda>q. k q = v \<and> P q) rows \<noteq> 0"
    using assms(2-4) by (auto simp: count_where_zero)
  then show ?thesis
    using count_where_key_le_one [OF assms(1), of v P] by linarith
qed

text \<open>
  SQL's \<open>LIKE\<close>: a percent sign matches any text, an underscore any one character, a
  backslash takes the next character of the pattern literally (PostgreSQL's default).
\<close>

fun sql_like :: "string \<Rightarrow> string \<Rightarrow> bool" where
  "sql_like [] s = (s = [])"
| "sql_like (p # ps) [] = (p = CHR ''%'' \<and> sql_like ps [])"
| "sql_like (p # ps) (c # cs) =
     (if p = CHR ''%'' then sql_like ps (c # cs) \<or> sql_like (p # ps) cs
      else if p = CHR ''_'' then sql_like ps cs
      else if p = CHR 0x5C then (case ps of [] \<Rightarrow> False | q # qs \<Rightarrow> q = c \<and> sql_like qs cs)
      else p = c \<and> sql_like ps cs)"

lemma sql_like_any [simp]: "sql_like ''%'' s"
  by (induction s) auto

text \<open>Nullable columns in \<open>ORDER BY\<close>: PostgreSQL sorts nulls after every value.\<close>

datatype 'a nulls_last = Val 'a | Null

instantiation nulls_last :: (linorder) linorder
begin

fun less_eq_nulls_last :: "'a nulls_last \<Rightarrow> 'a nulls_last \<Rightarrow> bool" where
  "less_eq_nulls_last (Val a) (Val b) = (a \<le> b)"
| "less_eq_nulls_last Null (Val b) = False"
| "less_eq_nulls_last x Null = True"

definition less_nulls_last :: "'a nulls_last \<Rightarrow> 'a nulls_last \<Rightarrow> bool" where
  "less_nulls_last x y \<longleftrightarrow> x \<le> y \<and> \<not> y \<le> x"

instance
proof
  fix x y z :: "'a nulls_last"
  show "x < y \<longleftrightarrow> x \<le> y \<and> \<not> y \<le> x" by (rule less_nulls_last_def)
  show "x \<le> x" by (cases x) auto
  show "x \<le> y \<Longrightarrow> y \<le> z \<Longrightarrow> x \<le> z" by (cases x; cases y; cases z) auto
  show "x \<le> y \<Longrightarrow> y \<le> x \<Longrightarrow> x = y" by (cases x; cases y) auto
  show "x \<le> y \<or> y \<le> x" by (cases x; cases y) auto
qed

end

definition nullable :: "'a option \<Rightarrow> 'a nulls_last" where
  "nullable c = (case c of None \<Rightarrow> Null | Some x \<Rightarrow> Val x)"

subsection \<open>Lists\<close>

lemma sum_list_count_cases:
  assumes "\<And>r. r \<in> set rows \<Longrightarrow> P r \<noteq> Q r"
  shows "count_where P rows + count_where Q rows = length rows"
  using assms by (induction rows) fastforce+

text \<open>\<open>list(dict.fromkeys(xs))\<close>: the distinct elements in order of first occurrence.\<close>

fun dict_fromkeys :: "'a list \<Rightarrow> 'a list" where
  "dict_fromkeys [] = []"
| "dict_fromkeys (x # xs) = x # filter (\<lambda>y. y \<noteq> x) (dict_fromkeys xs)"

lemma set_dict_fromkeys [simp]: "set (dict_fromkeys xs) = set xs"
  by (induction xs) auto

lemma distinct_dict_fromkeys [simp]: "distinct (dict_fromkeys xs)"
  by (induction xs) auto

text \<open>\<open>[xs[i : i + n] for i in range(0, len(xs), n)]\<close>, for a positive \<open>n\<close>.\<close>

fun chunks :: "nat \<Rightarrow> 'a list \<Rightarrow> 'a list list" where
  "chunks n [] = []"
| "chunks n (x # xs) = (if n = 0 then [] else take n (x # xs) # chunks n (drop n (x # xs)))"

lemma concat_chunks [simp]: "0 < n \<Longrightarrow> concat (chunks n xs) = xs"
  by (induction n xs rule: chunks.induct) (auto simp: append_take_drop_id simp del: take_Suc_Cons drop_Suc_Cons)

lemma chunks_pieces: "c \<in> set (chunks n xs) \<Longrightarrow> c \<noteq> [] \<and> length c \<le> n"
  by (induction n xs rule: chunks.induct) (auto split: if_splits)

end
