(* ===== verification/Effects.thy ===== *)
theory Effects
  imports Prelude
begin

text \<open>
  Code with effects: a step takes the state and returns the new state with a value or the
  exception it raised (the changes made before a raise stay, as they do in the code).
  \<open>bind_step\<close> is Python's sequencing. The second half is a small calculus for what a
  step does to the state: \<open>keeps\<close> for an invariant, \<open>moves\<close> for a relation between the
  states before and after; the collection \<open>steps\<close> holds its rules.
\<close>

named_theorems steps \<open>rules for the effect of composed steps\<close>

type_synonym ('s, 'a) step = "'s \<Rightarrow> (py_error + 'a) \<times> 's"

definition return_step :: "'a \<Rightarrow> ('s, 'a) step" where
  "return_step x s = (Inr x, s)"

definition raise_step :: "py_error \<Rightarrow> ('s, 'a) step" where
  "raise_step e s = (Inl e, s)"

definition bind_step :: "('s, 'a) step \<Rightarrow> ('a \<Rightarrow> ('s, 'b) step) \<Rightarrow> ('s, 'b) step" where
  "bind_step m f s = (case m s of (Inl e, s1) \<Rightarrow> (Inl e, s1) | (Inr x, s1) \<Rightarrow> f x s1)"

definition read_step :: "('s \<Rightarrow> 'a) \<Rightarrow> ('s, 'a) step" where
  "read_step f s = (Inr (f s), s)"

definition write_step :: "('s \<Rightarrow> 's) \<Rightarrow> ('s, unit) step" where
  "write_step f s = (Inr (), f s)"

text \<open>\<open>try: m except E as e: handle(e)\<close> for the exceptions \<open>catches\<close> says yes to, and
  \<open>try: m finally: f\<close>, whose own exception would replace the first one.\<close>

definition try_step :: "('s, 'a) step \<Rightarrow> (py_error \<Rightarrow> bool) \<Rightarrow> (py_error \<Rightarrow> ('s, 'a) step) \<Rightarrow> ('s, 'a) step" where
  "try_step m catches handle s =
     (case m s of (Inl e, s1) \<Rightarrow> if catches e then handle e s1 else (Inl e, s1) | (Inr x, s1) \<Rightarrow> (Inr x, s1))"

definition finally_step :: "('s, 'a) step \<Rightarrow> ('s, unit) step \<Rightarrow> ('s, 'a) step" where
  "finally_step m f s =
     (case m s of (r, s1) \<Rightarrow> (case f s1 of (Inl e, s2) \<Rightarrow> (Inl e, s2) | (Inr _, s2) \<Rightarrow> (r, s2)))"

text \<open>\<open>except Exception\<close> catches every exception but the exits.\<close>

definition is_exception :: "py_error \<Rightarrow> bool" where
  "is_exception e \<longleftrightarrow> e \<noteq> Interrupted"

text \<open>A transaction: the body, then the commit; if either raises, \<open>undo\<close> gives back what the
  database held before.\<close>

definition in_transaction :: "('s, unit) step \<Rightarrow> ('s \<Rightarrow> 's \<Rightarrow> 's) \<Rightarrow> ('s, 'a) step \<Rightarrow> ('s, 'a) step" where
  "in_transaction commit_step undo m s =
     (case bind_step m (\<lambda>x. bind_step commit_step (\<lambda>_. return_step x)) s of
        (Inl e, s') \<Rightarrow> (Inl e, undo s s') | (Inr x, s') \<Rightarrow> (Inr x, s'))"

lemma return_step_simp [simp]: "return_step x s = (Inr x, s)"
  by (simp add: return_step_def)

lemma raise_step_simp [simp]: "raise_step e s = (Inl e, s)"
  by (simp add: raise_step_def)

lemma read_step_simp [simp]: "read_step f s = (Inr (f s), s)"
  by (simp add: read_step_def)

lemma write_step_simp [simp]: "write_step f s = (Inr (), f s)"
  by (simp add: write_step_def)

lemma bind_return [simp]: "bind_step (return_step x) f = f x"
  by (rule ext) (simp add: bind_step_def)

lemma bind_raise [simp]: "bind_step (raise_step e) f = raise_step e"
  by (rule ext) (simp add: bind_step_def)

lemma bind_assoc: "bind_step (bind_step m f) g = bind_step m (\<lambda>x. bind_step (f x) g)"
  by (rule ext) (simp add: bind_step_def split: prod.splits sum.splits)

lemma bind_stepE:
  assumes "bind_step m f s = (r, s')"
  obtains (raised) e where "m s = (Inl e, s')" and "r = Inl e"
    | (returned) x s1 where "m s = (Inr x, s1)" and "f x s1 = (r, s')"
  using assms by (auto simp: bind_step_def split: prod.splits sum.splits)

subsection \<open>What a step does to the state\<close>

definition moves :: "('s \<Rightarrow> 's \<Rightarrow> bool) \<Rightarrow> ('s, 'a) step \<Rightarrow> bool" where
  "moves R m \<longleftrightarrow> (\<forall>s r s'. m s = (r, s') \<longrightarrow> R s s')"

definition keeps :: "('s \<Rightarrow> bool) \<Rightarrow> ('s, 'a) step \<Rightarrow> bool" where
  "keeps I m \<longleftrightarrow> moves (\<lambda>s s'. I s \<longrightarrow> I s') m"

lemma movesI: "(\<And>s r s'. m s = (r, s') \<Longrightarrow> R s s') \<Longrightarrow> moves R m"
  by (simp add: moves_def)

lemma movesD: "moves R m \<Longrightarrow> m s = (r, s') \<Longrightarrow> R s s'"
  by (simp add: moves_def)

lemma keepsI: "(\<And>s r s'. I s \<Longrightarrow> m s = (r, s') \<Longrightarrow> I s') \<Longrightarrow> keeps I m"
  by (auto simp: keeps_def moves_def)

lemma keepsD: "keeps I m \<Longrightarrow> m s = (r, s') \<Longrightarrow> I s \<Longrightarrow> I s'"
  by (auto simp: keeps_def moves_def)

lemma moves_return [steps]: "reflp R \<Longrightarrow> moves R (return_step x)"
  by (auto simp: moves_def reflp_def)

lemma moves_raise [steps]: "reflp R \<Longrightarrow> moves R (raise_step e)"
  by (auto simp: moves_def reflp_def)

lemma moves_read [steps]: "reflp R \<Longrightarrow> moves R (read_step f)"
  by (auto simp: moves_def reflp_def)

lemma moves_write [steps]: "(\<And>s. R s (f s)) \<Longrightarrow> moves R (write_step f)"
  by (auto simp: moves_def)

lemma moves_bind [steps]:
  assumes "transp R" and "moves R m" and "\<And>x. moves R (f x)"
  shows "moves R (bind_step m f)"
proof (rule movesI)
  fix s r s' assume "bind_step m f s = (r, s')"
  then show "R s s'"
    by (cases rule: bind_stepE) (blast intro: movesD [OF assms(2)] movesD [OF assms(3)] transpD [OF assms(1)])+
qed

lemma moves_try [steps]:
  assumes "transp R" and "moves R m" and "\<And>e. moves R (handle e)"
  shows "moves R (try_step m catches handle)"
  using assms unfolding moves_def try_step_def
  by (auto split: prod.splits sum.splits if_splits) (meson transpD)+

lemma moves_finally [steps]:
  assumes "transp R" and "moves R m" and "moves R f"
  shows "moves R (finally_step m f)"
  using assms unfolding moves_def finally_step_def
  by (auto split: prod.splits sum.splits) (meson transpD)+

lemma moves_if [steps]: "(b \<Longrightarrow> moves R m) \<Longrightarrow> (\<not> b \<Longrightarrow> moves R n) \<Longrightarrow> moves R (if b then m else n)"
  by simp

lemma moves_option [steps]:
  "moves R m \<Longrightarrow> (\<And>x. moves R (f x)) \<Longrightarrow> moves R (case c of None \<Rightarrow> m | Some x \<Rightarrow> f x)"
  by (cases c) simp_all

lemma reflp_imp [simp]: "reflp (\<lambda>s s'. I s \<longrightarrow> I s')"
  by (simp add: reflp_def)

lemma transp_imp [simp]: "transp (\<lambda>s s'. I s \<longrightarrow> I s')"
  by (auto simp: transp_def)

lemma moves_same: "moves (\<lambda>s s'. f s' = f s) m \<Longrightarrow> m s = (r, s') \<Longrightarrow> f s' = f s"
  by (auto simp: moves_def)

subsection \<open>What holds after a step\<close>

text \<open>\<open>wp m Q s\<close>: run in \<open>s\<close>, the step's result and final state satisfy \<open>Q\<close>. The equations
  compute it along the code; \<open>wp_use\<close> plugs in what is known of a part.\<close>

definition wp :: "('s, 'a) step \<Rightarrow> (py_error + 'a \<Rightarrow> 's \<Rightarrow> bool) \<Rightarrow> 's \<Rightarrow> bool" where
  "wp m Q s = (case m s of (r, s') \<Rightarrow> Q r s')"

named_theorems wps \<open>equations of wp\<close>

lemma wpI: "(\<And>r s'. m s = (r, s') \<Longrightarrow> Q r s') \<Longrightarrow> wp m Q s"
  by (auto simp: wp_def split: prod.splits)

lemma wpD: "wp m Q s \<Longrightarrow> m s = (r, s') \<Longrightarrow> Q r s'"
  by (simp add: wp_def)

lemma wp_use: "wp m Q s \<Longrightarrow> (\<And>r s'. Q r s' \<Longrightarrow> Q' r s') \<Longrightarrow> wp m Q' s"
  by (auto simp: wp_def split: prod.splits)

lemma wp_conj: "wp m P s \<Longrightarrow> wp m Q s \<Longrightarrow> wp m (\<lambda>r s'. P r s' \<and> Q r s') s"
  by (auto simp: wp_def split: prod.splits)

lemma wp_moves: "moves R m \<Longrightarrow> wp m (\<lambda>_ s'. R s s') s"
  by (auto simp: wp_def moves_def split: prod.splits)

lemma moves_wp: "(\<And>s. wp m (\<lambda>_ s'. R s s') s) \<Longrightarrow> moves R m"
  by (rule movesI) (metis wpD)

lemma wp_return [wps]: "wp (return_step x) Q s = Q (Inr x) s"
  by (simp add: wp_def)

lemma wp_raise [wps]: "wp (raise_step e) Q s = Q (Inl e) s"
  by (simp add: wp_def)

lemma wp_read [wps]: "wp (read_step f) Q s = Q (Inr (f s)) s"
  by (simp add: wp_def)

lemma wp_write [wps]: "wp (write_step f) Q s = Q (Inr ()) (f s)"
  by (simp add: wp_def)

lemma wp_bind [wps]:
  "wp (bind_step m f) Q s = wp m (\<lambda>r s'. case r of Inl e \<Rightarrow> Q (Inl e) s' | Inr x \<Rightarrow> wp (f x) Q s') s"
  by (simp add: wp_def bind_step_def split: prod.splits sum.splits)

lemma wp_try [wps]:
  "wp (try_step m catches handle) Q s =
     wp m (\<lambda>r s'. case r of Inl e \<Rightarrow> if catches e then wp (handle e) Q s' else Q (Inl e) s' | Inr x \<Rightarrow> Q (Inr x) s') s"
  by (simp add: wp_def try_step_def split: prod.splits sum.splits)

lemma wp_finally [wps]:
  "wp (finally_step m f) Q s =
     wp m (\<lambda>r s'. wp f (\<lambda>r' s2. case r' of Inl e \<Rightarrow> Q (Inl e) s2 | Inr _ \<Rightarrow> Q r s2) s') s"
  by (simp add: wp_def finally_step_def split: prod.splits sum.splits)

text \<open>Rules that follow the code, for the parts of which nothing more is needed.\<close>

lemma wp_any: "(\<And>r s'. Q r s') \<Longrightarrow> wp m Q s"
  by (simp add: wp_def split: prod.splits)

lemma wp_bindI: "wp m (\<lambda>r s'. case r of Inl e \<Rightarrow> Q (Inl e) s' | Inr x \<Rightarrow> wp (f x) Q s') s \<Longrightarrow> wp (bind_step m f) Q s"
  by (simp add: wp_bind)

lemma wp_bind_any: "(\<And>e s. Q (Inl e) s) \<Longrightarrow> (\<And>x s. wp (f x) Q s) \<Longrightarrow> wp (bind_step m f) Q s"
  unfolding wp_bind by (rule wp_any) (simp split: sum.splits)

lemma wp_split_if: "(b \<Longrightarrow> wp m Q s) \<Longrightarrow> (\<not> b \<Longrightarrow> wp n Q s) \<Longrightarrow> wp (if b then m else n) Q s"
  by simp

lemma wp_split_option:
  "(c = None \<Longrightarrow> wp m Q s) \<Longrightarrow> (\<And>x. c = Some x \<Longrightarrow> wp (f x) Q s) \<Longrightarrow> wp (case c of None \<Rightarrow> m | Some x \<Rightarrow> f x) Q s"
  by (cases c) simp_all

text \<open>A property of the state alone, kept along a sequence of steps.\<close>

lemma wp_seq: "wp m (\<lambda>_. I) s \<Longrightarrow> (\<And>x s. I s \<Longrightarrow> wp (f x) (\<lambda>_. I) s) \<Longrightarrow> wp (bind_step m f) (\<lambda>_. I) s"
  unfolding wp_bind by (rule wp_use [where Q = "\<lambda>_. I"]) (simp_all split: sum.split)

lemma wp_stay: "I s \<Longrightarrow> wp (return_step x) (\<lambda>_. I) s" "I s \<Longrightarrow> wp (raise_step e) (\<lambda>_. I) s"
  by (simp_all add: wps)

end
