(* ===== verification/Values.thy ===== *)
theory Values
  imports Prelude
begin

text \<open>
  The Python values that records, job payloads and runtime parameters are made of, and the
  JSON-safe normalisation of \<open>reflowfy/core/serialization.py\<close>. A dict is the list of its
  items in insertion order, without duplicate keys; keys are strings, the only ones JSON
  has. An object that knows \<open>to_dict\<close> carries the value that method returns, any other
  object its \<open>__dict__\<close>, and a value with neither (a \<open>datetime\<close>) the text \<open>str\<close> gives it.
\<close>

datatype pyval =
    PNone
  | PBool bool
  | PInt int
  | PFloat rat
  | PStr string
  | PList "pyval list"
  | PTuple "pyval list"
  | PDict "(string \<times> pyval) list"
  | PToDict pyval
  | PObject "(string \<times> pyval) list"
  | POpaque string

type_synonym pydict = "(string \<times> pyval) list"

text \<open>Python truthiness of a value.\<close>

fun truthy :: "pyval \<Rightarrow> bool" where
  "truthy PNone = False"
| "truthy (PBool b) = b"
| "truthy (PInt i) = (i \<noteq> 0)"
| "truthy (PFloat r) = (r \<noteq> 0)"
| "truthy (PStr s) = (s \<noteq> [])"
| "truthy (PList xs) = (xs \<noteq> [])"
| "truthy (PTuple xs) = (xs \<noteq> [])"
| "truthy (PDict kvs) = (kvs \<noteq> [])"
| "truthy (PToDict v) = True"
| "truthy (PObject kvs) = True"
| "truthy (POpaque s) = True"

subsection \<open>Dicts\<close>

definition dget :: "pydict \<Rightarrow> string \<Rightarrow> pyval option" where
  "dget d k = map_of d k"

definition dget_or :: "pydict \<Rightarrow> string \<Rightarrow> pyval \<Rightarrow> pyval" where
  "dget_or d k v = (case dget d k of Some x \<Rightarrow> x | None \<Rightarrow> v)"

fun dset :: "pydict \<Rightarrow> string \<Rightarrow> pyval \<Rightarrow> pydict" where
  "dset [] k v = [(k, v)]"
| "dset ((k', v') # d) k v = (if k' = k then (k, v) # d else (k', v') # dset d k v)"

text \<open>\<open>{**d, **e}\<close> and \<open>d.update(e)\<close>; \<open>{k: v for k, v in d.items() if p(k)}\<close>.\<close>

fun dupdate :: "pydict \<Rightarrow> pydict \<Rightarrow> pydict" where
  "dupdate d [] = d"
| "dupdate d ((k, v) # e) = dupdate (dset d k v) e"

definition dfilter :: "(string \<Rightarrow> bool) \<Rightarrow> pydict \<Rightarrow> pydict" where
  "dfilter p d = filter (\<lambda>(k, _). p k) d"

definition dkeys :: "pydict \<Rightarrow> string list" where
  "dkeys d = map fst d"

definition dict_ok :: "pydict \<Rightarrow> bool" where
  "dict_ok d \<longleftrightarrow> distinct (dkeys d)"

lemma dget_Nil [simp]: "dget [] k = None"
  by (simp add: dget_def)

lemma dget_Cons [simp]: "dget ((k', v) # d) k = (if k' = k then Some v else dget d k)"
  by (simp add: dget_def)

lemma dget_dset [simp]: "dget (dset d k v) k' = (if k' = k then Some v else dget d k')"
  by (induction d k v rule: dset.induct) (auto simp: dget_def)

lemma dkeys_Nil [simp]: "dkeys [] = []"
  by (simp add: dkeys_def)

lemma dkeys_Cons [simp]: "dkeys ((k, v) # d) = k # dkeys d"
  by (simp add: dkeys_def)

lemma set_dkeys_dset [simp]: "set (dkeys (dset d k v)) = insert k (set (dkeys d))"
  by (induction d k v rule: dset.induct) auto

lemma dict_ok_dset: "dict_ok d \<Longrightarrow> dict_ok (dset d k v)"
  by (induction d k v rule: dset.induct) (auto simp: dict_ok_def)

lemma dict_ok_dupdate: "dict_ok d \<Longrightarrow> dict_ok (dupdate d e)"
  by (induction d e rule: dupdate.induct) (auto intro: dict_ok_dset)

lemma set_dkeys_dupdate [simp]: "set (dkeys (dupdate d e)) = set (dkeys d) \<union> set (dkeys e)"
  by (induction d e rule: dupdate.induct) auto

lemma dget_None_iff: "dget d k = None \<longleftrightarrow> k \<notin> set (dkeys d)"
  by (simp add: dget_def dkeys_def map_of_eq_None_iff)

lemma dget_dupdate:
  "dict_ok e \<Longrightarrow> dget (dupdate d e) k = (case dget e k of Some v \<Rightarrow> Some v | None \<Rightarrow> dget d k)"
proof (induction d e rule: dupdate.induct)
  case (2 d k' v e)
  then have "k' \<notin> set (dkeys e)" and "dict_ok e" by (auto simp: dict_ok_def)
  then have "dget e k' = None" by (simp add: dget_None_iff)
  with 2 \<open>dict_ok e\<close> show ?case by (auto split: option.splits)
qed simp

lemma dget_dfilter [simp]: "dget (dfilter p d) k = (if p k then dget d k else None)"
  by (induction d) (auto simp: dfilter_def dget_def)

lemma dict_ok_dfilter: "dict_ok d \<Longrightarrow> dict_ok (dfilter p d)"
  by (induction d) (auto simp: dict_ok_def dfilter_def dkeys_def)

subsection \<open>to\_json\_safe\<close>

fun to_json_safe :: "pyval \<Rightarrow> pyval" where
  "to_json_safe (PList xs) = PList (map to_json_safe xs)"
| "to_json_safe (PTuple xs) = PList (map to_json_safe xs)"
| "to_json_safe (PDict kvs) = PDict (map (\<lambda>(k, v). (k, to_json_safe v)) kvs)"
| "to_json_safe (PToDict v) = to_json_safe v"
| "to_json_safe (PObject kvs) = PDict (map (\<lambda>(k, v). (k, to_json_safe v)) kvs)"
| "to_json_safe (POpaque s) = PStr s"
| "to_json_safe v = v"

text \<open>The values JSON can hold.\<close>

fun json_value :: "pyval \<Rightarrow> bool" where
  "json_value (PList xs) = (\<forall>x \<in> set xs. json_value x)"
| "json_value (PDict kvs) = (\<forall>(k, v) \<in> set kvs. json_value v)"
| "json_value (PTuple xs) = False"
| "json_value (PToDict v) = False"
| "json_value (PObject kvs) = False"
| "json_value (POpaque s) = False"
| "json_value v = True"

lemma to_json_safe_json: "json_value (to_json_safe v)"
  by (induction v rule: to_json_safe.induct) auto

lemma to_json_safe_id: "json_value v \<Longrightarrow> to_json_safe v = v"
proof (induction v rule: to_json_safe.induct)
  case (1 xs)
  then show ?case by (auto intro: map_idI)
next
  case (3 kvs)
  then show ?case by (auto intro!: map_idI)
qed simp_all

text \<open>\<open>to_json_safe\<close> yields a JSON value whatever it is given (tuples, objects and
  dates included) and changes nothing in a value that already is one, so normalising
  again where the payload is built, and where the worker reads it, is harmless.\<close>

theorem to_json_safe_normalises:
  "json_value (to_json_safe v) \<and> to_json_safe (to_json_safe v) = to_json_safe v"
  by (simp add: to_json_safe_json to_json_safe_id)

end
