(* ===== verification/Text.thy ===== *)
theory Text
  imports Prelude "HOL-Library.Sublist" "HOL-Library.List_Lexorder"
begin

text \<open>
  What the program uses of Python's \<open>str\<close>: lower-casing, stripping, substring search,
  splitting, numbers to and from text, and the text of an exception. Characters are those of
  the model, Latin-1.
\<close>

definition lower_char :: "char \<Rightarrow> char" where
  "lower_char c = (let n = (of_char c :: nat) in
     if (65 \<le> n \<and> n \<le> 90) \<or> (192 \<le> n \<and> n \<le> 222 \<and> n \<noteq> 215) then char_of (n + 32) else c)"

fun substring :: "string \<Rightarrow> string \<Rightarrow> bool" where
  "substring m [] = (m = [])"
| "substring m (c # cs) = (prefix m (c # cs) \<or> substring m cs)"

definition is_blank :: "char \<Rightarrow> bool" where
  "is_blank c \<longleftrightarrow> (of_char c :: nat) \<in> {9, 10, 11, 12, 13, 28, 29, 30, 31, 32, 133, 160}"

definition strip :: "string \<Rightarrow> string" where
  "strip s = rev (dropWhile is_blank (rev (dropWhile is_blank s)))"

fun nat_text :: "nat \<Rightarrow> string" where
  "nat_text n = (if n < 10 then [char_of (48 + n)] else nat_text (n div 10) @ [char_of (48 + n mod 10)])"

declare nat_text.simps [simp del]

definition int_text :: "int \<Rightarrow> string" where
  "int_text i = (if i < 0 then CHR ''-'' # nat_text (nat (- i)) else nat_text (nat i))"

definition lower :: "string \<Rightarrow> string" where
  "lower s = map lower_char s"

text \<open>\<open>s.split(c)\<close> for a single character.\<close>

fun split_at :: "char \<Rightarrow> string \<Rightarrow> string list" where
  "split_at c [] = [[]]"
| "split_at c (x # xs) =
     (if x = c then [] # split_at c xs
      else case split_at c xs of [] \<Rightarrow> [[x]] | y # ys \<Rightarrow> (x # y) # ys)"

definition digit_value :: "char \<Rightarrow> nat option" where
  "digit_value c = (let n = (of_char c :: nat) in if 48 \<le> n \<and> n \<le> 57 then Some (n - 48) else None)"

text \<open>\<open>int(s)\<close>: blanks around, a sign, digits with single underscores between them; \<open>None\<close> is
  the \<open>ValueError\<close>.\<close>

fun digits_value :: "nat \<Rightarrow> bool \<Rightarrow> string \<Rightarrow> nat option" where
  "digits_value acc after_digit [] = (if after_digit then Some acc else None)"
| "digits_value acc after_digit (c # cs) =
     (if c = CHR ''_'' then (if after_digit then digits_value acc False cs else None)
      else case digit_value c of Some d \<Rightarrow> digits_value (10 * acc + d) True cs | None \<Rightarrow> None)"

definition py_int :: "string \<Rightarrow> int option" where
  "py_int s = (case strip s of
      [] \<Rightarrow> None
    | c # cs \<Rightarrow>
        if c = CHR ''-'' then map_option (\<lambda>n. - int n) (digits_value 0 False cs)
        else if c = CHR ''+'' then map_option int (digits_value 0 False cs)
        else map_option int (digits_value 0 False (c # cs)))"

text \<open>\<open>type(e).__name__\<close> and \<open>str(e)\<close>. A \<open>KeyError\<close> shows the key quoted.\<close>

fun error_type :: "py_error \<Rightarrow> string" where
  "error_type (ValueError m) = ''ValueError''"
| "error_type (TypeError m) = ''TypeError''"
| "error_type (KeyError m) = ''KeyError''"
| "error_type (RuntimeError m) = ''RuntimeError''"
| "error_type (IntegrityError m) = ''IntegrityError''"
| "error_type ZeroDivisionError = ''ZeroDivisionError''"
| "error_type DBAPIError = ''DBAPIError''"
| "error_type (PipelineError m) = ''PipelineError''"
| "error_type (SkipJob m) = ''SkipJob''"
| "error_type (SkipRecord m) = ''SkipRecord''"
| "error_type (RecordValidationError m) = ''RecordValidationError''"
| "error_type (NotImplementedError m) = ''NotImplementedError''"
| "error_type (TransformationError n m i c) = ''TransformationError''"
| "error_type (StepOutputError n m i c) = ''StepOutputError''"
| "error_type (RecordFailure i m) = ''RecordFailure''"
| "error_type (HTTPException c m) = ''HTTPException''"
| "error_type (OtherError t m) = t"
| "error_type Interrupted = ''CancelledError''"

fun error_text :: "py_error \<Rightarrow> string" where
  "error_text (ValueError m) = m"
| "error_text (TypeError m) = m"
| "error_text (KeyError m) = CHR 0x27 # m @ [CHR 0x27]"
| "error_text (RuntimeError m) = m"
| "error_text (IntegrityError m) = m"
| "error_text ZeroDivisionError = ''division by zero''"
| "error_text DBAPIError = ''database error''"
| "error_text (PipelineError m) = m"
| "error_text (SkipJob m) = m"
| "error_text (SkipRecord m) = m"
| "error_text (RecordValidationError m) = m"
| "error_text (NotImplementedError m) = m"
| "error_text (TransformationError n m i c) = ''Transformation '' @ [CHR 0x27] @ n @ [CHR 0x27] @ '' failed: '' @ m"
| "error_text (StepOutputError n m i c) = ''Transformation '' @ [CHR 0x27] @ n @ [CHR 0x27] @ '' failed: '' @ m"
| "error_text (RecordFailure i m) = ''record '' @ nat_text i @ '': '' @ m"
| "error_text (HTTPException c m) = nat_text c @ '': '' @ m"
| "error_text (OtherError t m) = m"
| "error_text Interrupted = []"

definition quoted :: "string \<Rightarrow> string" where
  "quoted s = CHR 0x27 # s @ [CHR 0x27]"

end
