(* ===== verification/JobRunner.thy ===== *)
theory JobRunner
  imports Effects Values Text "HOL-Library.Multiset"
begin

text \<open>
  What a job does to its records: \<open>execution/job_runner.py\<close>,
  \<open>execution/transformation_runner.py\<close>, the per-record transformations of
  \<open>transformations/base.py\<close> and the reports of \<open>core/record_validation.py\<close>. User code (hooks,
  transformations, pydantic's check of a record) is a parameter. The state of the steps is
  the job's \<open>runtime_params\<close>, the dict all hooks share and may change; durations are left out.
\<close>

subsection \<open>Skip reasons\<close>

definition MAX_SKIP_REASONS :: nat where "MAX_SKIP_REASONS = 20"
definition MAX_SKIP_REASON_LENGTH :: nat where "MAX_SKIP_REASON_LENGTH = 200"
definition OTHER_SKIP_REASON :: string where "OTHER_SKIP_REASON = ''(other reasons)''"

type_synonym reasons = "(string \<times> nat) list"

fun add_count :: "string \<Rightarrow> nat \<Rightarrow> reasons \<Rightarrow> reasons" where
  "add_count r n [] = [(r, n)]"
| "add_count r n ((r', m) # rs) = (if r' = r then (r', m + n) # rs else (r', m) # add_count r n rs)"

definition count_skip_reason :: "reasons \<Rightarrow> string \<Rightarrow> nat \<Rightarrow> reasons" where
  "count_skip_reason reasons reason n_times =
     (let cut = take MAX_SKIP_REASON_LENGTH reason;
          r = (if cut = [] then ''(no reason)'' else cut);
          r' = (if r \<notin> fst ` set reasons \<and> MAX_SKIP_REASONS \<le> length reasons then OTHER_SKIP_REASON else r)
      in add_count r' n_times reasons)"

definition top_skip_reasons :: "(string \<Rightarrow> string) \<Rightarrow> nat \<Rightarrow> reasons \<Rightarrow> string" where
  "top_skip_reasons repr limit reasons =
     (let top = take limit (sort_key (\<lambda>(_, n). - int n) reasons);
          more = length reasons - length top;
          items = map (\<lambda>(r, n). repr r @ '' x'' @ nat_text n) top;
          text = (case items of [] \<Rightarrow> [] | x # xs \<Rightarrow> x @ concat (map (\<lambda>y. '', '' @ y) xs))
      in if 0 < more then text @ '', +'' @ nat_text more @ '' more'' else text)"

subsection \<open>The names of errors\<close>

text \<open>\<open>with pipeline_step(step, name)\<close>: an error that says itself where it comes from passes,
  any other exception becomes a \<open>PipelineError\<close> naming the step.\<close>

fun names_its_step :: "py_error \<Rightarrow> bool" where
  "names_its_step (PipelineError m) = True"
| "names_its_step (SkipJob m) = True"
| "names_its_step (SkipRecord m) = True"
| "names_its_step (RecordValidationError m) = True"
| "names_its_step (TransformationError n m i c) = True"
| "names_its_step (StepOutputError n m i c) = True"
| "names_its_step (NotImplementedError m) = True"
| "names_its_step e = False"

definition step_error :: "string \<Rightarrow> string \<Rightarrow> py_error \<Rightarrow> py_error" where
  "step_error step_name pipeline_name e =
     (if names_its_step e \<or> e = Interrupted then e
      else PipelineError (step_name @ '' of pipeline '' @ quoted pipeline_name @ '' raised '' @
        error_type e @ '': '' @ error_text e))"

definition pipeline_step :: "string \<Rightarrow> string \<Rightarrow> ('s, 'a) step \<Rightarrow> ('s, 'a) step" where
  "pipeline_step step_name pipeline_name m =
     try_step m (\<lambda>_. True) (\<lambda>e. raise_step (step_error step_name pipeline_name e))"

subsection \<open>The record check\<close>

text \<open>\<open>invalid\<close>: for each record that does not match, its position and what is wrong.\<close>

definition MAX_INVALID_SHOWN :: nat where "MAX_INVALID_SHOWN = 3"

definition join :: "string \<Rightarrow> string list \<Rightarrow> string" where
  "join sep xs = (case xs of [] \<Rightarrow> [] | x # ys \<Rightarrow> x @ concat (map (\<lambda>y. sep @ y) ys))"

definition describe_invalid :: "(nat \<times> string) list \<Rightarrow> nat \<Rightarrow> string \<Rightarrow> string" where
  "describe_invalid invalid total_records label =
     (let shown = take MAX_INVALID_SHOWN (sort_key fst invalid);
          text = join ''; '' (map (\<lambda>(i, r). ''record '' @ nat_text (i + 1) @ '' of '' @ nat_text total_records @
            '' does not match '' @ label @ '': '' @ r) shown);
          more = length invalid - length shown
      in if 0 < more then text @ '' (+'' @ nat_text more @ '' more invalid)'' else text)"

record applied_step =
  ap_name :: string
  ap_in :: nat
  ap_out :: nat
  ap_mode :: string
  ap_concurrency :: "nat option"
  ap_skips :: "reasons option"

definition records_skipped :: "applied_step \<Rightarrow> nat" where
  "records_skipped a = (case ap_skips a of None \<Rightarrow> 0 | Some rs \<Rightarrow> sum_list (map snd rs))"

definition delta :: "applied_step \<Rightarrow> int" where
  "delta a = int (ap_out a) - int (ap_in a)"

text \<open>The pipeline's declared record type: pydantic's check and the type's label.\<close>

record record_type =
  rt_check :: "pyval list \<Rightarrow> (nat \<times> string) list"
  rt_label :: string

definition check_record_type ::
  "record_type \<Rightarrow> bool \<Rightarrow> pyval list \<Rightarrow> py_error + pyval list \<times> applied_step" where
  "check_record_type rt skip_invalid records =
     (let invalid = rt_check rt records in
      if invalid = []
      then Inr (records, \<lparr>ap_name = ''record_type'', ap_in = length records, ap_out = length records,
             ap_mode = ''validate'', ap_concurrency = None, ap_skips = None\<rparr>)
      else if \<not> skip_invalid
      then Inl (RecordValidationError (describe_invalid invalid (length records) (rt_label rt)))
      else let skips = foldl (\<lambda>rs (_, reason). count_skip_reason rs (''invalid '' @ reason) 1) [] invalid;
               kept = map snd (filter (\<lambda>(i, r). i \<notin> fst ` set invalid) (zip [0..<length records] records))
           in Inr (kept, \<lparr>ap_name = ''record_type'', ap_in = length records, ap_out = length kept,
                ap_mode = ''validate'', ap_concurrency = None, ap_skips = Some skips\<rparr>))"

subsection \<open>Chunks\<close>

definition chunk :: "'a list \<Rightarrow> int \<Rightarrow> py_error + 'a list list" where
  "chunk records chunk_size =
     (if chunk_size < 1 then Inl (ValueError (''chunk size must be >= 1, got '' @ int_text chunk_size))
      else Inr (chunks (nat chunk_size) records))"

subsection \<open>Transformations\<close>

type_synonym 'a hook = "(pydict, 'a) step"

record per_record =
  pr_setup :: "unit hook"
  pr_teardown :: "unit hook"
  pr_apply :: "pyval \<Rightarrow> pyval option hook"
  pr_concurrency :: "nat option"

text \<open>A synchronous, an asynchronous or a per-record transformation. The hooks
  \<open>validate_input\<close> and \<open>validate_output\<close> do nothing unless overridden; \<open>output_type\<close> is what
  \<open>step_output_type\<close> finds.\<close>

datatype kind =
    SyncStep "pyval list \<Rightarrow> pyval list hook"
  | AsyncStep "pyval list \<Rightarrow> pyval list hook"
  | RecordStep per_record

record transformation =
  tr_name :: string
  tr_kind :: kind
  tr_validate_input :: "pyval list \<Rightarrow> unit hook"
  tr_validate_output :: "pyval list \<Rightarrow> unit hook"
  tr_output_type :: "record_type option"

definition default_record_concurrency :: "string \<Rightarrow> py_error + nat" where
  "default_record_concurrency raw =
     (if strip raw = [] then Inr 16
      else case py_int raw of
          None \<Rightarrow> Inl (ValueError (''TRANSFORM_CONCURRENCY must be an integer, got '' @ quoted raw))
        | Some v \<Rightarrow> if v < 1 then Inl (ValueError (''TRANSFORM_CONCURRENCY must be >= 1, got '' @ int_text v))
                    else Inr (nat v))"

definition effective_concurrency :: "string \<Rightarrow> per_record \<Rightarrow> py_error + nat" where
  "effective_concurrency raw t =
     (case pr_concurrency t of Some n \<Rightarrow> Inr n | None \<Rightarrow> default_record_concurrency raw)"

text \<open>What became of one record: \<open>_apply_one\<close> turns \<open>SkipRecord\<close> into a mark, lets \<open>SkipJob\<close>
  through and names the record in any other failure.\<close>

datatype record_result = Kept pyval | Dropped | Skipped string

definition apply_one :: "per_record \<Rightarrow> nat \<Rightarrow> pyval \<Rightarrow> record_result hook" where
  "apply_one t index r =
     try_step (bind_step (pr_apply t r) (\<lambda>v. return_step (case v of None \<Rightarrow> Dropped | Some x \<Rightarrow> Kept x)))
       (\<lambda>e. e \<noteq> Interrupted)
       (\<lambda>e. case e of
          SkipJob m \<Rightarrow> raise_step (SkipJob m)
        | RecordFailure i m \<Rightarrow> raise_step (RecordFailure i m)
        | SkipRecord m \<Rightarrow> return_step (Skipped m)
        | _ \<Rightarrow> raise_step (RecordFailure index (error_type e @ '': '' @ error_text e)))"

text \<open>\<open>_apply_all\<close>: the pool writes each record's result at the record's own position, in
  whatever order the calls finish (\<open>order\<close>); the first failure ends the step.\<close>

fun apply_all :: "per_record \<Rightarrow> pyval list \<Rightarrow> nat list \<Rightarrow> record_result list \<Rightarrow> record_result list hook" where
  "apply_all t records [] results = return_step results"
| "apply_all t records (i # order) results =
     bind_step (apply_one t i (records ! i)) (\<lambda>r. apply_all t records order (results[i := r]))"

fun collect :: "record_result list \<Rightarrow> pyval list \<Rightarrow> reasons \<Rightarrow> pyval list \<times> reasons" where
  "collect [] kept skips = (kept, skips)"
| "collect (Skipped m # rs) kept skips = collect rs kept (count_skip_reason skips m 1)"
| "collect (Dropped # rs) kept skips = collect rs kept skips"
| "collect (Kept v # rs) kept skips = collect rs (kept @ [v]) skips"

definition apply_records :: "per_record \<Rightarrow> (nat \<Rightarrow> nat list) \<Rightarrow> pyval list \<Rightarrow> (pyval list \<times> reasons) hook" where
  "apply_records t order records =
     (if records = [] then return_step ([], [])
      else bind_step (pr_setup t) (\<lambda>_.
           bind_step (finally_step (apply_all t records (order (length records)) (replicate (length records) Dropped))
             (pr_teardown t)) (\<lambda>results.
           return_step (collect results [] []))))"

definition run_step ::
  "string \<Rightarrow> (nat \<Rightarrow> nat list) \<Rightarrow> transformation \<Rightarrow> pyval list \<Rightarrow> (pyval list \<times> reasons option) hook" where
  "run_step raw order t records =
     (case tr_kind t of
        SyncStep f \<Rightarrow>
          bind_step (tr_validate_input t records) (\<lambda>_.
          bind_step (f records) (\<lambda>out.
          bind_step (tr_validate_output t out) (\<lambda>_. return_step (out, None))))
      | AsyncStep f \<Rightarrow>
          bind_step (tr_validate_input t records) (\<lambda>_.
          bind_step (f records) (\<lambda>out.
          bind_step (tr_validate_output t out) (\<lambda>_. return_step (out, None))))
      | RecordStep p \<Rightarrow>
          (case effective_concurrency raw p of
             Inl e \<Rightarrow> raise_step e
           | Inr _ \<Rightarrow>
               bind_step (tr_validate_input t records) (\<lambda>_.
               bind_step (apply_records p order records) (\<lambda>(out, skips).
               bind_step (tr_validate_output t out) (\<lambda>_. return_step (out, Some skips))))))"

definition check_step_output :: "transformation \<Rightarrow> pyval list \<Rightarrow> nat \<Rightarrow> unit hook" where
  "check_step_output t records step_index =
     (case tr_output_type t of
        None \<Rightarrow> return_step ()
      | Some rt \<Rightarrow>
          if records = [] then return_step ()
          else let invalid = rt_check rt records in
            if invalid = [] then return_step ()
            else raise_step (StepOutputError (tr_name t)
              (''returned '' @ describe_invalid invalid (length records) (rt_label rt)) step_index
              (Min (fst ` set invalid))))"

text \<open>Only a \<open>KeyError\<close> points at a record: the first dict without the key.\<close>

fun find_index :: "('a \<Rightarrow> bool) \<Rightarrow> 'a list \<Rightarrow> nat option" where
  "find_index P [] = None"
| "find_index P (x # xs) = (if P x then Some 0 else map_option Suc (find_index P xs))"

definition find_culprit_record :: "py_error \<Rightarrow> pyval list \<Rightarrow> nat option" where
  "find_culprit_record e records =
     (case e of
        KeyError k \<Rightarrow> find_index (\<lambda>r. case r of PDict kvs \<Rightarrow> dget kvs k = None | _ \<Rightarrow> False) (take 10000 records)
      | _ \<Rightarrow> None)"

fun mode_of :: "kind \<Rightarrow> string" where
  "mode_of (SyncStep f) = ''sync''"
| "mode_of (AsyncStep f) = ''async''"
| "mode_of (RecordStep p) = ''per_record''"

definition transform_error :: "transformation \<Rightarrow> nat \<Rightarrow> pyval list \<Rightarrow> py_error \<Rightarrow> py_error" where
  "transform_error t step_index records e =
     (case e of
        TransformationError n m i c \<Rightarrow> e
      | StepOutputError n m i c \<Rightarrow> e
      | SkipJob m \<Rightarrow> e
      | Interrupted \<Rightarrow> e
      | SkipRecord m \<Rightarrow> TransformationError (tr_name t)
          (''SkipRecord('' @ quoted m @ '') raised from a '' @ mode_of (tr_kind t) @
           '' transformation; it only works in a per-record one (@record_transformation). Filter the record out of the list instead, or raise SkipJob to drop the whole job.'')
          (Some step_index) None
      | RecordFailure i m \<Rightarrow> TransformationError (tr_name t) (error_text e) (Some step_index) (Some i)
      | _ \<Rightarrow> TransformationError (tr_name t) (error_type e @ '': '' @ error_text e) (Some step_index)
          (find_culprit_record e records))"

record 'd pipeline =
  pl_name :: string
  pl_record_type :: "record_type option"
  pl_skip_invalid :: bool
  pl_validate_steps :: bool
  pl_transformations :: "pyval list \<Rightarrow> transformation list hook"
  pl_destination :: "pyval list \<Rightarrow> 'd hook"

definition concurrency_of :: "string \<Rightarrow> kind \<Rightarrow> nat option" where
  "concurrency_of raw k = (case k of
     RecordStep p \<Rightarrow> (case effective_concurrency raw p of Inr n \<Rightarrow> Some n | Inl _ \<Rightarrow> None) | _ \<Rightarrow> None)"

text \<open>The \<open>try\<close> statement of the loop, and the report of the step it ran.\<close>

definition try_transformation ::
  "string \<Rightarrow> (nat \<Rightarrow> nat list) \<Rightarrow> 'd pipeline \<Rightarrow> transformation \<Rightarrow> nat \<Rightarrow> pyval list \<Rightarrow>
     (pyval list \<times> reasons option) hook" where
  "try_transformation raw order p t step_index records =
     try_step
       (bind_step (run_step raw order t records) (\<lambda>(out, skips).
        bind_step (if pl_validate_steps p then check_step_output t out step_index else return_step ()) (\<lambda>_.
        return_step (out, skips))))
       (\<lambda>_. True)
       (\<lambda>e. raise_step (transform_error t step_index records e))"

definition report_step ::
  "string \<Rightarrow> transformation \<Rightarrow> pyval list \<Rightarrow> pyval list \<Rightarrow> reasons option \<Rightarrow> applied_step" where
  "report_step raw t records out skips = \<lparr>ap_name = tr_name t, ap_in = length records, ap_out = length out,
     ap_mode = mode_of (tr_kind t), ap_concurrency = concurrency_of raw (tr_kind t), ap_skips = skips\<rparr>"

text \<open>The loop: the list is asked for again after every step, always with the original
  records. \<open>left\<close> is \<open>max_steps\<close> minus the steps applied.\<close>

fun transform_loop ::
  "string \<Rightarrow> (nat \<Rightarrow> nat list) \<Rightarrow> 'd pipeline \<Rightarrow> pyval list \<Rightarrow> nat \<Rightarrow> nat \<Rightarrow> pyval list \<Rightarrow> applied_step list \<Rightarrow>
     (pyval list \<times> applied_step list) hook" where
  "transform_loop raw order p original max_steps left transformed applied =
     bind_step (pl_transformations p original) (\<lambda>current.
      if length current \<le> length applied then return_step (transformed, applied)
      else case left of
          0 \<Rightarrow> raise_step (TransformationError (pl_name p)
                 (''Exceeded max_steps='' @ nat_text max_steps @ '' while resolving transformations; define_transformations appears to append without bound.'') None None)
        | Suc left' \<Rightarrow>
            let t = current ! length applied in
            bind_step (try_transformation raw order p t (length applied) transformed) (\<lambda>(out, skips).
            transform_loop raw order p original max_steps left' out
              (applied @ [report_step raw t transformed out skips])))"

definition DEFAULT_MAX_STEPS :: nat where "DEFAULT_MAX_STEPS = 1000"

definition apply_transformations ::
  "string \<Rightarrow> (nat \<Rightarrow> nat list) \<Rightarrow> 'd pipeline \<Rightarrow> pyval list \<Rightarrow> nat \<Rightarrow> (pyval list \<times> applied_step list) hook" where
  "apply_transformations raw order p original max_steps =
     transform_loop raw order p original max_steps max_steps original []"

subsection \<open>One job\<close>

definition set_param :: "string \<Rightarrow> pyval \<Rightarrow> unit hook" where
  "set_param k v = write_step (\<lambda>params. dset params k v)"

record 'd outcome =
  oc_records :: "pyval list"
  oc_transformed :: "pyval list"
  oc_applied :: "applied_step list"
  oc_destination :: "'d option"

definition nothing_to_do :: "pyval list \<Rightarrow> 'd outcome" where
  "nothing_to_do records = \<lparr>oc_records = records, oc_transformed = [], oc_applied = [], oc_destination = None\<rparr>"

text \<open>The body of the \<open>try\<close> statement, then the function.\<close>

definition job_body ::
  "string \<Rightarrow> (nat \<Rightarrow> nat list) \<Rightarrow> pyval list hook \<Rightarrow> 'd pipeline \<Rightarrow> nat option \<Rightarrow> 'd outcome hook" where
  "job_body raw order fetch p limit =
     bind_step (pipeline_step ''source fetch'' (pl_name p)
           (bind_step fetch (\<lambda>rs. return_step (map to_json_safe rs)))) (\<lambda>fetched.
        let records = (case limit of Some n \<Rightarrow> take n fetched | None \<Rightarrow> fetched) in
        if records = [] then return_step (nothing_to_do records) else
        bind_step (case pl_record_type p of
            None \<Rightarrow> return_step (records, [])
          | Some rt \<Rightarrow> (case check_record_type rt (pl_skip_invalid p) records of
                Inl e \<Rightarrow> raise_step e | Inr (kept, step) \<Rightarrow> return_step (kept, [step]))) (\<lambda>(checked, checks).
        bind_step (apply_transformations raw order p checked DEFAULT_MAX_STEPS) (\<lambda>(transformed, applied).
        bind_step (pipeline_step ''define_destination'' (pl_name p) (pl_destination p transformed)) (\<lambda>d.
        return_step \<lparr>oc_records = records, oc_transformed = transformed, oc_applied = checks @ applied,
          oc_destination = Some d\<rparr>))))"

definition run_job_records ::
  "string \<Rightarrow> (nat \<Rightarrow> nat list) \<Rightarrow> pyval list hook \<Rightarrow> 'd pipeline \<Rightarrow> nat option \<Rightarrow> 'd outcome hook" where
  "run_job_records raw order fetch p limit =
     try_step (job_body raw order fetch p limit)
       (\<lambda>e. case e of SkipJob m \<Rightarrow> True | _ \<Rightarrow> False)
       (\<lambda>e. bind_step (set_param ''skip_reason'' (PStr (error_text e))) (\<lambda>_. return_step (nothing_to_do [])))"

declare transform_loop.simps [simp del]

subsection \<open>Skip reasons stay bounded\<close>

lemma add_count_keys: "fst ` set (add_count r n rs) = insert r (fst ` set rs)"
  by (induction r n rs rule: add_count.induct) auto

lemma add_count_length: "length (add_count r n rs) = (if r \<in> fst ` set rs then length rs else Suc (length rs))"
  by (induction r n rs rule: add_count.induct) auto

lemma add_count_total: "sum_list (map snd (add_count r n rs)) = sum_list (map snd rs) + n"
  by (induction r n rs rule: add_count.induct) auto

definition reasons_ok :: "reasons \<Rightarrow> bool" where
  "reasons_ok rs \<longleftrightarrow> length rs \<le> MAX_SKIP_REASONS + (if OTHER_SKIP_REASON \<in> fst ` set rs then 1 else 0) \<and>
     (\<forall>r \<in> fst ` set rs. r \<noteq> [] \<and> length r \<le> MAX_SKIP_REASON_LENGTH)"

lemma add_count_ok:
  assumes "reasons_ok rs" and "r \<noteq> []" and "length r \<le> MAX_SKIP_REASON_LENGTH"
    and "r \<in> fst ` set rs \<or> length rs < MAX_SKIP_REASONS \<or> r = OTHER_SKIP_REASON"
  shows "reasons_ok (add_count r n rs)"
proof -
  have "length (add_count r n rs) \<le> MAX_SKIP_REASONS +
      (if OTHER_SKIP_REASON \<in> insert r (fst ` set rs) then 1 else 0)"
    using assms(1,4) unfolding add_count_length reasons_ok_def by (auto simp del: image_iff split: if_splits)
  then show ?thesis using assms(1-3) by (auto simp: reasons_ok_def add_count_keys)
qed

lemma count_skip_reason_ok: "reasons_ok rs \<Longrightarrow> reasons_ok (count_skip_reason rs reason n)"
  unfolding count_skip_reason_def Let_def
  by (rule add_count_ok) (auto simp: MAX_SKIP_REASONS_def MAX_SKIP_REASON_LENGTH_def OTHER_SKIP_REASON_def)

lemma count_skip_reason_total: "sum_list (map snd (count_skip_reason rs reason n)) = sum_list (map snd rs) + n"
  by (simp add: count_skip_reason_def Let_def add_count_total)

lemma reasons_ok_Nil [simp]: "reasons_ok []"
  by (simp add: reasons_ok_def)

subsection \<open>The pool of per-record calls\<close>

text \<open>Calls that do not write the shared params: each gives the same result whenever it runs.\<close>

definition independent :: "per_record \<Rightarrow> pydict \<Rightarrow> (pyval \<Rightarrow> py_error + pyval option) \<Rightarrow> bool" where
  "independent t params f \<longleftrightarrow> (\<forall>r. pr_apply t r params = (f r, params))"

definition result_of :: "(pyval \<Rightarrow> py_error + pyval option) \<Rightarrow> pyval \<Rightarrow> record_result" where
  "result_of f r = (case f r of Inr None \<Rightarrow> Dropped | Inr (Some v) \<Rightarrow> Kept v
     | Inl (SkipRecord m) \<Rightarrow> Skipped m | Inl e \<Rightarrow> Dropped)"

definition succeeds :: "(pyval \<Rightarrow> py_error + pyval option) \<Rightarrow> pyval \<Rightarrow> bool" where
  "succeeds f r \<longleftrightarrow> (case f r of Inr v \<Rightarrow> True | Inl (SkipRecord m) \<Rightarrow> True | Inl e \<Rightarrow> False)"

lemma apply_one_result:
  "independent t params f \<Longrightarrow> succeeds f r \<Longrightarrow> apply_one t i r params = (Inr (result_of f r), params)"
  by (auto simp: apply_one_def independent_def try_step_def bind_step_def result_of_def succeeds_def
      split: sum.splits option.splits py_error.splits)

lemma apply_all_results:
  assumes "independent t params f" and "\<forall>r \<in> set records. succeeds f r"
    and "set order \<subseteq> {..<length records}"
  shows "apply_all t records order results params =
    (Inr (foldl (\<lambda>rs i. rs[i := result_of f (records ! i)]) results order), params)"
  using assms(3)
proof (induction order arbitrary: results)
  case (Cons i order)
  then have "succeeds f (records ! i)" using assms(2) by simp
  with Cons apply_one_result [OF assms(1)] show ?case by (simp add: bind_step_def)
qed simp

lemma foldl_update_length: "length (foldl (\<lambda>rs i. rs[i := g i]) results order) = length results"
  by (induction order arbitrary: results) auto

lemma foldl_update_nth:
  "i < length results \<Longrightarrow> foldl (\<lambda>rs i. rs[i := g i]) results order ! i = (if i \<in> set order then g i else results ! i)"
  by (induction order arbitrary: results) auto

lemma collect_acc:
  "collect rs kept skips = (kept @ concat (map (\<lambda>r. case r of Kept v \<Rightarrow> [v] | _ \<Rightarrow> []) rs),
     foldl (\<lambda>s m. count_skip_reason s m 1) skips (concat (map (\<lambda>r. case r of Skipped m \<Rightarrow> [m] | _ \<Rightarrow> []) rs)))"
  by (induction rs kept skips rule: collect.induct) auto

lemma apply_all_any_order:
  assumes "independent t params f" and "\<forall>r \<in> set records. succeeds f r"
    and "set order = {..<length records}"
  shows "apply_all t records order (replicate (length records) Dropped) params =
    (Inr (map (result_of f) records), params)"
proof -
  let ?res = "foldl (\<lambda>rs i. rs[i := result_of f (records ! i)]) (replicate (length records) Dropped) order"
  have "?res = map (result_of f) records"
    by (rule nth_equalityI) (simp_all add: foldl_update_length foldl_update_nth assms(3))
  then show ?thesis using apply_all_results [OF assms(1,2), of order] assms(3) by simp
qed

subsection \<open>The chain of steps\<close>

text \<open>Each step takes the records the step before it left.\<close>

fun chained :: "nat \<Rightarrow> applied_step list \<Rightarrow> nat \<Rightarrow> bool" where
  "chained n [] m = (n = m)"
| "chained n (a # as) m = (ap_in a = n \<and> chained (ap_out a) as m)"

lemma chained_snoc: "chained n (as @ [a]) m = (\<exists>k. chained n as k \<and> ap_in a = k \<and> ap_out a = m)"
  by (induction n as m rule: chained.induct) auto

lemma transform_loop_chain:
  assumes "transform_loop raw order p original max_steps n transformed applied params = (Inr (out, steps), params')"
    and "chained k applied (length transformed)"
  shows "chained k steps (length out) \<and> length steps \<le> length applied + n \<and> prefix applied steps"
  using assms
proof (induction n arbitrary: transformed applied params)
  case 0
  then show ?case unfolding transform_loop.simps [of raw order p original max_steps 0]
    by (elim bind_stepE) (auto split: if_splits)
next
  case (Suc n)
  let ?attempt = "\<lambda>t. try_transformation raw order p t (length applied) transformed"
  obtain current params1 where
    rest: "(if length current \<le> length applied then return_step (transformed, applied)
      else let t = current ! length applied in
        bind_step (?attempt t) (\<lambda>(out, skips). transform_loop raw order p original max_steps n out
          (applied @ [report_step raw t transformed out skips]))) params1 = (Inr (out, steps), params')"
    using Suc.prems(1) unfolding transform_loop.simps [of raw order p original max_steps "Suc n"]
    by (elim bind_stepE) (simp_all only: nat.case sum.simps)
  show ?case
  proof (cases "length current \<le> length applied")
    case True
    with rest Suc.prems(2) show ?thesis by simp
  next
    case False
    let ?t = "current ! length applied"
    from False rest have "bind_step (?attempt ?t) (\<lambda>(out, skips). transform_loop raw order p original max_steps n out
          (applied @ [report_step raw ?t transformed out skips])) params1 = (Inr (out, steps), params')"
      by (simp add: Let_def)
    then obtain out1 skips params2 where
      go: "transform_loop raw order p original max_steps n out1
        (applied @ [report_step raw ?t transformed out1 skips]) params2 = (Inr (out, steps), params')"
      by (elim bind_stepE) auto
    let ?a = "report_step raw ?t transformed out1 skips"
    have "chained k (applied @ [?a]) (length out1)"
      using Suc.prems(2) by (auto simp: chained_snoc report_step_def)
    from Suc.IH [OF go this] show ?thesis by (auto dest: append_prefixD)
  qed
qed

subsection \<open>The records a check keeps\<close>

lemma kept_nths: "map snd (filter (\<lambda>(i, r). i \<notin> K) (zip [0..<length records] records)) = nths records {i. i \<notin> K}"
proof -
  have "map snd (filter (\<lambda>(i, r). i \<notin> K) (zip is rs)) = map fst (filter (\<lambda>p. snd p \<in> {i. i \<notin> K}) (zip rs is))"
    for "is" and rs :: "'x list"
    by (induction rs arbitrary: "is") (auto simp: zip_Cons1 zip_Cons split: list.splits)
  then show ?thesis by (simp add: nths_def)
qed

lemma kept_length:
  assumes "distinct (map fst invalid)" and "\<forall>(i, r) \<in> set invalid. i < length records"
  shows "length (nths records {i. i \<notin> fst ` set invalid}) + length invalid = length records"
proof -
  let ?K = "fst ` set invalid"
  have K: "?K \<subseteq> {..<length records}" "card ?K = length invalid"
    using assms distinct_card [OF assms(1)] by auto
  have "{i. i < length records \<and> i \<in> {i. i \<notin> ?K}} = {..<length records} - ?K" by auto
  then have "length (nths records {i. i \<notin> ?K}) = length records - length invalid"
    using K by (simp add: length_nths card_Diff_subset finite_subset [OF K(1)])
  moreover have "length invalid \<le> length records"
    using card_mono [OF _ K(1)] K(2) by simp
  ultimately show ?thesis by simp
qed

subsection \<open>Properties\<close>

text \<open>The skip reasons a step reports stay bounded whatever user code raises: at most 20
  distinct ones and the catch-all, none empty or longer than 200 characters, and no skip is
  lost from the total.\<close>

theorem skip_reasons_bounded:
  "length (foldl (\<lambda>rs (r, n). count_skip_reason rs r n) [] skips) \<le> 21 \<and>
   (\<forall>r \<in> fst ` set (foldl (\<lambda>rs (r, n). count_skip_reason rs r n) [] skips). r \<noteq> [] \<and> length r \<le> 200) \<and>
   sum_list (map snd (foldl (\<lambda>rs (r, n). count_skip_reason rs r n) [] skips)) = sum_list (map snd skips)"
proof -
  let ?f = "foldl (\<lambda>rs (r, n). count_skip_reason rs r n)"
  have "reasons_ok rs \<Longrightarrow> reasons_ok (?f rs skips)" for rs
    by (induction skips arbitrary: rs) (auto simp: count_skip_reason_ok)
  then have ok: "reasons_ok (?f [] skips)" by simp
  have sum: "sum_list (map snd (?f rs skips)) = sum_list (map snd rs) + sum_list (map snd skips)" for rs
    by (induction skips arbitrary: rs) (auto simp: count_skip_reason_total)
  show ?thesis
    using ok sum [of "[]"]
    by (auto simp: reasons_ok_def MAX_SKIP_REASONS_def MAX_SKIP_REASON_LENGTH_def split: if_splits)
qed

text \<open>A per-record step gives its records in input order, whatever order the concurrent
  calls finish in: kept records in place, \<open>None\<close> results dropped, skipped records counted by
  reason (for calls that do not write the shared params, as the class requires, and when no
  record fails).\<close>

theorem record_step_keeps_order:
  assumes "independent t params f" and "\<forall>r \<in> set records. succeeds f r"
    and "mset (order (length records)) = mset [0..<length records]"
    and "pr_setup t params = (Inr (), params)" and "pr_teardown t params = (Inr (), params)"
  shows "apply_records t order records params =
    (Inr (concat (map (\<lambda>r. case result_of f r of Kept v \<Rightarrow> [v] | _ \<Rightarrow> []) records),
      foldl (\<lambda>s m. count_skip_reason s m 1) []
        (concat (map (\<lambda>r. case result_of f r of Skipped m \<Rightarrow> [m] | _ \<Rightarrow> []) records))), params)"
proof (cases "records = []")
  case False
  have "set (order (length records)) = {..<length records}"
    using mset_eq_setD [OF assms(3)] by (simp only: set_upt lessThan_atLeast0)
  note run = apply_all_any_order [OF assms(1,2) this]
  have "apply_records t order records params = (Inr (collect (map (result_of f) records) [] []), params)"
    using False assms(4,5) run by (simp add: apply_records_def bind_step_def finally_step_def)
  then show ?thesis by (simp only: collect_acc map_map comp_def append_Nil)
qed (simp add: apply_records_def)

definition doubling :: per_record where
  "doubling = \<lparr>pr_setup = return_step (), pr_teardown = return_step (), pr_apply = (\<lambda>r params.
     (case r of PInt i \<Rightarrow> if i = 0 then Inl (SkipRecord ''zero'') else Inr (Some (PInt (2 * i))) | _ \<Rightarrow> Inr None, params)),
     pr_concurrency = Some 3\<rparr>"

theorem record_step_keeps_order_witness:
  "apply_records doubling (\<lambda>_. [2, 0, 3, 1]) [PInt 1, PInt 0, PNone, PInt 4] [] =
     (Inr ([PInt 2, PInt 8], [(''zero'', 1)]), [])"
proof -
  let ?f = "\<lambda>r. case r of PInt i \<Rightarrow> if i = 0 then Inl (SkipRecord ''zero'') else Inr (Some (PInt (2 * i))) | _ \<Rightarrow> Inr None"
  let ?rs = "[PInt 1, PInt 0, PNone, PInt 4]"
  have ind: "independent doubling [] ?f" by (simp add: independent_def doubling_def)
  have ok: "\<forall>r \<in> set ?rs. succeeds ?f r" by (simp add: succeeds_def)
  have perm: "mset ((\<lambda>_. [2, 0, 3, 1]) (length ?rs)) = mset [0..<length ?rs]"
    by (simp add: upt_rec numeral_eq_Suc)
  show ?thesis
    using record_step_keeps_order [OF ind ok perm]
    by (simp add: doubling_def result_of_def count_skip_reason_def MAX_SKIP_REASONS_def
        MAX_SKIP_REASON_LENGTH_def Let_def)
qed

text \<open>The loop that re-resolves the transformations after every step applies at most
  \<open>max_steps\<close> of them, and its report is a chain: each step took the records the step before
  it left, the first the job's records, and the last left the result.\<close>

theorem transformations_form_a_chain:
  assumes "apply_transformations raw order p original max_steps params = (Inr (out, steps), params')"
  shows "chained (length original) steps (length out) \<and> length steps \<le> max_steps"
  using transform_loop_chain [OF assms [unfolded apply_transformations_def], of "length original"] by simp

definition two_steps :: "unit pipeline" where
  "two_steps = \<lparr>pl_name = ''p'', pl_record_type = None, pl_skip_invalid = False, pl_validate_steps = False,
     pl_transformations = (\<lambda>_. return_step
       [\<lparr>tr_name = ''drop'', tr_kind = SyncStep (\<lambda>rs. return_step (tl rs)), tr_validate_input = (\<lambda>_. return_step ()),
          tr_validate_output = (\<lambda>_. return_step ()), tr_output_type = None\<rparr>,
        \<lparr>tr_name = ''keep'', tr_kind = AsyncStep (\<lambda>rs. return_step rs), tr_validate_input = (\<lambda>_. return_step ()),
          tr_validate_output = (\<lambda>_. return_step ()), tr_output_type = None\<rparr>]),
     pl_destination = (\<lambda>_. return_step ())\<rparr>"

theorem transformations_form_a_chain_witness:
  "\<exists>steps. apply_transformations [] (\<lambda>n. [0..<n]) two_steps [PInt 1, PInt 2, PInt 3] 5 [] =
     (Inr ([PInt 2, PInt 3], steps), []) \<and> chained 3 steps 2 \<and> length steps \<le> 5"
proof -
  obtain steps where run: "apply_transformations [] (\<lambda>n. [0..<n]) two_steps [PInt 1, PInt 2, PInt 3] 5 [] =
     (Inr ([PInt 2, PInt 3], steps), [])"
    by (simp add: apply_transformations_def transform_loop.simps [of _ _ _ _ _ "numeral _"]
        transform_loop.simps [of _ _ _ _ _ "Suc _"] eval_nat_numeral two_steps_def bind_step_def
        try_transformation_def try_step_def run_step_def Let_def transform_loop.simps)
  have three: "length [PInt 1, PInt 2, PInt 3] = 3" "length [PInt 2, PInt 3] = 2" by simp_all
  show ?thesis using transformations_form_a_chain [OF run] run unfolding three by blast
qed

text \<open>A \<open>SkipJob\<close> raised anywhere in a job -- by the fetch, a transformation or
  \<open>define_destination\<close> -- does not fail it: the job has no records and no destination, and its
  params carry the reason. A job without a destination always is of that shape, so whoever
  sends may rely on it.\<close>

theorem skip_job_drops_the_job:
  "(\<forall>m params1. job_body raw order fetch p limit params = (Inl (SkipJob m), params1) \<longrightarrow>
      run_job_records raw order fetch p limit params = (Inr (nothing_to_do []), dset params1 ''skip_reason'' (PStr m))) \<and>
   (case run_job_records raw order fetch p limit params of
      (Inl e, _) \<Rightarrow> \<forall>m. e \<noteq> SkipJob m
    | (Inr oc, _) \<Rightarrow> (oc_destination oc = None \<longrightarrow> oc = nothing_to_do []) \<and> (oc_destination oc \<noteq> None \<longrightarrow> oc_records oc \<noteq> []))"
proof (cases "job_body raw order fetch p limit params")
  case (Pair r params1)
  show ?thesis
  proof (cases r)
    case (Inl e)
    with Pair show ?thesis
      by (cases e) (auto simp: run_job_records_def try_step_def bind_step_def set_param_def nothing_to_do_def)
  next
    case (Inr oc)
    have "(oc_destination oc = None \<longrightarrow> oc = nothing_to_do []) \<and> (oc_destination oc \<noteq> None \<longrightarrow> oc_records oc \<noteq> [])"
      using Pair Inr unfolding job_body_def Let_def
      by (elim bind_stepE) (auto simp: nothing_to_do_def split: if_splits elim!: bind_stepE)
    with Pair Inr show ?thesis by (simp add: run_job_records_def try_step_def)
  qed
qed

theorem skip_job_drops_the_job_witness:
  "run_job_records [] (\<lambda>n. [0..<n]) (raise_step (SkipJob ''not today'')) two_steps None [] =
     (Inr (nothing_to_do []), [(''skip_reason'', PStr ''not today'')])"
proof -
  have "job_body [] (\<lambda>n. [0..<n]) (raise_step (SkipJob ''not today'')) two_steps None [] = (Inl (SkipJob ''not today''), [])"
    by (simp add: job_body_def pipeline_step_def try_step_def bind_step_def step_error_def)
  then show ?thesis
    using skip_job_drops_the_job [of "[]" "\<lambda>n. [0..<n]" "raise_step (SkipJob ''not today'')" two_steps None "[]"]
    by simp
qed

text \<open>\<open>chunk\<close> splits the records without losing, repeating or reordering any, into
  non-empty pieces of at most the size asked for, and refuses a size below one.\<close>

theorem chunk_partitions:
  "case chunk records n of
     Inl e \<Rightarrow> n < 1
   | Inr pieces \<Rightarrow> 1 \<le> n \<and> concat pieces = records \<and> (\<forall>c \<in> set pieces. c \<noteq> [] \<and> int (length c) \<le> n)"
  using chunks_pieces [of _ "nat n" records]
  by (fastforce simp: chunk_def)

text \<open>With \<open>on_invalid_record = "skip"\<close> the record check keeps exactly the records that match,
  in order, and counts every other one; with \<open>"fail"\<close> it accepts only a batch in which all match.\<close>

theorem record_check_partitions:
  assumes "distinct (map fst (rt_check rt records))" and "\<forall>(i, r) \<in> set (rt_check rt records). i < length records"
  shows "case check_record_type rt skip_invalid records of
      Inl e \<Rightarrow> \<not> skip_invalid \<and> rt_check rt records \<noteq> []
    | Inr (kept, step) \<Rightarrow>
        kept = nths records {i. i \<notin> fst ` set (rt_check rt records)} \<and>
        length kept + records_skipped step = length records \<and> ap_in step = length records \<and>
        (\<not> skip_invalid \<longrightarrow> kept = records)"
proof -
  let ?inv = "rt_check rt records"
  let ?K = "fst ` set ?inv"
  have kept: "map snd (filter (\<lambda>(i, r). i \<notin> ?K) (zip [0..<length records] records)) = nths records {i. i \<notin> ?K}"
    by (rule kept_nths)
  have "length (nths records {i. i \<notin> ?K}) + length ?inv = length records"
    by (rule kept_length [OF assms])
  moreover have "sum_list (map snd (foldl (\<lambda>rs (_, reason). count_skip_reason rs (''invalid '' @ reason) 1) rs xs))
      = sum_list (map snd rs) + length xs" for rs and xs :: "(nat \<times> string) list"
    by (induction xs arbitrary: rs) (auto simp: count_skip_reason_total)
  from this [of "[]" ?inv]
  have "sum_list (map snd (foldl (\<lambda>rs (_, reason). count_skip_reason rs (''invalid '' @ reason) 1) [] ?inv)) = length ?inv"
    by simp
  ultimately show ?thesis
    using kept by (simp add: check_record_type_def Let_def records_skipped_def nths_all)
qed

definition positive_int :: record_type where
  "positive_int = \<lparr>rt_check = (\<lambda>rs. map (\<lambda>(i, r). (i, ''int''))
     (filter (\<lambda>(i, r). case r of PInt n \<Rightarrow> n \<le> 0 | _ \<Rightarrow> True) (zip [0..<length rs] rs))), rt_label = ''Positive''\<rparr>"

theorem record_check_partitions_witness:
  "\<exists>step. check_record_type positive_int True [PInt 1, PNone, PInt 3] = (Inr ([PInt 1, PInt 3], step)) \<and>
     records_skipped step = 1"
proof -
  let ?rs = "[PInt 1, PNone, PInt 3]"
  have inv: "rt_check positive_int ?rs = [(1, ''int'')]" by (simp add: positive_int_def)
  obtain x where x: "check_record_type positive_int True ?rs = Inr x"
    by (simp add: check_record_type_def inv Let_def)
  show ?thesis
    using record_check_partitions [of positive_int ?rs True] x
    by (cases x) (auto simp: inv nths_Cons)
qed

end
