(* ===== verification/ExecContext.thy ===== *)
theory ExecContext
  imports Values Text
begin

text \<open>
  \<open>core/execution_context.py\<close>: the execution context, the flat \<open>runtime_params\<close> of a job and
  the resolution of template parameters. Jinja2 itself is a parameter: \<open>render\<close>.
\<close>

record exec_context =
  cx_execution_id :: string
  cx_batch_id :: string
  cx_pipeline_name :: string
  cx_runtime_params :: pydict
  cx_created_at :: string
  cx_batch_number :: int
  cx_total_batches :: int
  cx_retry_count :: int
  cx_is_retry :: bool

definition context_to_dict :: "exec_context \<Rightarrow> pydict" where
  "context_to_dict c =
     [(''execution_id'', PStr (cx_execution_id c)), (''batch_id'', PStr (cx_batch_id c)),
      (''pipeline_name'', PStr (cx_pipeline_name c)), (''runtime_params'', PDict (cx_runtime_params c)),
      (''created_at'', PStr (cx_created_at c)), (''batch_number'', PInt (cx_batch_number c)),
      (''total_batches'', PInt (cx_total_batches c)), (''retry_count'', PInt (cx_retry_count c)),
      (''is_retry'', PBool (cx_is_retry c))]"

text \<open>The reserved keys, and the dict of their values merged over the base.\<close>

definition RESERVED :: "string list" where
  "RESERVED = [''execution_id'', ''batch_id'', ''pipeline_name'', ''created_at'', ''batch_number'',
     ''total_batches'', ''retry_count'', ''is_retry'']"

definition build_flat_runtime_params :: "pydict \<Rightarrow> (string \<Rightarrow> pyval) \<Rightarrow> pyval option \<Rightarrow> pydict" where
  "build_flat_runtime_params base ctx current_ids =
     (let params = dupdate base (map (\<lambda>k. (k, ctx k)) RESERVED)
      in case current_ids of None \<Rightarrow> params | Some PNone \<Rightarrow> params | Some v \<Rightarrow> dset params ''current_ids'' v)"

definition metadata_default :: "string \<Rightarrow> pyval" where
  "metadata_default k =
     (if k \<in> {''batch_number'', ''total_batches'', ''retry_count''} then PInt 0
      else if k = ''is_retry'' then PBool False else PStr [])"

text \<open>\<open>metadata.get("runtime_params", {}) or {}\<close> must be something \<open>dict()\<close> accepts.\<close>

definition build_flat_from_metadata :: "pydict \<Rightarrow> py_error + pydict" where
  "build_flat_from_metadata metadata =
     (let base = dget_or metadata ''runtime_params'' (PDict []) in
      case (if truthy base then base else PDict []) of
        PDict d \<Rightarrow> Inr (build_flat_runtime_params d (\<lambda>k. dget_or metadata k (metadata_default k))
                     (dget metadata ''current_ids''))
      | _ \<Rightarrow> Inl (TypeError ''runtime_params is not a mapping''))"

subsection \<open>Template parameters\<close>

datatype template_error = SyntaxError string | UndefinedVariable string | OtherTemplateError py_error

definition has_template :: "string \<Rightarrow> bool" where
  "has_template s \<longleftrightarrow> substring ''{{'' s \<or> substring ''{%'' s"

definition resolve_text ::
  "(string \<Rightarrow> pydict \<Rightarrow> template_error + string) \<Rightarrow> pydict \<Rightarrow> string \<Rightarrow> py_error + pyval" where
  "resolve_text render params s =
     (if \<not> has_template s then Inr (PStr s)
      else case render s params of
          Inr t \<Rightarrow> Inr (PStr t)
        | Inl (SyntaxError m) \<Rightarrow> Inl (ValueError (''Invalid template syntax: '' @ m))
        | Inl (UndefinedVariable m) \<Rightarrow> Inl (ValueError (''Missing required parameter: '' @ m))
        | Inl (OtherTemplateError e) \<Rightarrow> Inl e)"

fun sequence :: "(py_error + 'a) list \<Rightarrow> py_error + 'a list" where
  "sequence [] = Inr []"
| "sequence (x # xs) = (case x of Inl e \<Rightarrow> Inl e
     | Inr v \<Rightarrow> (case sequence xs of Inl e \<Rightarrow> Inl e | Inr vs \<Rightarrow> Inr (v # vs)))"

fun resolve_templates ::
  "(string \<Rightarrow> pydict \<Rightarrow> template_error + string) \<Rightarrow> pydict \<Rightarrow> pyval \<Rightarrow> py_error + pyval" where
  "resolve_templates render params (PDict kvs) =
     map_sum id (\<lambda>vs. PDict (zip (map fst kvs) vs))
       (sequence (map (\<lambda>kv. resolve_templates render params (snd kv)) kvs))"
| "resolve_templates render params (PList xs) =
     map_sum id PList (sequence (map (resolve_templates render params) xs))"
| "resolve_templates render params (PStr s) = resolve_text render params s"
| "resolve_templates render params v = Inr v"

text \<open>\<open>re.findall(r"\{\{\s*(\w+)\s*\}\}", s)\<close>: from each opening brace pair, blanks, a word,
  blanks and the closing pair; a failed match moves on by one character.\<close>

definition is_word_char :: "char \<Rightarrow> bool" where
  "is_word_char c = (let n = (of_char c :: nat) in
     (48 \<le> n \<and> n \<le> 57) \<or> (65 \<le> n \<and> n \<le> 90) \<or> n = 95 \<or> (97 \<le> n \<and> n \<le> 122) \<or>
     n \<in> {170, 178, 179, 181, 185, 186, 188, 189, 190} \<or> (192 \<le> n \<and> n \<noteq> 215 \<and> n \<noteq> 247))"

definition match_parameter :: "string \<Rightarrow> (string \<times> string) option" where
  "match_parameter s =
     (if take 2 s \<noteq> ''{{'' then None
      else let a = dropWhile is_blank (drop 2 s); w = takeWhile is_word_char a;
               b = dropWhile is_blank (dropWhile is_word_char a)
           in if w \<noteq> [] \<and> take 2 b = ''}}'' then Some (w, drop 2 b) else None)"

lemma match_parameter_shorter: "match_parameter s = Some (w, rest) \<Longrightarrow> length rest < length s"
proof -
  assume m: "match_parameter s = Some (w, rest)"
  let ?a = "dropWhile is_blank (drop 2 s)"
  let ?b = "dropWhile is_blank (dropWhile is_word_char ?a)"
  from m have rest: "rest = drop 2 ?b" and "take 2 s = ''{{''"
    by (auto simp: match_parameter_def Let_def split: if_splits)
  then have "s \<noteq> []" by auto
  moreover have "length ?b \<le> length (drop 2 s)"
    by (meson length_dropWhile_le le_trans)
  ultimately show ?thesis using rest by (cases s) auto
qed

function find_parameters :: "string \<Rightarrow> string list" where
  "find_parameters s = (case s of
     [] \<Rightarrow> []
   | c # cs \<Rightarrow> (case match_parameter s of Some (w, rest) \<Rightarrow> w # find_parameters rest | None \<Rightarrow> find_parameters cs))"
  by pat_completeness auto
termination
  by (relation "measure length") (auto dest: match_parameter_shorter)

fun extract_parameters :: "pyval \<Rightarrow> string list" where
  "extract_parameters (PDict kvs) = concat (map (\<lambda>kv. extract_parameters (snd kv)) kvs)"
| "extract_parameters (PList xs) = concat (map extract_parameters xs)"
| "extract_parameters (PStr s) = (if substring ''{{'' s then find_parameters s else [])"
| "extract_parameters v = []"

subsection \<open>What resolution keeps\<close>

text \<open>Equal but for the texts that are templates.\<close>

fun same_shape :: "pyval \<Rightarrow> pyval \<Rightarrow> bool" where
  "same_shape (PDict kvs) (PDict kvs') =
     (map fst kvs = map fst kvs' \<and> list_all2 same_shape (map snd kvs) (map snd kvs'))"
| "same_shape (PList xs) (PList ys) = list_all2 same_shape xs ys"
| "same_shape (PStr s) (PStr t) = (has_template s \<or> s = t)"
| "same_shape v w = (v = w)"

lemma sequence_Inr: "sequence xs = Inr vs \<Longrightarrow> list_all2 (\<lambda>x v. x = Inr v) xs vs"
  by (induction xs arbitrary: vs) (auto split: sum.splits)

lemma resolve_shape: "resolve_templates render params v = Inr w \<Longrightarrow> same_shape v w"
proof (induction v arbitrary: w)
  case (PStr s)
  then show ?case
    by (auto simp: resolve_text_def split: if_splits sum.splits template_error.splits)
next
  case (PList xs)
  then obtain vs where vs: "w = PList vs" "sequence (map (resolve_templates render params) xs) = Inr vs"
    by (auto simp: map_sum_def split: sum.splits)
  have "list_all2 (\<lambda>x v. resolve_templates render params x = Inr v) xs vs"
    using sequence_Inr [OF vs(2)] by (simp add: list_all2_map1)
  then have "list_all2 same_shape xs vs"
    by (rule list.rel_mono_strong) (use PList.IH in auto)
  then show ?case by (simp add: vs(1))
next
  case (PDict kvs)
  then obtain vs where vs: "w = PDict (zip (map fst kvs) vs)"
    "sequence (map (\<lambda>kv. resolve_templates render params (snd kv)) kvs) = Inr vs"
    by (auto simp: map_sum_def split: sum.splits)
  have all: "list_all2 (\<lambda>kv v. resolve_templates render params (snd kv) = Inr v) kvs vs"
    using sequence_Inr [OF vs(2)] by (simp add: list_all2_map1)
  have "list_all2 (\<lambda>kv v. same_shape (snd kv) v) kvs vs"
    by (rule list.rel_mono_strong [OF all]) (use PDict.IH in force)
  moreover have "length vs = length kvs" using all by (simp add: list_all2_lengthD)
  ultimately show ?case by (simp add: vs(1) list_all2_map1)
qed auto

lemma dget_map_keys: "dget (map (\<lambda>k. (k, f k)) ks) k = (if k \<in> set ks then Some (f k) else None)"
  by (induction ks) auto

subsection \<open>Properties\<close>

text \<open>The execution context cannot be shadowed: whatever the user's params are, a job's
  flat \<open>runtime_params\<close> have the context's value under every reserved key, the user's under
  every other key (but \<open>current_ids\<close> of an ID-based job, which is the job's own).\<close>

theorem context_keys_cannot_be_shadowed:
  "dget (build_flat_runtime_params base ctx current_ids) k =
     (if k = ''current_ids'' \<and> current_ids \<notin> {None, Some PNone} then current_ids
      else if k \<in> set RESERVED then Some (ctx k) else dget base k)"
proof -
  have ok: "dict_ok (map (\<lambda>k. (k, ctx k)) RESERVED)" by (simp add: dict_ok_def dkeys_def RESERVED_def)
  have "dget (dupdate base (map (\<lambda>k. (k, ctx k)) RESERVED)) k =
      (if k \<in> set RESERVED then Some (ctx k) else dget base k)"
    by (simp add: dget_dupdate [OF ok] dget_map_keys)
  then show ?thesis
    by (auto simp: build_flat_runtime_params_def Let_def split: option.splits pyval.splits)
qed

text \<open>Resolving a configuration never changes its shape: the keys of its dicts, in order,
  the lengths of its lists, every value that is not text and every text without template
  markers are as they were, whatever the template engine answers.\<close>

theorem resolution_keeps_the_shape:
  assumes "resolve_templates render params v = Inr w"
  shows "same_shape v w"
  using assms by (rule resolve_shape)

theorem resolution_keeps_the_shape_witness:
  "same_shape (PDict [(''q'', PStr ''from {{ t }}''), (''n'', PList [PInt 3, PStr ''x''])])
     (PDict [(''q'', PStr ''from orders''), (''n'', PList [PInt 3, PStr ''x''])])"
proof -
  have "resolve_templates (\<lambda>_ _. Inr ''from orders'') []
      (PDict [(''q'', PStr ''from {{ t }}''), (''n'', PList [PInt 3, PStr ''x''])]) =
      Inr (PDict [(''q'', PStr ''from orders''), (''n'', PList [PInt 3, PStr ''x''])])"
    by (simp add: resolve_text_def has_template_def)
  then show ?thesis by (rule resolution_keeps_the_shape)
qed

end
