(* ===== verification/ContentDedup.thy ===== *)
theory ContentDedup
  imports Values Text
begin

text \<open>
  \<open>execution/content_dedup.py\<close>: what identifies a record's write, and the claims on record
  hashes in \<open>processed_records\<close> (\<open>processed_content\<close> holds the previous release's claims on
  whole jobs); with them the sweeper of \<open>reflow_manager/content_dedup_scheduler.py\<close>.
  SHA-256 and the text of a float or of an object without a JSON form are parameters.
\<close>

subsection \<open>Credentials\<close>

definition SECRET_MARKERS :: "string list" where
  "SECRET_MARKERS = [''password'', ''secret'', ''token'', ''credential'', ''auth'', ''apikey'']"

definition PREVIOUS_SECRET_MARKERS :: "string list" where
  "PREVIOUS_SECRET_MARKERS =
     [''password'', ''secret'', ''token'', ''credential'', ''auth'', ''api_key'', ''apikey'']"

definition is_secret_key :: "string \<Rightarrow> bool" where
  "is_secret_key key =
     (let normalized = filter (\<lambda>c. c \<noteq> CHR ''_'') (filter (\<lambda>c. c \<noteq> CHR ''-'') (map lower_char key))
      in list_ex (\<lambda>m. substring m normalized) SECRET_MARKERS)"

definition was_secret_key :: "string \<Rightarrow> bool" where
  "was_secret_key key = list_ex (\<lambda>m. substring m (map lower_char key)) PREVIOUS_SECRET_MARKERS"

fun strip_secrets :: "(string \<Rightarrow> bool) \<Rightarrow> pyval \<Rightarrow> pyval" where
  "strip_secrets secret (PDict kvs) =
     PDict (map (\<lambda>(k, v). (k, strip_secrets secret v)) (filter (\<lambda>(k, _). \<not> secret k) kvs))"
| "strip_secrets secret (PList xs) = PList (map (strip_secrets secret) xs)"
| "strip_secrets secret v = v"

subsection \<open>Where a job writes\<close>

text \<open>What \<open>_identity\<close> reads of a destination object: its class name, \<open>dedup_identity\<close>, the
  result of \<open>identity_config()\<close> when it has such a method, and its \<open>config\<close>.\<close>

record destination =
  d_type :: string
  d_dedup_identity :: "pyval option"
  d_identity_config :: "pyval option"
  d_config :: "pyval option"

definition identity_of :: "(string \<Rightarrow> bool) \<Rightarrow> destination \<Rightarrow> pydict" where
  "identity_of secret d =
     (case d_dedup_identity d of
        Some explicit \<Rightarrow> [(''type'', PStr (d_type d)), (''identity'', strip_secrets secret explicit)]
      | None \<Rightarrow>
          let config = (case d_identity_config d of Some c \<Rightarrow> Some c | None \<Rightarrow> d_config d)
          in [(''type'', PStr (d_type d)),
              (''config'', (case config of Some (PDict kvs) \<Rightarrow> strip_secrets secret (PDict kvs) | _ \<Rightarrow> PDict []))])"

definition destination_identity :: "destination \<Rightarrow> pydict" where
  "destination_identity d = identity_of is_secret_key d"

definition previous_destination_identity :: "destination \<Rightarrow> pydict" where
  "previous_destination_identity d = identity_of was_secret_key d"

subsection \<open>json.dumps with sorted keys\<close>

definition hex_digit :: "nat \<Rightarrow> char" where
  "hex_digit n = (if n < 10 then char_of (48 + n) else char_of (87 + n))"

text \<open>A character of a JSON string, non-ASCII ones escaped.\<close>

definition json_char :: "char \<Rightarrow> string" where
  "json_char c = (let n = (of_char c :: nat) in
     if n = 34 then [CHR 0x5C, CHR 0x22]
     else if n = 92 then [CHR 0x5C, CHR 0x5C]
     else if n = 10 then [CHR 0x5C, CHR ''n'']
     else if n = 13 then [CHR 0x5C, CHR ''r'']
     else if n = 9 then [CHR 0x5C, CHR ''t'']
     else if n = 12 then [CHR 0x5C, CHR ''f'']
     else if n = 8 then [CHR 0x5C, CHR ''b'']
     else if n < 32 \<or> 126 < n
     then CHR 0x5C # CHR ''u'' # CHR ''0'' # CHR ''0'' # [hex_digit (n div 16), hex_digit (n mod 16)]
     else [c])"

definition json_string :: "string \<Rightarrow> string" where
  "json_string s = CHR 0x22 # concat (map json_char s) @ [CHR 0x22]"

definition comma_sep :: "string list \<Rightarrow> string" where
  "comma_sep xs = (case xs of [] \<Rightarrow> [] | x # ys \<Rightarrow> x @ concat (map (\<lambda>y. '', '' @ y) ys))"

text \<open>Keys sort as strings do in Python, by their characters' codes.\<close>

definition sort_items :: "(string \<times> 'a) list \<Rightarrow> (string \<times> 'a) list" where
  "sort_items kvs = sort_key (\<lambda>(k, _). map (of_char :: char \<Rightarrow> nat) k) kvs"

fun json_dumps :: "(rat \<Rightarrow> string) \<Rightarrow> (pyval \<Rightarrow> string) \<Rightarrow> pyval \<Rightarrow> string" where
  "json_dumps ft st PNone = ''null''"
| "json_dumps ft st (PBool b) = (if b then ''true'' else ''false'')"
| "json_dumps ft st (PInt i) = int_text i"
| "json_dumps ft st (PFloat r) = ft r"
| "json_dumps ft st (PStr s) = json_string s"
| "json_dumps ft st (PList xs) = ''['' @ comma_sep (map (json_dumps ft st) xs) @ '']''"
| "json_dumps ft st (PTuple xs) = ''['' @ comma_sep (map (json_dumps ft st) xs) @ '']''"
| "json_dumps ft st (PDict kvs) =
     ''{'' @ comma_sep (map (\<lambda>(k, t). json_string k @ '': '' @ t)
       (sort_items (map (\<lambda>(k, v). (k, json_dumps ft st v)) kvs))) @ ''}''"
| "json_dumps ft st (POpaque s) = json_string s"
| "json_dumps ft st v = json_string (st v)"

subsection \<open>The hashes\<close>

text \<open>\<open>sha\<close> is the digest of a text (\<open>hexdigest\<close> for the job hash, \<open>digest\<close> for a record's).\<close>

record 'h hashing =
  hs_sha :: "string \<Rightarrow> 'h"
  hs_float :: "rat \<Rightarrow> string"
  hs_str :: "pyval \<Rightarrow> string"

definition hash_value :: "'h hashing \<Rightarrow> pydict \<Rightarrow> 'h" where
  "hash_value H content = hs_sha H (json_dumps (hs_float H) (hs_str H) (PDict content))"

definition with_entry :: "string \<Rightarrow> pydict option \<Rightarrow> pydict \<Rightarrow> pydict" where
  "with_entry k d base = (case d of Some kvs \<Rightarrow> if kvs = [] then base else base @ [(k, PDict kvs)] | None \<Rightarrow> base)"

definition content_stable ::
  "string \<Rightarrow> string list \<Rightarrow> pyval list \<Rightarrow> pydict option \<Rightarrow> pydict option \<Rightarrow> pydict" where
  "content_stable pipeline_name transformation_names records job_params destination =
     with_entry ''destination'' destination (with_entry ''job_params'' job_params
       [(''pipeline_name'', PStr pipeline_name),
        (''transformations'', PList (map PStr (sort_key (map (of_char :: char \<Rightarrow> nat)) transformation_names))),
        (''records'', PList records)])"

definition compute_content_hash ::
  "'h hashing \<Rightarrow> string \<Rightarrow> string list \<Rightarrow> pyval list \<Rightarrow> pydict option \<Rightarrow> pydict option \<Rightarrow> 'h" where
  "compute_content_hash H pipeline_name transformation_names records job_params destination =
     hash_value H (content_stable pipeline_name transformation_names records job_params destination)"

text \<open>The environment variable \<open>DEDUP_HONOR_LEGACY_HASH\<close>.\<close>

definition honor_legacy_hash :: "string option \<Rightarrow> bool" where
  "honor_legacy_hash env =
     (map lower_char (strip (case env of Some v \<Rightarrow> v | None \<Rightarrow> ''true'')) \<notin> {''0'', ''false'', ''no''})"

definition SLICE_PARAMS :: "string list" where
  "SLICE_PARAMS = [''current_id'', ''current_ids'', ''input_ids'']"

datatype dedup_key = WholeRecord | Field string | KeyFunction "pyval \<Rightarrow> pydict \<Rightarrow> py_error + pyval"

text \<open>\<open>record[key]\<close>: a dict raises \<open>KeyError\<close> for a missing key, anything else \<open>TypeError\<close>.\<close>

definition record_item :: "pyval \<Rightarrow> string \<Rightarrow> py_error + pyval" where
  "record_item r k = (case r of
     PDict kvs \<Rightarrow> (case dget kvs k of Some v \<Rightarrow> Inr v | None \<Rightarrow> Inl (KeyError k))
   | _ \<Rightarrow> Inl (TypeError ''not subscriptable by a string''))"

definition record_identity :: "pyval \<Rightarrow> dedup_key \<Rightarrow> pydict \<Rightarrow> py_error + pyval" where
  "record_identity r key runtime_params =
     (case (case key of WholeRecord \<Rightarrow> Inr r | Field k \<Rightarrow> record_item r k | KeyFunction f \<Rightarrow> f r runtime_params) of
        Inl e \<Rightarrow> Inl e | Inr v \<Rightarrow> Inr (to_json_safe v))"

definition record_stable :: "string \<Rightarrow> pyval \<Rightarrow> pydict option \<Rightarrow> pydict option \<Rightarrow> pydict" where
  "record_stable pipeline_name identity destination job_params =
     (let own = dfilter (\<lambda>k. k \<notin> set SLICE_PARAMS) (case job_params of Some d \<Rightarrow> d | None \<Rightarrow> [])
      in with_entry ''job_params'' (Some own) (with_entry ''destination'' destination
           [(''pipeline_name'', PStr pipeline_name), (''record'', identity)]))"

definition compute_record_hash ::
  "'h hashing \<Rightarrow> string \<Rightarrow> pyval \<Rightarrow> pydict option \<Rightarrow> pydict option \<Rightarrow> 'h" where
  "compute_record_hash H pipeline_name identity destination job_params =
     hash_value H (record_stable pipeline_name identity destination job_params)"

subsection \<open>Claims on record hashes\<close>

text \<open>A row of \<open>processed_records\<close> (\<open>record_hash\<close> is its key) or of \<open>processed_content\<close>.\<close>

record 'h claim_row =
  cl_hash :: 'h
  cl_job :: string
  cl_created :: time

definition CLAIM_CHUNK_SIZE :: nat where "CLAIM_CHUNK_SIZE = 1000"

definition held_by_other_job :: "'h list \<Rightarrow> string \<Rightarrow> 'h claim_row list \<Rightarrow> bool" where
  "held_by_other_job job_hashes jid content =
     (let hashes = dict_fromkeys job_hashes
      in list_ex (\<lambda>c. cl_hash c \<in> set hashes \<and> cl_job c \<noteq> jid) content)"

text \<open>\<open>INSERT .. ON CONFLICT DO NOTHING RETURNING\<close>, then the hashes of the chunk this job already held.\<close>

definition claim_part :: "time \<Rightarrow> string \<Rightarrow> 'h list \<Rightarrow> 'h claim_row list \<Rightarrow> 'h list \<times> 'h claim_row list" where
  "claim_part now jid part tbl =
     (let inserted = filter (\<lambda>h. h \<notin> cl_hash ` set tbl) part;
          tbl' = tbl @ map (\<lambda>h. \<lparr>cl_hash = h, cl_job = jid, cl_created = now\<rparr>) inserted;
          taken = filter (\<lambda>h. h \<notin> set inserted) part;
          own = filter (\<lambda>h. list_ex (\<lambda>c. cl_hash c = h \<and> cl_job c = jid) tbl') taken
      in (inserted @ own, tbl'))"

fun claim_parts :: "time \<Rightarrow> string \<Rightarrow> 'h list list \<Rightarrow> 'h claim_row list \<Rightarrow> 'h list \<times> 'h claim_row list" where
  "claim_parts now jid [] tbl = ([], tbl)"
| "claim_parts now jid (part # parts) tbl =
     (let (won, tbl1) = claim_part now jid part tbl; (won', tbl2) = claim_parts now jid parts tbl1
      in (won @ won', tbl2))"

definition claim_record_hashes :: "time \<Rightarrow> 'h list \<Rightarrow> string \<Rightarrow> 'h claim_row list \<Rightarrow> 'h list \<times> 'h claim_row list" where
  "claim_record_hashes now hashes jid tbl =
     (let unique = dict_fromkeys hashes
      in if unique = [] then ([], tbl) else claim_parts now jid (chunks CLAIM_CHUNK_SIZE unique) tbl)"

definition release_part :: "string \<Rightarrow> 'h list \<Rightarrow> 'h claim_row list \<Rightarrow> 'h claim_row list" where
  "release_part jid part tbl = delete_where (\<lambda>c. cl_hash c \<in> set part \<and> cl_job c = jid) tbl"

definition release_record_hashes :: "'h list \<Rightarrow> string \<Rightarrow> 'h claim_row list \<Rightarrow> 'h claim_row list" where
  "release_record_hashes hashes jid tbl =
     foldl (\<lambda>t part. release_part jid part t) tbl (chunks CLAIM_CHUNK_SIZE (dict_fromkeys hashes))"

subsection \<open>The sweeper\<close>

text \<open>One \<open>DELETE\<close> of at most \<open>chunk\<close> expired rows (which ones is the database's choice; the
  model takes the first), repeated until one deletes fewer than \<open>chunk\<close>. With a chunk of 0
  the code's loop does not end; \<open>None\<close> says the fuel was not enough.\<close>

fun delete_first :: "nat \<Rightarrow> ('r \<Rightarrow> bool) \<Rightarrow> 'r list \<Rightarrow> 'r list" where
  "delete_first n P [] = []"
| "delete_first n P (r # rs) =
     (if P r then (case n of 0 \<Rightarrow> r # rs | Suc m \<Rightarrow> delete_first m P rs) else r # delete_first n P rs)"

fun purge_in_chunks :: "nat \<Rightarrow> ('r \<Rightarrow> bool) \<Rightarrow> nat \<Rightarrow> nat \<Rightarrow> 'r list \<Rightarrow> (nat \<times> 'r list) option" where
  "purge_in_chunks 0 expired chunk total_deleted tbl = None"
| "purge_in_chunks (Suc fuel) expired chunk total_deleted tbl =
     (let tbl' = delete_first chunk expired tbl;
          deleted = length tbl - length tbl';
          total' = total_deleted + deleted
      in if deleted < chunk then Some (total', tbl') else purge_in_chunks fuel expired chunk total' tbl')"

definition PURGE_CHUNK_SIZE :: nat where "PURGE_CHUNK_SIZE = 10000"

definition expired_claim :: "time \<Rightarrow> 'h claim_row \<Rightarrow> bool" where
  "expired_claim cutoff c \<longleftrightarrow> cl_created c < cutoff"

definition purge_expired_content ::
  "time \<Rightarrow> rat \<Rightarrow> nat option \<Rightarrow> 'h claim_row list \<Rightarrow> 'g claim_row list \<Rightarrow>
     (nat \<times> 'h claim_row list \<times> 'g claim_row list) option" where
  "purge_expired_content now retention_hours chunk_size claims content =
     (let cutoff = now - retention_hours * 3600;
          chunk = (case chunk_size of Some n \<Rightarrow> if n = 0 then PURGE_CHUNK_SIZE else n | None \<Rightarrow> PURGE_CHUNK_SIZE)
      in case purge_in_chunks (length claims + 1) (expired_claim cutoff) chunk 0 claims of
           None \<Rightarrow> None
         | Some (n, claims') \<Rightarrow>
             (case purge_in_chunks (length content + 1) (expired_claim cutoff) chunk 0 content of
                None \<Rightarrow> None
              | Some (m, content') \<Rightarrow> Some (n + m, claims', content')))"

subsection \<open>The contract of a claim store\<close>

datatype 'h claim_op = Take time string "'h list" | Drop string "'h list"

fun op_job :: "'h claim_op \<Rightarrow> string" where
  "op_job (Take t j hs) = j"
| "op_job (Drop j hs) = j"

fun drops :: "string \<Rightarrow> 'h \<Rightarrow> 'h claim_op \<Rightarrow> bool" where
  "drops j h (Take t k hs) = False"
| "drops j h (Drop k hs) = (k = j \<and> h \<in> set hs)"

text \<open>Jobs taking and dropping hashes, in the order the database serialises them, with the
  hashes each was told it holds.\<close>

fun claim_run ::
  "(time \<Rightarrow> string \<Rightarrow> 'h list \<Rightarrow> 's \<Rightarrow> 'h list \<times> 's) \<Rightarrow> (string \<Rightarrow> 'h list \<Rightarrow> 's \<Rightarrow> 's) \<Rightarrow>
     'h claim_op list \<Rightarrow> 's \<Rightarrow> ('h claim_op \<times> 'h list) list \<times> 's" where
  "claim_run claim release [] s = ([], s)"
| "claim_run claim release (op # ops) s =
     (let (won, s1) = (case op of Take t j hs \<Rightarrow> claim t j hs s | Drop j hs \<Rightarrow> ([], release j hs s));
          (rest, s2) = claim_run claim release ops s1
      in ((op, won) # rest, s2))"

locale claim_store =
  fixes owner :: "'s \<Rightarrow> 'h \<Rightarrow> string option"
    and claim :: "time \<Rightarrow> string \<Rightarrow> 'h list \<Rightarrow> 's \<Rightarrow> 'h list \<times> 's"
    and release :: "string \<Rightarrow> 'h list \<Rightarrow> 's \<Rightarrow> 's"
    and invar :: "'s \<Rightarrow> bool"
  assumes claim_invar: "invar s \<Longrightarrow> claim t j hs s = (won, s') \<Longrightarrow> invar s'"
    and claim_owner: "invar s \<Longrightarrow> claim t j hs s = (won, s') \<Longrightarrow>
      owner s' h = (case owner s h of Some k \<Rightarrow> Some k | None \<Rightarrow> if h \<in> set hs then Some j else None)"
    and claim_won: "invar s \<Longrightarrow> claim t j hs s = (won, s') \<Longrightarrow> set won = {h \<in> set hs. owner s' h = Some j}"
    and release_invar: "invar s \<Longrightarrow> invar (release j hs s)"
    and release_owner: "invar s \<Longrightarrow>
      owner (release j hs s) h = (if h \<in> set hs \<and> owner s h = Some j then None else owner s h)"
begin

lemma held:
  "invar s \<Longrightarrow> owner s h = Some j \<Longrightarrow> \<forall>op \<in> set ops. \<not> drops j h op \<Longrightarrow>
   claim_run claim release ops s = (answers, s') \<Longrightarrow>
   invar s' \<and> owner s' h = Some j \<and> (\<forall>(op, won) \<in> set answers. op_job op \<noteq> j \<longrightarrow> h \<notin> set won)"
proof (induction ops arbitrary: s answers s')
  case Nil
  then show ?case by simp
next
  case (Cons op ops)
  obtain won s1 where s1: "(case op of Take t j hs \<Rightarrow> claim t j hs s | Drop j hs \<Rightarrow> ([], release j hs s)) = (won, s1)"
    by fastforce
  obtain rest s2 where rest: "claim_run claim release ops s1 = (rest, s2)" by fastforce
  have answers: "answers = (op, won) # rest" "s' = s2" using Cons.prems(4) s1 rest by simp_all
  have "invar s1 \<and> owner s1 h = Some j \<and> (op_job op \<noteq> j \<longrightarrow> h \<notin> set won)"
  proof (cases op)
    case (Take t k hs)
    with s1 have c: "claim t k hs s = (won, s1)" by simp
    then show ?thesis
      using Take Cons.prems(1,2) claim_invar [OF _ c] claim_owner [OF _ c, of h] claim_won [OF _ c] by auto
  next
    case (Drop k hs)
    with s1 Cons.prems show ?thesis by (auto simp: release_invar release_owner)
  qed
  with Cons.IH [OF _ _ _ rest] Cons.prems(3) answers show ?case by auto
qed

lemma retaken:
  "invar s \<Longrightarrow> owner s h = Some j \<Longrightarrow> h \<in> set hs \<Longrightarrow> claim t j hs s = (won, s') \<Longrightarrow> h \<in> set won"
  using claim_won claim_owner by force

end

subsection \<open>The table keeps the contract\<close>

definition claim_owner_of :: "'h claim_row list \<Rightarrow> 'h \<Rightarrow> string option" where
  "claim_owner_of tbl h = map_option cl_job (first_where (\<lambda>c. cl_hash c = h) tbl)"

definition claims_ok :: "'h claim_row list \<Rightarrow> bool" where
  "claims_ok tbl \<longleftrightarrow> distinct (map cl_hash tbl)"

lemma owner_None: "claim_owner_of tbl h = None \<longleftrightarrow> h \<notin> cl_hash ` set tbl"
  by (auto simp: claim_owner_of_def first_where_None_iff)

lemma owner_Some:
  "claims_ok tbl \<Longrightarrow> claim_owner_of tbl h = Some j \<longleftrightarrow> (\<exists>c \<in> set tbl. cl_hash c = h \<and> cl_job c = j)"
proof (induction tbl)
  case (Cons c tbl)
  then show ?case by (auto simp: claim_owner_of_def claims_ok_def image_iff)
qed (simp add: claim_owner_of_def)

lemma owner_append:
  "claim_owner_of (a @ b) h = (case claim_owner_of a h of Some j \<Rightarrow> Some j | None \<Rightarrow> claim_owner_of b h)"
  by (induction a) (auto simp: claim_owner_of_def)

lemma owner_new:
  "claim_owner_of (map (\<lambda>h. \<lparr>cl_hash = h, cl_job = jid, cl_created = now\<rparr>) hs) h =
     (if h \<in> set hs then Some jid else None)"
  by (induction hs) (auto simp: claim_owner_of_def)

lemma claim_part_spec:
  assumes "claims_ok tbl" and "distinct part" and "claim_part now jid part tbl = (won, tbl')"
  shows "claims_ok tbl'" and "set won = {h \<in> set part. claim_owner_of tbl' h = Some jid}"
    and "claim_owner_of tbl' h = (case claim_owner_of tbl h of Some k \<Rightarrow> Some k
           | None \<Rightarrow> if h \<in> set part then Some jid else None)"
proof -
  let ?ins = "filter (\<lambda>h. h \<notin> cl_hash ` set tbl) part"
  have tbl': "tbl' = tbl @ map (\<lambda>h. \<lparr>cl_hash = h, cl_job = jid, cl_created = now\<rparr>) ?ins"
    using assms(3) by (auto simp: claim_part_def Let_def)
  show ok: "claims_ok tbl'"
    using assms(1,2) by (auto simp: claims_ok_def tbl' comp_def)
  show own: "claim_owner_of tbl' h = (case claim_owner_of tbl h of Some k \<Rightarrow> Some k
           | None \<Rightarrow> if h \<in> set part then Some jid else None)" for h
    using owner_None [of tbl h] by (auto simp: tbl' owner_append owner_new split: option.splits)
  have mem: "h \<in> set won \<longleftrightarrow> h \<in> set part \<and>
      (h \<notin> cl_hash ` set tbl \<or> (\<exists>c \<in> set tbl'. cl_hash c = h \<and> cl_job c = jid))" for h
    using assms(3) unfolding claim_part_def Let_def tbl' [symmetric] list_ex_iff by auto
  have "h \<in> set won \<longleftrightarrow> h \<in> set part \<and> (claim_owner_of tbl h = None \<or> claim_owner_of tbl' h = Some jid)" for h
    unfolding owner_None owner_Some [OF ok] by (rule mem)
  then show "set won = {h \<in> set part. claim_owner_of tbl' h = Some jid}"
    using own by (auto split: option.splits)
qed

lemma claim_parts_spec:
  assumes "claims_ok tbl" and "distinct (concat parts)" and "claim_parts now jid parts tbl = (won, tbl')"
  shows "claims_ok tbl' \<and> set won = {h \<in> set (concat parts). claim_owner_of tbl' h = Some jid} \<and>
    (\<forall>h. claim_owner_of tbl' h = (case claim_owner_of tbl h of Some k \<Rightarrow> Some k
           | None \<Rightarrow> if h \<in> set (concat parts) then Some jid else None))"
  using assms
proof (induction parts arbitrary: tbl won tbl')
  case Nil
  then show ?case by (auto split: option.splits)
next
  case (Cons part parts)
  obtain w1 t1 where one: "claim_part now jid part tbl = (w1, t1)" by fastforce
  obtain w2 t2 where two: "claim_parts now jid parts t1 = (w2, t2)" by fastforce
  have eq: "won = w1 @ w2" "tbl' = t2" using Cons.prems(3) one two by simp_all
  note spec = claim_part_spec [OF Cons.prems(1) _ one]
  have d: "distinct part" "distinct (concat parts)" using Cons.prems(2) by auto
  have rest: "claims_ok t2 \<and> set w2 = {h \<in> set (concat parts). claim_owner_of t2 h = Some jid} \<and>
    (\<forall>h. claim_owner_of t2 h = (case claim_owner_of t1 h of Some k \<Rightarrow> Some k
           | None \<Rightarrow> if h \<in> set (concat parts) then Some jid else None))"
    by (rule Cons.IH [OF spec(1) [OF d(1)] d(2) two])
  have own: "claim_owner_of t2 h = (case claim_owner_of tbl h of Some k \<Rightarrow> Some k
           | None \<Rightarrow> if h \<in> set (concat (part # parts)) then Some jid else None)" for h
    using rest spec(3) [OF d(1), of h] by (auto split: option.splits)
  have "set w1 = {h \<in> set part. claim_owner_of t2 h = Some jid}"
    using spec(2,3) [OF d(1)] rest by (fastforce split: option.splits if_splits)
  with rest own eq show ?case by auto
qed

lemma claim_record_hashes_spec:
  assumes "claims_ok tbl" and "claim_record_hashes now hs jid tbl = (won, tbl')"
  shows "claims_ok tbl' \<and> set won = {h \<in> set hs. claim_owner_of tbl' h = Some jid} \<and>
    (\<forall>h. claim_owner_of tbl' h = (case claim_owner_of tbl h of Some k \<Rightarrow> Some k
           | None \<Rightarrow> if h \<in> set hs then Some jid else None))"
proof (cases "dict_fromkeys hs = []")
  case True
  then have "hs = []" by (cases hs) auto
  with assms show ?thesis by (auto simp: claim_record_hashes_def split: option.splits)
next
  case False
  with assms(2) have run: "claim_parts now jid (chunks CLAIM_CHUNK_SIZE (dict_fromkeys hs)) tbl = (won, tbl')"
    by (simp add: claim_record_hashes_def)
  have c: "concat (chunks CLAIM_CHUNK_SIZE (dict_fromkeys hs)) = dict_fromkeys hs"
    by (rule concat_chunks) (simp add: CLAIM_CHUNK_SIZE_def)
  show ?thesis
    using claim_parts_spec [OF assms(1) _ run] unfolding c by simp
qed

lemma release_parts:
  "foldl (\<lambda>t part. release_part jid part t) tbl parts =
     delete_where (\<lambda>c. cl_hash c \<in> set (concat parts) \<and> cl_job c = jid) tbl"
proof (induction parts arbitrary: tbl)
  case Nil
  then show ?case by (simp add: delete_where_def)
next
  case (Cons p ps)
  then show ?case
    by (simp add: release_part_def delete_where_def) (rule filter_cong, auto)
qed

lemma release_record_hashes_eq:
  "release_record_hashes hs jid tbl = delete_where (\<lambda>c. cl_hash c \<in> set hs \<and> cl_job c = jid) tbl"
  by (simp add: release_record_hashes_def release_parts CLAIM_CHUNK_SIZE_def)

lemma owner_release:
  "claims_ok tbl \<Longrightarrow> claim_owner_of (delete_where (\<lambda>c. cl_hash c \<in> H \<and> cl_job c = j) tbl) h =
     (if h \<in> H \<and> claim_owner_of tbl h = Some j then None else claim_owner_of tbl h)"
proof (induction tbl)
  case (Cons c tbl)
  then have IH: "claim_owner_of (delete_where (\<lambda>c. cl_hash c \<in> H \<and> cl_job c = j) tbl) h =
     (if h \<in> H \<and> claim_owner_of tbl h = Some j then None else claim_owner_of tbl h)"
    by (simp add: claims_ok_def)
  have "cl_hash c = h \<Longrightarrow> claim_owner_of tbl h = None"
    using Cons.prems by (auto simp: owner_None claims_ok_def)
  with IH show ?case by (auto simp: claim_owner_of_def)
qed (simp add: claim_owner_of_def delete_where_def)

interpretation claims: claim_store claim_owner_of "\<lambda>t j hs. claim_record_hashes t hs j"
    "\<lambda>j hs. release_record_hashes hs j" claims_ok
proof
  fix s :: "'h claim_row list" and t j hs won s' h
  assume ok: "claims_ok s"
  show "claims_ok (release_record_hashes hs j s)"
    using ok unfolding release_record_hashes_eq claims_ok_def delete_where_def by (rule distinct_map_filter)
  show "claim_owner_of (release_record_hashes hs j s) h =
      (if h \<in> set hs \<and> claim_owner_of s h = Some j then None else claim_owner_of s h)"
    unfolding release_record_hashes_eq by (rule owner_release [OF ok])
  assume run: "claim_record_hashes t hs j s = (won, s')"
  show "claims_ok s'" using claim_record_hashes_spec [OF ok run] by blast
  show "claim_owner_of s' h = (case claim_owner_of s h of Some k \<Rightarrow> Some k
      | None \<Rightarrow> if h \<in> set hs then Some j else None)"
    using claim_record_hashes_spec [OF ok run] by blast
  show "set won = {h \<in> set hs. claim_owner_of s' h = Some j}"
    using claim_record_hashes_spec [OF ok run] by blast
qed

subsection \<open>The purge loop\<close>

lemma delete_first_count:
  "length (delete_first n P tbl) + min n (count_where P tbl) = length tbl"
  by (induction n P tbl rule: delete_first.induct) (auto split: nat.splits)

lemma delete_first_all: "count_where P tbl \<le> n \<Longrightarrow> delete_first n P tbl = filter (\<lambda>r. \<not> P r) tbl"
proof (induction n P tbl rule: delete_first.induct)
  case (2 n P r rs)
  then show ?case by (cases n) auto
qed simp

lemma delete_first_keeps: "filter (\<lambda>r. \<not> P r) (delete_first n P tbl) = filter (\<lambda>r. \<not> P r) tbl"
  by (induction n P tbl rule: delete_first.induct) (auto split: nat.splits)

lemma delete_first_left: "count_where P (delete_first n P tbl) = count_where P tbl - n"
  by (induction n P tbl rule: delete_first.induct) (auto split: nat.splits)

lemma purge_loop:
  assumes "0 < chunk" and "count_where P tbl div chunk < fuel"
  shows "purge_in_chunks fuel P chunk n tbl = Some (n + count_where P tbl, filter (\<lambda>r. \<not> P r) tbl)"
  using assms(2)
proof (induction fuel arbitrary: n tbl)
  case (Suc fuel)
  let ?t = "delete_first chunk P tbl"
  have del: "length tbl - length ?t = min chunk (count_where P tbl)"
    using delete_first_count [of chunk P tbl] by simp
  show ?case
  proof (cases "count_where P tbl < chunk")
    case True
    then show ?thesis using del by (simp add: Let_def delete_first_all)
  next
    case False
    then have "count_where P ?t div chunk < fuel"
      using Suc.prems assms(1) by (simp add: delete_first_left div_if [of _ chunk])
    from Suc.IH [OF this, of "n + chunk"] show ?thesis
      using False del delete_first_keeps [of P chunk tbl] by (simp add: Let_def delete_first_left)
  qed
qed simp

subsection \<open>Rotating a credential\<close>

text \<open>\<open>rotate_secrets p f v\<close>: \<open>v\<close> with the value under every key \<open>p\<close> says is secret replaced, at any depth.\<close>

fun rotate_secrets :: "(string \<Rightarrow> bool) \<Rightarrow> (pyval \<Rightarrow> pyval) \<Rightarrow> pyval \<Rightarrow> pyval" where
  "rotate_secrets p f (PDict kvs) = PDict (map (\<lambda>(k, v). (k, if p k then f v else rotate_secrets p f v)) kvs)"
| "rotate_secrets p f (PList xs) = PList (map (rotate_secrets p f) xs)"
| "rotate_secrets p f v = v"

lemma strip_rotate: "strip_secrets p (rotate_secrets p f v) = strip_secrets p v"
proof (induction v)
  case (PDict kvs)
  then have "(k, v) \<in> set kvs \<Longrightarrow> strip_secrets p (rotate_secrets p f v) = strip_secrets p v" for k v
    by force
  then show ?case
    by (auto simp: filter_map comp_def case_prod_beta' intro!: map_cong)
qed (auto simp: comp_def)

lemma identity_rotate:
  "identity_of p (d\<lparr>d_dedup_identity := map_option (rotate_secrets p f) (d_dedup_identity d),
      d_identity_config := map_option (rotate_secrets p f) (d_identity_config d),
      d_config := map_option (rotate_secrets p f) (d_config d)\<rparr>) = identity_of p d"
proof -
  have dict: "(case map_option (rotate_secrets p f) c of Some (PDict kvs) \<Rightarrow> strip_secrets p (PDict kvs) | _ \<Rightarrow> PDict [])
      = (case c of Some (PDict kvs) \<Rightarrow> strip_secrets p (PDict kvs) | _ \<Rightarrow> PDict [])" for c
  proof (cases c)
    case (Some v)
    then show ?thesis
    proof (cases v)
      case (PDict kvs)
      with Some strip_rotate [of p f "PDict kvs"] show ?thesis by (simp del: strip_secrets.simps)
    qed simp_all
  qed simp
  show ?thesis
    using dict [of "d_config d"] dict [of "d_identity_config d"]
    by (cases "d_dedup_identity d"; cases "d_identity_config d")
      (simp_all add: identity_of_def strip_rotate Let_def)
qed

subsection \<open>Properties\<close>

text \<open>C15: a record is sent by one job: once a job was told it holds a record hash, no other
  job's claim is ever answered with that hash, through any number of claims and releases by
  any jobs, until the holder itself releases it; and when the holder runs again it is told
  that it still holds it, so it is not a duplicate of itself.\<close>

theorem record_claim_exclusive:
  assumes "claims_ok tbl" and "claim_record_hashes t hs j tbl = (won, tbl1)" and "h \<in> set won"
    and "\<forall>op \<in> set ops. \<not> drops j h op"
    and "claim_run (\<lambda>t j hs. claim_record_hashes t hs j) (\<lambda>j hs. release_record_hashes hs j) ops tbl1 = (answers, tbl2)"
  shows "(\<forall>(op, got) \<in> set answers. op_job op \<noteq> j \<longrightarrow> h \<notin> set got) \<and>
    (h \<in> set again \<longrightarrow> h \<in> set (fst (claim_record_hashes t' again j tbl2)))"
proof -
  have ok: "claims_ok tbl1" and own: "claim_owner_of tbl1 h = Some j"
    using claims.claim_invar [OF assms(1,2)] claims.claim_won [OF assms(1,2)] assms(3) by auto
  have held: "claims_ok tbl2 \<and> claim_owner_of tbl2 h = Some j \<and>
      (\<forall>(op, got) \<in> set answers. op_job op \<noteq> j \<longrightarrow> h \<notin> set got)"
    by (rule claims.held [OF ok own assms(4,5)])
  then show ?thesis
    using claims.retaken [of tbl2 h j again t'] by (cases "claim_record_hashes t' again j tbl2") auto
qed

theorem record_claim_exclusive_witness:
  "\<exists>answers tbl2. claim_run (\<lambda>t j hs. claim_record_hashes t hs j) (\<lambda>j hs. release_record_hashes hs j)
      [Take 2 ''b'' [7::nat, 8], Drop ''b'' [7, 8], Take 3 ''c'' [7]] [\<lparr>cl_hash = 7, cl_job = ''a'', cl_created = 1\<rparr>]
      = (answers, tbl2) \<and>
     (\<forall>(op, got) \<in> set answers. op_job op \<noteq> ''a'' \<longrightarrow> 7 \<notin> set got) \<and>
     7 \<in> set (fst (claim_record_hashes 4 [7] ''a'' tbl2))"
proof -
  have c: "claim_record_hashes 1 [7::nat] ''a'' [] = ([7], [\<lparr>cl_hash = 7, cl_job = ''a'', cl_created = 1\<rparr>])"
    by (simp add: claim_record_hashes_def claim_part_def CLAIM_CHUNK_SIZE_def)
  obtain answers tbl2 where run: "claim_run (\<lambda>t j hs. claim_record_hashes t hs j) (\<lambda>j hs. release_record_hashes hs j)
      [Take 2 ''b'' [7::nat, 8], Drop ''b'' [7, 8], Take 3 ''c'' [7]] [\<lparr>cl_hash = 7, cl_job = ''a'', cl_created = 1\<rparr>]
      = (answers, tbl2)" by fastforce
  show ?thesis
    using record_claim_exclusive [OF _ c _ _ run, of 7 "[7]" 4] run by (simp add: claims_ok_def)
qed

text \<open>The sweeper's purge always ends, whatever chunk size it is given (zero means the
  default), and deletes exactly the claims made before the cutoff, in both tables, and
  returns their number.\<close>

theorem purge_deletes_exactly_the_expired:
  "purge_expired_content now retention_hours chunk_size claims content =
     (let cutoff = now - retention_hours * 3600 in
      Some (count_where (\<lambda>c. cl_created c < cutoff) claims + count_where (\<lambda>c. cl_created c < cutoff) content,
        filter (\<lambda>c. cutoff \<le> cl_created c) claims, filter (\<lambda>c. cutoff \<le> cl_created c) content))"
proof -
  let ?cut = "now - retention_hours * 3600"
  let ?chunk = "case chunk_size of Some n \<Rightarrow> if n = 0 then PURGE_CHUNK_SIZE else n | None \<Rightarrow> PURGE_CHUNK_SIZE"
  have pos: "0 < ?chunk" by (auto simp: PURGE_CHUNK_SIZE_def split: option.splits)
  show ?thesis
    unfolding purge_expired_content_def Let_def
    by (subst purge_loop [OF pos], (rule le_less_trans [OF div_le_dividend], simp add: less_Suc_eq_le count_where_le),
        simp only: option.case prod.case,
        subst purge_loop [OF pos], (rule le_less_trans [OF div_le_dividend], simp add: less_Suc_eq_le count_where_le))
      (simp add: expired_claim_def [abs_def] not_less)
qed

text \<open>Rotating credentials does not make written content look new: replacing the value
  under any secret key, at any depth of a destination's configuration or declared identity,
  leaves every record hash as it was; an \<open>X-API-Key\<close> header counts as such a key, which it did
  not under the previous release's rule.\<close>

theorem rotating_a_secret_keeps_the_hash:
  "compute_record_hash H pipeline_name identity (Some (destination_identity
      (d\<lparr>d_dedup_identity := map_option (rotate_secrets is_secret_key f) (d_dedup_identity d),
         d_identity_config := map_option (rotate_secrets is_secret_key f) (d_identity_config d),
         d_config := map_option (rotate_secrets is_secret_key f) (d_config d)\<rparr>))) job_params =
   compute_record_hash H pipeline_name identity (Some (destination_identity d)) job_params \<and>
   is_secret_key ''X-API-Key'' \<and> \<not> was_secret_key ''X-API-Key''"
proof -
  have "is_secret_key ''X-API-Key'' \<and> \<not> was_secret_key ''X-API-Key''"
    by code_simp
  then show ?thesis unfolding destination_identity_def identity_rotate by simp
qed

end
