(* ===== verification/JobStore.thy ===== *)
theory JobStore
  imports Values
begin

text \<open>
  The \<open>jobs\<close> table (\<open>reflow_manager/models.py\<close>, class \<open>Job\<close>) and every operation of
  \<open>JobManager\<close> (\<open>reflow_manager/job_manager.py\<close>). Each method is one transaction, so each
  definition is one atomic step from table to table. \<open>j_updated\<close> is what the running lease
  is measured from; an \<open>UPDATE\<close> that does not name it still refreshes it (\<open>onupdate\<close>).
\<close>

datatype job_state =
  JPending | JDispatched | JRunning | JCompleted | JFailed | JDeduplicated | JCancelled

record job =
  j_id :: string
  j_exec :: string
  j_payload :: pydict
  j_batch :: "int option"
  j_state :: job_state
  j_attempts :: int
  j_processed :: int
  j_error :: "string option"
  j_traceback :: "string option"
  j_stats :: "pydict option"
  j_created :: time
  j_updated :: time
  j_dispatched_at :: "time option"
  j_completed_at :: "time option"

type_synonym jobs = "job list"

text \<open>One row to insert: execution id, job id, payload and batch number.\<close>

type_synonym new_job = "string \<times> string \<times> pydict \<times> int"

definition new_row :: "time \<Rightarrow> new_job \<Rightarrow> job" where
  "new_row now r = (case r of (eid, jid, payload, batch) \<Rightarrow>
     \<lparr>j_id = jid, j_exec = eid, j_payload = payload, j_batch = Some batch, j_state = JPending,
      j_attempts = 0, j_processed = 0, j_error = None, j_traceback = None, j_stats = None,
      j_created = now, j_updated = now, j_dispatched_at = None, j_completed_at = None\<rparr>)"

definition create_jobs :: "time \<Rightarrow> new_job list \<Rightarrow> jobs \<Rightarrow> py_error + jobs" where
  "create_jobs now rows tbl =
     (if rows = [] then Inr tbl
      else let tbl' = tbl @ map (new_row now) rows
           in if distinct (map j_id tbl') then Inr tbl' else Inl (IntegrityError ''jobs''))"

definition get_job :: "string \<Rightarrow> jobs \<Rightarrow> job option" where
  "get_job jid tbl = first_where (\<lambda>j. j_id j = jid) tbl"

text \<open>Rows that tie on both columns may come back in any order; the model keeps the table's.\<close>

definition get_pending_jobs :: "string \<Rightarrow> nat \<Rightarrow> jobs \<Rightarrow> job list" where
  "get_pending_jobs eid limit tbl =
     take limit (sort_key (\<lambda>j. (nullable (j_batch j), j_created j))
       (filter (\<lambda>j. j_exec j = eid \<and> j_state j = JPending) tbl))"

definition get_jobs :: "string \<Rightarrow> job_state option \<Rightarrow> jobs \<Rightarrow> job list" where
  "get_jobs eid st tbl =
     sort_key j_created (filter (\<lambda>j. j_exec j = eid \<and> (case st of None \<Rightarrow> True | Some s \<Rightarrow> j_state j = s)) tbl)"

definition mark_job_dispatched :: "time \<Rightarrow> string \<Rightarrow> jobs \<Rightarrow> jobs" where
  "mark_job_dispatched now jid tbl =
     (let tbl1 = update_where (\<lambda>j. j_id j = jid)
                   (\<lambda>j. j\<lparr>j_dispatched_at := Some now, j_updated := now\<rparr>) tbl
      in update_where (\<lambda>j. j_id j = jid \<and> j_state j = JPending)
           (\<lambda>j. j\<lparr>j_state := JDispatched, j_updated := now\<rparr>) tbl1)"

definition unstarted :: "string \<Rightarrow> job \<Rightarrow> bool" where
  "unstarted eid j \<longleftrightarrow> j_exec j = eid \<and> j_state j \<in> {JPending, JDispatched}"

definition cancel_unstarted_jobs :: "time \<Rightarrow> string \<Rightarrow> jobs \<Rightarrow> nat \<times> jobs" where
  "cancel_unstarted_jobs now eid tbl =
     (count_where (unstarted eid) tbl,
      update_where (unstarted eid)
        (\<lambda>j. j\<lparr>j_state := JCancelled, j_completed_at := Some now, j_updated := now\<rparr>) tbl)"

text \<open>\<open>Job.error_message.contains(text)\<close> is a LIKE with the text between two percent signs,
  not escaped; a null message never matches.\<close>

definition error_contains :: "string option \<Rightarrow> job \<Rightarrow> bool" where
  "error_contains txt j =
     (case txt of None \<Rightarrow> True
      | Some t \<Rightarrow> if t = [] then True
         else (case j_error j of None \<Rightarrow> False | Some m \<Rightarrow> sql_like (''%'' @ t @ ''%'') m))"

definition requeueable :: "string \<Rightarrow> string option \<Rightarrow> job \<Rightarrow> bool" where
  "requeueable eid txt j \<longleftrightarrow> j_exec j = eid \<and> j_state j = JFailed \<and> error_contains txt j"

definition requeue_failed :: "time \<Rightarrow> string \<Rightarrow> string option \<Rightarrow> jobs \<Rightarrow> nat \<times> jobs" where
  "requeue_failed now eid txt tbl =
     (count_where (requeueable eid txt) tbl,
      update_where (requeueable eid txt)
        (\<lambda>j. j\<lparr>j_state := JPending, j_attempts := 0, j_error := None, j_traceback := None,
               j_completed_at := None, j_stats := None, j_updated := now\<rparr>) tbl)"

definition stale_running :: "string \<Rightarrow> time \<Rightarrow> job \<Rightarrow> bool" where
  "stale_running eid cutoff j \<longleftrightarrow> j_exec j = eid \<and> j_state j = JRunning \<and> j_updated j < cutoff"

definition stale_dispatched :: "string \<Rightarrow> time \<Rightarrow> job \<Rightarrow> bool" where
  "stale_dispatched eid cutoff j \<longleftrightarrow>
     j_exec j = eid \<and> j_state j = JDispatched \<and> lt_null (j_dispatched_at j) cutoff"

record reclaimed =
  r_failed :: nat
  r_requeued_running :: nat
  r_requeued_dispatched :: nat

text \<open>The error text of a job out of attempts is a function of the two settings (its number
  formatting is Python's); the model keeps it as a parameter.\<close>

definition reclaim_expired_leases ::
  "string \<Rightarrow> time \<Rightarrow> string \<Rightarrow> rat \<Rightarrow> rat \<Rightarrow> int \<Rightarrow> jobs \<Rightarrow> reclaimed \<times> jobs" where
  "reclaim_expired_leases lost_msg now eid running_lease dispatch_lease max_attempts tbl =
     (let running_cutoff = now - running_lease;
          dispatch_cutoff = now - dispatch_lease;
          out = (\<lambda>j. stale_running eid running_cutoff j \<and> max_attempts \<le> j_attempts j);
          tbl1 = update_where out (\<lambda>j. j\<lparr>j_state := JFailed, j_error := Some lost_msg,
                   j_completed_at := Some now, j_updated := now\<rparr>) tbl;
          tbl2 = update_where (stale_running eid running_cutoff)
                   (\<lambda>j. j\<lparr>j_state := JPending, j_updated := now\<rparr>) tbl1;
          tbl3 = update_where (stale_dispatched eid dispatch_cutoff)
                   (\<lambda>j. j\<lparr>j_state := JPending, j_updated := now\<rparr>) tbl2
      in (\<lparr>r_failed = count_where out tbl,
           r_requeued_running = count_where (stale_running eid running_cutoff) tbl1,
           r_requeued_dispatched = count_where (stale_dispatched eid dispatch_cutoff) tbl2\<rparr>, tbl3))"

definition nonempty :: "'a list option \<Rightarrow> bool" where
  "nonempty x = (case x of None \<Rightarrow> False | Some xs \<Rightarrow> xs \<noteq> [])"

definition update_job_state ::
  "time \<Rightarrow> string \<Rightarrow> job_state \<Rightarrow> int option \<Rightarrow> string option \<Rightarrow> pydict option \<Rightarrow> jobs \<Rightarrow>
     job option \<times> jobs" where
  "update_job_state now jid st processed err stats tbl =
     (let f = (\<lambda>j. j\<lparr>j_state := st, j_updated := now,
                j_completed_at := (if st \<in> {JCompleted, JFailed} then Some now else j_completed_at j),
                j_processed := (case processed of None \<Rightarrow> j_processed j | Some n \<Rightarrow> n),
                j_error := (if nonempty err then err else j_error j),
                j_stats := (if nonempty stats then stats else j_stats j)\<rparr>);
          tbl' = update_where (\<lambda>j. j_id j = jid) f tbl
      in if count_where (\<lambda>j. j_id j = jid) tbl = 0 then (None, tbl')
         else (get_job jid tbl', tbl'))"

definition get_job_states :: "string list \<Rightarrow> jobs \<Rightarrow> (string \<times> job_state) list" where
  "get_job_states jids tbl =
     map (\<lambda>j. (j_id j, j_state j)) (filter (\<lambda>j. j_id j \<in> set jids) tbl)"

record job_counts =
  c_total :: nat
  c_pending :: nat
  c_dispatched :: nat
  c_running :: nat
  c_completed :: nat
  c_failed :: nat
  c_deduplicated :: nat
  c_cancelled :: nat

definition in_state :: "string \<Rightarrow> job_state \<Rightarrow> job \<Rightarrow> bool" where
  "in_state eid s j \<longleftrightarrow> j_exec j = eid \<and> j_state j = s"

abbreviation n_in :: "string \<Rightarrow> job_state \<Rightarrow> jobs \<Rightarrow> nat" where
  "n_in eid s tbl \<equiv> count_where (in_state eid s) tbl"

text \<open>The query groups the execution's jobs by state; the total is the sum over the groups.\<close>

definition get_job_counts :: "string \<Rightarrow> jobs \<Rightarrow> job_counts" where
  "get_job_counts eid tbl =
     \<lparr>c_total = (\<Sum>s \<leftarrow> [JPending, JDispatched, JRunning, JCompleted, JFailed, JDeduplicated, JCancelled]. n_in eid s tbl),
      c_pending = n_in eid JPending tbl, c_dispatched = n_in eid JDispatched tbl,
      c_running = n_in eid JRunning tbl, c_completed = n_in eid JCompleted tbl,
      c_failed = n_in eid JFailed tbl, c_deduplicated = n_in eid JDeduplicated tbl,
      c_cancelled = n_in eid JCancelled tbl\<rparr>"

text \<open>\<open>jsonb_set(payload, '{metadata,total_batches}', v)\<close>: nothing happens when the payload has
  no metadata object; otherwise the key is set, or added when it is missing.\<close>

definition jsonb_set_total_batches :: "int \<Rightarrow> pydict \<Rightarrow> pydict" where
  "jsonb_set_total_batches n payload =
     (case dget payload ''metadata'' of
        Some (PDict m) \<Rightarrow> dset payload ''metadata'' (PDict (dset m ''total_batches'' (PInt n)))
      | _ \<Rightarrow> payload)"

definition bulk_set_total_batches :: "string \<Rightarrow> int \<Rightarrow> jobs \<Rightarrow> jobs" where
  "bulk_set_total_batches eid n tbl =
     update_where (\<lambda>j. j_exec j = eid) (\<lambda>j. j\<lparr>j_payload := jsonb_set_total_batches n (j_payload j)\<rparr>) tbl"

subsection \<open>What the operations change\<close>

lemma job_state_UNIV: "s \<in> {JPending, JDispatched, JRunning, JCompleted, JFailed, JDeduplicated, JCancelled}"
  by (cases s) auto

lemma total_counts_every_job: "c_total (get_job_counts eid tbl) = count_where (\<lambda>j. j_exec j = eid) tbl"
proof (induction tbl)
  case (Cons j tbl)
  then show ?case
    by (cases "j_state j") (auto simp: get_job_counts_def in_state_def)
qed (simp add: get_job_counts_def)

text \<open>Ids and executions of the rows never change, so keys stay unique.\<close>

definition same_jobs :: "jobs \<Rightarrow> jobs \<Rightarrow> bool" where
  "same_jobs tbl tbl' \<longleftrightarrow> map (\<lambda>j. (j_id j, j_exec j)) tbl' = map (\<lambda>j. (j_id j, j_exec j)) tbl"

lemma same_jobs_refl [simp]: "same_jobs tbl tbl"
  by (simp add: same_jobs_def)

lemma same_jobs_trans: "same_jobs a b \<Longrightarrow> same_jobs b c \<Longrightarrow> same_jobs a c"
  by (simp add: same_jobs_def)

lemma same_jobs_update:
  "same_jobs tbl tbl' \<Longrightarrow> (\<And>j. j_id (f j) = j_id j \<and> j_exec (f j) = j_exec j) \<Longrightarrow>
   same_jobs tbl (update_where P f tbl')"
  by (simp add: same_jobs_def map_update_where)

lemma same_jobs_ids: "same_jobs tbl tbl' \<Longrightarrow> map j_id tbl' = map j_id tbl"
proof -
  assume "same_jobs tbl tbl'"
  then have "map fst (map (\<lambda>j. (j_id j, j_exec j)) tbl') = map fst (map (\<lambda>j. (j_id j, j_exec j)) tbl)"
    by (simp only: same_jobs_def)
  then show ?thesis by (simp add: comp_def)
qed

lemma same_jobs_total:
  "same_jobs tbl tbl' \<Longrightarrow> count_where (\<lambda>j. j_exec j = eid) tbl' = count_where (\<lambda>j. j_exec j = eid) tbl"
proof -
  have *: "count_where (\<lambda>j. j_exec j = eid) t =
      count_where (\<lambda>p. snd p = eid) (map (\<lambda>j. (j_id j, j_exec j)) t)" for t
    by (induction t) auto
  show "same_jobs tbl tbl' \<Longrightarrow> ?thesis" unfolding * by (simp add: same_jobs_def)
qed

lemma same_jobs_ops [intro]:
  "same_jobs tbl (mark_job_dispatched now jid tbl)"
  "same_jobs tbl (snd (cancel_unstarted_jobs now eid tbl))"
  "same_jobs tbl (snd (requeue_failed now eid txt tbl))"
  "same_jobs tbl (snd (reclaim_expired_leases msg now eid rl dl ma tbl))"
  "same_jobs tbl (snd (update_job_state now jid st p err stats tbl))"
  "same_jobs tbl (bulk_set_total_batches eid n tbl)"
  by (auto simp: mark_job_dispatched_def cancel_unstarted_jobs_def requeue_failed_def
      reclaim_expired_leases_def update_job_state_def bulk_set_total_batches_def Let_def
      intro!: same_jobs_update)

subsection \<open>Expired leases, row by row\<close>

definition reclaim_row :: "string \<Rightarrow> time \<Rightarrow> string \<Rightarrow> rat \<Rightarrow> rat \<Rightarrow> int \<Rightarrow> job \<Rightarrow> job" where
  "reclaim_row lost_msg now eid running_lease dispatch_lease max_attempts j =
     (if stale_running eid (now - running_lease) j
      then (if max_attempts \<le> j_attempts j
            then j\<lparr>j_state := JFailed, j_error := Some lost_msg, j_completed_at := Some now, j_updated := now\<rparr>
            else j\<lparr>j_state := JPending, j_updated := now\<rparr>)
      else if stale_dispatched eid (now - dispatch_lease) j
      then j\<lparr>j_state := JPending, j_updated := now\<rparr> else j)"

text \<open>The three statements do not disturb each other: a job is in one state only.\<close>

lemma stale_states:
  "stale_running eid c (j\<lparr>j_state := st, j_error := m, j_completed_at := t, j_updated := now\<rparr>) =
     (j_exec j = eid \<and> st = JRunning \<and> now < c)"
  "stale_running eid c (j\<lparr>j_state := st, j_updated := now\<rparr>) = (j_exec j = eid \<and> st = JRunning \<and> now < c)"
  "st \<noteq> JDispatched \<Longrightarrow> \<not> stale_dispatched eid c (j\<lparr>j_state := st, j_error := m, j_completed_at := t, j_updated := now\<rparr>)"
  "st \<noteq> JDispatched \<Longrightarrow> \<not> stale_dispatched eid c (j\<lparr>j_state := st, j_updated := now\<rparr>)"
  "stale_running eid c j \<Longrightarrow> \<not> stale_dispatched eid c' j"
  by (auto simp: stale_running_def stale_dispatched_def)

lemma reclaim_table:
  "snd (reclaim_expired_leases msg now eid rl dl ma tbl) = map (reclaim_row msg now eid rl dl ma) tbl"
  by (simp add: reclaim_expired_leases_def Let_def update_where_def reclaim_row_def stale_states)

lemma reclaim_numbers:
  "fst (reclaim_expired_leases msg now eid rl dl ma tbl) =
     \<lparr>r_failed = count_where (\<lambda>j. stale_running eid (now - rl) j \<and> ma \<le> j_attempts j) tbl,
      r_requeued_running = count_where (\<lambda>j. stale_running eid (now - rl) j \<and> \<not> ma \<le> j_attempts j) tbl,
      r_requeued_dispatched = count_where (stale_dispatched eid (now - dl)) tbl\<rparr>"
proof -
  have gone: "count_where (stale_running eid c) (update_where out f tbl) = count_where (\<lambda>j. stale_running eid c j \<and> \<not> out j) tbl"
    if "\<And>j. j_state (f j) = JFailed" for c out f
    using that by (intro count_where_update_outof) (simp add: stale_running_def)
  have same: "count_where (stale_dispatched eid c) (update_where P f t) = count_where (stale_dispatched eid c) t"
    if "\<And>j. P j \<Longrightarrow> stale_running eid c' j" and "\<And>j. j_state (f j) \<noteq> JDispatched" for c c' P f t
    using that by (intro count_where_update) (auto simp: stale_dispatched_def stale_running_def)
  note first = same [where P = "\<lambda>j. stale_running eid (now - rl) j \<and> ma \<le> j_attempts j" and c' = "now - rl"]
  note second = same [where P = "stale_running eid (now - rl)" and c' = "now - rl"]
  show ?thesis
    by (simp add: reclaim_expired_leases_def Let_def gone first second cong: conj_cong)
qed

subsection \<open>The next jobs to send\<close>

lemma get_pending_jobs_sound:
  "j \<in> set (get_pending_jobs eid limit tbl) \<Longrightarrow> j \<in> set tbl \<and> j_exec j = eid \<and> j_state j = JPending"
  by (auto simp: get_pending_jobs_def dest: in_set_takeD)

lemma get_pending_jobs_length:
  "length (get_pending_jobs eid limit tbl) = min limit (n_in eid JPending tbl)"
proof -
  have "filter (\<lambda>j. j_exec j = eid \<and> j_state j = JPending) tbl = filter (in_state eid JPending) tbl"
    by (rule filter_cong) (simp_all add: in_state_def)
  then show ?thesis by (simp add: get_pending_jobs_def count_where_def)
qed

lemma take_sorted_least:
  assumes "x \<in> set (take n (sort_key f xs))" and "y \<in> set (drop n (sort_key f xs))"
  shows "f x \<le> f y"
proof -
  have "sorted (map f (take n (sort_key f xs) @ drop n (sort_key f xs)))"
    by (simp only: append_take_drop_id sorted_sort_key)
  then have "sorted (map f (take n (sort_key f xs)) @ map f (drop n (sort_key f xs)))"
    by (simp only: map_append)
  then have "\<forall>a \<in> set (map f (take n (sort_key f xs))). \<forall>b \<in> set (map f (drop n (sort_key f xs))). a \<le> b"
    unfolding sorted_append by (elim conjE)
  then show ?thesis using assms by simp
qed

subsection \<open>Properties\<close>

text \<open>\<open>reclaim_expired_leases\<close> decides each job on its own: a job running without a sign of
  life for the running lease fails if it was already started \<open>max_attempts\<close> times and goes
  back to pending otherwise; a job dispatched longer than the dispatch lease goes back to
  pending; every other job, and every job of another execution, is untouched. The three
  numbers it reports are the numbers of jobs each of these happened to.\<close>

theorem reclaim_row_by_row:
  "reclaim_expired_leases msg now eid rl dl ma tbl =
     (\<lparr>r_failed = count_where (\<lambda>j. stale_running eid (now - rl) j \<and> ma \<le> j_attempts j) tbl,
       r_requeued_running = count_where (\<lambda>j. stale_running eid (now - rl) j \<and> \<not> ma \<le> j_attempts j) tbl,
       r_requeued_dispatched = count_where (stale_dispatched eid (now - dl)) tbl\<rparr>,
      map (\<lambda>j. if stale_running eid (now - rl) j
               then (if ma \<le> j_attempts j
                     then j\<lparr>j_state := JFailed, j_error := Some msg, j_completed_at := Some now, j_updated := now\<rparr>
                     else j\<lparr>j_state := JPending, j_updated := now\<rparr>)
               else if stale_dispatched eid (now - dl) j
               then j\<lparr>j_state := JPending, j_updated := now\<rparr> else j) tbl)"
proof -
  have "reclaim_expired_leases msg now eid rl dl ma tbl =
      (fst (reclaim_expired_leases msg now eid rl dl ma tbl), map (reclaim_row msg now eid rl dl ma) tbl)"
    by (simp only: reclaim_table [symmetric] prod.collapse)
  then show ?thesis
    by (simp only: reclaim_numbers reclaim_row_def [abs_def])
qed

text \<open>The next jobs to send are exactly as many of the execution's pending jobs as fit the
  limit, and no pending job left behind comes before one of them in (batch number, creation
  time), nulls last.\<close>

theorem pending_jobs_oldest_first:
  "length (get_pending_jobs eid limit tbl) = min limit (c_pending (get_job_counts eid tbl)) \<and>
   (\<forall>j \<in> set (get_pending_jobs eid limit tbl).
      j \<in> set tbl \<and> j_exec j = eid \<and> j_state j = JPending \<and>
      (\<forall>k \<in> set tbl. j_exec k = eid \<and> j_state k = JPending \<and> k \<notin> set (get_pending_jobs eid limit tbl) \<longrightarrow>
         (nullable (j_batch j), j_created j) \<le> (nullable (j_batch k), j_created k)))"
proof (intro conjI ballI impI)
  show "length (get_pending_jobs eid limit tbl) = min limit (c_pending (get_job_counts eid tbl))"
    by (simp add: get_pending_jobs_length get_job_counts_def)
next
  fix j assume j: "j \<in> set (get_pending_jobs eid limit tbl)"
  show "j \<in> set tbl" "j_exec j = eid" "j_state j = JPending"
    using get_pending_jobs_sound [OF j] by simp_all
  fix k assume "k \<in> set tbl"
    and k: "j_exec k = eid \<and> j_state k = JPending \<and> k \<notin> set (get_pending_jobs eid limit tbl)"
  let ?f = "\<lambda>j. (nullable (j_batch j), j_created j)"
  let ?all = "sort_key ?f (filter (\<lambda>j. j_exec j = eid \<and> j_state j = JPending) tbl)"
  have "k \<in> set ?all" using k \<open>k \<in> set tbl\<close> by simp
  then have "k \<in> set (take limit ?all @ drop limit ?all)" by (simp only: append_take_drop_id)
  then have "k \<in> set (take limit ?all) \<or> k \<in> set (drop limit ?all)" by (simp only: set_append Un_iff)
  then have "k \<in> set (drop limit ?all)" using k unfolding get_pending_jobs_def by blast
  then show "?f j \<le> ?f k" using j unfolding get_pending_jobs_def
    by (rule take_sorted_least [rotated])
qed

theorem pending_jobs_oldest_first_witness:
  "length (get_pending_jobs ''e'' 1 (map (new_row 5) [(''e'', ''b'', [], 2), (''e'', ''a'', [], 1)])) = 1"
  using pending_jobs_oldest_first [of "''e''" 1 "map (new_row 5) [(''e'', ''b'', [], 2), (''e'', ''a'', [], 1)]"]
  by (simp add: get_job_counts_def in_state_def new_row_def)

text \<open>The reported counts partition the execution's jobs: the total is the number of its
  rows, and the seven state counts add up to it, whatever states the rows are in.\<close>

theorem counts_partition_the_jobs:
  "c_total (get_job_counts eid tbl) = length (get_jobs eid None tbl) \<and>
   c_pending (get_job_counts eid tbl) + c_dispatched (get_job_counts eid tbl) +
   c_running (get_job_counts eid tbl) + c_completed (get_job_counts eid tbl) +
   c_failed (get_job_counts eid tbl) + c_deduplicated (get_job_counts eid tbl) +
   c_cancelled (get_job_counts eid tbl) = length (get_jobs eid None tbl)"
proof -
  have "c_total (get_job_counts eid tbl) = length (get_jobs eid None tbl)"
    by (simp add: total_counts_every_job get_jobs_def count_where_def)
  then show ?thesis by (simp add: get_job_counts_def)
qed

text \<open>Cancelling leaves no job of the execution that a worker could still start, reports
  how many it cancelled, and touches neither a running or finished job nor another
  execution's jobs.\<close>

theorem cancel_leaves_nothing_to_start:
  "snd (cancel_unstarted_jobs now eid tbl) =
     map (\<lambda>j. if j_exec j = eid \<and> j_state j \<in> {JPending, JDispatched}
              then j\<lparr>j_state := JCancelled, j_completed_at := Some now, j_updated := now\<rparr> else j) tbl \<and>
   fst (cancel_unstarted_jobs now eid tbl) =
     c_pending (get_job_counts eid tbl) + c_dispatched (get_job_counts eid tbl) \<and>
   get_pending_jobs eid limit (snd (cancel_unstarted_jobs now eid tbl)) = []"
proof (intro conjI)
  show "snd (cancel_unstarted_jobs now eid tbl) =
     map (\<lambda>j. if j_exec j = eid \<and> j_state j \<in> {JPending, JDispatched}
              then j\<lparr>j_state := JCancelled, j_completed_at := Some now, j_updated := now\<rparr> else j) tbl"
    by (simp add: cancel_unstarted_jobs_def update_where_def unstarted_def)
  show "fst (cancel_unstarted_jobs now eid tbl) =
     c_pending (get_job_counts eid tbl) + c_dispatched (get_job_counts eid tbl)"
    by (induction tbl) (auto simp: cancel_unstarted_jobs_def get_job_counts_def unstarted_def in_state_def)
  have "filter (\<lambda>j. j_exec j = eid \<and> j_state j = JPending) (snd (cancel_unstarted_jobs now eid tbl)) = []"
    by (induction tbl) (auto simp: cancel_unstarted_jobs_def unstarted_def)
  then show "get_pending_jobs eid limit (snd (cancel_unstarted_jobs now eid tbl)) = []"
    by (simp add: get_pending_jobs_def)
qed

text \<open>Recording a send never takes a job back from a worker: only a pending job becomes
  dispatched; any other keeps its state, while the send time is recorded on it either way,
  and no other job changes.\<close>

theorem mark_dispatched_respects_claims:
  "mark_job_dispatched now jid tbl =
     map (\<lambda>j. if j_id j = jid
              then j\<lparr>j_dispatched_at := Some now, j_updated := now,
                     j_state := (if j_state j = JPending then JDispatched else j_state j)\<rparr>
              else j) tbl"
  by (induction tbl) (auto simp: mark_job_dispatched_def Let_def)

end
