(* ===== verification/Executor.thy ===== *)
theory Executor
  imports JobRunner ExecContext ContentDedup JobStore
begin

text \<open>
  \<open>worker/executor.py\<close>: what a worker does with one job message. The state of its steps is
  the shared database (the jobs and the claims on record hashes), the clock, the job's
  statistics, params and destination, the records written and the metrics emitted. The
  \<open>worker\<close> record holds its surroundings: what other processes do between database
  operations, which of those fail, the registries, the source, the destination's calls.
\<close>

record job_stats =
  st_start :: time
  st_end :: "time option"
  st_in :: nat
  st_out :: nat
  st_times :: pydict
  st_write_time :: rat
  st_error :: "string option"
  st_error_type :: "string option"
  st_traceback :: "string option"
  st_success :: bool
  st_dedup :: bool
  st_records_dedup :: nat
  st_skip_reason :: "pyval option"
  st_skipped :: nat
  st_skip_reasons :: reasons
  st_redelivered :: bool
  st_cancelled :: bool

definition new_stats :: "time \<Rightarrow> job_stats" where
  "new_stats now = \<lparr>st_start = now, st_end = None, st_in = 0, st_out = 0, st_times = [], st_write_time = 0,
     st_error = None, st_error_type = None, st_traceback = None, st_success = False, st_dedup = False,
     st_records_dedup = 0, st_skip_reason = None, st_skipped = 0, st_skip_reasons = [],
     st_redelivered = False, st_cancelled = False\<rparr>"

text \<open>Python's \<open>round\<close>: half to even.\<close>

definition py_round :: "rat \<Rightarrow> nat \<Rightarrow> rat" where
  "py_round x n =
     (let y = x * 10 ^ n; f = \<lfloor>y\<rfloor>; d = y - of_int f;
          r = (if d < 1/2 then f else if 1/2 < d then f + 1 else if even f then f else f + 1)
      in of_int r / 10 ^ n)"

definition opt_str :: "string option \<Rightarrow> pyval" where
  "opt_str x = (case x of None \<Rightarrow> PNone | Some s \<Rightarrow> PStr s)"

definition stats_to_dict :: "job_stats \<Rightarrow> pydict" where
  "stats_to_dict s =
     (let duration = (case st_end s of Some e \<Rightarrow> if e = 0 then 0 else e - st_start s | None \<Rightarrow> 0)
      in [(''start_time'', PFloat (st_start s)),
          (''end_time'', (case st_end s of Some e \<Rightarrow> PFloat e | None \<Rightarrow> PNone)),
          (''duration_seconds'', PFloat (py_round duration 3)),
          (''records_input'', PInt (int (st_in s))),
          (''records_output'', PInt (int (st_out s))),
          (''records_deduplicated'', PInt (int (st_records_dedup s))),
          (''throughput_records_per_second'',
            (if 0 < duration then PFloat (py_round (of_nat (st_out s) / duration) 2) else PInt 0)),
          (''transformation_times'', PDict (st_times s)),
          (''destination_write_time'', PFloat (py_round (st_write_time s) 3)),
          (''error'', opt_str (st_error s)),
          (''skip_reason'', (case st_skip_reason s of None \<Rightarrow> PNone | Some v \<Rightarrow> v)),
          (''records_skipped'', PInt (int (st_skipped s))),
          (''record_skip_reasons'', PDict (map (\<lambda>(k, n). (k, PInt (int n))) (st_skip_reasons s))),
          (''success'', PBool (st_success s))])"

subsection \<open>Metrics\<close>

datatype metric =
    JobsProcessed string string
  | JobDuration string rat
  | RecordsProcessed string nat
  | RecordsDeduplicated string nat
  | JobsFailed string string
  | RecordsSkipped string string nat

definition job_status :: "job_stats \<Rightarrow> string" where
  "job_status s =
     (if st_cancelled s then ''cancelled'' else if st_redelivered s then ''redelivered''
      else if st_dedup s then ''deduplicated'' else if st_skip_reason s \<noteq> None then ''skipped''
      else if st_success s then ''completed'' else ''failed'')"

definition record_job_metrics :: "string \<Rightarrow> job_stats \<Rightarrow> rat \<Rightarrow> metric list" where
  "record_job_metrics pipeline_name s duration =
     [JobsProcessed pipeline_name (job_status s), JobDuration pipeline_name duration] @
     (if st_success s \<and> st_out s \<noteq> 0 then [RecordsProcessed pipeline_name (st_out s)] else []) @
     (if st_success s \<and> st_records_dedup s \<noteq> 0 then [RecordsDeduplicated pipeline_name (st_records_dedup s)] else []) @
     (case st_error_type s of None \<Rightarrow> [] | Some t \<Rightarrow> if st_success s \<or> t = [] then [] else [JobsFailed pipeline_name t])"

subsection \<open>The world of a worker\<close>

record shared =
  sh_jobs :: jobs
  sh_claims :: "string claim_row list"
  sh_content :: "string claim_row list"

record 'd wworld =
  wk_db :: shared
  wk_now :: time
  wk_tick :: nat
  wk_stats :: job_stats
  wk_params :: pydict
  wk_claimed :: "string list"
  wk_destination :: "'d option"
  wk_written :: "pyval list"
  wk_metrics :: "metric list"

text \<open>\<open>wn_fails n\<close>: the exception the \<open>n\<close>th database operation raises, if any. A write to the
  destination may have written some records before it raised.\<close>

record 'd worker =
  wn_others :: "nat \<Rightarrow> time \<times> shared \<Rightarrow> time \<times> shared"
  wn_fails :: "nat \<Rightarrow> py_error option"
  wn_source :: "pyval \<Rightarrow> pyval \<Rightarrow> py_error + pyval list hook"
  wn_pipeline :: "string \<Rightarrow> ('d pipeline \<times> dedup_key) option"
  wn_missing :: "string \<Rightarrow> string"
  wn_identity :: "'d \<Rightarrow> destination"
  wn_health :: "'d \<Rightarrow> py_error + bool"
  wn_send :: "nat \<Rightarrow> 'd \<Rightarrow> pyval list \<Rightarrow> (py_error + unit) \<times> pyval list"
  wn_close :: "'d \<Rightarrow> py_error option"
  wn_hashing :: "string hashing"
  wn_legacy :: "string option"
  wn_concurrency :: string
  wn_order :: "nat \<Rightarrow> nat list"
  wn_traceback :: "py_error \<Rightarrow> string"
  wn_duration :: "nat \<Rightarrow> rat"

definition w_elapse :: "'d worker \<Rightarrow> 'd wworld \<Rightarrow> 'd wworld" where
  "w_elapse W w = (case wn_others W (wk_tick w) (wk_now w, wk_db w) of
     (now, db) \<Rightarrow> w\<lparr>wk_now := now, wk_db := db, wk_tick := Suc (wk_tick w)\<rparr>)"

definition w_op :: "'d worker \<Rightarrow> (time \<Rightarrow> shared \<Rightarrow> 'a \<times> shared) \<Rightarrow> ('d wworld, 'a) step" where
  "w_op W f w =
     (let w1 = w_elapse W w in
      case wn_fails W (wk_tick w) of
        Some e \<Rightarrow> (Inl e, w1)
      | None \<Rightarrow> (case f (wk_now w1) (wk_db w1) of (a, db) \<Rightarrow> (Inr a, w1\<lparr>wk_db := db\<rparr>)))"

definition stat :: "(job_stats \<Rightarrow> job_stats) \<Rightarrow> ('d wworld, unit) step" where
  "stat f = write_step (\<lambda>w. w\<lparr>wk_stats := f (wk_stats w)\<rparr>)"

definition set_end :: "('d wworld, unit) step" where
  "set_end = write_step (\<lambda>w. w\<lparr>wk_stats := (wk_stats w)\<lparr>st_end := Some (wk_now w)\<rparr>\<rparr>)"

definition on_params :: "(pydict, 'a) step \<Rightarrow> ('d wworld, 'a) step" where
  "on_params m w = (case m (wk_params w) of (r, p) \<Rightarrow> (r, w\<lparr>wk_params := p\<rparr>))"

definition lift_result :: "py_error + 'a \<Rightarrow> ('d wworld, 'a) step" where
  "lift_result r = (case r of Inl e \<Rightarrow> raise_step e | Inr v \<Rightarrow> return_step v)"

subsection \<open>The job's row\<close>

definition claim_row_of_job :: "time \<Rightarrow> string \<Rightarrow> jobs \<Rightarrow> job_state option \<times> jobs" where
  "claim_row_of_job now jid t =
     (let P = (\<lambda>j. j_id j = jid \<and> j_state j \<in> {JPending, JDispatched})
      in if count_where P t = 1
         then (None, update_where P (\<lambda>j. j\<lparr>j_state := JRunning, j_attempts := j_attempts j + 1, j_updated := now\<rparr>) t)
         else (map_option j_state (get_job jid t), t))"

definition claim_job :: "'d worker \<Rightarrow> string \<Rightarrow> ('d wworld, job_state option) step" where
  "claim_job W jid =
     try_step (w_op W (\<lambda>now db. case claim_row_of_job now jid (sh_jobs db) of (r, t) \<Rightarrow> (r, db\<lparr>sh_jobs := t\<rparr>)))
       is_exception (\<lambda>_. return_step None)"

definition heartbeat_row :: "time \<Rightarrow> string \<Rightarrow> jobs \<Rightarrow> jobs" where
  "heartbeat_row now jid t =
     update_where (\<lambda>j. j_id j = jid \<and> j_state j = JRunning) (\<lambda>j. j\<lparr>j_updated := now\<rparr>) t"

definition result_state :: "job_stats \<Rightarrow> job_state" where
  "result_state s = (if st_dedup s then JDeduplicated else if st_success s then JCompleted else JFailed)"

definition result_row :: "time \<Rightarrow> string \<Rightarrow> job_stats \<Rightarrow> jobs \<Rightarrow> jobs" where
  "result_row now jid s t =
     update_where (\<lambda>j. j_id j = jid)
       (\<lambda>j. j\<lparr>j_state := result_state s, j_updated := now, j_completed_at := Some now,
              j_processed := int (st_out s), j_stats := Some (stats_to_dict s),
              j_error := (if nonempty (st_error s) then st_error s else j_error j),
              j_traceback := (if nonempty (st_traceback s) then st_traceback s else j_traceback j)\<rparr>) t"

definition update_job_in_db :: "'d worker \<Rightarrow> string \<Rightarrow> ('d wworld, unit) step" where
  "update_job_in_db W jid =
     bind_step (read_step wk_stats) (\<lambda>s.
     try_step (w_op W (\<lambda>now db. ((), db\<lparr>sh_jobs := result_row now jid s (sh_jobs db)\<rparr>)))
       is_exception (\<lambda>_. return_step ()))"

subsection \<open>Claiming the records\<close>

text \<open>The first record of each hash that was won, in order.\<close>

fun keep_won :: "string list \<Rightarrow> string list \<Rightarrow> (pyval \<times> string) list \<Rightarrow> pyval list" where
  "keep_won won seen [] = []"
| "keep_won won seen ((r, h) # rest) =
     (if h \<in> set won \<and> h \<notin> set seen then r # keep_won won (h # seen) rest else keep_won won seen rest)"

definition claim_records ::
  "'d worker \<Rightarrow> dedup_key \<Rightarrow> string \<Rightarrow> string \<Rightarrow> pyval list \<Rightarrow> pyval list \<Rightarrow> string list \<Rightarrow> pydict option \<Rightarrow> 'd \<Rightarrow>
     ('d wworld, pyval list \<times> string list) step" where
  "claim_records W key pipeline_name jid records transformed names job_params d =
     (let identity = destination_identity (wn_identity W d);
          previous = previous_destination_identity (wn_identity W d);
          job_hash = compute_content_hash (wn_hashing W) pipeline_name names records job_params;
          job_hashes = [job_hash (Some identity), job_hash None] @
            (if previous \<noteq> identity then [job_hash (Some previous)] else [])
      in bind_step (if honor_legacy_hash (wn_legacy W)
                    then w_op W (\<lambda>now db. (held_by_other_job job_hashes jid (sh_content db), db))
                    else return_step False) (\<lambda>held.
         if held then return_step ([], []) else
         bind_step (read_step wk_params) (\<lambda>params.
         bind_step (lift_result (sequence (map (\<lambda>r. map_sum id (\<lambda>i.
             compute_record_hash (wn_hashing W) pipeline_name i (Some identity) job_params)
             (record_identity r key params)) transformed))) (\<lambda>hashes.
         bind_step (w_op W (\<lambda>now db. case claim_record_hashes now hashes jid (sh_claims db) of
             (won, t) \<Rightarrow> (won, db\<lparr>sh_claims := t\<rparr>))) (\<lambda>won.
         return_step (keep_won won [] (zip transformed hashes), won))))))"

definition release_claims :: "'d worker \<Rightarrow> string \<Rightarrow> ('d wworld, unit) step" where
  "release_claims W jid =
     bind_step (read_step wk_claimed) (\<lambda>hs.
     if hs = [] then return_step ()
     else w_op W (\<lambda>now db. ((), db\<lparr>sh_claims := release_record_hashes hs jid (sh_claims db)\<rparr>)))"

subsection \<open>The stages of a job\<close>

definition elapse_step :: "'d worker \<Rightarrow> ('d wworld, unit) step" where
  "elapse_step W = write_step (w_elapse W)"

definition emit :: "metric list \<Rightarrow> ('d wworld, unit) step" where
  "emit ms = write_step (\<lambda>w. w\<lparr>wk_metrics := wk_metrics w @ ms\<rparr>)"

text \<open>Calling \<open>get\<close> on what is not a dict.\<close>

definition as_dict :: "pyval \<Rightarrow> py_error + pydict" where
  "as_dict v = (case v of PDict d \<Rightarrow> Inr d | _ \<Rightarrow> Inl (OtherError ''AttributeError'' ''the object has no attribute get''))"

definition item_of :: "pydict \<Rightarrow> string \<Rightarrow> py_error + pyval" where
  "item_of d k = (case dget d k of Some v \<Rightarrow> Inr v | None \<Rightarrow> Inl (KeyError k))"

definition fetch_slice :: "'d worker \<Rightarrow> pydict \<Rightarrow> ('d wworld, pyval list hook) step" where
  "fetch_slice W payload =
     (let descriptor = dget_or payload ''source'' PNone in
      bind_step (lift_result (as_dict (if truthy descriptor then descriptor else PDict []))) (\<lambda>d.
      bind_step (lift_result (item_of d ''type'')) (\<lambda>typ.
      bind_step (lift_result (item_of d ''config'')) (\<lambda>config.
      lift_result (wn_source W typ config)))))"

text \<open>The slice is fetched and transformed with the params built from the job's metadata.\<close>

definition make_records ::
  "'d worker \<Rightarrow> pydict \<Rightarrow> string \<Rightarrow> ('d wworld, 'd pipeline \<times> dedup_key \<times> 'd outcome) step" where
  "make_records W payload pipeline_name =
     bind_step (lift_result (as_dict (dget_or payload ''metadata'' (PDict [])))) (\<lambda>metadata.
     bind_step (lift_result (build_flat_from_metadata metadata)) (\<lambda>params.
     bind_step (write_step (\<lambda>w. w\<lparr>wk_params := params\<rparr>)) (\<lambda>_.
     bind_step (fetch_slice W payload) (\<lambda>fetch.
     case wn_pipeline W pipeline_name of
       None \<Rightarrow> raise_step (RuntimeError (''Pipeline '' @ quoted pipeline_name @ '' not found in worker registry'' @
                 wn_missing W pipeline_name @ ''; worker-side sourcing requires the pipeline to be discoverable.''))
     | Some (p, key) \<Rightarrow>
         bind_step (elapse_step W) (\<lambda>_.
         bind_step (on_params (run_job_records (wn_concurrency W) (wn_order W) fetch p None)) (\<lambda>oc.
         bind_step (write_step (\<lambda>w. w\<lparr>wk_destination := oc_destination oc\<rparr>)) (\<lambda>_.
         return_step (p, key, oc))))))))"

definition empty_job :: "'d worker \<Rightarrow> string \<Rightarrow> ('d wworld, bool) step" where
  "empty_job W jid =
     bind_step (read_step wk_params) (\<lambda>params.
     bind_step (stat (\<lambda>s. s\<lparr>st_skip_reason := (case dget_or params ''skip_reason'' PNone of PNone \<Rightarrow> None | v \<Rightarrow> Some v),
       st_success := True, st_out := 0\<rparr>)) (\<lambda>_.
     bind_step set_end (\<lambda>_.
     bind_step (update_job_in_db W jid) (\<lambda>_.
     return_step True))))"

text \<open>\<open>count_applied\<close>: the statistics of the steps; \<open>i\<close> is the step's position.\<close>

definition note_step :: "'d worker \<Rightarrow> nat \<Rightarrow> applied_step \<Rightarrow> job_stats \<Rightarrow> job_stats" where
  "note_step W i a s =
     (let s1 = s\<lparr>st_times := dset (st_times s) (ap_name a) (PFloat (py_round (wn_duration W i) 3))\<rparr>
      in if records_skipped a = 0 then s1
         else s1\<lparr>st_skipped := st_skipped s1 + records_skipped a,
                 st_skip_reasons := foldl (\<lambda>rs (r, n). count_skip_reason rs r n) (st_skip_reasons s1)
                   (case ap_skips a of None \<Rightarrow> [] | Some rs \<Rightarrow> rs)\<rparr>)"

fun count_applied :: "'d worker \<Rightarrow> string \<Rightarrow> nat \<Rightarrow> applied_step list \<Rightarrow> ('d wworld, unit) step" where
  "count_applied W pipeline_name i [] = return_step ()"
| "count_applied W pipeline_name i (a # as) =
     bind_step (stat (note_step W i a)) (\<lambda>_.
     bind_step (if records_skipped a = 0 then return_step ()
                else emit [RecordsSkipped pipeline_name (ap_name a) (records_skipped a)]) (\<lambda>_.
     count_applied W pipeline_name (Suc i) as))"

definition the_destination :: "('d wworld, 'd) step" where
  "the_destination = bind_step (read_step wk_destination) (\<lambda>d. case d of
     None \<Rightarrow> raise_step (OtherError ''AttributeError'' ''NoneType'') | Some d \<Rightarrow> return_step d)"

definition close_destination :: "'d worker \<Rightarrow> 'd \<Rightarrow> ('d wworld, unit) step" where
  "close_destination W d = (case wn_close W d of None \<Rightarrow> return_step () | Some e \<Rightarrow> raise_step e)"

text \<open>\<open>None\<close>: the job is settled as a duplicate; otherwise the records to send. When some records
  were dropped, the destination is resolved again for the ones kept.\<close>

definition settle_duplicate :: "'d worker \<Rightarrow> string \<Rightarrow> ('d wworld, pyval list option) step" where
  "settle_duplicate W jid =
     bind_step (stat (\<lambda>s. s\<lparr>st_dedup := True, st_success := True, st_out := 0\<rparr>)) (\<lambda>_.
     bind_step set_end (\<lambda>_.
     bind_step (update_job_in_db W jid) (\<lambda>_. return_step None)))"

definition resolve_again :: "'d worker \<Rightarrow> string \<Rightarrow> 'd pipeline \<Rightarrow> 'd \<Rightarrow> pyval list \<Rightarrow> ('d wworld, unit) step" where
  "resolve_again W pipeline_name p d kept =
     bind_step (close_destination W d) (\<lambda>_.
     bind_step (on_params (pipeline_step ''define_destination'' pipeline_name (pl_destination p kept))) (\<lambda>d'.
     write_step (\<lambda>w. w\<lparr>wk_destination := Some d'\<rparr>)))"

definition keep_claimed ::
  "'d worker \<Rightarrow> string \<Rightarrow> string \<Rightarrow> 'd pipeline \<Rightarrow> 'd \<Rightarrow> pyval list \<Rightarrow> pyval list \<times> string list \<Rightarrow>
     ('d wworld, pyval list option) step" where
  "keep_claimed W jid pipeline_name p d transformed won =
     (let kept = fst won; dropped = length transformed - length kept in
      bind_step (write_step (\<lambda>w. w\<lparr>wk_claimed := snd won\<rparr>)) (\<lambda>_.
      bind_step (stat (\<lambda>s. s\<lparr>st_records_dedup := dropped\<rparr>)) (\<lambda>_.
      if kept = [] then settle_duplicate W jid
      else
        bind_step (if dropped = 0 then return_step () else resolve_again W pipeline_name p d kept) (\<lambda>_.
        bind_step (stat (\<lambda>s. s\<lparr>st_out := length kept\<rparr>)) (\<lambda>_.
        return_step (Some kept))))))"

definition job_params_of :: "pydict \<Rightarrow> pydict option" where
  "job_params_of payload =
     (case dget_or payload ''job_params'' PNone of PDict d \<Rightarrow> if d = [] then None else Some d | _ \<Rightarrow> None)"

definition dedup_job ::
  "'d worker \<Rightarrow> pydict \<Rightarrow> string \<Rightarrow> string \<Rightarrow> 'd pipeline \<Rightarrow> dedup_key \<Rightarrow> 'd outcome \<Rightarrow>
     ('d wworld, pyval list option) step" where
  "dedup_job W payload jid pipeline_name p key oc =
     (let transformed = oc_transformed oc;
          names = map ap_name (filter (\<lambda>a. ap_mode a \<noteq> ''validate'') (oc_applied oc))
      in if \<not> truthy (dget_or payload ''dedup_check'' (PBool False)) \<or> transformed = [] then return_step (Some transformed)
      else bind_step the_destination (\<lambda>d.
        bind_step (claim_records W key pipeline_name jid (oc_records oc) transformed names (job_params_of payload) d)
          (keep_claimed W jid pipeline_name p d transformed)))"

definition send_records :: "'d worker \<Rightarrow> 'd \<Rightarrow> pyval list \<Rightarrow> ('d wworld, unit) step" where
  "send_records W d records w =
     (let w1 = w_elapse W w in
      case wn_send W (wk_tick w) d records of (r, written) \<Rightarrow> (r, w1\<lparr>wk_written := wk_written w1 @ written\<rparr>))"

definition send_job :: "'d worker \<Rightarrow> string \<Rightarrow> pyval list \<Rightarrow> ('d wworld, bool) step" where
  "send_job W jid records =
     bind_step the_destination (\<lambda>d.
     bind_step (elapse_step W) (\<lambda>_.
     bind_step (lift_result (wn_health W d)) (\<lambda>healthy.
     if \<not> healthy then
       bind_step (stat (\<lambda>s. s\<lparr>st_success := False, st_error := Some ''Destination health check failed''\<rparr>)) (\<lambda>_.
       bind_step set_end (\<lambda>_.
       bind_step (release_claims W jid) (\<lambda>_.
       bind_step (update_job_in_db W jid) (\<lambda>_. return_step False))))
     else
       bind_step (read_step wk_now) (\<lambda>dest_start.
       bind_step (send_records W d records) (\<lambda>_.
       bind_step (read_step wk_now) (\<lambda>dest_end.
       bind_step (stat (\<lambda>s. s\<lparr>st_write_time := dest_end - dest_start, st_success := True\<rparr>)) (\<lambda>_.
       bind_step set_end (\<lambda>_.
       bind_step (update_job_in_db W jid) (\<lambda>_. return_step True)))))))))"

definition execute_body :: "'d worker \<Rightarrow> pydict \<Rightarrow> string \<Rightarrow> string \<Rightarrow> ('d wworld, bool) step" where
  "execute_body W payload jid pipeline_name =
     bind_step (claim_job W jid) (\<lambda>blocking.
     case blocking of
       Some js \<Rightarrow>
         bind_step (stat (\<lambda>s. (if js = JCancelled then s\<lparr>st_cancelled := True\<rparr> else s\<lparr>st_redelivered := True\<rparr>)
           \<lparr>st_success := True\<rparr>)) (\<lambda>_.
         bind_step set_end (\<lambda>_. return_step True))
     | None \<Rightarrow>
         bind_step (make_records W payload pipeline_name) (\<lambda>(p, key, oc).
         bind_step (stat (\<lambda>s. s\<lparr>st_in := length (oc_records oc)\<rparr>)) (\<lambda>_.
         if oc_records oc = [] then empty_job W jid
         else
           bind_step (count_applied W pipeline_name 0 (oc_applied oc)) (\<lambda>_.
           bind_step (stat (\<lambda>s. s\<lparr>st_out := length (oc_transformed oc)\<rparr>)) (\<lambda>_.
           bind_step (dedup_job W payload jid pipeline_name p key oc) (\<lambda>to_send.
           case to_send of None \<Rightarrow> return_step True | Some records \<Rightarrow> send_job W jid records))))))"

text \<open>The handlers: \<open>except Exception\<close> records the failure, \<open>except BaseException\<close> (a shutdown)
  only releases the claims.\<close>

definition fail_job :: "'d worker \<Rightarrow> string \<Rightarrow> py_error \<Rightarrow> ('d wworld, bool) step" where
  "fail_job W jid e =
     bind_step (stat (\<lambda>s. s\<lparr>st_success := False, st_error := Some (error_text e), st_error_type := Some (error_type e),
       st_traceback := Some (wn_traceback W e)\<rparr>)) (\<lambda>_.
     bind_step set_end (\<lambda>_.
     bind_step (try_step (release_claims W jid) is_exception (\<lambda>_. return_step ())) (\<lambda>_.
     bind_step (update_job_in_db W jid) (\<lambda>_. return_step False))))"

definition interrupt_job :: "'d worker \<Rightarrow> string \<Rightarrow> py_error \<Rightarrow> ('d wworld, bool) step" where
  "interrupt_job W jid e =
     bind_step (try_step (release_claims W jid) (\<lambda>_. True) (\<lambda>_. return_step ())) (\<lambda>_. raise_step e)"

definition close_finally :: "'d worker \<Rightarrow> ('d wworld, unit) step" where
  "close_finally W = bind_step (read_step wk_destination) (\<lambda>d. case d of
     None \<Rightarrow> return_step ()
   | Some d \<Rightarrow> try_step (close_destination W d) is_exception (\<lambda>_. return_step ()))"

definition execute_job_inner :: "'d worker \<Rightarrow> pydict \<Rightarrow> string \<Rightarrow> string \<Rightarrow> ('d wworld, bool) step" where
  "execute_job_inner W payload jid pipeline_name =
     finally_step
       (try_step (execute_body W payload jid pipeline_name) (\<lambda>_. True)
         (\<lambda>e. if is_exception e then fail_job W jid e else interrupt_job W jid e))
       (close_finally W)"

text \<open>The payload's ids are strings, as the manager sends them. The lookups made for the log
  context can fail on a malformed payload.\<close>

definition payload_text :: "pydict \<Rightarrow> string \<Rightarrow> string" where
  "payload_text payload k = (case dget payload k of Some (PStr s) \<Rightarrow> s | _ \<Rightarrow> ''unknown'')"

definition log_fields :: "pydict \<Rightarrow> py_error + unit" where
  "log_fields payload =
     (let m = dget_or payload ''metadata'' PNone in
      case as_dict (if truthy m then m else PDict []) of
        Inl e \<Rightarrow> Inl e
      | Inr metadata \<Rightarrow>
          let p = dget_or metadata ''runtime_params'' PNone in
          map_sum id (\<lambda>_. ()) (as_dict (if truthy p then p else PDict [])))"

definition emit_job_metrics :: "string \<Rightarrow> ('d wworld, unit) step" where
  "emit_job_metrics pipeline_name = write_step (\<lambda>w.
     let s = wk_stats w;
         ended = (case st_end s of Some e \<Rightarrow> if e = 0 then wk_now w else e | None \<Rightarrow> wk_now w)
     in w\<lparr>wk_metrics := wk_metrics w @ record_job_metrics pipeline_name s (ended - st_start s)\<rparr>)"

definition execute_job :: "'d worker \<Rightarrow> pydict \<Rightarrow> ('d wworld, bool) step" where
  "execute_job W payload =
     (let jid = payload_text payload ''job_id''; pipeline_name = payload_text payload ''pipeline_name'' in
      bind_step (write_step (\<lambda>w. w\<lparr>wk_stats := new_stats (wk_now w), wk_params := [], wk_claimed := [],
        wk_destination := None\<rparr>)) (\<lambda>_.
      finally_step
        (bind_step (lift_result (log_fields payload)) (\<lambda>_. execute_job_inner W payload jid pipeline_name))
        (emit_job_metrics pipeline_name)))"

subsection \<open>What the stages leave alone\<close>

declare record_job_metrics_def [simp del]

lemma w_elapse_local [simp]:
  "wk_stats (w_elapse W w) = wk_stats w" "wk_params (w_elapse W w) = wk_params w"
  "wk_claimed (w_elapse W w) = wk_claimed w" "wk_destination (w_elapse W w) = wk_destination w"
  "wk_written (w_elapse W w) = wk_written w" "wk_metrics (w_elapse W w) = wk_metrics w"
  by (simp_all add: w_elapse_def split: prod.splits)

lemma wp_w_op [wps]:
  "wp (w_op W f) Q w = (case wn_fails W (wk_tick w) of Some e \<Rightarrow> Q (Inl e) (w_elapse W w)
     | None \<Rightarrow> (case f (wk_now (w_elapse W w)) (wk_db (w_elapse W w)) of (a, db) \<Rightarrow>
         Q (Inr a) ((w_elapse W w)\<lparr>wk_db := db\<rparr>)))"
  by (simp add: wp_def w_op_def Let_def split: option.splits prod.splits)

lemma wp_stat [wps]: "wp (stat f) Q w = Q (Inr ()) (w\<lparr>wk_stats := f (wk_stats w)\<rparr>)"
  by (simp add: stat_def wps)

lemma wp_set_end [wps]: "wp set_end Q w = Q (Inr ()) (w\<lparr>wk_stats := (wk_stats w)\<lparr>st_end := Some (wk_now w)\<rparr>\<rparr>)"
  by (simp add: set_end_def wps)

lemma wp_emit [wps]: "wp (emit ms) Q w = Q (Inr ()) (w\<lparr>wk_metrics := wk_metrics w @ ms\<rparr>)"
  by (simp add: emit_def wps)

lemma wp_lift_result [wps]: "wp (lift_result r) Q w = (case r of Inl e \<Rightarrow> Q (Inl e) w | Inr v \<Rightarrow> Q (Inr v) w)"
  by (simp add: lift_result_def wps split: sum.splits)

lemma wp_elapse_step [wps]: "wp (elapse_step W) Q w = Q (Inr ()) (w_elapse W w)"
  by (simp add: elapse_step_def wps)

lemma wp_on_params [wps]: "wp (on_params m) Q w = (case m (wk_params w) of (r, p) \<Rightarrow> Q r (w\<lparr>wk_params := p\<rparr>))"
  by (simp add: wp_def on_params_def split: prod.splits)

lemma wp_if [wps]: "wp (if b then m else n) Q s = (if b then wp m Q s else wp n Q s)"
  by simp

text \<open>A relation between worlds that concerns the metrics, the records written and the hashes
  claimed only: nothing but emitting, sending and claiming bears on it, whatever the database,
  the clock and user code do.\<close>

locale bookkeeping =
  fixes R :: "'d wworld \<Rightarrow> 'd wworld \<Rightarrow> bool"
  assumes refl: "R w w"
    and trans: "R w1 w2 \<Longrightarrow> R w2 w3 \<Longrightarrow> R w1 w3"
    and other: "wk_metrics w' = wk_metrics w \<Longrightarrow> wk_written w' = wk_written w \<Longrightarrow> wk_claimed w' = wk_claimed w \<Longrightarrow> R w w'"
begin

lemma transp_R: "transp R"
  by (auto simp: transp_def intro: trans)

lemma local: "(\<And>w r w'. m w = (r, w') \<Longrightarrow> wk_metrics w' = wk_metrics w \<and> wk_written w' = wk_written w \<and>
    wk_claimed w' = wk_claimed w) \<Longrightarrow> moves R m"
  by (rule movesI) (blast intro: other)

lemmas compose = moves_bind [OF transp_R] moves_try [OF transp_R] moves_finally [OF transp_R] moves_if moves_option

lemma basic:
  "moves R (return_step x)" "moves R (raise_step e)" "moves R (read_step f)" "moves R (stat g)" "moves R set_end"
  "moves R (lift_result r)" "moves R (elapse_step W)" "moves R (on_params m)" "moves R (w_op W h)"
  by (rule local, auto simp: stat_def set_end_def lift_result_def elapse_step_def on_params_def w_op_def Let_def
      split: sum.splits prod.splits option.splits)+

lemma claims: "moves R (claim_job W jid)" "moves R (update_job_in_db W jid)" "moves R (release_claims W jid)"
  unfolding claim_job_def update_job_in_db_def release_claims_def by (intro compose basic)+

lemma destinations: "moves R the_destination" "moves R (close_destination W d)" "moves R (close_finally W)"
  unfolding the_destination_def close_finally_def close_destination_def by (intro compose basic)+

lemma claim_records: "moves R (claim_records W key name jid rs ts names ps d)"
  unfolding claim_records_def Let_def by (intro compose basic)

lemma fetch: "moves R (fetch_slice W payload)"
  unfolding fetch_slice_def Let_def by (intro compose basic)

lemma records: "moves R (make_records W payload name)"
proof -
  have "moves R (write_step (\<lambda>w. w\<lparr>wk_params := x\<rparr>))" "moves R (write_step (\<lambda>w. w\<lparr>wk_destination := y\<rparr>))" for x y
    by (rule local, auto)+
  then show ?thesis unfolding make_records_def
    by (intro compose basic fetch) (auto simp: split_paired_all intro!: compose basic split: prod.splits)
qed

lemma empty: "moves R (empty_job W jid)"
  unfolding empty_job_def by (intro compose basic claims)

lemma dedup:
  assumes "\<And>hs. moves R (write_step (\<lambda>w. w\<lparr>wk_claimed := hs\<rparr>))"
  shows "moves R (dedup_job W payload jid name p key oc)"
proof -
  have "moves R (write_step (\<lambda>w. w\<lparr>wk_destination := y\<rparr>))" for y
    by (rule local, auto)
  then show ?thesis unfolding dedup_job_def keep_claimed_def settle_duplicate_def resolve_again_def Let_def
    by (intro compose basic claims destinations claim_records assms)
qed

lemma send:
  assumes "\<And>d. moves R (send_records W d rs)"
  shows "moves R (send_job W jid rs)"
  unfolding send_job_def by (intro compose basic claims destinations assms)

lemma counted:
  assumes "\<And>s n. moves R (emit [RecordsSkipped name s n])"
  shows "moves R (count_applied W name i as)"
  by (induction as arbitrary: i) (auto intro!: compose basic assms)

lemma failures: "moves R (fail_job W jid e)" "moves R (interrupt_job W jid e)"
  unfolding fail_job_def interrupt_job_def by (intro compose basic claims)+

text \<open>What is left to show of a relation: the sending, the claiming, what skipped records emit.\<close>

lemma inner:
  assumes "\<And>s n. moves R (emit [RecordsSkipped name s n])" and "\<And>d rs. moves R (send_records W d rs)"
    and "\<And>hs. moves R (write_step (\<lambda>w. w\<lparr>wk_claimed := hs\<rparr>))"
  shows "moves R (execute_job_inner W payload jid name)"
  unfolding execute_job_inner_def execute_body_def prod.case_eq_if
  by (intro compose basic claims destinations records empty dedup failures send counted assms)

end

definition is_processed :: "metric \<Rightarrow> bool" where
  "is_processed m = (case m of JobsProcessed p s \<Rightarrow> True | _ \<Rightarrow> False)"

definition only_step_metrics :: "'d wworld \<Rightarrow> 'd wworld \<Rightarrow> bool" where
  "only_step_metrics w w' \<longleftrightarrow> (\<exists>ms. wk_metrics w' = wk_metrics w @ ms \<and> filter is_processed ms = [])"

interpretation metering: bookkeeping only_step_metrics
proof unfold_locales
  fix w1 w2 w3 :: "'d wworld"
  assume "only_step_metrics w1 w2" and "only_step_metrics w2 w3"
  then obtain ms ns where "wk_metrics w3 = wk_metrics w1 @ ms @ ns" "filter is_processed (ms @ ns) = []"
    by (auto simp: only_step_metrics_def)
  then show "only_step_metrics w1 w3" by (auto simp: only_step_metrics_def)
qed (auto simp: only_step_metrics_def)


lemma inner_metrics: "moves only_step_metrics (execute_job_inner W payload jid name)"
proof (rule metering.inner)
  show "moves only_step_metrics (emit [RecordsSkipped name s n])" for s n
    by (rule movesI) (auto simp: emit_def only_step_metrics_def is_processed_def)
  show "moves only_step_metrics (send_records W d rs)" for d rs
    by (rule movesI) (auto simp: send_records_def only_step_metrics_def Let_def split: prod.splits)
  show "moves only_step_metrics (write_step (\<lambda>w. w\<lparr>wk_claimed := hs\<rparr>))" for hs
    by (rule movesI) (auto simp: only_step_metrics_def)
qed


subsection \<open>How a job ends\<close>

definition unfailing :: "'d worker \<Rightarrow> bool" where
  "unfailing W \<longleftrightarrow> (\<forall>n. wn_fails W n = None)"

text \<open>Nobody claims records in this job's name but the job.\<close>

definition claims_untouched :: "'d worker \<Rightarrow> string \<Rightarrow> bool" where
  "claims_untouched W jid \<longleftrightarrow> (\<forall>n now db. \<forall>c \<in> set (sh_claims (snd (wn_others W n (now, db)))).
     cl_job c = jid \<longrightarrow> c \<in> set (sh_claims db))"

definition settled :: "string \<Rightarrow> 'd wworld \<Rightarrow> bool" where
  "settled jid w \<longleftrightarrow> (\<forall>j \<in> set (sh_jobs (wk_db w)). j_id j = jid \<longrightarrow>
     j_state j = result_state (wk_stats w) \<and> j_completed_at j = Some (wk_now w) \<and>
     j_stats j = Some (stats_to_dict (wk_stats w)))"

definition released :: "string \<Rightarrow> 'd wworld \<Rightarrow> bool" where
  "released jid w \<longleftrightarrow> (\<forall>c \<in> set (sh_claims (wk_db w)). cl_job c = jid \<longrightarrow> cl_hash c \<notin> set (wk_claimed w))"

lemma released_elapse: "claims_untouched W jid \<Longrightarrow> released jid w \<Longrightarrow> released jid (w_elapse W w)"
proof -
  assume quiet: "claims_untouched W jid" and "released jid w"
  have "wk_db (w_elapse W w) = snd (wn_others W (wk_tick w) (wk_now w, wk_db w))"
    by (simp add: w_elapse_def split: prod.splits)
  with quiet have "\<forall>c \<in> set (sh_claims (wk_db (w_elapse W w))). cl_job c = jid \<longrightarrow> c \<in> set (sh_claims (wk_db w))"
    unfolding claims_untouched_def by metis
  with \<open>released jid w\<close> show "released jid (w_elapse W w)" by (simp add: released_def)
qed

lemma result_row_settled:
  assumes "j \<in> set (result_row now jid s tbl)" and "j_id j = jid"
  shows "j_state j = result_state s" and "j_completed_at j = Some now" and "j_stats j = Some (stats_to_dict s)"
proof -
  obtain q where q: "j = (if j_id q = jid
      then q\<lparr>j_state := result_state s, j_updated := now, j_completed_at := Some now,
              j_processed := int (st_out s), j_stats := Some (stats_to_dict s),
              j_error := (if nonempty (st_error s) then st_error s else j_error q),
              j_traceback := (if nonempty (st_traceback s) then st_traceback s else j_traceback q)\<rparr> else q)"
    using assms(1) unfolding result_row_def set_update_where by blast
  have "j_id q = jid" using q assms(2) by (cases "j_id q = jid") simp_all
  with q show "j_state j = result_state s" "j_completed_at j = Some now" "j_stats j = Some (stats_to_dict s)"
    by simp_all
qed

lemma wp_update_job:
  assumes "unfailing W"
    and "\<And>w'. wk_stats w' = wk_stats w \<Longrightarrow> wk_claimed w' = wk_claimed w \<Longrightarrow> settled jid w' \<Longrightarrow>
      (claims_untouched W jid \<Longrightarrow> released jid w \<Longrightarrow> released jid w') \<Longrightarrow> Q (Inr ()) w'"
  shows "wp (update_job_in_db W jid) Q w"
proof -
  let ?w = "w_elapse W w"
  let ?w' = "?w\<lparr>wk_db := (wk_db ?w)\<lparr>sh_jobs := result_row (wk_now ?w) jid (wk_stats w) (sh_jobs (wk_db ?w))\<rparr>\<rparr>"
  have "Q (Inr ()) ?w'"
  proof (rule assms(2))
    show "settled jid ?w'"
      by (simp add: settled_def result_row_settled)
    show "released jid ?w'" if "claims_untouched W jid" "released jid w"
      using released_elapse [OF that] by (simp add: released_def)
  qed simp_all
  then show ?thesis using assms(1) by (simp add: update_job_in_db_def wps unfailing_def)
qed

lemma wp_release_claims:
  assumes "unfailing W"
    and "\<And>w'. wk_stats w' = wk_stats w \<Longrightarrow> wk_claimed w' = wk_claimed w \<Longrightarrow>
      (claims_untouched W jid \<Longrightarrow> released jid w') \<Longrightarrow> Q (Inr ()) w'"
  shows "wp (release_claims W jid) Q w"
proof (cases "wk_claimed w = []")
  case True
  then have "Q (Inr ()) w" by (intro assms(2)) (simp_all add: released_def)
  with True show ?thesis by (simp add: release_claims_def wps)
next
  case False
  let ?w = "w_elapse W w"
  have "Q (Inr ()) (?w\<lparr>wk_db := (wk_db ?w)\<lparr>sh_claims := release_record_hashes (wk_claimed w) jid (sh_claims (wk_db ?w))\<rparr>\<rparr>)"
    by (intro assms(2)) (auto simp: released_def release_record_hashes_eq delete_where_def)
  with False assms(1) show ?thesis by (simp add: release_claims_def wps unfailing_def)
qed

definition blocked :: "'d wworld \<Rightarrow> bool" where
  "blocked w \<longleftrightarrow> st_redelivered (wk_stats w) \<or> st_cancelled (wk_stats w)"

text \<open>What a job that returned \<open>b\<close> leaves: its row says so, and a failed one holds no claim.\<close>

definition ended :: "'d worker \<Rightarrow> string \<Rightarrow> bool \<Rightarrow> 'd wworld \<Rightarrow> bool" where
  "ended W jid b w \<longleftrightarrow> st_success (wk_stats w) = b \<and>
     (blocked w \<and> b \<or> settled jid w \<and> (claims_untouched W jid \<and> \<not> b \<longrightarrow> released jid w))"

lemma wp_fail_job:
  assumes "unfailing W"
  shows "wp (fail_job W jid e) (\<lambda>r w'. r = Inr False \<and> ended W jid False w') w"
  unfolding fail_job_def
  by (simp only: wps sum.case, rule wp_release_claims [OF assms], simp only: wps sum.case,
      rule wp_update_job [OF assms]) (simp add: wps ended_def)

lemma wp_interrupt_job:
  assumes "unfailing W"
  shows "wp (interrupt_job W jid e) (\<lambda>r w'. r = Inl e \<and> (claims_untouched W jid \<longrightarrow> released jid w')) w"
  unfolding interrupt_job_def
  by (simp only: wps sum.case, rule wp_release_claims [OF assms]) (simp add: wps)

definition returns_ended :: "'d worker \<Rightarrow> string \<Rightarrow> py_error + bool \<Rightarrow> 'd wworld \<Rightarrow> bool" where
  "returns_ended W jid r w = (case r of Inl e \<Rightarrow> True | Inr b \<Rightarrow> ended W jid b w)"

lemma wp_send_job:
  assumes W: "unfailing W"
  shows "wp (send_job W jid rs) (returns_ended W jid) w"
proof -
  have ok: "wp (bind_step (stat (\<lambda>s. s\<lparr>st_write_time := t, st_success := True\<rparr>)) (\<lambda>_.
       bind_step set_end (\<lambda>_. bind_step (update_job_in_db W jid) (\<lambda>_. return_step True)))) (returns_ended W jid) w" for t w
    by (simp only: wps sum.case, rule wp_update_job [OF W]) (simp add: wps ended_def returns_ended_def)
  have unhealthy: "wp (bind_step (stat (\<lambda>s. s\<lparr>st_success := False, st_error := e\<rparr>)) (\<lambda>_.
       bind_step set_end (\<lambda>_. bind_step (release_claims W jid) (\<lambda>_.
       bind_step (update_job_in_db W jid) (\<lambda>_. return_step False))))) (returns_ended W jid) w" for e w
    by (simp only: wps sum.case, rule wp_release_claims [OF W], simp only: wps sum.case,
        rule wp_update_job [OF W]) (simp add: wps ended_def returns_ended_def)
  have raised: "returns_ended W jid (Inl e) w" for e w by (simp add: returns_ended_def)
  show ?thesis unfolding send_job_def
    by (intro wp_bind_any raised wp_split_if ok unhealthy)
qed

lemma wp_empty_job:
  assumes W: "unfailing W"
  shows "wp (empty_job W jid) (returns_ended W jid) w"
  unfolding empty_job_def
  by (simp only: wps sum.case, rule wp_update_job [OF W]) (simp add: wps ended_def returns_ended_def)

lemma wp_dedup_job:
  assumes W: "unfailing W"
  shows "wp (dedup_job W payload jid name p key oc) (\<lambda>r w'. r = Inr None \<longrightarrow> ended W jid True w') w"
proof -
  let ?Q = "\<lambda>r w'. r = Inr None \<longrightarrow> ended W jid True w'"
  have dup: "wp (settle_duplicate W jid) ?Q w" for w
    unfolding settle_duplicate_def
    by (simp only: wps sum.case, rule wp_update_job [OF W]) (simp add: wps ended_def)
  have some: "wp (return_step (Some rs)) ?Q w" for rs w by (simp add: wps)
  have raised: "?Q (Inl e) w" for e w by simp
  show ?thesis
    unfolding dedup_job_def keep_claimed_def Let_def
    by (intro wp_split_if some wp_bind_any [where Q = ?Q] raised dup)
qed

lemma wp_execute_body:
  assumes W: "unfailing W"
  shows "wp (execute_body W payload jid name) (returns_ended W jid) w"
proof -
  let ?Q = "returns_ended W jid"
  have raised: "?Q (Inl e) w" for e w by (simp add: returns_ended_def)
  have redelivered: "wp (bind_step (stat (\<lambda>s. (if js = JCancelled then s\<lparr>st_cancelled := True\<rparr>
        else s\<lparr>st_redelivered := True\<rparr>)\<lparr>st_success := True\<rparr>)) (\<lambda>_. bind_step set_end (\<lambda>_. return_step True))) ?Q w"
    for js w
    by (simp add: wps returns_ended_def ended_def blocked_def)
  have rest: "wp (bind_step (dedup_job W payload jid name p key oc)
      (\<lambda>to_send. case to_send of None \<Rightarrow> return_step True | Some records \<Rightarrow> send_job W jid records)) ?Q w" for p key oc w
    unfolding wp_bind
    by (rule wp_use [OF wp_dedup_job [OF W]])
      (auto simp: raised wps wp_send_job [OF W] returns_ended_def [of W jid "Inr True"] split: sum.splits option.splits)
  have run: "wp (case x of (p, key, oc) \<Rightarrow>
         bind_step (stat (\<lambda>s. s\<lparr>st_in := length (oc_records oc)\<rparr>)) (\<lambda>_.
         if oc_records oc = [] then empty_job W jid
         else
           bind_step (count_applied W name 0 (oc_applied oc)) (\<lambda>_.
           bind_step (stat (\<lambda>s. s\<lparr>st_out := length (oc_transformed oc)\<rparr>)) (\<lambda>_.
           bind_step (dedup_job W payload jid name p key oc) (\<lambda>to_send.
           case to_send of None \<Rightarrow> return_step True | Some records \<Rightarrow> send_job W jid records))))) ?Q w" for x w
    unfolding prod.case_eq_if
    by (rule wp_bind_any [where Q = ?Q], rule raised, rule wp_split_if, rule wp_empty_job [OF W],
        rule wp_bind_any [where Q = ?Q], rule raised, rule wp_bind_any [where Q = ?Q], rule raised, rule rest)
  have fresh: "wp (bind_step (make_records W payload name) f) ?Q w" if "\<And>x w. wp (f x) ?Q w" for f w
    by (rule wp_bind_any [where Q = ?Q], rule raised, rule that)
  show ?thesis
    unfolding execute_body_def
    by (rule wp_bind_any [where Q = ?Q], rule raised, split option.split)
      (blast intro: fresh run redelivered)
qed

text \<open>Closing the destination touches neither statistics nor database.\<close>

lemma wp_close_finally: "(\<And>r. Q r w) \<Longrightarrow> wp (close_finally W) Q w"
  by (auto simp: close_finally_def close_destination_def wps split: option.splits)

definition inner_ended :: "'d worker \<Rightarrow> string \<Rightarrow> py_error + bool \<Rightarrow> 'd wworld \<Rightarrow> bool" where
  "inner_ended W jid r w \<longleftrightarrow> (\<forall>b. r = Inr b \<longrightarrow> ended W jid b w) \<and>
     (\<not> st_success (wk_stats w) \<and> claims_untouched W jid \<longrightarrow> released jid w)"

lemma wp_inner:
  assumes W: "unfailing W"
  shows "wp (execute_job_inner W payload jid name) (inner_ended W jid) w"
proof -
  have raised: "inner_ended W jid (Inl e) w" if "inner_ended W jid r w" for e r w
    using that by (simp add: inner_ended_def)
  have body: "inner_ended W jid (Inr b) w" if "returns_ended W jid (Inr b) w" for b w
    using that by (auto simp: inner_ended_def returns_ended_def ended_def)
  have failed: "wp (fail_job W jid e) (inner_ended W jid) w" for e w
    by (rule wp_use [OF wp_fail_job [OF W]]) (auto simp: inner_ended_def ended_def blocked_def)
  have interrupted: "wp (interrupt_job W jid e) (inner_ended W jid) w" for e w
    by (rule wp_use [OF wp_interrupt_job [OF W]]) (auto simp: inner_ended_def)
  have "wp (try_step (execute_body W payload jid name) (\<lambda>_. True)
      (\<lambda>e. if is_exception e then fail_job W jid e else interrupt_job W jid e)) (inner_ended W jid) w"
    unfolding wp_try
    by (rule wp_use [OF wp_execute_body [OF W]]) (auto simp: failed interrupted intro: body split: sum.splits)
  then show ?thesis
    unfolding execute_job_inner_def wp_finally
    by (rule wp_use) (auto intro!: wp_close_finally intro: raised split: sum.splits)
qed

lemma execute_job_run:
  assumes "log_fields payload = Inr ()"
    and "wp (execute_job_inner W payload (payload_text payload ''job_id'') (payload_text payload ''pipeline_name'')) Q
      (w\<lparr>wk_stats := new_stats (wk_now w), wk_params := [], wk_claimed := [], wk_destination := None\<rparr>)"
    and "\<And>r w' ms. Q r w' \<Longrightarrow> Q r (w'\<lparr>wk_metrics := ms\<rparr>)"
  shows "wp (execute_job W payload) Q w"
  unfolding execute_job_def Let_def
  by (simp only: wps sum.case assms(1), rule wp_use [OF assms(2)])
    (simp add: emit_job_metrics_def wps assms(3) Let_def)

subsection \<open>What a job writes\<close>

text \<open>The records a destination reports written are among those it was given.\<close>

definition writes_given :: "'d worker \<Rightarrow> bool" where
  "writes_given W \<longleftrightarrow> (\<forall>n d rs. set (snd (wn_send W n d rs)) \<subseteq> set rs)"

definition wrote_among :: "pyval set \<Rightarrow> 'd wworld \<Rightarrow> 'd wworld \<Rightarrow> bool" where
  "wrote_among S w w' \<longleftrightarrow> wk_claimed w' = wk_claimed w \<and> (\<exists>rs. wk_written w' = wk_written w @ rs \<and> set rs \<subseteq> S)"

definition wrote_nothing :: "'d wworld \<Rightarrow> 'd wworld \<Rightarrow> bool" where
  "wrote_nothing w w' \<longleftrightarrow> wk_written w' = wk_written w"

interpretation nothing: bookkeeping wrote_nothing
  by unfold_locales (simp_all add: wrote_nothing_def)

interpretation among: bookkeeping "wrote_among S" for S
proof unfold_locales
  fix w1 w2 w3 :: "'d wworld"
  assume "wrote_among S w1 w2" and "wrote_among S w2 w3"
  then obtain rs ss where "wk_written w3 = wk_written w1 @ rs @ ss" "set (rs @ ss) \<subseteq> S" "wk_claimed w3 = wk_claimed w1"
    by (auto simp: wrote_among_def)
  then show "wrote_among S w1 w3" unfolding wrote_among_def by blast
qed (auto simp: wrote_among_def)

lemma send_job_writes:
  assumes "writes_given W"
  shows "moves (wrote_among (set rs)) (send_job W jid rs)"
proof (rule among.send, rule movesI)
  fix d w r w' assume run: "send_records W d rs w = (r, w')"
  obtain q out where send: "wn_send W (wk_tick w) d rs = (q, out)" by fastforce
  then have "set out \<subseteq> set rs" using assms unfolding writes_given_def by (metis snd_conv)
  with run send show "wrote_among (set rs) w w'"
    by (auto simp: send_records_def wrote_among_def Let_def)
qed

definition has_claim :: "'d worker \<Rightarrow> dedup_key \<Rightarrow> string \<Rightarrow> pydict option \<Rightarrow> string list \<Rightarrow> pyval \<Rightarrow> bool" where
  "has_claim W key name job_params hs r \<longleftrightarrow> (\<exists>params i d. record_identity r key params = Inr i \<and>
     compute_record_hash (wn_hashing W) name i (Some (destination_identity (wn_identity W d))) job_params \<in> set hs)"

lemma keep_won_sound: "r \<in> set (keep_won won seen rhs) \<Longrightarrow> \<exists>h. (r, h) \<in> set rhs \<and> h \<in> set won"
  by (induction won seen rhs rule: keep_won.induct) (auto split: if_splits)

lemma sequence_zip: "sequence (map f xs) = Inr ys \<Longrightarrow> (x, y) \<in> set (zip xs ys) \<Longrightarrow> f x = Inr y"
  by (induction xs arbitrary: ys) (auto split: sum.splits)

lemma wp_claim_records:
  "wp (claim_records W key name jid rs ts names ps d)
     (\<lambda>r w'. \<forall>kept claimed. r = Inr (kept, claimed) \<longrightarrow> (\<forall>x \<in> set kept. has_claim W key name ps claimed x)) w"
proof -
  let ?f = "\<lambda>params r. map_sum id (\<lambda>i. compute_record_hash (wn_hashing W) name i
    (Some (destination_identity (wn_identity W d))) ps) (record_identity r key params)"
  have claim: "has_claim W key name ps won x"
    if s: "sequence (map (?f params) ts) = Inr hashes" and k: "x \<in> set (keep_won won [] (zip ts hashes))" for params hashes won x
  proof -
    obtain h where "(x, h) \<in> set (zip ts hashes)" and h: "h \<in> set won" using keep_won_sound [OF k] by blast
    then have "?f params x = Inr h" using sequence_zip [OF s] by blast
    then show ?thesis using h by (cases "record_identity x key params") (auto simp: has_claim_def)
  qed
  show ?thesis unfolding claim_records_def Let_def
    by (auto simp: wps claim split: option.splits prod.splits sum.splits)
qed

lemma wp_keep_claimed:
  fixes W :: "'d worker"
  assumes "\<forall>x \<in> set (fst won). C (snd won) x"
  shows "wp (keep_claimed W jid name p d ts won)
     (\<lambda>r w'. \<forall>kept. r = Inr (Some kept) \<longrightarrow> (\<forall>x \<in> set kept. C (wk_claimed w') x)) w"
proof -
  let ?Q = "\<lambda>r w'. \<forall>kept. r = Inr (Some kept) \<longrightarrow> (\<forall>x \<in> set kept. C (wk_claimed w') x)"
  have raised: "?Q (Inl e) w" for e and w :: "'d wworld" by simp
  have dup: "wp (settle_duplicate W jid) ?Q w" for w
    unfolding settle_duplicate_def by (intro wp_bind_any [where Q = ?Q] raised) (simp add: wps)
  have "moves (wrote_among {}) (write_step (\<lambda>w. w\<lparr>wk_destination := y\<rparr>))" for y :: "'d option"
    by (rule movesI) (auto simp: wrote_among_def)
  then have "moves (wrote_among {}) (if b then return_step () else resolve_again W name p d kept)" for b kept
    unfolding resolve_again_def by (intro among.compose among.basic among.destinations)
  note again = wp_use [OF wp_moves [OF this]]
  have keep: "wp (if fst won = [] then settle_duplicate W jid
      else bind_step (if dropped = 0 then return_step () else resolve_again W name p d (fst won)) (\<lambda>_.
        bind_step (stat (\<lambda>s. s\<lparr>st_out := length (fst won)\<rparr>)) (\<lambda>_. return_step (Some (fst won))))) ?Q w'"
    if "wk_claimed w' = snd won" for dropped :: nat and w'
    by (intro wp_split_if dup, subst wp_bind, rule again)
      (use assms that in \<open>auto simp: wps wrote_among_def split: sum.splits\<close>)
  show ?thesis
    unfolding keep_claimed_def Let_def
    by (subst wp_bind, subst wp_write, subst sum.case, subst wp_bind, subst wp_stat, subst sum.case, rule keep) simp
qed

lemma wp_dedup_claims:
  assumes "truthy (dget_or payload ''dedup_check'' (PBool False))"
  shows "wp (dedup_job W payload jid name p key oc) (\<lambda>r w'. \<forall>kept. r = Inr (Some kept) \<longrightarrow>
     (\<forall>x \<in> set kept. has_claim W key name (job_params_of payload) (wk_claimed w') x)) w"
  (is "wp _ ?Q w")
proof (cases "oc_transformed oc = []")
  case True
  then show ?thesis by (simp add: dedup_job_def wps)
next
  case False
  have raised: "?Q (Inl e) w" for e w by simp
  have claim: "wp (bind_step (claim_records W key name jid rs ts names (job_params_of payload) d)
      (keep_claimed W jid name p d ts)) ?Q w" for rs ts names d w
    unfolding wp_bind [of "claim_records W key name jid rs ts names (job_params_of payload) d"]
    by (rule wp_use [OF wp_claim_records])
      (auto intro!: wp_keep_claimed [where C = "has_claim W key name (job_params_of payload)"] split: sum.splits)
  show ?thesis
    using assms False unfolding dedup_job_def Let_def
    by (simp only: simp_thms if_False, intro wp_bind_any [where Q = ?Q] raised claim)
qed

lemma wp_make_records:
  "wp (make_records W payload name)
     (\<lambda>r w'. wrote_nothing w w' \<and> (\<forall>p key oc. r = Inr (p, key, oc) \<longrightarrow> wn_pipeline W name = Some (p, key))) w"
proof (rule wp_conj [OF wp_moves [OF nothing.records]])
  show "wp (make_records W payload name) (\<lambda>r w'. \<forall>p key oc. r = Inr (p, key, oc) \<longrightarrow> wn_pipeline W name = Some (p, key)) w"
    unfolding make_records_def
    by (intro wp_bind_any) (auto simp: wps intro!: wp_any split: option.splits sum.splits prod.splits)
qed

definition wrote_claimed :: "(string list \<Rightarrow> pyval \<Rightarrow> bool) \<Rightarrow> 'd wworld \<Rightarrow> 'd wworld \<Rightarrow> bool" where
  "wrote_claimed C w w' \<longleftrightarrow> (\<exists>rs. wk_written w' = wk_written w @ rs \<and> (\<forall>r \<in> set rs. C (wk_claimed w') r))"

lemma wrote_claimed_simps [simp]:
  "wrote_claimed C w w" "wrote_nothing w w' \<Longrightarrow> wrote_claimed C w w'"
  by (auto simp: wrote_claimed_def wrote_nothing_def)

lemma wrote_claimed_after:
  "wrote_claimed C w1 w2 \<Longrightarrow> wrote_among {} w2 w3 \<Longrightarrow> wrote_claimed C w1 w3"
  "wrote_nothing w1 w2 \<Longrightarrow> wrote_claimed C w2 w3 \<Longrightarrow> wrote_claimed C w1 w3"
  "wrote_nothing w1 w2 \<Longrightarrow> \<forall>x \<in> S. C (wk_claimed w2) x \<Longrightarrow> wrote_among S w2 w3 \<Longrightarrow> wrote_claimed C w1 w3"
  by (auto simp: wrote_claimed_def wrote_nothing_def wrote_among_def)

lemma wp_body_writes:
  assumes check: "truthy (dget_or payload ''dedup_check'' (PBool False))" and given: "writes_given W"
    and pipeline: "wn_pipeline W name = Some (p0, key)"
  shows "wp (execute_body W payload jid name)
     (\<lambda>_. wrote_claimed (has_claim W key name (job_params_of payload)) w) w"
proof -
  let ?C = "has_claim W key name (job_params_of payload)"
  have first: "wp (bind_step m f) (\<lambda>_. wrote_claimed ?C w1) w1"
    if "moves wrote_nothing m" and "\<And>x w2. wp (f x) (\<lambda>_. wrote_claimed ?C w2) w2"
    for m :: "('a wworld, 'b) step" and f w1
    unfolding wp_bind
    by (rule wp_use [OF wp_moves [OF that(1)]])
      (auto split: sum.splits intro: wp_use [OF that(2)] wrote_claimed_after(2))
  have quiet: "wp m (\<lambda>_. wrote_claimed ?C w1) w1" if "moves wrote_nothing m" for m :: "('a wworld, 'b) step" and w1
    by (rule wp_use [OF wp_moves [OF that]]) simp
  have blind: "moves wrote_nothing (write_step (\<lambda>w. w\<lparr>wk_claimed := hs\<rparr>))" "moves wrote_nothing (emit ms)"
    for hs ms
    by (rule movesI, simp add: wrote_nothing_def emit_def)+
  have dedup: "wp (bind_step (dedup_job W payload jid name p key oc) (\<lambda>to_send. case to_send of
      None \<Rightarrow> return_step True | Some records \<Rightarrow> send_job W jid records)) (\<lambda>_. wrote_claimed ?C w1) w1" for p oc w1
    unfolding wp_bind
  proof (rule wp_use [OF wp_conj [OF wp_dedup_claims [OF check] wp_moves [OF nothing.dedup [OF blind(1)]]]], elim conjE,
      split sum.split, intro conjI allI impI)
    fix r w2 to_send
    assume r: "r = Inr to_send" and moved: "wrote_nothing w1 w2"
      and claims: "\<forall>kept. r = Inr (Some kept) \<longrightarrow> (\<forall>x \<in> set kept. ?C (wk_claimed w2) x)"
    show "wp (case to_send of None \<Rightarrow> return_step True | Some records \<Rightarrow> send_job W jid records) (\<lambda>_. wrote_claimed ?C w1) w2"
    proof (cases to_send)
      case (Some kept)
      with r claims have "\<forall>x \<in> set kept. ?C (wk_claimed w2) x" by simp
      then have "wrote_among (set kept) w2 w3 \<Longrightarrow> wrote_claimed ?C w1 w3" for w3
        using moved by (rule_tac wrote_claimed_after(3))
      then show ?thesis
        unfolding Some option.case by (rule wp_use [OF wp_moves [OF send_job_writes [OF given]]])
    qed (simp add: wps moved)
  qed simp
  have run: "wp (bind_step (make_records W payload name) (\<lambda>(p, key', oc). f p key' oc)) (\<lambda>_. wrote_claimed ?C w1) w1"
    if f: "\<And>p oc w2. wp (f p key oc) (\<lambda>_. wrote_claimed ?C w2) w2" for f w1
  proof -
    have "wp (f p key oc) (\<lambda>_. wrote_claimed ?C w1) w2" if "wrote_nothing w1 w2" for p oc w2
      by (rule wp_use [OF f]) (rule wrote_claimed_after(2) [OF that])
    then show ?thesis unfolding wp_bind
      by (rule_tac wp_use [OF wp_make_records]) (auto simp: pipeline split: sum.splits)
  qed
  show ?thesis
    unfolding execute_body_def
    by (rule first [OF nothing.claims(1)], split option.split, intro conjI impI allI run first nothing.basic
        nothing.counted blind wp_split_if quiet nothing.empty dedup nothing.compose)
qed

lemma wp_inner_writes:
  assumes "truthy (dget_or payload ''dedup_check'' (PBool False))" and "writes_given W"
    and "wn_pipeline W name = Some (p, key)"
  shows "wp (execute_job_inner W payload jid name)
     (\<lambda>_. wrote_claimed (has_claim W key name (job_params_of payload)) w) w"
proof -
  let ?P = "wrote_claimed (has_claim W key name (job_params_of payload)) w"
  have after: "wp m (\<lambda>r. ?P) w'" if "moves (wrote_among {}) m" and "?P w'" for m :: "('a wworld, 'b) step" and w'
    by (rule wp_use [OF wp_moves [OF that(1)]]) (rule wrote_claimed_after(1) [OF that(2)])
  note handled = after [OF among.failures(1)] after [OF among.failures(2)]
  have close: "wp (close_finally W) (\<lambda>r. ?P) w'" if "?P w'" for w'
    by (rule after [OF among.destinations(3) that])
  have "wp (try_step (execute_body W payload jid name) (\<lambda>_. True)
      (\<lambda>e. if is_exception e then fail_job W jid e else interrupt_job W jid e)) (\<lambda>r. ?P) w"
    unfolding wp_try
    by (rule wp_use [OF wp_body_writes [OF assms]]) (auto intro!: handled split: sum.split)
  then show ?thesis
    unfolding execute_job_inner_def wp_finally
    by (rule wp_use) (simp only: sum.case_eq_if if_cancel close)
qed

subsection \<open>Properties\<close>

text \<open>C4: with deduplication on, a job writes only records whose hash it has claimed: whatever
  other workers, the database, user code and the destination do, each record written is one
  whose record hash is among those this job won.\<close>

theorem records_written_were_claimed:
  assumes "truthy (dget_or payload ''dedup_check'' (PBool False))" and "writes_given W"
    and "wn_pipeline W (payload_text payload ''pipeline_name'') = Some (p, key)"
    and "execute_job W payload w = (r, w')"
  shows "\<exists>rs. wk_written w' = wk_written w @ rs \<and> (\<forall>x \<in> set rs.
    has_claim W key (payload_text payload ''pipeline_name'') (job_params_of payload) (wk_claimed w') x)"
proof -
  let ?C = "has_claim W key (payload_text payload ''pipeline_name'') (job_params_of payload)"
  let ?w = "w\<lparr>wk_stats := new_stats (wk_now w), wk_params := [], wk_claimed := [], wk_destination := None\<rparr>"
  have w: "wrote_claimed ?C ?w = wrote_claimed ?C w" by (auto simp: wrote_claimed_def fun_eq_iff)
  have "wp (execute_job W payload) (\<lambda>_. wrote_claimed ?C w) w"
  proof (cases "log_fields payload")
    case (Inl e)
    then show ?thesis
      by (simp add: execute_job_def wps Let_def emit_job_metrics_def wrote_claimed_def)
  next
    case (Inr u)
    then have "log_fields payload = Inr ()" by simp
    then show ?thesis
      by (rule execute_job_run [OF _ wp_inner_writes [OF assms(1-3), of _ ?w, unfolded w]])
        (auto simp: wrote_claimed_def)
  qed
  then have "wrote_claimed ?C w w'" using assms(4) by (rule wpD)
  then show ?thesis by (simp add: wrote_claimed_def)
qed

text \<open>C9: when the database answers, a job that returned has its row settled: the row's state,
  statistics and completion time are those of this run, successful exactly when it returned
  true. The one exception is a message that was not to run (redelivered or cancelled), which
  is acknowledged.\<close>

theorem job_row_tells_the_outcome:
  assumes "unfailing W" and "execute_job W payload w = (Inr b, w')"
  shows "st_success (wk_stats w') = b \<and>
    (blocked w' \<and> b \<or> settled (payload_text payload ''job_id'') w')"
proof -
  let ?Q = "\<lambda>r w'. \<forall>b. r = Inr b \<longrightarrow> ended W (payload_text payload ''job_id'') b w'"
  have "wp (execute_job W payload) ?Q w"
  proof (cases "log_fields payload")
    case (Inr u)
    then have "log_fields payload = Inr ()" by simp
    then show ?thesis
      by (rule execute_job_run [OF _ wp_use [OF wp_inner [OF assms(1)]]])
        (auto simp: inner_ended_def ended_def settled_def released_def blocked_def)
  qed (simp add: execute_job_def wps Let_def emit_job_metrics_def)
  from wpD [where Q = ?Q, OF this assms(2)] show ?thesis by (auto simp: ended_def)
qed

text \<open>A job that did not succeed -- it failed, found its destination unhealthy, or was
  interrupted by a shutdown -- ends without any of the record claims it made, so that the
  redelivered or retried job can send those records.\<close>

theorem failed_job_holds_no_claim:
  assumes "unfailing W" and "claims_untouched W (payload_text payload ''job_id'')"
    and "execute_job W payload w = (r, w')" and "\<not> st_success (wk_stats w')"
  shows "\<forall>c \<in> set (sh_claims (wk_db w')). cl_job c = payload_text payload ''job_id'' \<longrightarrow> cl_hash c \<notin> set (wk_claimed w')"
proof -
  let ?jid = "payload_text payload ''job_id''"
  let ?Q = "\<lambda>r w'. \<not> st_success (wk_stats w') \<longrightarrow> released ?jid w'"
  have "wp (execute_job W payload) ?Q w"
  proof (cases "log_fields payload")
    case (Inr u)
    then have "log_fields payload = Inr ()" by simp
    then show ?thesis
      by (rule execute_job_run [OF _ wp_use [OF wp_inner [OF assms(1)]]])
        (use assms(2) in \<open>auto simp: inner_ended_def released_def\<close>)
  qed (simp add: execute_job_def wps Let_def emit_job_metrics_def released_def)
  from wpD [OF this assms(3)] assms(4) show ?thesis by (simp add: released_def)
qed

text \<open>Whatever happens to a job, exactly one outcome is counted for it, with the status its
  statistics say.\<close>

theorem every_job_is_counted_once:
  "case execute_job W payload w of (r, w') \<Rightarrow> \<exists>ms. wk_metrics w' = wk_metrics w @ ms \<and>
     filter is_processed ms = [JobsProcessed (payload_text payload ''pipeline_name'') (job_status (wk_stats w'))]"
proof -
  let ?name = "payload_text payload ''pipeline_name''" and ?jid = "payload_text payload ''job_id''"
  let ?w = "w\<lparr>wk_stats := new_stats (wk_now w), wk_params := [], wk_claimed := [], wk_destination := None\<rparr>"
  have one: "filter is_processed (record_job_metrics name s t) = [JobsProcessed name (job_status s)]" for name s t
    by (auto simp: record_job_metrics_def is_processed_def split: option.splits)
  have inner: "wp (bind_step (lift_result (log_fields payload)) (\<lambda>_. execute_job_inner W payload ?jid ?name))
      (\<lambda>_. only_step_metrics ?w) ?w"
    by (rule wp_moves) (intro metering.compose metering.basic inner_metrics)
  have "wp (execute_job W payload) (\<lambda>r w'. \<exists>ms. wk_metrics w' = wk_metrics w @ ms \<and>
     filter is_processed ms = [JobsProcessed ?name (job_status (wk_stats w'))]) w"
    unfolding execute_job_def Let_def wp_bind [of "write_step _"] wp_write sum.case wp_finally
    by (rule wp_use [OF inner]) (auto simp: emit_job_metrics_def wps Let_def only_step_metrics_def one)
  then show ?thesis by (simp add: wp_def)
qed


subsection \<open>A job, run\<close>

definition example_pipeline :: "string pipeline" where
  "example_pipeline = \<lparr>pl_name = ''p'', pl_record_type = None, pl_skip_invalid = False, pl_validate_steps = False,
     pl_transformations = (\<lambda>_. return_step []), pl_destination = (\<lambda>_. return_step ''d'')\<rparr>"

definition example_worker :: "(nat \<Rightarrow> string \<Rightarrow> pyval list \<Rightarrow> (py_error + unit) \<times> pyval list) \<Rightarrow> string worker" where
  "example_worker send = \<lparr>wn_others = (\<lambda>n (now, db). (now + 1, db)), wn_fails = (\<lambda>_. None),
     wn_source = (\<lambda>_ _. Inr (return_step [PInt 1])),
     wn_pipeline = (\<lambda>name. if name = ''p'' then Some (example_pipeline, WholeRecord) else None), wn_missing = (\<lambda>_. []),
     wn_identity = (\<lambda>d. \<lparr>d_type = ''Console'', d_dedup_identity = None, d_identity_config = None, d_config = None\<rparr>), wn_health = (\<lambda>_. Inr True),
     wn_send = send, wn_close = (\<lambda>_. None),
     wn_hashing = \<lparr>hs_sha = filter (\<lambda>c. of_char c \<in> {48..(57::nat)}), hs_float = (\<lambda>_. ''0''), hs_str = (\<lambda>_. [])\<rparr>, wn_legacy = Some ''0'', wn_concurrency = [],
     wn_order = (\<lambda>n. [0..<n]), wn_traceback = (\<lambda>_. ''t''), wn_duration = (\<lambda>_. 0)\<rparr>"

definition example_payload :: pydict where
  "example_payload = [(''job_id'', PStr ''j''), (''pipeline_name'', PStr ''p''), (''dedup_check'', PBool True),
     (''metadata'', PDict []), (''source'', PDict [(''type'', PStr ''static''), (''config'', PDict [])])]"

definition example_row :: "job_state \<Rightarrow> job" where
  "example_row st = \<lparr>j_id = ''j'', j_exec = ''e'', j_payload = [], j_batch = Some 0, j_state = st, j_attempts = 0,
     j_processed = 0, j_error = None, j_traceback = None, j_stats = None, j_created = 0, j_updated = 0,
     j_dispatched_at = Some 1, j_completed_at = None\<rparr>"

definition example_wworld :: "job_state \<Rightarrow> string wworld" where
  "example_wworld st = \<lparr>wk_db = \<lparr>sh_jobs = [example_row st], sh_claims = [], sh_content = []\<rparr>, wk_now = 10, wk_tick = 0,
     wk_stats = new_stats 0, wk_params = [], wk_claimed = [], wk_destination = None, wk_written = [], wk_metrics = []\<rparr>"

text \<open>The destination fails after it has written the record.\<close>

definition broken_send :: "nat \<Rightarrow> string \<Rightarrow> pyval list \<Rightarrow> (py_error + unit) \<times> pyval list" where
  "broken_send n d rs = (Inl (ValueError ''down''), rs)"

lemma example_run:
  "case execute_job (example_worker broken_send) example_payload (example_wworld JDispatched) of (r, w) \<Rightarrow>
     r = Inr False \<and> \<not> st_success (wk_stats w) \<and> wk_written w = [PInt 1] \<and> wk_claimed w = [''1''] \<and>
     map j_state (sh_jobs (wk_db w)) = [JFailed]"
  by code_simp

lemma example_worker_ok:
  "unfailing (example_worker send)" "claims_untouched (example_worker send) jid" "writes_given (example_worker broken_send)"
  "wn_pipeline (example_worker send) (payload_text example_payload ''pipeline_name'') = Some (example_pipeline, WholeRecord)"
  "truthy (dget_or example_payload ''dedup_check'' (PBool False))" "log_fields example_payload = Inr ()"
  by (simp_all add: unfailing_def claims_untouched_def writes_given_def example_worker_def broken_send_def
      payload_text_def example_payload_def dget_or_def log_fields_def as_dict_def Let_def)

theorem records_written_were_claimed_witness:
  "\<exists>r w'. execute_job (example_worker broken_send) example_payload (example_wworld JDispatched) = (r, w') \<and>
     wk_written w' = [PInt 1] \<and>
     has_claim (example_worker broken_send) WholeRecord ''p'' None (wk_claimed w') (PInt 1)"
proof -
  obtain r w' where run: "execute_job (example_worker broken_send) example_payload (example_wworld JDispatched) = (r, w')"
    by fastforce
  have facts: "wk_written w' = [PInt 1]" "payload_text example_payload ''pipeline_name'' = ''p''"
      "job_params_of example_payload = None" "wk_written (example_wworld JDispatched) = []"
    using example_run unfolding run
    by (simp_all add: payload_text_def example_payload_def job_params_of_def dget_or_def example_wworld_def)
  show ?thesis
    using records_written_were_claimed [OF example_worker_ok(5,3,4) run] run facts by simp
qed

theorem job_row_tells_the_outcome_witness:
  "\<exists>w'. execute_job (example_worker broken_send) example_payload (example_wworld JDispatched) = (Inr False, w') \<and>
     settled ''j'' w' \<and> length (sh_jobs (wk_db w')) = 1"
proof -
  obtain w' where run: "execute_job (example_worker broken_send) example_payload (example_wworld JDispatched) = (Inr False, w')"
    using example_run by (auto split: prod.splits)
  have "payload_text example_payload ''job_id'' = ''j''" by (simp add: payload_text_def example_payload_def)
  moreover have "length (sh_jobs (wk_db w')) = 1" using example_run unfolding run by (auto dest: arg_cong [where f = length])
  ultimately show ?thesis using job_row_tells_the_outcome [OF example_worker_ok(1) run] run by simp
qed

theorem failed_job_holds_no_claim_witness:
  "\<exists>w'. execute_job (example_worker broken_send) example_payload (example_wworld JDispatched) = (Inr False, w') \<and>
     wk_claimed w' = [''1''] \<and> (\<forall>c \<in> set (sh_claims (wk_db w')). cl_job c = ''j'' \<longrightarrow> cl_hash c \<noteq> ''1'')"
proof -
  obtain w' where run: "execute_job (example_worker broken_send) example_payload (example_wworld JDispatched) = (Inr False, w')"
      and w': "\<not> st_success (wk_stats w')" "wk_claimed w' = [''1'']"
    using example_run by (auto split: prod.splits)
  have "payload_text example_payload ''job_id'' = ''j''" by (simp add: payload_text_def example_payload_def)
  with failed_job_holds_no_claim [OF example_worker_ok(1,2) run w'(1)] run w'(2) show ?thesis by simp
qed


end
