(* ===== verification/Consumer.thy ===== *)
theory Consumer
  imports Executor
begin

text \<open>
  \<open>worker/consumer.py\<close>: the worker's loop over the messages of the jobs topic. Of Kafka the
  model has the consumer's position in its partition, the committed offset and whether a
  commit succeeds (a parameter). A message's value is given as \<open>json.loads\<close> reads it.
\<close>

datatype msg_value = NoValue | Undecodable string | Document pyval

record 'd cworld =
  cw_worker :: "'d wworld"
  cw_position :: nat
  cw_committed :: nat
  cw_commits :: nat

definition on_worker :: "('d wworld, 'a) step \<Rightarrow> ('d cworld, 'a) step" where
  "on_worker m c = (case m (cw_worker c) of (r, w) \<Rightarrow> (r, c\<lparr>cw_worker := w\<rparr>))"

text \<open>\<open>commit()\<close> without arguments commits the position. \<open>cm n\<close>: what the \<open>n\<close>th commit raises.\<close>

definition commit :: "(nat \<Rightarrow> py_error option) \<Rightarrow> ('d cworld, unit) step" where
  "commit cm c =
     (let c1 = c\<lparr>cw_commits := Suc (cw_commits c)\<rparr> in
      case cm (cw_commits c) of Some e \<Rightarrow> (Inl e, c1) | None \<Rightarrow> (Inr (), c1\<lparr>cw_committed := cw_position c1\<rparr>))"

definition invalid_payload :: "string \<Rightarrow> py_error" where
  "invalid_payload m = OtherError ''_InvalidPayload'' m"

definition is_invalid :: "py_error \<Rightarrow> bool" where
  "is_invalid e = (case e of OtherError t m \<Rightarrow> t = ''_InvalidPayload'' | _ \<Rightarrow> False)"

definition parse_value :: "msg_value \<Rightarrow> py_error + pydict" where
  "parse_value v = (case v of
     Document (PDict d) \<Rightarrow> Inr d
   | Document _ \<Rightarrow> Inl (invalid_payload ''expected a JSON object'')
   | Undecodable m \<Rightarrow> Inl (invalid_payload m)
   | NoValue \<Rightarrow> Inl (invalid_payload ''no value''))"

definition supported_schema :: "pydict \<Rightarrow> bool" where
  "supported_schema payload = (case dget payload ''schema_version'' of
     Some (PInt i) \<Rightarrow> i = 2 | Some (PFloat x) \<Rightarrow> x = 2 | _ \<Rightarrow> False)"

text \<open>The body of the \<open>try\<close>, its handlers, the whole.\<close>

definition handle_message :: "'d worker \<Rightarrow> (nat \<Rightarrow> py_error option) \<Rightarrow> msg_value \<Rightarrow> ('d cworld, unit) step" where
  "handle_message W cm v =
     (if v = NoValue then commit cm
      else case parse_value v of
        Inl e \<Rightarrow> raise_step e
      | Inr payload \<Rightarrow>
          if \<not> supported_schema payload then commit cm
          else bind_step (on_worker (execute_job W payload)) (\<lambda>success. commit cm))"

definition message_error :: "(nat \<Rightarrow> py_error option) \<Rightarrow> py_error \<Rightarrow> ('d cworld, unit) step" where
  "message_error cm e =
     (if is_invalid e then
        bind_step (on_worker (emit [JobsProcessed ''unknown'' ''invalid''])) (\<lambda>_. commit cm)
      else return_step ())"

definition process_message :: "'d worker \<Rightarrow> (nat \<Rightarrow> py_error option) \<Rightarrow> msg_value \<Rightarrow> ('d cworld, unit) step" where
  "process_message W cm v = try_step (handle_message W cm v) is_exception (message_error cm)"

text \<open>The loop over what the polls return: one message at a time, until \<open>stop\<close> is requested,
  which is looked at between messages.\<close>

fun consume_until_stopped ::
  "'d worker \<Rightarrow> (nat \<Rightarrow> py_error option) \<Rightarrow> (nat \<Rightarrow> bool) \<Rightarrow> msg_value list \<Rightarrow> ('d cworld, unit) step" where
  "consume_until_stopped W cm stop [] = return_step ()"
| "consume_until_stopped W cm stop (v # vs) =
     bind_step (read_step cw_position) (\<lambda>pos.
     if stop pos then return_step ()
     else
       bind_step (write_step (\<lambda>c. c\<lparr>cw_position := Suc (cw_position c)\<rparr>)) (\<lambda>_.
       bind_step (process_message W cm v) (\<lambda>_.
       consume_until_stopped W cm stop vs)))"

text \<open>Connecting: up to \<open>max_retries\<close> attempts with waits of 1, 2, 4, ... seconds. The result:
  the seconds waited, and the error of the last attempt when all failed.\<close>

definition MAX_START_RETRIES :: nat where "MAX_START_RETRIES = 10"

function connect :: "(nat \<Rightarrow> py_error option) \<Rightarrow> nat \<Rightarrow> nat \<Rightarrow> nat \<times> py_error option" where
  "connect attempt_result attempt waited =
     (if MAX_START_RETRIES \<le> attempt then (waited, None)
      else case attempt_result attempt of
        None \<Rightarrow> (waited, None)
      | Some e \<Rightarrow>
          if attempt < MAX_START_RETRIES - 1 then connect attempt_result (Suc attempt) (waited + 2 ^ attempt)
          else (waited, Some e))"
  by pat_completeness auto
termination
  by (relation "measure (\<lambda>(_, attempt, _). MAX_START_RETRIES - attempt)") (auto simp: MAX_START_RETRIES_def)

declare connect.simps [simp del]

subsection \<open>Lemmas\<close>

lemma wp_commit [wps]:
  "wp (commit cm) Q c = (case cm (cw_commits c) of
      Some e \<Rightarrow> Q (Inl e) (c\<lparr>cw_commits := Suc (cw_commits c)\<rparr>)
    | None \<Rightarrow> Q (Inr ()) (c\<lparr>cw_commits := Suc (cw_commits c), cw_committed := cw_position c\<rparr>))"
  by (simp add: wp_def commit_def Let_def split: option.splits)

lemma wp_on_worker [wps]: "wp (on_worker m) Q c = wp m (\<lambda>r w. Q r (c\<lparr>cw_worker := w\<rparr>)) (cw_worker c)"
  by (simp add: wp_def on_worker_def split: prod.splits)


text \<open>The committed offset only ever becomes the position, which processing leaves.\<close>

definition commits_position :: "'d cworld \<Rightarrow> 'd cworld \<Rightarrow> bool" where
  "commits_position c c' \<longleftrightarrow> cw_position c' = cw_position c \<and> cw_committed c' \<in> {cw_committed c, cw_position c}"

lemma commits_position_laws: "reflp commits_position" "transp commits_position"
  by (auto simp: reflp_def transp_def commits_position_def)

lemma offset_steps: "moves commits_position (on_worker m)" "moves commits_position (commit cm)"
  by (rule movesI, auto simp: commits_position_def on_worker_def commit_def Let_def split: prod.splits option.splits)+

lemma process_offsets: "moves commits_position (process_message W cm v)"
  unfolding process_message_def handle_message_def message_error_def
  by (auto intro!: moves_try moves_bind moves_return moves_raise commits_position_laws offset_steps split: sum.splits)

text \<open>What leaves \<open>execute_job\<close>: every exception of a job is turned into its result.\<close>

definition only_interrupted :: "py_error + 'a \<Rightarrow> bool" where
  "only_interrupted r \<longleftrightarrow> (\<forall>e. r = Inl e \<longrightarrow> e = Interrupted)"

lemma only_interrupted_simps [simp]:
  "only_interrupted (Inr x)" "only_interrupted (Inl e) \<longleftrightarrow> e = Interrupted"
  by (auto simp: only_interrupted_def)

lemma wp_caught: "wp (try_step m is_exception (\<lambda>_. return_step x)) (\<lambda>r _. only_interrupted r) w"
  unfolding wp_try by (rule wp_any) (simp add: wps is_exception_def split: sum.splits)

lemma inner_raises: "wp (execute_job_inner W payload jid name) (\<lambda>r _. only_interrupted r) w"
proof -
  let ?Q = "\<lambda>r _. only_interrupted r"
  have update: "wp (update_job_in_db W jid) ?Q w" for w
    unfolding update_job_in_db_def wp_bind wp_read sum.case by (rule wp_caught)
  have fail: "wp (fail_job W jid e) ?Q w" for e w
    unfolding fail_job_def
    by (simp only: wp_bind wp_stat wp_set_end sum.case)
      (rule wp_use [OF wp_caught], auto intro!: wp_use [OF update] simp: wps split: sum.splits)
  have interrupt: "wp (interrupt_job W jid Interrupted) ?Q w" for w
    unfolding interrupt_job_def wp_bind wp_try by (rule wp_any) (auto simp: wps intro!: wp_any split: sum.splits)
  have close: "wp (close_finally W) ?Q w" for w
    using wp_caught by (auto simp: close_finally_def wp_bind wps(3) wp_return split: option.splits)
  have "wp (try_step (execute_body W payload jid name) (\<lambda>_. True)
      (\<lambda>e. if is_exception e then fail_job W jid e else interrupt_job W jid e)) ?Q w"
    unfolding wp_try by (rule wp_any) (auto simp: is_exception_def intro!: fail interrupt split: sum.splits)
  then show ?thesis
    unfolding execute_job_inner_def wp_finally
    by (rule wp_use) (auto intro!: wp_use [OF close] split: sum.splits)
qed

lemma execute_job_raises:
  assumes "execute_job W payload w = (Inl e, w')"
  shows "e = Interrupted \<or> log_fields payload = Inl e"
proof (cases "log_fields payload")
  case (Inl e')
  with assms show ?thesis by (simp add: execute_job_def bind_step_def finally_step_def emit_job_metrics_def
      lift_result_def Let_def)
next
  case (Inr u)
  then have "log_fields payload = Inr ()" by simp
  then have "wp (execute_job W payload) (\<lambda>r _. only_interrupted r) w"
    by (rule execute_job_run [OF _ inner_raises]) simp
  from wpD [OF this assms] show ?thesis by simp
qed

lemma log_fields_error: "log_fields payload = Inl e \<Longrightarrow> \<not> is_invalid e \<and> is_exception e"
  by (auto simp: log_fields_def as_dict_def is_invalid_def is_exception_def Let_def split: sum.splits pyval.splits if_splits)

subsection \<open>Properties\<close>

text \<open>C23: a job's offset is committed only after the job has ended: when the execution raises
  (a shutdown, or a payload it cannot read), the committed offset stays, so a restarted
  consumer gets the message again; when it returns, succeeded or not, a working commit moves
  past it. A shutdown is never swallowed.\<close>

theorem commit_after_the_job:
  assumes "supported_schema payload"
  shows "case execute_job W payload (cw_worker c) of (r, w) \<Rightarrow>
    (case process_message W cm (Document (PDict payload)) c of (r', c') \<Rightarrow>
      case r of
         Inl e \<Rightarrow> cw_worker c' = w \<and> cw_committed c' = cw_committed c \<and>
           r' = (if e = Interrupted then Inl Interrupted else Inr ())
       | Inr b \<Rightarrow> cm (cw_commits c) = None \<longrightarrow> cw_worker c' = w \<and> cw_committed c' = cw_position c \<and> r' = Inr ())"
proof (cases "execute_job W payload (cw_worker c)")
  case (Pair r w)
  have body: "handle_message W cm (Document (PDict payload)) c =
      bind_step (on_worker (execute_job W payload)) (\<lambda>_. commit cm) c"
    using assms by (simp add: handle_message_def parse_value_def)
  show ?thesis
  proof (cases r)
    case (Inl e)
    then have ran: "execute_job W payload (cw_worker c) = (Inl e, w)" using Pair by simp
    have "is_exception e \<longleftrightarrow> e \<noteq> Interrupted" "\<not> is_invalid e"
      using execute_job_raises [OF ran] log_fields_error [of payload e] by (auto simp: is_exception_def is_invalid_def)
    then show ?thesis
      using ran Inl body by (auto simp: Pair process_message_def try_step_def bind_step_def on_worker_def message_error_def)
  next
    case (Inr b)
    then show ?thesis using Pair body
      by (auto simp: process_message_def try_step_def bind_step_def on_worker_def commit_def Let_def message_error_def
        split: option.splits)
  qed
qed
definition readable_payload :: pydict where
  "readable_payload = (''schema_version'', PInt 2) # example_payload"

definition example_consumer :: "job_state \<Rightarrow> string cworld" where
  "example_consumer st = \<lparr>cw_worker = example_wworld st, cw_position = 7, cw_committed = 3, cw_commits = 0\<rparr>"

theorem commit_after_the_job_witness:
  "case execute_job (example_worker broken_send) readable_payload (example_wworld JRunning) of (r, w) \<Rightarrow>
    (case process_message (example_worker broken_send) (\<lambda>_. None) (Document (PDict readable_payload))
        (example_consumer JRunning) of (r', c') \<Rightarrow>
      case r of
         Inl e \<Rightarrow> cw_worker c' = w \<and> cw_committed c' = 3 \<and> r' = (if e = Interrupted then Inl Interrupted else Inr ())
       | Inr b \<Rightarrow> cw_worker c' = w \<and> cw_committed c' = 7 \<and> r' = Inr ())"
  using commit_after_the_job [where payload = readable_payload and W = "example_worker broken_send"
      and c = "example_consumer JRunning" and cm = "\<lambda>_. None"]
  by (simp add: readable_payload_def supported_schema_def example_consumer_def split: prod.splits sum.splits)

text \<open>A message that is no job -- empty, not JSON, not an object, or of another schema
  version -- is committed past without touching the database, and one that cannot be read is
  counted as invalid.\<close>

theorem unusable_messages_are_passed:
  assumes "v = NoValue \<or> (\<exists>e. parse_value v = Inl e) \<or> (\<exists>d. v = Document (PDict d) \<and> \<not> supported_schema d)"
    and "cm (cw_commits c) = None"
  shows "process_message W cm v c = (Inr (), c\<lparr>cw_commits := Suc (cw_commits c), cw_committed := cw_position c,
    cw_worker := (cw_worker c)\<lparr>wk_metrics := wk_metrics (cw_worker c) @
      (if v \<noteq> NoValue \<and> (\<exists>e. parse_value v = Inl e) then [JobsProcessed ''unknown'' ''invalid''] else [])\<rparr>\<rparr>)"
proof -
  have same: "c\<lparr>cw_worker := (cw_worker c)\<lparr>wk_metrics := wk_metrics (cw_worker c) @ []\<rparr>\<rparr> = c" by simp
  have invalid: "is_invalid e \<and> is_exception e" if "parse_value v = Inl e" for e
    using that by (auto simp: parse_value_def invalid_payload_def is_invalid_def is_exception_def
      split: msg_value.splits pyval.splits)
  consider "v = NoValue" | e where "v \<noteq> NoValue" "parse_value v = Inl e"
    | d where "v = Document (PDict d)" "\<not> supported_schema d" using assms(1) by blast
  then show ?thesis
    by cases (use assms(2) invalid in \<open>auto simp: process_message_def handle_message_def try_step_def commit_def Let_def
      message_error_def bind_step_def on_worker_def emit_def parse_value_def\<close>)
qed

theorem unusable_messages_are_passed_witness:
  "snd (process_message (example_worker broken_send) (\<lambda>_. None) (Document (PInt 5)) (example_consumer JRunning)) =
     (example_consumer JRunning)\<lparr>cw_commits := 1, cw_committed := 7,
       cw_worker := (example_wworld JRunning)\<lparr>wk_metrics := [JobsProcessed ''unknown'' ''invalid'']\<rparr>\<rparr>"
  using unusable_messages_are_passed [where v = "Document (PInt 5)" and cm = "\<lambda>_. None" and
    c = "example_consumer JRunning" and W = "example_worker broken_send"]
  by (simp add: parse_value_def example_consumer_def example_wworld_def)

lemma process_raises:
  assumes "\<forall>n. cm n = None"
  shows "wp (process_message W cm v) (\<lambda>r c'. only_interrupted r \<and> commits_position c c') c"
proof -
  have "wp (process_message W cm v) (\<lambda>r _. only_interrupted r) c"
    unfolding process_message_def wp_try
    by (rule wp_any) (auto simp: wps message_error_def assms is_exception_def split: sum.splits)
  from wp_conj [OF this wp_moves [OF process_offsets]] show ?thesis .
qed



text \<open>The consumer does not re-read a message it left uncommitted: when \<open>execute_job\<close> raised
  on one message, a later message that is committed moves the offset past both, although the
  first job has not run.\<close>

theorem uncommitted_message_is_passed:
  assumes "supported_schema payload" and "log_fields payload = Inl e" and "\<forall>n. cm n = None"
  shows "case consume_until_stopped W cm (\<lambda>_. False) [Document (PDict payload), NoValue] c of (r, c') \<Rightarrow>
    r = Inr () \<and> cw_committed c' = cw_position c + 2 \<and> wk_db (cw_worker c') = wk_db (cw_worker c)"
proof -
  have e: "\<not> is_invalid e" "is_exception e" using log_fields_error [OF assms(2)] by auto
  have "execute_job W payload w = (Inl e, snd (execute_job W payload w)) \<and>
      wk_db (snd (execute_job W payload w)) = wk_db w" for w
    using assms(2) by (simp add: execute_job_def bind_step_def finally_step_def emit_job_metrics_def lift_result_def Let_def)
  then obtain w' where run: "execute_job W payload (cw_worker c) = (Inl e, w')" "wk_db w' = wk_db (cw_worker c)" by blast
  let ?c = "c\<lparr>cw_position := Suc (cw_position c)\<rparr>"
  have first: "process_message W cm (Document (PDict payload)) ?c = (Inr (), ?c\<lparr>cw_worker := w'\<rparr>)"
    using run(1) e assms(1)
    by (simp add: process_message_def handle_message_def try_step_def bind_step_def parse_value_def on_worker_def
        message_error_def)
  have second: "process_message W cm NoValue c1 = (Inr (), c1\<lparr>cw_commits := Suc (cw_commits c1), cw_committed := cw_position c1\<rparr>)" for c1
    using assms(3) by (simp add: process_message_def handle_message_def try_step_def commit_def Let_def)
  show ?thesis by (simp add: bind_step_def first second run(2))
qed

theorem uncommitted_message_is_passed_witness:
  "case consume_until_stopped (example_worker broken_send) (\<lambda>_. None) (\<lambda>_. False)
      [Document (PDict [(''schema_version'', PInt 2), (''metadata'', PList [PInt 1])]), NoValue] (example_consumer JRunning)
    of (r, c') \<Rightarrow> r = Inr () \<and> cw_committed c' = 9"
  using uncommitted_message_is_passed [where payload = "[(''schema_version'', PInt 2), (''metadata'', PList [PInt 1])]"
      and cm = "\<lambda>_. None" and W = "example_worker broken_send" and c = "example_consumer JRunning"]
  by (simp add: supported_schema_def log_fields_def as_dict_def dget_or_def Let_def example_consumer_def split: prod.splits)

text \<open>The waits between attempts to connect double from one second and add up to at most
  511 seconds; the consumer gives up only when all ten attempts failed.\<close>

theorem connect_backoff:
  "case connect f 0 0 of (waited, r) \<Rightarrow> waited \<le> 511 \<and>
     (case r of None \<Rightarrow> \<exists>i < 10. f i = None \<and> waited = 2 ^ i - 1 \<and> (\<forall>j < i. f j \<noteq> None)
      | Some e \<Rightarrow> f 9 = Some e \<and> (\<forall>i < 10. f i \<noteq> None))"
proof -
  have run: "attempt \<le> 9 \<Longrightarrow> \<forall>j < attempt. f j \<noteq> None \<Longrightarrow> waited = 2 ^ attempt - 1 \<Longrightarrow>
    (case connect f attempt waited of (waited, r) \<Rightarrow> waited \<le> 511 \<and>
     (case r of None \<Rightarrow> \<exists>i < 10. f i = None \<and> waited = 2 ^ i - 1 \<and> (\<forall>j < i. f j \<noteq> None)
      | Some e \<Rightarrow> f 9 = Some e \<and> (\<forall>i < 10. f i \<noteq> None)))" for attempt waited
  proof (induction "9 - attempt" arbitrary: attempt waited)
    case 0
    then have nine: "attempt = 9" "waited = 511" by simp_all
    with 0 have before: "\<forall>j < 9. f j \<noteq> None" by simp
    show ?case
    proof (cases "f 9")
      case None
      then have "connect f 9 511 = (511, None)" by (simp add: connect.simps [of f 9] MAX_START_RETRIES_def)
      with None before nine show ?thesis by (auto intro!: exI [of _ 9])
    next
      case (Some e)
      have "\<forall>i < 10. f i \<noteq> None"
      proof (intro allI impI)
        fix i :: nat assume "i < 10"
        then have "i < 9 \<or> i = 9" by auto
        with before Some show "f i \<noteq> None" by auto
      qed
      moreover have "connect f 9 511 = (511, Some e)" using Some by (simp add: connect.simps [of f 9] MAX_START_RETRIES_def)
      ultimately show ?thesis using Some nine by simp
    qed
  next
    case (Suc n)
    show ?case
    proof (cases "f attempt")
      case None
      have "(2::nat) ^ attempt \<le> 2 ^ 9" using Suc.prems by (intro power_increasing) auto
      with None Suc.prems show ?thesis
        by (subst connect.simps) (auto simp: MAX_START_RETRIES_def intro!: exI [of _ attempt])
    next
      case (Some e)
      have "(2::nat) ^ attempt - 1 + 2 ^ attempt = 2 ^ Suc attempt - 1" by simp
      then have "connect f attempt waited = connect f (Suc attempt) (2 ^ Suc attempt - 1)"
        using Some Suc by (subst connect.simps) (auto simp: MAX_START_RETRIES_def)
      moreover have "\<forall>j < Suc attempt. f j \<noteq> None" using Suc.prems Some by (auto simp: less_Suc_eq)
      moreover have "n = 9 - Suc attempt" "Suc attempt \<le> 9" using Suc by auto
      ultimately show ?thesis using Suc.hyps(1) [of "Suc attempt"] by simp
    qed
  qed
  show ?thesis by (rule run) simp_all
qed

end
