(* ===== verification/ExecutionStore.thy ===== *)
theory ExecutionStore
  imports Values
begin

text \<open>
  The \<open>executions\<close> table (\<open>reflow_manager/models.py\<close>, class \<open>Execution\<close>) and every
  operation of \<open>ExecutionManager\<close> (\<open>reflow_manager/execution.py\<close>). Each method commits
  before it returns, so each definition is one atomic step from table to table; \<open>now\<close> is
  the clock it reads. The column \<open>updated_at\<close>, which no code reads, is left out.
\<close>

datatype exec_state = EPending | ERunning | EPaused | ECompleted | EFailed | ECancelled

record execution =
  e_id :: string
  e_pipeline :: string
  e_state :: exec_state
  e_total_jobs :: int
  e_jobs_dispatched :: int
  e_jobs_completed :: int
  e_jobs_failed :: int
  e_deduplicated :: int
  e_created_at :: time
  e_completed_at :: "time option"
  e_error :: "string option"
  e_runtime_params :: pydict
  e_rate_limit :: "rat option"
  e_driver_id :: "string option"
  e_driver_heartbeat :: "time option"
  e_plan_complete :: "bool option"

type_synonym executions = "execution list"

definition STATES :: "exec_state list" where
  "STATES = [EPending, ERunning, EPaused, ECompleted, EFailed, ECancelled]"

definition TERMINAL_STATES :: "exec_state list" where
  "TERMINAL_STATES = [ECompleted, EFailed, ECancelled]"

abbreviation terminal :: "exec_state \<Rightarrow> bool" where
  "terminal s \<equiv> s \<in> set TERMINAL_STATES"

definition by_id :: "string \<Rightarrow> execution \<Rightarrow> bool" where
  "by_id eid e \<longleftrightarrow> e_id e = eid"

lemma by_id_update [simp]:
  "by_id eid (e\<lparr>e_state := s\<rparr>) = by_id eid e" "by_id eid (e\<lparr>e_error := m\<rparr>) = by_id eid e"
  "by_id eid (e\<lparr>e_completed_at := t\<rparr>) = by_id eid e"
  "by_id eid (e\<lparr>e_driver_id := d\<rparr>) = by_id eid e"
  "by_id eid (e\<lparr>e_driver_heartbeat := h\<rparr>) = by_id eid e"
  "by_id eid (e\<lparr>e_plan_complete := p\<rparr>) = by_id eid e"
  "by_id eid (e\<lparr>e_total_jobs := n\<rparr>) = by_id eid e"
  "by_id eid (e\<lparr>e_jobs_dispatched := n\<rparr>) = by_id eid e"
  "by_id eid (e\<lparr>e_jobs_completed := n\<rparr>) = by_id eid e"
  "by_id eid (e\<lparr>e_jobs_failed := n\<rparr>) = by_id eid e"
  "by_id eid (e\<lparr>e_deduplicated := n\<rparr>) = by_id eid e"
  by (simp_all add: by_id_def)

subsection \<open>Creating and reading\<close>

definition create_execution ::
  "time \<Rightarrow> string \<Rightarrow> string \<Rightarrow> pydict option \<Rightarrow> rat option \<Rightarrow> executions \<Rightarrow>
     py_error + executions" where
  "create_execution now eid pipeline_name runtime_params rate_limit tbl =
     (if first_where (by_id eid) tbl \<noteq> None then Inl (IntegrityError eid)
      else Inr (tbl @ [\<lparr>e_id = eid, e_pipeline = pipeline_name, e_state = EPending,
        e_total_jobs = 0, e_jobs_dispatched = 0, e_jobs_completed = 0, e_jobs_failed = 0,
        e_deduplicated = 0, e_created_at = now, e_completed_at = None, e_error = None,
        e_runtime_params = (case runtime_params of Some d \<Rightarrow> d | None \<Rightarrow> []),
        e_rate_limit = rate_limit, e_driver_id = None, e_driver_heartbeat = None,
        e_plan_complete = Some False\<rparr>]))"

definition get_execution :: "string \<Rightarrow> executions \<Rightarrow> execution option" where
  "get_execution eid tbl = first_where (by_id eid) tbl"

definition get_interrupted_executions :: "executions \<Rightarrow> execution list" where
  "get_interrupted_executions tbl =
     filter (\<lambda>e. e_state e = ERunning \<or> (e_state e = EPending \<and> e_plan_complete e = Some False)) tbl"

subsection \<open>State changes\<close>

text \<open>\<open>if error_message:\<close> -- an absent or empty message leaves the recorded one.\<close>

definition set_error :: "string option \<Rightarrow> execution \<Rightarrow> execution" where
  "set_error msg e = (case msg of None \<Rightarrow> e | Some m \<Rightarrow> if m = [] then e else e\<lparr>e_error := Some m\<rparr>)"

definition set_state :: "time \<Rightarrow> exec_state \<Rightarrow> string option \<Rightarrow> execution \<Rightarrow> execution" where
  "set_state now s msg e =
     (let e' = set_error msg (e\<lparr>e_state := s\<rparr>)
      in if terminal s then e'\<lparr>e_completed_at := Some now\<rparr> else e')"

definition update_execution_state ::
  "time \<Rightarrow> string \<Rightarrow> exec_state \<Rightarrow> string option \<Rightarrow> executions \<Rightarrow> execution option \<times> executions" where
  "update_execution_state now eid s msg tbl =
     (case get_execution eid tbl of
        None \<Rightarrow> (None, tbl)
      | Some e \<Rightarrow> (Some (set_state now s msg e), update_where (by_id eid) (set_state now s msg) tbl))"

definition add_opt :: "int option \<Rightarrow> int \<Rightarrow> int" where
  "add_opt inc n = (case inc of None \<Rightarrow> n | Some i \<Rightarrow> n + i)"

definition update_job_counts ::
  "string \<Rightarrow> int option \<Rightarrow> int option \<Rightarrow> int option \<Rightarrow> executions \<Rightarrow> execution option \<times> executions" where
  "update_job_counts eid dispatched completed failed tbl =
     (let f = (\<lambda>e. e\<lparr>e_jobs_dispatched := add_opt dispatched (e_jobs_dispatched e),
                      e_jobs_completed := add_opt completed (e_jobs_completed e),
                      e_jobs_failed := add_opt failed (e_jobs_failed e)\<rparr>)
      in case get_execution eid tbl of
        None \<Rightarrow> (None, tbl)
      | Some e \<Rightarrow> (Some (f e), update_where (by_id eid) f tbl))"

definition pause_execution :: "time \<Rightarrow> string \<Rightarrow> executions \<Rightarrow> execution option \<times> executions" where
  "pause_execution now eid tbl =
     (case get_execution eid tbl of
        None \<Rightarrow> (None, tbl)
      | Some e \<Rightarrow>
          if e_state e \<notin> {EPending, ERunning} then (None, tbl)
          else update_execution_state now eid EPaused None tbl)"

definition resume_execution :: "time \<Rightarrow> string \<Rightarrow> executions \<Rightarrow> execution option \<times> executions" where
  "resume_execution now eid tbl =
     (case get_execution eid tbl of
        None \<Rightarrow> (None, tbl)
      | Some e \<Rightarrow>
          if e_state e \<noteq> EPaused then (None, tbl)
          else update_execution_state now eid ERunning None tbl)"

definition cancel_execution :: "time \<Rightarrow> string \<Rightarrow> executions \<Rightarrow> execution option \<times> executions" where
  "cancel_execution now eid tbl =
     (case get_execution eid tbl of
        None \<Rightarrow> (None, tbl)
      | Some e \<Rightarrow>
          if terminal (e_state e) then (None, tbl)
          else update_execution_state now eid ECancelled (Some ''Cancelled'') tbl)"

definition mark_plan_complete :: "string \<Rightarrow> executions \<Rightarrow> executions" where
  "mark_plan_complete eid tbl = update_where (by_id eid) (\<lambda>e. e\<lparr>e_plan_complete := Some True\<rparr>) tbl"

definition reopen_execution :: "string \<Rightarrow> executions \<Rightarrow> execution option \<times> executions" where
  "reopen_execution eid tbl =
     (let f = (\<lambda>e. e\<lparr>e_state := ERunning, e_completed_at := None, e_error := None\<rparr>)
      in case get_execution eid tbl of
        None \<Rightarrow> (None, tbl)
      | Some e \<Rightarrow> (Some (f e), update_where (by_id eid) f tbl))"

definition update_deduplicated_count :: "string \<Rightarrow> int \<Rightarrow> executions \<Rightarrow> executions" where
  "update_deduplicated_count eid n tbl =
     (case get_execution eid tbl of
        None \<Rightarrow> tbl
      | Some e \<Rightarrow> update_where (by_id eid) (\<lambda>e. e\<lparr>e_deduplicated := n\<rparr>) tbl)"

subsection \<open>The driver lease\<close>

definition lease_free :: "time \<Rightarrow> string \<Rightarrow> rat \<Rightarrow> execution \<Rightarrow> bool" where
  "lease_free now driver lease_seconds e \<longleftrightarrow>
     e_driver_id e = None \<or> e_driver_id e = Some driver \<or>
     lt_null (e_driver_heartbeat e) (now - lease_seconds)"

definition claim_driver ::
  "time \<Rightarrow> string \<Rightarrow> string \<Rightarrow> rat \<Rightarrow> executions \<Rightarrow> bool \<times> executions" where
  "claim_driver now eid driver lease_seconds tbl =
     (let P = (\<lambda>e. by_id eid e \<and> lease_free now driver lease_seconds e)
      in (count_where P tbl = 1,
          update_where P (\<lambda>e. e\<lparr>e_driver_id := Some driver, e_driver_heartbeat := Some now\<rparr>) tbl))"

definition heartbeat_driver :: "time \<Rightarrow> string \<Rightarrow> string \<Rightarrow> executions \<Rightarrow> bool \<times> executions" where
  "heartbeat_driver now eid driver tbl =
     (let P = (\<lambda>e. by_id eid e \<and> e_driver_id e = Some driver)
      in (count_where P tbl = 1, update_where P (\<lambda>e. e\<lparr>e_driver_heartbeat := Some now\<rparr>) tbl))"

definition clear_driver :: "execution \<Rightarrow> execution" where
  "clear_driver e = e\<lparr>e_driver_id := None, e_driver_heartbeat := None\<rparr>"

definition release_driver :: "string \<Rightarrow> string \<Rightarrow> executions \<Rightarrow> executions" where
  "release_driver eid driver tbl =
     update_where (\<lambda>e. by_id eid e \<and> e_driver_id e = Some driver) clear_driver tbl"

definition release_drivers_on_host :: "string \<Rightarrow> executions \<Rightarrow> nat \<times> executions" where
  "release_drivers_on_host hostname tbl =
     (let P = (\<lambda>e. case e_driver_id e of None \<Rightarrow> False
                   | Some d \<Rightarrow> sql_like (hostname @ '':%'') d)
      in (count_where P tbl, update_where P clear_driver tbl))"

subsection \<open>Reading a row back\<close>

lemma get_update_where:
  "(\<And>e. by_id eid (f e) = by_id eid e) \<Longrightarrow>
   get_execution eid (update_where P f tbl) =
     map_option (\<lambda>e. if P e then f e else e) (get_execution eid tbl)"
  by (simp add: get_execution_def first_where_update)

lemma get_update_other:
  "(\<And>e. P e \<Longrightarrow> e_id e \<noteq> eid \<and> e_id (f e) = e_id e) \<Longrightarrow>
   get_execution eid (update_where P f tbl) = get_execution eid tbl"
  by (induction tbl) (auto simp: get_execution_def by_id_def)

lemma get_execution_by_id: "get_execution eid tbl = Some e \<Longrightarrow> by_id eid e"
  unfolding get_execution_def by (drule first_where_Some_iff) simp

lemma set_error_id [simp]: "e_id (set_error msg e) = e_id e" "e_state (set_error msg e) = e_state e"
  "e_driver_id (set_error msg e) = e_driver_id e"
  "e_driver_heartbeat (set_error msg e) = e_driver_heartbeat e"
  "e_plan_complete (set_error msg e) = e_plan_complete e"
  by (auto simp: set_error_def split: option.splits)

lemma set_state_fields [simp]:
  "e_id (set_state now s msg e) = e_id e" "e_state (set_state now s msg e) = s"
  "e_driver_id (set_state now s msg e) = e_driver_id e"
  "e_driver_heartbeat (set_state now s msg e) = e_driver_heartbeat e"
  "e_plan_complete (set_state now s msg e) = e_plan_complete e"
  by (auto simp: set_state_def Let_def)

lemma by_id_set_state [simp]: "by_id eid (set_state now s msg e) = by_id eid e"
  by (simp add: by_id_def)

lemma get_update_execution_state [row_simps]:
  "get_execution eid (snd (update_execution_state now eid s msg tbl)) =
     map_option (set_state now s msg) (get_execution eid tbl)"
proof (cases "get_execution eid tbl")
  case (Some e)
  with get_execution_by_id [OF Some] show ?thesis
    by (simp add: update_execution_state_def get_update_where)
qed (simp add: update_execution_state_def)

text \<open>What a state change by the named operations does to the state column.\<close>

definition state_of :: "string \<Rightarrow> executions \<Rightarrow> exec_state option" where
  "state_of eid tbl = map_option e_state (get_execution eid tbl)"

lemma state_of_update_execution_state [row_simps]:
  "state_of eid (snd (update_execution_state now eid s msg tbl)) =
     map_option (\<lambda>_. s) (state_of eid tbl)"
  by (cases "get_execution eid tbl") (simp_all add: state_of_def get_update_execution_state)

lemma state_of_pause [row_simps]:
  "state_of eid (snd (pause_execution now eid tbl)) =
     map_option (\<lambda>s. if s \<in> {EPending, ERunning} then EPaused else s) (state_of eid tbl)"
  by (cases "get_execution eid tbl")
    (auto simp: pause_execution_def state_of_def get_update_execution_state)

lemma state_of_resume [row_simps]:
  "state_of eid (snd (resume_execution now eid tbl)) =
     map_option (\<lambda>s. if s = EPaused then ERunning else s) (state_of eid tbl)"
  by (cases "get_execution eid tbl")
    (auto simp: resume_execution_def state_of_def get_update_execution_state)

lemma state_of_cancel [row_simps]:
  "state_of eid (snd (cancel_execution now eid tbl)) =
     map_option (\<lambda>s. if terminal s then s else ECancelled) (state_of eid tbl)"
  by (cases "get_execution eid tbl")
    (auto simp: cancel_execution_def state_of_def get_update_execution_state)

end
