(* ===== verification/RateLimiter.thy ===== *)
theory RateLimiter
  imports Prelude
begin

text \<open>
  \<open>reflowfy/reflow_manager/rate_limiter.py\<close>: the token bucket whose state is one row of
  the table \<open>rate_limit_state\<close> per bucket name. Tokens, rates and times are rationals
  (the program's floats without their rounding); \<open>now\<close> is the clock value an operation
  reads. Each operation is one transaction on the row: the code takes the row lock
  before it reads the tokens it is about to spend.
\<close>

record bucket =
  b_name :: string
  b_tokens :: rat
  b_max_tokens :: rat
  b_refill_rate :: rat
  b_last_update :: time

type_synonym buckets = "bucket list"

definition SECONDS_PER_MINUTE :: rat where
  "SECONDS_PER_MINUTE = 60"

definition tokens_per_second :: "rat \<Rightarrow> rat" where
  "tokens_per_second rate_per_minute = rate_per_minute / SECONDS_PER_MINUTE"

definition get_or_create_state :: "time \<Rightarrow> string \<Rightarrow> rat \<Rightarrow> buckets \<Rightarrow> bucket \<times> buckets" where
  "get_or_create_state now name rate_limit bs =
     (let refill_rate = tokens_per_second rate_limit in
      case first_where (\<lambda>b. b_name b = name) bs of
        None \<Rightarrow>
          let b = \<lparr>b_name = name, b_tokens = 1, b_max_tokens = max 1 refill_rate,
                   b_refill_rate = refill_rate, b_last_update = now\<rparr>
          in (b, bs @ [b])
      | Some b \<Rightarrow>
          if b_refill_rate b \<noteq> refill_rate
          then let b' = b\<lparr>b_refill_rate := refill_rate, b_max_tokens := max 1 refill_rate\<rparr>
               in (b', update_where (\<lambda>q. b_name q = name) (\<lambda>_. b') bs)
          else (b, bs))"

definition refilled :: "time \<Rightarrow> bucket \<Rightarrow> rat" where
  "refilled now b =
     (let elapsed = now - b_last_update b;
          new_tokens = b_tokens b + elapsed * b_refill_rate b
      in min new_tokens (b_max_tokens b))"

definition refill_tokens :: "time \<Rightarrow> bucket \<Rightarrow> buckets \<Rightarrow> bucket \<times> buckets" where
  "refill_tokens now b bs =
     (let b' = b\<lparr>b_tokens := refilled now b, b_last_update := now\<rparr>
      in (b', update_where (\<lambda>q. b_name q = b_name b) (\<lambda>_. b') bs))"

definition effective_rate :: "rat \<Rightarrow> rat option \<Rightarrow> rat" where
  "effective_rate default_rate rate_limit =
     (case rate_limit of Some r \<Rightarrow> r | None \<Rightarrow> default_rate)"

definition can_dispatch ::
  "rat \<Rightarrow> time \<Rightarrow> string \<Rightarrow> int \<Rightarrow> rat option \<Rightarrow> buckets \<Rightarrow> bool \<times> buckets" where
  "can_dispatch default_rate now name count rate_limit bs =
     (let (b, bs1) = get_or_create_state now name (effective_rate default_rate rate_limit) bs;
          (b', bs2) = refill_tokens now b bs1
      in (of_int count \<le> b_tokens b', bs2))"

definition get_state_with_lock :: "time \<Rightarrow> string \<Rightarrow> rat \<Rightarrow> buckets \<Rightarrow> bucket option \<times> buckets" where
  "get_state_with_lock now name rate_limit bs =
     (let (_, bs1) = get_or_create_state now name rate_limit bs
      in (first_where (\<lambda>b. b_name b = name) bs1, bs1))"

text \<open>
  The row exists after \<open>get_or_create_state\<close>, so the query with the lock returns it
  (\<open>get_state_with_lock_row\<close>); the other branch answers like a refused request.
\<close>

definition consume_tokens ::
  "rat \<Rightarrow> time \<Rightarrow> string \<Rightarrow> int \<Rightarrow> rat option \<Rightarrow> buckets \<Rightarrow> bool \<times> buckets" where
  "consume_tokens default_rate now name count rate_limit bs =
     (case get_state_with_lock now name (effective_rate default_rate rate_limit) bs of
        (None, bs1) \<Rightarrow> (False, bs1)
      | (Some b, bs1) \<Rightarrow>
          let new_tokens = refilled now b in
          if of_int count \<le> new_tokens
          then (True, update_where (\<lambda>q. b_name q = name)
                  (\<lambda>q. q\<lparr>b_tokens := new_tokens - of_int count, b_last_update := now\<rparr>) bs1)
          else (False, bs1))"

text \<open>
  The waiting loop of \<open>acquire_token\<close>. Sleeping \<open>s\<close> seconds moves the clock by \<open>s\<close> plus
  a lag the scheduler adds (\<open>lag n \<ge> 0\<close>, a parameter). A negative \<open>time.sleep\<close> raises.
  The loop has fuel; \<open>acquire_fuel\<close> is always enough (\<open>acquire_loop_returns\<close>).
\<close>

fun acquire_loop ::
  "nat \<Rightarrow> rat \<Rightarrow> rat \<Rightarrow> string \<Rightarrow> rat option \<Rightarrow> rat \<Rightarrow> time \<Rightarrow> (nat \<Rightarrow> rat) \<Rightarrow> time \<Rightarrow> buckets \<Rightarrow>
     ((py_error + bool) \<times> time \<times> buckets) option" where
  "acquire_loop 0 dr wait name rl max_wait start lag now bs = None"
| "acquire_loop (Suc n) dr wait name rl max_wait start lag now bs =
     (let (ok, bs') = consume_tokens dr now name 1 rl bs in
      if ok then Some (Inr True, now, bs')
      else let elapsed = now - start in
        if max_wait \<le> elapsed then Some (Inr False, now, bs')
        else let remaining_wait = max_wait - elapsed;
                 sleep_time = min wait remaining_wait
             in if sleep_time < 0
                then Some (Inl (ValueError ''sleep length must be non-negative''), now, bs')
                else acquire_loop n dr wait name rl max_wait start lag (now + sleep_time + lag n) bs')"

definition acquire_fuel :: "rat \<Rightarrow> rat \<Rightarrow> nat" where
  "acquire_fuel max_wait wait = nat \<lceil>max_wait / wait\<rceil> + 2"

definition acquire_token ::
  "rat \<Rightarrow> string \<Rightarrow> rat option \<Rightarrow> rat \<Rightarrow> (nat \<Rightarrow> rat) \<Rightarrow> time \<Rightarrow> buckets \<Rightarrow>
     ((py_error + bool) \<times> time \<times> buckets) option" where
  "acquire_token default_rate name rate_limit max_wait lag now bs =
     (let per_second = tokens_per_second (effective_rate default_rate rate_limit) in
      if per_second = 0 then Some (Inl ZeroDivisionError, now, bs)
      else let wait_per_token = 1 / per_second
           in acquire_loop (acquire_fuel max_wait wait_per_token)
                default_rate wait_per_token name rate_limit max_wait now lag now bs)"

subsection \<open>One bucket, seen through its name\<close>

abbreviation bucket_of :: "string \<Rightarrow> buckets \<Rightarrow> bucket option" where
  "bucket_of name bs \<equiv> first_where (\<lambda>b. b_name b = name) bs"

definition bucket_at :: "time \<Rightarrow> rat \<Rightarrow> string \<Rightarrow> buckets \<Rightarrow> bucket" where
  "bucket_at now rate name bs = fst (get_or_create_state now name rate bs)"

lemma b_name_bucket_at [simp]: "b_name (bucket_at now rate name bs) = name"
  by (auto simp: bucket_at_def get_or_create_state_def Let_def dest: first_where_Some_iff
      split: option.splits)

lemma first_where_append_fresh:
  "first_where P bs = None \<Longrightarrow> first_where P (bs @ cs) = first_where P cs"
  by (induction bs) (auto split: if_splits)

lemma first_where_const_update:
  "first_where P bs \<noteq> None \<Longrightarrow> P b \<Longrightarrow> first_where P (update_where P (\<lambda>_. b) bs) = Some b"
  by (induction bs) auto

lemma get_state_with_lock_row:
  "get_state_with_lock now name rate bs =
     (Some (bucket_at now rate name bs), snd (get_or_create_state now name rate bs))"
proof (cases "bucket_of name bs")
  case None
  then show ?thesis
    by (simp add: get_state_with_lock_def get_or_create_state_def bucket_at_def Let_def
        first_where_append_fresh)
next
  case (Some b)
  then have "b_name b = name" using first_where_Some_iff by fastforce
  with Some show ?thesis
    by (auto simp: get_state_with_lock_def get_or_create_state_def bucket_at_def Let_def
        first_where_const_update)
qed

lemma get_or_create_row:
  "bucket_of name (snd (get_or_create_state now name rate bs)) = Some (bucket_at now rate name bs)"
  using get_state_with_lock_row [of now name rate bs]
  by (simp add: get_state_with_lock_def split: prod.splits)

lemma get_or_create_other:
  "other \<noteq> name \<Longrightarrow>
   bucket_of other (snd (get_or_create_state now name rate bs)) = bucket_of other bs"
proof -
  assume ne: "other \<noteq> name"
  have upd: "bucket_of other (update_where (\<lambda>q. b_name q = name) (\<lambda>_. b) cs) = bucket_of other cs"
    if "b_name b = name" for b cs
    using ne that by (induction cs) auto
  have app: "bucket_of other (cs @ [b]) = bucket_of other cs" if "b_name b = name" for b cs
    using ne that by (induction cs) auto
  show ?thesis
  proof (cases "bucket_of name bs")
    case None
    then show ?thesis by (simp add: get_or_create_state_def Let_def app)
  next
    case (Some b)
    then have "b_name b = name" using first_where_Some_iff by fastforce
    with Some show ?thesis by (simp add: get_or_create_state_def Let_def upd)
  qed
qed

lemma get_or_create_found:
  "bucket_of name bs = Some b \<Longrightarrow> b_refill_rate b = tokens_per_second rate \<Longrightarrow>
   get_or_create_state now name rate bs = (b, bs)"
  by (simp add: get_or_create_state_def)

lemma bucket_at_same_rate:
  "bucket_of name bs = Some b \<Longrightarrow> b_refill_rate b = tokens_per_second rate \<Longrightarrow>
   bucket_at now rate name bs = b"
  by (simp add: bucket_at_def get_or_create_found)

text \<open>What a request does to its own bucket, and that it leaves every other bucket alone.\<close>

definition spend :: "time \<Rightarrow> int \<Rightarrow> bucket \<Rightarrow> bool \<times> bucket" where
  "spend now count b =
     (if of_int count \<le> refilled now b
      then (True, b\<lparr>b_tokens := refilled now b - of_int count, b_last_update := now\<rparr>)
      else (False, b))"

lemma consume_own:
  assumes "consume_tokens dr now name count rl bs = (ok, bs')"
  shows "bucket_of name bs' = Some (snd (spend now count (bucket_at now (effective_rate dr rl) name bs)))"
    and "ok = fst (spend now count (bucket_at now (effective_rate dr rl) name bs))"
proof -
  let ?r = "effective_rate dr rl"
  let ?b = "bucket_at now ?r name bs"
  let ?bs1 = "snd (get_or_create_state now name ?r bs)"
  have row: "bucket_of name ?bs1 = Some ?b" by (rule get_or_create_row)
  have upd: "bucket_of name (update_where (\<lambda>q. b_name q = name)
       (\<lambda>q. q\<lparr>b_tokens := x, b_last_update := now\<rparr>) ?bs1) =
       Some (?b\<lparr>b_tokens := x, b_last_update := now\<rparr>)" for x
    using row by (subst first_where_update) simp_all
  from assms show "bucket_of name bs' = Some (snd (spend now count ?b))"
    and "ok = fst (spend now count ?b)"
    by (auto simp: consume_tokens_def get_state_with_lock_row spend_def Let_def row upd
        split: if_splits)
qed

lemma consume_other:
  assumes "consume_tokens dr now name count rl bs = (ok, bs')" and "other \<noteq> name"
  shows "bucket_of other bs' = bucket_of other bs"
proof -
  have upd: "bucket_of other (update_where (\<lambda>q. b_name q = name)
       (\<lambda>q. q\<lparr>b_tokens := x, b_last_update := y\<rparr>) cs) = bucket_of other cs" for x y cs
    using assms(2) by (induction cs) auto
  show ?thesis
    using assms get_or_create_other [OF assms(2)]
    by (auto simp: consume_tokens_def get_state_with_lock_row Let_def upd split: if_splits)
qed

subsection \<open>The invariant of a bucket and its level over time\<close>

definition bucket_ok :: "bucket \<Rightarrow> bool" where
  "bucket_ok b \<longleftrightarrow> b_max_tokens b = max 1 (b_refill_rate b) \<and> 0 \<le> b_tokens b"

definition buckets_ok :: "buckets \<Rightarrow> bool" where
  "buckets_ok bs \<longleftrightarrow> (\<forall>b \<in> set bs. bucket_ok b)"

lemma get_or_create_ok:
  assumes "buckets_ok bs"
  shows "bucket_ok (bucket_at now rate name bs)"
    and "buckets_ok (snd (get_or_create_state now name rate bs))"
proof -
  have row: "bucket_ok b" if "bucket_of name bs = Some b" for b
    using assms that first_where_Some_iff by (fastforce simp: buckets_ok_def)
  have nonneg: "0 \<le> b_tokens b" if "bucket_of n bs = Some b" for b n
    using assms that first_where_Some_iff by (fastforce simp: buckets_ok_def bucket_ok_def)
  show "bucket_ok (bucket_at now rate name bs)"
    by (auto simp: bucket_at_def get_or_create_state_def bucket_ok_def Let_def
        dest: row [unfolded bucket_ok_def] split: option.splits)
  show "buckets_ok (snd (get_or_create_state now name rate bs))"
  proof (cases "bucket_of name bs")
    case None
    then show ?thesis
      using assms by (auto simp: buckets_ok_def get_or_create_state_def bucket_ok_def Let_def)
  next
    case (Some b)
    with assms nonneg [OF Some] show ?thesis
      by (auto simp: buckets_ok_def get_or_create_state_def bucket_ok_def Let_def set_update_where
          split: if_splits)
  qed
qed

lemma consume_ok:
  assumes "buckets_ok bs" and "consume_tokens dr now name count rl bs = (ok, bs')"
  shows "buckets_ok bs'"
  using assms(2) get_or_create_ok(2) [OF assms(1), of now name "effective_rate dr rl"]
  by (auto simp: consume_tokens_def get_state_with_lock_row Let_def buckets_ok_def set_update_where
      bucket_ok_def split: if_splits)

lemma refill_rate_bucket_at [simp]: "b_refill_rate (bucket_at now rate name bs) = tokens_per_second rate"
  by (auto simp: bucket_at_def get_or_create_state_def Let_def split: option.splits)

lemma refilled_mono_rate:
  assumes "0 \<le> b_refill_rate b" and "t \<le> u"
  shows "refilled u b \<le> refilled t b + b_refill_rate b * (u - t)"
proof -
  have "0 \<le> b_refill_rate b * (u - t)" using assms by simp
  moreover have "b_tokens b + (u - b_last_update b) * b_refill_rate b =
      b_tokens b + (t - b_last_update b) * b_refill_rate b + b_refill_rate b * (u - t)"
    by (simp add: algebra_simps)
  ultimately show ?thesis
    by (simp add: refilled_def Let_def min_def)
qed

lemma refilled_le_max: "refilled t b \<le> b_max_tokens b"
  by (simp add: refilled_def Let_def)

lemma spend_level:
  "spend t count b = (ok, b') \<Longrightarrow> 0 \<le> count \<Longrightarrow>
   refilled t b' \<le> refilled t b - (if ok then of_int count else 0)"
  by (auto simp: spend_def refilled_def Let_def min_def split: if_splits)

lemma spend_rate: "spend t count b = (ok, b') \<Longrightarrow> b_refill_rate b' = b_refill_rate b"
  by (auto simp: spend_def split: if_splits)

subsection \<open>A run of requests against one bucket\<close>

fun consume_run ::
  "rat \<Rightarrow> string \<Rightarrow> rat option \<Rightarrow> time list \<Rightarrow> buckets \<Rightarrow> nat \<times> buckets" where
  "consume_run dr name rl [] bs = (0, bs)"
| "consume_run dr name rl (t # ts) bs =
     (let (ok, bs') = consume_tokens dr t name 1 rl bs;
          (n, bs'') = consume_run dr name rl ts bs'
      in ((if ok then Suc n else n), bs''))"

lemma consume_run_level:
  fixes bs :: buckets
  assumes "0 \<le> tokens_per_second (effective_rate dr rl)"
    and "bucket_of name bs = Some b" and "b_refill_rate b = tokens_per_second (effective_rate dr rl)"
    and "sorted (t # ts)" and "consume_run dr name rl ts bs = (n, bs')"
  shows "of_nat n \<le> max 0 (refilled t b) +
           tokens_per_second (effective_rate dr rl) * (last (t # ts) - t)"
  using assms
proof (induction ts arbitrary: t b bs n bs')
  case Nil
  then show ?case by simp
next
  case (Cons u ts)
  let ?r = "tokens_per_second (effective_rate dr rl)"
  obtain ok bs1 where c: "consume_tokens dr u name 1 rl bs = (ok, bs1)" by fastforce
  obtain m bs2 where m: "consume_run dr name rl ts bs1 = (m, bs2)" by fastforce
  have n: "n = (if ok then Suc m else m)"
    using Cons.prems(5) c m by (simp split: if_splits)
  have at: "bucket_at u (effective_rate dr rl) name bs = b"
    by (rule bucket_at_same_rate [OF Cons.prems(2,3)])
  obtain b' where sp: "spend u 1 b = (ok, b')"
    using consume_own(2) [OF c] at by (cases "spend u 1 b") auto
  have row: "bucket_of name bs1 = Some b'"
    using consume_own(1) [OF c] at sp by simp
  have rate: "b_refill_rate b' = ?r" using spend_rate [OF sp] Cons.prems(3) by simp
  have tu: "t \<le> u" and s: "sorted (u # ts)" using Cons.prems(4) by auto
  have "of_nat m \<le> max 0 (refilled u b') + ?r * (last (u # ts) - u)"
    by (rule Cons.IH [OF Cons.prems(1) row rate s m])
  moreover have "refilled u b' \<le> refilled u b - (if ok then 1 else 0)"
    using spend_level [OF sp] by (cases ok) simp_all
  moreover have "ok \<Longrightarrow> 1 \<le> refilled u b"
    using sp by (auto simp: spend_def split: if_splits)
  moreover have "refilled u b \<le> refilled t b + ?r * (u - t)"
    using refilled_mono_rate [OF _ tu, of b] Cons.prems(1,3) by simp
  moreover have "?r * (last (t # u # ts) - t) = ?r * (last (u # ts) - u) + ?r * (u - t)"
    by (simp add: algebra_simps)
  moreover have "0 \<le> ?r * (u - t)" using Cons.prems(1) tu by simp
  ultimately show ?case using n by (auto split: if_splits)
qed

lemma consume_run_first:
  fixes bs :: buckets
  assumes "0 \<le> tokens_per_second (effective_rate dr rl)"
    and "sorted (t # ts)" and "consume_run dr name rl (t # ts) bs = (n, bs')"
  shows "of_nat n \<le> max 0 (refilled t (bucket_at t (effective_rate dr rl) name bs)) +
           tokens_per_second (effective_rate dr rl) * (last (t # ts) - t)"
proof -
  let ?r = "effective_rate dr rl"
  let ?b = "bucket_at t ?r name bs"
  let ?bs = "snd (get_or_create_state t name ?r bs)"
  have row: "bucket_of name ?bs = Some ?b" by (rule get_or_create_row)
  have idem: "get_or_create_state t name ?r ?bs = (?b, ?bs)"
    by (rule get_or_create_found [OF row]) simp
  have fst1: "bucket_at t ?r name ?bs = ?b" and snd1: "snd (get_or_create_state t name ?r ?bs) = ?bs"
    using idem by (simp_all add: bucket_at_def)
  have "consume_tokens dr t name 1 rl ?bs = consume_tokens dr t name 1 rl bs"
    unfolding consume_tokens_def get_state_with_lock_row fst1 snd1 ..
  then have run: "consume_run dr name rl (t # ts) ?bs = (n, bs')"
    using assms(3) by simp
  have "sorted (t # t # ts)" using assms(2) by simp
  from consume_run_level [OF assms(1) row _ this run] show ?thesis by simp
qed

subsection \<open>The waiting loop\<close>

lemma acquire_loop_Suc:
  "consume_tokens dr now name 1 rl bs = (ok, bs') \<Longrightarrow>
   acquire_loop (Suc n) dr wait name rl max_wait start lag now bs =
     (if ok then Some (Inr True, now, bs')
      else if max_wait \<le> now - start then Some (Inr False, now, bs')
      else if min wait (max_wait - (now - start)) < 0
           then Some (Inl (ValueError ''sleep length must be non-negative''), now, bs')
           else acquire_loop n dr wait name rl max_wait start lag
                  (now + min wait (max_wait - (now - start)) + lag n) bs')"
  by (simp add: Let_def)

lemma acquire_loop_returns:
  assumes "0 < wait" and "\<And>k. 0 \<le> lag k"
    and "1 \<le> n" and "(max_wait - (now - start)) / wait + 1 \<le> of_nat n"
  shows "\<exists>r. acquire_loop n dr wait name rl max_wait start lag now bs = Some r"
  using assms(3,4)
proof (induction n arbitrary: now bs)
  case 0
  then show ?case by simp
next
  case (Suc n)
  obtain ok bs' where c: "consume_tokens dr now name 1 rl bs = (ok, bs')" by fastforce
  let ?left = "max_wait - (now - start)"
  show ?case
  proof (cases "ok \<or> max_wait \<le> now - start \<or> min wait ?left < 0")
    case True
    then show ?thesis by (auto simp: acquire_loop_Suc [OF c] simp del: acquire_loop.simps)
  next
    case False
    let ?next = "now + min wait ?left + lag n"
    have pos: "0 < ?left" using False by simp
    then have "0 < ?left / wait" using assms(1) by simp
    then have n: "1 \<le> n" using Suc.prems(2) by (cases n) auto
    have "(max_wait - (?next - start)) / wait \<le> (?left - min wait ?left) / wait"
      using assms(1,2) by (intro divide_right_mono) (auto simp: algebra_simps)
    also have "\<dots> \<le> max 0 (?left / wait - 1)"
      using assms(1) by (auto simp: min_def diff_divide_distrib)
    also have "\<dots> \<le> of_nat n - 1" using Suc.prems(2) n by auto
    finally have "(max_wait - (?next - start)) / wait + 1 \<le> of_nat n" by simp
    then have "\<exists>r. acquire_loop n dr wait name rl max_wait start lag ?next bs' = Some r"
      by (rule Suc.IH [OF n])
    with False show ?thesis by (simp add: acquire_loop_Suc [OF c] del: acquire_loop.simps)
  qed
qed

lemma acquire_fuel_enough:
  assumes "0 < wait"
  shows "1 \<le> acquire_fuel max_wait wait"
    and "(max_wait - (now - now)) / wait + 1 \<le> of_nat (acquire_fuel max_wait wait)"
proof -
  show "1 \<le> acquire_fuel max_wait wait" by (simp add: acquire_fuel_def)
  have "max_wait / wait \<le> of_int \<lceil>max_wait / wait\<rceil>" by (rule le_of_int_ceiling)
  also have "\<dots> \<le> of_nat (nat \<lceil>max_wait / wait\<rceil>)" by (metis of_int_of_nat_eq of_int_le_iff nat_le_iff order_refl int_nat_eq not_le_imp_less less_imp_le)
  finally show "(max_wait - (now - now)) / wait + 1 \<le> of_nat (acquire_fuel max_wait wait)"
    by (simp add: acquire_fuel_def)
qed

lemma acquire_loop_negative:
  "wait < 0 \<Longrightarrow> \<exists>r. acquire_loop (Suc n) dr wait name rl max_wait start lag now bs = Some r"
proof -
  assume "wait < 0"
  then have "min wait x < 0" for x by simp
  then show ?thesis
    by (cases "consume_tokens dr now name 1 rl bs")
      (auto simp: acquire_loop_Suc simp del: acquire_loop.simps)
qed

lemma acquire_loop_refused:
  "acquire_loop n dr wait name rl max_wait start lag now bs = Some (Inr False, t, bs') \<Longrightarrow>
   max_wait \<le> t - start"
proof (induction n arbitrary: now bs)
  case (Suc n)
  obtain ok bs1 where c: "consume_tokens dr now name 1 rl bs = (ok, bs1)" by fastforce
  from Suc show ?case
    by (auto simp: acquire_loop_Suc [OF c] simp del: acquire_loop.simps split: if_splits)
qed simp

lemma refilled_after_wait:
  assumes ok: "bucket_ok b" and r: "0 < b_refill_rate b" and u: "b_last_update b \<le> t"
    and v: "t + 1 / b_refill_rate b \<le> v"
  shows "1 \<le> refilled v b"
proof -
  have "1 / b_refill_rate b \<le> v - b_last_update b" using u v by simp
  then have "1 \<le> (v - b_last_update b) * b_refill_rate b"
    using r by (simp add: field_simps)
  then show ?thesis using ok by (simp add: refilled_def Let_def bucket_ok_def)
qed

lemma acquire_token_eq:
  assumes "tokens_per_second (effective_rate dr rl) \<noteq> 0"
  shows "acquire_token dr name rl max_wait lag now bs =
    acquire_loop (acquire_fuel max_wait (1 / tokens_per_second (effective_rate dr rl)))
      dr (1 / tokens_per_second (effective_rate dr rl)) name rl max_wait now lag now bs"
  using assms by (simp add: acquire_token_def Let_def)

subsection \<open>The credit of a bucket\<close>

text \<open>What a bucket could grant at once. Time adds to it at the refill rate at most, and a
  granted request takes one from it.\<close>

definition credit :: "time \<Rightarrow> rat \<Rightarrow> string \<Rightarrow> buckets \<Rightarrow> rat" where
  "credit now rate name bs = max 0 (refilled now (bucket_at now rate name bs))"

lemma credit_nonneg [simp]: "0 \<le> credit now rate name bs"
  by (simp add: credit_def)

lemma credit_cong: "bucket_of name bs' = bucket_of name bs \<Longrightarrow> credit now rate name bs' = credit now rate name bs"
  by (simp add: credit_def bucket_at_def get_or_create_state_def Let_def split: option.splits)

lemma credit_le:
  "buckets_ok bs \<Longrightarrow> credit now rate name bs \<le> max 1 (tokens_per_second rate)"
  using get_or_create_ok(1) [of bs now rate name] refilled_le_max [of now "bucket_at now rate name bs"]
  by (auto simp: credit_def bucket_ok_def)

lemma credit_time:
  assumes "0 \<le> tokens_per_second rate" and "t \<le> u"
  shows "credit u rate name bs \<le> credit t rate name bs + tokens_per_second rate * (u - t)"
proof (cases "bucket_of name bs")
  case None
  then have "refilled v (bucket_at v rate name bs) = 1" for v
    by (simp add: bucket_at_def get_or_create_state_def refilled_def Let_def)
  then show ?thesis using assms by (simp add: credit_def)
next
  case (Some b)
  then have at: "bucket_at v rate name bs = bucket_at t rate name bs" for v
    by (simp add: bucket_at_def get_or_create_state_def Let_def)
  have "refilled u (bucket_at t rate name bs)
      \<le> refilled t (bucket_at t rate name bs) + tokens_per_second rate * (u - t)"
    using refilled_mono_rate [of "bucket_at t rate name bs", OF _ assms(2)] assms(1) by simp
  moreover have "0 \<le> tokens_per_second rate * (u - t)" using assms by simp
  ultimately show ?thesis unfolding credit_def at [of u] by linarith
qed

lemma credit_consume:
  assumes "consume_tokens dr now name 1 rl bs = (ok, bs')"
  shows "credit now (effective_rate dr rl) name bs' + (if ok then 1 else 0)
    \<le> credit now (effective_rate dr rl) name bs"
proof -
  let ?b = "bucket_at now (effective_rate dr rl) name bs"
  obtain b' where sp: "spend now 1 ?b = (ok, b')"
    using consume_own(2) [OF assms] by (cases "spend now 1 ?b") auto
  have row: "bucket_of name bs' = Some b'" using consume_own(1) [OF assms] sp by simp
  have "bucket_at now (effective_rate dr rl) name bs' = b'"
    by (rule bucket_at_same_rate [OF row]) (simp add: spend_rate [OF sp])
  moreover have "ok \<Longrightarrow> 1 \<le> refilled now ?b" using sp by (auto simp: spend_def split: if_splits)
  ultimately show ?thesis
    using spend_level [OF sp] by (auto simp: credit_def)
qed

lemma credit_acquire_loop:
  assumes "0 \<le> tokens_per_second (effective_rate dr rl)" and "\<And>k. 0 \<le> lag k"
    and "acquire_loop n dr wait name rl max_wait start lag now bs = Some (r, t, bs')"
  shows "now \<le> t \<and> credit t (effective_rate dr rl) name bs' + (if r = Inr True then 1 else 0)
    \<le> credit now (effective_rate dr rl) name bs + tokens_per_second (effective_rate dr rl) * (t - now)"
  using assms(3)
proof (induction n arbitrary: now bs)
  case (Suc n)
  let ?r = "effective_rate dr rl"
  obtain ok bs1 where c: "consume_tokens dr now name 1 rl bs = (ok, bs1)" by fastforce
  note spent = credit_consume [OF c]
  let ?s = "min wait (max_wait - (now - start))"
  let ?next = "now + ?s + lag n"
  show ?case
  proof (cases "ok \<or> max_wait \<le> now - start \<or> ?s < 0")
    case True
    with Suc.prems spent show ?thesis
      by (auto simp: acquire_loop_Suc [OF c] simp del: acquire_loop.simps split: if_splits)
  next
    case False
    have go: "acquire_loop n dr wait name rl max_wait start lag ?next bs1 = Some (r, t, bs')"
      using Suc.prems False by (simp add: acquire_loop_Suc [OF c] del: acquire_loop.simps)
    have le: "now \<le> ?next" using False assms(2) [of n] by auto
    have "credit ?next ?r name bs1 \<le> credit now ?r name bs1 + tokens_per_second ?r * (?next - now)"
      by (rule credit_time [OF assms(1) le])
    moreover have "credit now ?r name bs1 \<le> credit now ?r name bs" using spent False by simp
    moreover have "tokens_per_second ?r * (t - now) =
        tokens_per_second ?r * (t - ?next) + tokens_per_second ?r * (?next - now)"
      by (simp add: algebra_simps)
    ultimately show ?thesis using Suc.IH [OF go] le by linarith
  qed
qed simp

lemma credit_acquire:
  assumes "0 \<le> tokens_per_second (effective_rate dr rl)" and "\<And>k. 0 \<le> lag k"
    and "acquire_token dr name rl max_wait lag now bs = Some (r, t, bs')"
  shows "now \<le> t \<and> credit t (effective_rate dr rl) name bs' + (if r = Inr True then 1 else 0)
    \<le> credit now (effective_rate dr rl) name bs + tokens_per_second (effective_rate dr rl) * (t - now)"
proof (cases "tokens_per_second (effective_rate dr rl) = 0")
  case True
  with assms(3) show ?thesis by (auto simp: acquire_token_def)
next
  case False
  from assms(3) [unfolded acquire_token_eq [OF False]] show ?thesis
    by (rule credit_acquire_loop [OF assms(1,2)])
qed

subsection \<open>Properties\<close>

text \<open>C16: in any window of requests on one bucket, whatever rate its row had before, at most
  \<open>max(1, rate/60)\<close> (the burst the bucket can hold) plus rate/60 per elapsed second are
  granted: the limit of \<open>consume_tokens\<close> is a limit over every window, not on average.\<close>

theorem rate_limit_every_window:
  assumes "buckets_ok bs" and "0 \<le> tokens_per_second (effective_rate dr rl)"
    and "sorted (t # ts)"
    and "consume_run dr name rl (t # ts) bs = (granted, bs')"
  shows "of_nat granted \<le> max 1 (tokens_per_second (effective_rate dr rl)) +
           tokens_per_second (effective_rate dr rl) * (last (t # ts) - t)"
proof -
  let ?b = "bucket_at t (effective_rate dr rl) name bs"
  have "b_max_tokens ?b = max 1 (tokens_per_second (effective_rate dr rl))"
    using get_or_create_ok(1) [OF assms(1), of t "effective_rate dr rl" name]
    by (simp add: bucket_ok_def)
  then have "max 0 (refilled t ?b) \<le> max 1 (tokens_per_second (effective_rate dr rl))"
    using refilled_le_max [of t ?b] by simp
  then show ?thesis using consume_run_first [OF assms(2-4)] by linarith
qed

theorem rate_limit_every_window_witness:
  "\<exists>bs'. consume_run 6000 ''p'' (Some 120) [0, 0, 1/2, 1/2, 1] [] = (3, bs') \<and>
     of_nat 3 \<le> max 1 (tokens_per_second (effective_rate 6000 (Some 120))) +
       tokens_per_second (effective_rate 6000 (Some 120)) * (last [0::rat, 0, 1/2, 1/2, 1] - 0)"
proof -
  have run: "consume_run 6000 ''p'' (Some 120) [0, 0, 1/2, 1/2, 1] [] =
     (3, snd (consume_run 6000 ''p'' (Some 120) [0, 0, 1/2, 1/2, 1] []))"
    by (simp add: consume_tokens_def get_state_with_lock_def get_or_create_state_def refilled_def
        effective_rate_def tokens_per_second_def SECONDS_PER_MINUTE_def Let_def)
  show ?thesis
    by (rule exI, rule conjI [OF run], rule rate_limit_every_window [OF _ _ _ run])
      (simp_all add: buckets_ok_def effective_rate_def tokens_per_second_def SECONDS_PER_MINUTE_def)
qed

text \<open>A bucket that did not exist starts with a single token: from its first request on,
  no more than one plus the refill is granted, so a new execution does not open with a burst.\<close>

theorem new_bucket_no_burst:
  assumes "bucket_of name bs = None" and "0 \<le> tokens_per_second (effective_rate dr rl)"
    and "sorted (t # ts)"
    and "consume_run dr name rl (t # ts) bs = (granted, bs')"
  shows "of_nat granted \<le> 1 + tokens_per_second (effective_rate dr rl) * (last (t # ts) - t)"
proof -
  have "refilled t (bucket_at t (effective_rate dr rl) name bs) = 1"
    using assms(1) by (simp add: bucket_at_def get_or_create_state_def refilled_def Let_def)
  then show ?thesis using consume_run_first [OF assms(2-4)] by simp
qed

theorem new_bucket_no_burst_witness:
  "\<exists>bs'. consume_run 6000 ''p'' None [0, 0, 0, 1/100] [] = (2, bs') \<and>
     of_nat 2 \<le> 1 + tokens_per_second (effective_rate 6000 None) * (last [0::rat, 0, 0, 1/100] - 0)"
proof -
  have run: "consume_run 6000 ''p'' None [0, 0, 0, 1/100] [] =
     (2, snd (consume_run 6000 ''p'' None [0, 0, 0, 1/100] []))"
    by (simp add: consume_tokens_def get_state_with_lock_def get_or_create_state_def refilled_def
        effective_rate_def tokens_per_second_def SECONDS_PER_MINUTE_def Let_def)
  show ?thesis
    by (rule exI, rule conjI [OF run], rule new_bucket_no_burst [OF _ _ _ run])
      (simp_all add: effective_rate_def tokens_per_second_def SECONDS_PER_MINUTE_def)
qed

text \<open>C22: \<open>acquire_token\<close> always returns, for every rate (zero and negative ones raise, as
  in the code), every \<open>max_wait\<close>, and any non-negative lag of \<open>time.sleep\<close>; and when it
  answers no, the whole \<open>max_wait\<close> has passed.\<close>

theorem acquire_token_terminates:
  assumes "\<And>k. 0 \<le> lag k"
  shows "\<exists>res t bs'. acquire_token dr name rl max_wait lag now bs = Some (res, t, bs') \<and>
           (res = Inr False \<longrightarrow> max_wait \<le> t - now)"
proof -
  let ?r = "tokens_per_second (effective_rate dr rl)"
  have "\<exists>r. acquire_token dr name rl max_wait lag now bs = Some r"
  proof (cases "?r = 0")
    case True
    then show ?thesis by (simp add: acquire_token_def)
  next
    case False
    show ?thesis
    proof (cases "0 < ?r")
      case True
      have w: "0 < 1 / ?r" using True by simp
      have "\<exists>r. acquire_loop (acquire_fuel max_wait (1 / ?r)) dr (1 / ?r) name rl max_wait now lag now bs
          = Some r"
        by (rule acquire_loop_returns [OF w assms acquire_fuel_enough [OF w]])
      then show ?thesis by (simp only: acquire_token_eq [OF False])
    next
      case neg: False
      then have "1 / ?r < 0" using False by (simp add: divide_less_0_iff)
      moreover have "acquire_fuel max_wait (1 / ?r) = Suc (Suc (nat \<lceil>max_wait / (1 / ?r)\<rceil>))"
        by (simp add: acquire_fuel_def)
      ultimately show ?thesis
        using acquire_loop_negative by (simp only: acquire_token_eq [OF False])
    qed
  qed
  then obtain res t bs' where eq: "acquire_token dr name rl max_wait lag now bs = Some (res, t, bs')"
    by (metis prod.exhaust)
  moreover have "res = Inr False \<longrightarrow> max_wait \<le> t - now"
    using eq acquire_loop_refused by (auto simp: acquire_token_def Let_def split: if_splits)
  ultimately show ?thesis by blast
qed

theorem acquire_token_terminates_witness:
  "\<exists>res t bs'. acquire_token 6000 ''p'' (Some 1) 30 (\<lambda>_. 1/10) 0 [] = Some (res, t, bs') \<and>
     (res = Inr False \<longrightarrow> 30 \<le> t - 0)"
  by (rule acquire_token_terminates) simp

text \<open>Liveness of the limiter: with a positive rate, nobody else on the bucket and a
  \<open>max_wait\<close> of at least one token's time, \<open>acquire_token\<close> gets its token, within one
  token's time (plus the lag of that one sleep).\<close>

theorem acquire_token_granted:
  assumes "buckets_ok bs" and r: "0 < tokens_per_second (effective_rate dr rl)"
    and "1 / tokens_per_second (effective_rate dr rl) \<le> max_wait"
    and "\<And>b. b \<in> set bs \<Longrightarrow> b_last_update b \<le> now"
    and lag: "\<And>k. 0 \<le> lag k"
  shows "\<exists>t bs' k. acquire_token dr name rl max_wait lag now bs = Some (Inr True, t, bs') \<and>
           t \<le> now + 1 / tokens_per_second (effective_rate dr rl) + lag k"
proof -
  let ?w = "1 / tokens_per_second (effective_rate dr rl)"
  let ?b = "bucket_at now (effective_rate dr rl) name bs"
  obtain ok bs1 where c: "consume_tokens dr now name 1 rl bs = (ok, bs1)" by fastforce
  have w: "0 < ?w" using r by simp
  obtain n where fuel: "acquire_fuel max_wait ?w = Suc (Suc n)"
    by (simp add: acquire_fuel_def)
  have loop: "acquire_token dr name rl max_wait lag now bs =
      acquire_loop (Suc (Suc n)) dr ?w name rl max_wait now lag now bs"
    using r by (simp only: acquire_token_eq fuel less_irrefl not_False_eq_True less_imp_neq [THEN not_sym])
  show ?thesis
  proof (cases ok)
    case True
    have "now \<le> now + ?w + lag 0" using w lag [of 0] by simp
    with True show ?thesis
      by (auto simp: loop acquire_loop_Suc [OF c] simp del: acquire_loop.simps)
  next
    case False
    let ?t = "now + ?w + lag (Suc n)"
    have mw: "0 < max_wait" using w assms(3) by linarith
    have b: "bucket_ok ?b" "b_refill_rate ?b = tokens_per_second (effective_rate dr rl)"
      using get_or_create_ok(1) [OF assms(1)] by simp_all
    have "b_last_update ?b \<le> now"
      using assms(4) first_where_Some_iff
      by (fastforce simp: bucket_at_def get_or_create_state_def Let_def split: option.splits)
    then have ref: "1 \<le> refilled ?t ?b"
      using b r lag [of "Suc n"] by (intro refilled_after_wait [of _ now]) auto
    have row: "bucket_of name bs1 = Some ?b"
      using consume_own [OF c] False by (auto simp: spend_def split: if_splits)
    obtain ok2 bs2 where c2: "consume_tokens dr ?t name 1 rl bs1 = (ok2, bs2)" by fastforce
    have "ok2"
      using consume_own(2) [OF c2] ref bucket_at_same_rate [OF row b(2)] by (simp add: spend_def)
    moreover have "acquire_token dr name rl max_wait lag now bs =
        acquire_loop (Suc n) dr ?w name rl max_wait now lag ?t bs1"
      using False w mw assms(3) by (simp add: loop acquire_loop_Suc [OF c] min_def del: acquire_loop.simps)
    ultimately have "acquire_token dr name rl max_wait lag now bs = Some (Inr True, ?t, bs2)"
      by (simp add: acquire_loop_Suc [OF c2] del: acquire_loop.simps)
    then show ?thesis by blast
  qed
qed

theorem acquire_token_granted_witness:
  "\<exists>t bs' k. acquire_token 6000 ''p'' (Some 1) 300 (\<lambda>_. 1/10) 20
       [\<lparr>b_name = ''p'', b_tokens = 0, b_max_tokens = 1, b_refill_rate = 1/60, b_last_update = 20\<rparr>] =
       Some (Inr True, t, bs') \<and>
     t \<le> 20 + 1 / tokens_per_second (effective_rate 6000 (Some 1)) + (\<lambda>_. 1/10) (k::nat)"
  by (rule acquire_token_granted)
    (auto simp: buckets_ok_def bucket_ok_def effective_rate_def tokens_per_second_def
      SECONDS_PER_MINUTE_def)

end
