(* ===== verification/Dispatcher.thy ===== *)
theory Dispatcher
  imports Effects "HOL-Library.Sublist"
begin

text \<open>
  \<open>reflow_manager/dispatcher.py\<close> and \<open>reflow_manager/local_dispatcher.py\<close>. A batch is given
  its callbacks (\<open>should_stop\<close>, \<open>on_sent\<close>, \<open>on_unsendable\<close>) and uses a rate limiter, a Kafka
  producer or an executor, and the log; a \<open>port\<close> holds these. The producer is outside
  the repository: \<open>p_send\<close> says how one send came out.
\<close>

datatype send_result = Sent | TooLarge string | BrokerError

record ('p, 's) port =
  p_stop :: "(bool \<Rightarrow> ('s, bool) step) option"
  p_token :: "('s, bool) step"
  p_send :: "'p \<Rightarrow> ('s, send_result) step"
  p_on_sent :: "('p \<Rightarrow> ('s, unit) step) option"
  p_on_unsendable :: "('p \<Rightarrow> string \<Rightarrow> ('s, unit) step) option"
  p_log_unsendable :: "'p \<Rightarrow> string \<Rightarrow> 's \<Rightarrow> 's"

text \<open>\<open>should_stop and should_stop(chunk)\<close>; \<open>if on_sent: on_sent(job)\<close>.\<close>

definition ask_stop :: "('p, 's) port \<Rightarrow> bool \<Rightarrow> ('s, bool) step" where
  "ask_stop k chunk = (case p_stop k of None \<Rightarrow> return_step False | Some f \<Rightarrow> f chunk)"

definition tell_sent :: "('p, 's) port \<Rightarrow> 'p \<Rightarrow> ('s, unit) step" where
  "tell_sent k job = (case p_on_sent k of None \<Rightarrow> return_step () | Some f \<Rightarrow> f job)"

definition too_large_reason :: "string \<Rightarrow> string" where
  "too_large_reason e =
     ''The job message is too large for Kafka ('' @ e @ ''). Records travel inside the message: use fewer records per job, or a source that re-fetches on the worker.''"

text \<open>\<open>if cond: break\<close> and \<open>if not cond: break\<close>.\<close>

definition break_if :: "('s, bool) step \<Rightarrow> 'a \<Rightarrow> ('s, 'a) step \<Rightarrow> ('s, 'a) step" where
  "break_if cond result rest = bind_step cond (\<lambda>b. if b then return_step result else rest)"

definition break_unless :: "('s, bool) step \<Rightarrow> 'a \<Rightarrow> ('s, 'a) step \<Rightarrow> ('s, 'a) step" where
  "break_unless cond result rest = bind_step cond (\<lambda>b. if b then rest else return_step result)"

text \<open>The \<open>try\<close> statement of the loop: \<open>go_on\<close> is the rest of the loop, from the count it is given.\<close>

definition after_send ::
  "('p, 's) port \<Rightarrow> 'p \<Rightarrow> nat \<Rightarrow> (nat \<Rightarrow> ('s, nat) step) \<Rightarrow> send_result \<Rightarrow> ('s, nat) step" where
  "after_send k job dispatched go_on outcome =
     (case outcome of
        Sent \<Rightarrow> bind_step (tell_sent k job) (\<lambda>_. go_on (dispatched + 1))
      | TooLarge e \<Rightarrow>
          bind_step (write_step (p_log_unsendable k job (too_large_reason e))) (\<lambda>_.
          case p_on_unsendable k of
            None \<Rightarrow> return_step dispatched
          | Some f \<Rightarrow> bind_step (f job (too_large_reason e)) (\<lambda>_. go_on dispatched))
      | BrokerError \<Rightarrow> return_step dispatched)"

fun kafka_loop :: "('p, 's) port \<Rightarrow> 'p list \<Rightarrow> nat \<Rightarrow> ('s, nat) step" where
  "kafka_loop k [] dispatched = return_step dispatched"
| "kafka_loop k (job # jobs) dispatched =
     break_if (ask_stop k True) dispatched
       (break_unless (p_token k) dispatched
         (break_if (ask_stop k False) dispatched
           (bind_step (p_send k job) (after_send k job dispatched (\<lambda>n. kafka_loop k jobs n)))))"

definition kafka_dispatch_jobs_batch :: "('p, 's) port \<Rightarrow> 'p list \<Rightarrow> ('s, nat) step" where
  "kafka_dispatch_jobs_batch k jobs = kafka_loop k jobs 0"

text \<open>One job: a single \<open>consume_tokens\<close> decides, a broker error is a refusal. The too-large
  error is one of aiokafka's \<open>KafkaError\<close>s.\<close>

definition kafka_dispatch_job :: "('s, bool) step \<Rightarrow> ('p \<Rightarrow> ('s, send_result) step) \<Rightarrow> 'p \<Rightarrow> ('s, bool) step" where
  "kafka_dispatch_job consume send job =
     bind_step consume (\<lambda>ok.
     if \<not> ok then return_step False
     else bind_step (send job) (\<lambda>outcome. return_step (outcome = Sent)))"

subsection \<open>The local dispatcher\<close>

text \<open>\<open>execute_job\<close> is \<open>exec\<close>; an exception it raises is logged and the job still counts.
  \<open>token\<close> is given when there is a rate limit.\<close>

fun local_loop ::
  "(bool \<Rightarrow> ('s, bool) step) option \<Rightarrow> ('s, bool) step option \<Rightarrow> ('p \<Rightarrow> ('s, bool) step) \<Rightarrow>
     ('p \<Rightarrow> ('s, unit) step) option \<Rightarrow> 'p list \<Rightarrow> nat \<Rightarrow> ('s, nat) step" where
  "local_loop stop token exec on_sent [] dispatched = return_step dispatched"
| "local_loop stop token exec on_sent (job # jobs) dispatched =
     break_if (case stop of None \<Rightarrow> return_step False | Some f \<Rightarrow> f True) dispatched
       (break_unless (case token of None \<Rightarrow> return_step True | Some t \<Rightarrow> t) dispatched
         (bind_step (try_step (exec job) (\<lambda>_. True) (\<lambda>_. return_step False)) (\<lambda>_.
          bind_step (case on_sent of None \<Rightarrow> return_step () | Some f \<Rightarrow> f job) (\<lambda>_.
          local_loop stop token exec on_sent jobs (dispatched + 1)))))"

definition local_dispatch_jobs_batch ::
  "(bool \<Rightarrow> ('s, bool) step) option \<Rightarrow> ('s, bool) step option \<Rightarrow> ('p \<Rightarrow> ('s, bool) step) \<Rightarrow>
     ('p \<Rightarrow> ('s, unit) step) option \<Rightarrow> ('s, unit) step \<Rightarrow> 'p list \<Rightarrow> ('s, nat) step" where
  "local_dispatch_jobs_batch stop token exec on_sent close jobs =
     finally_step (local_loop stop token exec on_sent jobs 0) close"

definition local_dispatch_job ::
  "('s, bool) step option \<Rightarrow> ('p \<Rightarrow> ('s, bool) step) \<Rightarrow> ('s, unit) step \<Rightarrow> 'p \<Rightarrow> ('s, bool) step" where
  "local_dispatch_job token exec close job =
     bind_step (case token of None \<Rightarrow> return_step True | Some t \<Rightarrow> t) (\<lambda>got.
     if \<not> got then return_step False else
     finally_step (try_step (bind_step (exec job) (\<lambda>_. return_step True)) (\<lambda>_. True) (\<lambda>_. return_step False))
       close)"

subsection \<open>What a batch does, for any client\<close>

lemma break_ifE:
  assumes "break_if cond x rest s = (r, s')"
  obtains (raised) e where "cond s = (Inl e, s')" "r = Inl e"
    | (broke) "cond s = (Inr True, s')" "r = Inr x"
    | (on) s1 where "cond s = (Inr False, s1)" "rest s1 = (r, s')"
  using assms unfolding break_if_def by (elim bind_stepE) (auto split: if_splits)

lemma break_unlessE:
  assumes "break_unless cond x rest s = (r, s')"
  obtains (raised) e where "cond s = (Inl e, s')" "r = Inl e"
    | (broke) "cond s = (Inr False, s')" "r = Inr x"
    | (on) s1 where "cond s = (Inr True, s1)" "rest s1 = (r, s')"
  using assms unfolding break_unless_def by (elim bind_stepE) (auto split: if_splits)

lemma moves_breaks [steps]:
  assumes "reflp R" and "transp R" and "moves R cond" and "moves R rest"
  shows "moves R (break_if cond x rest)" and "moves R (break_unless cond x rest)"
  using assms unfolding break_if_def break_unless_def by (auto intro!: steps)

lemma kafka_loop_moves:
  assumes "reflp R" and "transp R"
    and "\<And>c. moves R (ask_stop k c)" and "moves R (p_token k)" and "\<And>j. moves R (p_send k j)"
    and "\<And>j. moves R (tell_sent k j)" and "\<And>j m s. R s (p_log_unsendable k j m s)"
    and "\<And>f j m. p_on_unsendable k = Some f \<Longrightarrow> moves R (f j m)"
  shows "moves R (kafka_loop k jobs n)"
proof (induction jobs arbitrary: n)
  case (Cons j js)
  have "moves R (after_send k j n (\<lambda>n. kafka_loop k js n) outcome)" for outcome
    unfolding after_send_def
    by (cases outcome)
      (simp_all add: assms Cons moves_bind moves_write moves_return moves_option split: option.split)
  then show ?case unfolding kafka_loop.simps
    by (intro moves_breaks moves_bind assms(1-6))
qed (simp add: assms(1) moves_return del: return_step_simp)

text \<open>
  The contract between a batch and its surroundings: two observers of the state, the
  messages sent and the jobs logged as unsendable, that only a successful send and the
  log record extend.
\<close>

definition same_logs :: "('s \<Rightarrow> 'p list) \<Rightarrow> ('s \<Rightarrow> 'p list) \<Rightarrow> 's \<Rightarrow> 's \<Rightarrow> bool" where
  "same_logs sent refused s s' \<longleftrightarrow> sent s' = sent s \<and> refused s' = refused s"

text \<open>A prefix of the jobs was handled, in order: those sent and those refused interleave to it.\<close>

definition handled ::
  "('s \<Rightarrow> 'p list) \<Rightarrow> ('s \<Rightarrow> 'p list) \<Rightarrow> 'p list \<Rightarrow> nat \<Rightarrow> 's \<Rightarrow> py_error + nat \<Rightarrow> 's \<Rightarrow> bool" where
  "handled sent refused jobs n s r s' \<longleftrightarrow> (\<exists>fin out bad. prefix fin jobs \<and> fin \<in> shuffles out bad \<and>
     sent s' = sent s @ out \<and> refused s' = refused s @ bad \<and> (\<forall>m. r = Inr m \<longrightarrow> m = n + length out))"

lemma handled_none:
  "same_logs sent refused s s' \<Longrightarrow> (\<And>m. r = Inr m \<Longrightarrow> m = n) \<Longrightarrow> handled sent refused jobs n s r s'"
  unfolding handled_def same_logs_def by (intro exI [of _ "[]"]) auto

lemma handled_before:
  "same_logs sent refused s s1 \<Longrightarrow> handled sent refused jobs n s1 r s' \<Longrightarrow> handled sent refused jobs n s r s'"
  by (simp add: handled_def same_logs_def)

lemma handled_sent:
  assumes "sent s1 = sent s @ [j]" and "refused s1 = refused s"
    and "handled sent refused js (n + 1) s1 r s'"
  shows "handled sent refused (j # js) n s r s'"
proof -
  obtain fin out bad where "prefix fin js" "fin \<in> shuffles out bad" "sent s' = sent s1 @ out"
    "refused s' = refused s1 @ bad" "\<forall>m. r = Inr m \<longrightarrow> m = n + 1 + length out"
    using assms(3) unfolding handled_def by blast
  with assms(1,2) show ?thesis unfolding handled_def
    by (intro exI [of _ "j # fin"] exI [of _ "j # out"] exI [of _ bad] conjI)
      (simp_all add: Cons_in_shuffles_leftI)
qed

lemma handled_refused:
  assumes "sent s1 = sent s" and "refused s1 = refused s @ [j]"
    and "handled sent refused js n s1 r s'"
  shows "handled sent refused (j # js) n s r s'"
proof -
  obtain fin out bad where "prefix fin js" "fin \<in> shuffles out bad" "sent s' = sent s1 @ out"
    "refused s' = refused s1 @ bad" "\<forall>m. r = Inr m \<longrightarrow> m = n + length out"
    using assms(3) unfolding handled_def by blast
  with assms(1,2) show ?thesis unfolding handled_def
    by (intro exI [of _ "j # fin"] exI [of _ out] exI [of _ "j # bad"] conjI)
      (simp_all add: Cons_in_shuffles_rightI)
qed

locale sending =
  fixes k :: "('p, 's) port" and sent :: "'s \<Rightarrow> 'p list" and refused :: "'s \<Rightarrow> 'p list"
  assumes send_ok: "p_send k j s = (Inr Sent, s') \<Longrightarrow> sent s' = sent s @ [j] \<and> refused s' = refused s"
    and send_fail: "p_send k j s = (r, s') \<Longrightarrow> r \<noteq> Inr Sent \<Longrightarrow> same_logs sent refused s s'"
    and quiet_ask: "ask_stop k c s = (r1, s') \<Longrightarrow> same_logs sent refused s s'"
    and quiet_token: "p_token k s = (r1, s') \<Longrightarrow> same_logs sent refused s s'"
    and quiet_told: "tell_sent k j s = (r2, s') \<Longrightarrow> same_logs sent refused s s'"
    and quiet_reject: "p_on_unsendable k = Some f \<Longrightarrow> f j m s = (r2, s') \<Longrightarrow> same_logs sent refused s s'"
    and logged: "sent (p_log_unsendable k j m s) = sent s \<and>
      refused (p_log_unsendable k j m s) = refused s @ [j]"
begin

abbreviation ok :: "'p list \<Rightarrow> nat \<Rightarrow> 's \<Rightarrow> py_error + nat \<Rightarrow> 's \<Rightarrow> bool" where
  "ok \<equiv> handled sent refused"

lemma outcome_handled:
  assumes IH: "\<And>n s r s'. go n s = (r, s') \<Longrightarrow> ok js n s r s'"
    and send: "p_send k j s = (Inr outcome, s1)"
    and rest: "after_send k j n go outcome s1 = (r, s')"
  shows "ok (j # js) n s r s'"
proof (cases outcome)
  case Sent
  with rest have "bind_step (tell_sent k j) (\<lambda>_. go (n + 1)) s1 = (r, s')" by (simp add: after_send_def)
  then have "ok js (n + 1) s1 r s'"
    by (elim bind_stepE) (auto intro: handled_none quiet_told handled_before [OF quiet_told IH])
  with send_ok send Sent show ?thesis by (blast intro: handled_sent)
next
  case (TooLarge e)
  let ?s2 = "p_log_unsendable k j (too_large_reason e) s1"
  have s1: "sent s1 = sent s" "refused s1 = refused s"
    using send_fail [OF send] TooLarge by (auto simp: same_logs_def)
  have s2: "sent ?s2 = sent s" "refused ?s2 = refused s @ [j]" using logged s1 by auto
  have "ok js n ?s2 r s'"
  proof (cases "p_on_unsendable k")
    case None
    with rest TooLarge show ?thesis
      by (intro handled_none) (auto simp: bind_step_def after_send_def same_logs_def)
  next
    case (Some f)
    with rest TooLarge have "bind_step (f j (too_large_reason e)) (\<lambda>_. go n) ?s2 = (r, s')"
      by (simp add: bind_step_def after_send_def)
    then show ?thesis
      by (elim bind_stepE)
        (auto intro: handled_none quiet_reject [OF Some] handled_before [OF quiet_reject [OF Some] IH])
  qed
  then show ?thesis by (rule handled_refused [OF s2])
next
  case BrokerError
  with rest send_fail [OF send] show ?thesis by (intro handled_none) (auto simp: after_send_def)
qed

lemma loop_handled: "kafka_loop k jobs n s = (r, s') \<Longrightarrow> ok jobs n s r s'"
proof (induction jobs arbitrary: n s r s')
  case Nil
  then show ?case by (intro handled_none) (auto simp: same_logs_def)
next
  case (Cons j js)
  have send: "bind_step (p_send k j) (after_send k j n (\<lambda>n. kafka_loop k js n)) s3 = (r, s') \<Longrightarrow>
      ok (j # js) n s3 r s'" for s3
    by (erule bind_stepE) (auto intro: handled_none send_fail outcome_handled Cons.IH)
  have last: "break_if (ask_stop k False) n (bind_step (p_send k j)
        (after_send k j n (\<lambda>n. kafka_loop k js n))) s2 = (r, s') \<Longrightarrow> ok (j # js) n s2 r s'" for s2
    by (erule break_ifE) (auto intro: handled_none quiet_ask handled_before [OF quiet_ask send])
  have token: "break_unless (p_token k) n (break_if (ask_stop k False) n (bind_step (p_send k j)
        (after_send k j n (\<lambda>n. kafka_loop k js n)))) s1 = (r, s') \<Longrightarrow> ok (j # js) n s1 r s'" for s1
    by (erule break_unlessE) (auto intro: handled_none quiet_token handled_before [OF quiet_token last])
  from Cons.prems show ?case unfolding kafka_loop.simps
    by (rule break_ifE) (auto intro: handled_none quiet_ask handled_before [OF quiet_ask token])
qed

end

text \<open>The contract with a meter \<open>m\<close> under an invariant: a token granted lowers it by
  \<open>price\<close>, the report of a send raises it by \<open>gain\<close> at most, nothing else raises it.\<close>

locale metered_sending = sending +
  fixes I :: "'b \<Rightarrow> bool" and m :: "'b \<Rightarrow> rat" and price :: rat and gain :: rat
  assumes price: "0 \<le> price" and gain: "0 \<le> gain"
    and calm_ask: "I s \<Longrightarrow> ask_stop k c s = (r1, s') \<Longrightarrow> I s' \<and> m s' \<le> m s"
    and calm_token: "I s \<Longrightarrow> p_token k s = (r1, s') \<Longrightarrow>
      I s' \<and> m s' \<le> m s - (if r1 = Inr True then price else 0)"
    and calm_send: "I s \<Longrightarrow> p_send k j s = (r, s') \<Longrightarrow> I s' \<and> m s' \<le> m s"
    and calm_told: "I s \<Longrightarrow> tell_sent k j s = (r2, s') \<Longrightarrow> I s' \<and> m s' \<le> m s + gain"
    and calm_reject: "I s \<Longrightarrow> p_on_unsendable k = Some f \<Longrightarrow> f j e s = (r2, s') \<Longrightarrow> I s' \<and> m s' \<le> m s"
    and calm_log: "I s \<Longrightarrow> I (p_log_unsendable k j e s) \<and> m (p_log_unsendable k j e s) \<le> m s"
begin

text \<open>The meter moves by at most \<open>gain - price\<close> per message sent, plus the \<open>extra\<close> of a
  token in hand.\<close>

definition metered :: "rat \<Rightarrow> 'b \<Rightarrow> 'b \<Rightarrow> bool" where
  "metered extra s s' \<longleftrightarrow> I s' \<and>
     m s' \<le> m s + extra + (gain - price) * (of_nat (length (sent s')) - of_nat (length (sent s)))"

lemma metered_still: "I s' \<Longrightarrow> m s' \<le> m s \<Longrightarrow> same_logs sent refused s s' \<Longrightarrow> 0 \<le> x \<Longrightarrow> metered x s s'"
  by (simp add: metered_def same_logs_def)

lemma metered_before: "m s1 \<le> m s + d \<Longrightarrow> same_logs sent refused s s1 \<Longrightarrow> metered x s1 s' \<Longrightarrow> metered (x + d) s s'"
  by (auto simp: metered_def same_logs_def)

lemma metered_more: "metered x s s' \<Longrightarrow> x \<le> y \<Longrightarrow> metered y s s'"
  by (auto simp: metered_def)

lemma metered_after_send:
  assumes IH: "\<And>n s r s'. I s \<Longrightarrow> go n s = (r, s') \<Longrightarrow> metered 0 s s'"
    and "I s" and send: "p_send k j s = (Inr outcome, s1)"
    and rest: "after_send k j n go outcome s1 = (r, s')"
  shows "metered price s s'"
proof (cases outcome)
  case Sent
  with rest have go: "bind_step (tell_sent k j) (\<lambda>_. go (n + 1)) s1 = (r, s')"
    by (simp add: after_send_def)
  have s1: "I s1" "m s1 \<le> m s" "sent s1 = sent s @ [j]"
    using calm_send [OF assms(2) send] send_ok send Sent by auto
  from go have "metered gain s1 s'"
  proof (cases rule: bind_stepE)
    case (raised e)
    with calm_told [OF s1(1)] quiet_told show ?thesis
      by (fastforce simp: metered_def same_logs_def)
  next
    case (returned x s2)
    have "metered (0 + gain) s1 s'"
      using calm_told [OF s1(1) returned(1)]
      by (intro metered_before [OF _ quiet_told [OF returned(1)] IH [OF _ returned(2)]]) auto
    then show ?thesis by simp
  qed
  then show ?thesis
    using s1 by (simp add: metered_def algebra_simps)
next
  case (TooLarge e)
  let ?s2 = "p_log_unsendable k j (too_large_reason e) s1"
  have s1: "I s1" "m s1 \<le> m s" "same_logs sent refused s s1"
    using calm_send [OF assms(2) send] send_fail [OF send] TooLarge by auto
  have s2: "I ?s2" "m ?s2 \<le> m s" "sent ?s2 = sent s"
    using calm_log [OF s1(1), of j "too_large_reason e"] s1 logged [of j "too_large_reason e" s1]
    by (auto simp: same_logs_def)
  have "metered 0 ?s2 s'"
  proof (cases "p_on_unsendable k")
    case None
    with rest TooLarge s2(1) show ?thesis by (auto simp: bind_step_def after_send_def metered_def)
  next
    case (Some f)
    with rest TooLarge have "bind_step (f j (too_large_reason e)) (\<lambda>_. go n) ?s2 = (r, s')"
      by (simp add: bind_step_def after_send_def)
    then show ?thesis
    proof (cases rule: bind_stepE)
      case (raised e')
      then show ?thesis
        using calm_reject [OF s2(1) Some] quiet_reject [OF Some] by (intro metered_still) auto
    next
      case (returned x s3)
      have "metered (0 + 0) ?s2 s'"
        using calm_reject [OF s2(1) Some returned(1)]
        by (intro metered_before [OF _ quiet_reject [OF Some returned(1)] IH [OF _ returned(2)]]) auto
      then show ?thesis by simp
    qed
  qed
  then show ?thesis using s2 price by (simp add: metered_def)
next
  case BrokerError
  with rest calm_send [OF assms(2) send] send_fail [OF send] price show ?thesis
    by (intro metered_still) (auto simp: after_send_def)
qed

lemma loop_metered: "I s \<Longrightarrow> kafka_loop k jobs n s = (r, s') \<Longrightarrow> metered 0 s s'"
proof (induction jobs arbitrary: n s r s')
  case Nil
  then show ?case by (simp add: metered_def)
next
  case (Cons j js)
  let ?send = "bind_step (p_send k j) (after_send k j n (\<lambda>n. kafka_loop k js n))"
  let ?last = "break_if (ask_stop k False) n ?send"
  have send: "metered price s3 s'" if "I s3" and "?send s3 = (r, s')" for s3
    using that(2)
  proof (cases rule: bind_stepE)
    case (raised e)
    with calm_send [OF that(1)] send_fail price show ?thesis by (intro metered_still) auto
  next
    case (returned x s4)
    show ?thesis by (rule metered_after_send [OF _ that(1) returned(1) returned(2)]) (rule Cons.IH)
  qed
  have last: "metered price s2 s'" if "I s2" and "?last s2 = (r, s')" for s2
    using that(2)
  proof (cases rule: break_ifE)
    case (on s3)
    have "metered (price + 0) s2 s'"
      using calm_ask [OF that(1) on(1)]
      by (intro metered_before [OF _ quiet_ask [OF on(1)] send [OF _ on(2)]]) auto
    then show ?thesis by simp
  qed (use calm_ask [OF that(1)] quiet_ask price in \<open>blast intro: metered_still\<close>)+
  have token: "metered 0 s1 s'" if "I s1" and "break_unless (p_token k) n ?last s1 = (r, s')" for s1
    using that(2)
  proof (cases rule: break_unlessE)
    case (raised e)
    with calm_token [OF that(1)] quiet_token show ?thesis by (fastforce intro: metered_still)
  next
    case broke
    with calm_token [OF that(1)] quiet_token show ?thesis by (fastforce intro: metered_still)
  next
    case (on s2)
    have "metered (price + - price) s1 s'"
      using calm_token [OF that(1) on(1)]
      by (intro metered_before [OF _ quiet_token [OF on(1)] last [OF _ on(2)]]) auto
    then show ?thesis by simp
  qed
  from Cons.prems(2) show ?case unfolding kafka_loop.simps
  proof (cases rule: break_ifE)
    case (on s1)
    have "metered (0 + 0) s s'"
      using calm_ask [OF Cons.prems(1) on(1)]
      by (intro metered_before [OF _ quiet_ask [OF on(1)] token [OF _ on(2)]]) auto
    then show ?thesis by simp
  qed (use calm_ask [OF Cons.prems(1)] quiet_ask in \<open>blast intro: metered_still\<close>)+
qed

end

end
