(* ===== verification/DriverLease.thy ===== *)
theory DriverLease
  imports ExecutionStore
begin

text \<open>
  The contract of an exclusive, expiring lease (locale \<open>lease\<close>), what its clients -- the
  dispatch loop, the planner and crash recovery -- rely on, and the proof that the row
  lease of \<open>ExecutionManager\<close> keeps the contract (the interpretation \<open>driver\<close>).
\<close>

datatype 'd lease_op = Claim time 'd | Beat time 'd | Release 'd

fun op_driver :: "'d lease_op \<Rightarrow> 'd" where
  "op_driver (Claim t d) = d"
| "op_driver (Beat t d) = d"
| "op_driver (Release d) = d"

fun op_before :: "time \<Rightarrow> 'd lease_op \<Rightarrow> bool" where
  "op_before u (Claim t d) = (t \<le> u)"
| "op_before u (Beat t d) = (t \<le> u)"
| "op_before u (Release d) = True"

fun is_claim :: "'d lease_op \<Rightarrow> bool" where
  "is_claim (Claim t d) = True"
| "is_claim (Beat t d) = False"
| "is_claim (Release d) = False"

text \<open>Running operations from any drivers in the order the database serialises them, with
  the answers they get; a release answers nothing, recorded as \<open>False\<close>.\<close>

fun lease_run ::
  "(time \<Rightarrow> 'd \<Rightarrow> 's \<Rightarrow> bool \<times> 's) \<Rightarrow> (time \<Rightarrow> 'd \<Rightarrow> 's \<Rightarrow> bool \<times> 's) \<Rightarrow> ('d \<Rightarrow> 's \<Rightarrow> 's) \<Rightarrow>
     'd lease_op list \<Rightarrow> 's \<Rightarrow> ('d lease_op \<times> bool) list \<times> 's" where
  "lease_run claim beat release [] s = ([], s)"
| "lease_run claim beat release (op # ops) s =
     (let (ok, s1) = (case op of Claim t d \<Rightarrow> claim t d s
                      | Beat t d \<Rightarrow> beat t d s
                      | Release d \<Rightarrow> (False, release d s));
          (oks, s2) = lease_run claim beat release ops s1
      in ((op, ok) # oks, s2))"

locale lease =
  fixes claim :: "time \<Rightarrow> 'd \<Rightarrow> 's \<Rightarrow> bool \<times> 's"
    and beat :: "time \<Rightarrow> 'd \<Rightarrow> 's \<Rightarrow> bool \<times> 's"
    and release :: "'d \<Rightarrow> 's \<Rightarrow> 's"
    and holder :: "'s \<Rightarrow> ('d \<times> time) option"
    and invar :: "'s \<Rightarrow> bool"
    and ttl :: rat
  assumes claim_answer: "invar s \<Longrightarrow> fst (claim t d s) \<longleftrightarrow>
      (case holder s of None \<Rightarrow> True | Some (d', h) \<Rightarrow> d' = d \<or> h + ttl < t)"
    and claim_holder: "invar s \<Longrightarrow>
      holder (snd (claim t d s)) = (if fst (claim t d s) then Some (d, t) else holder s)"
    and beat_answer: "invar s \<Longrightarrow> fst (beat t d s) \<longleftrightarrow> (\<exists>h. holder s = Some (d, h))"
    and beat_holder: "invar s \<Longrightarrow>
      holder (snd (beat t d s)) = (if fst (beat t d s) then Some (d, t) else holder s)"
    and release_holder: "invar s \<Longrightarrow> holder (release d s) =
      (case holder s of None \<Rightarrow> None | Some (d', h) \<Rightarrow> if d' = d then None else Some (d', h))"
    and invar_claim: "invar s \<Longrightarrow> invar (snd (claim t d s))"
    and invar_beat: "invar s \<Longrightarrow> invar (snd (beat t d s))"
    and invar_release: "invar s \<Longrightarrow> invar (release d s)"
begin

abbreviation run where "run \<equiv> lease_run claim beat release"

lemma other_op_keeps_holder:
  assumes "invar s" and "holder s = Some (d, h)" and "op_driver op \<noteq> d" and "op_before (h + ttl) op"
    and "(case op of Claim t d' \<Rightarrow> claim t d' s | Beat t d' \<Rightarrow> beat t d' s
          | Release d' \<Rightarrow> (False, release d' s)) = (ok, s1)"
  shows "\<not> ok \<and> invar s1 \<and> holder s1 = Some (d, h)"
proof (cases op)
  case (Claim t d')
  have "\<not> fst (claim t d' s)"
    using assms(2-4) Claim by (simp add: claim_answer [OF assms(1)])
  with assms Claim show ?thesis
    using claim_holder [OF assms(1), of t d'] invar_claim [OF assms(1), of t d'] by simp
next
  case (Beat t d')
  have "\<not> fst (beat t d' s)"
    using assms(2,3) Beat by (simp add: beat_answer [OF assms(1)])
  with assms Beat show ?thesis
    using beat_holder [OF assms(1), of t d'] invar_beat [OF assms(1), of t d'] by simp
next
  case (Release d')
  with assms show ?thesis
    using release_holder [OF assms(1), of d'] invar_release [OF assms(1), of d'] by auto
qed

text \<open>While the heartbeat is fresh, nobody else gets a yes and the holder stays the holder.\<close>

lemma exclusive:
  assumes "invar s" and "holder s = Some (d, h)"
    and "\<forall>op \<in> set ops. op_driver op \<noteq> d \<and> op_before (h + ttl) op"
    and "run ops s = (oks, s')"
  shows "(\<forall>(op, ok) \<in> set oks. \<not> ok) \<and> holder s' = Some (d, h)"
  using assms
proof (induction ops arbitrary: s oks)
  case (Cons op ops)
  obtain ok s1 where step: "(case op of Claim t d' \<Rightarrow> claim t d' s | Beat t d' \<Rightarrow> beat t d' s
          | Release d' \<Rightarrow> (False, release d' s)) = (ok, s1)" by fastforce
  obtain oks1 where rest: "run ops s1 = (oks1, s')" and oks: "oks = (op, ok) # oks1"
    using Cons.prems(4) step by (auto split: prod.splits)
  have one: "\<not> ok \<and> invar s1 \<and> holder s1 = Some (d, h)"
    using Cons.prems(3) by (intro other_op_keeps_holder [OF Cons.prems(1,2) _ _ step]) auto
  then have "(\<forall>(op, ok) \<in> set oks1. \<not> ok) \<and> holder s' = Some (d, h)"
    using Cons.prems(3) rest by (intro Cons.IH) auto
  with one oks show ?case by auto
qed simp

text \<open>Once another driver's claim was answered yes, the old holder's heartbeat is answered no
  for as long as it does not claim again: a replaced loop finds out and stops.\<close>

definition lost :: "'d \<Rightarrow> 's \<Rightarrow> bool" where
  "lost d s \<longleftrightarrow> (case holder s of None \<Rightarrow> True | Some (d', h) \<Rightarrow> d' \<noteq> d)"

lemma lost_beat: "invar s \<Longrightarrow> lost d s \<Longrightarrow> \<not> fst (beat t d s)"
  by (auto simp: beat_answer lost_def)

lemma lost_step:
  assumes "invar s" and "lost d s \<or> (ok \<and> is_claim op)" and "op_driver op = d \<Longrightarrow> \<not> is_claim op"
    and "(case op of Claim t d' \<Rightarrow> claim t d' s | Beat t d' \<Rightarrow> beat t d' s
          | Release d' \<Rightarrow> (False, release d' s)) = (ok, s1)"
  shows "invar s1 \<and> lost d s1"
proof (cases op)
  case (Claim t d')
  with assms show ?thesis
    using claim_holder [OF assms(1), of t d'] invar_claim [OF assms(1), of t d']
    by (auto simp: lost_def split: if_splits)
next
  case (Beat t d')
  with assms show ?thesis
    using beat_holder [OF assms(1), of t d'] invar_beat [OF assms(1), of t d']
      beat_answer [OF assms(1), of t d'] by (auto simp: lost_def split: if_splits option.splits)
next
  case (Release d')
  with assms show ?thesis
    using release_holder [OF assms(1), of d'] invar_release [OF assms(1), of d']
    by (auto simp: lost_def split: option.splits prod.splits if_splits)
qed

lemma invar_step:
  assumes "invar s"
    and "(case op of Claim t d' \<Rightarrow> claim t d' s | Beat t d' \<Rightarrow> beat t d' s
          | Release d' \<Rightarrow> (False, release d' s)) = (ok, s1)"
  shows "invar s1"
  using assms(2) invar_claim [OF assms(1)] invar_beat [OF assms(1)] invar_release [OF assms(1)]
  by (cases op) (auto, (metis snd_conv)+)

lemma replaced:
  assumes "invar s" and "run ops s = (oks, s')"
    and "\<forall>op \<in> set ops. op_driver op = d \<longrightarrow> \<not> is_claim op"
    and "lost d s \<or> (\<exists>op. (op, True) \<in> set oks \<and> is_claim op)"
  shows "invar s' \<and> lost d s'"
  using assms
proof (induction ops arbitrary: s oks)
  case (Cons op ops)
  obtain ok s1 where step: "(case op of Claim t d' \<Rightarrow> claim t d' s | Beat t d' \<Rightarrow> beat t d' s
          | Release d' \<Rightarrow> (False, release d' s)) = (ok, s1)" by fastforce
  obtain oks1 where rest: "run ops s1 = (oks1, s')" and oks: "oks = (op, ok) # oks1"
    using Cons.prems(2) step by (auto split: prod.splits)
  have inv: "invar s1" by (rule invar_step [OF Cons.prems(1) step])
  have "lost d s1 \<or> (\<exists>op. (op, True) \<in> set oks1 \<and> is_claim op)"
  proof (cases "lost d s \<or> (ok \<and> is_claim op)")
    case True
    with Cons.prems(3) have "invar s1 \<and> lost d s1"
      by (intro lost_step [OF Cons.prems(1) _ _ step]) auto
    then show ?thesis by blast
  next
    case False
    with Cons.prems(4) oks show ?thesis by auto
  qed
  with Cons.prems(3) show ?case by (intro Cons.IH [OF inv rest]) auto
qed auto

end

subsection \<open>The execution row keeps the contract\<close>

definition row_holder :: "string \<Rightarrow> executions \<Rightarrow> (string \<times> time) option" where
  "row_holder eid tbl =
     (case get_execution eid tbl of None \<Rightarrow> None
      | Some e \<Rightarrow> (case (e_driver_id e, e_driver_heartbeat e) of
           (Some d, Some h) \<Rightarrow> Some (d, h) | _ \<Rightarrow> None))"

definition lease_row_ok :: "string \<Rightarrow> executions \<Rightarrow> bool" where
  "lease_row_ok eid tbl \<longleftrightarrow> count_where (by_id eid) tbl = 1 \<and>
     (\<forall>e \<in> set tbl. (e_driver_id e = None) = (e_driver_heartbeat e = None))"

lemma count_row:
  "count_where (by_id eid) tbl = 1 \<Longrightarrow> get_execution eid tbl = Some e \<Longrightarrow>
   count_where (\<lambda>e. by_id eid e \<and> P e) tbl = (if P e then 1 else 0)"
proof (induction tbl)
  case (Cons r tbl)
  show ?case
  proof (cases "by_id eid r")
    case True
    then have "count_where (by_id eid) tbl = 0" using Cons.prems by simp
    then have "\<forall>q \<in> set tbl. \<not> (by_id eid q \<and> P q)" by (simp add: count_where_zero)
    then have "count_where (\<lambda>e. by_id eid e \<and> P e) tbl = 0" by (simp only: count_where_zero)
    with True Cons.prems show ?thesis by (auto simp: get_execution_def)
  next
    case False
    with Cons show ?thesis by (simp add: get_execution_def)
  qed
qed simp

lemma lease_row_exists:
  assumes "lease_row_ok eid tbl"
  obtains e where "get_execution eid tbl = Some e"
    and "(e_driver_id e = None) = (e_driver_heartbeat e = None)"
proof -
  have "get_execution eid tbl \<noteq> None"
    using assms count_where_zero [of "by_id eid" tbl]
    by (auto simp: lease_row_ok_def get_execution_def first_where_None_iff)
  then obtain e where e: "get_execution eid tbl = Some e" by blast
  then have "e \<in> set tbl" by (simp add: get_execution_def first_where_Some_iff)
  with assms e that show thesis by (auto simp: lease_row_ok_def)
qed

lemma lease_row_ok_update:
  assumes "lease_row_ok eid tbl" and "\<And>e. by_id eid (f e) = by_id eid e"
    and "\<And>e. P e \<Longrightarrow> (e_driver_id e = None) = (e_driver_heartbeat e = None) \<Longrightarrow>
      (e_driver_id (f e) = None) = (e_driver_heartbeat (f e) = None)"
  shows "lease_row_ok eid (update_where P f tbl)"
proof -
  have "count_where (by_id eid) (update_where P f tbl) = count_where (by_id eid) tbl"
    by (rule count_where_update) (simp add: assms(2))
  moreover have "\<forall>e \<in> set (update_where P f tbl). (e_driver_id e = None) = (e_driver_heartbeat e = None)"
    using assms(1,3) by (auto simp: lease_row_ok_def set_update_where)
  ultimately show ?thesis using assms(1) by (simp add: lease_row_ok_def)
qed

interpretation driver: lease
  "\<lambda>t d. claim_driver t eid d ttl" "\<lambda>t d. heartbeat_driver t eid d" "release_driver eid"
  "row_holder eid" "lease_row_ok eid" ttl
  for eid ttl
proof (unfold_locales, goal_cases)
  case (1 s t d)
  then obtain e where e: "get_execution eid s = Some e"
    "(e_driver_id e = None) = (e_driver_heartbeat e = None)" by (rule lease_row_exists)
  then show ?case
    using 1 count_row [OF _ e(1), of "lease_free t d ttl"]
    by (auto simp: claim_driver_def lease_row_ok_def row_holder_def lease_free_def Let_def
        split: option.splits)
next
  case (2 s t d)
  then obtain e where e: "get_execution eid s = Some e"
    "(e_driver_id e = None) = (e_driver_heartbeat e = None)" by (rule lease_row_exists)
  then show ?case
    using 2 count_row [OF _ e(1), of "lease_free t d ttl"] get_execution_by_id [OF e(1)]
    by (auto simp: claim_driver_def lease_row_ok_def row_holder_def get_update_where Let_def)
next
  case (3 s t d)
  then obtain e where e: "get_execution eid s = Some e"
    "(e_driver_id e = None) = (e_driver_heartbeat e = None)" by (rule lease_row_exists)
  then show ?case
    using 3 count_row [OF _ e(1), of "\<lambda>e. e_driver_id e = Some d"]
    by (auto simp: heartbeat_driver_def lease_row_ok_def row_holder_def Let_def split: option.splits)
next
  case (4 s t d)
  then obtain e where e: "get_execution eid s = Some e"
    "(e_driver_id e = None) = (e_driver_heartbeat e = None)" by (rule lease_row_exists)
  then show ?case
    using 4 count_row [OF _ e(1), of "\<lambda>e. e_driver_id e = Some d"] get_execution_by_id [OF e(1)]
    by (auto simp: heartbeat_driver_def lease_row_ok_def row_holder_def get_update_where Let_def)
next
  case (5 s d)
  then obtain e where e: "get_execution eid s = Some e"
    "(e_driver_id e = None) = (e_driver_heartbeat e = None)" by (rule lease_row_exists)
  then show ?case
    using get_execution_by_id [OF e(1)]
    by (auto simp: release_driver_def row_holder_def get_update_where clear_driver_def
        split: option.splits)
next
  case (6 s t d)
  then show ?case by (auto simp: claim_driver_def Let_def intro!: lease_row_ok_update)
next
  case (7 s t d)
  then show ?case by (auto simp: heartbeat_driver_def Let_def intro!: lease_row_ok_update)
next
  case (8 s d)
  then show ?case
    by (auto simp: release_driver_def clear_driver_def intro!: lease_row_ok_update)
qed

subsection \<open>Start-up: freeing the leases of this host\<close>

definition plain_host :: "string \<Rightarrow> bool" where
  "plain_host h \<longleftrightarrow> (\<forall>c \<in> set h. c \<notin> {CHR ''%'', CHR ''_'', CHR 0x5C})"

lemma sql_like_host:
  "plain_host h \<Longrightarrow> sql_like (h @ '':%'') s \<longleftrightarrow> (\<exists>rest. s = h @ '':'' @ rest)"
proof (induction h arbitrary: s)
  case Nil
  then show ?case by (cases s) auto
next
  case (Cons c h)
  then have "plain_host h" by (simp add: plain_host_def)
  with Cons show ?case by (cases s) (auto simp: plain_host_def)
qed

subsection \<open>Properties\<close>

text \<open>C8: one dispatch loop per execution: while the owner's heartbeat is younger than the
  lease, every claim, heartbeat or release any other drivers issue, in any number and
  order, is answered no and leaves the owner in place.\<close>

theorem driver_lease_exclusive:
  assumes "lease_row_ok eid tbl" and "row_holder eid tbl = Some (d, h)"
    and "\<forall>op \<in> set ops. op_driver op \<noteq> d \<and> op_before (h + ttl) op"
    and "lease_run (\<lambda>t d. claim_driver t eid d ttl) (\<lambda>t d. heartbeat_driver t eid d)
           (release_driver eid) ops tbl = (answers, tbl')"
  shows "(\<forall>(op, ok) \<in> set answers. \<not> ok) \<and> row_holder eid tbl' = Some (d, h)"
  by (rule driver.exclusive [OF assms])

definition lease_example :: executions where
  "lease_example = [\<lparr>e_id = ''e'', e_pipeline = ''p'', e_state = ERunning, e_total_jobs = 0,
     e_jobs_dispatched = 0, e_jobs_completed = 0, e_jobs_failed = 0, e_deduplicated = 0,
     e_created_at = 0, e_completed_at = None, e_error = None, e_runtime_params = [],
     e_rate_limit = None, e_driver_id = Some ''a:1:x'', e_driver_heartbeat = Some 100,
     e_plan_complete = Some True\<rparr>]"

lemma lease_example_ok: "lease_row_ok ''e'' lease_example"
  "row_holder ''e'' lease_example = Some (''a:1:x'', 100)"
  by (simp_all add: lease_row_ok_def lease_example_def row_holder_def get_execution_def by_id_def)

theorem driver_lease_exclusive_witness:
  "\<exists>answers tbl'. lease_run (\<lambda>t d. claim_driver t ''e'' d 60) (\<lambda>t d. heartbeat_driver t ''e'' d)
       (release_driver ''e'') [Claim 130 ''b:1:y'', Beat 140 ''b:1:y'', Release ''b:1:y'', Claim 160 ''c:1:z''] lease_example = (answers, tbl') \<and>
     (\<forall>(op, ok) \<in> set answers. \<not> ok) \<and> row_holder ''e'' tbl' = Some (''a:1:x'', 100)"
  using driver_lease_exclusive [OF lease_example_ok, of "[Claim 130 ''b:1:y'', Beat 140 ''b:1:y'', Release ''b:1:y'', Claim 160 ''c:1:z'']" 60]
  by (simp split: prod.splits)

text \<open>A loop that was replaced finds out: once another driver's claim succeeded, the old
  driver's next heartbeat is answered no, whatever happened in between short of a claim
  of its own, so no two loops keep dispatching one execution.\<close>

theorem replaced_driver_is_told:
  assumes "lease_row_ok eid tbl"
    and "lease_run (\<lambda>t d. claim_driver t eid d ttl) (\<lambda>t d. heartbeat_driver t eid d)
           (release_driver eid) ops tbl = (answers, tbl')"
    and "(Claim t d', True) \<in> set answers"
    and "\<forall>op \<in> set ops. op_driver op = d \<longrightarrow> \<not> is_claim op"
  shows "\<not> fst (heartbeat_driver t' eid d tbl')"
proof -
  have "lease_row_ok eid tbl' \<and> driver.lost eid d tbl'"
    using assms(3) by (intro driver.replaced [OF assms(1,2,4)]) force
  then show ?thesis by (simp add: driver.lost_beat)
qed

theorem replaced_driver_is_told_witness:
  "\<exists>answers tbl'. lease_run (\<lambda>t d. claim_driver t ''e'' d 60) (\<lambda>t d. heartbeat_driver t ''e'' d)
       (release_driver ''e'') [Claim 161 ''b:1:y'', Beat 162 ''a:1:x'', Release ''b:1:y''] lease_example = (answers, tbl') \<and>
     (Claim 161 ''b:1:y'', True) \<in> set answers \<and> \<not> fst (heartbeat_driver 170 ''e'' ''a:1:x'' tbl')"
proof -
  let ?ops = "[Claim 161 ''b:1:y'', Beat 162 ''a:1:x'', Release ''b:1:y'']"
  obtain answers tbl' where run: "lease_run (\<lambda>t d. claim_driver t ''e'' d 60)
     (\<lambda>t d. heartbeat_driver t ''e'' d) (release_driver ''e'') ?ops lease_example = (answers, tbl')"
    by fastforce
  have yes: "(Claim 161 ''b:1:y'', True) \<in> set answers"
    using run by (auto simp: claim_driver_def lease_free_def lease_example_def by_id_def Let_def
        split: prod.splits)
  have "\<not> fst (heartbeat_driver 170 ''e'' ''a:1:x'' tbl')"
    by (rule replaced_driver_is_told [OF lease_example_ok(1) run yes]) simp
  with run yes show ?thesis by blast
qed

text \<open>At start-up a manager frees exactly the leases whose driver id is its own host
  name, a colon and anything, when the host name has no LIKE wildcard or backslash; a
  lease of any other host, and any lease not of that shape, is left as it is.\<close>

theorem startup_frees_this_host:
  assumes "plain_host hostname" and "e \<in> set tbl"
  shows "(if \<exists>rest. e_driver_id e = Some (hostname @ '':'' @ rest) then clear_driver e else e)
           \<in> set (snd (release_drivers_on_host hostname tbl))"
proof -
  have "(case e_driver_id e of None \<Rightarrow> False | Some d \<Rightarrow> sql_like (hostname @ '':%'') d) =
      (\<exists>rest. e_driver_id e = Some (hostname @ '':'' @ rest))"
    by (cases "e_driver_id e") (simp_all add: sql_like_host [OF assms(1)])
  then show ?thesis
    using assms(2) unfolding release_drivers_on_host_def Let_def snd_conv set_update_where
    by (intro bexI [of _ e]) auto
qed

theorem startup_frees_this_host_witness:
  "clear_driver (hd lease_example) \<in> set (snd (release_drivers_on_host ''a'' lease_example)) \<and>
   hd lease_example \<in> set (snd (release_drivers_on_host ''b'' lease_example))"
proof -
  have m: "hd lease_example \<in> set lease_example" and d: "e_driver_id (hd lease_example) = Some ''a:1:x''"
    by (simp_all add: lease_example_def)
  show ?thesis
    using startup_frees_this_host [OF _ m, of "''a''"] startup_frees_this_host [OF _ m, of "''b''"]
    by (simp add: plain_host_def d)
qed

text \<open>The administrative operations respect the life cycle of an execution: pausing,
  resuming and cancelling never move one out of a terminal state (completed, failed,
  cancelled), pausing only takes pending and running ones, resuming only paused ones, and
  cancelling makes every other one cancelled.\<close>

theorem admin_operations_life_cycle:
  "state_of eid (snd (pause_execution now eid tbl)) =
     map_option (\<lambda>s. if s \<in> {EPending, ERunning} then EPaused else s) (state_of eid tbl) \<and>
   state_of eid (snd (resume_execution now eid tbl)) =
     map_option (\<lambda>s. if s = EPaused then ERunning else s) (state_of eid tbl) \<and>
   state_of eid (snd (cancel_execution now eid tbl)) =
     map_option (\<lambda>s. if s \<in> {ECompleted, EFailed, ECancelled} then s else ECancelled) (state_of eid tbl)"
  unfolding state_of_pause state_of_resume state_of_cancel by (simp add: TERMINAL_STATES_def)

end
