(* ===== verification/Manager.thy ===== *)
theory Manager
  imports Effects ExecutionStore JobStore RateLimiter Dispatcher DriverLease
begin

text \<open>
  The dispatch loop of \<open>reflow_manager/pipeline_runner.py\<close> (\<open>_drive_execution\<close> and what it
  calls), as steps on a \<open>world\<close>: the shared database, the clock, the messages written to
  Kafka and the loop's own variables. Other processes -- workers, the API, other managers --
  run between any two database operations: the \<open>environment\<close> says what they did to the
  database and how much time passed before each operation, which operations the database
  refuses, and how each Kafka send comes out.
\<close>

record db =
  db_execs :: executions
  db_jobs :: jobs
  db_buckets :: buckets

text \<open>The dict \<open>track\<close> of \<open>_drive_async\<close>.\<close>

record track =
  t_finished :: int
  t_progress_at :: time
  t_warned_at :: time
  t_lease_checked_at :: time

record world =
  w_db :: db
  w_now :: time
  w_tick :: nat
  w_topic :: "pydict list"
  w_unsendable :: "pydict list"
  w_track :: track
  w_last_check :: time
  w_stop :: bool

record environment =
  en_others :: "nat \<Rightarrow> time \<times> db \<Rightarrow> time \<times> db"
  en_db_fails :: "nat \<Rightarrow> bool"
  en_send :: "nat \<Rightarrow> send_result"
  en_lag :: "nat \<Rightarrow> nat \<Rightarrow> rat"

definition elapse :: "environment \<Rightarrow> world \<Rightarrow> world" where
  "elapse E w = (case en_others E (w_tick w) (w_now w, w_db w) of
     (now, db) \<Rightarrow> w\<lparr>w_now := now, w_db := db, w_tick := Suc (w_tick w)\<rparr>)"

text \<open>One committed database operation, on the database as the others left it.\<close>

definition db_op :: "environment \<Rightarrow> (time \<Rightarrow> db \<Rightarrow> 'a \<times> db) \<Rightarrow> (world, 'a) step" where
  "db_op E f w =
     (let w1 = elapse E w in
      if en_db_fails E (w_tick w) then (Inl DBAPIError, w1)
      else case f (w_now w1) (w_db w1) of (a, db) \<Rightarrow> (Inr a, w1\<lparr>w_db := db\<rparr>))"

definition on_execs :: "environment \<Rightarrow> (time \<Rightarrow> executions \<Rightarrow> 'a \<times> executions) \<Rightarrow> (world, 'a) step" where
  "on_execs E f = db_op E (\<lambda>now db. case f now (db_execs db) of (a, t) \<Rightarrow> (a, db\<lparr>db_execs := t\<rparr>))"

definition on_jobs :: "environment \<Rightarrow> (time \<Rightarrow> jobs \<Rightarrow> 'a \<times> jobs) \<Rightarrow> (world, 'a) step" where
  "on_jobs E f = db_op E (\<lambda>now db. case f now (db_jobs db) of (a, t) \<Rightarrow> (a, db\<lparr>db_jobs := t\<rparr>))"

subsection \<open>Settings\<close>

text \<open>The module's settings; those read from the environment are a record, with the defaults
  of the code in \<open>default_settings\<close>.\<close>

record settings =
  checkpoint_batch_size :: nat
  max_in_flight_jobs :: nat
  job_running_lease_seconds :: rat
  job_dispatch_lease_seconds :: rat
  job_max_attempts :: int
  driver_lease_seconds :: rat
  default_rate_limit :: rat
  lease_lost_message :: string

definition default_settings :: settings where
  "default_settings = \<lparr>checkpoint_batch_size = 1000, max_in_flight_jobs = 1000,
     job_running_lease_seconds = 300, job_dispatch_lease_seconds = 3600, job_max_attempts = 3,
     driver_lease_seconds = 60, default_rate_limit = 6000,
     lease_lost_message = ''Worker lost: no result within 300s, 3 attempt(s)''\<rparr>"

definition CHECKPOINT_POLL_INTERVAL :: rat where "CHECKPOINT_POLL_INTERVAL = 2"
definition LEASE_CHECK_INTERVAL :: rat where "LEASE_CHECK_INTERVAL = 60"
definition DISPATCH_CHUNK_SECONDS :: rat where "DISPATCH_CHUNK_SECONDS = 30"
definition DISPATCH_FETCH_LIMIT :: nat where "DISPATCH_FETCH_LIMIT = 500"
definition STALL_WARN_SECONDS :: rat where "STALL_WARN_SECONDS = 600"
definition DRIVER_RETRY_SECONDS :: rat where "DRIVER_RETRY_SECONDS = 15"
definition TOKEN_WAIT_SECONDS :: rat where "TOKEN_WAIT_SECONDS = 30"

definition finished_count :: "nat \<Rightarrow> nat \<Rightarrow> nat \<Rightarrow> nat" where
  "finished_count completed failed deduplicated = completed + failed + deduplicated"

definition sleep :: "rat \<Rightarrow> (world, unit) step" where
  "sleep s = write_step (\<lambda>w. w\<lparr>w_now := w_now w + s\<rparr>)"

subsection \<open>State and counts of the execution\<close>

definition read_state :: "environment \<Rightarrow> string \<Rightarrow> (world, exec_state option) step" where
  "read_state E eid = on_execs E (\<lambda>now t. (state_of eid t, t))"

definition job_counts_of :: "environment \<Rightarrow> string \<Rightarrow> (world, job_counts) step" where
  "job_counts_of E eid = on_jobs E (\<lambda>now t. (get_job_counts eid t, t))"

definition set_total_jobs :: "environment \<Rightarrow> string \<Rightarrow> nat \<Rightarrow> (world, unit) step" where
  "set_total_jobs E eid total_jobs =
     on_execs E (\<lambda>now t. ((), update_where (by_id eid) (\<lambda>e. e\<lparr>e_total_jobs := int total_jobs\<rparr>) t))"

definition set_job_counts ::
  "environment \<Rightarrow> string \<Rightarrow> int option \<Rightarrow> int option \<Rightarrow> int option \<Rightarrow> (world, unit) step" where
  "set_job_counts E eid dispatched completed failed =
     on_execs E (\<lambda>now t. ((), update_where (by_id eid)
       (\<lambda>e. e\<lparr>e_jobs_dispatched := (case dispatched of None \<Rightarrow> e_jobs_dispatched e | Some n \<Rightarrow> n),
              e_jobs_completed := (case completed of None \<Rightarrow> e_jobs_completed e | Some n \<Rightarrow> n),
              e_jobs_failed := (case failed of None \<Rightarrow> e_jobs_failed e | Some n \<Rightarrow> n)\<rparr>) t))"

type_synonym counts3 = "nat \<times> nat \<times> nat"

definition synced_counts :: "job_counts \<Rightarrow> counts3" where
  "synced_counts c =
     (c_dispatched c + c_running c + c_completed c + c_failed c + c_deduplicated c,
      c_completed c + c_deduplicated c, c_failed c)"

definition sync_counts_from_db :: "environment \<Rightarrow> string \<Rightarrow> (world, counts3) step" where
  "sync_counts_from_db E eid =
     bind_step (job_counts_of E eid) (\<lambda>c.
     bind_step (on_execs E (\<lambda>now t. ((), update_where (by_id eid)
       (\<lambda>e. case synced_counts c of (dispatched, completed, failed) \<Rightarrow>
          e\<lparr>e_jobs_dispatched := int dispatched, e_jobs_completed := int completed,
            e_jobs_failed := int failed, e_deduplicated := int (c_deduplicated c)\<rparr>) t))) (\<lambda>_.
     return_step (synced_counts c)))"

definition final_state :: "nat \<Rightarrow> nat \<Rightarrow> nat \<Rightarrow> exec_state" where
  "final_state total_finished expected_total failed =
     (if total_finished = expected_total then (if failed = 0 then ECompleted else EFailed) else EFailed)"

text \<open>Both reads are tried; if either raises, the counts the caller had are used, whose
  completed count already includes the deduplicated jobs.\<close>

definition finalize_execution_state ::
  "environment \<Rightarrow> string \<Rightarrow> nat \<Rightarrow> counts3 \<Rightarrow> (world, counts3) step" where
  "finalize_execution_state E eid expected_total fallback_counts =
     bind_step
       (try_step
         (bind_step (sync_counts_from_db E eid) (\<lambda>r.
          bind_step (job_counts_of E eid) (\<lambda>c.
          return_step (r, finished_count (c_completed c) (c_failed c) (c_deduplicated c)))))
         (\<lambda>_. True)
         (\<lambda>_. case fallback_counts of (dispatched, completed, failed) \<Rightarrow>
            return_step ((dispatched, completed, failed), completed + failed)))
       (\<lambda>((dispatched, completed, failed), total_finished).
        bind_step (on_execs E (\<lambda>now. update_execution_state now eid
            (final_state total_finished expected_total failed) None)) (\<lambda>_.
        return_step (dispatched, completed, failed)))"

subsection \<open>Sending\<close>

definition payload_job_id :: "pydict \<Rightarrow> string" where
  "payload_job_id p = (case dget p ''job_id'' of Some (PStr s) \<Rightarrow> s | _ \<Rightarrow> [])"

text \<open>The closure \<open>should_stop\<close> of \<open>_send_jobs\<close>, with its two variables in the world.\<close>

definition should_stop :: "environment \<Rightarrow> string \<Rightarrow> string \<Rightarrow> time \<Rightarrow> bool \<Rightarrow> (world, bool) step" where
  "should_stop E eid driver_id started chunk w =
     (let now = w_now w in
      if chunk \<and> DISPATCH_CHUNK_SECONDS \<le> now - started then (Inr True, w)
      else if 1 \<le> now - w_last_check w
      then bind_step (on_execs E (\<lambda>now. heartbeat_driver now eid driver_id)) (\<lambda>alive.
           bind_step (if \<not> alive then return_step True
                      else bind_step (read_state E eid) (\<lambda>st. return_step (st \<noteq> Some ERunning))) (\<lambda>stop.
           bind_step (write_step (\<lambda>w. w\<lparr>w_stop := stop\<rparr>)) (\<lambda>_. return_step stop)))
           (w\<lparr>w_last_check := now\<rparr>)
      else (Inr (w_stop w), w))"

definition acquire :: "environment \<Rightarrow> settings \<Rightarrow> string \<Rightarrow> rat option \<Rightarrow> (world, bool) step" where
  "acquire E S key rate_limit w =
     (let w1 = elapse E w in
      case acquire_token (default_rate_limit S) key rate_limit TOKEN_WAIT_SECONDS (en_lag E (w_tick w))
             (w_now w1) (db_buckets (w_db w1)) of
        None \<Rightarrow> (Inl (RuntimeError ''unreachable''), w1)
      | Some (r, now, bs) \<Rightarrow> (r, w1\<lparr>w_now := now, w_db := (w_db w1)\<lparr>db_buckets := bs\<rparr>\<rparr>))"

definition kafka_send :: "environment \<Rightarrow> pydict \<Rightarrow> (world, send_result) step" where
  "kafka_send E payload w =
     (let w1 = elapse E w in
      case en_send E (w_tick w) of
        Sent \<Rightarrow> (Inr Sent, w1\<lparr>w_topic := w_topic w1 @ [payload]\<rparr>)
      | r \<Rightarrow> (Inr r, w1))"

definition on_sent :: "environment \<Rightarrow> pydict \<Rightarrow> (world, unit) step" where
  "on_sent E payload = on_jobs E (\<lambda>now t. ((), mark_job_dispatched now (payload_job_id payload) t))"

definition on_unsendable :: "environment \<Rightarrow> pydict \<Rightarrow> string \<Rightarrow> (world, unit) step" where
  "on_unsendable E payload reason =
     on_jobs E (\<lambda>now t. ((), snd (update_job_state now (payload_job_id payload) JFailed None (Some reason) None t)))"

definition send_port ::
  "environment \<Rightarrow> settings \<Rightarrow> string \<Rightarrow> string \<Rightarrow> rat option \<Rightarrow> string \<Rightarrow> time \<Rightarrow> (pydict, world) port" where
  "send_port E S eid key rate_limit driver_id started =
     \<lparr>p_stop = Some (should_stop E eid driver_id started), p_token = acquire E S key rate_limit,
      p_send = kafka_send E, p_on_sent = Some (on_sent E), p_on_unsendable = Some (on_unsendable E),
      p_log_unsendable = (\<lambda>p _ w. w\<lparr>w_unsendable := w_unsendable w @ [p]\<rparr>)\<rparr>"

definition send_jobs ::
  "environment \<Rightarrow> settings \<Rightarrow> string \<Rightarrow> string \<Rightarrow> rat option \<Rightarrow> string \<Rightarrow> job list \<Rightarrow> (world, nat) step" where
  "send_jobs E S eid key rate_limit driver_id js w =
     kafka_dispatch_jobs_batch (send_port E S eid key rate_limit driver_id (w_now w))
       (map j_payload js) (w\<lparr>w_last_check := 0, w_stop := False\<rparr>)"

subsection \<open>The drive loop\<close>

definition reclaim :: "environment \<Rightarrow> settings \<Rightarrow> string \<Rightarrow> (world, reclaimed) step" where
  "reclaim E S eid = on_jobs E (\<lambda>now. reclaim_expired_leases (lease_lost_message S) now eid
     (job_running_lease_seconds S) (job_dispatch_lease_seconds S) (job_max_attempts S))"

definition set_track :: "(track \<Rightarrow> track) \<Rightarrow> (world, unit) step" where
  "set_track f = write_step (\<lambda>w. w\<lparr>w_track := f (w_track w)\<rparr>)"

definition note_progress :: "time \<Rightarrow> nat \<Rightarrow> track \<Rightarrow> track" where
  "note_progress now finished t =
     (if int finished \<noteq> t_finished t then t\<lparr>t_finished := int finished, t_progress_at := now\<rparr>
      else if STALL_WARN_SECONDS \<le> now - max (t_progress_at t) (t_warned_at t)
      then t\<lparr>t_warned_at := now\<rparr> else t)"

text \<open>One pass of the loop; \<open>Some\<close> counts end it.\<close>

definition drive_step ::
  "environment \<Rightarrow> settings \<Rightarrow> string \<Rightarrow> rat option \<Rightarrow> string \<Rightarrow> string \<Rightarrow> (world, counts3 option) step" where
  "drive_step E S eid rate_limit key driver_id =
     bind_step (on_execs E (\<lambda>now. heartbeat_driver now eid driver_id)) (\<lambda>alive.
     if \<not> alive then bind_step (sync_counts_from_db E eid) (\<lambda>r. return_step (Some r)) else
     bind_step (read_state E eid) (\<lambda>state.
     if state \<noteq> Some ERunning then bind_step (sync_counts_from_db E eid) (\<lambda>r. return_step (Some r)) else
     bind_step (read_step w_now) (\<lambda>now.
     bind_step (read_step (t_lease_checked_at \<circ> w_track)) (\<lambda>checked_at.
     bind_step (if LEASE_CHECK_INTERVAL \<le> now - checked_at
                then bind_step (reclaim E S eid) (\<lambda>_. set_track (\<lambda>t. t\<lparr>t_lease_checked_at := now\<rparr>))
                else return_step ()) (\<lambda>_.
     bind_step (job_counts_of E eid) (\<lambda>c.
     let in_flight = c_dispatched c + c_running c in
     if c_pending c = 0 \<and> in_flight = 0
     then bind_step (sync_counts_from_db E eid) (\<lambda>r.
          bind_step (finalize_execution_state E eid (c_total c) r) (\<lambda>r. return_step (Some r)))
     else
     bind_step (set_track (note_progress now (finished_count (c_completed c) (c_failed c) (c_deduplicated c)))) (\<lambda>_.
     bind_step
       (if c_pending c \<noteq> 0 \<and> in_flight < max_in_flight_jobs S
        then bind_step (on_jobs E (\<lambda>now t.
               (get_pending_jobs eid (min (max_in_flight_jobs S - in_flight) DISPATCH_FETCH_LIMIT) t, t))) (\<lambda>js.
             bind_step (send_jobs E S eid key rate_limit driver_id js) (\<lambda>sent.
             bind_step (sync_counts_from_db E eid) (\<lambda>_. return_step sent)))
        else return_step 0) (\<lambda>sent.
     bind_step (if sent = 0
                then bind_step (on_jobs E (\<lambda>now t. ((), t))) (\<lambda>_. sleep CHECKPOINT_POLL_INTERVAL)
                else return_step ()) (\<lambda>_.
     return_step None)))))))))"

text \<open>After a database error the loop waits and goes on: 5 s, doubled each time up to a
  minute. The fuel bounds the number of passes; \<open>None\<close> says the loop is still running.\<close>

definition next_backoff :: "rat \<Rightarrow> rat" where
  "next_backoff b = min (max (b * 2) 5) 60"

fun drive_loop ::
  "nat \<Rightarrow> environment \<Rightarrow> settings \<Rightarrow> string \<Rightarrow> rat option \<Rightarrow> string \<Rightarrow> string \<Rightarrow> rat \<Rightarrow> (world, counts3 option) step" where
  "drive_loop 0 E S eid rate_limit key driver_id backoff = return_step None"
| "drive_loop (Suc n) E S eid rate_limit key driver_id backoff =
     bind_step
       (try_step (bind_step (drive_step E S eid rate_limit key driver_id) (\<lambda>r. return_step (Inr r)))
         (\<lambda>e. e = DBAPIError)
         (\<lambda>e. bind_step (sleep (next_backoff backoff)) (\<lambda>_. return_step (Inl (next_backoff backoff)))))
       (\<lambda>x. case x of
          Inl b \<Rightarrow> drive_loop n E S eid rate_limit key driver_id b
        | Inr (Some counts) \<Rightarrow> return_step (Some counts)
        | Inr None \<Rightarrow> drive_loop n E S eid rate_limit key driver_id 0)"

text \<open>\<open>_wait_for_driver_lease\<close>; \<open>None\<close>: still standing by when the fuel ends.\<close>

fun wait_for_driver_lease ::
  "nat \<Rightarrow> environment \<Rightarrow> settings \<Rightarrow> string \<Rightarrow> string \<Rightarrow> (world, bool option) step" where
  "wait_for_driver_lease 0 E S eid driver_id = return_step None"
| "wait_for_driver_lease (Suc n) E S eid driver_id =
     bind_step
       (try_step
         (bind_step (on_execs E (\<lambda>now. claim_driver now eid driver_id (driver_lease_seconds S))) (\<lambda>ok.
          if ok then return_step (Some True)
          else bind_step (read_state E eid) (\<lambda>st.
               return_step (if st \<noteq> Some ERunning then Some False else None))))
         (\<lambda>e. e = DBAPIError) (\<lambda>_. return_step None))
       (\<lambda>x. case x of
          Some b \<Rightarrow> return_step (Some b)
        | None \<Rightarrow> bind_step (sleep DRIVER_RETRY_SECONDS) (\<lambda>_. wait_for_driver_lease n E S eid driver_id))"

definition drive_async ::
  "nat \<Rightarrow> environment \<Rightarrow> settings \<Rightarrow> string \<Rightarrow> string \<Rightarrow> rat option \<Rightarrow> string \<Rightarrow> (world, counts3 option) step" where
  "drive_async fuel E S eid pipeline_name rate_limit driver_id =
     bind_step (wait_for_driver_lease fuel E S eid driver_id) (\<lambda>got.
     case got of
       None \<Rightarrow> return_step None
     | Some False \<Rightarrow> bind_step (sync_counts_from_db E eid) (\<lambda>r. return_step (Some r))
     | Some True \<Rightarrow>
         bind_step (write_step (\<lambda>w. w\<lparr>w_track := \<lparr>t_finished = -1, t_progress_at = w_now w,
             t_warned_at = w_now w, t_lease_checked_at = 0\<rparr>\<rparr>)) (\<lambda>_.
         drive_loop fuel E S eid rate_limit (pipeline_name @ '':'' @ eid) driver_id 0))"

definition drive_execution ::
  "nat \<Rightarrow> environment \<Rightarrow> settings \<Rightarrow> string \<Rightarrow> string \<Rightarrow> rat option \<Rightarrow> string \<Rightarrow> (world, counts3 option) step" where
  "drive_execution fuel E S eid pipeline_name rate_limit driver_id =
     finally_step (drive_async fuel E S eid pipeline_name rate_limit driver_id)
       (try_step (on_execs E (\<lambda>now t. ((), release_driver eid driver_id t))) (\<lambda>_. True) (\<lambda>_. return_step ()))"

end
