(* ===== verification/Planner.thy ===== *)
theory Planner
  imports Manager ExecContext JobRunner
begin

text \<open>
  Phase 1 of \<open>reflow_manager/pipeline_runner.py\<close>: a pipeline's source becomes a plan, every
  slice of it a job row, and only a whole plan is dispatched. Also the two ways into phase 2:
  \<open>run_pipeline_jobs\<close> and \<open>resume_execution\<close> with \<open>_recover_plan\<close>. User code
  (\<open>resolve\<close>, what a source's \<open>split\<close> yields), fresh uuids and the trace carrier are
  parameters.
\<close>

subsection \<open>Plans (\<open>execution/job_runner.py\<close>)\<close>

text \<open>A planned source, as the job message carries it, and the params of its own.\<close>

record slice =
  sl_type :: string
  sl_config :: pydict
  sl_params :: "pydict option"

text \<open>A \<open>BaseSource\<close>: what its \<open>split\<close> yields for the params, and the error that ends it early.\<close>

type_synonym planned = "slice list \<times> py_error option"

record base_source =
  bs_split :: "pydict \<Rightarrow> planned"
  bs_params :: "pydict option"

definition StaticSource :: "pyval list \<Rightarrow> slice" where
  "StaticSource records = \<lparr>sl_type = ''StaticSource'', sl_config = [(''records'', PList records)], sl_params = None\<rparr>"

definition static_split :: "slice \<Rightarrow> pydict \<Rightarrow> planned" where
  "static_split s runtime_params = (if truthy (dget_or (sl_config s) ''records'' PNone) then ([s], None) else ([], None))"

text \<open>\<open>reflowfy.job(records, **params)\<close>.\<close>

definition job_source :: "pyval list \<Rightarrow> pydict \<Rightarrow> base_source" where
  "job_source records params =
     \<lparr>bs_split = static_split ((StaticSource records)\<lparr>sl_params := Some params\<rparr>), bs_params = Some params\<rparr>"

datatype plan_item = ItemSource base_source | ItemRecords "pyval list" | ItemOther string

text \<open>What \<open>resolve\<close> leaves in \<open>pipeline.source\<close>: a source with \<open>split\<close>, one without (a single
  job), or an iterable of jobs that may raise at its end.\<close>

datatype plan_source = Splitting base_source | Single slice | Iterable "plan_item list" "py_error option"

definition inherit_params :: "pydict option \<Rightarrow> slice \<Rightarrow> slice" where
  "inherit_params parent s = (if parent \<noteq> None \<and> sl_params s = None then s\<lparr>sl_params := parent\<rparr> else s)"

definition split_slices :: "base_source \<Rightarrow> pydict \<Rightarrow> planned" where
  "split_slices b runtime_params =
     (case bs_split b runtime_params of (ss, e) \<Rightarrow> (map (inherit_params (bs_params b)) ss, e))"

fun item_slices :: "pydict \<Rightarrow> plan_item list \<Rightarrow> py_error option \<Rightarrow> planned" where
  "item_slices params [] e = ([], e)"
| "item_slices params (ItemSource b # is) e =
     (case split_slices b params of
        (ss, Some e') \<Rightarrow> (ss, Some e')
      | (ss, None) \<Rightarrow> (case item_slices params is e of (ts, e') \<Rightarrow> (ss @ ts, e')))"
| "item_slices params (ItemRecords rs # is) e =
     (case item_slices params is e of (ts, e') \<Rightarrow> ((if rs = [] then ts else StaticSource rs # ts), e'))"
| "item_slices params (ItemOther t # is) e =
     ([], Some (TypeError (''define_jobs returned an iterable, so each element must be one job: a list of records or a BaseSource, got '' @ t)))"

definition plan_slices :: "plan_source \<Rightarrow> pydict \<Rightarrow> planned" where
  "plan_slices src params = (case src of
     Splitting b \<Rightarrow> split_slices b params | Single s \<Rightarrow> ([s], None) | Iterable is e \<Rightarrow> item_slices params is e)"

definition iter_plan :: "string \<Rightarrow> planned \<Rightarrow> planned" where
  "iter_plan pipeline_name p = (case p of (ss, e) \<Rightarrow> (ss, map_option (step_error ''define_jobs'' pipeline_name) e))"

definition job_runtime_params :: "slice \<Rightarrow> pydict \<Rightarrow> pydict" where
  "job_runtime_params s runtime_params =
     dupdate runtime_params (case sl_params s of None \<Rightarrow> [] | Some p \<Rightarrow> p)"

subsection \<open>Source descriptors (\<open>factories/source_factory.py\<close>)\<close>

definition serialize :: "slice \<Rightarrow> pydict" where
  "serialize s = [(''type'', PStr (sl_type s)), (''config'', PDict (sl_config s))]"

text \<open>\<open>create\<close>: the registry gives each known type its constructor, which gets the config as keywords.\<close>

definition create_source ::
  "(string \<rightharpoonup> (pydict \<Rightarrow> py_error + 's)) \<Rightarrow> string list \<Rightarrow> string \<Rightarrow> pydict \<Rightarrow> py_error + 's" where
  "create_source registry names type_name config =
     (case registry type_name of
        Some cls \<Rightarrow> cls config
      | None \<Rightarrow> Inl (ValueError (''Unknown source type: '' @ quoted type_name @ ''. Available types: '' @
          (if names = [] then ''none'' else join '', '' names))))"

subsection \<open>The job message\<close>

definition JOB_SCHEMA_VERSION :: int where "JOB_SCHEMA_VERSION = 2"

definition build_job_payload ::
  "(pydict \<Rightarrow> pydict) \<Rightarrow> string \<Rightarrow> string \<Rightarrow> string \<Rightarrow> slice \<Rightarrow> pydict \<Rightarrow> bool \<Rightarrow> pydict option \<Rightarrow> pydict" where
  "build_job_payload inject eid jid pipeline_name s metadata dedup_check job_params =
     [(''schema_version'', PInt JOB_SCHEMA_VERSION), (''execution_id'', PStr eid), (''job_id'', PStr jid),
      (''pipeline_name'', PStr pipeline_name), (''source'', PDict (serialize s)), (''dedup_check'', PBool dedup_check),
      (''job_params'', PDict (case job_params of None \<Rightarrow> [] | Some p \<Rightarrow> p)), (''metadata'', PDict (inject metadata))]"

text \<open>The params of one job: its own merged over the execution's.\<close>

definition merged_params :: "pydict \<Rightarrow> slice \<Rightarrow> pydict" where
  "merged_params base s = (case sl_params s of
     None \<Rightarrow> base | Some own \<Rightarrow> if own = [] then base else dupdate base own)"

definition job_metadata :: "exec_context \<Rightarrow> pydict \<Rightarrow> slice \<Rightarrow> pydict" where
  "job_metadata ctx base s =
     (let job_params = merged_params base s;
          m = dset (dset (context_to_dict ctx) ''runtime_params'' (PDict job_params)) ''source_metadata'' PNone
      in case dget job_params ''current_ids'' of None \<Rightarrow> m | Some ids \<Rightarrow> dset m ''current_ids'' ids)"

definition serialize_for_json :: "pydict \<Rightarrow> pydict" where
  "serialize_for_json d = (case to_json_safe (PDict d) of PDict d' \<Rightarrow> d' | _ \<Rightarrow> [])"

text \<open>What planning one execution works with.\<close>

record plan_config =
  pc_eid :: string
  pc_pipeline :: string
  pc_context :: exec_context
  pc_default_params :: pydict
  pc_dedup :: bool
  pc_inject :: "pydict \<Rightarrow> pydict"
  pc_uuid :: "nat \<Rightarrow> string"

definition plan_row :: "plan_config \<Rightarrow> int \<Rightarrow> nat \<Rightarrow> slice \<Rightarrow> new_job" where
  "plan_row c batch i s =
     (let metadata = job_metadata ((pc_context c)\<lparr>cx_batch_number := batch\<rparr>) (pc_default_params c) s;
          payload = build_job_payload (pc_inject c) (pc_eid c) (pc_uuid c i) (pc_pipeline c) s metadata (pc_dedup c) (sl_params s)
      in (pc_eid c, pc_uuid c i, serialize_for_json payload, batch))"

subsection \<open>Planning\<close>

definition save_jobs :: "environment \<Rightarrow> new_job list \<Rightarrow> (world, unit) step" where
  "save_jobs E rows =
     (if rows = [] then return_step ()
      else bind_step (on_jobs E (\<lambda>now t. case create_jobs now rows t of Inl e \<Rightarrow> (Inl e, t) | Inr t' \<Rightarrow> (Inr (), t')))
        (\<lambda>r. case r of Inl e \<Rightarrow> raise_step e | Inr _ \<Rightarrow> return_step ()))"

text \<open>The state check of the planning loop, at most once a second: was the execution stopped?\<close>

definition planning_stopped :: "environment \<Rightarrow> string \<Rightarrow> (world, bool) step" where
  "planning_stopped E eid =
     bind_step (read_state E eid) (\<lambda>st.
     if st = Some ECancelled \<or> st = Some EFailed
     then bind_step (on_jobs E (\<lambda>now. cancel_unstarted_jobs now eid)) (\<lambda>_. return_step True)
     else return_step False)"

text \<open>The loop over the plan: \<open>made\<close> jobs so far, \<open>rows\<close> of them not saved yet. Other processes
  run while the plan yields its next slice. \<open>None\<close>: planning was aborted.\<close>

fun plan_loop ::
  "environment \<Rightarrow> settings \<Rightarrow> plan_config \<Rightarrow> py_error option \<Rightarrow> slice list \<Rightarrow> nat \<Rightarrow> nat \<Rightarrow> new_job list \<Rightarrow> time \<Rightarrow>
     (world, (nat \<times> nat \<times> new_job list) option) step" where
  "plan_loop E S c e [] batch made rows checked =
     bind_step (write_step (elapse E)) (\<lambda>_.
     case e of Some err \<Rightarrow> raise_step err | None \<Rightarrow> return_step (Some (batch, made, rows)))"
| "plan_loop E S c e (s # ss) batch made rows checked =
     bind_step (write_step (elapse E)) (\<lambda>_.
     bind_step (read_step w_now) (\<lambda>now.
     let due = 1 \<le> now - checked in
     bind_step (if due then planning_stopped E (pc_eid c) else return_step False) (\<lambda>stopped.
     if stopped then return_step None
     else
       let rows' = rows @ [plan_row c (int batch) made s]; checked' = (if due then now else checked) in
       if checkpoint_batch_size S \<le> length rows'
       then bind_step (save_jobs E rows') (\<lambda>_. plan_loop E S c e ss (Suc batch) (Suc made) [] checked')
       else plan_loop E S c e ss batch (Suc made) rows' checked')))"

text \<open>From the first slice to \<open>mark_plan_complete\<close>; the result is the number of batches.\<close>

definition save_plan ::
  "environment \<Rightarrow> settings \<Rightarrow> plan_config \<Rightarrow> planned \<Rightarrow> (world, nat option) step" where
  "save_plan E S c plan =
     bind_step (plan_loop E S c (snd plan) (fst plan) 1 0 [] 0) (\<lambda>r.
     case r of
       None \<Rightarrow> return_step None
     | Some (batch, made, rows) \<Rightarrow>
         bind_step (save_jobs E rows) (\<lambda>_.
         bind_step (set_total_jobs E (pc_eid c) made) (\<lambda>_.
         bind_step (on_execs E (\<lambda>now t. ((), mark_plan_complete (pc_eid c) t))) (\<lambda>_.
         return_step (Some batch)))))"

text \<open>\<open>fork\<close> and \<open>resolve\<close> of the pipeline object: the enriched params and the source.\<close>

record plan_pipeline =
  pp_resolve :: "pydict \<Rightarrow> py_error + pydict \<times> plan_source"
  pp_rate_limit :: "rat option"
  pp_enable_duplicates :: bool
  pp_id_based :: bool

record planner =
  pl_registry :: "string \<Rightarrow> plan_pipeline option"
  pl_missing :: "string \<Rightarrow> string"
  pl_inject :: "pydict \<Rightarrow> pydict"
  pl_uuid :: "nat \<Rightarrow> string"
  pl_batch_id :: string
  pl_created_at :: string
  pl_lease_owner :: string
  pl_driver_id :: string
  pl_recovery_id :: string
  pl_local :: bool

definition not_in_registry :: "planner \<Rightarrow> string \<Rightarrow> string \<Rightarrow> string" where
  "not_in_registry P pipeline_name what =
     ''Pipeline '' @ quoted pipeline_name @ '' not found in registry'' @ what @ pl_missing P pipeline_name"

definition effective_rate_limit :: "rat option \<Rightarrow> plan_pipeline \<Rightarrow> rat option" where
  "effective_rate_limit rate_override p =
     (case rate_override of Some r \<Rightarrow> Some r
      | None \<Rightarrow> (case pp_rate_limit p of None \<Rightarrow> None | Some r \<Rightarrow> if r = 0 then None else Some r))"

definition plan_config_of :: "planner \<Rightarrow> plan_pipeline \<Rightarrow> string \<Rightarrow> string \<Rightarrow> bool option \<Rightarrow> pydict \<Rightarrow> plan_config" where
  "plan_config_of P p eid pipeline_name enable_duplicate_jobs enriched =
     \<lparr>pc_eid = eid, pc_pipeline = pipeline_name,
      pc_context = \<lparr>cx_execution_id = eid, cx_batch_id = pl_batch_id P, cx_pipeline_name = pipeline_name,
        cx_runtime_params = enriched, cx_created_at = pl_created_at P, cx_batch_number = 0, cx_total_batches = 0,
        cx_retry_count = 0, cx_is_retry = False\<rparr>,
      pc_default_params = (if pp_id_based p then dfilter (\<lambda>k. k \<noteq> ''input_ids'') enriched else enriched),
      pc_dedup = (\<not> (case enable_duplicate_jobs of Some b \<Rightarrow> b | None \<Rightarrow> pp_enable_duplicates p)),
      pc_inject = pl_inject P, pc_uuid = pl_uuid P\<rparr>"

text \<open>\<open>_plan_and_dispatch\<close> up to the end of the planning lease.\<close>

definition plan_phase ::
  "environment \<Rightarrow> settings \<Rightarrow> planner \<Rightarrow> string \<Rightarrow> string \<Rightarrow> pydict \<Rightarrow> bool option \<Rightarrow> (world, nat option) step" where
  "plan_phase E S P eid pipeline_name runtime_params enable_duplicate_jobs =
     (case pl_registry P pipeline_name of
        None \<Rightarrow> raise_step (ValueError (not_in_registry P pipeline_name []))
      | Some p \<Rightarrow>
          bind_step (write_step (elapse E)) (\<lambda>_.
          case pp_resolve p runtime_params of
            Inl e \<Rightarrow> raise_step e
          | Inr (enriched, src) \<Rightarrow>
              bind_step (on_execs E (\<lambda>now. update_execution_state now eid ERunning None)) (\<lambda>_.
              save_plan E S (plan_config_of P p eid pipeline_name enable_duplicate_jobs enriched)
                (iter_plan pipeline_name (plan_slices src enriched)))))"

text \<open>\<open>_PlanLease\<close>: taken if the database allows, kept alive by a thread (one of the other
  processes here), released once.\<close>

definition plan_lease_start :: "environment \<Rightarrow> settings \<Rightarrow> planner \<Rightarrow> string \<Rightarrow> (world, bool) step" where
  "plan_lease_start E S P eid =
     try_step (bind_step (on_execs E (\<lambda>now. claim_driver now eid (pl_lease_owner P) (driver_lease_seconds S)))
       (\<lambda>_. return_step True)) (\<lambda>_. True) (\<lambda>_. return_step False)"

definition plan_lease_stop :: "environment \<Rightarrow> planner \<Rightarrow> string \<Rightarrow> bool \<Rightarrow> (world, unit) step" where
  "plan_lease_stop E P eid started =
     (if started
      then try_step (on_execs E (\<lambda>now t. ((), release_driver eid (pl_lease_owner P) t))) (\<lambda>_. True) (\<lambda>_. return_step ())
      else return_step ())"

definition backfill_total_batches :: "environment \<Rightarrow> string \<Rightarrow> nat \<Rightarrow> (world, unit) step" where
  "backfill_total_batches E eid n =
     try_step (on_jobs E (\<lambda>now t. ((), bulk_set_total_batches eid (int n) t))) (\<lambda>_. True) (\<lambda>_. return_step ())"

definition run_pipeline_jobs ::
  "nat \<Rightarrow> environment \<Rightarrow> settings \<Rightarrow> planner \<Rightarrow> string \<Rightarrow> string \<Rightarrow> pydict \<Rightarrow> rat option \<Rightarrow> bool option \<Rightarrow>
     (world, counts3 option) step" where
  "run_pipeline_jobs fuel E S P eid pipeline_name runtime_params rate_override enable_duplicate_jobs =
     bind_step (plan_lease_start E S P eid) (\<lambda>started.
     bind_step (finally_step (plan_phase E S P eid pipeline_name runtime_params enable_duplicate_jobs)
                  (plan_lease_stop E P eid started)) (\<lambda>planned.
     case planned of
       None \<Rightarrow> return_step None
     | Some batches \<Rightarrow>
         bind_step (backfill_total_batches E eid batches) (\<lambda>_.
         drive_execution fuel E S eid pipeline_name
           (case pl_registry P pipeline_name of None \<Rightarrow> rate_override | Some p \<Rightarrow> effective_rate_limit rate_override p)
           (pl_driver_id P))))"

definition run_pipeline ::
  "nat \<Rightarrow> environment \<Rightarrow> settings \<Rightarrow> planner \<Rightarrow> string \<Rightarrow> pydict \<Rightarrow> string \<Rightarrow> rat option \<Rightarrow> (world, execution option) step" where
  "run_pipeline fuel E S P pipeline_name runtime_params eid rate_override =
     (if pl_registry P pipeline_name = None
      then raise_step (ValueError (not_in_registry P pipeline_name []))
      else
        bind_step (bind_step (on_execs E (\<lambda>now t.
            case create_execution now eid pipeline_name (Some runtime_params) rate_override t of
              Inl e \<Rightarrow> (Inl e, t) | Inr t' \<Rightarrow> (Inr (), t')))
          (\<lambda>r. case r of Inl e \<Rightarrow> raise_step e | Inr _ \<Rightarrow> return_step ())) (\<lambda>_.
        bind_step (try_step (run_pipeline_jobs fuel E S P eid pipeline_name runtime_params rate_override None)
            (\<lambda>e. e \<noteq> Interrupted)
            (\<lambda>e. bind_step (try_step (on_execs E (\<lambda>now. update_execution_state now eid EFailed (Some (error_text e))))
                   (\<lambda>e. e \<noteq> Interrupted) (\<lambda>_. return_step None)) (\<lambda>_. raise_step e))) (\<lambda>_.
        on_execs E (\<lambda>now t. (get_execution eid t, t)))))"

subsection \<open>Resuming\<close>

text \<open>One turn of \<open>_recover_plan\<close>'s loop: \<open>ex\<close> is the row it reads, and an execution it finds
  abandoned is failed. Then the loop; \<open>None\<close>: still waiting when the fuel ends.\<close>

definition fail_abandoned :: "environment \<Rightarrow> planner \<Rightarrow> string \<Rightarrow> (world, bool option) step" where
  "fail_abandoned E P eid =
     bind_step (job_counts_of E eid) (\<lambda>counts.
     bind_step (on_execs E (\<lambda>now. update_execution_state now eid EFailed
       (Some (''The manager stopped while planning this execution ('' @ nat_text (c_total counts) @
         '' of its jobs had been saved, none dispatched). A plan cannot be continued; run it again.'')))) (\<lambda>_.
     bind_step (on_execs E (\<lambda>now t. ((), release_driver eid (pl_recovery_id P) t))) (\<lambda>_.
     return_step (Some False))))"

definition recover_seen ::
  "environment \<Rightarrow> settings \<Rightarrow> planner \<Rightarrow> string \<Rightarrow> time \<Rightarrow> execution option \<Rightarrow> (world, bool option) step" where
  "recover_seen E S P eid now ex =
     (case ex of
       None \<Rightarrow> return_step (Some False)
     | Some e \<Rightarrow>
         if e_state e \<notin> {EPending, ERunning} then return_step (Some False)
         else if e_plan_complete e \<noteq> Some False then return_step (Some True)
         else
           bind_step (if driver_lease_seconds S \<le> now - e_created_at e
               then on_execs E (\<lambda>now. claim_driver now eid (pl_recovery_id P) (driver_lease_seconds S))
               else return_step False) (\<lambda>abandoned.
           if \<not> abandoned then return_step None else fail_abandoned E P eid))"

definition recover_turn :: "environment \<Rightarrow> settings \<Rightarrow> planner \<Rightarrow> string \<Rightarrow> (world, bool option) step" where
  "recover_turn E S P eid =
     bind_step (on_execs E (\<lambda>now t. ((now, get_execution eid t), t))) (\<lambda>(now, ex). recover_seen E S P eid now ex)"

fun recover_plan :: "nat \<Rightarrow> environment \<Rightarrow> settings \<Rightarrow> planner \<Rightarrow> string \<Rightarrow> (world, bool option) step" where
  "recover_plan 0 E S P eid = return_step None"
| "recover_plan (Suc n) E S P eid =
     bind_step (recover_turn E S P eid) (\<lambda>r.
     case r of
       Some b \<Rightarrow> return_step (Some b)
     | None \<Rightarrow> bind_step (sleep DRIVER_RETRY_SECONDS) (\<lambda>_. recover_plan n E S P eid))"

definition resume_rate_limit :: "rat option \<Rightarrow> execution \<Rightarrow> plan_pipeline \<Rightarrow> rat option" where
  "resume_rate_limit rate_override e p =
     effective_rate_limit (case rate_override of Some r \<Rightarrow> Some r | None \<Rightarrow> e_rate_limit e) p"

definition requeue_orphans :: "time \<Rightarrow> string \<Rightarrow> jobs \<Rightarrow> jobs" where
  "requeue_orphans now eid tbl =
     update_where (\<lambda>j. j_exec j = eid \<and> j_state j \<in> {JDispatched, JRunning})
       (\<lambda>j. j\<lparr>j_state := JPending, j_updated := now\<rparr>) tbl"

text \<open>\<open>PipelineRunner.resume_execution\<close>. What it returns when it ends without driving is \<open>None\<close>.\<close>

definition resume_run ::
  "nat \<Rightarrow> environment \<Rightarrow> settings \<Rightarrow> planner \<Rightarrow> string \<Rightarrow> rat option \<Rightarrow> (world, counts3 option) step" where
  "resume_run fuel E S P eid rate_override =
     bind_step (on_execs E (\<lambda>now t. (get_execution eid t, t))) (\<lambda>ex.
     case ex of
       None \<Rightarrow> return_step None
     | Some e \<Rightarrow>
         if terminal (e_state e) then return_step None
         else case pl_registry P (e_pipeline e) of
           None \<Rightarrow>
             bind_step (on_execs E (\<lambda>now. update_execution_state now eid EFailed
               (Some (not_in_registry P (e_pipeline e) '' during recovery'')))) (\<lambda>_. return_step None)
         | Some p \<Rightarrow>
             bind_step (if e_plan_complete e = Some False then recover_plan fuel E S P eid else return_step (Some True)) (\<lambda>whole.
             if whole \<noteq> Some True then return_step None
             else
               bind_step (on_execs E (\<lambda>now t. (get_execution eid t, t))) (\<lambda>fresh.
               bind_step (job_counts_of E eid) (\<lambda>c.
               if c_pending c + c_dispatched c + c_running c = 0
               then bind_step (finalize_execution_state E eid (c_total c) (0, 0, 0)) (\<lambda>_. return_step None)
               else
                 bind_step (if pl_local P then on_jobs E (\<lambda>now t. ((), requeue_orphans now eid t)) else return_step ()) (\<lambda>_.
                 drive_execution fuel E S eid (e_pipeline e)
                   (resume_rate_limit rate_override (case fresh of Some e' \<Rightarrow> e' | None \<Rightarrow> e) p) (pl_driver_id P))))))"

subsection \<open>What a step of the manager establishes\<close>

lemma elapse_local [simp]:
  "w_topic (elapse E w) = w_topic w" "w_tick (elapse E w) = Suc (w_tick w)"
  by (simp_all add: elapse_def split: prod.splits)

lemma wp_db_op [wps]:
  "wp (db_op E f) Q w = (if en_db_fails E (w_tick w) then Q (Inl DBAPIError) (elapse E w)
     else (case f (w_now (elapse E w)) (w_db (elapse E w)) of (a, db) \<Rightarrow> Q (Inr a) ((elapse E w)\<lparr>w_db := db\<rparr>)))"
  by (simp add: wp_def db_op_def Let_def split: prod.splits)

lemma wp_on_execs [wps]:
  "wp (on_execs E f) Q w = (if en_db_fails E (w_tick w) then Q (Inl DBAPIError) (elapse E w)
     else (case f (w_now (elapse E w)) (db_execs (w_db (elapse E w))) of (a, t) \<Rightarrow>
       Q (Inr a) ((elapse E w)\<lparr>w_db := (w_db (elapse E w))\<lparr>db_execs := t\<rparr>\<rparr>)))"
  by (simp add: on_execs_def wps split: prod.splits)

lemma wp_on_jobs [wps]:
  "wp (on_jobs E f) Q w = (if en_db_fails E (w_tick w) then Q (Inl DBAPIError) (elapse E w)
     else (case f (w_now (elapse E w)) (db_jobs (w_db (elapse E w))) of (a, t) \<Rightarrow>
       Q (Inr a) ((elapse E w)\<lparr>w_db := (w_db (elapse E w))\<lparr>db_jobs := t\<rparr>\<rparr>)))"
  by (simp add: on_jobs_def wps split: prod.splits)

lemma wp_sleep [wps]: "wp (sleep s) Q w = Q (Inr ()) (w\<lparr>w_now := w_now w + s\<rparr>)"
  by (simp add: sleep_def wps)

subsection \<open>Planning sends nothing\<close>

definition same_topic :: "world \<Rightarrow> world \<Rightarrow> bool" where
  "same_topic w w' \<longleftrightarrow> w_topic w' = w_topic w"

lemma same_topic_laws: "reflp same_topic" "transp same_topic"
  by (auto simp: reflp_def transp_def same_topic_def)

lemmas topic_compose = moves_bind [OF same_topic_laws(2)] moves_try [OF same_topic_laws(2)]
  moves_finally [OF same_topic_laws(2)] moves_if moves_option
  moves_return [OF same_topic_laws(1)] moves_raise [OF same_topic_laws(1)] moves_read [OF same_topic_laws(1)]

lemma topic_ops:
  "moves same_topic (db_op E f)" "moves same_topic (on_execs E g)" "moves same_topic (on_jobs E h)"
  "moves same_topic (sleep s)" "moves same_topic (write_step (elapse E))"
  by (rule movesI, auto simp: same_topic_def db_op_def on_execs_def on_jobs_def sleep_def Let_def
      split: if_splits prod.splits)+

lemma topic_sum: "(\<And>e. moves same_topic (f e)) \<Longrightarrow> (\<And>x. moves same_topic (g x)) \<Longrightarrow> moves same_topic (case r of Inl e \<Rightarrow> f e | Inr x \<Rightarrow> g x)"
  by (cases r) simp_all

lemma topic_save_jobs: "moves same_topic (save_jobs E rows)"
  unfolding save_jobs_def by (intro topic_compose topic_ops topic_sum)

lemma topic_plan_loop: "moves same_topic (plan_loop E S c e ss batch made rows checked)"
proof (induction ss arbitrary: batch made rows checked)
  case Nil
  show ?case by (auto intro!: topic_compose topic_ops split: option.splits)
next
  case (Cons s ss)
  show ?case
    unfolding plan_loop.simps planning_stopped_def read_state_def Let_def
    by (intro topic_compose topic_ops topic_save_jobs Cons.IH)
qed

lemma topic_plan_phase: "moves same_topic (plan_phase E S P eid name params dup)"
proof -
  have "moves same_topic (save_plan E S c plan)" for c plan
    unfolding save_plan_def set_total_jobs_def prod.case_eq_if
    by (intro topic_compose topic_ops topic_save_jobs topic_plan_loop)
  then show ?thesis
    unfolding plan_phase_def prod.case_eq_if by (intro topic_compose topic_ops topic_sum)
qed

lemma topic_leases:
  "moves same_topic (plan_lease_start E S P eid)" "moves same_topic (plan_lease_stop E P eid b)"
  "moves same_topic (recover_turn E S P eid)"
  unfolding plan_lease_start_def plan_lease_stop_def recover_turn_def recover_seen_def fail_abandoned_def
    job_counts_of_def prod.case_eq_if
  by (intro topic_compose topic_ops)+

lemma topic_recover: "moves same_topic (recover_plan n E S P eid)"
proof (induction n)
  case (Suc n)
  then show ?case unfolding recover_plan.simps by (intro topic_compose topic_ops topic_leases)
qed (unfold recover_plan.simps, intro topic_compose)

subsection \<open>The rows of a plan\<close>

text \<open>The rows the slices become, the first one being number \<open>i\<close>: batches of \<open>B\<close>.\<close>

fun rows_from :: "nat \<Rightarrow> plan_config \<Rightarrow> nat \<Rightarrow> slice list \<Rightarrow> new_job list" where
  "rows_from B c i [] = []"
| "rows_from B c i (s # ss) = plan_row c (int (i div B + 1)) i s # rows_from B c (Suc i) ss"

definition row_of :: "job \<Rightarrow> new_job" where
  "row_of j = (j_exec j, j_id j, j_payload j, case j_batch j of Some b \<Rightarrow> b | None \<Rightarrow> 0)"

definition own_jobs :: "string \<Rightarrow> jobs \<Rightarrow> job list" where
  "own_jobs eid t = filter (\<lambda>j. j_exec j = eid) t"

definition ids_of :: "new_job list \<Rightarrow> string list" where
  "ids_of rows = map (\<lambda>(_, jid, _, _). jid) rows"

lemma row_of_new [simp]: "row_of (new_row now r) = r"
  by (simp add: row_of_def new_row_def split: prod.splits)

lemma new_row_fields [simp]:
  "j_id (new_row now r) = fst (snd r)" "j_exec (new_row now r) = fst r" "j_state (new_row now r) = JPending"
  by (simp_all add: new_row_def split: prod.splits)

lemma ids_of_simps [simp]: "ids_of [] = []" "ids_of (r # rs) = fst (snd r) # ids_of rs" "ids_of (rs @ qs) = ids_of rs @ ids_of qs"
  by (auto simp: ids_of_def split: prod.splits)

lemma plan_row_id [simp]: "fst (snd (plan_row c b i s)) = pc_uuid c i" "fst (plan_row c b i s) = pc_eid c"
  by (simp_all add: plan_row_def Let_def)

text \<open>The database while a plan is being saved: the rows saved so far, all waiting to start.\<close>

definition saved :: "plan_config \<Rightarrow> new_job list \<Rightarrow> db \<Rightarrow> bool" where
  "saved c rows d \<longleftrightarrow> map row_of (own_jobs (pc_eid c) (db_jobs d)) = rows \<and>
     (\<forall>j \<in> set (own_jobs (pc_eid c) (db_jobs d)). j_state j = JPending) \<and>
     distinct (map j_id (db_jobs d)) \<and>
     (\<forall>j \<in> set (db_jobs d). j_id j \<in> range (pc_uuid c) \<longrightarrow> j_exec j = pc_eid c)"

text \<open>The other processes leave the execution and its jobs alone while it is planned, and do not
  use its fresh ids.\<close>

definition leaves_alone :: "environment \<Rightarrow> string \<Rightarrow> string set \<Rightarrow> bool" where
  "leaves_alone E eid ids \<longleftrightarrow> (\<forall>n now d. let d' = snd (en_others E n (now, d)) in
     own_jobs eid (db_jobs d') = own_jobs eid (db_jobs d) \<and>
     (distinct (map j_id (db_jobs d)) \<longrightarrow> distinct (map j_id (db_jobs d'))) \<and>
     (\<forall>j \<in> set (db_jobs d'). j_id j \<in> ids \<longrightarrow> j \<in> set (db_jobs d)) \<and>
     get_execution eid (db_execs d') = get_execution eid (db_execs d))"

lemma elapse_db: "w_db (elapse E w) = snd (en_others E (w_tick w) (w_now w, w_db w))"
  by (simp add: elapse_def split: prod.splits)

lemma elapse_alone:
  assumes "leaves_alone E (pc_eid c) (range (pc_uuid c))"
  shows "saved c rows (w_db w) \<Longrightarrow> saved c rows (w_db (elapse E w))"
    and "get_execution (pc_eid c) (db_execs (w_db (elapse E w))) = get_execution (pc_eid c) (db_execs (w_db w))"
  using assms unfolding leaves_alone_def saved_def elapse_db Let_def by (metis (no_types, lifting))+

lemma ids_row_of: "ids_of (map row_of js) = map j_id js"
  by (induction js) (auto simp: row_of_def)

lemma own_ids: "saved c rows d \<Longrightarrow> j \<in> set (db_jobs d) \<Longrightarrow> j_exec j = pc_eid c \<Longrightarrow> j_id j \<in> set (ids_of rows)"
proof -
  assume ok: "saved c rows d" and j: "j \<in> set (db_jobs d)" "j_exec j = pc_eid c"
  have "set (ids_of rows) = j_id ` set (own_jobs (pc_eid c) (db_jobs d))"
    using ok ids_row_of [of "own_jobs (pc_eid c) (db_jobs d)"] by (auto simp: saved_def)
  with j show "j_id j \<in> set (ids_of rows)" by (simp add: own_jobs_def)
qed

lemma saved_create:
  assumes ok: "saved c rows d" and new: "\<forall>r \<in> set qs. fst r = pc_eid c \<and> fst (snd r) \<in> range (pc_uuid c)"
    and ids: "distinct (ids_of (rows @ qs))"
  shows "\<exists>t. create_jobs now qs (db_jobs d) = Inr t \<and> saved c (rows @ qs) (d\<lparr>db_jobs := t\<rparr>)"
proof -
  let ?t = "db_jobs d @ map (new_row now) qs"
  have new_ids: "map j_id (map (new_row now) qs) = ids_of qs" by (induction qs) auto
  have apart: "j_id j \<notin> set (ids_of qs)" if j: "j \<in> set (db_jobs d)" for j
  proof
    assume in_new: "j_id j \<in> set (ids_of qs)"
    then have "j_id j \<in> range (pc_uuid c)" using new by (auto simp: ids_of_def)
    then have "j_exec j = pc_eid c" using ok j by (simp add: saved_def)
    with own_ids [OF ok j] in_new ids show False by auto
  qed
  have "distinct (map j_id ?t)"
    using ok ids apart new_ids by (auto simp: saved_def simp del: map_map)
  moreover have "own_jobs (pc_eid c) ?t = own_jobs (pc_eid c) (db_jobs d) @ map (new_row now) qs"
    using new by (auto simp: own_jobs_def filter_id_conv)
  moreover have "map row_of (map (new_row now) qs) = qs" by (induction qs) auto
  ultimately show ?thesis
    using ok new by (auto simp: saved_def create_jobs_def Let_def)
qed

lemma wp_save_jobs:
  assumes env: "leaves_alone E (pc_eid c) (range (pc_uuid c))" and db: "\<forall>n. \<not> en_db_fails E n"
    and ok: "saved c rows (w_db w)" and new: "\<forall>r \<in> set qs. fst r = pc_eid c \<and> fst (snd r) \<in> range (pc_uuid c)"
    and ids: "distinct (ids_of (rows @ qs))"
  shows "wp (save_jobs E qs) (\<lambda>r w'. r = Inr () \<and> saved c (rows @ qs) (w_db w') \<and>
    get_execution (pc_eid c) (db_execs (w_db w')) = get_execution (pc_eid c) (db_execs (w_db w))) w"
proof (cases "qs = []")
  case True
  with ok show ?thesis by (simp add: save_jobs_def wps)
next
  case False
  let ?w = "elapse E w"
  obtain t where t: "create_jobs (w_now ?w) qs (db_jobs (w_db ?w)) = Inr t" "saved c (rows @ qs) ((w_db ?w)\<lparr>db_jobs := t\<rparr>)"
    using saved_create [OF elapse_alone(1) [OF env ok] new ids] by blast
  then show ?thesis using False db by (simp add: save_jobs_def wps elapse_alone(2) [OF env])
qed

text \<open>Not stopped: the execution is there and neither cancelled nor failed.\<close>

definition going_on :: "string \<Rightarrow> db \<Rightarrow> bool" where
  "going_on eid d \<longleftrightarrow> (\<exists>e. get_execution eid (db_execs d) = Some e \<and> e_state e \<notin> {ECancelled, EFailed})"

lemma wp_not_stopped:
  assumes env: "leaves_alone E (pc_eid c) (range (pc_uuid c))" and db: "\<forall>n. \<not> en_db_fails E n"
    and ok: "saved c rows (w_db w)" and "going_on (pc_eid c) (w_db w)"
  shows "wp (if due then planning_stopped E (pc_eid c) else return_step False)
    (\<lambda>r w'. r = Inr False \<and> saved c rows (w_db w') \<and>
      get_execution (pc_eid c) (db_execs (w_db w')) = get_execution (pc_eid c) (db_execs (w_db w))) w"
  using elapse_alone(1) [OF env ok] assms
  by (auto simp: wps planning_stopped_def read_state_def state_of_def going_on_def elapse_alone(2) [OF env])

text \<open>Where the loop stands: \<open>old\<close> rows saved in whole batches, \<open>rows\<close> waiting for theirs.\<close>

definition loop_at :: "nat \<Rightarrow> plan_config \<Rightarrow> new_job list \<Rightarrow> new_job list \<Rightarrow> nat \<Rightarrow> nat \<Rightarrow> bool" where
  "loop_at B c old rows batch made \<longleftrightarrow> B dvd length old \<and> length rows < B \<and> made = length old + length rows \<and>
     batch = length old div B + 1 \<and> ids_of (old @ rows) = map (pc_uuid c) [0..<made] \<and>
     (\<forall>r \<in> set rows. fst r = pc_eid c)"

lemma loop_at_batch: "loop_at B c old rows batch made \<Longrightarrow> 0 < B \<Longrightarrow> made div B + 1 = batch"
  by (auto simp: loop_at_def elim!: dvdE)

lemma plan_ids:
  assumes "ids_of (old @ rows) = map f [0..<n]" and "inj f"
  shows "distinct (ids_of (old @ rows))" and "r \<in> set rows \<Longrightarrow> fst (snd r) \<in> range f"
proof -
  show "distinct (ids_of (old @ rows))"
    unfolding assms(1) by (simp add: distinct_map inj_on_subset [OF assms(2)])
  assume "r \<in> set rows"
  moreover have "set (ids_of rows) = (\<lambda>r. fst (snd r)) ` set rows" by (induction rows) auto
  ultimately have "fst (snd r) \<in> set (ids_of (old @ rows))" by simp
  then show "fst (snd r) \<in> range f" unfolding assms(1) by auto
qed

lemma loop_at_more:
  fixes b :: int and s :: slice
  assumes "loop_at B c old rows batch made" and "0 < B"
  defines "rows' \<equiv> rows @ [plan_row c b made s]"
  shows "length rows' < B \<Longrightarrow> loop_at B c old rows' batch (Suc made)"
    and "B \<le> length rows' \<Longrightarrow> loop_at B c (old @ rows') [] (Suc batch) (Suc made)"
    and "ids_of (old @ rows') = map (pc_uuid c) [0..<Suc made]"
    and "\<forall>r \<in> set rows'. fst r = pc_eid c"
proof -
  show ids: "ids_of (old @ rows') = map (pc_uuid c) [0..<Suc made]" and "\<forall>r \<in> set rows'. fst r = pc_eid c"
    using assms by (auto simp: loop_at_def)
  show "loop_at B c old rows' batch (Suc made)" if "length rows' < B"
    using assms(1) ids that by (auto simp: loop_at_def rows'_def)
  show "loop_at B c (old @ rows') [] (Suc batch) (Suc made)" if "B \<le> length rows'"
  proof -
    have "length rows' = B" using that assms(1) by (auto simp: loop_at_def rows'_def)
    then show ?thesis using assms(1,2) ids by (auto simp: loop_at_def rows'_def)
  qed
qed

lemma wp_plan_loop:
  assumes env: "leaves_alone E (pc_eid c) (range (pc_uuid c))" and db: "\<forall>n. \<not> en_db_fails E n"
    and inj: "inj (pc_uuid c)" and B: "0 < checkpoint_batch_size S"
    and "saved c old (w_db w)" and "going_on (pc_eid c) (w_db w)"
    and "loop_at (checkpoint_batch_size S) c old rows batch made"
  shows "wp (plan_loop E S c None ss batch made rows checked) (\<lambda>r w'. \<exists>old' rows' batch'.
    r = Inr (Some (batch', made + length ss, rows')) \<and> saved c old' (w_db w') \<and>
    old' @ rows' = old @ rows @ rows_from (checkpoint_batch_size S) c made ss \<and>
    loop_at (checkpoint_batch_size S) c old' rows' batch' (made + length ss) \<and>
    get_execution (pc_eid c) (db_execs (w_db w')) = get_execution (pc_eid c) (db_execs (w_db w))) w"
  using assms(5-7)
proof (induction ss arbitrary: w old batch made rows checked)
  case Nil
  then show ?case
    by (simp only: plan_loop.simps option.case wps sum.case)
      (auto simp: wps elapse_alone [OF env])
next
  case (Cons s ss)
  let ?B = "checkpoint_batch_size S" and ?eid = "pc_eid c"
  let ?exec = "\<lambda>w. get_execution ?eid (db_execs (w_db w))"
  let ?rows = "rows @ [plan_row c (int batch) made s]"
  let ?goal = "\<lambda>r w'. \<exists>old' rows' batch'. r = Inr (Some (batch', made + length (s # ss), rows')) \<and> saved c old' (w_db w') \<and>
    old' @ rows' = old @ rows @ rows_from ?B c made (s # ss) \<and>
    loop_at ?B c old' rows' batch' (made + length (s # ss)) \<and> ?exec w' = ?exec w"
  have b: "made div ?B + 1 = batch" using loop_at_batch [OF Cons.prems(3) B] .
  note more = loop_at_more [OF Cons.prems(3) B, of "int batch" s]
  have rest: "wp (if ?B \<le> length ?rows
        then bind_step (save_jobs E ?rows) (\<lambda>_. plan_loop E S c None ss (Suc batch) (Suc made) [] ch)
        else plan_loop E S c None ss batch (Suc made) ?rows ch) ?goal w1"
    if sv: "saved c old (w_db w1)" and ex: "?exec w1 = ?exec w" for ch w1
  proof (cases "?B \<le> length ?rows")
    case True
    note at = more(2) [OF True]
    have ids: "distinct (ids_of (old @ ?rows))" "\<forall>r \<in> set ?rows. fst r = ?eid \<and> fst (snd r) \<in> range (pc_uuid c)"
      using plan_ids [OF more(3) inj] more(4) by blast+
    have "wp (plan_loop E S c None ss (Suc batch) (Suc made) [] ch) ?goal w2"
      if "saved c (old @ ?rows) (w_db w2)" and "?exec w2 = ?exec w" for w2
    proof -
      have "going_on ?eid (w_db w2)" using Cons.prems(2) that(2) by (simp add: going_on_def)
      from wp_use [OF Cons.IH [OF that(1) this at]] show ?thesis using that(2) b by (auto simp: add.commute)
    qed
    then show ?thesis using True
      by (simp only: if_True wp_bind) (rule wp_use [OF wp_save_jobs [OF env db sv ids(2,1)]], auto simp: ex)
  next
    case False
    have "going_on ?eid (w_db w1)" using Cons.prems(2) ex by (simp add: going_on_def)
    from wp_use [OF Cons.IH [OF sv this more(1)]] False b show ?thesis by (auto simp: ex add.commute)
  qed
  have "saved c old (w_db (elapse E w))" "going_on ?eid (w_db (elapse E w))" "?exec (elapse E w) = ?exec w"
    using Cons.prems(1,2) elapse_alone [OF env] by (simp_all add: going_on_def)
  note stopped = wp_not_stopped [OF env db this(1,2)] and ex1 = this(3)
  show ?case
    unfolding plan_loop.simps Let_def
    by (simp only: wps sum.case) (rule wp_use [OF stopped], elim conjE, simp only: sum.case if_False, rule rest, simp_all only: ex1)
qed

lemma get_update_by_id:
  assumes "\<And>e. by_id eid (f e) = by_id eid e"
  shows "get_execution eid (update_where (by_id eid) f t) = map_option f (get_execution eid t)"
proof -
  have "by_id eid e" if "get_execution eid t = Some e" for e
    using that by (simp add: get_execution_def first_where_Some_iff)
  then show ?thesis by (cases "get_execution eid t") (simp_all add: get_update_where assms)
qed

lemma wp_save_plan:
  assumes env: "leaves_alone E (pc_eid c) (range (pc_uuid c))" and db: "\<forall>n. \<not> en_db_fails E n"
    and inj: "inj (pc_uuid c)" and B: "0 < checkpoint_batch_size S"
    and start: "saved c [] (w_db w)" and run: "going_on (pc_eid c) (w_db w)"
  shows "wp (save_plan E S c (ss, None)) (\<lambda>r w'.
    r = Inr (Some (length ss div checkpoint_batch_size S + 1)) \<and>
    saved c (rows_from (checkpoint_batch_size S) c 0 ss) (w_db w') \<and>
    get_execution (pc_eid c) (db_execs (w_db w')) =
      map_option (\<lambda>e. e\<lparr>e_total_jobs := int (length ss), e_plan_complete := Some True\<rparr>)
        (get_execution (pc_eid c) (db_execs (w_db w)))) w"
proof -
  let ?B = "checkpoint_batch_size S" and ?eid = "pc_eid c"
  let ?exec = "\<lambda>w. get_execution ?eid (db_execs (w_db w))"
  have saved_execs: "saved c rows (d\<lparr>db_execs := t\<rparr>) = saved c rows d" for rows d t
    by (simp add: saved_def)
  have finish: "wp (bind_step (set_total_jobs E ?eid n) (\<lambda>_.
         bind_step (on_execs E (\<lambda>now t. ((), mark_plan_complete ?eid t))) (\<lambda>_. return_step (Some batch))))
       (\<lambda>r w'. r = Inr (Some batch) \<and> saved c rows (w_db w') \<and>
         ?exec w' = map_option (\<lambda>e. e\<lparr>e_total_jobs := int n, e_plan_complete := Some True\<rparr>) (?exec w1)) w1"
    if "saved c rows (w_db w1)" for n batch rows w1
    using that elapse_alone [OF env]
    by (simp add: set_total_jobs_def wps db saved_execs mark_plan_complete_def get_update_by_id option.map_comp comp_def)
  have at: "loop_at ?B c [] [] 1 0" using B by (simp add: loop_at_def)
  have step: "wp (bind_step (save_jobs E rows') (\<lambda>_. bind_step (set_total_jobs E ?eid n) (\<lambda>_.
         bind_step (on_execs E (\<lambda>now t. ((), mark_plan_complete ?eid t))) (\<lambda>_. return_step (Some batch)))))
       (\<lambda>r w'. r = Inr (Some batch) \<and> saved c (old' @ rows') (w_db w') \<and>
         ?exec w' = map_option (\<lambda>e. e\<lparr>e_total_jobs := int n, e_plan_complete := Some True\<rparr>) (?exec w1)) w1"
    if sv: "saved c old' (w_db w1)" and l: "loop_at ?B c old' rows' batch n" for old' rows' n batch w1
  proof -
    have ids: "\<forall>r \<in> set rows'. fst r = ?eid \<and> fst (snd r) \<in> range (pc_uuid c)" "distinct (ids_of (old' @ rows'))"
      using plan_ids [OF _ inj] l unfolding loop_at_def by blast+
    have "wp (bind_step (set_total_jobs E ?eid n) (\<lambda>_.
         bind_step (on_execs E (\<lambda>now t. ((), mark_plan_complete ?eid t))) (\<lambda>_. return_step (Some batch))))
       (\<lambda>r w'. r = Inr (Some batch) \<and> saved c (old' @ rows') (w_db w') \<and>
         ?exec w' = map_option (\<lambda>e. e\<lparr>e_total_jobs := int n, e_plan_complete := Some True\<rparr>) (?exec w1)) w2"
      if "saved c (old' @ rows') (w_db w2)" and "?exec w2 = ?exec w1" for w2
      using finish [OF that(1), of n batch] that(2) by simp
    then show ?thesis
      by (subst wp_bind, rule_tac wp_use [OF wp_save_jobs [OF env db sv ids]]) auto
  qed
  show ?thesis
    unfolding save_plan_def fst_conv snd_conv
  proof (subst wp_bind, rule wp_use [OF wp_plan_loop [OF env db inj B start run at]], elim exE conjE, goal_cases)
    case (1 r w1 old' rows' batch')
    have "batch' = length ss div ?B + 1" using loop_at_batch [OF _ B] 1 by fastforce
    with 1 step [of old' w1 rows' batch' "length ss"] show ?case by simp
  qed
qed

subsection \<open>A planner that is alive\<close>

text \<open>The other processes keep somebody else's lease on the execution fresh and never fail it.\<close>

definition lease_kept :: "environment \<Rightarrow> string \<Rightarrow> string \<Rightarrow> rat \<Rightarrow> bool" where
  "lease_kept E eid driver lease_seconds \<longleftrightarrow> (\<forall>n now d.
     (\<forall>e \<in> set (db_execs (snd (en_others E n (now, d)))). by_id eid e \<longrightarrow>
        \<not> lease_free (fst (en_others E n (now, d))) driver lease_seconds e) \<and>
     (state_of eid (db_execs d) \<noteq> Some EFailed \<longrightarrow>
        state_of eid (db_execs (snd (en_others E n (now, d)))) \<noteq> Some EFailed))"

definition not_failed :: "string \<Rightarrow> world \<Rightarrow> bool" where
  "not_failed eid w \<longleftrightarrow> state_of eid (db_execs (w_db w)) \<noteq> Some EFailed"

lemma lease_kept_elapse:
  assumes "lease_kept E eid driver l"
  shows "e \<in> set (db_execs (w_db (elapse E w))) \<Longrightarrow> by_id eid e \<Longrightarrow> \<not> lease_free (w_now (elapse E w)) driver l e"
    and "not_failed eid w \<Longrightarrow> not_failed eid (elapse E w)"
proof -
  have w: "w_db (elapse E w) = snd (en_others E (w_tick w) (w_now w, w_db w))"
    "w_now (elapse E w) = fst (en_others E (w_tick w) (w_now w, w_db w))"
    by (simp_all add: elapse_def split: prod.splits)
  show "e \<in> set (db_execs (w_db (elapse E w))) \<Longrightarrow> by_id eid e \<Longrightarrow> \<not> lease_free (w_now (elapse E w)) driver l e"
    using assms unfolding lease_kept_def w by blast
  show "not_failed eid w \<Longrightarrow> not_failed eid (elapse E w)"
    using assms unfolding lease_kept_def not_failed_def w by blast
qed

lemma claim_denied:
  assumes "\<And>e. e \<in> set t \<Longrightarrow> by_id eid e \<Longrightarrow> \<not> lease_free now driver l e"
  shows "claim_driver now eid driver l t = (False, t)"
proof -
  have "count_where (\<lambda>e. by_id eid e \<and> lease_free now driver l e) t = 0"
    using assms by (auto simp: count_where_zero)
  then show ?thesis by (simp add: claim_driver_def Let_def update_where_none)
qed

lemma wp_recover_turn_alive:
  assumes kept: "lease_kept E eid (pl_recovery_id P) (driver_lease_seconds S)" and "not_failed eid w"
  shows "wp (recover_turn E S P eid) (\<lambda>_. not_failed eid) w"
proof -
  have elapsed: "not_failed eid (elapse E w1)" if "not_failed eid w1" for w1
    using lease_kept_elapse(2) [OF kept that] .
  have claim: "wp (bind_step (if due then on_execs E (\<lambda>now. claim_driver now eid (pl_recovery_id P) (driver_lease_seconds S))
        else return_step False) (\<lambda>abandoned. if \<not> abandoned then return_step None else f)) (\<lambda>_. not_failed eid) w1"
    if "not_failed eid w1" for due f w1
  proof -
    have "claim_driver (w_now (elapse E w1)) eid (pl_recovery_id P) (driver_lease_seconds S) (db_execs (w_db (elapse E w1))) =
        (False, db_execs (w_db (elapse E w1)))"
      by (rule claim_denied) (rule lease_kept_elapse(1) [OF kept])
    then show ?thesis using elapsed [OF that] that by (simp add: wps not_failed_def)
  qed
  have read: "not_failed eid ((elapse E w)\<lparr>w_db := (w_db (elapse E w))\<lparr>db_execs := db_execs (w_db (elapse E w))\<rparr>\<rparr>)"
    using elapsed [OF assms(2)] by (simp add: not_failed_def)
  have seen: "wp (recover_seen E S P eid now ex) (\<lambda>_. not_failed eid) w1" if "not_failed eid w1" for ex now w1
    unfolding recover_seen_def by (intro wp_split_option wp_split_if wp_stay claim that)
  show ?thesis
    unfolding recover_turn_def
    by (rule wp_bindI, subst wp_on_execs) (use read elapsed [OF assms(2)] in \<open>simp add: seen\<close>)
qed

lemma recover_plan_alive:
  assumes "lease_kept E eid (pl_recovery_id P) (driver_lease_seconds S)"
  shows "not_failed eid w \<Longrightarrow> wp (recover_plan n E S P eid) (\<lambda>_. not_failed eid) w"
proof (induction n arbitrary: w)
  case (Suc n)
  have "not_failed eid (w1\<lparr>w_now := t\<rparr>) = not_failed eid w1" for w1 t by (simp add: not_failed_def)
  then show ?case
    unfolding recover_plan.simps
    by (subst wp_bind, rule_tac wp_use [OF wp_recover_turn_alive [OF assms Suc.prems]])
      (auto simp: wp_return wp_bind wp_sleep Suc.IH split: sum.splits option.splits)
qed (simp add: wps)

subsection \<open>A plan that was left unfinished\<close>

definition incomplete :: "string \<Rightarrow> db \<Rightarrow> bool" where
  "incomplete eid d \<longleftrightarrow> (\<forall>e. get_execution eid (db_execs d) = Some e \<longrightarrow> e_plan_complete e = Some False)"

definition nobody_completes :: "environment \<Rightarrow> string \<Rightarrow> bool" where
  "nobody_completes E eid \<longleftrightarrow> (\<forall>n now d. incomplete eid d \<longrightarrow> incomplete eid (snd (en_others E n (now, d))))"

lemma incomplete_update:
  assumes "incomplete eid (d\<lparr>db_execs := t\<rparr>)" and "\<And>e. by_id eid (f e) = by_id eid e"
    and "\<And>e. e_plan_complete (f e) = e_plan_complete e"
  shows "incomplete eid (d\<lparr>db_execs := update_where Q f t\<rparr>)"
  using assms(1) by (auto simp: incomplete_def get_update_where assms(2,3))

lemma set_state_keeps [simp]:
  "by_id eid (set_state t st m e) = by_id eid e" "e_plan_complete (set_state t st m e) = e_plan_complete e"
  by (auto simp: set_state_def set_error_def Let_def split: option.splits)

lemma incomplete_ops:
  assumes "incomplete eid (d\<lparr>db_execs := t\<rparr>)"
  shows "incomplete eid (d\<lparr>db_execs := snd (update_execution_state now i st m t)\<rparr>)"
    and "incomplete eid (d\<lparr>db_execs := snd (claim_driver now i dr l t)\<rparr>)"
    and "incomplete eid (d\<lparr>db_execs := release_driver i dr t\<rparr>)"
proof -
  show "incomplete eid (d\<lparr>db_execs := snd (update_execution_state now i st m t)\<rparr>)"
    using assms by (auto simp: update_execution_state_def intro!: incomplete_update split: option.splits)
  show "incomplete eid (d\<lparr>db_execs := snd (claim_driver now i dr l t)\<rparr>)"
    using assms by (auto simp: claim_driver_def Let_def intro!: incomplete_update)
  show "incomplete eid (d\<lparr>db_execs := release_driver i dr t\<rparr>)"
    using assms by (auto simp: release_driver_def clear_driver_def intro!: incomplete_update)
qed

lemma keeps_incomplete:
  assumes E: "nobody_completes E eid"
    and f: "\<And>now t d. incomplete eid (d\<lparr>db_execs := t\<rparr>) \<Longrightarrow> incomplete eid (d\<lparr>db_execs := snd (f now t)\<rparr>)"
    and w: "incomplete eid (w_db w)"
  shows "wp (on_execs E f) (\<lambda>_ w'. incomplete eid (w_db w')) w"
proof -
  have e: "incomplete eid (w_db (elapse E w))"
    using E w unfolding nobody_completes_def elapse_db by blast
  moreover have "incomplete eid ((w_db (elapse E w))\<lparr>db_execs := snd (f (w_now (elapse E w)) (db_execs (w_db (elapse E w))))\<rparr>)"
    by (rule f) (use e in simp)
  ultimately show ?thesis by (auto simp: wps split: prod.splits)
qed

lemma incomplete_jobs [simp]: "incomplete eid (d\<lparr>db_jobs := t\<rparr>) = incomplete eid d"
  by (simp add: incomplete_def)

lemma keeps_incomplete_jobs:
  assumes "nobody_completes E eid" and "incomplete eid (w_db w)"
  shows "wp (on_jobs E f) (\<lambda>_ w'. incomplete eid (w_db w')) w"
proof -
  have "incomplete eid (w_db (elapse E w))" using assms unfolding nobody_completes_def elapse_db by blast
  then show ?thesis by (auto simp: wps split: prod.splits)
qed

text \<open>A turn of the recovery leaves the plan incomplete, and does not call it complete.\<close>

lemma wp_recover_turn_incomplete:
  assumes E: "nobody_completes E eid" and w: "incomplete eid (w_db w)"
  shows "wp (recover_turn E S P eid) (\<lambda>r w'. incomplete eid (w_db w') \<and> r \<noteq> Inr (Some True)) w"
proof -
  let ?I = "\<lambda>w. incomplete eid (w_db w)"
  let ?Q = "\<lambda>r w'. ?I w' \<and> r \<noteq> Inr (Some True)"
  have seq: "wp (bind_step m f) ?Q w1" if "wp m (\<lambda>_. ?I) w1" and "\<And>x w2. ?I w2 \<Longrightarrow> wp (f x) ?Q w2"
    for m :: "(world, 'a) step" and f w1
    unfolding wp_bind by (rule wp_use [OF that(1)]) (auto intro: that(2) split: sum.splits)
  have stay: "?I w1 \<Longrightarrow> x \<noteq> Some True \<Longrightarrow> wp (return_step x) ?Q w1" for x w1 by (simp add: wps)
  have plain: "?I w1 \<Longrightarrow> wp (return_step x) (\<lambda>_. ?I) w1" for w1 and x :: bool by (simp add: wps)
  have abandon: "wp (fail_abandoned E P eid) ?Q w1" if "?I w1" for w1
    unfolding fail_abandoned_def job_counts_of_def
    by (intro seq stay keeps_incomplete_jobs [OF E that] keeps_incomplete [OF E] incomplete_ops)
      (simp_all add: incomplete_ops)
  have seen: "wp (recover_seen E S P eid now ex) ?Q w1"
    if "?I w1" and "\<And>e. ex = Some e \<Longrightarrow> e_plan_complete e = Some False" for ex now w1
    unfolding recover_seen_def
    by (intro wp_split_option wp_split_if seq stay plain that(1) abandon keeps_incomplete [OF E])
      (use that(2) in \<open>auto intro: incomplete_ops\<close>)
  have I: "?I (elapse E w)" using E w unfolding nobody_completes_def elapse_db by blast
  have "get_execution eid (db_execs (w_db (elapse E w))) = Some e \<Longrightarrow> e_plan_complete e = Some False" for e
    using I by (simp add: incomplete_def)
  then show ?thesis
    unfolding recover_turn_def
    by (intro wp_bindI, subst wp_on_execs) (use I in \<open>auto intro!: seen\<close>)
qed

lemma recover_plan_incomplete:
  assumes E: "nobody_completes E eid"
  shows "incomplete eid (w_db w) \<Longrightarrow>
    wp (recover_plan n E S P eid) (\<lambda>r w'. incomplete eid (w_db w') \<and> r \<noteq> Inr (Some True)) w"
proof (induction n arbitrary: w)
  case (Suc n)
  show ?case
    unfolding recover_plan.simps
    by (subst wp_bind, rule wp_use [OF wp_recover_turn_incomplete [OF E Suc.prems]])
      (auto simp: wp_return wp_bind wp_sleep Suc.IH split: sum.splits option.splits)
qed (simp add: wps)

section \<open>Properties\<close>

lemma plan_saved:
  assumes "leaves_alone E eid (range (pl_uuid P))" and "\<forall>n. \<not> en_db_fails E n"
    and "inj (pl_uuid P)" and "0 < checkpoint_batch_size S"
    and "pl_registry P name = Some p" and "pp_resolve p params = Inr (enriched, src)"
    and "plan_slices src enriched = (ss, None)"
    and "own_jobs eid (db_jobs (w_db w)) = []" and "distinct (map j_id (db_jobs (w_db w)))"
    and "\<forall>j \<in> set (db_jobs (w_db w)). j_id j \<notin> range (pl_uuid P)"
    and "get_execution eid (db_execs (w_db w)) = Some ex"
    and "plan_phase E S P eid name params dup w = (r, w')"
  shows "r = Inr (Some (length ss div checkpoint_batch_size S + 1)) \<and>
    map row_of (own_jobs eid (db_jobs (w_db w'))) =
      rows_from (checkpoint_batch_size S) (plan_config_of P p eid name dup enriched) 0 ss \<and>
    (\<forall>j \<in> set (own_jobs eid (db_jobs (w_db w'))). j_state j = JPending) \<and>
    (\<exists>ex'. get_execution eid (db_execs (w_db w')) = Some ex' \<and> e_state ex' = ERunning \<and>
      e_total_jobs ex' = int (length ss) \<and> e_plan_complete ex' = Some True)"
proof -
  let ?c = "plan_config_of P p eid name dup enriched"
  have c [simp]: "pc_eid ?c = eid" "pc_uuid ?c = pl_uuid P" by (simp_all add: plan_config_of_def)
  have plan: "iter_plan name (ss, None) = (ss, None)" by (simp add: iter_plan_def)
  note alone = elapse_alone [of E ?c, unfolded c, OF assms(1)]
  have start: "saved ?c [] (w_db w)" using assms(8-10) by (auto simp: saved_def)
  have execs: "saved ?c rows (d\<lparr>db_execs := t\<rparr>) = saved ?c rows d" for rows d t by (simp add: saved_def)
  let ?w1 = "elapse E (elapse E w)"
  let ?w2 = "?w1\<lparr>w_db := (w_db ?w1)\<lparr>db_execs := update_where (by_id eid) (set_state (w_now ?w1) ERunning None) (db_execs (w_db ?w1))\<rparr>\<rparr>"
  have ex1: "get_execution eid (db_execs (w_db ?w1)) = Some ex" using alone(2) assms(11) by simp
  have set_id: "by_id eid (set_state t st m e) = by_id eid e" for t st m e
    by (auto simp: set_state_def set_error_def Let_def split: option.splits)
  have ex2: "get_execution eid (db_execs (w_db ?w2)) = Some (set_state (w_now ?w1) ERunning None ex)"
    by (simp add: get_update_by_id set_id ex1)
  have st: "e_state (set_state t ERunning None e) = ERunning" for t e
    by (simp add: set_state_def set_error_def TERMINAL_STATES_def Let_def)
  have "going_on eid (w_db ?w2)" using ex2 st by (simp add: going_on_def)
  moreover have "saved ?c [] (w_db ?w2)" using alone(1) start by (simp add: execs)
  ultimately have saved: "wp (save_plan E S ?c (ss, None)) (\<lambda>r w'.
    r = Inr (Some (length ss div checkpoint_batch_size S + 1)) \<and>
    saved ?c (rows_from (checkpoint_batch_size S) ?c 0 ss) (w_db w') \<and>
    get_execution eid (db_execs (w_db w')) =
      Some ((set_state (w_now ?w1) ERunning None ex)\<lparr>e_total_jobs := int (length ss), e_plan_complete := Some True\<rparr>)) ?w2"
    using wp_save_plan [of E ?c S ?w2 ss, unfolded c] assms(1-4) ex2 by simp
  have "plan_phase E S P eid name params dup w = save_plan E S ?c (ss, None) ?w2"
    using assms(2) ex1
    by (simp add: plan_phase_def assms(5,6,7) bind_step_def on_execs_def db_op_def Let_def update_execution_state_def plan)
  with assms(12) have "save_plan E S ?c (ss, None) ?w2 = (r, w')" by simp
  from wpD [OF saved this] show ?thesis by (simp add: saved_def st)
qed

text \<open>C2: a plan is saved whole and in order: when the database answers and the other processes
  leave the execution alone, planning ends with one job row per slice of the plan, each once,
  with its own fresh id, batches of \<open>CHECKPOINT_BATCH_SIZE\<close> in plan order, all waiting to start;
  the execution knows their number and that its plan is complete.\<close>

theorem plan_is_saved_whole:
  assumes "leaves_alone E eid (range (pl_uuid P))" and "\<forall>n. \<not> en_db_fails E n"
    and "inj (pl_uuid P)" and "0 < checkpoint_batch_size S"
    and "pl_registry P name = Some p" and "pp_resolve p params = Inr (enriched, src)"
    and "plan_slices src enriched = (ss, None)"
    and "own_jobs eid (db_jobs (w_db w)) = []" and "distinct (map j_id (db_jobs (w_db w)))"
    and "\<forall>j \<in> set (db_jobs (w_db w)). j_id j \<notin> range (pl_uuid P)"
    and "get_execution eid (db_execs (w_db w)) = Some ex"
    and "plan_phase E S P eid name params dup w = (r, w')"
  shows "r = Inr (Some (length ss div checkpoint_batch_size S + 1)) \<and>
    map row_of (own_jobs eid (db_jobs (w_db w'))) =
      rows_from (checkpoint_batch_size S) (plan_config_of P p eid name dup enriched) 0 ss \<and>
    (\<forall>j \<in> set (own_jobs eid (db_jobs (w_db w'))). j_state j = JPending) \<and>
    (\<exists>ex'. get_execution eid (db_execs (w_db w')) = Some ex' \<and> e_state ex' = ERunning \<and>
      e_total_jobs ex' = int (length ss) \<and> e_plan_complete ex' = Some True)"
  by (rule plan_saved [OF assms])

text \<open>Only a whole plan is dispatched: \<open>run_pipeline_jobs\<close> sends messages only after its
  planning phase has ended with the plan saved and marked complete; planning itself, and
  planning that raises or is aborted, sends nothing.\<close>

theorem only_whole_plans_are_dispatched:
  "case run_pipeline_jobs fuel E S P eid name params rate dup w of (r, w') \<Rightarrow>
     w_topic w' = w_topic w \<or>
     (\<exists>w1 w2 batches. plan_phase E S P eid name params dup w1 = (Inr (Some batches), w2) \<and> w_topic w2 = w_topic w)"
proof -
  obtain r w' where run: "run_pipeline_jobs fuel E S P eid name params rate dup w = (r, w')" by fastforce
  obtain r1 w1 where start: "plan_lease_start E S P eid w = (r1, w1)" by fastforce
  have t1: "w_topic w1 = w_topic w" using movesD [OF topic_leases(1) start] by (simp add: same_topic_def)
  show ?thesis
  proof (cases r1)
    case (Inl e)
    with start t1 show ?thesis by (simp add: run_pipeline_jobs_def bind_step_def)
  next
    case (Inr b)
    obtain r2 w2 where plan: "plan_phase E S P eid name params dup w1 = (r2, w2)" by fastforce
    obtain r3 w3 where stop: "plan_lease_stop E P eid b w2 = (r3, w3)" by fastforce
    have t3: "w_topic w2 = w_topic w" "w_topic w3 = w_topic w"
      using movesD [OF topic_plan_phase plan] movesD [OF topic_leases(2) stop] t1 by (simp_all add: same_topic_def)
    show ?thesis
    proof (cases "\<exists>batches. r2 = Inr (Some batches)")
      case True
      with plan t3 show ?thesis by fastforce
    next
      case False
      then have "w' = w3"
        using run start Inr plan stop
        by (cases r2; cases r3) (auto simp: run_pipeline_jobs_def bind_step_def finally_step_def split: option.splits)
      with t3 run show ?thesis by simp
    qed
  qed
qed

text \<open>A manager that recovers leaves a live planner alone: while somebody else keeps the
  lease of the execution fresh (and does not fail it), \<open>_recover_plan\<close> never fails it, however
  long it waits and whatever the database refuses.\<close>

theorem recovery_spares_a_live_planner:
  assumes "lease_kept E eid (pl_recovery_id P) (driver_lease_seconds S)"
    and "state_of eid (db_execs (w_db w)) \<noteq> Some EFailed"
    and "recover_plan n E S P eid w = (r, w')"
  shows "state_of eid (db_execs (w_db w')) \<noteq> Some EFailed \<and> w_topic w' = w_topic w"
proof -
  have "not_failed eid w" using assms(2) by (simp add: not_failed_def)
  from wpD [OF recover_plan_alive [OF assms(1) this] assms(3)]
  have "not_failed eid w'" .
  moreover have "same_topic w w'" using topic_recover assms(3) by (rule movesD)
  ultimately show ?thesis by (simp add: not_failed_def same_topic_def)
qed

text \<open>C18: a fragment of a plan is never dispatched: resuming an execution whose plan was left
  unfinished (and which nobody completes) sends no message, whether it waits, fails the
  execution or finds it settled.\<close>

theorem fragment_is_never_dispatched:
  assumes "nobody_completes E eid" and "incomplete eid (w_db w)"
    and "resume_run fuel E S P eid rate w = (r, w')"
  shows "w_topic w' = w_topic w"
proof -
  let ?Q = "\<lambda>_ w'. w_topic w' = w_topic w"
  let ?w = "elapse E w"
  have quiet: "wp m ?Q w1" if "moves same_topic m" and "w_topic w1 = w_topic w" for m :: "(world, counts3 option) step" and w1
    by (rule wp_use [OF wp_moves [OF that(1)]]) (simp add: same_topic_def that(2))
  have inc: "incomplete eid (w_db ?w)" using assms(1,2) unfolding nobody_completes_def elapse_db by blast
  have waits: "wp (bind_step (recover_plan fuel E S P eid) (\<lambda>whole. if whole \<noteq> Some True then return_step None else f)) ?Q w1"
    if "incomplete eid (w_db w1)" and "w_topic w1 = w_topic w" for f w1
    unfolding wp_bind
    by (rule wp_use [OF wp_conj [OF recover_plan_incomplete [OF assms(1) that(1)] wp_moves [OF topic_recover]]])
      (auto simp: same_topic_def that(2) wp_return split: sum.splits)
  have missing: "moves same_topic (bind_step (on_execs E (\<lambda>now. update_execution_state now eid EFailed m))
      (\<lambda>_. return_step (None :: counts3 option)))" for m
    by (intro topic_compose topic_ops)
  have "wp (resume_run fuel E S P eid rate) ?Q w"
    unfolding resume_run_def
    by (intro wp_bindI, subst wp_on_execs)
      (use inc in \<open>auto simp: incomplete_def wp_return intro!: waits quiet [OF missing] wp_split_if split: option.splits\<close>)
  then show ?thesis using assms(3) by (rule wpD)
qed

subsection \<open>Witnesses\<close>

definition ids :: "nat \<Rightarrow> string" where
  "ids n = replicate n (CHR ''u'')"

lemma inj_ids: "inj ids"
  by (rule injI) (metis ids_def length_replicate)

definition two_jobs :: plan_pipeline where
  "two_jobs = \<lparr>pp_resolve = (\<lambda>ps. Inr (ps, Iterable [ItemRecords [PInt 1], ItemRecords [], ItemSource (job_source [PInt 2] [(''current_id'', PInt 2)])] None)),
     pp_rate_limit = None, pp_enable_duplicates = True, pp_id_based = False\<rparr>"

definition example_planner :: planner where
  "example_planner = \<lparr>pl_registry = (\<lambda>n. if n = ''p'' then Some two_jobs else None), pl_missing = (\<lambda>_. []),
     pl_inject = (\<lambda>m. m), pl_uuid = ids, pl_batch_id = ''b'', pl_created_at = ''t'', pl_lease_owner = ''plan:h'',
     pl_driver_id = ''h:1'', pl_recovery_id = ''recover:h'', pl_local = False\<rparr>"

definition planned_execution :: "bool option \<Rightarrow> string option \<Rightarrow> time \<Rightarrow> execution" where
  "planned_execution whole owner beat = \<lparr>e_id = ''e'', e_pipeline = ''p'', e_state = EPending, e_total_jobs = 0,
     e_jobs_dispatched = 0, e_jobs_completed = 0, e_jobs_failed = 0, e_deduplicated = 0,
     e_created_at = 0, e_completed_at = None, e_error = None, e_runtime_params = [],
     e_rate_limit = None, e_driver_id = owner, e_driver_heartbeat = Some beat, e_plan_complete = whole\<rparr>"

definition plan_world :: "execution \<Rightarrow> world" where
  "plan_world e = \<lparr>w_db = \<lparr>db_execs = [e], db_jobs = [], db_buckets = []\<rparr>, w_now = 1000, w_tick = 0, w_topic = [],
     w_unsendable = [], w_track = \<lparr>t_finished = -1, t_progress_at = 0, t_warned_at = 0, t_lease_checked_at = 0\<rparr>,
     w_last_check = 0, w_stop = False\<rparr>"

definition plan_env :: "(time \<Rightarrow> db \<Rightarrow> db) \<Rightarrow> environment" where
  "plan_env f = \<lparr>en_others = (\<lambda>n (t, d). (t + 1, f (t + 1) d)), en_db_fails = (\<lambda>_. False), en_send = (\<lambda>_. Sent),
     en_lag = (\<lambda>_ _. 0)\<rparr>"

theorem plan_is_saved_whole_witness:
  "\<exists>w'. plan_phase (plan_env (\<lambda>_ d. d)) (default_settings\<lparr>checkpoint_batch_size := 1\<rparr>) example_planner ''e'' ''p'' [] None
       (plan_world (planned_execution (Some False) None 0)) = (Inr (Some 3), w') \<and>
     map (\<lambda>j. case row_of j of (eid, jid, payload, batch) \<Rightarrow> (eid, jid, batch)) (own_jobs ''e'' (db_jobs (w_db w'))) =
       [(''e'', [], 1), (''e'', ''u'', 2)]"
proof -
  let ?E = "plan_env (\<lambda>_ d. d)" and ?S = "default_settings\<lparr>checkpoint_batch_size := 1\<rparr>"
  let ?e = "planned_execution (Some False) None 0"
  let ?ss = "[StaticSource [PInt 1], (StaticSource [PInt 2])\<lparr>sl_params := Some [(''current_id'', PInt 2)]\<rparr>]"
  obtain r w' where run: "plan_phase ?E ?S example_planner ''e'' ''p'' [] None (plan_world ?e) = (r, w')" by fastforce
  have alone: "leaves_alone ?E ''e'' (range (pl_uuid example_planner))" "\<forall>n. \<not> en_db_fails ?E n"
    by (simp_all add: leaves_alone_def plan_env_def)
  have inj: "inj (pl_uuid example_planner)" "0 < checkpoint_batch_size ?S"
    by (simp_all add: example_planner_def inj_ids)
  have pipeline: "pl_registry example_planner ''p'' = Some two_jobs" by (simp add: example_planner_def)
  have resolve: "pp_resolve two_jobs [] = Inr ([], Iterable [ItemRecords [PInt 1], ItemRecords [],
      ItemSource (job_source [PInt 2] [(''current_id'', PInt 2)])] None)" by (simp add: two_jobs_def)
  have slices: "plan_slices (Iterable [ItemRecords [PInt 1], ItemRecords [],
      ItemSource (job_source [PInt 2] [(''current_id'', PInt 2)])] None) [] = (?ss, None)"
    by (simp add: plan_slices_def split_slices_def job_source_def static_split_def StaticSource_def dget_or_def
        inherit_params_def)
  have start: "own_jobs ''e'' (db_jobs (w_db (plan_world ?e))) = []" "distinct (map j_id (db_jobs (w_db (plan_world ?e))))"
    "\<forall>j \<in> set (db_jobs (w_db (plan_world ?e))). j_id j \<notin> range (pl_uuid example_planner)"
    "get_execution ''e'' (db_execs (w_db (plan_world ?e))) = Some ?e"
    by (simp_all add: plan_world_def own_jobs_def get_execution_def planned_execution_def by_id_def)
  note saved = plan_is_saved_whole [OF alone inj pipeline resolve slices start run]
  let ?f = "\<lambda>(eid, jid, payload, batch). (eid, jid, batch)"
  have rows: "map row_of (own_jobs ''e'' (db_jobs (w_db w'))) =
      rows_from (checkpoint_batch_size ?S) (plan_config_of example_planner two_jobs ''e'' ''p'' None []) 0 ?ss"
    using saved by blast
  have "map (\<lambda>j. ?f (row_of j)) (own_jobs ''e'' (db_jobs (w_db w'))) =
      map ?f (map row_of (own_jobs ''e'' (db_jobs (w_db w'))))" by (simp only: map_map comp_def)
  also have "\<dots> = map ?f (rows_from (checkpoint_batch_size ?S)
      (plan_config_of example_planner two_jobs ''e'' ''p'' None []) 0 ?ss)" by (simp only: rows)
  also have "\<dots> = [(''e'', [], 1), (''e'', ''u'', 2)]"
    by (simp add: plan_row_def Let_def plan_config_of_def example_planner_def ids_def)
  finally show ?thesis using saved run by simp
qed

text \<open>Between any two operations of the recovery the planner's heartbeat is renewed.\<close>

definition beating :: "time \<Rightarrow> db \<Rightarrow> db" where
  "beating t d = d\<lparr>db_execs := [planned_execution (Some False) (Some ''plan:h'') t]\<rparr>"

theorem recovery_spares_a_live_planner_witness:
  "case recover_plan 5 (plan_env beating) default_settings example_planner ''e''
       (plan_world (planned_execution (Some False) (Some ''plan:h'') 1000)) of (r, w') \<Rightarrow>
     state_of ''e'' (db_execs (w_db w')) \<noteq> Some EFailed \<and> w_topic w' = []"
proof -
  let ?w = "plan_world (planned_execution (Some False) (Some ''plan:h'') 1000)"
  obtain r w' where run: "recover_plan 5 (plan_env beating) default_settings example_planner ''e'' ?w = (r, w')" by fastforce
  have kept: "lease_kept (plan_env beating) ''e'' (pl_recovery_id example_planner) (driver_lease_seconds default_settings)"
    by (auto simp: lease_kept_def plan_env_def beating_def planned_execution_def lease_free_def example_planner_def
        default_settings_def lt_null_def state_of_def get_execution_def)
  have "state_of ''e'' (db_execs (w_db ?w)) \<noteq> Some EFailed"
    by (simp add: plan_world_def planned_execution_def state_of_def get_execution_def by_id_def)
  from recovery_spares_a_live_planner [OF kept this run] show ?thesis
    unfolding run by (simp add: plan_world_def)
qed

theorem fragment_is_never_dispatched_witness:
  "case resume_run 5 (plan_env (\<lambda>_ d. d)) default_settings example_planner ''e'' None
       (plan_world (planned_execution (Some False) (Some ''plan:h'') 0)) of (r, w') \<Rightarrow> w_topic w' = []"
proof -
  let ?w = "plan_world (planned_execution (Some False) (Some ''plan:h'') 0)"
  obtain r w' where run: "resume_run 5 (plan_env (\<lambda>_ d. d)) default_settings example_planner ''e'' None ?w = (r, w')"
    by fastforce
  have "nobody_completes (plan_env (\<lambda>_ d. d)) ''e''" "incomplete ''e'' (w_db ?w)"
    by (auto simp: nobody_completes_def plan_env_def incomplete_def plan_world_def planned_execution_def get_execution_def
        split: if_splits)
  from fragment_is_never_dispatched [OF this run] show ?thesis unfolding run by (simp add: plan_world_def)
qed

end
