(* ===== verification/DriveLoop.thy ===== *)
theory DriveLoop
  imports Manager
begin

text \<open>
  What the dispatch loop guarantees: which messages it sends and in which order, its rate
  over its whole life, the number of jobs in flight, and that a loop that lost its lease or
  whose execution is not running sends nothing. The interpretations \<open>batch\<close>, \<open>rate\<close> and
  \<open>window\<close> give the contracts of a dispatcher batch on the world of the manager.
\<close>

subsection \<open>Database operations and the message logs\<close>

abbreviation logs :: "world \<Rightarrow> world \<Rightarrow> bool" where
  "logs \<equiv> same_logs w_topic w_unsendable"

lemma logs_rel [simp]: "reflp (same_logs f g)" "transp (same_logs f g)"
  by (auto simp: same_logs_def reflp_def transp_def)

lemma elapse_fields [simp]:
  "w_topic (elapse E w) = w_topic w" "w_unsendable (elapse E w) = w_unsendable w"
  "w_track (elapse E w) = w_track w" "w_stop (elapse E w) = w_stop w"
  "w_last_check (elapse E w) = w_last_check w"
  by (simp_all add: elapse_def split: prod.splits)

lemma db_op_logs: "moves logs (db_op E f)"
  by (rule movesI) (auto simp: db_op_def same_logs_def Let_def split: prod.splits if_splits)

lemma on_tables_logs [simp]: "moves logs (on_execs E f)" "moves logs (on_jobs E g)"
  by (simp_all add: on_execs_def on_jobs_def db_op_logs)

text \<open>\<open>should_stop\<close> does what its two queries do and sets its own variables.\<close>

lemma should_stop_moves:
  assumes "reflp R" and "transp R"
    and "moves R (on_execs E (\<lambda>now. heartbeat_driver now eid driver_id))" and "moves R (read_state E eid)"
    and "\<And>w b. R w (w\<lparr>w_stop := b\<rparr>)" and "\<And>w t. R w (w\<lparr>w_last_check := t\<rparr>)"
  shows "moves R (should_stop E eid driver_id started chunk)"
proof (rule movesI)
  fix w r w' assume run: "should_stop E eid driver_id started chunk w = (r, w')"
  let ?m = "bind_step (on_execs E (\<lambda>now. heartbeat_driver now eid driver_id)) (\<lambda>alive.
           bind_step (if \<not> alive then return_step True
                      else bind_step (read_state E eid) (\<lambda>st. return_step (st \<noteq> Some ERunning))) (\<lambda>stop.
           bind_step (write_step (\<lambda>w. w\<lparr>w_stop := stop\<rparr>)) (\<lambda>_. return_step stop)))"
  have m: "moves R ?m"
    by (intro moves_bind moves_if moves_write moves_return assms)
  show "R w w'"
  proof (cases "w' = w")
    case True
    then show ?thesis using assms(1) by (simp add: reflp_def)
  next
    case False
    with run have "?m (w\<lparr>w_last_check := w_now w\<rparr>) = (r, w')"
      by (auto simp: should_stop_def Let_def split: if_splits)
    then show ?thesis using movesD [OF m] assms(6) transpD [OF assms(2)] by blast
  qed
qed

lemma logs_should_stop [simp]: "moves logs (should_stop E eid d st c)"
  by (rule should_stop_moves) (simp_all add: read_state_def, simp_all add: same_logs_def)

lemma logs_acquire [simp]: "moves logs (acquire E S key rl)"
  by (rule movesI) (auto simp: acquire_def same_logs_def Let_def split: option.splits)

lemma logsD: "moves logs m \<Longrightarrow> m s = (r, s') \<Longrightarrow> logs s s'"
  by (rule movesD)

interpretation batch: sending "send_port E S eid key rl d st" w_topic w_unsendable
  for E S eid key rl d st
proof
  fix s r s' j f m c r1 r2
  let ?k = "send_port E S eid key rl d st"
  show "p_send ?k j s = (Inr Sent, s') \<Longrightarrow> w_topic s' = w_topic s @ [j] \<and> w_unsendable s' = w_unsendable s"
    by (auto simp: send_port_def kafka_send_def Let_def split: send_result.splits)
  show "p_send ?k j s = (r, s') \<Longrightarrow> r \<noteq> Inr Sent \<Longrightarrow> logs s s'"
    by (auto simp: send_port_def kafka_send_def Let_def same_logs_def split: send_result.splits)
  show "ask_stop ?k c s = (r1, s') \<Longrightarrow> logs s s'"
    by (auto simp: send_port_def ask_stop_def intro: logsD [OF logs_should_stop])
  show "p_token ?k s = (r1, s') \<Longrightarrow> logs s s'"
    by (auto simp: send_port_def intro: logsD [OF logs_acquire])
  show "tell_sent ?k j s = (r2, s') \<Longrightarrow> logs s s'"
    by (auto simp: send_port_def tell_sent_def on_sent_def intro: logsD [OF on_tables_logs(2)])
  show "p_on_unsendable ?k = Some f \<Longrightarrow> f j m s = (r2, s') \<Longrightarrow> logs s s'"
    by (auto simp: send_port_def on_unsendable_def intro: logsD [OF on_tables_logs(2)])
  show "w_topic (p_log_unsendable ?k j m s) = w_topic s \<and>
      w_unsendable (p_log_unsendable ?k j m s) = w_unsendable s @ [j]"
    by (simp add: send_port_def)
qed

subsection \<open>The rate over the whole loop\<close>

text \<open>Nobody else uses the execution's bucket (its key holds the execution id), the clock
  does not go back, \<open>time.sleep\<close> sleeps at least as long as asked, and the rate is not negative.\<close>

definition own_bucket :: "environment \<Rightarrow> settings \<Rightarrow> string \<Rightarrow> rat option \<Rightarrow> bool" where
  "own_bucket E S key rl \<longleftrightarrow> 0 \<le> tokens_per_second (effective_rate (default_rate_limit S) rl) \<and>
     (\<forall>n k. 0 \<le> en_lag E n k) \<and>
     (\<forall>n t db t' db'. en_others E n (t, db) = (t', db') \<longrightarrow>
        t \<le> t' \<and> bucket_of key (db_buckets db') = bucket_of key (db_buckets db))"

definition rate_of :: "settings \<Rightarrow> rat option \<Rightarrow> rat" where
  "rate_of S rl = tokens_per_second (effective_rate (default_rate_limit S) rl)"

definition allowance :: "settings \<Rightarrow> string \<Rightarrow> rat option \<Rightarrow> world \<Rightarrow> rat" where
  "allowance S key rl w = credit (w_now w) (effective_rate (default_rate_limit S) rl) key (db_buckets (w_db w))
     - rate_of S rl * w_now w"

lemma allowance_elapse:
  assumes "own_bucket E S key rl"
  shows "allowance S key rl (elapse E w) \<le> allowance S key rl w"
proof -
  let ?r = "effective_rate (default_rate_limit S) rl"
  obtain t db where o: "en_others E (w_tick w) (w_now w, w_db w) = (t, db)" by fastforce
  then have t: "w_now w \<le> t" and b: "bucket_of key (db_buckets db) = bucket_of key (db_buckets (w_db w))"
    using assms by (auto simp: own_bucket_def)
  have "credit t ?r key (db_buckets (w_db w))
      \<le> credit (w_now w) ?r key (db_buckets (w_db w)) + tokens_per_second ?r * (t - w_now w)"
    using assms t by (intro credit_time) (auto simp: own_bucket_def)
  then show ?thesis
    using o credit_cong [OF b] by (simp add: allowance_def elapse_def rate_of_def algebra_simps)
qed

text \<open>\<open>spends\<close>: the messages sent are paid from the allowance.\<close>

definition spends :: "environment \<Rightarrow> settings \<Rightarrow> string \<Rightarrow> rat option \<Rightarrow> world \<Rightarrow> world \<Rightarrow> bool" where
  "spends E S key rl w w' \<longleftrightarrow> (own_bucket E S key rl \<longrightarrow>
     allowance S key rl w' + of_nat (length (w_topic w')) \<le> allowance S key rl w + of_nat (length (w_topic w)))"

lemma spends_rel [simp]: "reflp (spends E S key rl)" "transp (spends E S key rl)"
  by (auto simp: spends_def reflp_def transp_def)

lemma db_op_allowance:
  assumes "own_bucket E S key rl" and "\<And>now db a db'. f now db = (a, db') \<Longrightarrow> db_buckets db' = db_buckets db"
    and "db_op E f w = (r, w')"
  shows "allowance S key rl w' \<le> allowance S key rl w"
  using allowance_elapse [OF assms(1), of w] assms(2,3)
  by (auto simp: db_op_def allowance_def Let_def split: prod.splits if_splits)

lemma on_tables_allowance:
  assumes "own_bucket E S key rl"
  shows "on_execs E f w = (r, w') \<Longrightarrow> allowance S key rl w' \<le> allowance S key rl w"
    and "on_jobs E g w = (r2, w') \<Longrightarrow> allowance S key rl w' \<le> allowance S key rl w"
  unfolding on_execs_def on_jobs_def
  by (erule db_op_allowance [OF assms, rotated]; auto split: prod.splits)+

lemma spends_on_tables [simp]: "moves (spends E S key rl) (on_execs E f)" "moves (spends E S key rl) (on_jobs E g)"
  using on_tables_allowance movesD [OF on_tables_logs(1)] movesD [OF on_tables_logs(2)]
  by (fastforce intro!: movesI simp: spends_def same_logs_def)+

lemma spends_sleep: "0 \<le> s \<Longrightarrow> moves (spends E S key rl) (sleep s)"
proof (rule movesI)
  fix w r w' assume s: "0 \<le> s" and "sleep s w = (r, w')"
  then have w': "w' = w\<lparr>w_now := w_now w + s\<rparr>" by (simp add: sleep_def)
  show "spends E S key rl w w'"
    unfolding spends_def
  proof
    assume ok: "own_bucket E S key rl"
    have "credit (w_now w + s) (effective_rate (default_rate_limit S) rl) key (db_buckets (w_db w))
      \<le> credit (w_now w) (effective_rate (default_rate_limit S) rl) key (db_buckets (w_db w))
        + rate_of S rl * (w_now w + s - w_now w)"
      unfolding rate_of_def using ok s by (intro credit_time) (auto simp: own_bucket_def)
    then show "allowance S key rl w' + of_nat (length (w_topic w')) \<le> allowance S key rl w + of_nat (length (w_topic w))"
      by (simp add: w' allowance_def algebra_simps)
  qed
qed

lemma allowance_acquire:
  assumes ok: "own_bucket E S key rl" and run: "acquire E S key rl w = (r, w')"
  shows "allowance S key rl w' \<le> allowance S key rl w - (if r = Inr True then 1 else 0)"
proof -
  let ?w1 = "elapse E w" and ?r = "effective_rate (default_rate_limit S) rl"
  note first = allowance_elapse [OF ok, of w]
  show ?thesis
  proof (cases "acquire_token (default_rate_limit S) key rl TOKEN_WAIT_SECONDS (en_lag E (w_tick w))
      (w_now ?w1) (db_buckets (w_db ?w1))")
    case None
    with run first show ?thesis by (auto simp: acquire_def Let_def)
  next
    case (Some x)
    obtain r' t bs where x: "x = (r', t, bs)" by (cases x) auto
    have eq: "r' = r" "w' = ?w1\<lparr>w_now := t, w_db := (w_db ?w1)\<lparr>db_buckets := bs\<rparr>\<rparr>"
      using run Some x by (simp_all add: acquire_def Let_def)
    have "w_now ?w1 \<le> t \<and> credit t ?r key bs + (if r = Inr True then 1 else 0)
      \<le> credit (w_now ?w1) ?r key (db_buckets (w_db ?w1)) + tokens_per_second ?r * (t - w_now ?w1)"
      using ok by (intro credit_acquire [OF _ _ Some [unfolded x eq]]) (auto simp: own_bucket_def)
    with first show ?thesis
      by (simp add: eq(2) allowance_def rate_of_def algebra_simps)
  qed
qed

lemma allowance_fields:
  "allowance S key rl (w\<lparr>w_stop := b\<rparr>) = allowance S key rl w"
  "allowance S key rl (w\<lparr>w_last_check := t\<rparr>) = allowance S key rl w"
  "allowance S key rl (w\<lparr>w_unsendable := u\<rparr>) = allowance S key rl w"
  "allowance S key rl (w\<lparr>w_track := k\<rparr>) = allowance S key rl w"
  "allowance S key rl (w\<lparr>w_topic := p\<rparr>) = allowance S key rl w"
  by (simp_all add: allowance_def)

lemma spends_should_stop: "moves (spends E S key rl) (should_stop E eid d st c)"
  by (rule should_stop_moves) (simp_all add: read_state_def, simp_all add: spends_def allowance_fields)

interpretation rate: metered_sending "send_port E S eid key rl d st" w_topic w_unsendable
    "\<lambda>_. own_bucket E S key rl" "allowance S key rl" 1 0
  for E S eid key rl d st
proof
  fix s r s' j f e c r1 r2
  let ?k = "send_port E S eid key rl d st"
  assume ok: "own_bucket E S key rl"
  show "ask_stop ?k c s = (r1, s') \<Longrightarrow> own_bucket E S key rl \<and> allowance S key rl s' \<le> allowance S key rl s"
    using ok movesD [OF spends_should_stop, of E eid d st c s r1 s' S key rl]
      logsD [OF logs_should_stop, of E eid d st c s r1 s']
    by (auto simp: ask_stop_def send_port_def spends_def same_logs_def)
  show "p_token ?k s = (r1, s') \<Longrightarrow>
      own_bucket E S key rl \<and> allowance S key rl s' \<le> allowance S key rl s - (if r1 = Inr True then 1 else 0)"
    using ok allowance_acquire [OF ok, of s r1 s'] by (simp add: send_port_def)
  show "p_send ?k j s = (r, s') \<Longrightarrow> own_bucket E S key rl \<and> allowance S key rl s' \<le> allowance S key rl s"
    using ok allowance_elapse [OF ok, of s]
    by (auto simp: send_port_def kafka_send_def Let_def allowance_fields split: send_result.splits)
  show "tell_sent ?k j s = (r2, s') \<Longrightarrow> own_bucket E S key rl \<and> allowance S key rl s' \<le> allowance S key rl s + 0"
    using ok on_tables_allowance(2) [OF ok] by (auto simp: tell_sent_def send_port_def on_sent_def)
  show "p_on_unsendable ?k = Some f \<Longrightarrow> f j e s = (r2, s') \<Longrightarrow>
      own_bucket E S key rl \<and> allowance S key rl s' \<le> allowance S key rl s"
    using ok on_tables_allowance(2) [OF ok] by (auto simp: send_port_def on_unsendable_def)
  show "own_bucket E S key rl \<and> allowance S key rl (p_log_unsendable ?k j e s) \<le> allowance S key rl s"
    using ok by (simp add: send_port_def allowance_fields)
qed simp_all

lemma spends_send_jobs: "moves (spends E S key rl) (send_jobs E S eid key rl d js)"
proof (rule movesI)
  fix w r w' assume run: "send_jobs E S eid key rl d js w = (r, w')"
  show "spends E S key rl w w'" unfolding spends_def
  proof
    assume ok: "own_bucket E S key rl"
    from rate.loop_metered [OF ok run [unfolded send_jobs_def kafka_dispatch_jobs_batch_def]]
    show "allowance S key rl w' + of_nat (length (w_topic w')) \<le> allowance S key rl w + of_nat (length (w_topic w))"
      by (simp add: rate.metered_def allowance_fields)
  qed
qed

lemma spends_set_track: "moves (spends E S key rl) (set_track f)"
  unfolding set_track_def by (rule moves_write) (simp add: spends_def allowance_fields)

text \<open>A relation that the database operations, the pauses, the bookkeeping and a batch respect
  is respected by the whole loop.\<close>

locale loop_relation =
  fixes R :: "world \<Rightarrow> world \<Rightarrow> bool" and E :: environment and S :: settings
    and eid :: string and key :: string and rl :: "rat option" and d :: string
  assumes refl: "reflp R" and trans: "transp R"
    and beat: "moves R (on_execs E (\<lambda>now. heartbeat_driver now eid d))"
    and state: "moves R (read_state E eid)"
    and counts: "moves R (job_counts_of E eid)"
    and put: "moves R (on_execs E (f :: time \<Rightarrow> executions \<Rightarrow> unit \<times> executions))"
    and ended: "moves R (on_execs E (g :: time \<Rightarrow> executions \<Rightarrow> execution option \<times> executions))"
    and claim: "moves R (on_execs E (h :: time \<Rightarrow> executions \<Rightarrow> bool \<times> executions))"
    and sweep: "moves R (reclaim E S eid)"
    and look: "moves R (on_jobs E (\<lambda>now t. (p t :: job list, t)))"
    and commit: "moves R (on_jobs E (\<lambda>now t. ((), t)))"
    and wait: "0 \<le> s \<Longrightarrow> moves R (sleep s)"
    and noted: "moves R (set_track k)"
begin

lemma sync: "moves R (sync_counts_from_db E eid)"
  unfolding sync_counts_from_db_def by (intro moves_bind moves_return trans counts put refl)

lemma finalize: "moves R (finalize_execution_state E eid n c)"
  unfolding finalize_execution_state_def
  by (cases c) (auto intro!: moves_bind moves_try moves_return trans refl sync counts ended)

lemma step:
  assumes "\<And>js. moves R (send_jobs E S eid key rl d js)"
  shows "moves R (drive_step E S eid rl key d)"
  unfolding drive_step_def Let_def
  by (intro moves_bind moves_if moves_return moves_read trans refl beat state counts sync finalize sweep
      look commit wait noted assms) (simp_all add: CHECKPOINT_POLL_INTERVAL_def)

lemma backoff_nonneg: "0 \<le> next_backoff b"
  by (simp add: next_backoff_def)

lemma loop:
  assumes "moves R (drive_step E S eid rl key d)"
  shows "moves R (drive_loop n E S eid rl key d b)"
proof (induction n arbitrary: b)
  case (Suc n)
  have "moves R (case x of Inl b \<Rightarrow> drive_loop n E S eid rl key d b
      | Inr (Some counts) \<Rightarrow> return_step (Some counts) | Inr None \<Rightarrow> drive_loop n E S eid rl key d 0)" for x
    by (cases x) (auto intro: Suc moves_return refl split: option.splits)
  then show ?case unfolding drive_loop.simps
    by (intro moves_bind moves_try moves_return trans refl assms wait backoff_nonneg)
qed (simp only: drive_loop.simps moves_return [OF refl])

lemma standby: "moves R (wait_for_driver_lease n E S eid d)"
proof (induction n)
  case (Suc n)
  then show ?case unfolding wait_for_driver_lease.simps
    by (intro moves_bind moves_try moves_return moves_if moves_option trans refl claim state wait)
      (simp_all add: DRIVER_RETRY_SECONDS_def)
qed (simp only: wait_for_driver_lease.simps moves_return [OF refl])

lemma execution:
  assumes "moves R (drive_step E S eid rl key d)" and "key = name @ '':'' @ eid"
    and start: "\<And>w. R w (w\<lparr>w_track := \<lparr>t_finished = -1, t_progress_at = w_now w,
             t_warned_at = w_now w, t_lease_checked_at = 0\<rparr>\<rparr>)"
  shows "moves R (drive_execution n E S eid name rl d)"
proof -
  have "moves R (drive_loop n E S eid rl (name @ '':'' @ eid) d 0)"
    using loop [OF assms(1)] by (simp add: assms(2))
  then have "moves R (case got of None \<Rightarrow> return_step None
     | Some False \<Rightarrow> bind_step (sync_counts_from_db E eid) (\<lambda>r. return_step (Some r))
     | Some True \<Rightarrow>
         bind_step (write_step (\<lambda>w. w\<lparr>w_track := \<lparr>t_finished = -1, t_progress_at = w_now w,
             t_warned_at = w_now w, t_lease_checked_at = 0\<rparr>\<rparr>)) (\<lambda>_.
         drive_loop n E S eid rl (name @ '':'' @ eid) d 0))" for got
    by (auto intro!: moves_bind moves_return moves_write trans refl sync start split: option.splits bool.splits)
  then show ?thesis unfolding drive_execution_def drive_async_def
    by (intro moves_finally moves_try moves_bind moves_return trans refl standby put)
qed

end

interpretation spending: loop_relation "spends E S (name @ '':'' @ eid) rl" E S eid "name @ '':'' @ eid" rl d
  for E S eid name rl d
  by unfold_locales (simp_all add: read_state_def job_counts_of_def reclaim_def spends_sleep spends_set_track)

subsection \<open>The window of jobs in flight\<close>

definition in_flight :: "string \<Rightarrow> jobs \<Rightarrow> nat" where
  "in_flight eid t = count_where (\<lambda>j. j_exec j = eid \<and> j_state j \<in> {JDispatched, JRunning}) t"

lemma in_flight_counts: "in_flight eid t = c_dispatched (get_job_counts eid t) + c_running (get_job_counts eid t)"
  by (induction t) (auto simp: in_flight_def get_job_counts_def in_state_def)

text \<open>The other processes keep job ids unique and put no further job of the execution in flight.\<close>

definition steady :: "environment \<Rightarrow> string \<Rightarrow> bool" where
  "steady E eid \<longleftrightarrow> (\<forall>n t db t' db'. en_others E n (t, db) = (t', db') \<longrightarrow>
     (distinct (map j_id (db_jobs db)) \<longrightarrow> distinct (map j_id (db_jobs db'))) \<and>
     in_flight eid (db_jobs db') \<le> in_flight eid (db_jobs db))"

definition flying :: "environment \<Rightarrow> string \<Rightarrow> world \<Rightarrow> bool" where
  "flying E eid w \<longleftrightarrow> steady E eid \<and> distinct (map j_id (db_jobs (w_db w)))"

definition load :: "string \<Rightarrow> world \<Rightarrow> rat" where
  "load eid w = of_nat (in_flight eid (db_jobs (w_db w)))"

definition settles :: "environment \<Rightarrow> string \<Rightarrow> world \<Rightarrow> world \<Rightarrow> bool" where
  "settles E eid w w' \<longleftrightarrow> (flying E eid w \<longrightarrow> flying E eid w' \<and> load eid w' \<le> load eid w)"

lemma settles_rel [simp]: "reflp (settles E eid)" "transp (settles E eid)"
  by (auto simp: settles_def reflp_def transp_def)

lemma settles_elapse: "settles E eid w (elapse E w)"
  by (auto simp: settles_def flying_def load_def elapse_def steady_def split: prod.splits)

lemma settles_upd: "db_jobs (w_db w') = db_jobs (w_db w) \<Longrightarrow> settles E eid w w'"
  by (simp add: settles_def flying_def load_def)

lemma settles_elapse_upd: "db_jobs (w_db w') = db_jobs (w_db (elapse E w)) \<Longrightarrow> settles E eid w w'"
  using settles_elapse [of E eid w] by (simp add: settles_def flying_def load_def)

lemma db_op_settles:
  assumes "\<And>now db a db'. f now db = (a, db') \<Longrightarrow>
      map j_id (db_jobs db') = map j_id (db_jobs db) \<and> in_flight eid (db_jobs db') \<le> in_flight eid (db_jobs db)"
  shows "moves (settles E eid) (db_op E f)"
proof (rule movesI)
  fix w r w' assume "db_op E f w = (r, w')"
  moreover have "settles E eid (elapse E w) ((elapse E w)\<lparr>w_db := db\<rparr>)" if "f now (w_db (elapse E w)) = (a, db)" for now a db
    using assms [OF that] by (simp add: settles_def flying_def load_def)
  ultimately show "settles E eid w w'"
    using settles_elapse transpD [OF settles_rel(2)]
    by (fastforce simp: db_op_def Let_def split: prod.splits if_splits)
qed

lemma settles_execs [simp]: "moves (settles E eid) (on_execs E f)"
  unfolding on_execs_def by (rule db_op_settles) (auto split: prod.splits)

lemma settles_jobs:
  assumes "\<And>now t a t'. f now t = (a, t') \<Longrightarrow> map j_id t' = map j_id t \<and> in_flight eid t' \<le> in_flight eid t"
  shows "moves (settles E eid) (on_jobs E f)"
  unfolding on_jobs_def by (rule db_op_settles) (auto split: prod.splits dest: assms)

lemma in_flight_update:
  "(\<And>j. j_exec (f j) = j_exec j \<and> (j_state (f j) \<in> {JDispatched, JRunning} \<longrightarrow> j_state j \<in> {JDispatched, JRunning})) \<Longrightarrow>
   in_flight eid (update_where P f t) \<le> in_flight eid t"
  by (induction t) (auto simp: in_flight_def)

lemma settles_reclaim [simp]: "moves (settles E eid) (reclaim E S eid)"
  unfolding reclaim_def
proof (rule settles_jobs)
  fix now t a t'
  assume "reclaim_expired_leases (lease_lost_message S) now eid (job_running_lease_seconds S)
    (job_dispatch_lease_seconds S) (job_max_attempts S) t = (a, t')"
  then have t': "t' = map (reclaim_row (lease_lost_message S) now eid (job_running_lease_seconds S)
      (job_dispatch_lease_seconds S) (job_max_attempts S)) t"
    by (metis reclaim_table snd_conv)
  show "map j_id t' = map j_id t \<and> in_flight eid t' \<le> in_flight eid t"
    unfolding t' by (induction t) (auto simp: in_flight_def reclaim_row_def stale_running_def)
qed

lemma in_flight_mark:
  assumes "distinct (map j_id t)"
  shows "in_flight eid (mark_job_dispatched now jid t) \<le> in_flight eid t + 1"
proof -
  have other: "in_flight eid (mark_job_dispatched now jid t) = in_flight eid t" if "jid \<notin> j_id ` set t" for t
    using that by (induction t) (auto simp: mark_job_dispatched_def in_flight_def Let_def)
  show ?thesis using assms
  proof (induction t)
    case (Cons j t)
    then show ?case
      using other [of t] by (auto simp: mark_job_dispatched_def in_flight_def Let_def)
  qed (simp add: mark_job_dispatched_def in_flight_def)
qed

interpretation window: metered_sending "send_port E S eid key rl d st" w_topic w_unsendable
    "flying E eid" "load eid" 0 1
  for E S eid key rl d st
proof
  fix s r s' j f e c r1 r2
  let ?k = "send_port E S eid key rl d st"
  assume fl: "flying E eid s"
  have sett: "settles E eid s s' \<Longrightarrow> flying E eid s' \<and> load eid s' \<le> load eid s" for s'
    using fl by (simp add: settles_def)
  have stop: "moves (settles E eid) (should_stop E eid d st c)"
    by (rule should_stop_moves) (simp_all add: read_state_def settles_upd)
  show "ask_stop ?k c s = (r1, s') \<Longrightarrow> flying E eid s' \<and> load eid s' \<le> load eid s"
    by (rule sett) (auto simp: ask_stop_def send_port_def dest: movesD [OF stop])
  have "acquire E S key rl s = (r1, s') \<Longrightarrow> settles E eid s s'"
    by (auto simp: acquire_def Let_def intro!: settles_elapse_upd split: option.splits)
  then show "p_token ?k s = (r1, s') \<Longrightarrow>
      flying E eid s' \<and> load eid s' \<le> load eid s - (if r1 = Inr True then 0 else 0)"
    using sett by (simp add: send_port_def)
  have "kafka_send E j s = (r, s') \<Longrightarrow> settles E eid s s'"
    by (auto simp: kafka_send_def Let_def intro!: settles_elapse_upd split: send_result.splits)
  then show "p_send ?k j s = (r, s') \<Longrightarrow> flying E eid s' \<and> load eid s' \<le> load eid s"
    using sett by (simp add: send_port_def)
  show "tell_sent ?k j s = (r2, s') \<Longrightarrow> flying E eid s' \<and> load eid s' \<le> load eid s + 1"
  proof -
    let ?w = "elapse E s"
    let ?new = "\<lambda>now. ?w\<lparr>w_db := (w_db ?w)\<lparr>db_jobs := mark_job_dispatched now (payload_job_id j) (db_jobs (w_db ?w))\<rparr>\<rparr>"
    assume "tell_sent ?k j s = (r2, s')"
    then have "s' = ?w \<or> s' = ?new (w_now ?w)"
      by (simp add: tell_sent_def send_port_def on_sent_def on_jobs_def db_op_def Let_def split: if_splits)
    moreover have w: "flying E eid ?w" "load eid ?w \<le> load eid s" using sett [OF settles_elapse] by auto
    moreover have "flying E eid (?new now)" and "load eid (?new now) \<le> load eid ?w + 1" for now
      using w(1) in_flight_mark [of "db_jobs (w_db ?w)" eid now "payload_job_id j"]
        same_jobs_ids [OF same_jobs_ops(1), of now "payload_job_id j" "db_jobs (w_db ?w)"]
      by (simp_all add: flying_def load_def)
    ultimately have "flying E eid s'" and "load eid s' \<le> load eid ?w + 1" by (elim disjE; simp)+
    with w(2) show ?thesis by simp
  qed
  show "p_on_unsendable ?k = Some f \<Longrightarrow> f j e s = (r2, s') \<Longrightarrow> flying E eid s' \<and> load eid s' \<le> load eid s"
  proof (rule sett)
    assume "p_on_unsendable ?k = Some f" "f j e s = (r2, s')"
    then have "on_unsendable E j e s = (r2, s')" by (simp add: send_port_def)
    moreover have "moves (settles E eid) (on_unsendable E j e)"
      unfolding on_unsendable_def
      by (rule settles_jobs) (auto simp: update_job_state_def Let_def map_update_where in_flight_update split: if_splits)
    ultimately show "settles E eid s s'" by (blast dest: movesD)
  qed
  show "flying E eid (p_log_unsendable ?k j e s) \<and> load eid (p_log_unsendable ?k j e s) \<le> load eid s"
    by (rule sett) (simp add: send_port_def settles_upd)
qed simp_all

lemma batch_sends:
  assumes "send_jobs E S eid key rl d js w = (r, w')"
  shows "\<exists>fin out bad. prefix fin (map j_payload js) \<and> fin \<in> shuffles out bad \<and>
     w_topic w' = w_topic w @ out \<and> w_unsendable w' = w_unsendable w @ bad \<and> (\<forall>n. r = Inr n \<longrightarrow> n = length out)"
  using batch.loop_handled [OF assms [unfolded send_jobs_def kafka_dispatch_jobs_batch_def]]
  by (simp add: handled_def)

lemma batch_window:
  assumes "flying E eid w" and "send_jobs E S eid key rl d js w = (r, w')"
  shows "flying E eid w' \<and> load eid w' \<le> load eid w + of_nat (length js)"
proof -
  let ?w = "w\<lparr>w_last_check := 0, w_stop := False\<rparr>"
  have fl: "flying E eid ?w" and eq: "load eid ?w = load eid w"
    using assms(1) by (simp_all add: flying_def load_def)
  obtain fin out bad where out: "prefix fin (map j_payload js)" "fin \<in> shuffles out bad" "w_topic w' = w_topic w @ out"
    using batch_sends [OF assms(2)] by blast
  have "length out \<le> length js"
    using length_shuffles [OF out(2)] prefix_length_le [OF out(1)] by simp
  then show ?thesis
    using window.loop_metered [OF fl assms(2) [unfolded send_jobs_def kafka_dispatch_jobs_batch_def]] out(3)
    by (simp add: window.metered_def eq)
qed

text \<open>\<open>capped a b\<close>: from at most \<open>a\<close> jobs in flight to at most \<open>b\<close>.\<close>

definition capped :: "environment \<Rightarrow> string \<Rightarrow> nat \<Rightarrow> nat \<Rightarrow> world \<Rightarrow> world \<Rightarrow> bool" where
  "capped E eid a b w w' \<longleftrightarrow> (flying E eid w \<and> in_flight eid (db_jobs (w_db w)) \<le> a \<longrightarrow>
     flying E eid w' \<and> in_flight eid (db_jobs (w_db w')) \<le> b)"

lemma capped_rel [simp]: "reflp (capped E eid a a)" "transp (capped E eid a a)"
  by (auto simp: capped_def reflp_def transp_def)

lemma settles_capped: "moves (settles E eid) m \<Longrightarrow> moves (capped E eid a a) m"
  by (fastforce simp: moves_def settles_def capped_def load_def)

lemma capped_bind:
  assumes "moves (capped E eid a b) m" and "b \<le> c"
    and "\<And>w x w1. m w = (Inr x, w1) \<Longrightarrow> Q x" and "\<And>x. Q x \<Longrightarrow> moves (capped E eid b c) (f x)"
  shows "moves (capped E eid a c) (bind_step m f)"
proof (rule movesI)
  fix w r w' assume "bind_step m f w = (r, w')"
  then show "capped E eid a c w w'"
  proof (cases rule: bind_stepE)
    case (raised e)
    then show ?thesis using movesD [OF assms(1)] assms(2) by (fastforce simp: capped_def)
  next
    case (returned x w1)
    then show ?thesis
      using movesD [OF assms(1) returned(1)] movesD [OF assms(4) returned(2)] assms(3)
      by (auto simp: capped_def)
  qed
qed

lemma batch_capped:
  assumes "length js \<le> n"
  shows "moves (capped E eid a (a + n)) (send_jobs E S eid key rl d js)"
  using assms batch_window by (fastforce simp: moves_def capped_def load_def)

text \<open>The part of a pass after the counts were read: the window is topped up at most.\<close>

lemma top_up_capped:
  assumes "a \<le> max_in_flight_jobs S"
  shows "moves (capped E eid a (max_in_flight_jobs S))
    (bind_step (on_jobs E (\<lambda>now t.
       (get_pending_jobs eid (min (max_in_flight_jobs S - a) DISPATCH_FETCH_LIMIT) t, t))) (\<lambda>js.
     bind_step (send_jobs E S eid key rl d js) (\<lambda>sent.
     bind_step (sync_counts_from_db E eid) (\<lambda>_. return_step sent))))"
proof (rule capped_bind [where b = a and Q = "\<lambda>js. length js \<le> max_in_flight_jobs S - a"])
  show "moves (capped E eid a a) (on_jobs E (\<lambda>now t.
       (get_pending_jobs eid (min (max_in_flight_jobs S - a) DISPATCH_FETCH_LIMIT) t, t)))"
    by (intro settles_capped settles_jobs) simp
  show "on_jobs E (\<lambda>now t. (get_pending_jobs eid (min (max_in_flight_jobs S - a) DISPATCH_FETCH_LIMIT) t, t)) w
      = (Inr js, w1) \<Longrightarrow> length js \<le> max_in_flight_jobs S - a" for w js w1
    by (auto simp: on_jobs_def db_op_def Let_def get_pending_jobs_length split: prod.splits if_splits)
  show "length js \<le> max_in_flight_jobs S - a \<Longrightarrow>
     moves (capped E eid a (max_in_flight_jobs S)) (bind_step (send_jobs E S eid key rl d js) (\<lambda>sent.
     bind_step (sync_counts_from_db E eid) (\<lambda>_. return_step sent)))" for js
  proof (rule capped_bind [where b = "max_in_flight_jobs S" and Q = "\<lambda>_. True"])
    assume "length js \<le> max_in_flight_jobs S - a"
    then show "moves (capped E eid a (max_in_flight_jobs S)) (send_jobs E S eid key rl d js)"
      using batch_capped [of js "max_in_flight_jobs S - a" E eid a S key rl d] assms by simp
    show "moves (capped E eid (max_in_flight_jobs S) (max_in_flight_jobs S))
       (bind_step (sync_counts_from_db E eid) (\<lambda>_. return_step sent))" for sent
      unfolding sync_counts_from_db_def job_counts_of_def
      by (intro moves_bind moves_return capped_rel settles_capped settles_execs settles_jobs) simp_all
  qed simp_all
qed (use assms in simp_all)

lemma counts_capped:
  assumes "\<And>c. c_dispatched c + c_running c \<le> N \<Longrightarrow> moves (capped E eid (c_dispatched c + c_running c) N) (f c)"
  shows "moves (capped E eid N N) (bind_step (job_counts_of E eid) f)"
proof (rule movesI)
  fix w r w' assume "bind_step (job_counts_of E eid) f w = (r, w')"
  then show "capped E eid N N w w'"
  proof (cases rule: bind_stepE)
    case (raised e)
    have "moves (settles E eid) (job_counts_of E eid)" unfolding job_counts_of_def by (intro settles_jobs) simp
    then show ?thesis using raised by (blast dest: settles_capped movesD)
  next
    case (returned c w1)
    have "moves (capped E eid N N) (job_counts_of E eid)"
      unfolding job_counts_of_def by (intro settles_capped settles_jobs) simp
    then have w1: "capped E eid N N w w1" using returned(1) by (rule movesD)
    have "c = get_job_counts eid (db_jobs (w_db w1))"
      using returned(1) by (auto simp: job_counts_of_def on_jobs_def db_op_def Let_def split: prod.splits if_splits)
    then have "in_flight eid (db_jobs (w_db w1)) = c_dispatched c + c_running c" by (simp add: in_flight_counts)
    with w1 assms returned(2) show ?thesis by (fastforce simp: capped_def dest: movesD)
  qed
qed

lemma capped_weaken: "moves (capped E eid a a) m \<Longrightarrow> a \<le> b \<Longrightarrow> moves (capped E eid a b) m"
  by (fastforce simp: moves_def capped_def)

lemma capped_ops:
  "moves (capped E eid a a) (on_execs E f)" "moves (capped E eid a a) (read_state E eid)"
  "moves (capped E eid a a) (sync_counts_from_db E eid)" "moves (capped E eid a a) (set_track k)"
  "moves (capped E eid a a) (reclaim E S eid)" "moves (capped E eid a a) (sleep x)"
  "moves (capped E eid a a) (on_jobs E (\<lambda>now t. ((), t)))" "moves (capped E eid a a) (finalize_execution_state E eid n c)"
proof -
  have count: "moves (capped E eid a a) (job_counts_of E eid)"
    unfolding job_counts_of_def by (intro settles_capped settles_jobs) simp
  show "moves (capped E eid a a) (on_execs E f)" by (intro settles_capped) simp
  show "moves (capped E eid a a) (read_state E eid)"
    unfolding read_state_def by (intro settles_capped) simp
  have put: "moves (capped E eid a a) (on_execs E g)" for g :: "time \<Rightarrow> executions \<Rightarrow> unit \<times> executions"
    by (intro settles_capped) simp
  have ended: "moves (capped E eid a a) (on_execs E g)" for g :: "time \<Rightarrow> executions \<Rightarrow> execution option \<times> executions"
    by (intro settles_capped) simp
  show sync: "moves (capped E eid a a) (sync_counts_from_db E eid)"
    unfolding sync_counts_from_db_def by (intro moves_bind moves_return capped_rel count put)
  show "moves (capped E eid a a) (set_track k)"
    unfolding set_track_def by (intro settles_capped moves_write settles_upd) simp
  show "moves (capped E eid a a) (reclaim E S eid)" by (intro settles_capped) simp
  show "moves (capped E eid a a) (sleep x)"
    unfolding sleep_def by (intro settles_capped moves_write settles_upd) simp
  show "moves (capped E eid a a) (on_jobs E (\<lambda>now t. ((), t)))" by (intro settles_capped settles_jobs) simp
  show "moves (capped E eid a a) (finalize_execution_state E eid n c)"
    unfolding finalize_execution_state_def
    by (cases c) (auto intro!: moves_bind moves_try moves_return sync count ended)
qed

lemma after_counts_capped:
  assumes "a = c_dispatched c + c_running c" and "a \<le> max_in_flight_jobs S"
  shows "moves (capped E eid a (max_in_flight_jobs S))
    (bind_step (set_track f) (\<lambda>_.
     bind_step
       (if c_pending c \<noteq> 0 \<and> a < max_in_flight_jobs S
        then bind_step (on_jobs E (\<lambda>now t.
               (get_pending_jobs eid (min (max_in_flight_jobs S - a) DISPATCH_FETCH_LIMIT) t, t))) (\<lambda>js.
             bind_step (send_jobs E S eid key rl d js) (\<lambda>sent.
             bind_step (sync_counts_from_db E eid) (\<lambda>_. return_step sent)))
        else return_step 0) (\<lambda>sent.
     bind_step (if sent = 0
                then bind_step (on_jobs E (\<lambda>now t. ((), t))) (\<lambda>_. sleep CHECKPOINT_POLL_INTERVAL)
                else return_step ()) (\<lambda>_.
     return_step None))))"
proof (rule capped_bind [where b = a and Q = "\<lambda>_. True"], goal_cases)
  case (4 x)
  let ?N = "max_in_flight_jobs S"
  have tail: "moves (capped E eid ?N ?N) (bind_step (if sent = 0
                then bind_step (on_jobs E (\<lambda>now t. ((), t))) (\<lambda>_. sleep CHECKPOINT_POLL_INTERVAL)
                else return_step ()) (\<lambda>_. return_step None))" for sent :: nat
    by (intro moves_bind moves_if moves_return capped_rel capped_ops)
  have idle: "moves (capped E eid a ?N) (return_step (0 :: nat))"
    by (rule capped_weaken [OF moves_return [OF capped_rel(1)] assms(2)])
  show ?case
    by (rule capped_bind [where b = ?N and Q = "\<lambda>_. True", OF moves_if [OF top_up_capped [OF assms(2)] idle] order_refl TrueI tail])
qed (use assms(2) capped_ops in simp_all)

lemma drive_step_capped:
  "moves (capped E eid (max_in_flight_jobs S) (max_in_flight_jobs S)) (drive_step E S eid rl key d)"
proof -
  let ?N = "max_in_flight_jobs S"
  have rest: "moves (capped E eid (c_dispatched c + c_running c) ?N)
      (if c_pending c = 0 \<and> c_dispatched c + c_running c = 0
       then bind_step (sync_counts_from_db E eid) (\<lambda>r.
            bind_step (finalize_execution_state E eid (c_total c) r) (\<lambda>r. return_step (Some r)))
       else
     bind_step (set_track f) (\<lambda>_.
     bind_step
       (if c_pending c \<noteq> 0 \<and> c_dispatched c + c_running c < ?N
        then bind_step (on_jobs E (\<lambda>now t.
               (get_pending_jobs eid (min (?N - (c_dispatched c + c_running c)) DISPATCH_FETCH_LIMIT) t, t))) (\<lambda>js.
             bind_step (send_jobs E S eid key rl d js) (\<lambda>sent.
             bind_step (sync_counts_from_db E eid) (\<lambda>_. return_step sent)))
        else return_step 0) (\<lambda>sent.
     bind_step (if sent = 0
                then bind_step (on_jobs E (\<lambda>now t. ((), t))) (\<lambda>_. sleep CHECKPOINT_POLL_INTERVAL)
                else return_step ()) (\<lambda>_.
     return_step None))))" if le: "c_dispatched c + c_running c \<le> ?N" for c f
    by (intro moves_if after_counts_capped [OF refl le] capped_weaken [OF _ le] moves_bind moves_return
        capped_rel capped_ops)
  show ?thesis
    unfolding drive_step_def Let_def
    by (intro moves_bind moves_if moves_return moves_read capped_rel capped_ops counts_capped rest)
qed

interpretation capping: loop_relation "capped E eid N N" E S eid "name @ '':'' @ eid" rl d
  for E S eid name rl d N
  by unfold_locales
    (simp_all add: capped_ops, auto simp: job_counts_of_def intro!: settles_capped settles_jobs)

subsection \<open>An undisturbed world\<close>

text \<open>Only time passes between the operations, and every one of them succeeds.\<close>

definition undisturbed :: "environment \<Rightarrow> bool" where
  "undisturbed E \<longleftrightarrow> (\<forall>n t db. snd (en_others E n (t, db)) = db) \<and> (\<forall>n. \<not> en_db_fails E n)"

definition later :: "environment \<Rightarrow> world \<Rightarrow> time" where
  "later E w = fst (en_others E (w_tick w) (w_now w, w_db w))"

lemma undisturbed_elapse:
  "undisturbed E \<Longrightarrow> elapse E w = w\<lparr>w_now := later E w, w_tick := Suc (w_tick w)\<rparr>"
proof -
  assume "undisturbed E"
  then have "en_others E (w_tick w) (w_now w, w_db w) = (later E w, w_db w)"
    by (simp add: undisturbed_def later_def prod_eq_iff)
  then show ?thesis by (cases w) (simp add: elapse_def)
qed

lemma undisturbed_execs:
  "undisturbed E \<Longrightarrow> on_execs E f w =
     (Inr (fst (f (later E w) (db_execs (w_db w)))),
      w\<lparr>w_now := later E w, w_tick := Suc (w_tick w),
        w_db := (w_db w)\<lparr>db_execs := snd (f (later E w) (db_execs (w_db w)))\<rparr>\<rparr>)"
  by (simp add: on_execs_def db_op_def undisturbed_elapse Let_def split: prod.splits)
    (simp add: undisturbed_def)

lemma undisturbed_jobs:
  "undisturbed E \<Longrightarrow> on_jobs E f w =
     (Inr (fst (f (later E w) (db_jobs (w_db w)))),
      w\<lparr>w_now := later E w, w_tick := Suc (w_tick w),
        w_db := (w_db w)\<lparr>db_jobs := snd (f (later E w) (db_jobs (w_db w)))\<rparr>\<rparr>)"
  by (simp add: on_jobs_def db_op_def undisturbed_elapse Let_def split: prod.splits)
    (simp add: undisturbed_def)

lemma state_of_update_keep:
  "(\<And>e. e_state (f e) = e_state e \<and> e_id (f e) = e_id e) \<Longrightarrow> state_of eid (update_where P f t) = state_of eid t"
proof -
  assume f: "\<And>e. e_state (f e) = e_state e \<and> e_id (f e) = e_id e"
  have "get_execution eid (update_where P f t) = map_option (\<lambda>e. if P e then f e else e) (get_execution eid t)"
    by (rule get_update_where) (simp add: by_id_def f)
  then show ?thesis by (cases "get_execution eid t") (simp_all add: state_of_def f)
qed

lemma finalize_undisturbed:
  assumes "undisturbed E" and "state_of eid (db_execs (w_db w)) \<noteq> None"
  shows "fst (finalize_execution_state E eid n c w) = Inr (synced_counts (get_job_counts eid (db_jobs (w_db w)))) \<and>
     state_of eid (db_execs (w_db (snd (finalize_execution_state E eid n c w)))) =
       Some (let k = get_job_counts eid (db_jobs (w_db w)) in
         if c_completed k + c_failed k + c_deduplicated k = n \<and> c_failed k = 0 then ECompleted else EFailed)"
proof -
  have keep: "state_of eid (update_where (by_id eid) (\<lambda>e. e\<lparr>e_jobs_dispatched := a, e_jobs_completed := b,
      e_jobs_failed := f, e_deduplicated := g\<rparr>) t) = state_of eid t" for a b f g t
    by (rule state_of_update_keep) simp
  show ?thesis using assms(2)
    by (auto simp: finalize_execution_state_def sync_counts_from_db_def job_counts_of_def bind_step_def
        try_step_def undisturbed_execs [OF assms(1)] undisturbed_jobs [OF assms(1)] synced_counts_def Let_def
        state_of_update_execution_state keep final_state_def finished_count_def)
qed

text \<open>A running execution with the jobs \<open>t\<close>, and what leaves it so.\<close>

definition running_with :: "string \<Rightarrow> jobs \<Rightarrow> world \<Rightarrow> bool" where
  "running_with eid t w \<longleftrightarrow> db_jobs (w_db w) = t \<and> state_of eid (db_execs (w_db w)) = Some ERunning"

lemma heartbeat_keeps_state: "state_of eid (snd (heartbeat_driver now e d t)) = state_of eid t"
  unfolding heartbeat_driver_def Let_def snd_conv by (rule state_of_update_keep) simp

lemma running_beat:
  assumes "undisturbed E" and "running_with eid t w"
  shows "\<exists>w'. on_execs E (\<lambda>now. heartbeat_driver now eid d) w =
      (Inr (fst (heartbeat_driver (later E w) eid d (db_execs (w_db w)))), w') \<and> running_with eid t w'"
  using assms(2) by (auto simp: undisturbed_execs [OF assms(1)] running_with_def heartbeat_keeps_state)

lemma running_read:
  assumes "undisturbed E" and "running_with eid t w"
  shows "\<exists>w'. read_state E eid w = (Inr (Some ERunning), w') \<and> running_with eid t w'"
    and "\<exists>w'. job_counts_of E eid w = (Inr (get_job_counts eid t), w') \<and> running_with eid t w'"
  using assms(2)
  by (auto simp: read_state_def job_counts_of_def undisturbed_execs [OF assms(1)] undisturbed_jobs [OF assms(1)]
      running_with_def)

lemma running_sync:
  assumes "undisturbed E" and "running_with eid t w"
  shows "\<exists>w'. sync_counts_from_db E eid w = (Inr (synced_counts (get_job_counts eid t)), w') \<and> running_with eid t w'"
proof -
  have keep: "state_of eid (update_where (by_id eid) (\<lambda>e. e\<lparr>e_jobs_dispatched := a, e_jobs_completed := b,
      e_jobs_failed := f, e_deduplicated := g\<rparr>) t) = state_of eid t" for a b f g t
    by (rule state_of_update_keep) simp
  obtain w1 where w1: "job_counts_of E eid w = (Inr (get_job_counts eid t), w1)" "running_with eid t w1"
    using running_read(2) [OF assms] by blast
  then show ?thesis
    by (auto simp: sync_counts_from_db_def bind_step_def undisturbed_execs [OF assms(1)] running_with_def
        synced_counts_def keep)
qed

definition unfinished :: "string \<Rightarrow> job \<Rightarrow> bool" where
  "unfinished eid j \<longleftrightarrow> j_exec j = eid \<and> j_state j \<in> {JPending, JDispatched, JRunning}"

lemma reclaim_idle:
  "\<forall>j \<in> set t. \<not> unfinished eid j \<Longrightarrow> snd (reclaim_expired_leases msg now eid rl dl ma t) = t"
  unfolding reclaim_table
  by (rule map_idI) (auto simp: reclaim_row_def stale_running_def stale_dispatched_def unfinished_def)

lemma running_sweep:
  assumes "undisturbed E" and "running_with eid t w" and "\<forall>j \<in> set t. \<not> unfinished eid j"
  shows "\<exists>w'. (if b then bind_step (reclaim E S eid) (\<lambda>_. set_track f) else return_step ()) w = (Inr (), w') \<and>
     running_with eid t w'"
  using assms(2) reclaim_idle [OF assms(3)]
  by (auto simp: reclaim_def bind_step_def undisturbed_jobs [OF assms(1)] running_with_def set_track_def)

lemma unfinished_counts:
  assumes "\<forall>j \<in> set t. \<not> unfinished eid j"
  shows "c_pending (get_job_counts eid t) = 0" and "c_dispatched (get_job_counts eid t) = 0"
    and "c_running (get_job_counts eid t) = 0"
  using assms by (auto simp: get_job_counts_def count_where_zero in_state_def unfinished_def)

lemma all_good_counts:
  assumes "\<forall>j \<in> set t. \<not> unfinished eid j"
  shows "(let k = get_job_counts eid t in c_completed k + c_failed k + c_deduplicated k = c_total k \<and> c_failed k = 0)
    \<longleftrightarrow> (\<forall>j \<in> set t. j_exec j = eid \<longrightarrow> j_state j \<in> {JCompleted, JDeduplicated})"
proof -
  let ?k = "get_job_counts eid t"
  have total_is: "c_total ?k = c_completed ?k + c_failed ?k + c_deduplicated ?k + c_cancelled ?k"
    using unfinished_counts [OF assms] by (simp add: get_job_counts_def)
  have "(let k = ?k in c_completed k + c_failed k + c_deduplicated k = c_total k \<and> c_failed k = 0)
      \<longleftrightarrow> c_cancelled ?k = 0 \<and> c_failed ?k = 0"
    unfolding Let_def total_is by auto
  also have "\<dots> \<longleftrightarrow> (\<forall>j \<in> set t. j_exec j = eid \<longrightarrow> j_state j \<notin> {JCancelled, JFailed})"
    by (auto simp: get_job_counts_def count_where_zero in_state_def)
  also have "\<dots> \<longleftrightarrow> (\<forall>j \<in> set t. j_exec j = eid \<longrightarrow> j_state j \<in> {JCompleted, JDeduplicated})"
    using assms job_state_UNIV by (fastforce simp: unfinished_def)
  finally show ?thesis .
qed

lemma settling_step:
  assumes "undisturbed E" and "fst (heartbeat_driver (later E w) eid d (db_execs (w_db w)))"
    and "running_with eid t w" and "\<forall>j \<in> set t. \<not> unfinished eid j"
  shows "\<exists>w'. drive_step E S eid rl key d w = (Inr (Some (synced_counts (get_job_counts eid t))), w') \<and>
     state_of eid (db_execs (w_db w')) = Some
       (if \<forall>j \<in> set t. j_exec j = eid \<longrightarrow> j_state j \<in> {JCompleted, JDeduplicated} then ECompleted else EFailed)"
proof -
  let ?k = "get_job_counts eid t"
  obtain w1 where w1: "on_execs E (\<lambda>now. heartbeat_driver now eid d) w = (Inr True, w1)" "running_with eid t w1"
    using running_beat [OF assms(1,3), of d] assms(2) by auto
  obtain w2 where w2: "read_state E eid w1 = (Inr (Some ERunning), w2)" "running_with eid t w2"
    using running_read(1) [OF assms(1) w1(2)] by blast
  obtain w3 where w3: "(if LEASE_CHECK_INTERVAL \<le> w_now w2 - t_lease_checked_at (w_track w2)
      then bind_step (reclaim E S eid) (\<lambda>_. set_track (\<lambda>t. t\<lparr>t_lease_checked_at := w_now w2\<rparr>)) else return_step ()) w2
      = (Inr (), w3)" "running_with eid t w3"
    using running_sweep [OF assms(1) w2(2) assms(4)] by blast
  obtain w4 where w4: "job_counts_of E eid w3 = (Inr ?k, w4)" "running_with eid t w4"
    using running_read(2) [OF assms(1) w3(2)] by blast
  obtain w5 where w5: "sync_counts_from_db E eid w4 = (Inr (synced_counts ?k), w5)" "running_with eid t w5"
    using running_sync [OF assms(1) w4(2)] by blast
  let ?fin = "finalize_execution_state E eid (c_total ?k) (synced_counts ?k) w5"
  have "drive_step E S eid rl key d w = (Inr (Some (synced_counts ?k)), snd ?fin) \<and>
      state_of eid (db_execs (w_db (snd ?fin))) = Some
       (if \<forall>j \<in> set t. j_exec j = eid \<longrightarrow> j_state j \<in> {JCompleted, JDeduplicated} then ECompleted else EFailed)"
    using finalize_undisturbed [OF assms(1), of eid w5 "c_total ?k" "synced_counts ?k"] w5(2)
      unfinished_counts [OF assms(4)] all_good_counts [OF assms(4)]
    by (cases ?fin) (simp add: drive_step_def bind_step_def w1(1) w2(1) w3(1) w4(1) w5(1) running_with_def Let_def)
  then show ?thesis by blast
qed

lemma next_backoff_min: "1 \<le> x \<Longrightarrow> next_backoff (min (5 * x) 60) = min (5 * (2 * x)) 60"
  by (simp add: next_backoff_def min_def max_def)

text \<open>An example: one running execution with two pending jobs and one finished, driven alone;
  every operation takes a tenth of a second.\<close>

definition example_env :: environment where
  "example_env = \<lparr>en_others = (\<lambda>n (t, db). (t + 1/10, db)), en_db_fails = (\<lambda>_. False),
     en_send = (\<lambda>_. Sent), en_lag = (\<lambda>_ _. 0)\<rparr>"

definition example_execution :: execution where
  "example_execution = \<lparr>e_id = ''e'', e_pipeline = ''p'', e_state = ERunning, e_total_jobs = 0,
     e_jobs_dispatched = 0, e_jobs_completed = 0, e_jobs_failed = 0, e_deduplicated = 0,
     e_created_at = 0, e_completed_at = None, e_error = None, e_runtime_params = [],
     e_rate_limit = None, e_driver_id = Some ''h:1:x'', e_driver_heartbeat = Some 100,
     e_plan_complete = Some True\<rparr>"

definition example_job :: "string \<Rightarrow> int \<Rightarrow> job_state \<Rightarrow> job" where
  "example_job jid b st = (new_row 1 (''e'', jid, [(''job_id'', PStr jid)], b))\<lparr>j_state := st\<rparr>"

definition example_world :: "jobs \<Rightarrow> world" where
  "example_world t = \<lparr>w_db = \<lparr>db_execs = [example_execution], db_jobs = t, db_buckets = []\<rparr>, w_now = 100,
     w_tick = 0, w_topic = [], w_unsendable = [], w_track = \<lparr>t_finished = -1, t_progress_at = 100,
     t_warned_at = 100, t_lease_checked_at = 0\<rparr>, w_last_check = 0, w_stop = False\<rparr>"

lemma example_undisturbed: "undisturbed example_env"
  by (simp add: undisturbed_def example_env_def)

subsection \<open>Properties\<close>

text \<open>C6: the rate limit holds over the whole life of a dispatch loop, however often it is
  interrupted by database errors, stands by for its lease or waits for tokens: the messages
  it sends are at most \<open>max(1, rate/60)\<close> plus rate/60 per elapsed second, when nobody else
  uses the execution's own bucket.\<close>

theorem dispatch_rate_over_the_loop:
  assumes "own_bucket E S (name @ '':'' @ eid) rl" and "buckets_ok (db_buckets (w_db w))"
    and "drive_execution fuel E S eid name rl d w = (r, w')"
  shows "of_nat (length (w_topic w')) - of_nat (length (w_topic w)) \<le>
     max 1 (rate_of S rl) + rate_of S rl * (w_now w' - w_now w)"
proof -
  let ?key = "name @ '':'' @ eid"
  have all: "moves (spends E S ?key rl) (drive_execution fuel E S eid name rl d)"
    by (rule spending.execution [OF spending.step [OF spends_send_jobs] refl])
      (simp add: spends_def allowance_fields)
  then have "allowance S ?key rl w' + of_nat (length (w_topic w')) \<le> allowance S ?key rl w + of_nat (length (w_topic w))"
    using movesD [OF all assms(3)] assms(1) by (simp add: spends_def)
  moreover have "- (rate_of S rl * w_now w') \<le> allowance S ?key rl w'"
    by (simp add: allowance_def)
  moreover have "allowance S ?key rl w \<le> max 1 (rate_of S rl) - rate_of S rl * w_now w"
    using credit_le [OF assms(2)] by (simp add: allowance_def rate_of_def)
  ultimately show ?thesis by (simp add: algebra_simps)
qed

theorem dispatch_rate_over_the_loop_witness:
  "case drive_execution 5 example_env default_settings ''e'' ''p'' (Some 120) ''h:1:x''
      (example_world [example_job ''a'' 1 JPending, example_job ''b'' 1 JPending]) of (r, w') \<Rightarrow>
     of_nat (length (w_topic w')) \<le> 2 + 2 * (w_now w' - 100)"
proof -
  let ?w = "example_world [example_job ''a'' 1 JPending, example_job ''b'' 1 JPending]"
  have own: "own_bucket example_env default_settings (''p'' @ '':'' @ ''e'') (Some 120)"
    by (simp add: own_bucket_def example_env_def effective_rate_def tokens_per_second_def SECONDS_PER_MINUTE_def)
  obtain r w' where run: "drive_execution 5 example_env default_settings ''e'' ''p'' (Some 120) ''h:1:x'' ?w = (r, w')"
    by fastforce
  show ?thesis unfolding run prod.case
    using dispatch_rate_over_the_loop [OF own _ run]
    by (simp add: buckets_ok_def example_world_def rate_of_def effective_rate_def tokens_per_second_def
        SECONDS_PER_MINUTE_def)
qed

text \<open>C5: the window of jobs in flight: whatever the loop does, at most
  \<open>MAX_IN_FLIGHT_JOBS\<close> jobs of the execution are dispatched or running when it ends, if no
  more were when it started and nobody else put jobs in flight meanwhile.\<close>

theorem window_never_exceeded:
  assumes "steady E eid" and "distinct (map j_id (db_jobs (w_db w)))"
    and "in_flight eid (db_jobs (w_db w)) \<le> max_in_flight_jobs S"
    and "drive_execution fuel E S eid name rl d w = (r, w')"
  shows "in_flight eid (db_jobs (w_db w')) \<le> max_in_flight_jobs S"
proof -
  let ?N = "max_in_flight_jobs S"
  have all: "moves (capped E eid ?N ?N) (drive_execution fuel E S eid name rl d)"
    by (rule capping.execution [OF drive_step_capped refl]) (simp add: capped_def flying_def)
  then show ?thesis
    using movesD [OF all assms(4)] assms(1-3) by (simp add: capped_def flying_def)
qed

theorem window_never_exceeded_witness:
  "case drive_execution 5 example_env (default_settings\<lparr>max_in_flight_jobs := 1\<rparr>) ''e'' ''p'' None ''h:1:x''
      (example_world [example_job ''a'' 1 JPending, example_job ''b'' 1 JRunning]) of (r, w') \<Rightarrow>
     in_flight ''e'' (db_jobs (w_db w')) \<le> 1"
proof -
  let ?w = "example_world [example_job ''a'' 1 JPending, example_job ''b'' 1 JRunning]"
  have st: "steady example_env ''e''" by (simp add: steady_def example_env_def)
  obtain r w' where run: "drive_execution 5 example_env (default_settings\<lparr>max_in_flight_jobs := 1\<rparr>) ''e'' ''p''
      None ''h:1:x'' ?w = (r, w')"
    by fastforce
  show ?thesis unfolding run prod.case
    using window_never_exceeded [OF st _ _ run]
    by (simp add: example_world_def example_job_def new_row_def in_flight_def)
qed

text \<open>A batch handles its jobs in the order given, each at most once: a prefix of them
  was handled, each of it either written to the topic or logged as unsendable, in order; the
  rest is untouched, and the number returned is the number of messages written.\<close>

theorem batch_in_order:
  "case send_jobs E S eid key rl d js w of (r, w') \<Rightarrow>
     \<exists>fin out bad. prefix fin (map j_payload js) \<and> fin \<in> shuffles out bad \<and>
       w_topic w' = w_topic w @ out \<and> w_unsendable w' = w_unsendable w @ bad \<and>
       r \<in> {Inr (length out)} \<union> range Inl"
proof -
  obtain r w' where run: "send_jobs E S eid key rl d js w = (r, w')" by fastforce
  obtain fin out bad where "prefix fin (map j_payload js)" "fin \<in> shuffles out bad"
    "w_topic w' = w_topic w @ out" "w_unsendable w' = w_unsendable w @ bad" "\<forall>n. r = Inr n \<longrightarrow> n = length out"
    using batch_sends [OF run] by blast
  moreover from this(5) have "r \<in> {Inr (length out)} \<union> range Inl" by (cases r) auto
  ultimately show ?thesis unfolding run by auto
qed

text \<open>A loop that lost its lease, or finds its execution paused, settled or gone, ends at
  once, without sending a message or failing a job.\<close>

theorem stopped_loop_sends_nothing:
  assumes "on_execs E (\<lambda>now. heartbeat_driver now eid d) w = (Inr alive, w1)"
    and "alive \<Longrightarrow> read_state E eid w1 = (Inr st, w2) \<and> st \<noteq> Some ERunning"
    and "drive_step E S eid rl key d w = (r, w')"
  shows "w_topic w' = w_topic w \<and> w_unsendable w' = w_unsendable w \<and> r \<noteq> Inr None"
proof -
  have sync: "logs u u'" if "sync_counts_from_db E eid u = (x, u')" for u x u'
    using that unfolding sync_counts_from_db_def job_counts_of_def
    by (rule movesD [rotated]) (intro moves_bind moves_return logs_rel on_tables_logs)
  have w1: "logs w w1" using assms(1) by (rule logsD [OF on_tables_logs(1)])
  have w2: "alive \<Longrightarrow> logs w1 w2" using assms(2) by (auto simp: read_state_def intro: logsD [OF on_tables_logs(1)])
  let ?leave = "bind_step (sync_counts_from_db E eid) (\<lambda>r. return_step (Some r))"
  have "\<exists>u. logs w u \<and> ?leave u = (r, w')"
  proof (cases alive)
    case False
    then have "?leave w1 = (r, w')" using assms(1,3) by (simp add: drive_step_def bind_step_def)
    with w1 show ?thesis by blast
  next
    case True
    then have "?leave w2 = (r, w')" using assms by (simp add: drive_step_def bind_step_def)
    moreover have "logs w w2" using w1 w2 [OF True] by (simp add: same_logs_def)
    ultimately show ?thesis by blast
  qed
  then obtain u where u: "logs w u" "?leave u = (r, w')" by blast
  from u(2) show ?thesis
    by (cases rule: bind_stepE) (use u(1) sync in \<open>auto simp: same_logs_def\<close>)
qed

theorem stopped_loop_sends_nothing_witness:
  "case drive_step example_env default_settings ''e'' None ''p:e'' ''other:2:y''
      (example_world [example_job ''a'' 1 JPending]) of (r, w') \<Rightarrow> w_topic w' = [] \<and> r \<noteq> Inr None"
proof -
  let ?w = "example_world [example_job ''a'' 1 JPending]"
  obtain w1 where beat: "on_execs example_env (\<lambda>now. heartbeat_driver now ''e'' ''other:2:y'') ?w = (Inr False, w1)"
    by (simp add: undisturbed_execs [OF example_undisturbed] heartbeat_driver_def example_world_def
        example_execution_def by_id_def Let_def)
  obtain r w' where run: "drive_step example_env default_settings ''e'' None ''p:e'' ''other:2:y'' ?w = (r, w')"
    by fastforce
  show ?thesis unfolding run prod.case
    using stopped_loop_sends_nothing [OF beat _ run] by (simp add: example_world_def)
qed

text \<open>C7: when a loop that owns its running execution finds no unfinished job, it settles the
  execution in that pass: completed exactly when every job of it completed or was
  deduplicated, failed otherwise (a failed or a cancelled job is enough).\<close>

theorem finished_execution_is_settled:
  assumes "undisturbed E" and "fst (heartbeat_driver (later E w) eid d (db_execs (w_db w)))"
    and "state_of eid (db_execs (w_db w)) = Some ERunning"
    and "\<forall>j \<in> set (db_jobs (w_db w)). \<not> unfinished eid j"
  shows "\<exists>w'. drive_step E S eid rl key d w = (Inr (Some (synced_counts (get_job_counts eid (db_jobs (w_db w))))), w') \<and>
     state_of eid (db_execs (w_db w')) = Some
       (if \<forall>j \<in> set (db_jobs (w_db w)). j_exec j = eid \<longrightarrow> j_state j \<in> {JCompleted, JDeduplicated}
        then ECompleted else EFailed)"
  by (rule settling_step [OF assms(1,2) _ assms(4)]) (simp add: running_with_def assms(3))

theorem finished_execution_is_settled_witness:
  "\<exists>w'. drive_step example_env default_settings ''e'' None ''p:e'' ''h:1:x''
      (example_world [example_job ''a'' 1 JCompleted, example_job ''b'' 1 JDeduplicated]) = (Inr (Some (2, 2, 0)), w') \<and>
     state_of ''e'' (db_execs (w_db w')) = Some ECompleted"
proof -
  let ?t = "[example_job ''a'' 1 JCompleted, example_job ''b'' 1 JDeduplicated]"
  have hb: "fst (heartbeat_driver (later example_env (example_world ?t)) ''e'' ''h:1:x'' (db_execs (w_db (example_world ?t))))"
    by (simp add: heartbeat_driver_def example_world_def example_execution_def by_id_def Let_def)
  have jobs: "db_jobs (w_db (example_world ?t)) = ?t"
    "state_of ''e'' (db_execs (w_db (example_world ?t))) = Some ERunning"
    by (simp_all add: example_world_def example_execution_def state_of_def get_execution_def by_id_def)
  have idle: "\<forall>j \<in> set (db_jobs (w_db (example_world ?t))). \<not> unfinished ''e'' j"
    unfolding jobs(1) by (simp add: unfinished_def example_job_def new_row_def)
  have counts: "synced_counts (get_job_counts ''e'' ?t) = (2, 2, 0)"
    by (simp add: example_job_def new_row_def synced_counts_def get_job_counts_def in_state_def)
  have good: "\<forall>j \<in> set ?t. j_exec j = ''e'' \<longrightarrow> j_state j \<in> {JCompleted, JDeduplicated}"
    by (simp add: example_job_def new_row_def)
  show ?thesis
    using finished_execution_is_settled [OF example_undisturbed hb jobs(2) idle, of default_settings None "''p:e''"] good
    unfolding jobs(1) counts by (simp only: if_P)
qed

text \<open>The pause after the \<open>n\<close>th database error in a row is 5, 10, 20, 40 and then 60
  seconds.\<close>

theorem backoff_doubles_to_a_minute:
  "(next_backoff ^^ Suc n) 0 = min (5 * 2 ^ n) 60"
proof (induction n)
  case (Suc n)
  have "next_backoff (min (5 * 2 ^ n) 60) = min (5 * 2 ^ Suc n) 60"
    using next_backoff_min [of "2 ^ n"] by simp
  then show ?case using Suc by (simp only: funpow.simps comp_apply)
qed (simp add: next_backoff_def)

end
