(* ===== verification/Retention.thy ===== *)
theory Retention
  imports DriveLoop ContentDedup
begin

text \<open>
  The sweeper of \<open>reflow_manager/content_dedup_scheduler.py\<close>: expired content hashes go,
  finished executions go with their jobs.
\<close>

definition seconds_of_hours :: "int \<Rightarrow> rat" where
  "seconds_of_hours h = of_int h * 3600"

text \<open>SQL: \<open>NULL < cutoff\<close> is not true.\<close>

definition expired_execution :: "time \<Rightarrow> execution \<Rightarrow> bool" where
  "expired_execution cutoff e = lt_null (e_completed_at e) cutoff"

definition purge_expired_executions :: "time \<Rightarrow> int \<Rightarrow> db \<Rightarrow> nat \<times> db" where
  "purge_expired_executions now retention_hours d =
     (if retention_hours \<le> 0 then (0, d)
      else
        let expired = expired_execution (now - seconds_of_hours retention_hours);
            ids = e_id ` set (filter expired (db_execs d))
        in (count_where expired (db_execs d),
            d\<lparr>db_jobs := delete_where (\<lambda>j. j_exec j \<in> ids) (db_jobs d),
              db_execs := delete_where (\<lambda>e. e_id e \<in> ids) (db_execs d)\<rparr>))"

text \<open>One round of the sweeper's loop: both purges, then the commit; an error rolls both back.\<close>

definition sweep ::
  "time \<Rightarrow> int \<Rightarrow> int \<Rightarrow> (string claim_row list \<Rightarrow> (nat \<times> string claim_row list) option) \<Rightarrow> bool \<Rightarrow>
     db \<times> string claim_row list \<Rightarrow> db \<times> string claim_row list" where
  "sweep now retention_hours execution_retention_hours purge_content fails st =
     (case st of (d, content) \<Rightarrow>
        if fails then st
        else case purge_content content of
          None \<Rightarrow> st
        | Some (n, content') \<Rightarrow> (snd (purge_expired_executions now execution_retention_hours d), content'))"

text \<open>Every job belongs to an execution (the foreign key of the table).\<close>

definition jobs_have_executions :: "db \<Rightarrow> bool" where
  "jobs_have_executions d \<longleftrightarrow> (\<forall>j \<in> set (db_jobs d). \<exists>e \<in> set (db_execs d). e_id e = j_exec j)"

text \<open>What the comment in the code relies on: only a terminal execution has a completion time.\<close>

definition completed_are_terminal :: "db \<Rightarrow> bool" where
  "completed_are_terminal d \<longleftrightarrow> (\<forall>e \<in> set (db_execs d). e_completed_at e \<noteq> None \<longrightarrow> terminal (e_state e))"

lemma planning_revives_a_cancelled_execution:
  assumes "get_execution eid t = Some e" and "e_state e = ECancelled" and "e_completed_at e = Some c"
  shows "\<exists>e'. get_execution eid (snd (update_execution_state now eid ERunning None t)) = Some e' \<and>
    e_state e' = ERunning \<and> e_completed_at e' = Some c"
proof -
  have id: "by_id eid (set_state t st m e) = by_id eid e" for t st m e
    by (auto simp: set_state_def set_error_def Let_def split: option.splits)
  have "by_id eid e" using assms(1) by (simp add: get_execution_def first_where_Some_iff)
  then show ?thesis
    using assms by (simp add: update_execution_state_def get_update_where id)
      (simp add: set_state_def set_error_def TERMINAL_STATES_def Let_def)
qed



end
