(* ===== verification/Protocol.thy ===== *)
theory Protocol
  imports Planner Executor "HOL-Library.Multiset"
begin

text \<open>
  The jobs of the system under all its processes at once. A state is the clock, the jobs table
  and the deliveries at work; an event is one atomic operation of the manager (save, record a
  send, sweep the leases), of an operator (cancel, retry the failed) or of a worker (claim,
  heartbeat, result), in any order and interleaving, with messages delivered any number of
  times. The operations are those of the other theories. A worker that runs a job because its
  claim could not reach the database (\<open>_claim_job\<close> fails open) is not an event here.
\<close>

record sys =
  sy_now :: time
  sy_jobs :: jobs
  sy_active :: "string multiset"
  sy_started :: "string multiset"

datatype event =
    Tick rat
  | Create "new_job list"
  | RecordSent string
  | Unsendable string string
  | Claim string
  | Beat string
  | Finish string job_stats
  | Die string
  | Sweep string
  | Cancel string
  | Requeue string "string option"

text \<open>\<open>sy_active\<close>: the deliveries that claimed a job and have not ended; \<open>sy_started\<close>: every
  claim won. A message carries the id of a row that was saved.\<close>

inductive sys_step :: "settings \<Rightarrow> sys \<Rightarrow> event \<Rightarrow> sys \<Rightarrow> bool" for S where
  tick: "0 \<le> d \<Longrightarrow> sys_step S s (Tick d) (s\<lparr>sy_now := sy_now s + d\<rparr>)"
| create: "create_jobs (sy_now s) rows (sy_jobs s) = Inr t \<Longrightarrow> sys_step S s (Create rows) (s\<lparr>sy_jobs := t\<rparr>)"
| sent: "sys_step S s (RecordSent jid) (s\<lparr>sy_jobs := mark_job_dispatched (sy_now s) jid (sy_jobs s)\<rparr>)"
| unsendable: "sys_step S s (Unsendable jid m)
    (s\<lparr>sy_jobs := snd (update_job_state (sy_now s) jid JFailed None (Some m) None (sy_jobs s))\<rparr>)"
| claimed: "jid \<in> j_id ` set (sy_jobs s) \<Longrightarrow> claim_row_of_job (sy_now s) jid (sy_jobs s) = (None, t) \<Longrightarrow> sys_step S s (Claim jid)
    (s\<lparr>sy_jobs := t, sy_active := add_mset jid (sy_active s), sy_started := add_mset jid (sy_started s)\<rparr>)"
| blocked: "claim_row_of_job (sy_now s) jid (sy_jobs s) = (Some st, t) \<Longrightarrow> sys_step S s (Claim jid) (s\<lparr>sy_jobs := t\<rparr>)"
| beat: "jid \<in># sy_active s \<Longrightarrow> sys_step S s (Beat jid) (s\<lparr>sy_jobs := heartbeat_row (sy_now s) jid (sy_jobs s)\<rparr>)"
| finish: "jid \<in># sy_active s \<Longrightarrow> sys_step S s (Finish jid st)
    (s\<lparr>sy_jobs := result_row (sy_now s) jid st (sy_jobs s), sy_active := sy_active s - {#jid#}\<rparr>)"
| die: "jid \<in># sy_active s \<Longrightarrow> sys_step S s (Die jid) (s\<lparr>sy_active := sy_active s - {#jid#}\<rparr>)"
| sweep: "sys_step S s (Sweep eid) (s\<lparr>sy_jobs := snd (reclaim_expired_leases (lease_lost_message S) (sy_now s) eid
    (job_running_lease_seconds S) (job_dispatch_lease_seconds S) (job_max_attempts S) (sy_jobs s))\<rparr>)"
| cancel: "sys_step S s (Cancel eid) (s\<lparr>sy_jobs := snd (cancel_unstarted_jobs (sy_now s) eid (sy_jobs s))\<rparr>)"
| requeue: "sys_step S s (Requeue eid txt) (s\<lparr>sy_jobs := snd (requeue_failed (sy_now s) eid txt (sy_jobs s))\<rparr>)"

inductive_cases sys_stepE: "sys_step S s e s'"

inductive sys_run :: "settings \<Rightarrow> sys \<Rightarrow> event list \<Rightarrow> sys \<Rightarrow> bool" for S where
  done_run: "sys_run S s [] s"
| step_run: "sys_run S s es s' \<Longrightarrow> sys_step S s' e s'' \<Longrightarrow> sys_run S s (es @ [e]) s''"

subsection \<open>The life of one job\<close>

text \<open>The abstract automaton: the states a job can be in after an event.\<close>

fun next_states :: "event \<Rightarrow> job \<Rightarrow> job_state set" where
  "next_states (RecordSent jid) j = (if j_id j = jid \<and> j_state j = JPending then {JDispatched} else {j_state j})"
| "next_states (Unsendable jid m) j = (if j_id j = jid then {JFailed} else {j_state j})"
| "next_states (Claim jid) j = (if j_id j = jid \<and> j_state j \<in> {JPending, JDispatched} then {JRunning} else {j_state j})"
| "next_states (Finish jid st) j = (if j_id j = jid then {JCompleted, JFailed, JDeduplicated} else {j_state j})"
| "next_states (Sweep eid) j =
     (if j_exec j = eid then (case j_state j of
        JRunning \<Rightarrow> {JRunning, JPending, JFailed} | JDispatched \<Rightarrow> {JDispatched, JPending} | s \<Rightarrow> {s})
      else {j_state j})"
| "next_states (Cancel eid) j = (if j_exec j = eid \<and> j_state j \<in> {JPending, JDispatched} then {JCancelled} else {j_state j})"
| "next_states (Requeue eid txt) j = (if j_exec j = eid \<and> j_state j = JFailed then {JFailed, JPending} else {j_state j})"
| "next_states e j = {j_state j}"

text \<open>What an event does to a job's count of starts.\<close>

definition next_attempts :: "event \<Rightarrow> job \<Rightarrow> job \<Rightarrow> bool" where
  "next_attempts e j j' \<longleftrightarrow> (case e of
     Claim jid \<Rightarrow> j_attempts j' = (if j_id j = jid \<and> j_state j \<in> {JPending, JDispatched} then j_attempts j + 1 else j_attempts j)
   | Requeue eid txt \<Rightarrow> j_attempts j' = (if j_state j = JFailed \<and> j_state j' = JPending then 0 else j_attempts j)
   | _ \<Rightarrow> j_attempts j' = j_attempts j)"

definition job_moves :: "settings \<Rightarrow> event \<Rightarrow> job \<Rightarrow> job \<Rightarrow> bool" where
  "job_moves S e j j' \<longleftrightarrow> j_id j' = j_id j \<and> j_exec j' = j_exec j \<and> j_state j' \<in> next_states e j \<and>
     next_attempts e j j' \<and>
     (\<forall>eid. e = Sweep eid \<and> j_state j = JRunning \<and> j_state j' = JPending \<longrightarrow> j_attempts j < job_max_attempts S)"

lemma job_moves_update:
  assumes "\<And>j. j \<in> set t \<Longrightarrow> P j \<Longrightarrow> job_moves S e j (f j)"
    and "\<And>j. j \<in> set t \<Longrightarrow> \<not> P j \<Longrightarrow> job_moves S e j j"
  shows "list_all2 (job_moves S e) t (update_where P f t)"
  using assms by (simp add: update_where_def list.rel_map list_all2_same)

text \<open>Every event moves the jobs along the automaton, each on its own; only \<open>Create\<close> adds jobs.\<close>

definition unique_ids :: "sys \<Rightarrow> bool" where
  "unique_ids s \<longleftrightarrow> distinct (map j_id (sy_jobs s))"

lemma claim_moves:
  assumes "claim_row_of_job now jid t = (r, t')" and "distinct (map j_id t)"
  shows "list_all2 (job_moves S (Claim jid)) t t'"
proof -
  let ?P = "\<lambda>j. j_id j = jid \<and> j_state j \<in> {JPending, JDispatched}"
  have t': "t' = (if count_where ?P t = 1
      then update_where ?P (\<lambda>j. j\<lparr>j_state := JRunning, j_attempts := j_attempts j + 1, j_updated := now\<rparr>) t else t)"
    using assms(1) by (auto simp: claim_row_of_job_def Let_def split: if_splits)
  show ?thesis
  proof (cases "count_where ?P t = 1")
    case True
    show ?thesis unfolding t' if_P [OF True]
      by (rule job_moves_update) (auto simp: job_moves_def next_attempts_def)
  next
    case False
    have "\<not> ?P j" if j: "j \<in> set t" for j
    proof
      assume "?P j"
      then have "count_where ?P t = 1"
        using count_where_key_pos [of j_id t j jid "\<lambda>j. j_state j \<in> {JPending, JDispatched}"] assms(2) j by simp
      with False show False by simp
    qed
    then show ?thesis unfolding t' if_not_P [OF False]
      by (auto simp: list_all2_same job_moves_def next_attempts_def)
  qed
qed

lemma sweep_moves:
  "list_all2 (job_moves S (Sweep eid)) t (snd (reclaim_expired_leases msg now eid rl dl (job_max_attempts S) t))"
proof -
  have "job_moves S (Sweep eid) j (reclaim_row msg now eid rl dl (job_max_attempts S) j)" for j
    by (cases "j_state j")
      (auto simp: job_moves_def next_attempts_def reclaim_row_def stale_running_def stale_dispatched_def)
  then show ?thesis
    by (simp only: reclaim_table) (simp add: list.rel_map list_all2_same)
qed

lemma sent_moves: "list_all2 (job_moves S (RecordSent jid)) t (mark_job_dispatched now jid t)"
  by (induction t) (auto simp: mark_job_dispatched_def Let_def job_moves_def next_attempts_def)

lemma table_moves:
  assumes "sys_step S s e s'" and "unique_ids s" and "\<And>rows. e \<noteq> Create rows"
  shows "list_all2 (job_moves S e) (sy_jobs s) (sy_jobs s')"
  using assms(1)
proof cases
  case (unsendable jid m)
  then show ?thesis
    by (auto simp: update_job_state_def Let_def job_moves_def next_attempts_def intro!: job_moves_update)
next
  case (finish jid st)
  then show ?thesis
    by (auto simp: result_row_def result_state_def job_moves_def next_attempts_def intro!: job_moves_update)
next
  case (cancel eid)
  then show ?thesis
    by (auto simp: cancel_unstarted_jobs_def unstarted_def job_moves_def next_attempts_def intro!: job_moves_update)
next
  case (requeue eid msg)
  then show ?thesis
    by (auto simp: requeue_failed_def requeueable_def job_moves_def next_attempts_def intro!: job_moves_update)
next
  case (beat jid)
  then show ?thesis
    by (auto simp: heartbeat_row_def job_moves_def next_attempts_def intro!: job_moves_update)
qed (use assms(2,3) in \<open>auto simp: unique_ids_def sweep_moves sent_moves list_all2_same job_moves_def next_attempts_def
      dest: claim_moves\<close>)

lemma create_extends:
  assumes "create_jobs now rows t = Inr t'"
  shows "t' = t @ map (new_row now) rows" and "distinct (map j_id t) \<Longrightarrow> distinct (map j_id t')"
  using assms by (auto simp: create_jobs_def Let_def split: if_splits)

lemma list_all2_same_ids:
  assumes "list_all2 (job_moves S e) t t'"
  shows "map j_id t' = map j_id t"
  using assms by (induction rule: list_all2_induct) (auto simp: job_moves_def)

lemma step_unique_ids:
  assumes "sys_step S s e s'" and "unique_ids s"
  shows "unique_ids s'"
proof (cases "\<exists>rows. e = Create rows")
  case True
  then show ?thesis
    using assms by (auto simp: unique_ids_def dest: create_extends(2) elim!: sys_stepE)
next
  case False
  then show ?thesis
    using list_all2_same_ids [OF table_moves [OF assms]] assms(2) by (simp add: unique_ids_def)
qed

lemma run_unique_ids:
  "sys_run S s es s' \<Longrightarrow> unique_ids s \<Longrightarrow> unique_ids s'"
  by (induction rule: sys_run.induct) (auto dest: step_unique_ids)

text \<open>Where a job of the table after an event comes from: it was created by it, or it moved.\<close>

lemma step_origin:
  assumes "sys_step S s e s'" and "unique_ids s" and "j' \<in> set (sy_jobs s')"
  obtains (moved) j where "j \<in> set (sy_jobs s)" and "job_moves S e j j'"
    | (kept) rows where "e = Create rows" and "j' \<in> set (sy_jobs s)"
    | (fresh) rows r where "e = Create rows" and "j' = new_row (sy_now s) r" and "j_id j' \<notin> j_id ` set (sy_jobs s)"
proof (cases "\<exists>rows. e = Create rows")
  case True
  then obtain rows where e: "e = Create rows" by blast
  with assms(1) have c: "create_jobs (sy_now s) rows (sy_jobs s) = Inr (sy_jobs s')"
    by (auto elim: sys_stepE)
  consider "j' \<in> set (sy_jobs s)" | r where "r \<in> set rows" "j' = new_row (sy_now s) r"
    using create_extends(1) [OF c] assms(3) by auto
  then show ?thesis
  proof cases
    case 1 then show ?thesis using kept [OF e] by simp
  next
    case 2
    have "distinct (map j_id (sy_jobs s @ map (new_row (sy_now s)) rows))"
      using create_extends [OF c] assms(2) by (simp add: unique_ids_def)
    then have "j_id j' \<notin> j_id ` set (sy_jobs s)" using 2 by auto
    then show ?thesis using fresh [OF e] 2 by simp
  qed
next
  case False
  have "list_all2 (job_moves S e) (sy_jobs s) (sy_jobs s')"
    using table_moves [OF assms(1,2)] False by blast
  then have "\<exists>j \<in> set (sy_jobs s). job_moves S e j j'"
    using assms(3) by (induction rule: list_all2_induct) auto
  then show ?thesis using moved by blast
qed

subsection \<open>The attempts of a job\<close>

definition attempts_ok :: "settings \<Rightarrow> job \<Rightarrow> bool" where
  "attempts_ok S j \<longleftrightarrow> 0 \<le> j_attempts j \<and> j_attempts j \<le> job_max_attempts S \<and>
     (j_state j \<in> {JPending, JDispatched} \<longrightarrow> j_attempts j < job_max_attempts S)"

lemma attempts_ok_moves:
  assumes "attempts_ok S j" and "job_moves S e j j'" and "0 < job_max_attempts S"
  shows "attempts_ok S j'"
  using assms
  by (cases e; cases "j_state j")
    (auto simp: attempts_ok_def job_moves_def next_attempts_def split: if_splits)

lemma attempts_ok_step:
  assumes "sys_step S s e s'" and "unique_ids s" and "0 < job_max_attempts S"
    and "\<forall>j \<in> set (sy_jobs s). attempts_ok S j"
  shows "\<forall>j \<in> set (sy_jobs s'). attempts_ok S j"
proof
  fix j' assume "j' \<in> set (sy_jobs s')"
  with assms(1,2) show "attempts_ok S j'"
  proof (cases rule: step_origin)
    case (moved j)
    then show ?thesis using assms(3,4) attempts_ok_moves by blast
  next
    case (fresh rows r)
    then show ?thesis using assms(3) by (auto simp: attempts_ok_def new_row_def split: prod.splits)
  qed (use assms(4) in blast)
qed

lemma run_attempts_ok:
  assumes "sys_run S s es s'" and "unique_ids s" and "0 < job_max_attempts S"
    and "\<forall>j \<in> set (sy_jobs s). attempts_ok S j"
  shows "\<forall>j \<in> set (sy_jobs s'). attempts_ok S j"
  using assms
proof (induction rule: sys_run.induct)
  case (step_run s es s' e s'')
  then show ?case using attempts_ok_step [OF step_run.hyps(2)] run_unique_ids [OF step_run.hyps(1)] by blast
qed

subsection \<open>The starts of a job\<close>

definition is_requeue :: "event \<Rightarrow> bool" where
  "is_requeue e = (case e of Requeue eid m \<Rightarrow> True | _ \<Rightarrow> False)"

definition requeues :: "event list \<Rightarrow> nat" where
  "requeues es = length (filter is_requeue es)"

definition starts_ok :: "settings \<Rightarrow> nat \<Rightarrow> sys \<Rightarrow> bool" where
  "starts_ok S r s \<longleftrightarrow> set_mset (sy_started s) \<subseteq> j_id ` set (sy_jobs s) \<and>
     (\<forall>j \<in> set (sy_jobs s). int (count (sy_started s) (j_id j)) \<le> job_max_attempts S * int r + j_attempts j)"

lemma started_after:
  assumes "sys_step S s e s'"
  shows "sy_started s' = sy_started s \<or> (\<exists>jid. e = Claim jid \<and> jid \<in> j_id ` set (sy_jobs s) \<and>
     claim_row_of_job (sy_now s) jid (sy_jobs s) = (None, sy_jobs s') \<and> sy_started s' = add_mset jid (sy_started s))"
  using assms by cases auto


lemma claim_won:
  assumes "claim_row_of_job now jid t = (None, t')" and "distinct (map j_id t)"
    and "j \<in> set t" and "j_id j = jid"
  shows "j_state j \<in> {JPending, JDispatched}"
proof (rule ccontr)
  assume no: "j_state j \<notin> {JPending, JDispatched}"
  have "get_job jid t = Some j"
    using first_where_key [OF assms(2,3)] assms(4) by (simp add: get_job_def)
  moreover have "k = j" if "k \<in> set t" "j_id k = jid" for k
    using that assms(2-4) by (auto simp: distinct_map dest: inj_onD)
  then have "count_where (\<lambda>k. j_id k = jid \<and> j_state k \<in> {JPending, JDispatched}) t = 0"
    using no by (auto simp: count_where_zero)
  ultimately show False using assms(1) by (simp add: claim_row_of_job_def)
qed

lemma next_attempts_other:
  "job_moves S e j j' \<Longrightarrow> \<not> is_requeue e \<Longrightarrow> j_attempts j \<le> j_attempts j'"
  by (cases e) (auto simp: job_moves_def next_attempts_def is_requeue_def split: if_splits)

lemma ids_grow:
  assumes "sys_step S s e s'" and "unique_ids s"
  shows "j_id ` set (sy_jobs s) \<subseteq> j_id ` set (sy_jobs s')"
proof (cases "\<exists>rows. e = Create rows")
  case True
  then show ?thesis using assms(1) by (auto dest!: create_extends(1) elim!: sys_stepE)
next
  case False
  then have "map j_id (sy_jobs s') = map j_id (sy_jobs s)"
    using list_all2_same_ids table_moves [OF assms] by blast
  then have "set (map j_id (sy_jobs s')) = set (map j_id (sy_jobs s))" by (simp only:)
  then show ?thesis by simp
qed

lemma starts_moved:
  assumes "sys_step S s e s'" and "unique_ids s" and "j \<in> set (sy_jobs s)" and "job_moves S e j j'"
    and "\<not> is_requeue e" and "int (count (sy_started s) (j_id j)) \<le> m + j_attempts j"
  shows "int (count (sy_started s') (j_id j')) \<le> m + j_attempts j'"
  using started_after [OF assms(1)]
proof (elim disjE exE conjE)
  assume "sy_started s' = sy_started s"
  then show ?thesis
    using next_attempts_other [OF assms(4,5)] assms(4,6) by (simp add: job_moves_def)
next
  fix jid assume claim: "e = Claim jid" "claim_row_of_job (sy_now s) jid (sy_jobs s) = (None, sy_jobs s')"
    and started: "sy_started s' = add_mset jid (sy_started s)"
  show ?thesis
  proof (cases "j_id j = jid")
    case True
    then have "j_state j \<in> {JPending, JDispatched}"
      using claim_won [OF claim(2) _ assms(3)] assms(2) by (simp add: unique_ids_def)
    then have "j_attempts j' = j_attempts j + 1"
      using assms(4) True claim(1) by (simp add: job_moves_def next_attempts_def)
    then show ?thesis using started True assms(4,6) by (simp add: job_moves_def)
  next
    case False
    then show ?thesis
      using next_attempts_other [OF assms(4,5)] started assms(4,6) by (simp add: job_moves_def)
  qed
qed

lemma starts_requeued:
  assumes "sys_step S s e s'" and "job_moves S e j j'" and "is_requeue e" and "attempts_ok S j"
    and "int (count (sy_started s) (j_id j)) \<le> job_max_attempts S * int r + j_attempts j"
  shows "int (count (sy_started s') (j_id j')) \<le> job_max_attempts S * int (Suc r) + j_attempts j'"
proof -
  have "sy_started s' = sy_started s"
    using assms(1,3) by cases (auto simp: is_requeue_def)
  moreover have "j_id j' = j_id j" "0 \<le> j_attempts j'"
    using assms(2-4) by (auto simp: job_moves_def next_attempts_def is_requeue_def attempts_ok_def split: event.splits if_splits)
  moreover have "j_attempts j \<le> job_max_attempts S" using assms(4) by (simp add: attempts_ok_def)
  ultimately show ?thesis using assms(5) by (simp add: algebra_simps)
qed


lemma starts_ok_step:
  assumes "sys_step S s e s'" and "unique_ids s" and "0 < job_max_attempts S"
    and "\<forall>j \<in> set (sy_jobs s). attempts_ok S j" and "starts_ok S r s"
  shows "starts_ok S (if is_requeue e then Suc r else r) s'"
  unfolding starts_ok_def
proof (intro conjI ballI)
  show "set_mset (sy_started s') \<subseteq> j_id ` set (sy_jobs s')"
  proof -
    have "set_mset (sy_started s') \<subseteq> j_id ` set (sy_jobs s)"
      using started_after [OF assms(1)] assms(5) unfolding starts_ok_def by (elim disjE exE conjE) simp_all
    with ids_grow [OF assms(1,2)] show ?thesis by (rule order_trans [rotated])
  qed
next
  fix j' assume "j' \<in> set (sy_jobs s')"
  with assms(1,2)
  show "int (count (sy_started s') (j_id j')) \<le>
      job_max_attempts S * int (if is_requeue e then Suc r else r) + j_attempts j'"
  proof (cases rule: step_origin)
    case (moved j)
    then show ?thesis
      using starts_moved [OF assms(1,2) moved] starts_requeued [OF assms(1) moved(2)] assms(4,5)
      by (simp add: starts_ok_def)
  next
    case (kept rows)
    then show ?thesis using started_after [OF assms(1)] assms(5) by (auto simp: starts_ok_def is_requeue_def)
  next
    case (fresh rows q)
    then have "j_id j' \<notin> set_mset (sy_started s)" using assms(5) by (auto simp: starts_ok_def)
    then have "count (sy_started s') (j_id j') = 0"
      using started_after [OF assms(1)] fresh(1) by (auto simp: count_eq_zero_iff)
    moreover have "0 \<le> j_attempts j'" using fresh(2) by (simp add: new_row_def split: prod.splits)
    ultimately show ?thesis using assms(3) by simp
  qed
qed

lemma run_starts_ok:
  assumes "sys_run S s es s'" and "unique_ids s" and "0 < job_max_attempts S"
    and "\<forall>j \<in> set (sy_jobs s). attempts_ok S j" and "starts_ok S 0 s"
  shows "starts_ok S (requeues es) s'"
  using assms
proof (induction rule: sys_run.induct)
  case (step_run s es s' e s'')
  have "starts_ok S (if is_requeue e then Suc (requeues es) else requeues es) s''"
    using step_run by (intro starts_ok_step [OF step_run.hyps(2)] run_unique_ids [OF step_run.hyps(1)]
        run_attempts_ok [OF step_run.hyps(1)]) auto
  moreover have "requeues (es @ [e]) = (if is_requeue e then Suc (requeues es) else requeues es)"
    by (simp add: requeues_def)
  ultimately show ?case by (simp only:)
qed (simp add: requeues_def)

subsection \<open>A cancelled job\<close>

definition is_cancelled :: "string \<Rightarrow> sys \<Rightarrow> bool" where
  "is_cancelled jid s \<longleftrightarrow> (\<exists>j \<in> set (sy_jobs s). j_id j = jid \<and> j_state j = JCancelled) \<and> jid \<notin># sy_active s"

lemma cancelled_not_claimed:
  assumes "is_cancelled jid s" and "unique_ids s"
  shows "claim_row_of_job now jid (sy_jobs s) \<noteq> (None, t')"
  using assms claim_won [of now jid "sy_jobs s" t'] unfolding is_cancelled_def unique_ids_def by force

lemma cancelled_step:
  assumes "sys_step S s e s'" and "unique_ids s" and "is_cancelled jid s" and "\<And>m. e \<noteq> Unsendable jid m"
  shows "is_cancelled jid s' \<and> count (sy_started s') jid = count (sy_started s) jid"
proof
  have not_claimed: "\<not> (e = Claim jid \<and> claim_row_of_job (sy_now s) jid (sy_jobs s) = (None, sy_jobs s'))"
    using cancelled_not_claimed [OF assms(3,2)] by blast
  then show "count (sy_started s') jid = count (sy_started s) jid"
    using started_after [OF assms(1)] by (elim disjE exE conjE) (simp_all, metis)
  have active: "jid \<notin># sy_active s'"
    using assms(1,3) not_claimed by cases (auto simp: is_cancelled_def dest: in_diffD)
  obtain j where j: "j \<in> set (sy_jobs s)" "j_id j = jid" "j_state j = JCancelled"
    using assms(3) by (auto simp: is_cancelled_def)
  show "is_cancelled jid s'"
  proof (cases "\<exists>rows. e = Create rows")
    case True
    then show ?thesis
      using assms(1) j active by (auto simp: is_cancelled_def dest!: create_extends(1) elim!: sys_stepE)
  next
    case False
    then have "list_all2 (job_moves S e) (sy_jobs s) (sy_jobs s')"
      using table_moves [OF assms(1,2)] by blast
    then have "\<exists>j' \<in> set (sy_jobs s'). job_moves S e j j'"
      using j(1) by (induction rule: list_all2_induct) auto
    then obtain j' where j': "j' \<in> set (sy_jobs s')" "job_moves S e j j'" by blast
    have "\<And>st. e \<noteq> Finish jid st" using assms(1,3) by (auto simp: is_cancelled_def elim: sys_stepE)
    then have "j_state j' = JCancelled"
      using j'(2) j(2,3) assms(4) by (cases e) (auto simp: job_moves_def split: if_splits)
    then show ?thesis using j' j(2) active by (auto simp: is_cancelled_def job_moves_def)
  qed
qed


lemma cancelled_run:
  assumes "sys_run S s es s'" and "unique_ids s" and "is_cancelled jid s" and "\<And>m. Unsendable jid m \<notin> set es"
  shows "is_cancelled jid s' \<and> count (sy_started s') jid = count (sy_started s) jid"
  using assms
proof (induction rule: sys_run.induct)
  case (step_run s es s' e s'')
  have "is_cancelled jid s' \<and> count (sy_started s') jid = count (sy_started s) jid"
    using step_run.IH step_run.prems by simp
  moreover have "\<And>m. e \<noteq> Unsendable jid m" using step_run.prems(3) by auto
  ultimately show ?case
    using cancelled_step [OF step_run.hyps(2) run_unique_ids [OF step_run.hyps(1)]] step_run.prems(1) by metis
qed simp

subsection \<open>Properties\<close>

definition empty_sys :: "time \<Rightarrow> sys" where
  "empty_sys now = \<lparr>sy_now = now, sy_jobs = [], sy_active = {#}, sy_started = {#}\<rparr>"

lemma empty_sys_ok [simp]:
  "unique_ids (empty_sys now)" "\<forall>j \<in> set (sy_jobs (empty_sys now)). attempts_ok S j"
  "starts_ok S 0 (empty_sys now)"
  by (simp_all add: unique_ids_def starts_ok_def empty_sys_def)

text \<open>One job saved, claimed, lost with its worker, and cancelled while it waits again.\<close>

definition one_job :: "job_state \<Rightarrow> int \<Rightarrow> time \<Rightarrow> job" where
  "one_job st n now = (new_row 0 (''e'', ''a'', [], 1))\<lparr>j_state := st, j_attempts := n, j_updated := now\<rparr>"

definition one_sys :: "time \<Rightarrow> job \<Rightarrow> string multiset \<Rightarrow> string multiset \<Rightarrow> sys" where
  "one_sys now j active started = \<lparr>sy_now = now, sy_jobs = [j], sy_active = active, sy_started = started\<rparr>"

lemma example_claimed:
  "sys_run default_settings (empty_sys 0) [Create [(''e'', ''a'', [], 1)], Claim ''a'']
     (one_sys 0 (one_job JRunning 1 0) {#''a''#} {#''a''#})"
proof -
  have "sys_step default_settings (empty_sys 0) (Create [(''e'', ''a'', [], 1)]) (one_sys 0 (one_job JPending 0 0) {#} {#})"
    using sys_step.create [of "empty_sys 0" "[(''e'', ''a'', [], 1)]" "[one_job JPending 0 0]" default_settings]
    by (simp add: empty_sys_def one_sys_def one_job_def create_jobs_def new_row_def)
  then have "sys_run default_settings (empty_sys 0) [Create [(''e'', ''a'', [], 1)]] (one_sys 0 (one_job JPending 0 0) {#} {#})"
    using step_run [OF done_run] by fastforce
  moreover have "sys_step default_settings (one_sys 0 (one_job JPending 0 0) {#} {#}) (Claim ''a'')
      (one_sys 0 (one_job JRunning 1 0) {#''a''#} {#''a''#})"
    using sys_step.claimed [of "''a''" "one_sys 0 (one_job JPending 0 0) {#} {#}" "[one_job JRunning 1 0]" default_settings]
    by (simp add: one_sys_def one_job_def new_row_def claim_row_of_job_def)
  ultimately show ?thesis using step_run by fastforce
qed

lemma example_cancelled:
  "sys_run default_settings (one_sys 0 (one_job JCancelled 1 0) {#} {#''a''#}) [Claim ''a'']
     (one_sys 0 (one_job JCancelled 1 0) {#} {#''a''#})"
proof -
  have "sys_step default_settings (one_sys 0 (one_job JCancelled 1 0) {#} {#''a''#}) (Claim ''a'')
      (one_sys 0 (one_job JCancelled 1 0) {#} {#''a''#})"
    using sys_step.blocked [of "one_sys 0 (one_job JCancelled 1 0) {#} {#''a''#}" "''a''" JCancelled "[one_job JCancelled 1 0]" default_settings]
    by (simp add: one_sys_def one_job_def new_row_def claim_row_of_job_def get_job_def)
  then show ?thesis using step_run [OF done_run] by fastforce
qed





text \<open>Over a whole run, however often its message is delivered, its workers die and its
  leases are swept, a job is started at most \<open>JOB_MAX_ATTEMPTS\<close> times, plus as many again for
  every time an operator retries failed jobs.\<close>

theorem starts_are_bounded:
  assumes "sys_run S (empty_sys now) es s" and "0 < job_max_attempts S" and "j \<in> set (sy_jobs s)"
  shows "int (count (sy_started s) (j_id j)) \<le> job_max_attempts S * (int (requeues es) + 1)"
proof -
  have "int (count (sy_started s) (j_id j)) \<le> job_max_attempts S * int (requeues es) + j_attempts j"
    using run_starts_ok [OF assms(1) empty_sys_ok(1) assms(2) empty_sys_ok(2,3)] assms(3)
    unfolding starts_ok_def by blast
  moreover have "j_attempts j \<le> job_max_attempts S"
    using run_attempts_ok [OF assms(1) empty_sys_ok(1) assms(2) empty_sys_ok(2)] assms(3)
    unfolding attempts_ok_def by blast
  ultimately show ?thesis by (simp add: algebra_simps)
qed

theorem starts_are_bounded_witness:
  "int (count (sy_started (one_sys 0 (one_job JRunning 1 0) {#''a''#} {#''a''#})) (j_id (one_job JRunning 1 0)))
     \<le> job_max_attempts default_settings * (int (requeues [Create [(''e'', ''a'', [], 1)], Claim ''a'']) + 1)"
proof (rule starts_are_bounded [OF example_claimed])
  show "0 < job_max_attempts default_settings" by (simp add: default_settings_def)
  show "one_job JRunning 1 0 \<in> set (sy_jobs (one_sys 0 (one_job JRunning 1 0) {#''a''#} {#''a''#}))"
    by (simp add: one_sys_def)
qed



end
