(* ===== verification/Dlq.thy ===== *)
theory Dlq
  imports Effects ContentDedup "HOL-Library.Multiset"
begin

text \<open>
  The dead letter queue: the tables \<open>dlq_jobs\<close> and \<open>dlq_jobs_archive\<close>
  (\<open>reflow_manager/models.py\<close>), the scheduler of \<open>reflow_manager/dlq_scheduler.py\<close> and the
  requests of \<open>reflow_manager/dlq_routes.py\<close>. A poll or a request is one transaction: what it
  changed is gone when it raises or its commit fails, but the executions it started stay
  started. The runner is a parameter: how long a run takes and what it raises.
\<close>

datatype dlq_status = DPending | DProcessing | DCompleted | DCancelled

fun status_text :: "dlq_status \<Rightarrow> string" where
  "status_text DPending = ''pending''"
| "status_text DProcessing = ''processing''"
| "status_text DCompleted = ''completed''"
| "status_text DCancelled = ''cancelled''"

record dlq_job =
  q_id :: int
  q_payload :: pydict
  q_pipeline :: string
  q_scheduled_at :: time
  q_delay :: int
  q_status :: dlq_status
  q_retry :: nat
  q_max :: nat
  q_error :: "string option"
  q_created :: time
  q_updated :: time
  q_processed :: "time option"
  q_execution :: "string option"

record dlq_archived =
  a_id :: int
  a_payload :: pydict
  a_pipeline :: string
  a_delay :: int
  a_retry :: nat
  a_max :: nat
  a_error :: "string option"
  a_created :: time
  a_archived :: time

text \<open>A run: the pipeline, its runtime params and the execution's id.\<close>

type_synonym dlq_run = "string \<times> pydict \<times> string"

record dlq_world =
  dw_jobs :: "dlq_job list"
  dw_archive :: "dlq_archived list"
  dw_next_id :: int
  dw_now :: time
  dw_runs :: "dlq_run list"
  dw_depth :: nat
  dw_commits :: nat

record dlq_env =
  de_run :: "nat \<Rightarrow> rat \<times> py_error option"
  de_uuid :: "nat \<Rightarrow> string"
  de_configured :: bool
  de_commit_fails :: "nat \<Rightarrow> bool"
  de_locked :: "int set"
  de_float :: "rat \<Rightarrow> string"
  de_str :: "pyval \<Rightarrow> string"

definition DLQ_DEFAULT_DELAY_MINUTES :: int where "DLQ_DEFAULT_DELAY_MINUTES = 60"
definition DLQ_MAX_RETRIES :: nat where "DLQ_MAX_RETRIES = 5"

subsection \<open>The scheduler\<close>

text \<open>Items by key, groups and items in first-seen order (a dict of lists).\<close>

fun add_to_group :: "'k \<Rightarrow> 'a \<Rightarrow> ('k \<times> 'a list) list \<Rightarrow> ('k \<times> 'a list) list" where
  "add_to_group k x [] = [(k, [x])]"
| "add_to_group k x ((k', xs) # gs) = (if k' = k then (k', xs @ [x]) # gs else (k', xs) # add_to_group k x gs)"

definition group_by :: "('a \<Rightarrow> 'k) \<Rightarrow> 'a list \<Rightarrow> ('k \<times> 'a list) list" where
  "group_by key xs = foldl (\<lambda>gs x. add_to_group (key x) x gs) [] xs"

definition params_key :: "dlq_env \<Rightarrow> dlq_job \<Rightarrow> string" where
  "params_key E j = json_dumps (de_float E) (de_str E) (PDict (q_payload j))"

definition group_by_params :: "dlq_env \<Rightarrow> dlq_job list \<Rightarrow> dlq_job list list" where
  "group_by_params E js = map snd (group_by (params_key E) js)"

definition calculate_backoff :: "nat \<Rightarrow> int" where
  "calculate_backoff retry_count = 5 * 2 ^ (retry_count - 1)"

definition by_qid :: "int \<Rightarrow> dlq_job \<Rightarrow> bool" where
  "by_qid i j \<longleftrightarrow> q_id j = i"

definition of_minutes :: "int \<Rightarrow> time" where
  "of_minutes m = 60 * of_int m"

definition archive_job :: "time \<Rightarrow> dlq_job \<Rightarrow> dlq_archived" where
  "archive_job now j = \<lparr>a_id = q_id j, a_payload = q_payload j, a_pipeline = q_pipeline j, a_delay = q_delay j,
     a_retry = q_retry j, a_max = q_max j, a_error = q_error j, a_created = q_created j, a_archived = now\<rparr>"

definition handle_job_failure :: "string \<Rightarrow> dlq_world \<Rightarrow> dlq_job \<Rightarrow> dlq_world" where
  "handle_job_failure msg w j =
     (let now = dw_now w;
          f = (\<lambda>j. j\<lparr>q_retry := q_retry j + 1, q_error := Some msg, q_updated := now\<rparr>)
      in if q_max j \<le> q_retry j + 1
         then w\<lparr>dw_archive := dw_archive w @ [archive_job now (f j)], dw_jobs := delete_where (by_qid (q_id j)) (dw_jobs w)\<rparr>
         else w\<lparr>dw_jobs := update_where (by_qid (q_id j))
           (\<lambda>r. (f r)\<lparr>q_scheduled_at := now + of_minutes (calculate_backoff (q_retry r + 1)), q_status := DPending\<rparr>) (dw_jobs w)\<rparr>)"

definition in_ids :: "dlq_job list \<Rightarrow> dlq_job \<Rightarrow> bool" where
  "in_ids js j \<longleftrightarrow> q_id j \<in> q_id ` set js"

definition mark_completed :: "dlq_job list \<Rightarrow> string \<Rightarrow> dlq_world \<Rightarrow> dlq_world" where
  "mark_completed js eid w =
     w\<lparr>dw_jobs := update_where (in_ids js)
         (\<lambda>j. j\<lparr>q_status := DCompleted, q_processed := Some (dw_now w), q_execution := Some eid, q_updated := dw_now w\<rparr>) (dw_jobs w)\<rparr>"

definition mark_processing :: "dlq_job list \<Rightarrow> dlq_world \<Rightarrow> dlq_world" where
  "mark_processing js w =
     w\<lparr>dw_jobs := update_where (in_ids js) (\<lambda>j. j\<lparr>q_status := DProcessing, q_updated := dw_now w\<rparr>) (dw_jobs w)\<rparr>"

definition dispatch_params :: "dlq_job list \<Rightarrow> pydict" where
  "dispatch_params js = dupdate (case js of [] \<Rightarrow> [] | j # _ \<Rightarrow> q_payload j)
     [(''_dlq_source'', PBool True), (''_dlq_job_ids'', PList (map (\<lambda>j. PInt (q_id j)) js))]"

text \<open>\<open>_dispatch_jobs\<close>: the execution id, or what the run raised; the clock moves on while it runs.\<close>

definition dispatch_jobs :: "dlq_env \<Rightarrow> string \<Rightarrow> dlq_job list \<Rightarrow> (dlq_world, string) step" where
  "dispatch_jobs E pipeline_name js =
     (if \<not> de_configured E then raise_step (RuntimeError ''Pipeline runner factory not configured'')
      else (\<lambda>w.
        let n = length (dw_runs w);
            eid = ''dlq-'' @ de_uuid E n;
            w' = w\<lparr>dw_now := dw_now w + fst (de_run E n), dw_runs := dw_runs w @ [(pipeline_name, dispatch_params js, eid)]\<rparr>
        in (case snd (de_run E n) of None \<Rightarrow> Inr eid | Some e \<Rightarrow> Inl e, w')))"

text \<open>One group: its execution id, or the error that sent its jobs to the retry path.\<close>

definition process_group :: "dlq_env \<Rightarrow> string \<Rightarrow> dlq_job list \<Rightarrow> (dlq_world, py_error + string) step" where
  "process_group E pipeline_name js =
     try_step
       (bind_step (dispatch_jobs E pipeline_name js) (\<lambda>eid.
        bind_step (write_step (mark_completed js eid)) (\<lambda>_. return_step (Inr eid))))
       is_exception
       (\<lambda>e. bind_step (write_step (\<lambda>w. foldl (handle_job_failure (error_text e)) w js)) (\<lambda>_. return_step (Inl e)))"

fun process_groups :: "dlq_env \<Rightarrow> string \<Rightarrow> dlq_job list list \<Rightarrow> (dlq_world, (py_error + string) list) step" where
  "process_groups E pipeline_name [] = return_step []"
| "process_groups E pipeline_name (g # gs) =
     bind_step (process_group E pipeline_name g) (\<lambda>r.
     bind_step (process_groups E pipeline_name gs) (\<lambda>rs. return_step (r # rs)))"

definition process_pipeline_jobs :: "dlq_env \<Rightarrow> string \<Rightarrow> dlq_job list \<Rightarrow> (dlq_world, (py_error + string) list) step" where
  "process_pipeline_jobs E pipeline_name js =
     bind_step (write_step (mark_processing js)) (\<lambda>_. process_groups E pipeline_name (group_by_params E js))"

fun process_pipelines :: "dlq_env \<Rightarrow> (string \<times> dlq_job list) list \<Rightarrow> (dlq_world, unit) step" where
  "process_pipelines E [] = return_step ()"
| "process_pipelines E ((p, js) # gs) =
     bind_step (process_pipeline_jobs E p js) (\<lambda>_. process_pipelines E gs)"

text \<open>The end of a transaction.\<close>

definition roll_back :: "dlq_world \<Rightarrow> dlq_world \<Rightarrow> dlq_world" where
  "roll_back w0 w = w\<lparr>dw_jobs := dw_jobs w0, dw_archive := dw_archive w0, dw_next_id := dw_next_id w0\<rparr>"

definition commit_queue :: "dlq_env \<Rightarrow> (dlq_world, unit) step" where
  "commit_queue E w =
     (if de_commit_fails E (dw_commits w) then Inl DBAPIError else Inr (), w\<lparr>dw_commits := Suc (dw_commits w)\<rparr>)"

definition transaction :: "dlq_env \<Rightarrow> (dlq_world, 'a) step \<Rightarrow> (dlq_world, 'a) step" where
  "transaction E = in_transaction (commit_queue E) roll_back"

lemmas transaction_defs = transaction_def in_transaction_def commit_queue_def bind_step_def

definition due :: "dlq_env \<Rightarrow> time \<Rightarrow> dlq_job \<Rightarrow> bool" where
  "due E now j \<longleftrightarrow> q_status j = DPending \<and> q_scheduled_at j \<le> now \<and> q_id j \<notin> de_locked E"

text \<open>\<open>_poll_and_process\<close>, rows locked by another transaction skipped.\<close>

definition poll_and_process :: "dlq_env \<Rightarrow> (dlq_world, unit) step" where
  "poll_and_process E =
     bind_step (write_step (\<lambda>w. w\<lparr>dw_depth := count_where (\<lambda>j. q_status j = DPending) (dw_jobs w)\<rparr>)) (\<lambda>_.
     bind_step (read_step (\<lambda>w. filter (due E (dw_now w)) (dw_jobs w))) (\<lambda>js.
     if js = [] then return_step ()
     else transaction E (process_pipelines E (group_by q_pipeline js))))"

text \<open>One turn of \<open>_run_loop\<close>: an error is logged and the next poll comes after the interval.\<close>

definition run_turn :: "dlq_env \<Rightarrow> rat \<Rightarrow> (dlq_world, unit) step" where
  "run_turn E poll_interval =
     bind_step (try_step (poll_and_process E) is_exception (\<lambda>_. return_step ())) (\<lambda>_.
     write_step (\<lambda>w. w\<lparr>dw_now := dw_now w + poll_interval\<rparr>))"

subsection \<open>Dispatch on demand\<close>

definition find_job :: "int \<Rightarrow> dlq_world \<Rightarrow> dlq_job option" where
  "find_job i w = first_where (by_qid i) (dw_jobs w)"

text \<open>\<open>process_job_immediately\<close>: on failure everything is rolled back, then the retry is recorded
  in a transaction of its own.\<close>

definition dispatch_one :: "dlq_env \<Rightarrow> dlq_job \<Rightarrow> (dlq_world, string option) step" where
  "dispatch_one E j =
     bind_step (write_step (mark_processing [j])) (\<lambda>_.
     bind_step (dispatch_jobs E (q_pipeline j) [j]) (\<lambda>eid.
     bind_step (write_step (mark_completed [j] eid)) (\<lambda>_. return_step (Some eid))))"

definition process_job_immediately :: "dlq_env \<Rightarrow> int \<Rightarrow> (dlq_world, string option) step" where
  "process_job_immediately E i =
     bind_step (read_step (find_job i)) (\<lambda>found.
     case found of
       None \<Rightarrow> return_step None
     | Some j \<Rightarrow>
         if q_status j \<noteq> DPending
         then raise_step (ValueError (''Job '' @ int_text i @ '' is not pending (status: '' @ status_text (q_status j) @ '')''))
         else
           try_step (transaction E (dispatch_one E j)) is_exception
             (\<lambda>e. bind_step (transaction E (write_step (\<lambda>w. handle_job_failure (error_text e) w j)))
                (\<lambda>_. raise_step e)))"

definition pending_of :: "dlq_env \<Rightarrow> string \<Rightarrow> dlq_job \<Rightarrow> bool" where
  "pending_of E p j \<longleftrightarrow> q_pipeline j = p \<and> q_status j = DPending \<and> q_id j \<notin> de_locked E"

fun executions_of :: "(py_error + string) list \<Rightarrow> string list" where
  "executions_of [] = []"
| "executions_of (Inl e # rs) = executions_of rs"
| "executions_of (Inr eid # rs) = eid # executions_of rs"

fun last_error :: "(py_error + string) list \<Rightarrow> py_error option" where
  "last_error [] = None"
| "last_error (Inl e # rs) = (case last_error rs of None \<Rightarrow> Some e | Some e' \<Rightarrow> Some e')"
| "last_error (Inr eid # rs) = last_error rs"

definition process_pipeline_immediately :: "dlq_env \<Rightarrow> string \<Rightarrow> (dlq_world, nat \<times> string list) step" where
  "process_pipeline_immediately E p =
     bind_step (read_step (\<lambda>w. filter (pending_of E p) (dw_jobs w))) (\<lambda>js.
     if js = [] then return_step (0, [])
     else
       bind_step (transaction E (process_pipeline_jobs E p js)) (\<lambda>rs.
       case (last_error rs, executions_of rs) of
         (Some e, []) \<Rightarrow> raise_step e
       | (_, eids) \<Rightarrow>
           bind_step (read_step (\<lambda>w. count_where (\<lambda>j. in_ids js j \<and> q_status j = DCompleted) (dw_jobs w))) (\<lambda>n.
           return_step (n, eids))))"

subsection \<open>The requests (\<open>dlq_routes.py\<close>)\<close>

record dlq_registry =
  dr_registered :: "string \<Rightarrow> bool"
  dr_missing :: "string \<Rightarrow> string"

definition new_dlq_job :: "int \<Rightarrow> time \<Rightarrow> pydict \<Rightarrow> string \<Rightarrow> int \<Rightarrow> dlq_job" where
  "new_dlq_job i now payload pipeline_name delay =
     \<lparr>q_id = i, q_payload = payload, q_pipeline = pipeline_name, q_scheduled_at = now + of_minutes delay, q_delay = delay,
      q_status = DPending, q_retry = 0, q_max = DLQ_MAX_RETRIES, q_error = None, q_created = now, q_updated = now,
      q_processed = None, q_execution = None\<rparr>"

definition schedule_dlq_job ::
  "dlq_env \<Rightarrow> dlq_registry \<Rightarrow> pydict \<Rightarrow> string \<Rightarrow> int option \<Rightarrow> (dlq_world, dlq_job) step" where
  "schedule_dlq_job E R payload pipeline_name delay_minutes =
     (if \<not> dr_registered R pipeline_name
      then raise_step (HTTPException 404 (''Pipeline '' @ quoted pipeline_name @ '' not found in registry'' @ dr_missing R pipeline_name))
      else
        transaction E
          (bind_step (read_step (\<lambda>w. new_dlq_job (dw_next_id w) (dw_now w) payload pipeline_name
              (case delay_minutes of Some d \<Rightarrow> d | None \<Rightarrow> DLQ_DEFAULT_DELAY_MINUTES))) (\<lambda>j.
           bind_step (write_step (\<lambda>w. w\<lparr>dw_jobs := dw_jobs w @ [j], dw_next_id := dw_next_id w + 1\<rparr>)) (\<lambda>_.
           return_step j))))"

text \<open>The rows as responses give them; \<open>isoformat\<close> is \<open>datetime.isoformat\<close>.\<close>

abbreviation text_or_none :: "string option \<Rightarrow> pyval" where
  "text_or_none s \<equiv> (case s of None \<Rightarrow> PNone | Some s \<Rightarrow> PStr s)"

definition dlq_to_dict :: "(time \<Rightarrow> string) \<Rightarrow> dlq_job \<Rightarrow> pydict" where
  "dlq_to_dict isoformat j =
     [(''id'', PInt (q_id j)), (''job_payload'', PDict (q_payload j)), (''pipeline_name'', PStr (q_pipeline j)),
      (''scheduled_at'', PStr (isoformat (q_scheduled_at j))), (''delay_minutes'', PInt (q_delay j)),
      (''status'', PStr (status_text (q_status j))), (''retry_count'', PInt (int (q_retry j))),
      (''max_retries'', PInt (int (q_max j))), (''error_message'', text_or_none (q_error j)),
      (''created_at'', PStr (isoformat (q_created j))), (''updated_at'', PStr (isoformat (q_updated j))),
      (''processed_at'', text_or_none (map_option isoformat (q_processed j))), (''execution_id'', text_or_none (q_execution j))]"

definition archived_to_dict :: "(time \<Rightarrow> string) \<Rightarrow> dlq_archived \<Rightarrow> pydict" where
  "archived_to_dict isoformat a =
     [(''id'', PInt (a_id a)), (''job_payload'', PDict (a_payload a)), (''pipeline_name'', PStr (a_pipeline a)),
      (''delay_minutes'', PInt (a_delay a)), (''retry_count'', PInt (int (a_retry a))), (''max_retries'', PInt (int (a_max a))),
      (''error_message'', text_or_none (a_error a)), (''created_at'', PStr (isoformat (a_created a))),
      (''archived_at'', PStr (isoformat (a_archived a)))]"

definition list_dlq_jobs ::
  "string option \<Rightarrow> string option \<Rightarrow> nat \<Rightarrow> nat \<Rightarrow> dlq_world \<Rightarrow> dlq_job list \<times> nat" where
  "list_dlq_jobs pipeline_name status_filter limit offset w =
     (let js = filter (\<lambda>j. (case pipeline_name of None \<Rightarrow> True | Some p \<Rightarrow> p = [] \<or> q_pipeline j = p) \<and>
                 (case status_filter of None \<Rightarrow> True | Some s \<Rightarrow> s = [] \<or> status_text (q_status j) = s)) (dw_jobs w)
      in (take limit (drop offset (sort_key (\<lambda>j. - q_created j) js)), length js))"

text \<open>The archive's requests (\<open>schedule_routes.py\<close>).\<close>

definition list_archived_jobs :: "string option \<Rightarrow> nat \<Rightarrow> nat \<Rightarrow> dlq_world \<Rightarrow> dlq_archived list \<times> nat \<times> nat" where
  "list_archived_jobs pipeline_name limit offset w =
     (let limit = min limit 500;
          js = filter (\<lambda>a. case pipeline_name of None \<Rightarrow> True | Some p \<Rightarrow> p = [] \<or> a_pipeline a = p) (dw_archive w)
      in (take limit (drop offset (sort_key (\<lambda>a. - a_archived a) js)), length js, limit))"

definition get_archived_job :: "int \<Rightarrow> dlq_world \<Rightarrow> py_error + dlq_archived" where
  "get_archived_job i w =
     (case first_where (\<lambda>a. a_id a = i) (dw_archive w) of
        None \<Rightarrow> Inl (HTTPException 404 (''Archived job '' @ int_text i @ '' not found''))
      | Some a \<Rightarrow> Inr a)"

definition job_not_found :: "int \<Rightarrow> py_error" where
  "job_not_found i = HTTPException 404 (''DLQ job '' @ int_text i @ '' not found'')"

definition get_dlq_job :: "int \<Rightarrow> (dlq_world, dlq_job) step" where
  "get_dlq_job i =
     bind_step (read_step (find_job i)) (\<lambda>found.
     case found of None \<Rightarrow> raise_step (job_not_found i) | Some j \<Rightarrow> return_step j)"

definition cancel_dlq_job :: "dlq_env \<Rightarrow> int \<Rightarrow> (dlq_world, string) step" where
  "cancel_dlq_job E i =
     bind_step (get_dlq_job i) (\<lambda>j.
     if q_status j \<noteq> DPending
     then raise_step (HTTPException 400 (''Cannot cancel job with status '' @ quoted (status_text (q_status j))))
     else transaction E
       (bind_step (write_step (\<lambda>w. w\<lparr>dw_jobs := update_where (by_qid i) (\<lambda>j. j\<lparr>q_status := DCancelled, q_updated := dw_now w\<rparr>) (dw_jobs w)\<rparr>)) (\<lambda>_.
        return_step (''DLQ job '' @ int_text i @ '' cancelled''))))"

text \<open>The two dispatch requests; \<open>scheduler\<close> says whether the scheduler was initialised.\<close>

definition no_scheduler :: py_error where
  "no_scheduler = HTTPException 503 ''DLQ scheduler not initialized''"

definition dispatch_error :: "string \<Rightarrow> py_error \<Rightarrow> py_error" where
  "dispatch_error what e = (case e of
     HTTPException c d \<Rightarrow> HTTPException c d
   | ValueError m \<Rightarrow> HTTPException 400 m
   | _ \<Rightarrow> HTTPException 500 (what @ error_text e))"

definition dispatch_dlq_job :: "dlq_env \<Rightarrow> bool \<Rightarrow> int \<Rightarrow> (dlq_world, nat \<times> string \<times> string) step" where
  "dispatch_dlq_job E scheduler i =
     (if \<not> scheduler then raise_step no_scheduler
      else try_step
        (bind_step (process_job_immediately E i) (\<lambda>r.
         case r of
           None \<Rightarrow> raise_step (job_not_found i)
         | Some eid \<Rightarrow> return_step (1, eid, ''DLQ job '' @ int_text i @ '' dispatched successfully'')))
        is_exception (\<lambda>e. raise_step (dispatch_error ''Failed to dispatch job: '' e)))"

definition dispatch_pipeline_dlq_jobs ::
  "dlq_env \<Rightarrow> bool \<Rightarrow> string \<Rightarrow> (dlq_world, nat \<times> string option \<times> string list \<times> string) step" where
  "dispatch_pipeline_dlq_jobs E scheduler p =
     (if \<not> scheduler then raise_step no_scheduler
      else try_step
        (bind_step (process_pipeline_immediately E p) (\<lambda>(n, eids).
         if n = 0 then return_step (0, None, eids, ''No pending DLQ jobs found for pipeline '' @ quoted p)
         else case eids of
           [] \<Rightarrow> raise_step (OtherError ''IndexError'' ''list index out of range'')
         | eid # _ \<Rightarrow> return_step (n, Some eid, eids, ''Dispatched '' @ nat_text n @ '' DLQ job(s) for pipeline '' @ quoted p)))
        is_exception (\<lambda>e. raise_step (HTTPException 500 (''Failed to dispatch jobs: '' @ error_text e))))"


subsection \<open>Grouping\<close>

lemma add_to_group_items:
  "mset (concat (map snd (add_to_group k x gs))) = add_mset x (mset (concat (map snd gs)))"
  by (induction k x gs rule: add_to_group.induct) auto

lemma add_to_group_keys:
  "\<forall>(k', g) \<in> set gs. g \<noteq> [] \<and> (\<forall>y \<in> set g. key y = k') \<Longrightarrow>
   \<forall>(k', g) \<in> set (add_to_group (key x) x gs). g \<noteq> [] \<and> (\<forall>y \<in> set g. key y = k')"
  by (induction "key x" x gs rule: add_to_group.induct) auto

lemma group_by_items: "mset (concat (map snd (group_by key xs))) = mset xs"
proof -
  have "mset (concat (map snd (foldl (\<lambda>gs x. add_to_group (key x) x gs) gs xs))) = mset (concat (map snd gs)) + mset xs" for gs
    by (induction xs arbitrary: gs) (auto simp: add_to_group_items)
  from this [of "[]"] show ?thesis by (simp add: group_by_def)
qed

lemma group_by_keys: "\<forall>(k, g) \<in> set (group_by key xs). g \<noteq> [] \<and> (\<forall>y \<in> set g. key y = k)"
proof -
  have "\<forall>(k, g) \<in> set (foldl (\<lambda>gs x. add_to_group (key x) x gs) gs xs). g \<noteq> [] \<and> (\<forall>y \<in> set g. key y = k)"
    if "\<forall>(k, g) \<in> set gs. g \<noteq> [] \<and> (\<forall>y \<in> set g. key y = k)" for gs
    using that
  proof (induction xs arbitrary: gs)
    case (Cons x xs)
    show ?case using Cons.IH [OF add_to_group_keys [OF Cons.prems]] by simp
  qed simp
  from this [of "[]"] show ?thesis by (simp add: group_by_def)
qed

lemma group_by_params_items: "mset (concat (group_by_params E js)) = mset js"
  by (simp add: group_by_params_def group_by_items)

lemma group_by_params_same: "g \<in> set (group_by_params E js) \<Longrightarrow> g \<noteq> [] \<and> (\<forall>a \<in> set g. \<forall>b \<in> set g. params_key E a = params_key E b)"
  using group_by_keys [of "params_key E" js] by (fastforce simp: group_by_params_def)

subsection \<open>What an operation does to one row\<close>

named_theorems rows \<open>the row of an id after an operation\<close>

lemma find_mark_processing [rows]:
  "find_job i (mark_processing js w) =
     map_option (\<lambda>j. if in_ids js j then j\<lparr>q_status := DProcessing, q_updated := dw_now w\<rparr> else j) (find_job i w)"
  by (simp add: mark_processing_def find_job_def first_where_update by_qid_def [abs_def])

lemma find_mark_completed [rows]:
  "find_job i (mark_completed js eid w) =
     map_option (\<lambda>j. if in_ids js j then j\<lparr>q_status := DCompleted, q_processed := Some (dw_now w),
       q_execution := Some eid, q_updated := dw_now w\<rparr> else j) (find_job i w)"
  by (simp add: mark_completed_def find_job_def first_where_update by_qid_def [abs_def])

text \<open>A row on the retry path: back to pending with a backoff, or gone to the archive.\<close>

definition retried :: "string \<Rightarrow> time \<Rightarrow> dlq_job \<Rightarrow> dlq_job option" where
  "retried msg now j =
     (if q_max j \<le> q_retry j + 1 then None
      else Some (j\<lparr>q_retry := q_retry j + 1, q_error := Some msg, q_updated := now,
        q_scheduled_at := now + of_minutes (calculate_backoff (q_retry j + 1)), q_status := DPending\<rparr>))"

lemma find_delete: "first_where (by_qid i) (delete_where (by_qid k) t) = (if i = k then None else first_where (by_qid i) t)"
  by (induction t) (auto simp: by_qid_def [abs_def])

lemma find_handle_failure [rows]:
  "find_job i (handle_job_failure msg w j) =
     (if i \<noteq> q_id j then find_job i w
      else if q_max j \<le> q_retry j + 1 then None
      else map_option (\<lambda>r. r\<lparr>q_retry := q_retry r + 1, q_error := Some msg, q_updated := dw_now w,
        q_scheduled_at := dw_now w + of_minutes (calculate_backoff (q_retry r + 1)), q_status := DPending\<rparr>) (find_job i w))"
proof -
  have other: "first_where (by_qid i) (update_where (by_qid k) f t) = first_where (by_qid i) t" if "i \<noteq> k" and "\<And>r. q_id (f r) = q_id r" for i k f t
    using that by (induction t) (auto simp: by_qid_def)
  have self: "first_where (by_qid i) (update_where (by_qid i) f t) = map_option f (first_where (by_qid i) t)" if "\<And>r. q_id (f r) = q_id r" for i f t
    using that by (induction t) (auto simp: by_qid_def)
  show ?thesis
    by (auto simp: handle_job_failure_def find_job_def find_delete Let_def other self)
qed

lemma find_job_clock [simp]: "find_job i (w\<lparr>dw_now := t, dw_runs := rs\<rparr>) = find_job i w"
  by (simp add: find_job_def)

lemma find_id: "find_job i w = Some j \<Longrightarrow> q_id j = i"
  by (auto simp: find_job_def by_qid_def dest: first_where_Some_iff)

lemma failure_keeps [simp]:
  "dw_now (handle_job_failure msg w j) = dw_now w" "dw_runs (handle_job_failure msg w j) = dw_runs w"
  "dw_now (foldl (handle_job_failure msg) w js) = dw_now w" "dw_runs (foldl (handle_job_failure msg) w js) = dw_runs w"
proof -
  show one: "dw_now (handle_job_failure msg w j) = dw_now w" "dw_runs (handle_job_failure msg w j) = dw_runs w" for w j
    by (simp_all add: handle_job_failure_def Let_def)
  show "dw_now (foldl (handle_job_failure msg) w js) = dw_now w" "dw_runs (foldl (handle_job_failure msg) w js) = dw_runs w"
    by (induction js arbitrary: w) (simp_all add: one)
qed

text \<open>The row as the transaction left it: the original, marked as being processed.\<close>

definition processing_row :: "dlq_job \<Rightarrow> dlq_job \<Rightarrow> bool" where
  "processing_row j r \<longleftrightarrow> (\<exists>u. r = j\<lparr>q_status := DProcessing, q_updated := u\<rparr>)"

lemma find_failures_other:
  "i \<notin> q_id ` set js \<Longrightarrow> find_job i (foldl (handle_job_failure msg) w js) = find_job i w"
  by (induction js arbitrary: w) (auto simp: rows)

lemma find_failures:
  assumes "distinct (map q_id js)" and "\<forall>j \<in> set js. \<exists>r. find_job (q_id j) w = Some r \<and> processing_row j r"
    and "j \<in> set js"
  shows "find_job (q_id j) (foldl (handle_job_failure msg) w js) = retried msg (dw_now w) j"
  using assms
proof (induction js arbitrary: w)
  case (Cons k js)
  let ?w = "handle_job_failure msg w k"
  have k: "find_job (q_id k) ?w = retried msg (dw_now w) k"
    using Cons.prems(2) by (auto simp: rows retried_def processing_row_def)
  show ?case
  proof (cases "j \<in> set js")
    case True
    have "\<forall>j \<in> set js. \<exists>r. find_job (q_id j) ?w = Some r \<and> processing_row j r"
      using Cons.prems(1,2) by (auto simp: rows image_iff)
    then show ?thesis using Cons.IH [of ?w] Cons.prems(1) True by simp
  next
    case False
    then have "j = k" "q_id j \<notin> q_id ` set js" using Cons.prems(1,3) by auto
    then show ?thesis using k by (simp add: find_failures_other)
  qed
qed simp


subsection \<open>What a sequence of groups does\<close>

text \<open>The row of a job after the \<open>n\<close>-th run of the process, ended at \<open>t\<close>, and what it archives.\<close>

definition settled_row :: "dlq_env \<Rightarrow> nat \<Rightarrow> time \<Rightarrow> dlq_job \<Rightarrow> dlq_job option" where
  "settled_row E n t j = (case snd (de_run E n) of
     None \<Rightarrow> Some (j\<lparr>q_status := DCompleted, q_processed := Some t, q_execution := Some (''dlq-'' @ de_uuid E n), q_updated := t\<rparr>)
   | Some e \<Rightarrow> retried (error_text e) t j)"

definition given_up :: "dlq_env \<Rightarrow> nat \<Rightarrow> time \<Rightarrow> dlq_job list \<Rightarrow> dlq_archived list" where
  "given_up E n t g = (case snd (de_run E n) of
     None \<Rightarrow> []
   | Some e \<Rightarrow> map (\<lambda>j. archive_job t (j\<lparr>q_retry := q_retry j + 1, q_error := Some (error_text e), q_updated := t\<rparr>))
       (filter (\<lambda>j. q_max j \<le> q_retry j + 1) g))"

definition run_seconds :: "dlq_env \<Rightarrow> nat \<Rightarrow> nat \<Rightarrow> rat" where
  "run_seconds E n m = sum_list (map (\<lambda>i. fst (de_run E i)) [n..<m])"

definition groups_settle :: "dlq_env \<Rightarrow> (string \<times> dlq_job list) list \<Rightarrow> dlq_world \<Rightarrow> dlq_world \<Rightarrow> bool" where
  "groups_settle E pgs w w' \<longleftrightarrow>
     (let n = length (dw_runs w); ended = (\<lambda>k. dw_now w + run_seconds E n (Suc k)) in
      dw_runs w' = dw_runs w @ map (\<lambda>(k, p, g). (p, dispatch_params g, ''dlq-'' @ de_uuid E k)) (enumerate n pgs) \<and>
      dw_now w' = dw_now w + run_seconds E n (n + length pgs) \<and>
      (\<forall>(k, p, g) \<in> set (enumerate n pgs). \<forall>j \<in> set g. find_job (q_id j) w' = settled_row E k (ended k) j) \<and>
      (\<forall>i. i \<notin> q_id ` set (concat (map snd pgs)) \<longrightarrow> find_job i w' = find_job i w) \<and>
      dw_archive w' = dw_archive w @ concat (map (\<lambda>(k, p, g). given_up E k (ended k) g) (enumerate n pgs)))"

definition run_ids :: "(string \<times> dlq_job list) list \<Rightarrow> int set" where
  "run_ids pgs = q_id ` set (concat (map snd pgs))"

lemma settlesD:
  assumes "groups_settle E pgs w w'"
  shows "dw_runs w' = dw_runs w @ map (\<lambda>(k, p, g). (p, dispatch_params g, ''dlq-'' @ de_uuid E k)) (enumerate (length (dw_runs w)) pgs)"
    and "dw_now w' = dw_now w + run_seconds E (length (dw_runs w)) (length (dw_runs w) + length pgs)"
    and "(k, p, g) \<in> set (enumerate (length (dw_runs w)) pgs) \<Longrightarrow> j \<in> set g \<Longrightarrow>
      find_job (q_id j) w' = settled_row E k (dw_now w + run_seconds E (length (dw_runs w)) (Suc k)) j"
    and "i \<notin> run_ids pgs \<Longrightarrow> find_job i w' = find_job i w"
    and "dw_archive w' = dw_archive w @
      concat (map (\<lambda>(k, p, g). given_up E k (dw_now w + run_seconds E (length (dw_runs w)) (Suc k)) g) (enumerate (length (dw_runs w)) pgs))"
  using assms unfolding groups_settle_def Let_def run_ids_def by blast+

lemma enumerate_run_ids: "(k, p, g) \<in> set (enumerate n pgs) \<Longrightarrow> j \<in> set g \<Longrightarrow> q_id j \<in> run_ids pgs"
proof -
  assume "(k, p, g) \<in> set (enumerate n pgs)" and j: "j \<in> set g"
  then have "k - n < length pgs" "pgs ! (k - n) = (p, g)" by (auto simp: in_set_enumerate_eq)
  then have "(p, g) \<in> set pgs" by (metis nth_mem)
  then have "j \<in> set (concat (map snd pgs))" using j by (auto intro: bexI [of _ "(p, g)"])
  then show ?thesis unfolding run_ids_def by (rule imageI)
qed

lemma run_seconds_join: "n \<le> m \<Longrightarrow> m \<le> k \<Longrightarrow> run_seconds E n m + run_seconds E m k = run_seconds E n k"
  unfolding run_seconds_def by (metis map_append sum_list_append upt_add_eq_append le_add_diff_inverse)

lemma settles_append:
  assumes a: "groups_settle E as w w1" and b: "groups_settle E bs w1 w2"
    and apart: "run_ids as \<inter> run_ids bs = {}"
  shows "groups_settle E (as @ bs) w w2"
proof -
  let ?n = "length (dw_runs w)" and ?m = "length (dw_runs w) + length as"
  have n1: "length (dw_runs w1) = ?m" and now1: "dw_now w1 = dw_now w + run_seconds E ?n ?m"
    using settlesD(1,2) [OF a] by simp_all
  have ended: "dw_now w1 + run_seconds E ?m (Suc k) = dw_now w + run_seconds E ?n (Suc k)" if "?m \<le> k" for k
    using run_seconds_join [of ?n ?m "Suc k" E] that now1 by simp
  have later: "?m \<le> k" if "(k, x) \<in> set (enumerate ?m bs)" for k x
    using that by (auto simp: in_set_enumerate_eq)
  have split: "enumerate ?n (as @ bs) = enumerate ?n as @ enumerate ?m bs"
    by (simp add: enumerate_append_eq)
  show ?thesis
    unfolding groups_settle_def Let_def split map_append concat_append set_append
  proof (intro conjI allI impI ballI)
    show "dw_runs w2 = dw_runs w @ map (\<lambda>(k, p, g). (p, dispatch_params g, ''dlq-'' @ de_uuid E k)) (enumerate ?n as) @
        map (\<lambda>(k, p, g). (p, dispatch_params g, ''dlq-'' @ de_uuid E k)) (enumerate ?m bs)"
      using settlesD(1) [OF a] settlesD(1) [OF b] n1 by simp
    show "dw_now w2 = dw_now w + run_seconds E ?n (?n + length (as @ bs))"
      using settlesD(2) [OF b] n1 now1 run_seconds_join [of ?n ?m "?m + length bs" E] by (simp add: add.assoc)
    show "find_job i w2 = find_job i w" if "i \<notin> q_id ` (set (concat (map snd as)) \<union> set (concat (map snd bs)))" for i
    proof -
      have "i \<notin> run_ids as" "i \<notin> run_ids bs" using that unfolding run_ids_def by blast+
      then show ?thesis using settlesD(4) [OF a] settlesD(4) [OF b] by simp
    qed
    show "case x of (k, p, g) \<Rightarrow> \<forall>j \<in> set g. find_job (q_id j) w2 = settled_row E k (dw_now w + run_seconds E ?n (Suc k)) j"
      if x: "x \<in> set (enumerate ?n as) \<union> set (enumerate ?m bs)" for x
    proof (cases x)
      case (fields k p g)
      have "find_job (q_id j) w2 = settled_row E k (dw_now w + run_seconds E ?n (Suc k)) j" if j: "j \<in> set g" for j
      proof (cases "x \<in> set (enumerate ?m bs)")
        case True
        then show ?thesis using settlesD(3) [OF b, of k p g j] n1 fields j ended [OF later [of k "(p, g)"]] by simp
      next
        case False
        then have at: "(k, p, g) \<in> set (enumerate ?n as)" using x fields by simp
        then have "q_id j \<in> run_ids as" using j by (rule enumerate_run_ids)
        then have "q_id j \<notin> run_ids bs" using apart by blast
        then have "find_job (q_id j) w2 = find_job (q_id j) w1" by (rule settlesD(4) [OF b])
        then show ?thesis using settlesD(3) [OF a at j] by simp
      qed
      then show ?thesis by (simp add: fields)
    qed
    have "map (\<lambda>(k, p, g). given_up E k (dw_now w1 + run_seconds E ?m (Suc k)) g) (enumerate ?m bs) =
        map (\<lambda>(k, p, g). given_up E k (dw_now w + run_seconds E ?n (Suc k)) g) (enumerate ?m bs)"
      using ended later by (intro map_cong) auto
    then show "dw_archive w2 = dw_archive w @ concat (map (\<lambda>(k, p, g). given_up E k (dw_now w + run_seconds E ?n (Suc k)) g) (enumerate ?n as)) @
        concat (map (\<lambda>(k, p, g). given_up E k (dw_now w + run_seconds E ?n (Suc k)) g) (enumerate ?m bs))"
      using settlesD(5) [OF a] settlesD(5) [OF b] unfolding n1 by (simp only: append_assoc)
  qed
qed


lemma archive_failures:
  "dw_archive (foldl (handle_job_failure msg) w js) = dw_archive w @
     map (\<lambda>j. archive_job (dw_now w) (j\<lparr>q_retry := q_retry j + 1, q_error := Some msg, q_updated := dw_now w\<rparr>))
       (filter (\<lambda>j. q_max j \<le> q_retry j + 1) js)"
proof (induction js arbitrary: w)
  case (Cons j js)
  show ?case
    by (simp only: foldl_Cons Cons.IH failure_keeps) (simp add: handle_job_failure_def Let_def)
qed simp

lemma settles_one:
  "groups_settle E [(p, g)] w w' \<longleftrightarrow>
     (let n = length (dw_runs w); t = dw_now w + fst (de_run E n) in
      dw_runs w' = dw_runs w @ [(p, dispatch_params g, ''dlq-'' @ de_uuid E n)] \<and> dw_now w' = t \<and>
      (\<forall>j \<in> set g. find_job (q_id j) w' = settled_row E n t j) \<and>
      (\<forall>i. i \<notin> q_id ` set g \<longrightarrow> find_job i w' = find_job i w) \<and>
      dw_archive w' = dw_archive w @ given_up E n t g)"
  by (simp add: groups_settle_def Let_def run_seconds_def)

lemma group_settles:
  assumes run: "process_group E p g w = (Inr r, w')" and conf: "de_configured E"
    and g: "distinct (map q_id g)" "\<forall>j \<in> set g. \<exists>r. find_job (q_id j) w = Some r \<and> processing_row j r"
  shows "groups_settle E [(p, g)] w w'"
proof -
  let ?n = "length (dw_runs w)"
  let ?w = "w\<lparr>dw_now := dw_now w + fst (de_run E ?n), dw_runs := dw_runs w @ [(p, dispatch_params g, ''dlq-'' @ de_uuid E ?n)]\<rparr>"
  show ?thesis
  proof (cases "snd (de_run E ?n)")
    case None
    have w': "w' = mark_completed g (''dlq-'' @ de_uuid E ?n) ?w"
      using run conf None by (auto simp: process_group_def try_step_def bind_step_def dispatch_jobs_def Let_def)
    have row: "find_job (q_id j) w' = settled_row E ?n (dw_now ?w) j" if j: "j \<in> set g" for j
    proof -
      obtain u where "find_job (q_id j) w = Some (j\<lparr>q_status := DProcessing, q_updated := u\<rparr>)"
        using g(2) j by (auto simp: processing_row_def)
      then show ?thesis using j None by (simp add: w' rows in_ids_def settled_row_def)
    qed
    have other: "find_job i w' = find_job i w" if "i \<notin> q_id ` set g" for i
      using that find_id by (auto simp: w' rows in_ids_def intro!: option.map_ident_strong)
    show ?thesis
      unfolding settles_one Let_def using row other None
      by (simp add: w' mark_completed_def given_up_def)
  next
    case (Some e)
    have w': "w' = foldl (handle_job_failure (error_text e)) ?w g"
      using run conf Some by (auto simp: process_group_def try_step_def bind_step_def dispatch_jobs_def Let_def split: if_splits)
    have row: "find_job (q_id j) w' = settled_row E ?n (dw_now ?w) j" if "j \<in> set g" for j
      using find_failures [of g ?w j "error_text e"] g that Some by (simp add: w' settled_row_def)
    have other: "find_job i w' = find_job i w" if "i \<notin> q_id ` set g" for i
      using find_failures_other [OF that] by (simp add: w')
    show ?thesis
      unfolding settles_one Let_def using row other Some
      by (simp add: w' archive_failures given_up_def)
  qed
qed

lemma settles_nil: "groups_settle E [] w w"
  by (simp add: groups_settle_def run_seconds_def)

lemma run_ids_Cons: "run_ids ((p, g) # pgs) = q_id ` set g \<union> run_ids pgs"
  by (auto simp: run_ids_def)

lemma groups_settle:
  assumes "process_groups E p gs w = (Inr rs, w')" and conf: "de_configured E"
    and "distinct (map q_id (concat gs))"
    and "\<forall>j \<in> set (concat gs). \<exists>r. find_job (q_id j) w = Some r \<and> processing_row j r"
  shows "groups_settle E (map (Pair p) gs) w w'"
  using assms(1,3,4)
proof (induction gs arbitrary: w rs)
  case Nil
  then show ?case by (simp add: settles_nil)
next
  case (Cons g gs)
  obtain r w1 rs' where one: "process_group E p g w = (Inr r, w1)" and more: "process_groups E p gs w1 = (Inr rs', w')"
    using Cons.prems(1) by (auto elim!: bind_stepE)
  have first: "groups_settle E [(p, g)] w w1"
    using group_settles [OF one conf] Cons.prems(2,3) by simp
  have ids: "run_ids [(p, g)] \<inter> run_ids (map (Pair p) gs) = {}"
    using Cons.prems(2) by (auto simp: run_ids_def)
  have "\<exists>r. find_job (q_id j) w1 = Some r \<and> processing_row j r" if j: "j \<in> set (concat gs)" for j
  proof -
    have "q_id j \<notin> run_ids [(p, g)]" using Cons.prems(2) j by (auto simp: run_ids_def)
    then have "find_job (q_id j) w1 = find_job (q_id j) w" by (rule settlesD(4) [OF first])
    then show ?thesis using Cons.prems(3) j by simp
  qed
  then have "groups_settle E (map (Pair p) gs) w1 w'"
    using Cons.IH [OF more] Cons.prems(2) by simp
  from settles_append [OF first this ids] show ?case by simp
qed


text \<open>The groups a poll works through, flattened.\<close>

definition poll_groups :: "dlq_env \<Rightarrow> dlq_job list \<Rightarrow> (string \<times> dlq_job list) list" where
  "poll_groups E js = concat (map (\<lambda>(p, js). map (Pair p) (group_by_params E js)) (group_by q_pipeline js))"

lemma mset_ids: "mset a = mset b \<Longrightarrow> q_id ` set a = q_id ` set b \<and> (distinct (map q_id a) \<longleftrightarrow> distinct (map q_id b))"
  by (metis mset_eq_imp_distinct_iff mset_map set_mset_mset)

lemma run_ids_groups: "run_ids (map (Pair p) (group_by_params E js)) = q_id ` set js"
proof -
  have "run_ids (map (Pair p) (group_by_params E js)) = q_id ` set (concat (group_by_params E js))"
    by (simp add: run_ids_def comp_def)
  then show ?thesis using mset_ids [OF group_by_params_items] by simp
qed

lemma pipeline_settles:
  assumes run: "process_pipeline_jobs E p js w = (Inr rs, w')" and conf: "de_configured E"
    and ids: "distinct (map q_id js)" and there: "\<forall>j \<in> set js. find_job (q_id j) w = Some j"
  shows "groups_settle E (map (Pair p) (group_by_params E js)) w w'"
proof -
  let ?w = "mark_processing js w" and ?gs = "group_by_params E js"
  have items: "mset (concat ?gs) = mset js" by (rule group_by_params_items)
  then have set: "set (concat ?gs) = set js" by (metis set_mset_mset)
  have run': "process_groups E p ?gs ?w = (Inr rs, w')"
    using run by (simp add: process_pipeline_jobs_def bind_step_def)
  have "distinct (map q_id (concat ?gs))" using mset_ids [OF items] ids by blast
  moreover have "\<forall>j \<in> set (concat ?gs). \<exists>r. find_job (q_id j) ?w = Some r \<and> processing_row j r"
    unfolding set using there by (auto simp: rows in_ids_def processing_row_def)
  ultimately have s: "groups_settle E (map (Pair p) ?gs) ?w w'" by (rule groups_settle [OF run' conf])
  have w: "dw_runs ?w = dw_runs w" "dw_now ?w = dw_now w" "dw_archive ?w = dw_archive w"
    by (simp_all add: mark_processing_def)
  have other: "find_job i ?w = find_job i w" if "i \<notin> q_id ` set js" for i
    using that find_id by (auto simp: rows in_ids_def intro!: option.map_ident_strong)
  have "i \<notin> run_ids (map (Pair p) ?gs) \<Longrightarrow> find_job i w' = find_job i w" for i
    using settlesD(4) [OF s, of i] other [of i] unfolding run_ids_groups by simp
  then show ?thesis
    using s unfolding groups_settle_def Let_def w run_ids_def by blast
qed

lemma pipelines_settle:
  assumes "process_pipelines E pjs w = (Inr (), w')" and conf: "de_configured E"
    and "distinct (map q_id (concat (map snd pjs)))" and "\<forall>j \<in> set (concat (map snd pjs)). find_job (q_id j) w = Some j"
  shows "groups_settle E (concat (map (\<lambda>(p, js). map (Pair p) (group_by_params E js)) pjs)) w w'"
  using assms(1,3,4)
proof (induction pjs arbitrary: w)
  case Nil
  then show ?case by (simp add: settles_nil)
next
  case (Cons pj pjs)
  obtain p js where pj: "pj = (p, js)" by (cases pj)
  let ?rest = "concat (map (\<lambda>(p, js). map (Pair p) (group_by_params E js)) pjs)"
  obtain rs w1 where one: "process_pipeline_jobs E p js w = (Inr rs, w1)" and more: "process_pipelines E pjs w1 = (Inr (), w')"
    using Cons.prems(1) pj by (auto elim!: bind_stepE)
  have first: "groups_settle E (map (Pair p) (group_by_params E js)) w w1"
    using Cons.prems(2,3) pj by (intro pipeline_settles [OF one conf]) auto
  have rest_ids: "run_ids (concat (map (\<lambda>(p, js). map (Pair p) (group_by_params E js)) qs)) = q_id ` set (concat (map snd qs))" for qs
  proof (induction qs)
    case (Cons q qs)
    have "run_ids (a @ b) = run_ids a \<union> run_ids b" for a b by (auto simp: run_ids_def)
    with Cons show ?case by (cases q) (simp add: run_ids_groups image_Un)
  qed (simp add: run_ids_def)
  have apart: "run_ids (map (Pair p) (group_by_params E js)) \<inter> run_ids ?rest = {}"
    using Cons.prems(2) unfolding rest_ids run_ids_groups pj by auto
  have "find_job (q_id j) w1 = Some j" if j: "j \<in> set (concat (map snd pjs))" for j
  proof -
    have "q_id j \<notin> run_ids (map (Pair p) (group_by_params E js))"
      using Cons.prems(2) j unfolding run_ids_groups pj by auto
    then have "find_job (q_id j) w1 = find_job (q_id j) w" by (rule settlesD(4) [OF first])
    then show ?thesis using Cons.prems(3) j by simp
  qed
  then have "groups_settle E ?rest w1 w'" using Cons.IH [OF more] Cons.prems(2) by simp
  from settles_append [OF first this apart] show ?case by (simp add: pj)
qed


subsection \<open>No job is lost or left half done\<close>

definition known_ids :: "dlq_world \<Rightarrow> int set" where
  "known_ids w = q_id ` set (dw_jobs w) \<union> a_id ` set (dw_archive w)"

text \<open>Every id is in one place; ids to come are new; inside a transaction the rows being
  processed are those of the jobs \<open>js\<close> still to be settled.\<close>

definition ids_ok :: "dlq_world \<Rightarrow> bool" where
  "ids_ok w \<longleftrightarrow> distinct (map q_id (dw_jobs w)) \<and> distinct (map a_id (dw_archive w)) \<and>
     q_id ` set (dw_jobs w) \<inter> a_id ` set (dw_archive w) = {} \<and> (\<forall>i \<in> known_ids w. i < dw_next_id w)"

definition row_ok :: "dlq_job list \<Rightarrow> dlq_job \<Rightarrow> bool" where
  "row_ok js r \<longleftrightarrow> (q_status r = DProcessing \<longrightarrow> in_ids js r) \<and> (q_status r = DPending \<longrightarrow> q_retry r < q_max r) \<and>
     (\<forall>j \<in> set js. q_id j = q_id r \<longrightarrow> q_retry r = q_retry j \<and> q_max r = q_max j)"

definition midway :: "dlq_job list \<Rightarrow> int set \<Rightarrow> dlq_world \<Rightarrow> bool" where
  "midway js A w \<longleftrightarrow> ids_ok w \<and> known_ids w = A \<and> distinct (map q_id js) \<and> q_id ` set js \<subseteq> q_id ` set (dw_jobs w) \<and>
     (\<forall>r \<in> set (dw_jobs w). row_ok js r)"

lemma image_update_where: "set (update_where P f t) = (\<lambda>r. if P r then f r else r) ` set t"
  by (simp add: update_where_def)

lemma ids_update:
  "(\<And>r. q_id (f r) = q_id r) \<Longrightarrow> map q_id (update_where P f t) = map q_id t"
  by (simp add: map_update_where)

lemma midway_update:
  assumes "midway (g @ js) A w" and "\<And>r. q_id (f r) = q_id r"
    and "\<And>r. r \<in> set (dw_jobs w) \<Longrightarrow> in_ids g r \<Longrightarrow> row_ok js (f r)"
  shows "midway js A (w\<lparr>dw_jobs := update_where (in_ids g) f (dw_jobs w)\<rparr>)"
proof -
  let ?t = "update_where (in_ids g) f (dw_jobs w)"
  have ids: "map q_id ?t = map q_id (dw_jobs w)" by (rule ids_update [OF assms(2)])
  then have ids': "q_id ` set ?t = q_id ` set (dw_jobs w)" by (metis set_map)
  have "row_ok js r" if r: "r \<in> set ?t" for r
  proof -
    obtain q where q: "q \<in> set (dw_jobs w)" "r = (if in_ids g q then f q else q)"
      using r by (auto simp: image_update_where)
    have "row_ok (g @ js) q" using assms(1) q(1) by (simp add: midway_def)
    then show ?thesis using q assms(3) [OF q(1)] by (auto simp: row_ok_def in_ids_def)
  qed
  then show ?thesis
    using assms(1) by (auto simp: midway_def ids_ok_def known_ids_def ids ids')
qed

lemma midway_completed: "midway (g @ js) A w \<Longrightarrow> midway js A (mark_completed g eid w)"
  unfolding mark_completed_def
proof (rule midway_update)
  fix r assume "midway (g @ js) A w" "r \<in> set (dw_jobs w)" "in_ids g r"
  then show "row_ok js (r\<lparr>q_status := DCompleted, q_processed := Some (dw_now w), q_execution := Some eid, q_updated := dw_now w\<rparr>)"
    by (auto simp: midway_def row_ok_def)
qed simp_all

lemma midway_failed:
  assumes "midway (j # js) A w"
  shows "midway js A (handle_job_failure msg w j)"
proof (cases "q_max j \<le> q_retry j + 1")
  case False
  have sel: "by_qid (q_id j) = in_ids [j]" by (auto simp: by_qid_def in_ids_def)
  have "midway js A (w\<lparr>dw_jobs := update_where (in_ids [j]) (\<lambda>r. r\<lparr>q_retry := q_retry r + 1, q_error := Some msg,
      q_updated := dw_now w, q_scheduled_at := dw_now w + of_minutes (calculate_backoff (q_retry r + 1)), q_status := DPending\<rparr>) (dw_jobs w)\<rparr>)"
  proof (rule midway_update)
    fix r assume r: "r \<in> set (dw_jobs w)" "in_ids [j] r"
    then have "q_retry r = q_retry j \<and> q_max r = q_max j" and "q_id r \<notin> q_id ` set js"
      using assms by (auto simp: midway_def row_ok_def in_ids_def)
    then show "row_ok js (r\<lparr>q_retry := q_retry r + 1, q_error := Some msg, q_updated := dw_now w,
        q_scheduled_at := dw_now w + of_minutes (calculate_backoff (q_retry r + 1)), q_status := DPending\<rparr>)"
      using False by (auto simp: row_ok_def image_iff)
  qed (use assms in auto)
  then show ?thesis using False by (simp add: handle_job_failure_def Let_def sel)
next
  case True
  let ?t = "delete_where (by_qid (q_id j)) (dw_jobs w)"
  have t: "set ?t = {r \<in> set (dw_jobs w). q_id r \<noteq> q_id j}" by (auto simp: delete_where_def by_qid_def)
  have dist: "distinct (map q_id ?t)"
    using assms by (auto simp: delete_where_def midway_def ids_ok_def distinct_map intro: inj_on_subset)
  have ids: "q_id ` set ?t = q_id ` set (dw_jobs w) - {q_id j}" unfolding t by auto
  have j: "q_id j \<in> q_id ` set (dw_jobs w)" "q_id j \<notin> a_id ` set (dw_archive w)" "q_id j \<notin> q_id ` set js"
    using assms by (auto simp: midway_def ids_ok_def)
  have rows: "row_ok js r" if r: "r \<in> set ?t" for r
  proof -
    have "row_ok (j # js) r" "q_id r \<noteq> q_id j" using r assms unfolding t by (auto simp: midway_def)
    then show ?thesis by (auto simp: row_ok_def in_ids_def)
  qed
  have known: "known_ids (handle_job_failure msg w j) = known_ids w"
    using j(1) True by (auto simp: known_ids_def handle_job_failure_def Let_def ids archive_job_def)
  have new: "dw_jobs (handle_job_failure msg w j) = ?t" "dw_next_id (handle_job_failure msg w j) = dw_next_id w"
    "map a_id (dw_archive (handle_job_failure msg w j)) = map a_id (dw_archive w) @ [q_id j]"
    using True by (simp_all add: handle_job_failure_def Let_def archive_job_def)
  then have arch: "a_id ` set (dw_archive (handle_job_failure msg w j)) = insert (q_id j) (a_id ` set (dw_archive w))"
    by (metis list.set_map list.simps(15) set_append Un_insert_right append_Nil2 rotate1.simps(2) set_rotate1)
  have old: "ids_ok w" using assms by (simp add: midway_def)
  have "ids_ok (handle_job_failure msg w j)"
    unfolding ids_ok_def known new arch ids
  proof (intro conjI)
    show "distinct (map q_id ?t)" by (rule dist)
    show "distinct (map a_id (dw_archive w) @ [q_id j])" using old j(2) by (simp add: ids_ok_def)
    show "(q_id ` set (dw_jobs w) - {q_id j}) \<inter> insert (q_id j) (a_id ` set (dw_archive w)) = {}"
      using old by (auto simp: ids_ok_def)
    show "\<forall>i \<in> known_ids w. i < dw_next_id w" using old by (simp add: ids_ok_def)
  qed
  moreover have "q_id ` set js \<subseteq> q_id ` set ?t" "distinct (map q_id js)" "known_ids w = A"
  proof -
    have "q_id ` set (j # js) \<subseteq> q_id ` set (dw_jobs w)" "distinct (map q_id (j # js))" "known_ids w = A"
      using assms unfolding midway_def by blast+
    then show "q_id ` set js \<subseteq> q_id ` set ?t" "distinct (map q_id js)" "known_ids w = A"
      using j(3) unfolding ids list.set(2) image_insert by (blast, simp_all)
  qed
  ultimately show ?thesis
    using rows unfolding midway_def new known by blast
qed

lemma midway_failures: "midway (g @ js) A w \<Longrightarrow> midway js A (foldl (handle_job_failure msg) w g)"
  by (induction g arbitrary: w) (auto dest: midway_failed)


abbreviation halfway :: "dlq_job list \<Rightarrow> int set \<Rightarrow> py_error + 'a \<Rightarrow> dlq_world \<Rightarrow> bool" where
  "halfway js A \<equiv> \<lambda>r w. case r of Inl e \<Rightarrow> True | Inr x \<Rightarrow> midway js A w"

lemma midway_clock [simp]: "midway js A (w\<lparr>dw_now := t, dw_runs := rs\<rparr>) = midway js A w"
  by (simp add: midway_def ids_ok_def known_ids_def)

lemma wp_dispatch_jobs:
  "midway js A w \<Longrightarrow> wp (dispatch_jobs E p g) (\<lambda>r w'. midway js A w') w"
  by (auto simp: dispatch_jobs_def wps wp_def Let_def)

lemma wp_process_group:
  assumes "midway (g @ js) A w"
  shows "wp (process_group E p g) (halfway js A) w"
  unfolding process_group_def wp_try wp_bind
  by (rule wp_use [OF wp_dispatch_jobs [OF assms]])
    (auto simp: wps midway_completed midway_failures split: sum.splits)

lemma wp_process_groups:
  assumes "midway (concat gs @ js) A w"
  shows "wp (process_groups E p gs) (halfway js A) w"
  using assms
proof (induction gs arbitrary: w)
  case (Cons g gs)
  have "midway (g @ concat gs @ js) A w" using Cons.prems by simp
  from wp_process_group [OF this, of E p] show ?case
    unfolding process_groups.simps wp_bind
  proof (rule wp_use, goal_cases)
    case (1 r w1)
    show ?case
    proof (cases r)
      case (Inr x)
      with 1 have "midway (concat gs @ js) A w1" by simp
      from wp_use [OF Cons.IH [OF this]] show ?thesis
        unfolding Inr sum.case wp_bind by (rule wp_use) (auto simp: wps split: sum.splits)
    qed simp
  qed
qed (simp add: wps)

lemma midway_start:
  assumes "midway js A w" and "distinct (map q_id (g @ js))" and "set g \<subseteq> set (dw_jobs w)"
    and "\<forall>j \<in> set g. q_status j = DPending"
  shows "midway (g @ js) A (mark_processing g w)"
proof -
  let ?f = "\<lambda>j. j\<lparr>q_status := DProcessing, q_updated := dw_now w\<rparr>"
  let ?t = "update_where (in_ids g) ?f (dw_jobs w)"
  have ids: "map q_id ?t = map q_id (dw_jobs w)" by (rule ids_update) simp
  then have ids': "q_id ` set ?t = q_id ` set (dw_jobs w)" by (metis set_map)
  have same: "q = j" if "q \<in> set (dw_jobs w)" "j \<in> set g" "q_id q = q_id j" for q j
    using assms(1,3) that by (auto simp: midway_def ids_ok_def distinct_map dest: inj_onD)
  have "row_ok (g @ js) r" if r: "r \<in> set ?t" for r
  proof -
    obtain q where q: "q \<in> set (dw_jobs w)" "r = (if in_ids g q then ?f q else q)"
      using r by (auto simp: image_update_where)
    have ok: "row_ok js q" using assms(1) q(1) by (simp add: midway_def)
    have g: "q_retry q = q_retry j \<and> q_max q = q_max j" if "j \<in> set (g @ js)" "q_id j = q_id q" for j
      using that ok same [OF q(1), of j] unfolding set_append row_ok_def by (metis Un_iff)
    show ?thesis
    proof (cases "in_ids g q")
      case True
      then have "r = ?f q" "in_ids (g @ js) q" using q(2) by (simp_all add: in_ids_def image_Un)
      then show ?thesis using g by (simp add: row_ok_def in_ids_def)
    next
      case False
      then have "r = q" using q(2) by simp
      then show ?thesis using ok g by (simp add: row_ok_def in_ids_def image_Un)
    qed
  qed
  moreover have "q_id ` set (g @ js) \<subseteq> q_id ` set ?t"
    using assms(1,3) unfolding ids' midway_def set_append by blast
  moreover have "ids_ok (mark_processing g w)" "known_ids (mark_processing g w) = A"
    using assms(1) by (simp_all add: mark_processing_def midway_def ids_ok_def known_ids_def ids ids')
  ultimately show ?thesis
    using assms(2) unfolding midway_def by (simp add: mark_processing_def)
qed

lemma midway_perm:
  assumes "mset a = mset b" and "midway (a @ js) A w" shows "midway (b @ js) A w"
proof -
  have "set a = set b" "distinct (map q_id (a @ js)) = distinct (map q_id (b @ js))"
    using assms(1) by (metis set_mset_mset) (metis assms(1) mset_append mset_eq_imp_distinct_iff mset_map map_append)
  with assms(2) show ?thesis by (auto simp: midway_def row_ok_def in_ids_def)
qed

lemma wp_process_pipeline:
  assumes "midway js A w" and "distinct (map q_id (g @ js))" and "set g \<subseteq> set (dw_jobs w)"
    and "\<forall>j \<in> set g. q_status j = DPending"
  shows "wp (process_pipeline_jobs E p g) (halfway js A) w"
  using wp_process_groups [OF midway_perm [OF group_by_params_items [symmetric] midway_start [OF assms]]]
  by (simp add: process_pipeline_jobs_def wps)


text \<open>What holds of the queue between transactions.\<close>

definition queue_ok :: "dlq_world \<Rightarrow> bool" where
  "queue_ok w \<longleftrightarrow> ids_ok w \<and> (\<forall>r \<in> set (dw_jobs w). q_status r \<noteq> DProcessing \<and> (q_status r = DPending \<longrightarrow> q_retry r < q_max r))"

lemma queue_midway: "queue_ok w \<and> known_ids w = A \<longleftrightarrow> midway [] A w"
  by (auto simp: queue_ok_def midway_def row_ok_def in_ids_def)

text \<open>Rows of the pipelines still to come are as the poll read them.\<close>

definition still :: "dlq_job list \<Rightarrow> dlq_world \<Rightarrow> bool" where
  "still js w \<longleftrightarrow> set js \<subseteq> set (dw_jobs w) \<and> (\<forall>j \<in> set js. q_status j = DPending)"

lemma update_other: "r \<in> set t \<Longrightarrow> \<not> P r \<Longrightarrow> r \<in> set (update_where P f t)"
  by (auto simp: image_update_where intro: image_eqI [of _ _ r])

lemma delete_other: "r \<in> set t \<Longrightarrow> \<not> P r \<Longrightarrow> r \<in> set (delete_where P t)"
  by (simp add: delete_where_def)

lemma wp_still_failures: "still js w \<Longrightarrow> q_id ` set js \<inter> q_id ` set g = {} \<Longrightarrow> still js (foldl (handle_job_failure msg) w g)"
proof (induction g arbitrary: w)
  case (Cons k g)
  have k: "\<not> by_qid (q_id k) j" if "j \<in> set js" for j
    using Cons.prems(2) imageI [OF that, of q_id] by (auto simp: by_qid_def simp del: image_eqI imageI)
  have "j \<in> set (update_where (by_qid (q_id k)) f (dw_jobs w))" "j \<in> set (delete_where (by_qid (q_id k)) (dw_jobs w))"
    if "j \<in> set js" for j f
    using Cons.prems(1) k [OF that] that unfolding still_def by (auto intro: update_other delete_other)
  then have "still js (handle_job_failure msg w k)"
    using Cons.prems(1) by (simp add: still_def handle_job_failure_def Let_def subset_iff)
  moreover have "q_id ` set js \<inter> q_id ` set g = {}" using Cons.prems(2) by auto
  ultimately show ?case using Cons.IH by simp
qed simp

lemma still_update:
  "still js w \<Longrightarrow> q_id ` set js \<inter> q_id ` set g = {} \<Longrightarrow> still js (w\<lparr>dw_jobs := update_where (in_ids g) f (dw_jobs w)\<rparr>)"
  by (auto simp: still_def in_ids_def intro!: update_other)

lemma still_clock [simp]: "still js (w\<lparr>dw_now := t, dw_runs := rs\<rparr>) = still js w"
  by (simp add: still_def)

lemma wp_still_groups:
  assumes "still js w" and "q_id ` set js \<inter> q_id ` set (concat gs) = {}"
  shows "wp (process_groups E p gs) (\<lambda>r w'. still js w') w"
  using assms
proof (induction gs arbitrary: w)
  case (Cons g gs)
  have apart: "q_id ` set js \<inter> q_id ` set g = {}" "q_id ` set js \<inter> q_id ` set (concat gs) = {}"
    using Cons.prems(2) by auto
  have dispatch: "wp (dispatch_jobs E p g) (\<lambda>r w'. still js w') w"
    using Cons.prems(1) by (auto simp: dispatch_jobs_def wp_def Let_def raise_step_def)
  have "wp (process_group E p g) (\<lambda>r w'. still js w') w"
    unfolding process_group_def wp_try wp_bind
    by (rule wp_use [OF dispatch])
      (auto simp: wps mark_completed_def still_update [OF _ apart(1)] wp_still_failures [OF _ apart(1)] split: sum.splits)
  then show ?case
    unfolding process_groups.simps
    by (rule wp_seq) (rule wp_seq [OF Cons.IH [OF _ apart(2)]], simp_all add: wps)
qed (simp add: wps)

lemma wp_process_pipelines:
  assumes "midway [] A w" and "distinct (map q_id (concat (map snd pjs)))" and "still (concat (map snd pjs)) w"
  shows "wp (process_pipelines E pjs) (halfway [] A) w"
  using assms
proof (induction pjs arbitrary: w)
  case (Cons pj pjs)
  obtain p g where pj: "pj = (p, g)" by (cases pj)
  let ?js = "concat (map snd pjs)"
  have apart: "q_id ` set ?js \<inter> q_id ` set g = {}" "distinct (map q_id g)" "distinct (map q_id ?js)"
    using Cons.prems(2) by (auto simp: pj)
  have g: "set g \<subseteq> set (dw_jobs w)" "\<forall>j \<in> set g. q_status j = DPending" and js: "still ?js w"
    using Cons.prems(3) by (auto simp: pj still_def)
  have one: "wp (process_pipeline_jobs E p g) (halfway [] A) w"
    using wp_process_pipeline [OF Cons.prems(1) _ g] apart(2) by simp
  have "still ?js (mark_processing g w)"
    unfolding mark_processing_def using js apart(1) by (rule still_update)
  moreover have "set (concat (group_by_params E g)) = set g"
    using group_by_params_items by (metis set_mset_mset)
  ultimately have two: "wp (process_pipeline_jobs E p g) (\<lambda>r w'. still ?js w') w"
    using wp_still_groups [of ?js "mark_processing g w" "group_by_params E g"] apart(1) by (simp add: process_pipeline_jobs_def wps)
  show ?case
    unfolding pj process_pipelines.simps wp_bind
  proof (rule wp_use [OF wp_conj [OF one two]], goal_cases)
    case (1 r w1)
    show ?case
    proof (cases r)
      case (Inr x)
      with 1 have "midway [] A w1" "still ?js w1" by simp_all
      from Cons.IH [OF this(1) apart(3) this(2)] show ?thesis unfolding Inr sum.case .
    qed simp
  qed
qed (simp add: wps)


text \<open>The relation every request and every poll keeps: a sound queue stays sound and no id is lost.\<close>

definition sound_step :: "dlq_world \<Rightarrow> dlq_world \<Rightarrow> bool" where
  "sound_step w w' \<longleftrightarrow> (queue_ok w \<longrightarrow> queue_ok w' \<and> known_ids w \<subseteq> known_ids w')"

lemma sound_step_order [simp]: "reflp sound_step" "transp sound_step"
  by (auto simp: sound_step_def reflp_def transp_def)

lemma sound_step_same:
  "dw_jobs w' = dw_jobs w \<Longrightarrow> dw_archive w' = dw_archive w \<Longrightarrow> dw_next_id w' = dw_next_id w \<Longrightarrow> sound_step w w'"
  by (simp add: sound_step_def queue_ok_def ids_ok_def known_ids_def)

lemma sound_transaction:
  assumes "\<And>r w'. queue_ok w \<Longrightarrow> m w = (Inr r, w') \<Longrightarrow> queue_ok w' \<and> known_ids w \<subseteq> known_ids w'"
    and "transaction E m w = (r, w')"
  shows "sound_step w w'"
proof -
  have rolled: "sound_step w (roll_back w v)" for v
    by (rule sound_step_same) (simp_all add: roll_back_def)
  have count: "queue_ok (v\<lparr>dw_commits := n\<rparr>) = queue_ok v" "known_ids (v\<lparr>dw_commits := n\<rparr>) = known_ids v" for v n
    by (simp_all add: queue_ok_def ids_ok_def known_ids_def)
  show ?thesis
    using assms rolled
    by (auto simp: transaction_defs Let_def sound_step_def count split: prod.splits sum.splits if_splits)
qed

lemma sound_body:
  assumes "wp m (halfway [] A) w" and "known_ids w = A" and "m w = (Inr r, w')"
  shows "queue_ok w' \<and> known_ids w \<subseteq> known_ids w'"
  using wpD [OF assms(1,3)] assms(2) by (auto simp: queue_midway [symmetric])

lemma known_rows:
  assumes "queue_ok w" and "j \<in> set (dw_jobs w)"
  shows "find_job (q_id j) w = Some j"
  using assms first_where_key [of q_id "dw_jobs w" j] by (simp add: find_job_def by_qid_def [abs_def] queue_ok_def ids_ok_def)

lemma sound_poll: "moves sound_step (poll_and_process E)"
proof -
  have one: "sound_step w (w\<lparr>dw_depth := n\<rparr>)" for w n by (rule sound_step_same) simp_all
  have two: "sound_step w w'"
    if "transaction E (process_pipelines E (group_by q_pipeline (filter (due E (dw_now w)) (dw_jobs w)))) w = (r, w')" for w r w'
  proof (rule sound_transaction [OF _ that])
    fix r w' assume q: "queue_ok w"
      and run: "process_pipelines E (group_by q_pipeline (filter (due E (dw_now w)) (dw_jobs w))) w = (Inr r, w')"
    let ?js = "filter (due E (dw_now w)) (dw_jobs w)" and ?all = "concat (map snd (group_by q_pipeline (filter (due E (dw_now w)) (dw_jobs w))))"
    have items: "mset ?all = mset ?js" by (rule group_by_items)
    have "distinct (map q_id ?js)"
      using q by (simp add: queue_ok_def ids_ok_def distinct_map_filter)
    then have "distinct (map q_id ?all)" using mset_ids [OF items] by blast
    moreover have "still ?all w"
      using set_mset_mset [of ?all] set_mset_mset [of ?js] items by (auto simp: still_def due_def)
    ultimately have "wp (process_pipelines E (group_by q_pipeline ?js)) (halfway [] (known_ids w)) w"
      using q by (intro wp_process_pipelines) (auto simp: queue_midway [symmetric])
    then show "queue_ok w' \<and> known_ids w \<subseteq> known_ids w'" using run by (rule sound_body [OF _ refl])
  qed
  show ?thesis
    unfolding poll_and_process_def
  proof (rule movesI)
    fix w r w'
    assume run: "(bind_step (write_step (\<lambda>w. w\<lparr>dw_depth := count_where (\<lambda>j. q_status j = DPending) (dw_jobs w)\<rparr>))
        (\<lambda>_. bind_step (read_step (\<lambda>w. filter (due E (dw_now w)) (dw_jobs w)))
          (\<lambda>js. if js = [] then return_step () else transaction E (process_pipelines E (group_by q_pipeline js))))) w = (r, w')"
    let ?w = "w\<lparr>dw_depth := count_where (\<lambda>j. q_status j = DPending) (dw_jobs w)\<rparr>"
    have "w' = ?w \<or> transaction E (process_pipelines E (group_by q_pipeline (filter (due E (dw_now ?w)) (dw_jobs ?w)))) ?w = (r, w')"
      using run by (simp add: bind_step_def split: if_splits)
    then show "sound_step w w'"
      using one [of w] two [of ?w r w'] by (auto intro: transpD [OF sound_step_order(2)])
  qed
qed


text \<open>The requests.\<close>


lemma sound_one:
  assumes "find_job i w = Some j" and "q_status j = DPending" and "queue_ok w"
  shows "wp (dispatch_one E j) (halfway [] (known_ids w)) w"
proof -
  have j: "j \<in> set (dw_jobs w)" using assms(1) by (auto simp: find_job_def dest: first_where_Some_iff)
  have "midway [] (known_ids w) w" using assms(3) by (simp add: queue_midway [symmetric])
  from midway_start [OF this, of "[j]"] j assms(2)
  have "midway ([j] @ []) (known_ids w) (mark_processing [j] w)" by simp
  from wp_dispatch_jobs [OF this] show ?thesis
    unfolding dispatch_one_def wp_bind wp_write sum.case
    by (rule wp_use) (auto simp: wps intro: midway_completed split: sum.splits)
qed

lemma sound_retry:
  assumes "find_job (q_id j) w = Some j" and "q_status j = DPending" and "queue_ok w"
  shows "queue_ok (handle_job_failure msg w j) \<and> known_ids w \<subseteq> known_ids (handle_job_failure msg w j)"
proof -
  have j: "j \<in> set (dw_jobs w)" using assms(1) by (auto simp: find_job_def dest: first_where_Some_iff)
  have same: "q = j" if "q \<in> set (dw_jobs w)" "q_id q = q_id j" for q
    using assms(3) j that by (auto simp: queue_ok_def ids_ok_def distinct_map dest: inj_onD)
  have "midway ([j] @ []) (known_ids w) w"
  proof -
    have "row_ok [j] r" if r: "r \<in> set (dw_jobs w)" for r
      using assms(3) r same [OF r] unfolding queue_ok_def row_ok_def by (metis list.set(1,2) singletonD)
    then show ?thesis using assms(3) j by (simp add: midway_def queue_ok_def)
  qed
  then have "midway [] (known_ids w) (handle_job_failure msg w j)" using midway_failed [of j "[]"] by simp
  then show ?thesis by (simp add: queue_midway [symmetric])
qed

lemma find_rolled [simp]: "find_job i (roll_back w v) = find_job i w"
  by (simp add: find_job_def roll_back_def)

lemma transaction_failed:
  "transaction E m w = (Inl e, w') \<Longrightarrow> dw_jobs w' = dw_jobs w \<and> dw_archive w' = dw_archive w \<and> dw_next_id w' = dw_next_id w"
  by (auto simp: transaction_defs roll_back_def Let_def split: prod.splits sum.splits if_splits)

lemma sound_process_job: "moves sound_step (process_job_immediately E i)"
proof (rule movesI)
  fix w r w' assume run: "process_job_immediately E i w = (r, w')"
  show "sound_step w w'"
  proof (cases "\<exists>j. find_job i w = Some j \<and> q_status j = DPending")
    case False
    then have "w' = w" using run by (auto simp: process_job_immediately_def bind_step_def split: option.splits if_splits)
    then show ?thesis by (simp add: sound_step_same)
  next
    case True
    then obtain j where j: "find_job i w = Some j" "q_status j = DPending" by blast
    let ?m = "dispatch_one E j"
    obtain r1 w1 where t: "transaction E ?m w = (r1, w1)" by (cases "transaction E ?m w")
    have first: "sound_step w w1"
      using sound_body [OF sound_one [OF j] refl] by (rule sound_transaction [OF _ t]) 
    show ?thesis
    proof (cases r1)
      case (Inr x)
      then show ?thesis using run j t first by (simp add: process_job_immediately_def bind_step_def try_step_def)
    next
      case (Inl e)
      have tables: "dw_jobs w1 = dw_jobs w" using transaction_failed [of E ?m w e w1] t Inl by simp
      have again: "sound_step w1 w2" if "transaction E (write_step (\<lambda>w. handle_job_failure (error_text e) w j)) w1 = (r2, w2)" for r2 w2
      proof (rule sound_transaction [OF _ that])
        fix r v assume "queue_ok w1" and v: "write_step (\<lambda>w. handle_job_failure (error_text e) w j) w1 = (Inr r, v)"
        moreover have "find_job (q_id j) w1 = Some j" using j(1) find_id [OF j(1)] tables by (simp add: find_job_def)
        ultimately show "queue_ok v \<and> known_ids w1 \<subseteq> known_ids v" using sound_retry j(2) by auto
      qed
      have "w' = w1 \<or> (\<exists>r2. transaction E (write_step (\<lambda>w. handle_job_failure (error_text e) w j)) w1 = (r2, w'))"
        using run j t Inl by (auto simp: process_job_immediately_def bind_step_def try_step_def split: if_splits prod.splits sum.splits)
      then show ?thesis using first again transpD [OF sound_step_order(2)] by blast
    qed
  qed
qed

lemma sound_process_pipeline: "moves sound_step (process_pipeline_immediately E p)"
proof (rule movesI)
  fix w r w' assume run: "process_pipeline_immediately E p w = (r, w')"
  let ?js = "filter (pending_of E p) (dw_jobs w)"
  have two: "sound_step w w1" if "transaction E (process_pipeline_jobs E p ?js) w = (r1, w1)" for r1 w1
  proof (rule sound_transaction [OF _ that])
    fix r v assume q: "queue_ok w" and body: "process_pipeline_jobs E p ?js w = (Inr r, v)"
    have "distinct (map q_id ?js)" using q by (simp add: queue_ok_def ids_ok_def distinct_map_filter)
    moreover have "midway [] (known_ids w) w" using q by (simp add: queue_midway [symmetric])
    ultimately have "wp (process_pipeline_jobs E p ?js) (halfway [] (known_ids w)) w"
      by (intro wp_process_pipeline) (auto simp: pending_of_def)
    then show "queue_ok v \<and> known_ids w \<subseteq> known_ids v" using body by (rule sound_body [OF _ refl])
  qed
  obtain r1 w1 where t: "transaction E (process_pipeline_jobs E p ?js) w = (r1, w1)"
    by (cases "transaction E (process_pipeline_jobs E p ?js) w")
  have "w' = w \<or> w' = w1"
    using run t by (auto simp: process_pipeline_immediately_def bind_step_def split: if_splits sum.splits option.splits list.splits)
  then show "sound_step w w'" using two [OF t] by (auto intro: sound_step_same)
qed


lemma sound_schedule: "moves sound_step (schedule_dlq_job E R payload p delay)"
proof -
  let ?j = "\<lambda>w. new_dlq_job (dw_next_id w) (dw_now w) payload p (case delay of Some d \<Rightarrow> d | None \<Rightarrow> DLQ_DEFAULT_DELAY_MINUTES)"
  let ?add = "bind_step (read_step ?j) (\<lambda>j.
    bind_step (write_step (\<lambda>w. w\<lparr>dw_jobs := dw_jobs w @ [j], dw_next_id := dw_next_id w + 1\<rparr>)) (\<lambda>_. return_step j))"
  have "moves sound_step (transaction E ?add)"
  proof (rule movesI)
    fix w r w' assume t: "transaction E ?add w = (r, w')"
    show "sound_step w w'"
    proof (rule sound_transaction [OF _ t])
      fix r v assume q: "queue_ok w" and "?add w = (Inr r, v)"
      then have v: "v = w\<lparr>dw_jobs := dw_jobs w @ [?j w], dw_next_id := dw_next_id w + 1\<rparr>"
        by (auto simp: bind_step_def)
      have new: "q_id (?j w) = dw_next_id w" "q_status (?j w) = DPending" "q_retry (?j w) < q_max (?j w)"
        by (simp_all add: new_dlq_job_def DLQ_MAX_RETRIES_def)
      have fresh: "dw_next_id w \<notin> known_ids w" using q by (auto simp: queue_ok_def ids_ok_def)
      have known: "known_ids v = insert (dw_next_id w) (known_ids w)"
        by (auto simp: known_ids_def v new)
      have "\<forall>i \<in> known_ids w. i < dw_next_id w + 1" using q by (force simp: queue_ok_def ids_ok_def)
      then have "ids_ok v"
        using q fresh unfolding ids_ok_def known by (auto simp: v new queue_ok_def ids_ok_def known_ids_def)
      moreover have "\<forall>r \<in> set (dw_jobs v). q_status r \<noteq> DProcessing \<and> (q_status r = DPending \<longrightarrow> q_retry r < q_max r)"
        using q new(2,3) by (auto simp: v queue_ok_def)
      ultimately show "queue_ok v \<and> known_ids w \<subseteq> known_ids v" unfolding queue_ok_def known by blast
    qed
  qed
  then show ?thesis by (auto simp: schedule_dlq_job_def intro!: moves_if steps)
qed

lemma sound_cancel: "moves sound_step (cancel_dlq_job E i)"
proof -
  let ?f = "\<lambda>w j. j\<lparr>q_status := DCancelled, q_updated := dw_now w\<rparr>"
  let ?set = "bind_step (write_step (\<lambda>w. w\<lparr>dw_jobs := update_where (by_qid i) (?f w) (dw_jobs w)\<rparr>))
    (\<lambda>_. return_step (''DLQ job '' @ int_text i @ '' cancelled''))"
  have set: "moves sound_step (transaction E ?set)"
  proof (rule movesI)
    fix w r w' assume t: "transaction E ?set w = (r, w')"
    show "sound_step w w'"
    proof (rule sound_transaction [OF _ t])
      fix r v assume q: "queue_ok w" and "?set w = (Inr r, v)"
      then have v: "v = w\<lparr>dw_jobs := update_where (by_qid i) (?f w) (dw_jobs w)\<rparr>" by (simp add: bind_step_def)
      have "map q_id (dw_jobs v) = map q_id (dw_jobs w)" unfolding v by (simp add: ids_update)
      moreover from this have "q_id ` set (dw_jobs v) = q_id ` set (dw_jobs w)" by (metis set_map)
      moreover have "\<forall>r \<in> set (dw_jobs v). q_status r \<noteq> DProcessing \<and> (q_status r = DPending \<longrightarrow> q_retry r < q_max r)"
        using q by (auto simp: v image_update_where queue_ok_def)
      ultimately show "queue_ok v \<and> known_ids w \<subseteq> known_ids v"
        using q by (simp add: queue_ok_def ids_ok_def known_ids_def v)
    qed
  qed
  show ?thesis
    unfolding cancel_dlq_job_def get_dlq_job_def
    by (intro moves_bind moves_read moves_if moves_option moves_raise moves_return set sound_step_order)
qed

lemma sound_turn: "moves sound_step (run_turn E s)"
  unfolding run_turn_def
  by (intro moves_bind moves_try moves_return sound_poll sound_step_order)
    (rule moves_write, simp add: sound_step_same)

lemma sound_dispatch: "moves sound_step (dispatch_dlq_job E b i)" "moves sound_step (dispatch_pipeline_dlq_jobs E b p)"
  unfolding dispatch_dlq_job_def dispatch_pipeline_dlq_jobs_def
  by (intro moves_if moves_try moves_bind moves_option moves_raise moves_return sound_process_job sound_step_order)
    (intro moves_if moves_try moves_bind moves_raise moves_return sound_process_pipeline sound_step_order,
     auto intro!: steps moves_if split: list.splits)

subsection \<open>Properties\<close>

text \<open>The runs of a poll: the due jobs, each in one run, of one pipeline and the same params.\<close>

lemma poll_groups_items: "mset (concat (map snd (poll_groups E js))) = mset js"
proof -
  have "mset (concat (map snd (concat (map (\<lambda>(p, js). map (Pair p) (group_by_params E js)) qs)))) = mset (concat (map snd qs))"
    for qs :: "(string \<times> dlq_job list) list"
    by (induction qs) (auto simp: comp_def group_by_params_items)
  then show ?thesis by (simp only: poll_groups_def group_by_items)
qed

lemma poll_groups_same:
  assumes "(p, g) \<in> set (poll_groups E js)"
  shows "g \<noteq> [] \<and> (\<forall>j \<in> set g. q_pipeline j = p \<and> params_key E j = params_key E (hd g))"
proof -
  obtain qs where qs: "(p, qs) \<in> set (group_by q_pipeline js)" "g \<in> set (group_by_params E qs)"
    using assms by (auto simp: poll_groups_def)
  have "set (concat (group_by_params E qs)) = set qs" using group_by_params_items by (metis set_mset_mset)
  moreover have "set g \<subseteq> set (concat (group_by_params E qs))" using qs(2) by auto
  ultimately have "set g \<subseteq> set qs" by (simp only:)
  moreover have "\<forall>j \<in> set qs. q_pipeline j = p" using group_by_keys [of q_pipeline js] qs(1) by auto
  moreover note group_by_params_same [OF qs(2)]
  ultimately show ?thesis by (meson hd_in_set subsetD)
qed

lemma find_job_of_row: "distinct (map q_id (dw_jobs w)) \<Longrightarrow> j \<in> set (dw_jobs w) \<Longrightarrow> find_job (q_id j) w = Some j"
  using first_where_key [of q_id "dw_jobs w" j] by (simp add: find_job_def by_qid_def [abs_def])

text \<open>What a poll that commits did, group by group.\<close>

lemma processed_groups_settle:
  assumes "process_pipelines E (group_by q_pipeline js) w = (Inr (), v)" "de_configured E"
    and "distinct (map q_id (dw_jobs w))" "js = filter P (dw_jobs w)"
  shows "groups_settle E (poll_groups E js) w v"
proof -
  let ?pjs = "group_by q_pipeline js"
  have items: "mset (concat (map snd ?pjs)) = mset js" by (rule group_by_items)
  have ids: "distinct (map q_id (concat (map snd ?pjs)))"
    using mset_ids [OF items] assms(3,4) by (simp add: distinct_map_filter)
  have there: "\<forall>j \<in> set (concat (map snd ?pjs)). find_job (q_id j) w = Some j"
  proof
    fix j assume "j \<in> set (concat (map snd ?pjs))"
    moreover have "set (concat (map snd ?pjs)) = set js" using items by (metis set_mset_mset)
    ultimately have "j \<in> set js" by (simp only:)
    then have "j \<in> set (dw_jobs w)" by (simp add: assms(4))
    then show "find_job (q_id j) w = Some j" by (rule find_job_of_row [OF assms(3)])
  qed
  show ?thesis using pipelines_settle [OF assms(1,2) ids there] by (simp add: poll_groups_def)
qed



text \<open>Two jobs of one pipeline with the same params share a run; a third, whose run fails, is
  on its last retry.\<close>

definition dlq_example_env :: dlq_env where
  "dlq_example_env = \<lparr>de_run = (\<lambda>n. (7, if n = 0 then None else Some (RuntimeError ''boom''))), de_uuid = (\<lambda>n. ''x'' @ nat_text n),
     de_configured = True, de_commit_fails = (\<lambda>_. False), de_locked = {}, de_float = (\<lambda>_. ''''), de_str = (\<lambda>_. '''')\<rparr>"

definition dlq_example_jobs :: "dlq_job list" where
  "dlq_example_jobs = [new_dlq_job 1 0 [] ''p'' 0, (new_dlq_job 2 0 [(''k'', PInt 1)] ''p'' 0)\<lparr>q_retry := 4\<rparr>, new_dlq_job 3 0 [] ''p'' 0]"

definition dlq_example :: dlq_world where
  "dlq_example = \<lparr>dw_jobs = dlq_example_jobs, dw_archive = [], dw_next_id = 4, dw_now = 100, dw_runs = [], dw_depth = 0, dw_commits = 0\<rparr>"

lemma dlq_example_poll:
  "map (\<lambda>j. (q_id j, q_status j, q_execution j)) (dw_jobs (snd (poll_and_process dlq_example_env dlq_example))) =
     [(1, DCompleted, Some ''dlq-x0''), (3, DCompleted, Some ''dlq-x0'')] \<and>
   map a_id (dw_archive (snd (poll_and_process dlq_example_env dlq_example))) = [2] \<and>
   fst (poll_and_process dlq_example_env dlq_example) = Inr ()"
  by code_simp



text \<open>No job is lost, doubled or left half done, whatever happens: a poll, a dispatch on
  demand of one job or of a pipeline's, a request that schedules or cancels -- returning,
  raising, or refused by the database at its commit -- leaves every id known before in
  exactly one of the two tables, no job in the state processing, and every pending job with
  retries left.\<close>

theorem queue_stays_sound:
  "moves sound_step (run_turn E interval) \<and> moves sound_step (process_job_immediately E i) \<and>
   moves sound_step (process_pipeline_immediately E p) \<and> moves sound_step (schedule_dlq_job E R payload p delay) \<and>
   moves sound_step (cancel_dlq_job E i) \<and> moves sound_step (dispatch_dlq_job E ready i) \<and>
   moves sound_step (dispatch_pipeline_dlq_jobs E ready p)"
  by (intro conjI sound_turn sound_process_job sound_process_pipeline sound_schedule sound_cancel sound_dispatch)

text \<open>With the default number of retries the longest backoff is 40 minutes: the fifth failure
  archives the job.\<close>

lemma longest_backoff:
  assumes "retried msg now j = Some j'" and "q_max j = DLQ_MAX_RETRIES"
  shows "q_scheduled_at j' - now \<le> of_minutes 40"
proof -
  have "q_retry j + 1 \<in> {1, 2, 3, 4}"
    using assms by (auto simp: retried_def DLQ_MAX_RETRIES_def split: if_splits)
  then have "calculate_backoff (q_retry j + 1) \<le> 40"
    by (auto simp: calculate_backoff_def)
  then show ?thesis
    using assms by (auto simp: retried_def of_minutes_def split: if_splits)
qed

end
