(* ===== verification/Schedules.thy ===== *)
theory Schedules
  imports Effects ExecutionStore Text "HOL-Library.Char_ord"
begin

text \<open>
  The cron schedules: the table \<open>pipeline_schedules\<close> (\<open>reflow_manager/models.py\<close>) and the
  scheduler of \<open>reflow_manager/pipeline_scheduler.py\<close>. A poll is one transaction on the
  schedules; the executions it creates are committed by sessions of their own, and their
  jobs run on background threads. Croniter is a parameter: the next time of a cron
  expression after a given time, or the error it raises.
\<close>

record schedule =
  s_pipeline :: string
  s_name :: string
  s_cron :: string
  s_params :: pydict
  s_next :: time
  s_last :: "time option"
  s_execution :: "string option"
  s_enabled :: bool

type_synonym schedules = "schedule list"

text \<open>A background run: execution id, pipeline and params.\<close>

type_synonym started_run = "string \<times> string \<times> pydict"

record sched_world =
  sc_rows :: schedules
  sc_execs :: executions
  sc_started :: "started_run list"
  sc_now :: time
  sc_tick :: nat

record sched_env =
  se_next :: "string \<Rightarrow> time \<Rightarrow> py_error + time"
  se_uuid :: "nat \<Rightarrow> string"
  se_configured :: bool
  se_create :: "nat \<Rightarrow> py_error option"
  se_thread :: "nat \<Rightarrow> py_error option"
  se_commit_fails :: "nat \<Rightarrow> bool"
  se_locked :: "(string \<times> string) set"

definition PIPELINE_SCHEDULER_POLL_INTERVAL :: rat where "PIPELINE_SCHEDULER_POLL_INTERVAL = 30"

abbreviation s_key :: "schedule \<Rightarrow> string \<times> string" where
  "s_key s \<equiv> (s_pipeline s, s_name s)"

definition by_key :: "string \<times> string \<Rightarrow> schedule \<Rightarrow> bool" where
  "by_key k s \<longleftrightarrow> s_key s = k"

subsection \<open>Triggering\<close>

definition raise_if :: "py_error option \<Rightarrow> ('s, unit) step" where
  "raise_if e = (case e of None \<Rightarrow> return_step () | Some e \<Rightarrow> raise_step e)"

text \<open>\<open>_create_execution\<close>: the factory, the insert and its commit, any of which may raise.\<close>

definition create_scheduled :: "sched_env \<Rightarrow> nat \<Rightarrow> string \<Rightarrow> string \<Rightarrow> pydict \<Rightarrow> (sched_world, unit) step" where
  "create_scheduled E n pipeline_name eid params =
     bind_step (raise_if (se_create E n)) (\<lambda>_ w.
     case create_execution (sc_now w) eid pipeline_name (Some params) None (sc_execs w) of
       Inl e \<Rightarrow> (Inl e, w)
     | Inr t \<Rightarrow> (Inr (), w\<lparr>sc_execs := t\<rparr>))"

definition dispatch_async :: "sched_env \<Rightarrow> nat \<Rightarrow> string \<Rightarrow> string \<Rightarrow> pydict \<Rightarrow> (sched_world, unit) step" where
  "dispatch_async E n pipeline_name eid params =
     bind_step (raise_if (se_thread E n)) (\<lambda>_.
     write_step (\<lambda>w. w\<lparr>sc_started := sc_started w @ [(eid, pipeline_name, params)]\<rparr>))"

definition set_row :: "(string \<times> string) \<Rightarrow> (schedule \<Rightarrow> schedule) \<Rightarrow> (sched_world, unit) step" where
  "set_row k f = write_step (\<lambda>w. w\<lparr>sc_rows := update_where (by_key k) f (sc_rows w)\<rparr>)"

definition fire :: "sched_env \<Rightarrow> nat \<Rightarrow> schedule \<Rightarrow> (sched_world, unit) step" where
  "fire E n s =
     (let eid = ''sched-'' @ s_name s @ ''-'' @ se_uuid E n in
      if \<not> se_configured E then raise_step (RuntimeError ''Pipeline runner factory not configured'')
      else
        bind_step (create_scheduled E n (s_pipeline s) eid (s_params s)) (\<lambda>_.
        bind_step (dispatch_async E n (s_pipeline s) eid (s_params s)) (\<lambda>_.
        set_row (s_key s) (\<lambda>s. s\<lparr>s_execution := Some eid\<rparr>))))"

definition compute_next_run :: "sched_env \<Rightarrow> string \<Rightarrow> time \<Rightarrow> ('s, time) step" where
  "compute_next_run E cron after = (case se_next E cron after of Inl e \<Rightarrow> raise_step e | Inr t \<Rightarrow> return_step t)"

definition advance :: "sched_env \<Rightarrow> time \<Rightarrow> schedule \<Rightarrow> (sched_world, unit) step" where
  "advance E now s =
     bind_step (set_row (s_key s) (\<lambda>s. s\<lparr>s_last := Some now\<rparr>)) (\<lambda>_.
     bind_step (compute_next_run E (s_cron s) now) (\<lambda>t. set_row (s_key s) (\<lambda>s. s\<lparr>s_next := t\<rparr>)))"

definition trigger_pipeline :: "sched_env \<Rightarrow> time \<Rightarrow> schedule \<Rightarrow> (sched_world, unit) step" where
  "trigger_pipeline E now s =
     bind_step (read_step sc_tick) (\<lambda>n.
     bind_step (write_step (\<lambda>w. w\<lparr>sc_tick := Suc n\<rparr>)) (\<lambda>_.
     finally_step (try_step (fire E n s) is_exception (\<lambda>_. return_step ())) (advance E now s)))"

fun trigger_all :: "sched_env \<Rightarrow> time \<Rightarrow> schedule list \<Rightarrow> (sched_world, unit) step" where
  "trigger_all E now [] = return_step ()"
| "trigger_all E now (s # ss) = bind_step (trigger_pipeline E now s) (\<lambda>_. trigger_all E now ss)"

definition schedule_due :: "sched_env \<Rightarrow> time \<Rightarrow> schedule \<Rightarrow> bool" where
  "schedule_due E now s \<longleftrightarrow> s_enabled s \<and> s_next s \<le> now \<and> s_key s \<notin> se_locked E"

definition commit_schedules :: "sched_env \<Rightarrow> (sched_world, unit) step" where
  "commit_schedules E w =
     (if se_commit_fails E (sc_tick w) then Inl DBAPIError else Inr (), w\<lparr>sc_tick := Suc (sc_tick w)\<rparr>)"

definition undo_schedules :: "sched_world \<Rightarrow> sched_world \<Rightarrow> sched_world" where
  "undo_schedules w0 w = w\<lparr>sc_rows := sc_rows w0\<rparr>"

definition poll_and_trigger :: "sched_env \<Rightarrow> (sched_world, unit) step" where
  "poll_and_trigger E =
     bind_step (read_step (\<lambda>w. (sc_now w, filter (schedule_due E (sc_now w)) (sc_rows w)))) (\<lambda>(now, ss).
     if ss = [] then return_step ()
     else in_transaction (commit_schedules E) undo_schedules (trigger_all E now ss))"

subsection \<open>Synchronisation with the registry\<close>

record scheduled_run =
  sr_name :: string
  sr_cron :: string
  sr_params :: pydict

text \<open>What the pipelines of the registry declare: pipeline names with their runs.\<close>

type_synonym declared = "(string \<times> scheduled_run list) list"

definition declared_runs :: "declared \<Rightarrow> (string \<times> scheduled_run) list" where
  "declared_runs ps = concat (map (\<lambda>(p, rs). map (Pair p) rs) ps)"

definition declared_keys :: "declared \<Rightarrow> (string \<times> string) list" where
  "declared_keys ps = map (\<lambda>(p, r). (p, sr_name r)) (declared_runs ps)"

definition new_schedule :: "string \<Rightarrow> scheduled_run \<Rightarrow> time \<Rightarrow> schedule" where
  "new_schedule p r t = \<lparr>s_pipeline = p, s_name = sr_name r, s_cron = sr_cron r, s_params = sr_params r,
     s_next = t, s_last = None, s_execution = None, s_enabled = True\<rparr>"

text \<open>The row of one declared run, looked up in the table \<open>db\<close> as the database has it
  (\<open>autoflush\<close> is off), changed or added in the session's \<open>t\<close>.\<close>

definition sync_run ::
  "sched_env \<Rightarrow> time \<Rightarrow> schedules \<Rightarrow> string \<times> scheduled_run \<Rightarrow> schedules \<Rightarrow> py_error + schedules" where
  "sync_run E now db pr t =
     (case pr of (p, r) \<Rightarrow>
        case first_where (by_key (p, sr_name r)) db of
          None \<Rightarrow> (case se_next E (sr_cron r) now of Inl e \<Rightarrow> Inl e | Inr n \<Rightarrow> Inr (t @ [new_schedule p r n]))
        | Some s \<Rightarrow>
            if s_cron s = sr_cron r
            then Inr (update_where (by_key (p, sr_name r)) (\<lambda>s. s\<lparr>s_enabled := True, s_params := sr_params r\<rparr>) t)
            else (case se_next E (sr_cron r) now of
                Inl e \<Rightarrow> Inl e
              | Inr n \<Rightarrow> Inr (update_where (by_key (p, sr_name r))
                  (\<lambda>s. s\<lparr>s_enabled := True, s_cron := sr_cron r, s_next := n, s_params := sr_params r\<rparr>) t)))"

fun sync_runs ::
  "sched_env \<Rightarrow> time \<Rightarrow> schedules \<Rightarrow> (string \<times> scheduled_run) list \<Rightarrow> schedules \<Rightarrow> py_error + schedules" where
  "sync_runs E now db [] t = Inr t"
| "sync_runs E now db (pr # prs) t =
     (case sync_run E now db pr t of Inl e \<Rightarrow> Inl e | Inr t' \<Rightarrow> sync_runs E now db prs t')"

definition disable_others :: "(string \<times> string) list \<Rightarrow> schedules \<Rightarrow> schedules" where
  "disable_others keys t = update_where (\<lambda>s. s_enabled s \<and> s_key s \<notin> set keys) (\<lambda>s. s\<lparr>s_enabled := False\<rparr>) t"

text \<open>Two rows of one key cannot be committed.\<close>

definition sync_schedules_from_registry :: "sched_env \<Rightarrow> time \<Rightarrow> declared \<Rightarrow> schedules \<Rightarrow> py_error + schedules" where
  "sync_schedules_from_registry E now ps db =
     (case sync_runs E now db (declared_runs ps) db of
        Inl e \<Rightarrow> Inl e
      | Inr t \<Rightarrow>
          (let t' = disable_others (declared_keys ps) t
           in if distinct (map s_key t') then Inr t' else Inl (IntegrityError ''pipeline_schedules'')))"

text \<open>After a manual run every schedule of the pipeline waits for its next time.\<close>

fun reset_rows :: "sched_env \<Rightarrow> string \<Rightarrow> time \<Rightarrow> schedules \<Rightarrow> py_error + schedules" where
  "reset_rows E p tm [] = Inr []"
| "reset_rows E p tm (s # ss) =
     (if s_pipeline s = p \<and> s_enabled s
      then case se_next E (s_cron s) tm of
          Inl e \<Rightarrow> Inl e
        | Inr n \<Rightarrow> map_sum id (\<lambda>ss'. s\<lparr>s_last := Some tm, s_next := n\<rparr> # ss') (reset_rows E p tm ss)
      else map_sum id (\<lambda>ss'. s # ss') (reset_rows E p tm ss))"

definition reset_schedule :: "sched_env \<Rightarrow> string \<Rightarrow> time \<Rightarrow> schedules \<Rightarrow> py_error + schedules" where
  "reset_schedule E pipeline_name triggered_at t = reset_rows E pipeline_name triggered_at t"

text \<open>The requests of \<open>schedule_routes.py\<close> that only read.\<close>

definition list_schedules :: "schedules \<Rightarrow> schedule list \<times> nat" where
  "list_schedules t = (sort_key s_pipeline t, length t)"

definition not_scheduled :: "string \<Rightarrow> py_error" where
  "not_scheduled p = HTTPException 404 (''Schedule '' @ quoted p @ '' not found'')"

definition rows_of_pipeline :: "string \<Rightarrow> schedules \<Rightarrow> schedule list" where
  "rows_of_pipeline p t = sort_key s_name (filter (\<lambda>s. s_pipeline s = p) t)"

definition last_execution :: "executions \<Rightarrow> schedule \<Rightarrow> execution option" where
  "last_execution es s = (case s_execution s of None \<Rightarrow> None | Some eid \<Rightarrow> if eid = [] then None else get_execution eid es)"

definition get_schedule ::
  "string \<Rightarrow> schedules \<Rightarrow> executions \<Rightarrow> py_error + (schedule \<times> (exec_state \<times> int \<times> int) option) list" where
  "get_schedule p t es =
     (case rows_of_pipeline p t of
        [] \<Rightarrow> Inl (not_scheduled p)
      | ss \<Rightarrow> Inr (map (\<lambda>s. (s, map_option (\<lambda>e. (e_state e, e_jobs_completed e, e_jobs_failed e)) (last_execution es s))) ss))"

record schedule_stats =
  ss_executions :: nat
  ss_completed :: nat
  ss_failed :: nat
  ss_running :: nat
  ss_pending :: nat
  ss_schedules :: "(schedule \<times> exec_state option) list"

definition get_schedule_stats :: "string \<Rightarrow> schedules \<Rightarrow> executions \<Rightarrow> py_error + schedule_stats" where
  "get_schedule_stats p t es =
     (case rows_of_pipeline p t of
        [] \<Rightarrow> Inl (not_scheduled p)
      | ss \<Rightarrow>
          (let n = (\<lambda>st. count_where (\<lambda>e. e_pipeline e = p \<and> e_state e = st) es)
           in Inr \<lparr>ss_executions = sum_list (map n STATES), ss_completed = n ECompleted, ss_failed = n EFailed,
                ss_running = n ERunning, ss_pending = n EPending,
                ss_schedules = map (\<lambda>s. (s, map_option e_state (last_execution es s))) ss\<rparr>))"

subsection \<open>What a synchronisation does to one row\<close>

definition lookup :: "string \<times> string \<Rightarrow> schedules \<Rightarrow> schedule option" where
  "lookup k t = first_where (by_key k) t"

definition synced :: "sched_env \<Rightarrow> time \<Rightarrow> schedule option \<Rightarrow> string \<times> scheduled_run \<Rightarrow> py_error + schedule" where
  "synced E now old pr =
     (let next_run = se_next E (sr_cron (snd pr)) now in
      case old of
        None \<Rightarrow> map_sum id (new_schedule (fst pr) (snd pr)) next_run
      | Some s \<Rightarrow>
          if s_cron s = sr_cron (snd pr) then Inr (s\<lparr>s_enabled := True, s_params := sr_params (snd pr)\<rparr>)
          else map_sum id (\<lambda>n. s\<lparr>s_enabled := True, s_cron := sr_cron (snd pr), s_next := n, s_params := sr_params (snd pr)\<rparr>) next_run)"

abbreviation run_key :: "string \<times> scheduled_run \<Rightarrow> string \<times> string" where
  "run_key pr \<equiv> (fst pr, sr_name (snd pr))"

lemma lookup_update:
  "(\<And>s. s_key (f s) = s_key s) \<Longrightarrow>
   lookup k (update_where (by_key k') f t) = (if k = k' then map_option f (lookup k t) else lookup k t)"
  by (induction t) (auto simp: lookup_def by_key_def)

lemma lookup_append: "lookup k (t @ t') = (case lookup k t of None \<Rightarrow> lookup k t' | Some s \<Rightarrow> Some s)"
  by (induction t) (auto simp: lookup_def)

lemma lookup_key: "lookup k t = Some s \<Longrightarrow> s_key s = k \<and> s \<in> set t"
  unfolding lookup_def by (auto simp: by_key_def dest: first_where_Some_iff)

lemma lookup_None: "lookup k t = None \<longleftrightarrow> k \<notin> s_key ` set t"
  by (auto simp: lookup_def first_where_None_iff by_key_def)

lemma lookup_row: "distinct (map s_key t) \<Longrightarrow> s \<in> set t \<Longrightarrow> lookup (s_key s) t = Some s"
  using first_where_key [of s_key t s] by (simp add: lookup_def by_key_def [abs_def])

lemma keys_update: "(\<And>s. s_key (f s) = s_key s) \<Longrightarrow> map s_key (update_where P f t) = map s_key t"
  by (simp add: map_update_where)

lemma sync_run_spec:
  assumes "sync_run E now db pr t = Inr t'" and "lookup (run_key pr) t = lookup (run_key pr) db"
  shows "\<exists>s. synced E now (lookup (run_key pr) db) pr = Inr s \<and> lookup (run_key pr) t' = Some s"
    and "k \<noteq> run_key pr \<Longrightarrow> lookup k t' = lookup k t"
    and "distinct (map s_key t) \<Longrightarrow> distinct (map s_key t')"
    and "s_key ` set t' = insert (run_key pr) (s_key ` set t)"
proof -
  obtain p r where pr: "pr = (p, r)" by (cases pr)
  have main: "(\<exists>s. synced E now (lookup (p, sr_name r) db) pr = Inr s \<and> lookup (p, sr_name r) t' = Some s) \<and>
      (k \<noteq> (p, sr_name r) \<longrightarrow> lookup k t' = lookup k t) \<and> (distinct (map s_key t) \<longrightarrow> distinct (map s_key t')) \<and>
      s_key ` set t' = insert (p, sr_name r) (s_key ` set t)"
  proof (cases "lookup (p, sr_name r) db")
    case None
    then obtain n where n: "se_next E (sr_cron r) now = Inr n" and t': "t' = t @ [new_schedule p r n]"
      using assms(1) by (auto simp: sync_run_def pr lookup_def [symmetric] split: sum.splits)
    have row: "by_key k (new_schedule p r n) \<longleftrightarrow> k = (p, sr_name r)" for k by (auto simp: by_key_def new_schedule_def)
    have "(p, sr_name r) \<notin> s_key ` set t" using assms(2) None by (simp add: pr lookup_None)
    moreover have "s_key (new_schedule p r n) = (p, sr_name r)" by (simp add: new_schedule_def)
    ultimately show ?thesis
      using None n assms(2) by (auto simp: t' pr synced_def lookup_append lookup_def [of _ "[_]"] row split: option.splits)
  next
    case (Some s)
    obtain f where t': "t' = update_where (by_key (p, sr_name r)) f t" and f: "\<And>s. s_key (f s) = s_key s"
      and s': "synced E now (Some s) pr = Inr (f s)"
      using assms(1) Some by (auto simp: sync_run_def pr synced_def lookup_def [symmetric] split: sum.splits if_splits)
    have keys: "map s_key t' = map s_key t" unfolding t' by (rule keys_update [OF f])
    then have "s_key ` set t' = s_key ` set t" by (metis set_map)
    moreover have "(p, sr_name r) \<in> s_key ` set t"
      using assms(2) Some lookup_None [of "(p, sr_name r)" t] by (auto simp: pr)
    ultimately show ?thesis
      using Some s' assms(2) keys by (auto simp: t' pr lookup_update [OF f] insert_absorb)
  qed
  show "\<exists>s. synced E now (lookup (run_key pr) db) pr = Inr s \<and> lookup (run_key pr) t' = Some s"
    "k \<noteq> run_key pr \<Longrightarrow> lookup k t' = lookup k t" "distinct (map s_key t) \<Longrightarrow> distinct (map s_key t')"
    "s_key ` set t' = insert (run_key pr) (s_key ` set t)"
    using main by (simp_all add: pr)
qed

lemma sync_runs_spec:
  assumes "sync_runs E now db prs t = Inr t'" and "distinct (map run_key prs)"
    and "\<forall>pr \<in> set prs. lookup (run_key pr) t = lookup (run_key pr) db"
  shows "(\<forall>pr \<in> set prs. \<exists>s. synced E now (lookup (run_key pr) db) pr = Inr s \<and> lookup (run_key pr) t' = Some s) \<and>
    (\<forall>k. k \<notin> run_key ` set prs \<longrightarrow> lookup k t' = lookup k t) \<and> (distinct (map s_key t) \<longrightarrow> distinct (map s_key t')) \<and>
    s_key ` set t' = run_key ` set prs \<union> s_key ` set t"
  using assms
proof (induction prs arbitrary: t)
  case (Cons pr prs)
  obtain t1 where t1: "sync_run E now db pr t = Inr t1" and more: "sync_runs E now db prs t1 = Inr t'"
    using Cons.prems(1) by (auto split: sum.splits)
  note one = sync_run_spec [OF t1 Cons.prems(3) [rule_format, of pr]]
  have "run_key pr \<notin> run_key ` set prs" using Cons.prems(2) by auto
  have "\<forall>q \<in> set prs. lookup (run_key q) t1 = lookup (run_key q) db"
  proof
    fix q assume q: "q \<in> set prs"
    then have "run_key q \<noteq> run_key pr" using imageI [OF q, of run_key] \<open>run_key pr \<notin> run_key ` set prs\<close> by metis
    from one(2) [OF _ this] show "lookup (run_key q) t1 = lookup (run_key q) db"
      using Cons.prems(3) q by simp
  qed
  from Cons.IH [OF more _ this] Cons.prems(2)
  have rows: "\<forall>q \<in> set prs. \<exists>s. synced E now (lookup (run_key q) db) q = Inr s \<and> lookup (run_key q) t' = Some s"
    and other: "\<forall>k. k \<notin> run_key ` set prs \<longrightarrow> lookup k t' = lookup k t1"
    and dist: "distinct (map s_key t1) \<longrightarrow> distinct (map s_key t')"
    and keys: "s_key ` set t' = run_key ` set prs \<union> s_key ` set t1" by simp_all
  show ?case
  proof (intro conjI ballI allI impI)
    fix q assume "q \<in> set (pr # prs)"
    then consider "q = pr" | "q \<in> set prs" by auto
    then show "\<exists>s. synced E now (lookup (run_key q) db) q = Inr s \<and> lookup (run_key q) t' = Some s"
    proof cases
      case 1
      have "lookup (run_key pr) t' = lookup (run_key pr) t1" using other \<open>run_key pr \<notin> run_key ` set prs\<close> by blast
      then show ?thesis using one(1) 1 by simp
    next
      case 2 then show ?thesis using rows by blast
    qed
  next
    fix k assume "k \<notin> run_key ` set (pr # prs)"
    then have out: "k \<notin> run_key ` set prs" "k \<noteq> run_key pr" by (simp_all only: list.set(2) image_insert insert_iff) blast+
    have "lookup k t1 = lookup k t"
      using Cons.prems(3) by (intro one(2) [OF _ out(2)]) simp
    moreover have "lookup k t' = lookup k t1" using other out(1) by blast
    ultimately show "lookup k t' = lookup k t" by (simp only:)
  next
    assume "distinct (map s_key t)"
    then have "distinct (map s_key t1)" using one(3) by simp
    then show "distinct (map s_key t')" using dist by blast
  next
    show "s_key ` set t' = run_key ` set (pr # prs) \<union> s_key ` set t"
      unfolding keys using one(4) by simp
  qed
qed simp


lemma lookup_disable:
  "lookup k (disable_others keys t) =
     map_option (\<lambda>s. if s_enabled s \<and> s_key s \<notin> set keys then s\<lparr>s_enabled := False\<rparr> else s) (lookup k t)"
  by (induction t) (auto simp: disable_others_def lookup_def by_key_def)

lemma run_keys_declared: "map run_key (declared_runs ps) = declared_keys ps"
  by (auto simp: declared_keys_def)

text \<open>Everything a successful synchronisation leaves, in terms of the rows found by key.\<close>

lemma sync_spec:
  assumes "sync_schedules_from_registry E now ps db = Inr t" and "distinct (declared_keys ps)"
  shows "\<forall>pr \<in> set (declared_runs ps). \<exists>s. synced E now (lookup (run_key pr) db) pr = Inr s \<and> lookup (run_key pr) t = Some s"
    and "\<forall>k. k \<notin> set (declared_keys ps) \<longrightarrow> lookup k t = map_option (\<lambda>s. s\<lparr>s_enabled := False\<rparr>) (lookup k db)"
    and "distinct (map s_key t)" and "s_key ` set t = set (declared_keys ps) \<union> s_key ` set db"
proof -
  let ?keys = "declared_keys ps"
  obtain t1 where t1: "sync_runs E now db (declared_runs ps) db = Inr t1" and t: "t = disable_others ?keys t1"
    and dist: "distinct (map s_key t)"
    using assms(1) by (auto simp: sync_schedules_from_registry_def Let_def split: sum.splits if_splits)
  have keys: "run_key ` set (declared_runs ps) = set ?keys" by (metis run_keys_declared set_map)
  have spec: "\<forall>pr \<in> set (declared_runs ps). \<exists>s. synced E now (lookup (run_key pr) db) pr = Inr s \<and> lookup (run_key pr) t1 = Some s"
    "\<forall>k. k \<notin> set ?keys \<longrightarrow> lookup k t1 = lookup k db" "s_key ` set t1 = set ?keys \<union> s_key ` set db"
    using sync_runs_spec [OF t1] assms(2) unfolding run_keys_declared keys by blast+
  show "distinct (map s_key t)" by (rule dist)
  have "map s_key t = map s_key t1" unfolding t disable_others_def by (rule keys_update) simp
  then show "s_key ` set t = set ?keys \<union> s_key ` set db" using spec(3) by (metis set_map)
  show "\<forall>pr \<in> set (declared_runs ps). \<exists>s. synced E now (lookup (run_key pr) db) pr = Inr s \<and> lookup (run_key pr) t = Some s"
  proof
    fix pr assume pr: "pr \<in> set (declared_runs ps)"
    obtain s where s: "synced E now (lookup (run_key pr) db) pr = Inr s" "lookup (run_key pr) t1 = Some s"
      using spec(1) pr by blast
    have "s_key s \<in> set ?keys" using lookup_key [OF s(2)] imageI [OF pr, of run_key] unfolding keys by simp
    then have "lookup (run_key pr) t = Some s" using s(2) by (simp add: t lookup_disable)
    with s(1) show "\<exists>s. synced E now (lookup (run_key pr) db) pr = Inr s \<and> lookup (run_key pr) t = Some s" by blast
  qed
  show "\<forall>k. k \<notin> set ?keys \<longrightarrow> lookup k t = map_option (\<lambda>s. s\<lparr>s_enabled := False\<rparr>) (lookup k db)"
  proof (intro allI impI)
    fix k assume k: "k \<notin> set ?keys"
    then have "lookup k t1 = lookup k db" using spec(2) by blast
    moreover have "s\<lparr>s_enabled := False\<rparr> = s" if "\<not> s_enabled s" for s :: schedule
      using that by simp
    ultimately show "lookup k t = map_option (\<lambda>s. s\<lparr>s_enabled := False\<rparr>) (lookup k db)"
      using k lookup_key [of k db] by (cases "lookup k db") (auto simp: t lookup_disable)
  qed
qed

text \<open>Synchronising a synchronised table changes nothing.\<close>

lemma update_nothing: "(\<And>s. s \<in> set t \<Longrightarrow> P s \<Longrightarrow> f s = s) \<Longrightarrow> update_where P f t = t"
  unfolding update_where_def by (rule map_idI) simp

lemma sync_runs_nothing:
  assumes "\<forall>pr \<in> set prs. \<exists>s. lookup (run_key pr) t = Some s \<and> s_enabled s \<and> s_cron s = sr_cron (snd pr) \<and> s_params s = sr_params (snd pr)"
    and "distinct (map s_key t)"
  shows "sync_runs E now t prs t = Inr t"
  using assms
proof (induction prs)
  case (Cons pr prs)
  obtain p r where pr: "pr = (p, r)" by (cases pr)
  obtain s where s: "lookup (p, sr_name r) t = Some s" "s_enabled s" "s_cron s = sr_cron r" "s_params s = sr_params r"
    using Cons.prems(1) by (auto simp: pr)
  have "update_where (by_key (p, sr_name r)) (\<lambda>s. s\<lparr>s_enabled := True, s_params := sr_params r\<rparr>) t = t"
  proof (rule update_nothing)
    fix q assume q: "q \<in> set t" "by_key (p, sr_name r) q"
    then have "lookup (p, sr_name r) t = Some q" using lookup_row [OF Cons.prems(2) q(1)] by (simp add: by_key_def)
    then show "q\<lparr>s_enabled := True, s_params := sr_params r\<rparr> = q" using s by simp
  qed
  then have "sync_run E now t pr t = Inr t" using s by (simp add: sync_run_def pr lookup_def [symmetric])
  then show ?case using Cons by simp
qed simp

subsection \<open>Properties\<close>

text \<open>The row of a declared schedule after a synchronisation.\<close>

lemma synced_row:
  assumes "sync_schedules_from_registry E now ps db = Inr t" "distinct (declared_keys ps)" "pr \<in> set (declared_runs ps)"
  shows "\<exists>s. lookup (run_key pr) t = Some s \<and> s_enabled s \<and> s_key s = run_key pr \<and> s_cron s = sr_cron (snd pr) \<and>
    s_params s = sr_params (snd pr) \<and>
    (case lookup (run_key pr) db of
       Some old \<Rightarrow> if s_cron old = sr_cron (snd pr) then s_next s = s_next old else se_next E (sr_cron (snd pr)) now = Inr (s_next s)
     | None \<Rightarrow> se_next E (sr_cron (snd pr)) now = Inr (s_next s))"
proof -
  obtain s where s: "synced E now (lookup (run_key pr) db) pr = Inr s" "lookup (run_key pr) t = Some s"
    using sync_spec(1) [OF assms(1,2)] assms(3) by blast
  have "s_enabled s \<and> s_cron s = sr_cron (snd pr) \<and> s_params s = sr_params (snd pr) \<and>
    (case lookup (run_key pr) db of
       Some old \<Rightarrow> if s_cron old = sr_cron (snd pr) then s_next s = s_next old else se_next E (sr_cron (snd pr)) now = Inr (s_next s)
     | None \<Rightarrow> se_next E (sr_cron (snd pr)) now = Inr (s_next s))"
    using s(1) by (cases "se_next E (sr_cron (snd pr)) now") (auto simp: synced_def new_schedule_def Let_def split: option.splits if_splits)
  then show ?thesis using s(2) lookup_key [OF s(2)] by blast
qed

lemma enabled_after_sync:
  assumes "sync_schedules_from_registry E now ps db = Inr t" "distinct (declared_keys ps)"
  shows "s_key ` {s \<in> set t. s_enabled s} = set (declared_keys ps)"
proof (intro equalityI subsetI)
  fix k assume "k \<in> s_key ` {s \<in> set t. s_enabled s}"
  then obtain s where s: "s \<in> set t" "s_enabled s" "k = s_key s" by blast
  show "k \<in> set (declared_keys ps)"
  proof (rule ccontr)
    assume "k \<notin> set (declared_keys ps)"
    then have "lookup k t = map_option (\<lambda>s. s\<lparr>s_enabled := False\<rparr>) (lookup k db)" using sync_spec(2) [OF assms] by blast
    with lookup_row [OF sync_spec(3) [OF assms] s(1)] s(2,3) show False by (cases "lookup k db") auto
  qed
next
  fix k assume "k \<in> set (declared_keys ps)"
  moreover have "run_key ` set (declared_runs ps) = set (declared_keys ps)" by (metis run_keys_declared set_map)
  ultimately obtain pr where pr: "pr \<in> set (declared_runs ps)" "k = run_key pr" by blast
  then obtain s where "lookup k t = Some s" "s_enabled s" using synced_row [OF assms pr(1)] by blast
  then show "k \<in> s_key ` {s \<in> set t. s_enabled s}" using lookup_key by blast
qed

lemma synced_again:
  assumes "sync_schedules_from_registry E now ps db = Inr t" "distinct (declared_keys ps)"
  shows "sync_schedules_from_registry E later ps t = Inr t"
proof -
  have "sync_runs E later t (declared_runs ps) t = Inr t"
    using synced_row [OF assms] by (intro sync_runs_nothing [OF _ sync_spec(3) [OF assms]]) blast
  moreover have "disable_others (declared_keys ps) t = t"
    unfolding disable_others_def using enabled_after_sync [OF assms] by (intro update_nothing) blast
  ultimately show ?thesis using sync_spec(3) [OF assms] by (simp add: sync_schedules_from_registry_def)
qed

text \<open>C27: after a synchronisation the table says what the pipelines declare: the enabled rows
  are exactly the declared schedules, each with its cron expression and params; a row whose
  cron did not change keeps its next time (a restart in mid-interval loses no tick), a new or
  changed one gets the next time from now; no row is deleted, and a row no longer declared
  is only disabled. Synchronising again, at any later time, changes nothing.\<close>

theorem sync_makes_the_table_match:
  assumes "sync_schedules_from_registry E now ps db = Inr t" and "distinct (declared_keys ps)"
  shows "s_key ` {s \<in> set t. s_enabled s} = set (declared_keys ps) \<and>
    (\<forall>(p, r) \<in> set (declared_runs ps). \<exists>s \<in> set t. s_key s = (p, sr_name r) \<and> s_cron s = sr_cron r \<and> s_params s = sr_params r \<and>
      (case first_where (by_key (p, sr_name r)) db of
         Some old \<Rightarrow> if s_cron old = sr_cron r then s_next s = s_next old else se_next E (sr_cron r) now = Inr (s_next s)
       | None \<Rightarrow> se_next E (sr_cron r) now = Inr (s_next s))) \<and>
    s_key ` set t = set (declared_keys ps) \<union> s_key ` set db \<and>
    sync_schedules_from_registry E later ps t = Inr t"
proof (intro conjI ballI case_prodI2)
  fix pr p r assume "pr \<in> set (declared_runs ps)" and pr: "pr = (p, r)"
  from synced_row [OF assms this(1)]
  show "\<exists>s \<in> set t. s_key s = (p, sr_name r) \<and> s_cron s = sr_cron r \<and> s_params s = sr_params r \<and>
      (case first_where (by_key (p, sr_name r)) db of
         Some old \<Rightarrow> if s_cron old = sr_cron r then s_next s = s_next old else se_next E (sr_cron r) now = Inr (s_next s)
       | None \<Rightarrow> se_next E (sr_cron r) now = Inr (s_next s))"
    unfolding lookup_def [symmetric] pr fst_conv snd_conv using lookup_key by blast
qed (rule enabled_after_sync [OF assms], rule sync_spec(4) [OF assms], rule synced_again [OF assms])

definition hourly :: sched_env where
  "hourly = \<lparr>se_next = (\<lambda>c t. if c = ''never'' then Inl (OtherError ''CroniterBadDateError'' ''failed to find next date'')
       else Inr (t + 3600)), se_uuid = (\<lambda>n. nat_text n), se_configured = True,
     se_create = (\<lambda>_. None), se_thread = (\<lambda>_. None), se_commit_fails = (\<lambda>_. False), se_locked = {}\<rparr>"

definition morning :: scheduled_run where
  "morning = \<lparr>sr_name = ''m'', sr_cron = ''0 * * * *'', sr_params = []\<rparr>"

theorem sync_makes_the_table_match_witness:
  "s_key ` {s \<in> set [new_schedule ''p'' morning 3605]. s_enabled s} = {(''p'', ''m'')}"
proof -
  have synced: "sync_schedules_from_registry hourly 5 [(''p'', [morning])] [] = Inr [new_schedule ''p'' morning 3605]"
    by (simp add: sync_schedules_from_registry_def sync_run_def declared_runs_def declared_keys_def disable_others_def hourly_def morning_def new_schedule_def)
  have "distinct (declared_keys [(''p'', [morning])])" by (simp add: declared_keys_def declared_runs_def)
  from conjunct1 [OF sync_makes_the_table_match [OF synced this]] show ?thesis
    by (simp only: declared_keys_def) (simp add: declared_runs_def morning_def)
qed

text \<open>One declared schedule whose cron expression never matches stops the synchronisation of all.\<close>

lemma one_bad_cron_stops_the_sync:
  assumes "(p, r) \<in> set (declared_runs ps)" and "first_where (by_key (p, sr_name r)) db = None" and "se_next E (sr_cron r) now = Inl e"
  shows "\<exists>e'. sync_schedules_from_registry E now ps db = Inl e'"
proof -
  have "\<exists>e'. sync_runs E now db prs t = Inl e'" if "(p, r) \<in> set prs" for prs t
    using that
  proof (induction prs arbitrary: t)
    case (Cons pr prs)
    then show ?case
      using assms(2,3) by (cases "sync_run E now db pr t") (auto simp: sync_run_def)
  qed simp
  from this [OF assms(1), of db] show ?thesis by (auto simp: sync_schedules_from_registry_def)
qed


subsection \<open>A poll\<close>

text \<open>The execution a trigger creates, and what happens to the row.\<close>

definition exec_name :: "sched_env \<Rightarrow> nat \<Rightarrow> schedule \<Rightarrow> string" where
  "exec_name E n s = ''sched-'' @ s_name s @ ''-'' @ se_uuid E n"

text \<open>Why a trigger may have started nothing: no factory, a refused insert or thread, or the id
  was taken.\<close>

definition refused :: "sched_env \<Rightarrow> nat \<Rightarrow> schedule \<Rightarrow> executions \<Rightarrow> bool" where
  "refused E n s es \<longleftrightarrow> \<not> se_configured E \<or> se_create E n \<noteq> None \<or> se_thread E n \<noteq> None \<or> get_execution (exec_name E n s) es \<noteq> None"

definition grows :: "executions \<Rightarrow> executions \<Rightarrow> bool" where
  "grows es es' \<longleftrightarrow> (\<forall>eid. get_execution eid es \<noteq> None \<longrightarrow> get_execution eid es' \<noteq> None)"

lemma grows_refl [simp]: "grows es es"
  by (simp add: grows_def)

lemma grows_trans: "grows a b \<Longrightarrow> grows b c \<Longrightarrow> grows a c"
  by (simp add: grows_def)

lemma grows_append: "grows es (es @ xs)"
proof -
  have "first_where P (es @ xs) = (case first_where P es of None \<Rightarrow> first_where P xs | Some e \<Rightarrow> Some e)" for P
    by (induction es) auto
  then show ?thesis by (auto simp: grows_def get_execution_def)
qed

lemma refused_grows: "refused E n s es \<Longrightarrow> grows es es' \<Longrightarrow> refused E n s es'"
  unfolding refused_def grows_def by blast

text \<open>\<open>fire\<close> touches at most the execution id of its row, and starts its own run or none.\<close>

lemma fire_effect:
  assumes "fire E n s w = (r, w')"
  shows "sc_now w' = sc_now w \<and> sc_tick w' = sc_tick w \<and> grows (sc_execs w) (sc_execs w') \<and>
    (if r = Inr ()
     then sc_started w' = sc_started w @ [(exec_name E n s, s_pipeline s, s_params s)] \<and>
       sc_rows w' = update_where (by_key (s_key s)) (\<lambda>q. q\<lparr>s_execution := Some (exec_name E n s)\<rparr>) (sc_rows w) \<and>
       get_execution (exec_name E n s) (sc_execs w') \<noteq> None
     else sc_started w' = sc_started w \<and> sc_rows w' = sc_rows w \<and> refused E n s (sc_execs w))"
proof -
  have new: "\<exists>y. first_where P (t @ [x]) = Some y" if "P x" for P t and x :: execution
    using that by (induction t) auto
  show ?thesis
    using assms
    by (auto simp: fire_def create_scheduled_def dispatch_async_def raise_if_def set_row_def bind_step_def exec_name_def
        create_execution_def get_execution_def Let_def new by_id_def [abs_def] refused_def grows_append
        split: option.splits sum.splits if_splits)
qed

text \<open>The row of a due schedule after its trigger; \<open>x\<close> is the execution it started, if any.\<close>

definition fired_row :: "sched_env \<Rightarrow> time \<Rightarrow> string option \<Rightarrow> schedule \<Rightarrow> schedule \<Rightarrow> bool" where
  "fired_row E now x s s' \<longleftrightarrow> (\<exists>n. se_next E (s_cron s) now = Inr n \<and>
     s' = s\<lparr>s_last := Some now, s_next := n, s_execution := (if x = None then s_execution s else x)\<rparr>)"

definition runs_of :: "(schedule \<Rightarrow> string option) \<Rightarrow> schedule list \<Rightarrow> started_run list" where
  "runs_of x ss = concat (map (\<lambda>s. case x s of None \<Rightarrow> [] | Some eid \<Rightarrow> [(eid, s_pipeline s, s_params s)]) ss)"

text \<open>What the executions table says of a trigger that started \<open>x\<close>.\<close>

definition accounted :: "sched_env \<Rightarrow> executions \<Rightarrow> schedule \<Rightarrow> string option \<Rightarrow> bool" where
  "accounted E es s x \<longleftrightarrow> (case x of None \<Rightarrow> \<exists>n. refused E n s es | Some eid \<Rightarrow> get_execution eid es \<noteq> None)"

lemma accounted_grows: "accounted E es s x \<Longrightarrow> grows es es' \<Longrightarrow> accounted E es' s x"
  unfolding accounted_def by (cases x) (auto dest: refused_grows simp: grows_def)

lemma trigger_effect:
  assumes "trigger_pipeline E now s w = (Inr (), w')" and "lookup (s_key s) (sc_rows w) = Some s"
  shows "\<exists>x. sc_started w' = sc_started w @ runs_of (\<lambda>_. x) [s] \<and> accounted E (sc_execs w') s x \<and>
    (\<exists>s'. lookup (s_key s) (sc_rows w') = Some s' \<and> fired_row E now x s s') \<and>
    (\<forall>k. k \<noteq> s_key s \<longrightarrow> lookup k (sc_rows w') = lookup k (sc_rows w)) \<and>
    map s_key (sc_rows w') = map s_key (sc_rows w) \<and> sc_now w' = sc_now w \<and> grows (sc_execs w) (sc_execs w')"
proof -
  let ?n = "sc_tick w" and ?w = "w\<lparr>sc_tick := Suc (sc_tick w)\<rparr>"
  obtain r w1 where f: "fire E ?n s ?w = (r, w1)" by (cases "fire E ?n s ?w")
  note effect = fire_effect [OF f]
  obtain n where n: "se_next E (s_cron s) now = Inr n"
    and w': "w' = w1\<lparr>sc_rows := update_where (by_key (s_key s)) (\<lambda>s. s\<lparr>s_next := n\<rparr>)
        (update_where (by_key (s_key s)) (\<lambda>s. s\<lparr>s_last := Some now\<rparr>) (sc_rows w1))\<rparr>"
    using assms(1) f
    by (auto simp: trigger_pipeline_def bind_step_def finally_step_def try_step_def advance_def compute_next_run_def set_row_def
        split: sum.splits if_splits prod.splits)
  have keys: "map s_key (sc_rows w') = map s_key (sc_rows w1)"
    unfolding w' by (simp add: keys_update)
  show ?thesis
  proof (cases "r = Inr ()")
    case True
    then have e: "sc_started w1 = sc_started w @ [(exec_name E ?n s, s_pipeline s, s_params s)]"
      "sc_rows w1 = update_where (by_key (s_key s)) (\<lambda>q. q\<lparr>s_execution := Some (exec_name E ?n s)\<rparr>) (sc_rows w)"
      "get_execution (exec_name E ?n s) (sc_execs w1) \<noteq> None" using effect by simp_all
    show ?thesis
      using e n assms(2) effect keys
      by (intro exI [of _ "Some (exec_name E ?n s)"])
        (auto simp: w' runs_of_def accounted_def lookup_update fired_row_def keys_update)
  next
    case False
    then have e: "sc_started w1 = sc_started w" "sc_rows w1 = sc_rows w" "refused E ?n s (sc_execs w)" using effect by simp_all
    then have "refused E ?n s (sc_execs w1)" using effect by (auto intro: refused_grows)
    then show ?thesis
      using e n assms(2) effect keys
      by (intro exI [of _ None]) (auto simp: w' runs_of_def accounted_def lookup_update fired_row_def keys_update)
  qed
qed


lemma trigger_all_effect:
  assumes "trigger_all E now ss w = (Inr (), w')" and "distinct (map s_key ss)"
    and "\<forall>s \<in> set ss. lookup (s_key s) (sc_rows w) = Some s"
  shows "\<exists>x. sc_started w' = sc_started w @ runs_of x ss \<and> (\<forall>s \<in> set ss. accounted E (sc_execs w') s (x s)) \<and>
    (\<forall>s \<in> set ss. \<exists>s'. lookup (s_key s) (sc_rows w') = Some s' \<and> fired_row E now (x s) s s') \<and>
    (\<forall>k. k \<notin> s_key ` set ss \<longrightarrow> lookup k (sc_rows w') = lookup k (sc_rows w)) \<and>
    map s_key (sc_rows w') = map s_key (sc_rows w) \<and> sc_now w' = sc_now w \<and> grows (sc_execs w) (sc_execs w')"
  using assms
proof (induction ss arbitrary: w)
  case Nil
  then show ?case by (simp add: runs_of_def)
next
  case (Cons s ss)
  obtain w1 where one: "trigger_pipeline E now s w = (Inr (), w1)" and more: "trigger_all E now ss w1 = (Inr (), w')"
    using Cons.prems(1) by (auto elim!: bind_stepE)
  have here: "lookup (s_key s) (sc_rows w) = Some s" using Cons.prems(3) by simp
  obtain a where a: "sc_started w1 = sc_started w @ runs_of (\<lambda>_. a) [s]" "accounted E (sc_execs w1) s a"
    "\<exists>s'. lookup (s_key s) (sc_rows w1) = Some s' \<and> fired_row E now a s s'"
    "\<forall>k. k \<noteq> s_key s \<longrightarrow> lookup k (sc_rows w1) = lookup k (sc_rows w)"
    "map s_key (sc_rows w1) = map s_key (sc_rows w)" "sc_now w1 = sc_now w" "grows (sc_execs w) (sc_execs w1)"
    using trigger_effect [OF one here] by blast
  have apart: "s_key s \<notin> s_key ` set ss" using Cons.prems(2) by auto
  have "lookup (s_key q) (sc_rows w1) = Some q" if q: "q \<in> set ss" for q
  proof -
    have "s_key q \<noteq> s_key s" using imageI [OF q, of s_key] apart by (metis (full_types))
    with a(4) have "lookup (s_key q) (sc_rows w1) = lookup (s_key q) (sc_rows w)" by blast
    then show ?thesis using Cons.prems(3) q by simp
  qed
  then have "\<forall>q \<in> set ss. lookup (s_key q) (sc_rows w1) = Some q" by blast
  then obtain x where x: "sc_started w' = sc_started w1 @ runs_of x ss" "\<forall>s \<in> set ss. accounted E (sc_execs w') s (x s)"
    "\<forall>s \<in> set ss. \<exists>s'. lookup (s_key s) (sc_rows w') = Some s' \<and> fired_row E now (x s) s s'"
    "\<forall>k. k \<notin> s_key ` set ss \<longrightarrow> lookup k (sc_rows w') = lookup k (sc_rows w1)"
    "map s_key (sc_rows w') = map s_key (sc_rows w1)" "sc_now w' = sc_now w1" "grows (sc_execs w1) (sc_execs w')"
    using Cons.IH [OF more] Cons.prems(2) by auto
  let ?x = "x(s := a)"
  have tail: "?x q = x q" if "q \<in> set ss" for q using that apart by (auto simp: fun_upd_def)
  have "runs_of ?x (s # ss) = runs_of (\<lambda>_. a) [s] @ runs_of x ss"
    using tail by (simp add: runs_of_def cong: map_cong)
  then have started: "sc_started w' = sc_started w @ runs_of ?x (s # ss)" using x(1) a(1) by simp
  have "lookup (s_key s) (sc_rows w') = lookup (s_key s) (sc_rows w1)" using x(4) apart by blast
  then have head: "\<exists>s'. lookup (s_key s) (sc_rows w') = Some s' \<and> fired_row E now a s s'" using a(3) by simp
  have acc: "accounted E (sc_execs w') s a" using a(2) x(7) by (rule accounted_grows)
  show ?case
  proof (intro exI [of _ ?x] conjI ballI allI impI started)
    fix q assume "q \<in> set (s # ss)"
    then show "accounted E (sc_execs w') q (?x q)" using acc x(2) by auto
  next
    fix q assume "q \<in> set (s # ss)"
    then show "\<exists>s'. lookup (s_key q) (sc_rows w') = Some s' \<and> fired_row E now (?x q) q s'" using head x(3) by auto
  next
    fix k assume "k \<notin> s_key ` set (s # ss)"
    then have "k \<notin> s_key ` set ss" "k \<noteq> s_key s" by (simp_all only: list.set(2) image_insert insert_iff) blast+
    then show "lookup k (sc_rows w') = lookup k (sc_rows w)" using x(4) a(4) by metis
  qed (use x(5-7) a(5-7) in \<open>auto intro: grows_trans\<close>)
qed

text \<open>Each row after the runs of a poll; \<open>x\<close> says how the run of a due row came out.\<close>

lemma triggered_rows:
  assumes "trigger_all E now (filter (schedule_due E now) (sc_rows w)) w = (Inr (), v)" "distinct (map s_key (sc_rows w))"
  shows "\<exists>x. sc_started v = sc_started w @ runs_of x (filter (schedule_due E now) (sc_rows w)) \<and>
    map s_key (sc_rows v) = map s_key (sc_rows w) \<and>
    (\<forall>s \<in> set (sc_rows w). \<exists>s' \<in> set (sc_rows v). s_key s' = s_key s \<and>
      (if schedule_due E now s then fired_row E now (x s) s s' \<and> accounted E (sc_execs v) s (x s) else s' = s))"
proof -
  let ?due = "filter (schedule_due E now) (sc_rows w)"
  have keys: "distinct (map s_key ?due)" using assms(2) by (simp add: distinct_map_filter)
  have rows: "\<forall>s \<in> set ?due. lookup (s_key s) (sc_rows w) = Some s" using lookup_row [OF assms(2)] by auto
  obtain x where x: "sc_started v = sc_started w @ runs_of x ?due" "\<forall>s \<in> set ?due. accounted E (sc_execs v) s (x s)"
    "\<forall>s \<in> set ?due. \<exists>s'. lookup (s_key s) (sc_rows v) = Some s' \<and> fired_row E now (x s) s s'"
    "\<forall>k. k \<notin> s_key ` set ?due \<longrightarrow> lookup k (sc_rows v) = lookup k (sc_rows w)"
    "map s_key (sc_rows v) = map s_key (sc_rows w)"
    using trigger_all_effect [OF assms(1) keys rows] by blast
  have "\<exists>s' \<in> set (sc_rows v). s_key s' = s_key s \<and>
      (if schedule_due E now s then fired_row E now (x s) s s' \<and> accounted E (sc_execs v) s (x s) else s' = s)"
    if s: "s \<in> set (sc_rows w)" for s
  proof (cases "schedule_due E now s")
    case True
    then show ?thesis using x(2,3) s lookup_key by fastforce
  next
    case False
    have "s_key s \<notin> s_key ` set ?due"
    proof
      assume "s_key s \<in> s_key ` set ?due"
      then obtain q where "q \<in> set ?due" "s_key q = s_key s" by force
      then have "q = s" using assms(2) s by (auto simp: distinct_map dest: inj_onD)
      with \<open>q \<in> set ?due\<close> False show False by simp
    qed
    with x(4) have "lookup (s_key s) (sc_rows v) = lookup (s_key s) (sc_rows w)" by blast
    then have "lookup (s_key s) (sc_rows v) = Some s" using lookup_row [OF assms(2) s] by simp
    then have "s \<in> set (sc_rows v)" using lookup_key by blast
    then show ?thesis using False by (intro bexI [of _ s]) simp_all
  qed
  then show ?thesis using x(1,5) by blast
qed

text \<open>A fired row is due later, so no row is due any more.\<close>

lemma calm_after_poll:
  assumes "map s_key t = map s_key rows" "distinct (map s_key rows)" "\<And>c n. se_next E c now = Inr n \<Longrightarrow> now < n"
    and each: "\<And>s. s \<in> set rows \<Longrightarrow> \<exists>s' \<in> set t. s_key s' = s_key s \<and>
      (if schedule_due E now s then fired_row E now (x s) s s' \<and> accounted E execs s (x s) else s' = s)"
    and "s' \<in> set t"
  shows "\<not> schedule_due E now s'"
proof -
  have "s_key ` set t = s_key ` set rows" using arg_cong [OF assms(1), of set] by (simp only: set_map)
  with imageI [OF assms(5), of s_key] have "s_key s' \<in> s_key ` set rows" by (simp only:)
  then obtain s where s: "s_key s' = s_key s" "s \<in> set rows" by (rule imageE)
  obtain q where q: "q \<in> set t" "s_key q = s_key s"
    "if schedule_due E now s then fired_row E now (x s) s q \<and> accounted E execs s (x s) else q = s"
    using each [OF s(2)] by blast
  have "distinct (map s_key t)" unfolding assms(1) by (rule assms(2))
  then have "inj_on s_key (set t)" unfolding distinct_map by (rule conjunct2)
  then have "q = s'" by (rule inj_onD [OF _ trans [OF q(2) s(1) [symmetric]] q(1) assms(5)])
  then show ?thesis using q(3) assms(3) by (auto simp: fired_row_def schedule_due_def not_le split: if_splits)
qed

text \<open>C28: one poll fires every due schedule exactly once, and none of them can be due again
  before the cron expression says so. When the poll commits: each due row has its timer set
  to the cron's next time from now -- also if its trigger failed --, the other rows are as
  they were; exactly the due schedules have started one run each, with their pipeline and
  params, and the execution exists before its run starts; a due schedule without a run was
  refused its insert or its thread. A poll that raises leaves all rows alone.\<close>

theorem poll_fires_each_due_schedule_once:
  assumes "poll_and_trigger E w = (r, w')" and "distinct (map s_key (sc_rows w))"
    and "\<And>c t n. se_next E c t = Inr n \<Longrightarrow> t < n"
  shows "if r \<noteq> Inr () then sc_rows w' = sc_rows w
    else map s_key (sc_rows w') = map s_key (sc_rows w) \<and>
      (\<exists>x. sc_started w' = sc_started w @ runs_of x (filter (schedule_due E (sc_now w)) (sc_rows w)) \<and>
        (\<forall>s \<in> set (sc_rows w). \<exists>s' \<in> set (sc_rows w'). s_key s' = s_key s \<and>
          (if schedule_due E (sc_now w) s then fired_row E (sc_now w) (x s) s s' \<and> accounted E (sc_execs w') s (x s) else s' = s))) \<and>
      (\<forall>s' \<in> set (sc_rows w'). \<not> schedule_due E (sc_now w) s')"
proof (cases "filter (schedule_due E (sc_now w)) (sc_rows w) = []")
  case True
  then have "w' = w" "r = Inr ()" using assms(1) by (auto simp: poll_and_trigger_def bind_step_def)
  moreover have "\<not> schedule_due E (sc_now w) s" if "s \<in> set (sc_rows w)" for s
    using True that by (auto simp: filter_empty_conv)
  ultimately show ?thesis by (auto simp: runs_of_def)
next
  case False
  then have run: "in_transaction (commit_schedules E) undo_schedules
      (trigger_all E (sc_now w) (filter (schedule_due E (sc_now w)) (sc_rows w))) w = (r, w')"
    using assms(1) by (simp add: poll_and_trigger_def bind_step_def)
  show ?thesis
  proof (cases "r = Inr ()")
    case False
    then show ?thesis
      using run by (auto simp: in_transaction_def undo_schedules_def split: prod.splits sum.splits)
  next
    case True
    obtain v where t: "trigger_all E (sc_now w) (filter (schedule_due E (sc_now w)) (sc_rows w)) w = (Inr (), v)"
      and w': "w' = v\<lparr>sc_tick := Suc (sc_tick v)\<rparr>"
      using run True by (auto simp: in_transaction_def commit_schedules_def elim!: bind_stepE split: prod.splits sum.splits if_splits)
    have out: "sc_rows w' = sc_rows v" "sc_started w' = sc_started v" "sc_execs w' = sc_execs v" by (simp_all add: w')
    obtain x where x: "sc_started v = sc_started w @ runs_of x (filter (schedule_due E (sc_now w)) (sc_rows w))"
      "map s_key (sc_rows v) = map s_key (sc_rows w)"
      "\<forall>s \<in> set (sc_rows w). \<exists>s' \<in> set (sc_rows v). s_key s' = s_key s \<and>
        (if schedule_due E (sc_now w) s then fired_row E (sc_now w) (x s) s s' \<and> accounted E (sc_execs v) s (x s) else s' = s)"
      using triggered_rows [OF t assms(2)] by blast
    have "\<forall>s' \<in> set (sc_rows v). \<not> schedule_due E (sc_now w) s'"
      by (intro ballI calm_after_poll [OF x(2) assms(2)]) (rule assms(3), assumption, rule bspec [OF x(3)])
    moreover have no: "\<not> r \<noteq> Inr ()" using True by simp
    ultimately show ?thesis unfolding out if_not_P [OF no] using x by blast
  qed
qed


definition two_schedules :: sched_world where
  "two_schedules = \<lparr>sc_rows = [new_schedule ''p'' morning 50, new_schedule ''q'' morning 500], sc_execs = [], sc_started = [], sc_now = 100, sc_tick = 0\<rparr>"

theorem poll_fires_each_due_schedule_once_witness:
  "filter (schedule_due hourly 100) (sc_rows (snd (poll_and_trigger hourly two_schedules))) = []"
proof -
  have ran: "poll_and_trigger hourly two_schedules = (Inr (), snd (poll_and_trigger hourly two_schedules))"
  proof -
    have "fst (poll_and_trigger hourly two_schedules) = Inr ()" by code_simp
    then show ?thesis by (metis prod.collapse)
  qed
  have "distinct (map s_key (sc_rows two_schedules))" and later: "\<And>c t n. se_next hourly c t = Inr n \<Longrightarrow> t < n"
    by (simp_all add: two_schedules_def new_schedule_def hourly_def split: if_splits)
  from poll_fires_each_due_schedule_once [OF ran this(1) later] show ?thesis
    by (simp add: two_schedules_def filter_empty_conv)
qed

text \<open>A schedule that is declared again with the cron it had keeps the next time it had when it
  was disabled, however long ago, and so is due at once.\<close>

lemma redeclared_schedule_is_due_at_once:
  assumes "sync_schedules_from_registry E now ps db = Inr t" and "distinct (declared_keys ps)"
    and "(p, r) \<in> set (declared_runs ps)" and "first_where (by_key (p, sr_name r)) db = Some s"
    and "s_cron s = sr_cron r" and "s_next s \<le> now" and "(p, sr_name r) \<notin> se_locked E"
  shows "\<exists>s' \<in> set t. s_key s' = (p, sr_name r) \<and> schedule_due E now s'"
proof -
  obtain s' where "synced E now (lookup (p, sr_name r) db) (p, r) = Inr s'" "lookup (p, sr_name r) t = Some s'"
    using sync_spec(1) [OF assms(1,2)] assms(3) by fastforce
  then show ?thesis
    using assms(4-7) lookup_key by (fastforce simp: synced_def lookup_def schedule_due_def)
qed

end
