(* ===== verification/Parameters.thy ===== *)
theory Parameters
  imports Values Text
begin

text \<open>
  The parameters of a pipeline (\<open>core/abstract_pipeline.py\<close>): \<open>PipelineParameter\<close> with its
  check and coercion of a value, defaults and validation of a run's params, and the
  declarations derived from a params TypedDict (\<open>core/runtime_params.py\<close>). The texts Python
  gives to values, \<open>float(text)\<close>, \<open>json.loads\<close> and \<open>isinstance\<close> for other classes are
  parameters.
\<close>

datatype py_type = TStr | TInt | TFloat | TBool | TList | TDict | TClass string

fun type_name :: "py_type \<Rightarrow> string" where
  "type_name TStr = ''string''"
| "type_name TInt = ''integer''"
| "type_name TFloat = ''number''"
| "type_name TBool = ''boolean''"
| "type_name TList = ''array''"
| "type_name TDict = ''object''"
| "type_name (TClass c) = c"

text \<open>What the model takes from Python: the class of an object, \<open>str(v)\<close>, the text of a list
  of choices, \<open>isinstance\<close> for other classes, \<open>json.loads\<close> and \<open>float\<close> of a text (\<open>None\<close>:
  a \<open>ValueError\<close>), and what \<open>isinstance(Annotated, type)\<close> makes of a bare \<open>Annotated\<close>.\<close>

record python =
  py_class :: "pyval \<Rightarrow> string"
  py_str :: "pyval \<Rightarrow> string"
  py_list_text :: "pyval list \<Rightarrow> string"
  py_isinstance :: "string \<Rightarrow> pyval \<Rightarrow> bool"
  py_loads :: "string \<Rightarrow> pyval option"
  py_float :: "string \<Rightarrow> rat option"
  py_annotated :: py_type

fun value_class :: "python \<Rightarrow> pyval \<Rightarrow> string" where
  "value_class P PNone = ''NoneType''"
| "value_class P (PBool b) = ''bool''"
| "value_class P (PInt i) = ''int''"
| "value_class P (PFloat r) = ''float''"
| "value_class P (PStr s) = ''str''"
| "value_class P (PList xs) = ''list''"
| "value_class P (PTuple xs) = ''tuple''"
| "value_class P (PDict d) = ''dict''"
| "value_class P v = py_class P v"

subsection \<open>Equality of values\<close>

text \<open>Python's \<open>==\<close>: booleans, integers and floats compare as numbers, dicts whatever their order.\<close>

fun number_of :: "pyval \<Rightarrow> rat option" where
  "number_of (PBool b) = Some (if b then 1 else 0)"
| "number_of (PInt i) = Some (of_int i)"
| "number_of (PFloat r) = Some r"
| "number_of v = None"

fun py_eq :: "pyval \<Rightarrow> pyval \<Rightarrow> bool"
  and py_eq_list :: "pyval list \<Rightarrow> pyval list \<Rightarrow> bool"
  and py_eq_items :: "(string \<times> pyval) list \<Rightarrow> pydict \<Rightarrow> bool" where
  "py_eq (PList xs) w = (case w of PList ys \<Rightarrow> py_eq_list xs ys | _ \<Rightarrow> False)"
| "py_eq (PTuple xs) w = (case w of PTuple ys \<Rightarrow> py_eq_list xs ys | _ \<Rightarrow> False)"
| "py_eq (PDict d) w = (case w of PDict e \<Rightarrow> length d = length e \<and> py_eq_items d e | _ \<Rightarrow> False)"
| "py_eq v w = (case (number_of v, number_of w) of (Some a, Some b) \<Rightarrow> a = b | _ \<Rightarrow> v = w)"
| "py_eq_list [] ys = (ys = [])"
| "py_eq_list (x # xs) ys = (case ys of [] \<Rightarrow> False | y # ys' \<Rightarrow> py_eq x y \<and> py_eq_list xs ys')"
| "py_eq_items [] e = True"
| "py_eq_items ((k, v) # d) e = ((case dget e k of None \<Rightarrow> False | Some w \<Rightarrow> py_eq v w) \<and> py_eq_items d e)"

definition is_in :: "pyval \<Rightarrow> pyval list \<Rightarrow> bool" where
  "is_in v vs \<longleftrightarrow> list_ex (py_eq v) vs"

subsection \<open>PipelineParameter\<close>

record parameter =
  p_name :: string
  p_description :: string
  p_required :: bool
  p_type :: py_type
  p_default :: pyval
  p_choices :: "pyval list option"

fun check_type :: "python \<Rightarrow> py_type \<Rightarrow> pyval \<Rightarrow> bool" where
  "check_type P TBool v = (case v of PBool b \<Rightarrow> True | _ \<Rightarrow> False)"
| "check_type P TInt v = (case v of PInt i \<Rightarrow> True | _ \<Rightarrow> False)"
| "check_type P TFloat v = (case v of PInt i \<Rightarrow> True | PFloat r \<Rightarrow> True | _ \<Rightarrow> False)"
| "check_type P TStr v = (case v of PStr s \<Rightarrow> True | _ \<Rightarrow> False)"
| "check_type P TList v = (case v of PList xs \<Rightarrow> True | _ \<Rightarrow> False)"
| "check_type P TDict v = (case v of PDict d \<Rightarrow> True | _ \<Rightarrow> False)"
| "check_type P (TClass c) v = py_isinstance P c v"

definition allowed :: "parameter \<Rightarrow> pyval \<Rightarrow> bool" where
  "allowed p v = (case p_choices p of None \<Rightarrow> True | Some cs \<Rightarrow> cs = [] \<or> is_in v cs)"

definition validate :: "python \<Rightarrow> parameter \<Rightarrow> pyval \<Rightarrow> string option" where
  "validate P p v =
     (if v = PNone then (if p_required p then Some (''Missing required parameter: '' @ p_name p) else None)
      else if \<not> check_type P (p_type p) v
      then Some (''Parameter '' @ quoted (p_name p) @ '' must be '' @ type_name (p_type p) @ '', got '' @ value_class P v)
      else if \<not> allowed p v
      then Some (''Invalid value for '' @ p_name p @ '': '' @ quoted (py_str P v) @ ''. Must be one of: '' @
        (case p_choices p of None \<Rightarrow> [] | Some cs \<Rightarrow> py_list_text P cs))
      else None)"

definition truncate :: "rat \<Rightarrow> int" where
  "truncate r = (if 0 \<le> r then \<lfloor>r\<rfloor> else \<lceil>r\<rceil>)"

text \<open>\<open>int(v)\<close> and \<open>float(v)\<close>; \<open>None\<close> is the \<open>ValueError\<close> or \<open>TypeError\<close>.\<close>

fun to_int :: "pyval \<Rightarrow> int option" where
  "to_int (PBool b) = Some (if b then 1 else 0)"
| "to_int (PInt i) = Some i"
| "to_int (PFloat r) = Some (truncate r)"
| "to_int (PStr s) = py_int s"
| "to_int v = None"

fun to_float :: "python \<Rightarrow> pyval \<Rightarrow> rat option" where
  "to_float P (PBool b) = Some (if b then 1 else 0)"
| "to_float P (PInt i) = Some (of_int i)"
| "to_float P (PFloat r) = Some r"
| "to_float P (PStr s) = py_float P s"
| "to_float P v = None"

definition coerce_bool :: "pyval \<Rightarrow> pyval" where
  "coerce_bool v = (case v of
     PStr s \<Rightarrow> if lower s \<in> {''true'', ''1'', ''yes'', ''on''} then PBool True
              else if lower s \<in> {''false'', ''0'', ''no'', ''off''} then PBool False
              else PBool (truthy v)
   | _ \<Rightarrow> PBool (truthy v))"

definition coerce_list :: "python \<Rightarrow> string \<Rightarrow> pyval" where
  "coerce_list P s = (case py_loads P s of
     Some (PList xs) \<Rightarrow> PList xs
   | _ \<Rightarrow> PList (map PStr (filter (\<lambda>v. v \<noteq> []) (map strip (split_at CHR '','' s)))))"

definition or_original :: "pyval \<Rightarrow> ('a \<Rightarrow> pyval) \<Rightarrow> 'a option \<Rightarrow> pyval" where
  "or_original v f x = (case x of None \<Rightarrow> v | Some y \<Rightarrow> f y)"

definition coerce :: "python \<Rightarrow> parameter \<Rightarrow> pyval \<Rightarrow> pyval" where
  "coerce P p v =
     (if v = PNone then p_default p
      else if check_type P (p_type p) v then v
      else case p_type p of
        TBool \<Rightarrow> coerce_bool v
      | TInt \<Rightarrow> or_original v PInt (to_int v)
      | TFloat \<Rightarrow> or_original v PFloat (to_float P v)
      | TStr \<Rightarrow> PStr (py_str P v)
      | TList \<Rightarrow> (case v of PStr s \<Rightarrow> coerce_list P s | _ \<Rightarrow> v)
      | TDict \<Rightarrow> (case v of PStr s \<Rightarrow> or_original v id (py_loads P s) | _ \<Rightarrow> v)
      | TClass c \<Rightarrow> v)"

definition param_to_dict :: "parameter \<Rightarrow> pydict" where
  "param_to_dict p =
     [(''name'', PStr (p_name p)), (''description'', PStr (p_description p)), (''required'', PBool (p_required p)),
      (''type'', PStr (type_name (p_type p)))] @
     (if p_default p = PNone then [] else [(''default'', p_default p)]) @
     (case p_choices p of None \<Rightarrow> [] | Some cs \<Rightarrow> if cs = [] then [] else [(''choices'', PList cs)])"

subsection \<open>The params of a run\<close>

definition apply_defaults :: "parameter list \<Rightarrow> pydict \<Rightarrow> pydict" where
  "apply_defaults ps runtime_params =
     foldl (\<lambda>d p. if dget d (p_name p) = None \<and> p_default p \<noteq> PNone then dset d (p_name p) (p_default p) else d) runtime_params ps"

fun validate_parameters :: "python \<Rightarrow> parameter list \<Rightarrow> pydict \<Rightarrow> string list" where
  "validate_parameters P [] d = []"
| "validate_parameters P (p # ps) d =
     (case validate P p (dget_or d (p_name p) PNone) of
        None \<Rightarrow> validate_parameters P ps d
      | Some e \<Rightarrow> if e = [] then validate_parameters P ps d else e # validate_parameters P ps d)"

definition get_required_parameters :: "parameter list \<Rightarrow> string set" where
  "get_required_parameters ps = p_name ` set (filter p_required ps)"

definition runtime_parameter_names :: "parameter list \<Rightarrow> string list" where
  "runtime_parameter_names ps = map p_name ps"

text \<open>The params a run starts with, or the errors that refuse it.\<close>

definition checked_params :: "python \<Rightarrow> parameter list \<Rightarrow> pydict \<Rightarrow> string list + pydict" where
  "checked_params P ps runtime_params =
     (let params = apply_defaults ps runtime_params; errors = validate_parameters P ps params
      in if errors = [] then Inr params else Inl errors)"

subsection \<open>Parameters from a TypedDict\<close>

record param_marker =
  mk_description :: string
  mk_default :: pyval
  mk_internal :: bool

definition Param :: param_marker where
  "Param = \<lparr>mk_description = [], mk_default = PNone, mk_internal = False\<rparr>"

text \<open>A type hint: a class; a generic's origin with its arguments (\<open>list[int]\<close>); the wrappers
  (an argument of \<open>Annotated\<close> that is no \<open>Param\<close> is \<open>None\<close>); a union (flattened, \<open>None\<close>
  as a member); a literal; anything that is not a class.\<close>

datatype hint =
    HType py_type
  | HNone
  | HGeneric py_type "hint list"
  | HAnnotated hint "param_marker option list"
  | HRequired hint
  | HNotRequired hint
  | HUnion "hint list"
  | HLiteral "pyval list"
  | HOther

fun first_marker :: "param_marker option list \<Rightarrow> param_marker \<Rightarrow> param_marker" where
  "first_marker [] m = m"
| "first_marker (Some m' # ms) m = m'"
| "first_marker (None # ms) m = first_marker ms m"

fun peel :: "param_marker \<Rightarrow> hint \<Rightarrow> param_marker \<times> hint" where
  "peel m (HAnnotated h ms) = peel (first_marker ms m) h"
| "peel m (HRequired h) = peel m h"
| "peel m (HNotRequired h) = peel m h"
| "peel m h = (m, h)"

definition without_none :: "hint \<Rightarrow> hint" where
  "without_none h = (case h of
     HUnion hs \<Rightarrow> (case filter (\<lambda>a. a \<noteq> HNone) hs of [a] \<Rightarrow> a | _ \<Rightarrow> h)
   | _ \<Rightarrow> h)"

definition literal_type :: "python \<Rightarrow> pyval \<Rightarrow> py_type" where
  "literal_type P v = (case v of
     PStr s \<Rightarrow> TStr | PInt i \<Rightarrow> TInt | PBool b \<Rightarrow> TBool | PFloat r \<Rightarrow> TFloat | _ \<Rightarrow> TClass (value_class P v))"

text \<open>The runtime type and the choices of a peeled hint.\<close>

definition runtime_type :: "python \<Rightarrow> hint \<Rightarrow> py_type \<times> pyval list option" where
  "runtime_type P h = (case h of
     HLiteral vs \<Rightarrow> ((case vs of [] \<Rightarrow> TStr | v # _ \<Rightarrow> literal_type P v), Some vs)
   | HType t \<Rightarrow> (t, None)
   | HGeneric t _ \<Rightarrow> (t, None)
   | HNone \<Rightarrow> (TClass ''NoneType'', None)
   | HAnnotated _ _ \<Rightarrow> (py_annotated P, None)
   | _ \<Rightarrow> (TStr, None))"

definition RuntimeParams :: "string list" where
  "RuntimeParams = [''execution_id'', ''batch_id'', ''pipeline_name'', ''created_at'', ''batch_number'', ''total_batches'',
     ''retry_count'', ''is_retry'', ''input_ids'', ''current_ids'', ''current_id'', ''skip_reason'', ''_dlq_source'', ''_dlq_job_ids'']"

definition derived_parameter :: "python \<Rightarrow> string list \<Rightarrow> string \<times> hint \<Rightarrow> parameter option" where
  "derived_parameter P required_keys kh =
     (case kh of (key, h) \<Rightarrow>
        if key \<in> set RuntimeParams then None
        else case peel Param h of (m, h') \<Rightarrow>
          if mk_internal m then None
          else case runtime_type P (without_none h') of (t, cs) \<Rightarrow>
            Some \<lparr>p_name = key, p_description = mk_description m, p_required = (key \<in> set required_keys), p_type = t,
              p_default = mk_default m, p_choices = cs\<rparr>)"

definition params_from_typeddict :: "python \<Rightarrow> (string \<times> hint) list \<Rightarrow> string list \<Rightarrow> parameter list" where
  "params_from_typeddict P hints required_keys = List.map_filter (derived_parameter P required_keys) hints"

subsection \<open>Defaults\<close>

lemma apply_defaults_Nil [simp]: "apply_defaults [] d = d"
  by (simp add: apply_defaults_def)

lemma apply_defaults_Cons [simp]:
  "apply_defaults (p # ps) d =
     apply_defaults ps (if dget d (p_name p) = None \<and> p_default p \<noteq> PNone then dset d (p_name p) (p_default p) else d)"
  by (simp add: apply_defaults_def)

text \<open>The default of a key: the first one declared.\<close>

fun default_of :: "parameter list \<Rightarrow> string \<Rightarrow> pyval option" where
  "default_of [] k = None"
| "default_of (p # ps) k = (if p_name p = k \<and> p_default p \<noteq> PNone then Some (p_default p) else default_of ps k)"

lemma dget_apply_defaults:
  "dget (apply_defaults ps d) k = (case dget d k of Some v \<Rightarrow> Some v | None \<Rightarrow> default_of ps k)"
proof (induction ps arbitrary: d)
  case (Cons p ps)
  then show ?case by (auto split: option.splits)
qed (simp split: option.split)

lemma validate_parameters_ok:
  "validate_parameters P ps d = [] \<Longrightarrow> p \<in> set ps \<Longrightarrow>
     (dget_or d (p_name p) PNone = PNone \<and> \<not> p_required p) \<or>
     (dget_or d (p_name p) PNone \<noteq> PNone \<and> check_type P (p_type p) (dget_or d (p_name p) PNone) \<and> allowed p (dget_or d (p_name p) PNone))"
proof (induction ps)
  case (Cons q ps)
  have none: "validate P q (dget_or d (p_name q) PNone) = None"
    using Cons.prems(1) by (auto simp: validate_def split: option.splits if_splits)
  show ?case
  proof (cases "p = q")
    case True
    then show ?thesis using none by (auto simp: validate_def split: if_splits)
  next
    case False
    then show ?thesis using Cons none by (auto split: option.splits)
  qed
qed simp

lemma validate_parameters_none:
  "(\<And>p. p \<in> set ps \<Longrightarrow> validate P p (dget_or d (p_name p) PNone) = None) \<Longrightarrow> validate_parameters P ps d = []"
  by (induction ps) auto

subsection \<open>Texts of numbers\<close>

lemma digit_of: "n < 10 \<Longrightarrow> digit_value (char_of (48 + n)) = Some n"
  by (auto simp: digit_value_def)

lemma not_blank_digit: "n < 10 \<Longrightarrow> \<not> is_blank (char_of (48 + n :: nat))"
proof -
  assume n: "n < 10"
  then have "(of_char (char_of (48 + n :: nat) :: char) :: nat) = 48 + n" by simp
  then show ?thesis unfolding is_blank_def using n by auto
qed

lemma digit_not_underscore: "n < 10 \<Longrightarrow> (char_of (48 + n :: nat) :: char) \<noteq> CHR ''_''"
proof
  assume "n < 10" and "(char_of (48 + n) :: char) = CHR ''_''"
  then have "digit_value CHR ''_'' = Some n" using digit_of by metis
  then show False by (simp add: digit_value_def)
qed

lemma digits_value_nat: "digits_value acc b (nat_text n @ ys) = digits_value (acc * 10 ^ length (nat_text n) + n) True ys"
proof (induction n arbitrary: acc b ys rule: nat_text.induct)
  case (1 n)
  show ?case
  proof (cases "n < 10")
    case True
    then show ?thesis using digit_of [OF True] digit_not_underscore [OF True] by (simp add: nat_text.simps [of n] mult.commute)
  next
    case False
    then have m: "n mod 10 < 10" "n div 10 * 10 + n mod 10 = n" by simp_all
    have "digits_value acc b (nat_text n @ ys) = digits_value acc b (nat_text (n div 10) @ char_of (48 + n mod 10) # ys)"
      using False by (simp add: nat_text.simps [of n])
    also have "\<dots> = digits_value (acc * 10 ^ length (nat_text (n div 10)) + n div 10) True (char_of (48 + n mod 10) # ys)"
      by (rule 1 [OF False])
    also have "\<dots> = digits_value (10 * (acc * 10 ^ length (nat_text (n div 10)) + n div 10) + n mod 10) True ys"
      using digit_of [OF m(1)] digit_not_underscore [OF m(1)] by simp
    also have "10 * (acc * 10 ^ length (nat_text (n div 10)) + n div 10) + n mod 10 = acc * 10 ^ length (nat_text n) + n"
      using False m(2) by (simp add: nat_text.simps [of n] algebra_simps)
    finally show ?thesis .
  qed
qed

lemma nat_text_not_blank: "c \<in> set (nat_text n) \<Longrightarrow> \<not> is_blank c"
proof (induction n rule: nat_text.induct)
  case (1 n)
  then show ?case
    using not_blank_digit [of n] not_blank_digit [of "n mod 10"] by (auto simp: nat_text.simps [of n] split: if_splits)
qed

lemma nat_text_not_empty [simp]: "nat_text n \<noteq> []"
  by (simp add: nat_text.simps [of n])

lemma strip_solid: "(\<And>c. c \<in> set s \<Longrightarrow> \<not> is_blank c) \<Longrightarrow> strip s = s"
proof -
  assume *: "\<And>c. c \<in> set s \<Longrightarrow> \<not> is_blank c"
  then have "dropWhile is_blank s = s" by (cases s) auto
  moreover have "dropWhile is_blank (rev s) = rev s" using * by (cases "rev s") (auto simp: rev_eq_Cons_iff)
  ultimately show "strip s = s" by (simp add: strip_def)
qed

lemma nat_text_head: "nat_text n = c # cs \<Longrightarrow> c \<noteq> CHR ''-'' \<and> c \<noteq> CHR ''+''"
proof (induction n arbitrary: cs rule: nat_text.induct)
  case (1 n)
  have d: "(char_of (48 + m) :: char) \<noteq> CHR ''-'' \<and> (char_of (48 + m) :: char) \<noteq> CHR ''+''" if "m < 10" for m :: nat
  proof -
    have "digit_value CHR ''-'' = None" "digit_value CHR ''+'' = None" by (simp_all add: digit_value_def)
    with digit_of [OF that] show ?thesis by (metis option.distinct(1))
  qed
  show ?case
  proof (cases "n < 10")
    case True
    then show ?thesis using 1(2) d [OF True] by (simp add: nat_text.simps [of n])
  next
    case False
    then obtain e es where "nat_text (n div 10) = e # es" by (cases "nat_text (n div 10)") auto
    then show ?thesis using 1(2) 1(1) [OF False] False by (auto simp: nat_text.simps [of n])
  qed
qed

lemma py_int_text: "py_int (int_text i) = Some i"
proof -
  have value_of: "digits_value 0 False (nat_text n) = Some n" for n
    using digits_value_nat [of 0 False n "[]"] by simp
  show ?thesis
  proof (cases "i < 0")
    case True
    have "\<not> is_blank CHR ''-''" by (simp add: is_blank_def)
    then have "strip (int_text i) = int_text i"
      using nat_text_not_blank True by (intro strip_solid) (auto simp: int_text_def)
    then show ?thesis using True value_of [of "nat (- i)"] by (simp add: py_int_def int_text_def)
  next
    case False
    then have "strip (int_text i) = int_text i"
      using nat_text_not_blank by (intro strip_solid) (auto simp: int_text_def)
    moreover obtain c cs where "nat_text (nat i) = c # cs" by (cases "nat_text (nat i)") auto
    ultimately show ?thesis
      using False value_of [of "nat i"] nat_text_head [of "nat i" c cs] by (simp add: py_int_def int_text_def)
  qed
qed


subsection \<open>Values of a hint\<close>

text \<open>The values a type checker lets a caller pass, and the hints whose runtime check is exact
  enough to accept all of them.\<close>

fun inhabits :: "python \<Rightarrow> hint \<Rightarrow> pyval \<Rightarrow> bool" where
  "inhabits P (HType t) v = check_type P t v"
| "inhabits P HNone v = (v = PNone)"
| "inhabits P (HGeneric t hs) v = check_type P t v"
| "inhabits P (HAnnotated h ms) v = inhabits P h v"
| "inhabits P (HRequired h) v = inhabits P h v"
| "inhabits P (HNotRequired h) v = inhabits P h v"
| "inhabits P (HUnion hs) v = (\<exists>h \<in> set hs. inhabits P h v)"
| "inhabits P (HLiteral vs) v = (v \<in> set vs)"
| "inhabits P HOther v = True"

definition literal_ok :: "python \<Rightarrow> pyval list \<Rightarrow> bool" where
  "literal_ok P vs \<longleftrightarrow> vs \<noteq> [] \<and> (\<forall>v \<in> set vs. literal_type P v = literal_type P (hd vs) \<and>
     (case v of PStr s \<Rightarrow> True | PInt i \<Rightarrow> True | PBool b \<Rightarrow> True | _ \<Rightarrow> False))"

fun plain_hint :: "python \<Rightarrow> hint \<Rightarrow> bool" where
  "plain_hint P (HType t) = True"
| "plain_hint P (HGeneric t hs) = True"
| "plain_hint P (HLiteral vs) = literal_ok P vs"
| "plain_hint P h = False"

fun supported :: "python \<Rightarrow> hint \<Rightarrow> bool" where
  "supported P (HAnnotated h ms) = supported P h"
| "supported P (HRequired h) = supported P h"
| "supported P (HNotRequired h) = supported P h"
| "supported P (HUnion hs) = (case filter (\<lambda>a. a \<noteq> HNone) hs of [a] \<Rightarrow> plain_hint P a | _ \<Rightarrow> False)"
| "supported P h = plain_hint P h"

lemma peel_hint:
  "supported P h \<Longrightarrow> inhabits P h v \<Longrightarrow> v \<noteq> PNone \<Longrightarrow>
   plain_hint P (without_none (snd (peel m h))) \<and> inhabits P (without_none (snd (peel m h))) v"
proof (induction m h rule: peel.induct, goal_cases)
  case (7 m hs)
  obtain a where a: "filter (\<lambda>a. a \<noteq> HNone) hs = [a]" "plain_hint P a"
    using 7(1) by (auto split: list.splits)
  obtain h where h: "h \<in> set hs" "inhabits P h v" using 7(2) by auto
  then have "h \<noteq> HNone" using 7(3) by auto
  then have "h \<in> set (filter (\<lambda>a. a \<noteq> HNone) hs)" using h(1) by simp
  then show ?case using a h(2) by (simp add: without_none_def)
qed (auto simp: without_none_def)

lemma py_eq_scalar: "literal_ok P vs \<Longrightarrow> v \<in> set vs \<Longrightarrow> py_eq v v"
  by (cases v) (auto simp: literal_ok_def)

lemma plain_accepts:
  assumes "plain_hint P h" and "inhabits P h v"
  shows "check_type P (fst (runtime_type P h)) v"
    and "case snd (runtime_type P h) of None \<Rightarrow> True | Some cs \<Rightarrow> cs = [] \<or> is_in v cs"
proof -
  have "check_type P (fst (runtime_type P h)) v \<and>
      (case snd (runtime_type P h) of None \<Rightarrow> True | Some cs \<Rightarrow> cs = [] \<or> is_in v cs)"
  proof (cases h)
    case (HLiteral vs)
    with assms have vs: "literal_ok P vs" "v \<in> set vs" by simp_all
    then have "is_in v vs" using py_eq_scalar by (auto simp: is_in_def list_ex_iff)
    moreover have "check_type P (literal_type P (hd vs)) v"
    proof -
      have "literal_type P v = literal_type P (hd vs)" "case v of PStr s \<Rightarrow> True | PInt i \<Rightarrow> True | PBool b \<Rightarrow> True | _ \<Rightarrow> False"
        using vs unfolding literal_ok_def by blast+
      moreover from this(2) have "check_type P (literal_type P v) v" by (cases v) (simp_all add: literal_type_def)
      ultimately show ?thesis by simp
    qed
    moreover obtain w ws where "vs = w # ws" using vs(1) by (cases vs) (auto simp: literal_ok_def)
    ultimately show ?thesis by (simp add: HLiteral runtime_type_def)
  qed (use assms in \<open>auto simp: runtime_type_def\<close>)
  then show "check_type P (fst (runtime_type P h)) v"
    and "case snd (runtime_type P h) of None \<Rightarrow> True | Some cs \<Rightarrow> cs = [] \<or> is_in v cs" by simp_all
qed

lemma derived_accepts:
  assumes "derived_parameter P req (k, h) = Some p" and "supported P h" and "v \<noteq> PNone" and "inhabits P h v"
  shows "validate P p v = None"
proof -
  let ?h = "without_none (snd (peel Param h))"
  have p: "p_type p = fst (runtime_type P ?h)" "p_choices p = snd (runtime_type P ?h)"
    using assms(1) by (auto simp: derived_parameter_def split: if_splits prod.splits)
  have "plain_hint P ?h" "inhabits P ?h v" using peel_hint [OF assms(2,4,3)] by simp_all
  from plain_accepts [OF this] show ?thesis
    using assms(3) p by (simp add: validate_def allowed_def)
qed

lemma derived_name: "derived_parameter P req (k, h) = Some p \<Longrightarrow> p_name p = k \<and> p_required p = (k \<in> set req) \<and> p_default p = mk_default (fst (peel Param h))"
  by (auto simp: derived_parameter_def split: if_splits prod.splits)

lemma derived_default:
  assumes "distinct (map fst hints)" and "(k, h) \<in> set hints" and "derived_parameter P req (k, h) = Some p"
  shows "default_of (params_from_typeddict P hints req) k = (if p_default p = PNone then None else Some (p_default p))"
  using assms
proof (induction hints)
  case (Cons kh hints)
  obtain k' h' where kh: "kh = (k', h')" by (cases kh)
  have none: "default_of (params_from_typeddict P hs req) k = None" if "k \<notin> fst ` set hs" for hs
    using that
    by (induction hs) (auto simp: params_from_typeddict_def List.map_filter_simps dest: derived_name split: option.splits)
  show ?case
  proof (cases "k' = k")
    case True
    then have "(k, h) = kh" "k \<notin> fst ` set hints" using Cons.prems(1,2) kh by force+
    then show ?thesis
      using none [of hints] Cons.prems(3) derived_name [OF Cons.prems(3)] by (simp add: params_from_typeddict_def List.map_filter_simps)
  next
    case False
    then have "default_of (params_from_typeddict P (kh # hints) req) k = default_of (params_from_typeddict P hints req) k"
      by (auto simp: params_from_typeddict_def List.map_filter_simps kh dest: derived_name split: option.splits)
    then show ?thesis using Cons False kh by auto
  qed
qed simp


lemma in_derived: "p \<in> set (params_from_typeddict P hints req) \<Longrightarrow> \<exists>k h. (k, h) \<in> set hints \<and> derived_parameter P req (k, h) = Some p"
  by (auto simp: params_from_typeddict_def List.map_filter_def) blast

text \<open>What a declaration and a caller must satisfy for the run to be accepted.\<close>

definition well_declared :: "python \<Rightarrow> string list \<Rightarrow> pydict \<Rightarrow> string \<times> hint \<Rightarrow> bool" where
  "well_declared P req d kh = (case kh of (k, h) \<Rightarrow>
     supported P h \<and> (mk_default (fst (peel Param h)) = PNone \<or> inhabits P h (mk_default (fst (peel Param h)))) \<and>
     (case dget d k of
        None \<Rightarrow> k \<notin> set req \<or> mk_default (fst (peel Param h)) \<noteq> PNone
      | Some v \<Rightarrow> (v = PNone \<and> k \<notin> set req) \<or> (v \<noteq> PNone \<and> inhabits P h v)))"

subsection \<open>Properties\<close>

text \<open>C29: the params a run starts with are well formed: what the caller gave is kept as given,
  a key the caller left out has the default declared for it and nothing else is added, and
  every declared parameter is either optional and without a value or has a value of its
  declared type that is one of its choices.\<close>

theorem accepted_params_are_well_typed:
  assumes "checked_params P ps user = Inr params"
  shows "(\<forall>k. dget params k = (case dget user k of Some v \<Rightarrow> Some v | None \<Rightarrow> default_of ps k)) \<and>
    (\<forall>p \<in> set ps. case dget_or params (p_name p) PNone of
       PNone \<Rightarrow> \<not> p_required p
     | v \<Rightarrow> check_type P (p_type p) v \<and> (case p_choices p of None \<Rightarrow> True | Some cs \<Rightarrow> cs = [] \<or> is_in v cs))"
proof -
  have params: "params = apply_defaults ps user" and ok: "validate_parameters P ps params = []"
    using assms by (auto simp: checked_params_def Let_def split: if_splits)
  have "case dget_or params (p_name p) PNone of
       PNone \<Rightarrow> \<not> p_required p
     | v \<Rightarrow> check_type P (p_type p) v \<and> (case p_choices p of None \<Rightarrow> True | Some cs \<Rightarrow> cs = [] \<or> is_in v cs)"
    if "p \<in> set ps" for p
    using validate_parameters_ok [OF ok that]
    by (cases "dget_or params (p_name p) PNone") (auto simp: allowed_def)
  then show ?thesis by (simp add: params dget_apply_defaults)
qed

definition plain_python :: python where
  "plain_python = \<lparr>py_class = (\<lambda>_. ''object''), py_str = (\<lambda>_. ''?''), py_list_text = (\<lambda>_. ''[]''), py_isinstance = (\<lambda>_ _. False),
     py_loads = (\<lambda>_. None), py_float = (\<lambda>_. None), py_annotated = TStr\<rparr>"

text \<open>\<open>env: Required[Literal["dev", "prod"]]\<close> and \<open>limit: Annotated[NotRequired[int], Param("max rows", default=10)]\<close>.\<close>

definition my_params :: "(string \<times> hint) list" where
  "my_params = [(''execution_id'', HType TStr), (''env'', HRequired (HLiteral [PStr ''dev'', PStr ''prod''])),
     (''limit'', HAnnotated (HNotRequired (HType TInt)) [Some (Param\<lparr>mk_description := ''max rows'', mk_default := PInt 10\<rparr>)])]"

lemma my_params_derived:
  "map (\<lambda>p. (p_name p, p_type p, p_choices p, p_default p, p_required p)) (params_from_typeddict plain_python my_params [''env'']) =
     [(''env'', TStr, Some [PStr ''dev'', PStr ''prod''], PNone, True), (''limit'', TInt, None, PInt 10, False)]"
  by code_simp

theorem accepted_params_are_well_typed_witness:
  "dget [(''env'', PStr ''dev''), (''limit'', PInt 10)] ''limit'' = Some (PInt 10)"
proof -
  have "checked_params plain_python (params_from_typeddict plain_python my_params [''env'']) [(''env'', PStr ''dev'')] =
      Inr [(''env'', PStr ''dev''), (''limit'', PInt 10)]"
    by code_simp
  from spec [OF conjunct1 [OF accepted_params_are_well_typed [OF this]], of "''limit''"]
  have "dget [(''env'', PStr ''dev''), (''limit'', PInt 10)] ''limit'' =
      default_of (params_from_typeddict plain_python my_params [''env'']) ''limit''" by simp
  also have "\<dots> = Some (PInt 10)" by code_simp
  finally show ?thesis .
qed

text \<open>A caller who keeps to the declared types is never refused: when the parameters are
  derived from a TypedDict whose hints are classes, generics, literals of one type or
  optionals of these -- in any nesting of \<open>Annotated\<close>, \<open>Required\<close> and \<open>NotRequired\<close> -- with
  defaults of their type, a dict in which every key has a value of its hint and every
  required key one that is not \<open>None\<close> passes the check, whatever other keys it has.\<close>

theorem typed_callers_are_accepted:
  assumes "distinct (map fst hints)"
    and "\<forall>kh \<in> set hints. fst kh \<notin> set RuntimeParams \<longrightarrow> well_declared P req d kh"
  shows "checked_params P (params_from_typeddict P hints req) d = Inr (apply_defaults (params_from_typeddict P hints req) d)"
proof -
  let ?ps = "params_from_typeddict P hints req"
  have "validate P p (dget_or (apply_defaults ?ps d) (p_name p) PNone) = None" if p: "p \<in> set ?ps" for p
  proof -
    obtain k h where kh: "(k, h) \<in> set hints" "derived_parameter P req (k, h) = Some p" using in_derived [OF p] by blast
    then have "k \<notin> set RuntimeParams" by (auto simp: derived_parameter_def split: if_splits)
    then have ok: "well_declared P req d (k, h)" using assms(2) kh(1) by fastforce
    note name = derived_name [OF kh(2)] and accepts = derived_accepts [OF kh(2)]
    have default: "default_of ?ps k = (if p_default p = PNone then None else Some (p_default p))"
      by (rule derived_default [OF assms(1) kh])
    have none: "validate P p PNone = None" if "k \<notin> set req" using that name by (simp add: validate_def)
    show ?thesis
    proof (cases "dget d k")
      case None
      then show ?thesis
        using ok name default none accepts by (auto simp: well_declared_def dget_or_def dget_apply_defaults)
    next
      case (Some v)
      then show ?thesis
        using ok name none accepts by (auto simp: well_declared_def dget_or_def dget_apply_defaults)
    qed
  qed
  then show ?thesis using validate_parameters_none by (simp add: checked_params_def)
qed

theorem typed_callers_are_accepted_witness:
  "checked_params plain_python (params_from_typeddict plain_python my_params [''env'']) [(''env'', PStr ''prod'')] =
     Inr (apply_defaults (params_from_typeddict plain_python my_params [''env'']) [(''env'', PStr ''prod'')])"
proof (rule typed_callers_are_accepted)
  show "distinct (map fst my_params)" by (simp add: my_params_def)
  show "\<forall>kh \<in> set my_params. fst kh \<notin> set RuntimeParams \<longrightarrow> well_declared plain_python [''env''] [(''env'', PStr ''prod'')] kh"
    by code_simp
qed

text \<open>A union of two classes becomes a string parameter, so an \<open>int | str\<close> parameter refuses an int.\<close>

lemma union_parameter_refuses_its_int:
  "checked_params plain_python (params_from_typeddict plain_python [(''n'', HUnion [HType TInt, HType TStr])] []) [(''n'', PInt 3)] =
     Inl [''Parameter '' @ quoted ''n'' @ '' must be string, got int'']"
  by code_simp

text \<open>Texts from the command line or a query string become the value they are the text of:
  an \<open>int\<close> parameter reads back every integer and a \<open>bool\<close> parameter both truth values.
  \<open>None\<close> becomes the parameter's default; any other value becomes one of the parameter's type
  or stays as it is -- but a \<open>dict\<close> parameter takes whatever JSON value its text holds.\<close>

theorem coerce_reads_texts_back:
  "coerce P (p\<lparr>p_type := TInt\<rparr>) (PStr (int_text i)) = PInt i \<and>
   coerce P (p\<lparr>p_type := TBool\<rparr>) (PStr (if b then ''True'' else ''False'')) = PBool b \<and>
   (case v of PNone \<Rightarrow> coerce P p v = p_default p
    | PStr s \<Rightarrow> check_type P (p_type p) (coerce P p v) \<or> coerce P p v = v \<or> (p_type p = TDict \<and> py_loads P s = Some (coerce P p v))
    | _ \<Rightarrow> check_type P (p_type p) (coerce P p v) \<or> coerce P p v = v)"
proof (intro conjI)
  show "coerce P (p\<lparr>p_type := TInt\<rparr>) (PStr (int_text i)) = PInt i"
    by (simp add: coerce_def py_int_text or_original_def)
  show "coerce P (p\<lparr>p_type := TBool\<rparr>) (PStr (if b then ''True'' else ''False'')) = PBool b"
  proof -
    have "lower ''True'' = ''true''" "lower ''False'' = ''false''" by code_simp+
    then show ?thesis by (cases b) (simp_all add: coerce_def coerce_bool_def)
  qed
  show "case v of PNone \<Rightarrow> coerce P p v = p_default p
    | PStr s \<Rightarrow> check_type P (p_type p) (coerce P p v) \<or> coerce P p v = v \<or> (p_type p = TDict \<and> py_loads P s = Some (coerce P p v))
    | _ \<Rightarrow> check_type P (p_type p) (coerce P p v) \<or> coerce P p v = v"
    by (cases v; cases "p_type p")
      (auto simp: coerce_def coerce_bool_def coerce_list_def or_original_def split: option.splits pyval.splits)
qed

end
