(* ===== verification/Pipelines.thy ===== *)
theory Pipelines
  imports Parameters Planner Schedules
begin

text \<open>
  Pipelines as objects: the checks of \<open>AbstractPipeline.__init__\<close> and of its metaclass, the
  registry they are registered in (\<open>core/registry.py\<close>), and \<open>resolve\<close>, which checks the
  params of a run and asks the pipeline for its jobs (\<open>core/abstract_pipeline.py\<close>), for a
  pipeline that works id by id too (\<open>core/id_based_pipeline.py\<close>). The user's hooks are fields
  of the pipeline: steps over the params dict they are given, which they may change. A dash in
  a message is the model's hyphen.
\<close>

subsection \<open>The registry\<close>

record 'p registry =
  rg_pipelines :: "(string \<times> 'p) list"
  rg_failures :: "(string \<times> string) list"

definition empty_registry :: "'p registry" where
  "empty_registry = \<lparr>rg_pipelines = [], rg_failures = []\<rparr>"

text \<open>\<open>d[k] = v\<close> for a dict of the registry.\<close>

fun put :: "(string \<times> 'v) list \<Rightarrow> string \<Rightarrow> 'v \<Rightarrow> (string \<times> 'v) list" where
  "put [] k v = [(k, v)]"
| "put ((k', v') # d) k v = (if k' = k then (k, v) # d else (k', v') # put d k v)"

definition record_failure :: "string \<Rightarrow> py_error \<Rightarrow> 'p registry \<Rightarrow> 'p registry" where
  "record_failure name e r = r\<lparr>rg_failures := put (rg_failures r) name (error_type e @ '': '' @ error_text e)\<rparr>"

definition describe_missing :: "'p registry \<Rightarrow> string \<Rightarrow> string" where
  "describe_missing r name = (case map_of (rg_failures r) name of
     None \<Rightarrow> []
   | Some reason \<Rightarrow> if reason = [] then [] else '' (it failed to register: '' @ reason @ '')'')"

definition register :: "string \<Rightarrow> 'p \<Rightarrow> 'p registry \<Rightarrow> 'p registry" where
  "register name p r =
     (if map_of (rg_pipelines r) name \<noteq> None then r else r\<lparr>rg_pipelines := rg_pipelines r @ [(name, p)]\<rparr>)"

definition registry_get :: "'p registry \<Rightarrow> string \<Rightarrow> 'p option" where
  "registry_get r name = map_of (rg_pipelines r) name"

definition list_all_pipelines :: "'p registry \<Rightarrow> 'p list" where
  "list_all_pipelines r = map snd (rg_pipelines r)"

definition list_names :: "'p registry \<Rightarrow> string list" where
  "list_names r = map fst (rg_pipelines r)"

definition registry_exists :: "'p registry \<Rightarrow> string \<Rightarrow> bool" where
  "registry_exists r name \<longleftrightarrow> map_of (rg_pipelines r) name \<noteq> None"

definition unregister :: "string \<Rightarrow> 'p registry \<Rightarrow> 'p registry \<times> bool" where
  "unregister name r =
     (if registry_exists r name then (r\<lparr>rg_pipelines := filter (\<lambda>(k, _). k \<noteq> name) (rg_pipelines r)\<rparr>, True) else (r, False))"

definition clear_registry :: "'p registry \<Rightarrow> 'p registry" where
  "clear_registry r = r\<lparr>rg_pipelines := [], rg_failures := []\<rparr>"

subsection \<open>Pipelines\<close>

datatype dedup_setting = DedupField string | DedupFunction | DedupOther string

text \<open>What \<open>define_source\<close> gives an id-based pipeline: a source, a list of records, or an object
  of another class.\<close>

datatype id_returned = IdSource base_source | IdRecords "pyval list" | IdOther string

text \<open>The plan is the user's \<open>define_jobs\<close> (for a plain pipeline by default its
  \<open>define_source\<close>; \<open>None\<close> for Python's \<open>None\<close>), or the id-based one around \<open>define_source\<close>.\<close>

datatype jobs_hook = OwnJobs "(pydict, plan_source option) step" | SourcePerIds "(pydict, id_returned) step"

record pipeline =
  pd_class :: string
  pd_name :: string
  pd_rate_limit :: "rat option"
  pd_config :: pydict
  pd_enable_duplicates :: bool
  pd_dedup_key :: "dedup_setting option"
  pd_on_invalid :: string
  pd_schedules :: "scheduled_run list"
  pd_params_type :: "((string \<times> hint) list \<times> string list) option"
  pd_own_parameters :: "parameter list option"
  pd_ids_batch_size :: "int option"
  pd_jobs :: jobs_hook
  pd_transformations :: "pydict \<Rightarrow> py_error + string list"

text \<open>\<open>croniter.is_valid\<close>, if croniter is installed, and \<open>repr\<close> of a text.\<close>

record class_env =
  ce_cron_valid :: "(string \<Rightarrow> bool) option"
  ce_repr :: "string \<Rightarrow> string"

fun validate_schedules :: "class_env \<Rightarrow> string \<Rightarrow> string list \<Rightarrow> scheduled_run list \<Rightarrow> py_error option" where
  "validate_schedules E pipeline_name seen [] = None"
| "validate_schedules E pipeline_name seen (r # rs) =
     (if sr_name r \<in> set seen
      then Some (ValueError (''Pipeline '' @ quoted pipeline_name @ '' has duplicate schedule name '' @ quoted (sr_name r) @
        '' - schedule names must be unique per pipeline.''))
      else if (case ce_cron_valid E of None \<Rightarrow> True | Some valid \<Rightarrow> valid (sr_cron r))
      then validate_schedules E pipeline_name (sr_name r # seen) rs
      else Some (ValueError (''Pipeline '' @ quoted pipeline_name @ '' schedule '' @ quoted (sr_name r) @
        '' has invalid cron expression: '' @ quoted (sr_cron r) @
        ''. (reflowfy uses 5-field cron: minute hour day month weekday)'')))"

text \<open>\<open>^[a-zA-Z0-9_-]+$\<close> with \<open>re.match\<close>, where \<open>$\<close> matches before a newline at the end, too.\<close>

definition name_char :: "char \<Rightarrow> bool" where
  "name_char c = (let n = (of_char c :: nat) in
     (97 \<le> n \<and> n \<le> 122) \<or> (65 \<le> n \<and> n \<le> 90) \<or> (48 \<le> n \<and> n \<le> 57) \<or> n = 95 \<or> n = 45)"

definition name_matches :: "string \<Rightarrow> bool" where
  "name_matches s =
     (let t = (if s \<noteq> [] \<and> last s = CHR 0x0A then butlast s else s) in t \<noteq> [] \<and> list_all name_char t)"

definition check_dedup :: "pipeline \<Rightarrow> py_error option" where
  "check_dedup p = (case pd_dedup_key p of
     None \<Rightarrow> None
   | Some (DedupOther r) \<Rightarrow> Some (ValueError (pd_class p @ ''.dedup_key must be a field name or a function of (record, runtime_params), got '' @ r))
   | Some _ \<Rightarrow>
       if pd_enable_duplicates p
       then Some (ValueError (pd_class p @ '' sets dedup_key but enable_duplicate_jobs is True, so nothing is deduplicated: set enable_duplicate_jobs = False''))
       else None)"

definition check_pipeline :: "class_env \<Rightarrow> pipeline \<Rightarrow> py_error option" where
  "check_pipeline E p =
     (case check_dedup p of
        Some e \<Rightarrow> Some e
      | None \<Rightarrow>
          if pd_on_invalid p \<notin> {''fail'', ''skip''}
          then Some (ValueError (pd_class p @ ''.on_invalid_record must be \"fail\" or \"skip\", got '' @ ce_repr E (pd_on_invalid p)))
          else if pd_name p = [] then Some (ValueError (pd_class p @ '' must define a '' @ quoted ''name'' @ '' attribute''))
          else if \<not> name_matches (pd_name p)
          then Some (ValueError (''Pipeline name '' @ quoted (pd_name p) @ '' must contain only alphanumeric characters, underscores, or hyphens''))
          else validate_schedules E (pd_name p) [] (pd_schedules p))"

text \<open>\<open>__init__\<close> with its arguments over the class's attributes.\<close>

definition init_pipeline ::
  "class_env \<Rightarrow> pipeline \<Rightarrow> rat option \<Rightarrow> pydict option \<Rightarrow> bool option \<Rightarrow> dedup_setting option \<Rightarrow> py_error + pipeline" where
  "init_pipeline E p rate_limit config enable_duplicate_jobs dedup_key =
     (let p1 = (case rate_limit of None \<Rightarrow> p | Some r \<Rightarrow> p\<lparr>pd_rate_limit := Some r\<rparr>);
          p2 = (case config of None \<Rightarrow> p1 | Some c \<Rightarrow> p1\<lparr>pd_config := c\<rparr>);
          p3 = (case enable_duplicate_jobs of None \<Rightarrow> p2 | Some b \<Rightarrow> p2\<lparr>pd_enable_duplicates := b\<rparr>);
          p4 = (case dedup_key of None \<Rightarrow> p3 | Some k \<Rightarrow> p3\<lparr>pd_dedup_key := Some k\<rparr>)
      in case check_pipeline E p4 of Some e \<Rightarrow> Inl e | None \<Rightarrow> Inr p4)"

text \<open>A class statement: its own \<open>name\<close> and \<open>schedules\<close> (empty when absent), and what \<open>cls()\<close>
  hands to \<open>AbstractPipeline.__init__\<close> -- or raises before, in an \<open>__init__\<close> of its own or
  because an abstract method is missing.\<close>

record class_statement =
  cs_class :: string
  cs_name :: "string option"
  cs_schedules :: "scheduled_run list"
  cs_instance :: "py_error + pipeline \<times> rat option \<times> pydict option \<times> bool option \<times> dedup_setting option"

definition construct_pipeline :: "class_env \<Rightarrow> class_statement \<Rightarrow> py_error + pipeline" where
  "construct_pipeline E c = (case cs_instance c of
     Inl e \<Rightarrow> Inl e
   | Inr (p, rate_limit, config, dups, key) \<Rightarrow> init_pipeline E p rate_limit config dups key)"

text \<open>\<open>PipelineMeta.__new__\<close>: \<open>Inl\<close> ends the import of the module.\<close>

definition define_class :: "class_env \<Rightarrow> class_statement \<Rightarrow> pipeline registry \<Rightarrow> py_error + pipeline registry" where
  "define_class E c r =
     (case validate_schedules E (case cs_name c of None \<Rightarrow> cs_class c | Some n \<Rightarrow> n) [] (cs_schedules c) of
        Some e \<Rightarrow> Inl e
      | None \<Rightarrow>
          case cs_name c of
            None \<Rightarrow> Inr r
          | Some name \<Rightarrow>
              if name = [] then Inr r
              else case construct_pipeline E c of
                Inr p \<Rightarrow> Inr (register (pd_name p) p r)
              | Inl e \<Rightarrow> if is_exception e then Inr (record_failure name e r) else Inl e)"

text \<open>A module is its class statements, in order; a module that raises leaves what it has registered so far.\<close>

fun import_module :: "class_env \<Rightarrow> class_statement list \<Rightarrow> pipeline registry \<Rightarrow> py_error option \<times> pipeline registry" where
  "import_module E [] r = (None, r)"
| "import_module E (c # cs) r = (case define_class E c r of Inl e \<Rightarrow> (Some e, r) | Inr r' \<Rightarrow> import_module E cs r')"

text \<open>Discovery (\<open>core/pipeline_discovery.py\<close>) imports module after module, whatever one raises,
  and counts the modules it loaded (no module exits the process).\<close>

fun load_modules :: "class_env \<Rightarrow> class_statement list list \<Rightarrow> pipeline registry \<Rightarrow> nat \<times> pipeline registry" where
  "load_modules E [] r = (0, r)"
| "load_modules E (m # ms) r =
     (case import_module E m r of (e, r') \<Rightarrow>
        case load_modules E ms r' of (n, r'') \<Rightarrow> (if e = None then n + 1 else n, r''))"

subsection \<open>Parameters of a pipeline\<close>

definition define_parameters :: "python \<Rightarrow> pipeline \<Rightarrow> parameter list" where
  "define_parameters P p = (case pd_own_parameters p of
     Some ps \<Rightarrow> ps
   | None \<Rightarrow> (case pd_params_type p of None \<Rightarrow> [] | Some (hints, required) \<Rightarrow> params_from_typeddict P hints required))"

definition ids_parameter :: parameter where
  "ids_parameter = \<lparr>p_name = ''input_ids'',
     p_description = ''List of IDs to process. Each ID triggers a separate source resolution.'',
     p_required = True, p_type = TList, p_default = PNone, p_choices = None\<rparr>"

definition get_all_parameters :: "python \<Rightarrow> pipeline \<Rightarrow> py_error + parameter list" where
  "get_all_parameters P p =
     (let user_params = define_parameters P p in
      if pd_ids_batch_size p = None then Inr user_params
      else if ''input_ids'' \<in> p_name ` set user_params
      then Inl (ValueError (''Pipeline '' @ quoted (pd_name p) @ '': Do not define '' @ quoted ''input_ids'' @
        '' in define_parameters(). It is automatically injected by IdBasedPipeline.''))
      else Inr (ids_parameter # user_params))"

text \<open>\<open>validate_parameters\<close>, with the id-based pipeline's own checks.\<close>

definition ids_errors :: "pipeline \<Rightarrow> pydict \<Rightarrow> string list" where
  "ids_errors p params =
     (if pd_ids_batch_size p = None then []
      else case dget_or params ''input_ids'' PNone of
        PNone \<Rightarrow> []
      | PList id_list \<Rightarrow> if id_list = [] then [''Parameter '' @ quoted ''input_ids'' @ '' must not be empty''] else []
      | _ \<Rightarrow> [''Parameter '' @ quoted ''input_ids'' @ '' must be a list''])"

definition parameter_errors :: "python \<Rightarrow> pipeline \<Rightarrow> parameter list \<Rightarrow> pydict \<Rightarrow> string list" where
  "parameter_errors P p ps params = validate_parameters P ps params @ ids_errors p params"

subsection \<open>Planning by ids\<close>

text \<open>\<open>resolve_source\<close>; \<open>resolve_for_ids\<close> gives the source and the params of its batch.\<close>

definition resolve_source :: "string \<Rightarrow> (pydict, id_returned) step \<Rightarrow> (pydict, base_source) step" where
  "resolve_source pipeline_name hook =
     bind_step hook (\<lambda>r. case r of
       IdSource b \<Rightarrow> return_step b
     | IdRecords rs \<Rightarrow> return_step \<lparr>bs_split = static_split (StaticSource rs), bs_params = None\<rparr>
     | IdOther t \<Rightarrow> raise_step (TypeError (''Pipeline '' @ quoted pipeline_name @
         '': define_source must return a BaseSource or a list of records, got '' @ t)))"

definition batch_params :: "pydict \<Rightarrow> pyval list \<Rightarrow> pydict" where
  "batch_params runtime_params id_list =
     dset (dset runtime_params ''current_ids'' (PList id_list)) ''current_id'' (case id_list of [] \<Rightarrow> PNone | i # _ \<Rightarrow> i)"

definition resolve_for_ids ::
  "string \<Rightarrow> (pydict, id_returned) step \<Rightarrow> pydict \<Rightarrow> pyval list \<Rightarrow> py_error + base_source \<times> pydict" where
  "resolve_for_ids pipeline_name hook runtime_params id_list =
     (case resolve_source pipeline_name hook (batch_params runtime_params id_list) of
        (Inl e, _) \<Rightarrow> Inl e | (Inr b, params) \<Rightarrow> Inr (b, params))"

fun id_jobs :: "string \<Rightarrow> (pydict, id_returned) step \<Rightarrow> pydict \<Rightarrow> pyval list list \<Rightarrow> plan_item list \<times> py_error option" where
  "id_jobs pipeline_name hook runtime_params [] = ([], None)"
| "id_jobs pipeline_name hook runtime_params (id_list # batches) =
     (case resolve_for_ids pipeline_name hook runtime_params id_list of
        Inl e \<Rightarrow> ([], Some e)
      | Inr (b, params) \<Rightarrow>
          (case id_jobs pipeline_name hook runtime_params batches of (is, e) \<Rightarrow>
             (ItemSource (b\<lparr>bs_params := Some (dfilter (\<lambda>k. k \<noteq> ''input_ids'') params)\<rparr>) # is, e)))"

text \<open>\<open>IdBasedPipeline.define_jobs\<close>, a generator: whatever it raises ends the plan. The params
  checked before it have a list under \<open>input_ids\<close>.\<close>

definition id_define_jobs :: "pipeline \<Rightarrow> (pydict, id_returned) step \<Rightarrow> pydict \<Rightarrow> plan_source" where
  "id_define_jobs p hook runtime_params =
     (let id_list = (case dget_or runtime_params ''input_ids'' (PList []) of PList id_list \<Rightarrow> id_list | _ \<Rightarrow> []) in
      case chunk id_list (case pd_ids_batch_size p of None \<Rightarrow> 1 | Some n \<Rightarrow> n) of
        Inl e \<Rightarrow> Iterable [] (Some e)
      | Inr batches \<Rightarrow> (case id_jobs (pd_name p) hook runtime_params batches of (is, e) \<Rightarrow> Iterable is e))"

definition define_jobs :: "pipeline \<Rightarrow> (pydict, plan_source option) step" where
  "define_jobs p = (case pd_jobs p of
     OwnJobs hook \<Rightarrow> hook
   | SourcePerIds hook \<Rightarrow> read_step (\<lambda>params. Some (id_define_jobs p hook params)))"

subsection \<open>resolve\<close>

text \<open>The params of the run, as \<open>define_jobs\<close> left them, and the source.\<close>

definition resolve :: "python \<Rightarrow> pipeline \<Rightarrow> pydict \<Rightarrow> py_error + pydict \<times> plan_source option" where
  "resolve P p runtime_params =
     (case get_all_parameters P p of
        Inl e \<Rightarrow> Inl e
      | Inr ps \<Rightarrow>
          (let params = apply_defaults ps runtime_params; errors = parameter_errors P p ps params in
           if errors \<noteq> [] then Inl (ValueError (''Invalid parameters: '' @ join ''; '' errors))
           else case define_jobs p params of
             (Inl e, _) \<Rightarrow> Inl (step_error ''define_jobs'' (pd_name p) e)
           | (Inr src, params') \<Rightarrow> Inr (params', src)))"

definition resolved_source :: "plan_source option \<Rightarrow> py_error + plan_source" where
  "resolved_source src = (case src of
     None \<Rightarrow> Inl (RuntimeError ''Pipeline not resolved. Call pipeline.resolve(runtime_params) before execution.'')
   | Some s \<Rightarrow> Inr s)"

text \<open>The pipeline as the planner uses it. (Between \<open>resolve\<close> and the look at \<open>source\<close> the
  planner marks the execution running; a missing source fails it there.)\<close>

definition plan_pipeline_of :: "python \<Rightarrow> pipeline \<Rightarrow> plan_pipeline" where
  "plan_pipeline_of P p =
     \<lparr>pp_resolve = (\<lambda>runtime_params. case resolve P p runtime_params of
          Inl e \<Rightarrow> Inl e
        | Inr (params, src) \<Rightarrow> (case resolved_source src of Inl e \<Rightarrow> Inl e | Inr s \<Rightarrow> Inr (params, s))),
      pp_rate_limit = pd_rate_limit p, pp_enable_duplicates = pd_enable_duplicates p,
      pp_id_based = (pd_ids_batch_size p \<noteq> None)\<rparr>"

subsection \<open>Metadata\<close>

definition get_transformation_names :: "pipeline \<Rightarrow> py_error + string list" where
  "get_transformation_names p =
     (case pd_transformations p (if pd_ids_batch_size p = None then []
         else [(''current_ids'', PList [PStr ''__discovery__'']), (''current_id'', PStr ''__discovery__'')]) of
        Inr names \<Rightarrow> Inr names
      | Inl e \<Rightarrow> if is_exception e then Inr [] else Inl e)"

definition pipeline_to_dict :: "python \<Rightarrow> pipeline \<Rightarrow> py_error + pydict" where
  "pipeline_to_dict P p =
     (case get_all_parameters P p of
        Inl e \<Rightarrow> Inl e
      | Inr ps \<Rightarrow>
          (case get_transformation_names p of
             Inl e \<Rightarrow> Inl e
           | Inr names \<Rightarrow> Inr
              ([(''name'', PStr (pd_name p)), (''parameters'', PList (map (PDict \<circ> param_to_dict) ps)),
                (''rate_limit'', case pd_rate_limit p of None \<Rightarrow> PNone | Some r \<Rightarrow> PFloat r),
                (''config'', PDict (pd_config p)), (''transformations'', PList (map PStr names)),
                (''enable_duplicate_jobs'', PBool (pd_enable_duplicates p)),
                (''dedup_key'', case pd_dedup_key p of None \<Rightarrow> PNone | Some (DedupField k) \<Rightarrow> PStr k | Some _ \<Rightarrow> PStr ''<callable>''),
                (''schedules'', PList (map (\<lambda>r. PDict [(''name'', PStr (sr_name r)), (''cron'', PStr (sr_cron r)),
                   (''params'', PDict (sr_params r))]) (pd_schedules p))),
                (''is_scheduled'', PBool (pd_schedules p \<noteq> []))] @
               (case pd_ids_batch_size p of None \<Rightarrow> []
                | Some n \<Rightarrow> [(''type'', PStr ''id_based''), (''ids_batch_size'', PInt n)]))))"

section \<open>The registry after discovery\<close>

lemma map_of_put [simp]: "map_of (put d k v) k' = (if k' = k then Some v else map_of d k')"
  by (induction d k v rule: put.induct) auto

definition registry_ok :: "class_env \<Rightarrow> pipeline registry \<Rightarrow> bool" where
  "registry_ok E r \<longleftrightarrow> distinct (list_names r) \<and>
     (\<forall>(n, p) \<in> set (rg_pipelines r). n = pd_name p \<and> check_pipeline E p = None)"

lemma construct_valid: "construct_pipeline E c = Inr p \<Longrightarrow> check_pipeline E p = None"
  by (auto simp: construct_pipeline_def init_pipeline_def Let_def split: sum.splits option.splits)

lemma register_ok: "registry_ok E r \<Longrightarrow> check_pipeline E p = None \<Longrightarrow> registry_ok E (register (pd_name p) p r)"
  by (auto simp: registry_ok_def register_def list_names_def map_of_eq_None_iff)

lemma define_class_ok: "registry_ok E r \<Longrightarrow> define_class E c r = Inr r' \<Longrightarrow> registry_ok E r'"
  by (auto simp: define_class_def record_failure_def registry_ok_def [of E "r\<lparr>rg_failures := _\<rparr>"] list_names_def
      intro!: register_ok dest: construct_valid split: option.splits if_splits sum.splits)
    (auto simp: registry_ok_def list_names_def)

lemma import_module_ok: "registry_ok E r \<Longrightarrow> registry_ok E (snd (import_module E cs r))"
  by (induction E cs r rule: import_module.induct) (auto dest: define_class_ok split: sum.splits)

lemma load_modules_ok: "registry_ok E r \<Longrightarrow> registry_ok E (snd (load_modules E ms r))"
proof (induction E ms r rule: load_modules.induct)
  case (2 E m ms r)
  obtain e r' where i: "import_module E m r = (e, r')" by (cases "import_module E m r")
  then have "registry_ok E r'" using import_module_ok [OF 2(2), of m] by simp
  then show ?case using 2(1) [OF i [symmetric]] i by (cases "load_modules E ms r'") simp
qed simp

lemma validate_schedules_None:
  "validate_schedules E n seen rs = None \<longleftrightarrow>
     distinct (map sr_name rs) \<and> set (map sr_name rs) \<inter> set seen = {} \<and>
     (\<forall>r \<in> set rs. case ce_cron_valid E of None \<Rightarrow> True | Some valid \<Rightarrow> valid (sr_cron r))"
  by (induction E n seen rs rule: validate_schedules.induct) (auto split: option.splits)

lemma check_pipeline_None:
  "check_pipeline E p = None \<longleftrightarrow>
     (pd_dedup_key p = None \<or> (\<forall>t. pd_dedup_key p \<noteq> Some (DedupOther t)) \<and> \<not> pd_enable_duplicates p) \<and>
     pd_on_invalid p \<in> {''fail'', ''skip''} \<and> name_matches (pd_name p) \<and> distinct (map sr_name (pd_schedules p)) \<and>
     (\<forall>s \<in> set (pd_schedules p). case ce_cron_valid E of None \<Rightarrow> True | Some valid \<Rightarrow> valid (sr_cron s))"
proof -
  have "\<not> name_matches []" by (simp add: name_matches_def)
  then show ?thesis
    by (cases "pd_dedup_key p"; cases "pd_name p = []"; cases "the (pd_dedup_key p)")
      (simp_all add: check_pipeline_def check_dedup_def validate_schedules_None del: insert_iff)
qed

lemma declared_keys_distinct:
  "distinct (map fst ps) \<Longrightarrow> (\<forall>(p, rs) \<in> set ps. distinct (map sr_name rs)) \<Longrightarrow> distinct (declared_keys ps)"
proof (induction ps)
  case (Cons q ps)
  obtain p rs where q: "q = (p, rs)" by (cases q)
  have keys: "declared_keys (q # ps) = map (Pair p) (map sr_name rs) @ declared_keys ps"
    by (simp add: declared_keys_def declared_runs_def q comp_def)
  have "(p, s) \<notin> set (declared_keys ps)" for s
    using Cons.prems(1) by (auto simp: declared_keys_def declared_runs_def q image_iff)
  moreover have "distinct (map (Pair p) (map sr_name rs))"
    using Cons.prems(2) unfolding q by (subst distinct_map) (simp add: inj_on_def)
  ultimately show ?case using Cons by (auto simp: keys)
qed (simp add: declared_keys_def declared_runs_def)

definition declared_of :: "pipeline registry \<Rightarrow> declared" where
  "declared_of r = map (\<lambda>p. (pd_name p, pd_schedules p)) (list_all_pipelines r)"

text \<open>Whatever the modules of a project hold -- classes that cannot be constructed, wrong
  schedules, duplicate names --, what discovery leaves in the registry is usable: names are
  unique and made of the allowed characters (a newline at the end slips through), every
  registered pipeline passed the checks of its constructor, every cron expression is valid
  where croniter is installed, and no two schedules of the registry share a key, which is what
  the synchronisation of the schedule table relies on.\<close>

theorem registered_pipelines_are_valid:
  "case load_modules E ms empty_registry of (n, r) \<Rightarrow>
     n \<le> length ms \<and> distinct (list_names r) \<and> list_names r = map pd_name (list_all_pipelines r) \<and>
     distinct (declared_keys (declared_of r)) \<and>
     list_all (\<lambda>p. name_matches (pd_name p) \<and> pd_on_invalid p \<in> {''fail'', ''skip''} \<and>
        \<not> (pd_dedup_key p \<noteq> None \<and> pd_enable_duplicates p) \<and>
        list_all (\<lambda>s. case ce_cron_valid E of None \<Rightarrow> True | Some valid \<Rightarrow> valid (sr_cron s)) (pd_schedules p))
       (list_all_pipelines r)"
proof -
  obtain n r where l: "load_modules E ms empty_registry = (n, r)" by (cases "load_modules E ms empty_registry")
  have "registry_ok E empty_registry" by (simp add: registry_ok_def empty_registry_def list_names_def)
  from load_modules_ok [OF this, of ms] have ok: "registry_ok E r" by (simp add: l)
  have count: "fst (load_modules E ms r0) \<le> length ms" for r0
    by (induction E ms r0 rule: load_modules.induct) (auto split: prod.splits)
  have names: "list_names r = map pd_name (list_all_pipelines r)"
    using ok by (auto simp: registry_ok_def list_names_def list_all_pipelines_def)
  have valid: "check_pipeline E p = None" if "p \<in> set (list_all_pipelines r)" for p
    using ok that by (auto simp: registry_ok_def list_all_pipelines_def)
  then have "distinct (declared_keys (declared_of r))"
    using ok names
    by (intro declared_keys_distinct)
      (auto simp: declared_of_def registry_ok_def comp_def check_pipeline_None simp del: insert_iff)
  moreover have "name_matches (pd_name p) \<and> pd_on_invalid p \<in> {''fail'', ''skip''} \<and>
      \<not> (pd_dedup_key p \<noteq> None \<and> pd_enable_duplicates p) \<and>
      list_all (\<lambda>s. case ce_cron_valid E of None \<Rightarrow> True | Some valid \<Rightarrow> valid (sr_cron s)) (pd_schedules p)"
    if "p \<in> set (list_all_pipelines r)" for p
    using valid [OF that] unfolding check_pipeline_None list_all_iff by (elim conjE disjE) (simp_all del: insert_iff)
  then have "list_all (\<lambda>p. name_matches (pd_name p) \<and> pd_on_invalid p \<in> {''fail'', ''skip''} \<and>
        \<not> (pd_dedup_key p \<noteq> None \<and> pd_enable_duplicates p) \<and>
        list_all (\<lambda>s. case ce_cron_valid E of None \<Rightarrow> True | Some valid \<Rightarrow> valid (sr_cron s)) (pd_schedules p))
       (list_all_pipelines r)"
    unfolding list_all_iff [of _ "list_all_pipelines r"] by blast
  ultimately show ?thesis
    using ok names count [of empty_registry] unfolding l by (simp add: registry_ok_def)
qed

subsection \<open>Which pipelines are there\<close>

text \<open>A class statement ends its module, constructs the pipeline it names, or fails to.\<close>

definition ends_module :: "class_env \<Rightarrow> class_statement \<Rightarrow> bool" where
  "ends_module E c \<longleftrightarrow>
     validate_schedules E (case cs_name c of None \<Rightarrow> cs_class c | Some n \<Rightarrow> n) [] (cs_schedules c) \<noteq> None \<or>
     cs_name c \<noteq> None \<and> cs_name c \<noteq> Some [] \<and> construct_pipeline E c = Inl Interrupted"

definition named :: "class_statement \<Rightarrow> bool" where
  "named c \<longleftrightarrow> cs_name c \<noteq> None \<and> cs_name c \<noteq> Some []"

definition constructed :: "class_env \<Rightarrow> class_statement \<Rightarrow> pipeline option" where
  "constructed E c = (if named c then (case construct_pipeline E c of Inl e \<Rightarrow> None | Inr p \<Rightarrow> Some p) else None)"

definition failure :: "class_env \<Rightarrow> class_statement \<Rightarrow> (string \<times> string) option" where
  "failure E c = (if named c then (case construct_pipeline E c of
     Inl e \<Rightarrow> Some (the (cs_name c), error_type e @ '': '' @ error_text e) | Inr p \<Rightarrow> None) else None)"

definition reached :: "class_env \<Rightarrow> class_statement list list \<Rightarrow> class_statement list" where
  "reached E ms = concat (map (takeWhile (\<lambda>c. \<not> ends_module E c)) ms)"

definition with_class :: "class_env \<Rightarrow> class_statement \<Rightarrow> pipeline registry \<Rightarrow> pipeline registry" where
  "with_class E c r = (case constructed E c of
     Some p \<Rightarrow> register (pd_name p) p r
   | None \<Rightarrow> (case failure E c of None \<Rightarrow> r | Some (n, t) \<Rightarrow> r\<lparr>rg_failures := put (rg_failures r) n t\<rparr>))"

lemma define_class_cases:
  "if ends_module E c then isl (define_class E c r) else define_class E c r = Inr (with_class E c r)"
  by (auto simp: ends_module_def define_class_def with_class_def constructed_def failure_def named_def is_exception_def
      record_failure_def split: option.splits sum.splits)

lemma import_module_fold:
  "import_module E cs r = (e, r') \<Longrightarrow>
   r' = fold (with_class E) (takeWhile (\<lambda>c. \<not> ends_module E c) cs) r \<and> (e = None \<longleftrightarrow> list_all (\<lambda>c. \<not> ends_module E c) cs)"
proof (induction E cs r arbitrary: e r' rule: import_module.induct)
  case (2 E c cs r)
  show ?case
  proof (cases "ends_module E c")
    case True
    then obtain x where "define_class E c r = Inl x" using define_class_cases [of E c r] by (auto simp: isl_def)
    then show ?thesis using 2(2) True by auto
  next
    case False
    then have d: "define_class E c r = Inr (with_class E c r)" using define_class_cases [of E c r] by simp
    then show ?thesis using 2(1) [OF d] 2(2) False by simp
  qed
qed simp

lemma load_modules_fold:
  "load_modules E ms r = (length (filter (list_all (\<lambda>c. \<not> ends_module E c)) ms), fold (with_class E) (reached E ms) r)"
proof (induction E ms r rule: load_modules.induct)
  case (2 E m ms r)
  obtain e r' where i: "import_module E m r = (e, r')" by (cases "import_module E m r")
  note f = import_module_fold [OF i]
  show ?case using 2 [OF i [symmetric]] i f by (simp add: reached_def)
qed (simp add: reached_def)

lemma get_with_class:
  "registry_get (with_class E c r) n =
     (case registry_get r n of Some p \<Rightarrow> Some p
      | None \<Rightarrow> (case constructed E c of Some p \<Rightarrow> if pd_name p = n then Some p else None | None \<Rightarrow> None))"
  by (auto simp: with_class_def registry_get_def register_def map_add_def split: option.splits)

lemma get_fold:
  "registry_get (fold (with_class E) cs r) n =
     (case registry_get r n of Some p \<Rightarrow> Some p
      | None \<Rightarrow> List.find (\<lambda>p. pd_name p = n) (List.map_filter (constructed E) cs))"
  by (induction cs arbitrary: r) (auto simp: get_with_class List.map_filter_simps split: option.splits)

lemma failures_with_class:
  "map_of (rg_failures (with_class E c r)) n =
     (case failure E c of Some (m, t) \<Rightarrow> if m = n then Some t else map_of (rg_failures r) n | None \<Rightarrow> map_of (rg_failures r) n)"
  by (auto simp: with_class_def constructed_def failure_def register_def split: option.splits sum.splits)

lemma failures_fold:
  "map_of (rg_failures (fold (with_class E) cs r)) n =
     (case map_of (rev (List.map_filter (failure E) cs)) n of Some t \<Rightarrow> Some t | None \<Rightarrow> map_of (rg_failures r) n)"
proof (induction cs arbitrary: r)
  case (Cons c cs)
  show ?case
    by (simp add: Cons failures_with_class List.map_filter_simps map_add_def split: option.splits)
qed (simp add: List.map_filter_simps)


subsection \<open>The plan of an id-based pipeline\<close>

text \<open>The jobs of one batch: the source \<open>define_source\<close> gives for the execution's params with
  this batch's ids, split; each job carries the batch's params without \<open>input_ids\<close>. Batches
  follow each other until the first error.\<close>

definition batch_jobs :: "pipeline \<Rightarrow> (pydict, id_returned) step \<Rightarrow> pydict \<Rightarrow> pyval list \<Rightarrow> planned" where
  "batch_jobs p hook params b =
     (case resolve_for_ids (pd_name p) hook params b of
        Inl e \<Rightarrow> ([], Some e)
      | Inr (src, bp) \<Rightarrow>
          (case bs_split src params of
             (ss, e) \<Rightarrow> (map (inherit_params (Some (dfilter (\<lambda>k. k \<noteq> ''input_ids'') bp))) ss, e)))"

fun until_error :: "planned list \<Rightarrow> planned" where
  "until_error [] = ([], None)"
| "until_error ((ss, Some e) # ps) = (ss, Some e)"
| "until_error ((ss, None) # ps) = (case until_error ps of (ts, e) \<Rightarrow> (ss @ ts, e))"

lemma item_slices_id_jobs:
  "(case id_jobs (pd_name p) hook params bs of (is, e) \<Rightarrow> item_slices params is e) = until_error (map (batch_jobs p hook params) bs)"
proof (induction bs)
  case (Cons b bs)
  show ?case
  proof (cases "resolve_for_ids (pd_name p) hook params b")
    case (Inr sp)
    obtain src bp where sp: "sp = (src, bp)" by (cases sp)
    obtain ss e where ss: "bs_split src params = (ss, e)" by (cases "bs_split src params")
    obtain items e' where r: "id_jobs (pd_name p) hook params bs = (items, e')" by (cases "id_jobs (pd_name p) hook params bs")
    show ?thesis using Cons by (cases e) (simp_all add: Inr sp ss r split_slices_def batch_jobs_def split: prod.splits)
  qed (simp add: batch_jobs_def)
qed simp

lemma until_error_member: "s \<in> set (fst (until_error ps)) \<Longrightarrow> \<exists>q \<in> set ps. s \<in> set (fst q)"
  by (induction ps rule: until_error.induct) (auto split: prod.splits)

text \<open>Hooks that leave the ids of their batch alone, and sources whose parts have no params of their own.\<close>

definition keeps_ids :: "(pydict, id_returned) step \<Rightarrow> pydict \<Rightarrow> pyval list \<Rightarrow> bool" where
  "keeps_ids hook params b \<longleftrightarrow>
     (case hook (batch_params params b) of (r, bp) \<Rightarrow>
        dget bp ''current_ids'' = Some (PList b) \<and> dget bp ''current_id'' = Some (case b of [] \<Rightarrow> PNone | i # _ \<Rightarrow> i) \<and>
        (case r of Inr (IdSource src) \<Rightarrow> \<forall>s \<in> set (fst (bs_split src params)). sl_params s = None | _ \<Rightarrow> True))"

lemma resolve_source_params: "resolve_source n hook bp = (r, bp') \<Longrightarrow> \<exists>r'. hook bp = (r', bp')"
  by (auto simp: resolve_source_def bind_step_def split: prod.splits sum.splits id_returned.splits)

lemma resolve_source_plain:
  assumes "keeps_ids hook params b" and "resolve_source n hook (batch_params params b) = (Inr src, bp)"
  shows "\<forall>s \<in> set (fst (bs_split src params)). sl_params s = None"
  using assms
  by (auto simp: keeps_ids_def resolve_source_def bind_step_def static_split_def StaticSource_def
      split: prod.splits sum.splits id_returned.splits if_splits)

lemma batch_jobs_params:
  assumes "keeps_ids hook params b" and "s \<in> set (fst (batch_jobs p hook params b))"
  shows "\<exists>q. sl_params s = Some q \<and> dget q ''input_ids'' = None \<and> dget q ''current_ids'' = Some (PList b) \<and>
    dget q ''current_id'' = Some (case b of [] \<Rightarrow> PNone | i # _ \<Rightarrow> i)"
proof -
  obtain r bp where r: "resolve_source (pd_name p) hook (batch_params params b) = (r, bp)"
    by (cases "resolve_source (pd_name p) hook (batch_params params b)")
  obtain src where src: "r = Inr src" using assms(2) r by (cases r) (auto simp: batch_jobs_def resolve_for_ids_def)
  obtain t where t: "t \<in> set (fst (bs_split src params))" "s = inherit_params (Some (dfilter (\<lambda>k. k \<noteq> ''input_ids'') bp)) t"
    using assms(2) r src by (auto simp: batch_jobs_def resolve_for_ids_def split: prod.splits)
  have "sl_params t = None" using resolve_source_plain [OF assms(1) r [unfolded src]] t(1) by blast
  moreover obtain r' where "hook (batch_params params b) = (r', bp)" using resolve_source_params [OF r] by blast
  ultimately show ?thesis using assms(1) t(2) by (simp add: inherit_params_def keeps_ids_def)
qed

lemma merged_without:
  "k \<notin> set (dkeys d) \<Longrightarrow> (\<And>q. sl_params s = Some q \<Longrightarrow> dget q k = None) \<Longrightarrow> dget (merged_params d s) k = None"
  by (auto simp: merged_params_def dget_None_iff split: option.splits)

lemma resolve_ids:
  assumes "resolve P p user = Inr (params, src)" and "pd_jobs p = SourcePerIds hook" and "pd_ids_batch_size p = Some n"
  obtains id_list where "dget params ''input_ids'' = Some (PList id_list)" and "id_list \<noteq> []"
    and "src = Some (id_define_jobs p hook params)"
proof -
  obtain ps where ps: "get_all_parameters P p = Inr ps" and errors: "parameter_errors P p ps params = []"
    and src: "src = Some (id_define_jobs p hook params)"
    using assms by (auto simp: resolve_def Let_def define_jobs_def split: sum.splits if_splits)
  have "ids_parameter \<in> set ps" using ps assms(3) by (auto simp: get_all_parameters_def Let_def split: if_splits)
  moreover have "validate_parameters P ps params = []" "ids_errors p params = []"
    using errors by (simp_all add: parameter_errors_def)
  ultimately have "(dget_or params (p_name ids_parameter) PNone = PNone \<and> \<not> p_required ids_parameter) \<or>
      check_type P (p_type ids_parameter) (dget_or params (p_name ids_parameter) PNone)"
    using validate_parameters_ok by blast
  then have "check_type P TList (dget_or params ''input_ids'' PNone)" by (simp add: ids_parameter_def)
  then obtain id_list where l: "dget_or params ''input_ids'' PNone = PList id_list"
    by (cases "dget_or params ''input_ids'' PNone") simp_all
  moreover have "id_list \<noteq> []"
    using \<open>ids_errors p params = []\<close> assms(3) l by (simp add: ids_errors_def split: if_splits)
  ultimately show thesis using that src by (auto simp: dget_or_def split: option.splits)
qed

text \<open>C13: an id-based run works on every id exactly once. When the params are accepted, the ids
  the caller gave are cut into batches of at most the pipeline's batch size, in order, none
  lost or repeated; the plan is what the pipeline's source gives for each batch, batch after
  batch until the first error, and no batch sees what \<open>define_source\<close> wrote into the params
  of another. Every job carries the ids of its own batch, and not the whole list of ids.\<close>

theorem each_id_is_planned_once:
  assumes "resolve P p user = Inr (params, src)" and "pd_jobs p = SourcePerIds hook"
    and "pd_ids_batch_size p = Some n" and "1 \<le> n" and "\<And>b. keeps_ids hook params b"
  shows "\<exists>batches plan. dget params ''input_ids'' = Some (PList (concat batches)) \<and> batches \<noteq> [] \<and>
    (\<forall>b \<in> set batches. b \<noteq> [] \<and> int (length b) \<le> n) \<and> src = Some plan \<and>
    plan_slices plan params = until_error (map (batch_jobs p hook params) batches) \<and>
    (\<forall>s \<in> set (fst (plan_slices plan params)). \<exists>b \<in> set batches. \<exists>q. sl_params s = Some q \<and>
       dget q ''current_ids'' = Some (PList b) \<and> dget q ''current_id'' = Some (hd b) \<and>
       dget (merged_params (dfilter (\<lambda>k. k \<noteq> ''input_ids'') params) s) ''input_ids'' = None)"
proof -
  obtain id_list where i: "dget params ''input_ids'' = Some (PList id_list)" "id_list \<noteq> []"
    and src: "src = Some (id_define_jobs p hook params)"
    using resolve_ids [OF assms(1-3)] by blast
  define batches where "batches = chunks (nat n) id_list"
  have c: "chunk id_list n = Inr batches" using assms(4) by (simp add: chunk_def batches_def)
  have cat: "concat batches = id_list" using assms(4) by (simp add: batches_def)
  then have ne: "batches \<noteq> []" using i(2) by auto
  have pieces: "b \<noteq> [] \<and> int (length b) \<le> n" if "b \<in> set batches" for b
    using chunks_pieces [of b "nat n" id_list] that assms(4) by (auto simp: batches_def)
  have plan: "plan_slices (id_define_jobs p hook params) params = until_error (map (batch_jobs p hook params) batches)"
    using item_slices_id_jobs [where p = p and hook = hook and params = params and bs = batches]
    by (simp add: id_define_jobs_def assms(3) dget_or_def i(1) c plan_slices_def split: prod.splits)
  have jobs: "\<exists>b \<in> set batches. \<exists>q. sl_params s = Some q \<and> dget q ''current_ids'' = Some (PList b) \<and>
      dget q ''current_id'' = Some (hd b) \<and> dget (merged_params (dfilter (\<lambda>k. k \<noteq> ''input_ids'') params) s) ''input_ids'' = None"
    if s: "s \<in> set (fst (plan_slices (id_define_jobs p hook params) params))" for s
  proof -
    obtain b where b: "b \<in> set batches" "s \<in> set (fst (batch_jobs p hook params b))"
      using until_error_member [OF s [unfolded plan]] by auto
    obtain q where q: "sl_params s = Some q" "dget q ''input_ids'' = None" "dget q ''current_ids'' = Some (PList b)"
      "dget q ''current_id'' = Some (case b of [] \<Rightarrow> PNone | i # _ \<Rightarrow> i)"
      using batch_jobs_params [OF assms(5) b(2)] by blast
    have "dget q ''current_id'' = Some (hd b)" using q(4) pieces [OF b(1)] by (cases b) simp_all
    moreover have "dget (merged_params (dfilter (\<lambda>k. k \<noteq> ''input_ids'') params) s) ''input_ids'' = None"
      using q by (intro merged_without) (auto simp: dget_None_iff [symmetric])
    ultimately show ?thesis using b(1) q(1,3) by blast
  qed
  show ?thesis
    using i(1) cat ne pieces src plan jobs by (intro exI [of _ batches] exI [of _ "id_define_jobs p hook params"]) blast
qed

definition ids_example :: pipeline where
  "ids_example = \<lparr>pd_class = ''UserSync'', pd_name = ''user_sync'', pd_rate_limit = None, pd_config = [],
     pd_enable_duplicates = True, pd_dedup_key = None, pd_on_invalid = ''fail'', pd_schedules = [], pd_params_type = None,
     pd_own_parameters = None, pd_ids_batch_size = Some 2,
     pd_jobs = SourcePerIds (\<lambda>d. (case dget d ''current_ids'' of Some (PList xs) \<Rightarrow> Inr (IdRecords xs) | _ \<Rightarrow> Inr (IdRecords []),
       dset d ''region'' (PStr ''eu''))), pd_transformations = (\<lambda>_. Inr [])\<rparr>"

theorem each_id_is_planned_once_witness:
  "\<exists>batches. concat batches = [PInt 1, PInt 2, PInt 3] \<and> list_all (\<lambda>b. b \<noteq> [] \<and> int (length b) \<le> 2) batches \<and>
     (case resolve plain_python ids_example [(''input_ids'', PList [PInt 1, PInt 2, PInt 3])] of
        Inr (params, Some plan) \<Rightarrow>
          list_all (\<lambda>s. \<exists>b \<in> set batches. \<exists>q. sl_params s = Some q \<and> dget q ''current_ids'' = Some (PList b)) (fst (plan_slices plan params)) \<and>
          map sl_config (fst (plan_slices plan params)) = [[(''records'', PList [PInt 1, PInt 2])], [(''records'', PList [PInt 3])]]
      | _ \<Rightarrow> False)"
proof -
  let ?d = "[(''input_ids'', PList [PInt 1, PInt 2, PInt 3])]"
  let ?hook = "\<lambda>d. (case dget d ''current_ids'' of Some (PList xs) \<Rightarrow> Inr (IdRecords xs) | _ \<Rightarrow> Inr (IdRecords []), dset d ''region'' (PStr ''eu''))"
  let ?plan = "id_define_jobs ids_example ?hook ?d"
  have errors: "parameter_errors plain_python ids_example [ids_parameter] ?d = []" by code_simp
  have ps: "get_all_parameters plain_python ids_example = Inr [ids_parameter]" by code_simp
  have "p_name ids_parameter = ''input_ids''" by (simp add: ids_parameter_def)
  then have defaults: "apply_defaults [ids_parameter] ?d = ?d" by (simp add: apply_defaults_def)
  have hook: "pd_jobs ids_example = SourcePerIds ?hook" by (simp add: ids_example_def)
  have r: "resolve plain_python ids_example ?d = Inr (?d, Some ?plan)"
    unfolding resolve_def Let_def ps sum.case defaults errors define_jobs_def hook by (simp add: ids_example_def)
  have "keeps_ids ?hook ?d b" for b
    by (simp add: keeps_ids_def batch_params_def)
  from each_id_is_planned_once [OF r hook _ _ this, of 2]
  obtain batches plan where b: "dget ?d ''input_ids'' = Some (PList (concat batches))"
      "\<forall>b \<in> set batches. b \<noteq> [] \<and> int (length b) \<le> 2" "Some ?plan = Some plan"
      "\<forall>s \<in> set (fst (plan_slices plan ?d)). \<exists>b \<in> set batches. \<exists>q. sl_params s = Some q \<and>
         dget q ''current_ids'' = Some (PList b) \<and> dget q ''current_id'' = Some (hd b) \<and>
         dget (merged_params (dfilter (\<lambda>k. k \<noteq> ''input_ids'') ?d) s) ''input_ids'' = None"
    by (auto simp: ids_example_def)
  have configs: "map sl_config (fst (plan_slices ?plan ?d)) = [[(''records'', PList [PInt 1, PInt 2])], [(''records'', PList [PInt 3])]]"
    by code_simp
  have "concat batches = [PInt 1, PInt 2, PInt 3]" using b(1) by simp
  then show ?thesis using b(2,3,4) configs unfolding r by (fastforce simp: list_all_iff)
qed

end
