(* ===== verification/Api.thy ===== *)
theory Api
  imports Pipelines DriveLoop
begin

text \<open>
  The manager's HTTP interface (\<open>reflow_manager/app.py\<close>) over \<open>ReflowManager\<close>
  (\<open>reflow_manager/manager.py\<close>): the requests on executions, \<open>POST /run\<close>, the background tasks
  they start, and the start-up of the service. A request is a step over the database and the
  clock -- other processes run before each of its database operations -- that returns its
  response or raises the \<open>HTTPException\<close> FastAPI turns into one, with the background tasks
  to start. The table of schedules goes beside that state.
\<close>

subsection \<open>States and rows as text\<close>

fun state_name :: "exec_state \<Rightarrow> string" where
  "state_name EPending = ''pending''"
| "state_name ERunning = ''running''"
| "state_name EPaused = ''paused''"
| "state_name ECompleted = ''completed''"
| "state_name EFailed = ''failed''"
| "state_name ECancelled = ''cancelled''"

definition state_named :: "string \<Rightarrow> exec_state option" where
  "state_named s = List.find (\<lambda>st. state_name st = s) STATES"

fun job_state_name :: "job_state \<Rightarrow> string" where
  "job_state_name JPending = ''pending''"
| "job_state_name JDispatched = ''dispatched''"
| "job_state_name JRunning = ''running''"
| "job_state_name JCompleted = ''completed''"
| "job_state_name JFailed = ''failed''"
| "job_state_name JDeduplicated = ''deduplicated''"
| "job_state_name JCancelled = ''cancelled''"

definition text_value :: "string option \<Rightarrow> pyval" where
  "text_value s = (case s of None \<Rightarrow> PNone | Some t \<Rightarrow> PStr t)"

text \<open>\<open>to_dict\<close> of an execution (without \<open>updated_at\<close>, a column the model leaves out) and of a job.\<close>

definition execution_to_dict :: "(time \<Rightarrow> string) \<Rightarrow> execution \<Rightarrow> pydict" where
  "execution_to_dict isoformat e =
     [(''execution_id'', PStr (e_id e)), (''pipeline_name'', PStr (e_pipeline e)), (''state'', PStr (state_name (e_state e))),
      (''total_jobs'', PInt (e_total_jobs e)), (''jobs_dispatched'', PInt (e_jobs_dispatched e)),
      (''jobs_completed'', PInt (e_jobs_completed e)), (''jobs_failed'', PInt (e_jobs_failed e)),
      (''deduplicated_jobs'', PInt (e_deduplicated e)), (''created_at'', PStr (isoformat (e_created_at e))),
      (''completed_at'', text_value (map_option isoformat (e_completed_at e))), (''error_message'', text_value (e_error e)),
      (''runtime_params'', PDict (e_runtime_params e))]"

definition job_to_dict :: "(time \<Rightarrow> string) \<Rightarrow> job \<Rightarrow> pydict" where
  "job_to_dict isoformat j =
     [(''job_id'', PStr (j_id j)), (''execution_id'', PStr (j_exec j)), (''job_payload'', PDict (j_payload j)),
      (''state'', PStr (job_state_name (j_state j))), (''batch_number'', case j_batch j of None \<Rightarrow> PNone | Some b \<Rightarrow> PInt b),
      (''attempts'', PInt (j_attempts j)), (''processed_records'', PInt (j_processed j)), (''error_message'', text_value (j_error j)),
      (''error_traceback'', text_value (j_traceback j)), (''stats'', case j_stats j of None \<Rightarrow> PNone | Some s \<Rightarrow> PDict s),
      (''created_at'', PStr (isoformat (j_created j))), (''updated_at'', PStr (isoformat (j_updated j))),
      (''dispatched_at'', text_value (map_option isoformat (j_dispatched_at j))),
      (''completed_at'', text_value (map_option isoformat (j_completed_at j)))]"

subsection \<open>Requests on an execution\<close>

text \<open>The tasks FastAPI runs after the response.\<close>

datatype background =
    DispatchJobs string string pydict "rat option" "string option" "bool option"
  | ResumeExecution string

definition execution_not_found :: "string \<Rightarrow> py_error" where
  "execution_not_found eid = HTTPException 404 (''Execution '' @ quoted eid @ '' not found'')"

definition find_execution :: "environment \<Rightarrow> string \<Rightarrow> (world, execution option) step" where
  "find_execution E eid = on_execs E (\<lambda>now t. (get_execution eid t, t))"

definition require_execution :: "environment \<Rightarrow> string \<Rightarrow> (world, execution) step" where
  "require_execution E eid =
     bind_step (find_execution E eid) (\<lambda>found.
     case found of None \<Rightarrow> raise_step (execution_not_found eid) | Some e \<Rightarrow> return_step e)"

text \<open>\<open>ReflowManager.cancel_execution\<close>: the execution and the number of cancelled jobs.\<close>

definition cancel_run :: "environment \<Rightarrow> string \<Rightarrow> (world, (execution \<times> nat) option) step" where
  "cancel_run E eid =
     bind_step (on_execs E (\<lambda>now. cancel_execution now eid)) (\<lambda>r.
     case r of
       None \<Rightarrow> return_step None
     | Some e \<Rightarrow> bind_step (on_jobs E (\<lambda>now. cancel_unstarted_jobs now eid)) (\<lambda>n. return_step (Some (e, n))))"

text \<open>\<open>assert x is not None\<close>.\<close>

definition assert_some :: "'a option \<Rightarrow> ('s, 'a) step" where
  "assert_some x = (case x of None \<Rightarrow> raise_step (OtherError ''AssertionError'' []) | Some y \<Rightarrow> return_step y)"

definition unknown_state :: "string \<Rightarrow> py_error" where
  "unknown_state s = HTTPException 422 (''Unknown state '' @ quoted s @ ''; states are ['' @
     join '', '' (map (quoted \<circ> state_name) STATES) @ '']'')"

definition state_not_settable :: "string \<Rightarrow> py_error" where
  "state_not_settable s = HTTPException 422 (''State '' @ quoted s @
     '' cannot be set directly. Use POST /executions/{id}/pause or /resume; '' @ quoted ''/retry-failed'' @
     '' reopens a failed run; '' @ quoted ''completed'' @ '' is set by the system when every job has finished. This endpoint only sets '' @
     quoted ''failed'' @ '' or '' @ quoted ''cancelled'' @ ''.'')"

definition patch_state :: "environment \<Rightarrow> string \<Rightarrow> string \<Rightarrow> string option \<Rightarrow> (world, execution) step" where
  "patch_state E eid state error_message =
     (case state_named state of
        None \<Rightarrow> raise_step (unknown_state state)
      | Some st \<Rightarrow>
          if st \<notin> {EFailed, ECancelled} then raise_step (state_not_settable state)
          else
            bind_step (require_execution E eid) (\<lambda>e.
            if terminal (e_state e)
            then raise_step (HTTPException 409 (''Execution '' @ quoted eid @ '' is already '' @ state_name (e_state e)))
            else if st = ECancelled
            then bind_step (cancel_run E eid) (\<lambda>c. bind_step (assert_some c) (\<lambda>(e', n). return_step e'))
            else bind_step (on_execs E (\<lambda>now. update_execution_state now eid EFailed error_message)) assert_some))"

definition cancel_request :: "environment \<Rightarrow> string \<Rightarrow> (world, execution \<times> nat) step" where
  "cancel_request E eid =
     bind_step (require_execution E eid) (\<lambda>_.
     bind_step (cancel_run E eid) (\<lambda>c.
     case c of
       None \<Rightarrow> raise_step (HTTPException 409 (''Execution '' @ quoted eid @ '' has already finished''))
     | Some r \<Rightarrow> return_step r))"

definition pause_request :: "environment \<Rightarrow> string \<Rightarrow> (world, execution) step" where
  "pause_request E eid =
     bind_step (require_execution E eid) (\<lambda>_.
     bind_step (on_execs E (\<lambda>now. pause_execution now eid)) (\<lambda>r.
     case r of
       None \<Rightarrow> raise_step (HTTPException 409 (''Execution '' @ quoted eid @ '' is not running''))
     | Some e \<Rightarrow> return_step e))"

definition resume_request :: "environment \<Rightarrow> string \<Rightarrow> (world, execution \<times> background list) step" where
  "resume_request E eid =
     bind_step (on_execs E (\<lambda>now. resume_execution now eid)) (\<lambda>r.
     case r of
       None \<Rightarrow> raise_step (HTTPException 400 (''Execution '' @ quoted eid @ '' not found or not paused''))
     | Some e \<Rightarrow> return_step (e, [ResumeExecution eid]))"

definition retry_request :: "environment \<Rightarrow> string \<Rightarrow> string option \<Rightarrow> (world, nat \<times> background list) step" where
  "retry_request E eid error_text_part =
     bind_step (require_execution E eid) (\<lambda>e.
     if e_state e = EPaused
     then raise_step (HTTPException 409 (''Execution '' @ quoted eid @ '' is paused; resume it first''))
     else
       bind_step (on_jobs E (\<lambda>now. requeue_failed now eid error_text_part)) (\<lambda>requeued.
       if requeued = 0 then return_step (0, [])
       else bind_step (on_execs E (\<lambda>now. reopen_execution eid)) (\<lambda>_.
         return_step (requeued, if e_state e = ERunning then [] else [ResumeExecution eid]))))"

subsection \<open>Reading\<close>

definition jobs_in_state :: "environment \<Rightarrow> string \<Rightarrow> string option \<Rightarrow> (world, job list) step" where
  "jobs_in_state E eid state = on_jobs E (\<lambda>now t.
     (case state of
        None \<Rightarrow> get_jobs eid None t
      | Some s \<Rightarrow> if s = [] then get_jobs eid None t else filter (\<lambda>j. job_state_name (j_state j) = s) (get_jobs eid None t), t))"

definition jobs_request :: "environment \<Rightarrow> string \<Rightarrow> string option \<Rightarrow> (world, job list) step" where
  "jobs_request E eid state =
     bind_step (jobs_in_state E eid state) (\<lambda>js.
     if js \<noteq> [] then return_step js else bind_step (require_execution E eid) (\<lambda>_. return_step js))"

definition job_error_dict :: "(time \<Rightarrow> string) \<Rightarrow> job \<Rightarrow> pydict" where
  "job_error_dict isoformat j =
     [(''job_id'', PStr (j_id j)), (''batch_number'', case j_batch j of None \<Rightarrow> PNone | Some b \<Rightarrow> PInt b),
      (''error_message'', text_value (j_error j)), (''error_traceback'', text_value (j_traceback j)),
      (''failed_at'', text_value (map_option isoformat (j_completed_at j)))]"

definition errors_request :: "environment \<Rightarrow> (time \<Rightarrow> string) \<Rightarrow> string \<Rightarrow> (world, pydict list) step" where
  "errors_request E isoformat eid =
     bind_step (jobs_in_state E eid (Some ''failed'')) (\<lambda>js.
     bind_step (if js = [] then bind_step (require_execution E eid) (\<lambda>_. return_step ()) else return_step ()) (\<lambda>_.
     return_step (map (job_error_dict isoformat) js)))"

definition checkpoints_request :: "environment \<Rightarrow> string \<Rightarrow> string option \<Rightarrow> (world, job list) step" where
  "checkpoints_request E eid state = jobs_in_state E eid state"

text \<open>\<open>get_execution_stats\<close> of the manager: the jobs of the execution by batch, and the first
  batch that is not completed.\<close>

record batch_stats =
  bt_number :: int
  bt_total :: nat
  bt_pending :: nat
  bt_completed :: nat
  bt_failed :: nat

definition batch_state :: "batch_stats \<Rightarrow> string" where
  "batch_state b =
     (if 0 < bt_failed b then ''failed''
      else if bt_completed b = bt_total b then ''completed''
      else if 0 < bt_completed b then ''in_progress'' else ''pending'')"

definition batch_checkpoint_stats :: "string \<Rightarrow> jobs \<Rightarrow> batch_stats list" where
  "batch_checkpoint_stats eid t =
     (let js = filter (\<lambda>j. j_exec j = eid) t;
          n = (\<lambda>b P. count_where (\<lambda>j. j_batch j = Some b \<and> P (j_state j)) js)
      in map (\<lambda>b. \<lparr>bt_number = b, bt_total = n b (\<lambda>_. True), bt_pending = n b (\<lambda>s. s = JPending),
            bt_completed = n b (\<lambda>s. s = JCompleted), bt_failed = n b (\<lambda>s. s = JFailed)\<rparr>)
          (sort (remdups (List.map_filter j_batch js))))"

definition current_checkpoint :: "batch_stats list \<Rightarrow> int option" where
  "current_checkpoint bs =
     (case List.find (\<lambda>b. batch_state b \<noteq> ''completed'') bs of
        Some b \<Rightarrow> Some (bt_number b)
      | None \<Rightarrow> if bs = [] then None else Some (int (length bs)))"

record exec_stats =
  xs_execution :: execution
  xs_dispatched :: nat
  xs_counts :: job_counts
  xs_current :: "int option"
  xs_batches :: "batch_stats list"

definition get_execution_stats :: "environment \<Rightarrow> string \<Rightarrow> (world, exec_stats option) step" where
  "get_execution_stats E eid =
     bind_step (find_execution E eid) (\<lambda>found.
     case found of
       None \<Rightarrow> return_step None
     | Some e \<Rightarrow>
         bind_step (job_counts_of E eid) (\<lambda>c.
         bind_step (on_jobs E (\<lambda>now t. (batch_checkpoint_stats eid t, t))) (\<lambda>bs.
         return_step (Some \<lparr>xs_execution = e,
           xs_dispatched = c_dispatched c + c_running c + c_completed c + c_failed c + c_deduplicated c,
           xs_counts = c, xs_current = current_checkpoint bs, xs_batches = bs\<rparr>))))"

definition stats_request :: "environment \<Rightarrow> string \<Rightarrow> (world, exec_stats) step" where
  "stats_request E eid =
     try_step
       (bind_step (get_execution_stats E eid) (\<lambda>s.
        case s of None \<Rightarrow> raise_step (execution_not_found eid) | Some s \<Rightarrow> return_step s))
       is_exception
       (\<lambda>e. case e of
          HTTPException c m \<Rightarrow> raise_step e
        | _ \<Rightarrow> raise_step (HTTPException 500 (''Error fetching execution stats: '' @ error_text e)))"

subsection \<open>POST /run\<close>

record run_body =
  rb_pipeline :: string
  rb_params :: "pydict option"
  rb_rate_limit :: "rat option"
  rb_execution_id :: "string option"
  rb_mode :: "string option"
  rb_enable_duplicates :: "bool option"

text \<open>The service: its database and clock, the registry, the schedule poller if it was
  initialised, what fresh ids it draws.\<close>

record service =
  sv_env :: environment
  sv_python :: python
  sv_registry :: "pipeline registry"
  sv_scheduler :: "sched_env option"
  sv_uuid :: string

type_synonym service_state = "world \<times> schedules"

definition on_world :: "(world, 'a) step \<Rightarrow> (service_state, 'a) step" where
  "on_world m s = (case m (fst s) of (r, w) \<Rightarrow> (r, (w, snd s)))"

definition pipeline_not_found :: "service \<Rightarrow> string \<Rightarrow> py_error" where
  "pipeline_not_found S name =
     HTTPException 404 (''Pipeline '' @ quoted name @ '' not found in registry'' @ describe_missing (sv_registry S) name)"

text \<open>\<open>_reset_pipeline_schedule_if_needed\<close> and the commit after it: one transaction over the schedules.\<close>

definition reset_if_scheduled :: "service \<Rightarrow> string \<Rightarrow> (service_state, unit) step" where
  "reset_if_scheduled S name s =
     (let w = elapse (sv_env S) (fst s); t = snd s;
          reset = (case (sv_scheduler S, registry_get (sv_registry S) name) of
              (Some C, Some p) \<Rightarrow> if pd_schedules p \<noteq> [] then reset_schedule C name (w_now w) t else Inr t
            | _ \<Rightarrow> Inr t)
      in case reset of
        Inl e \<Rightarrow> (Inl e, (w, t))
      | Inr t' \<Rightarrow> if en_db_fails (sv_env S) (w_tick (fst s)) then (Inl DBAPIError, (w, t)) else (Inr (), (w, t')))"

text \<open>\<open>validate_parameters(apply_defaults(params))\<close> of the pipeline.\<close>

definition check_run_params :: "python \<Rightarrow> pipeline \<Rightarrow> pydict \<Rightarrow> py_error + string list" where
  "check_run_params P p params =
     (case get_all_parameters P p of
        Inl e \<Rightarrow> Inl e
      | Inr ps \<Rightarrow> Inr (parameter_errors P p ps (apply_defaults ps params)))"

definition undeclared :: "python \<Rightarrow> pipeline \<Rightarrow> pydict \<Rightarrow> string list" where
  "undeclared P p params =
     (let declared = map p_name (define_parameters P p) in
      if declared = [] then []
      else sort (filter (\<lambda>k. k \<notin> set declared \<and> \<not> prefix ''_'' k) (dkeys params)))"

definition run_response :: "string \<Rightarrow> string \<Rightarrow> string list \<Rightarrow> pydict" where
  "run_response eid name unknown =
     [(''execution_id'', PStr eid), (''pipeline_name'', PStr name), (''state'', PStr ''pending''),
      (''message'', PStr ''Pipeline execution accepted. Jobs are being dispatched in background.''),
      (''status_url'', PStr (''/executions/'' @ eid))] @
     (if unknown = [] then []
      else [(''warnings'', PList [PStr (''parameters not declared by the pipeline (ignored): ['' @
         join '', '' (map quoted unknown) @ '']'')])])"

definition create_run :: "environment \<Rightarrow> string \<Rightarrow> string \<Rightarrow> pydict \<Rightarrow> rat option \<Rightarrow> (world, unit) step" where
  "create_run E eid name params rate_limit =
     bind_step (on_execs E (\<lambda>now t. case create_execution now eid name (Some params) rate_limit t of
         Inl e \<Rightarrow> (Inl e, t) | Inr t' \<Rightarrow> (Inr (), t')))
       (\<lambda>r. case r of Inl e \<Rightarrow> raise_step e | Inr _ \<Rightarrow> return_step ())"

definition run_body_step :: "service \<Rightarrow> run_body \<Rightarrow> string \<Rightarrow> (service_state, pydict \<times> background list) step" where
  "run_body_step S b eid =
     (case registry_get (sv_registry S) (rb_pipeline b) of
        None \<Rightarrow> raise_step (pipeline_not_found S (rb_pipeline b))
      | Some p \<Rightarrow>
          (let params = (case rb_params b of None \<Rightarrow> [] | Some d \<Rightarrow> d) in
           case check_run_params (sv_python S) p params of
             Inl e \<Rightarrow> raise_step e
           | Inr errors \<Rightarrow>
               if errors \<noteq> [] then raise_step (HTTPException 422 (''Invalid parameters: '' @ join ''; '' errors))
               else
                 bind_step (on_world (find_execution (sv_env S) eid)) (\<lambda>found.
                 if found \<noteq> None then raise_step (HTTPException 409 (''Execution '' @ quoted eid @ '' already exists''))
                 else
                   bind_step (on_world (create_run (sv_env S) eid (rb_pipeline b) params (rb_rate_limit b))) (\<lambda>_.
                   bind_step (reset_if_scheduled S (rb_pipeline b)) (\<lambda>_.
                   return_step (run_response eid (rb_pipeline b) (undeclared (sv_python S) p params),
                     [DispatchJobs eid (rb_pipeline b) params (rb_rate_limit b) (rb_mode b) (rb_enable_duplicates b)]))))))"

text \<open>The handler: what is raised inside becomes a response.\<close>

definition run_error :: "run_body \<Rightarrow> py_error \<Rightarrow> py_error" where
  "run_error b e = (case e of
     HTTPException c m \<Rightarrow> e
   | IntegrityError m \<Rightarrow> HTTPException 409 (''Execution '' @
       quoted (case rb_execution_id b of None \<Rightarrow> ''None'' | Some i \<Rightarrow> i) @ '' already exists'')
   | _ \<Rightarrow> HTTPException 500 (''Failed to start pipeline: '' @ error_text e))"

definition run_execution_id :: "service \<Rightarrow> run_body \<Rightarrow> string" where
  "run_execution_id S b = (case rb_execution_id b of None \<Rightarrow> sv_uuid S | Some i \<Rightarrow> if i = [] then sv_uuid S else i)"

definition run_request :: "service \<Rightarrow> run_body \<Rightarrow> (service_state, pydict \<times> background list) step" where
  "run_request S b =
     try_step (run_body_step S b (run_execution_id S b)) is_exception (\<lambda>e. raise_step (run_error b e))"

subsection \<open>Metadata of pipelines\<close>

definition pipeline_request :: "service \<Rightarrow> string \<Rightarrow> py_error + pydict" where
  "pipeline_request S name =
     (case registry_get (sv_registry S) name of
        None \<Rightarrow> Inl (pipeline_not_found S name) | Some p \<Rightarrow> pipeline_to_dict (sv_python S) p)"

fun pipelines_to_dicts :: "python \<Rightarrow> pipeline list \<Rightarrow> py_error + pydict list" where
  "pipelines_to_dicts P [] = Inr []"
| "pipelines_to_dicts P (p # ps) =
     (case pipeline_to_dict P p of
        Inl e \<Rightarrow> Inl e
      | Inr d \<Rightarrow> (case pipelines_to_dicts P ps of Inl e \<Rightarrow> Inl e | Inr ds \<Rightarrow> Inr (d # ds)))"

definition list_pipelines :: "service \<Rightarrow> py_error + pydict list" where
  "list_pipelines S = pipelines_to_dicts (sv_python S) (list_all_pipelines (sv_registry S))"

subsection \<open>Background tasks and start-up\<close>

text \<open>\<open>_dispatch_pipeline_jobs\<close> and \<open>_resume_execution_sync\<close>: whatever the run raises ends
  here; a failed dispatch marks the execution failed if the database lets it.\<close>

definition swallow :: "('s, 'a) step \<Rightarrow> ('s, unit) step" where
  "swallow m = try_step (bind_step m (\<lambda>_. return_step ())) is_exception (\<lambda>_. return_step ())"

definition dispatch_task ::
  "nat \<Rightarrow> environment \<Rightarrow> settings \<Rightarrow> planner \<Rightarrow> string \<Rightarrow> string \<Rightarrow> pydict \<Rightarrow> rat option \<Rightarrow> bool option \<Rightarrow> (world, unit) step" where
  "dispatch_task fuel E S P eid name params rate_override enable_duplicates =
     try_step (bind_step (run_pipeline_jobs fuel E S P eid name params rate_override enable_duplicates) (\<lambda>_. return_step ()))
       is_exception
       (\<lambda>e. swallow (on_execs E (\<lambda>now. update_execution_state now eid EFailed (Some (error_text e)))))"

definition resume_task :: "nat \<Rightarrow> environment \<Rightarrow> settings \<Rightarrow> planner \<Rightarrow> string \<Rightarrow> (world, unit) step" where
  "resume_task fuel E S P eid = swallow (resume_run fuel E S P eid None)"

text \<open>\<open>_make_manager(db, mode)\<close>: the mode of the request, or the configured one.\<close>

definition with_mode :: "string \<Rightarrow> string option \<Rightarrow> planner \<Rightarrow> planner" where
  "with_mode configured mode P =
     P\<lparr>pl_local := ((case mode of None \<Rightarrow> configured | Some m \<Rightarrow> if m = [] then configured else m) = ''local'')\<rparr>"

fun run_background :: "nat \<Rightarrow> environment \<Rightarrow> settings \<Rightarrow> string \<Rightarrow> planner \<Rightarrow> background \<Rightarrow> (world, unit) step" where
  "run_background fuel E S configured P (DispatchJobs eid name params rate mode dups) =
     dispatch_task fuel E S (with_mode configured mode P) eid name params rate dups"
| "run_background fuel E S configured P (ResumeExecution eid) =
     resume_task fuel E S (with_mode configured None P) eid"

text \<open>\<open>_recover_interrupted_executions\<close>: the leases of this host are freed, and every
  interrupted execution is resumed in a thread of its own.\<close>

definition recover_interrupted :: "environment \<Rightarrow> string \<Rightarrow> (world, background list) step" where
  "recover_interrupted E hostname =
     bind_step (on_execs E (\<lambda>now. release_drivers_on_host hostname)) (\<lambda>_.
     bind_step (on_execs E (\<lambda>now t. (get_interrupted_executions t, t))) (\<lambda>es.
     return_step (map (\<lambda>e. ResumeExecution (e_id e)) es)))"

text \<open>The part of \<open>_startup\<close> that synchronises the schedules: a failure leaves the table as it was.\<close>

definition startup_sync :: "sched_env \<Rightarrow> time \<Rightarrow> pipeline registry \<Rightarrow> schedules \<Rightarrow> schedules" where
  "startup_sync C now r t =
     (case sync_schedules_from_registry C now (declared_of r) t of Inl e \<Rightarrow> t | Inr t' \<Rightarrow> t')"

section \<open>The life cycle the requests keep to\<close>

text \<open>No other process writes to the database meanwhile (time passes, and the database may fail).\<close>

definition alone :: "environment \<Rightarrow> bool" where
  "alone E \<longleftrightarrow> (\<forall>n t d. snd (en_others E n (t, d)) = d)"

lemma alone_elapse: "alone E \<Longrightarrow> w_db (elapse E w) = w_db w"
  by (auto simp: alone_def elapse_def split: prod.splits) (metis snd_conv)

datatype request = SetState string "string option" | Cancel | Pause | Resume | Retry "string option"

fun handle :: "environment \<Rightarrow> string \<Rightarrow> request \<Rightarrow> (world, background list) step" where
  "handle E eid (SetState s msg) = bind_step (patch_state E eid s msg) (\<lambda>_. return_step [])"
| "handle E eid Cancel = bind_step (cancel_request E eid) (\<lambda>_. return_step [])"
| "handle E eid Pause = bind_step (pause_request E eid) (\<lambda>_. return_step [])"
| "handle E eid Resume = bind_step (resume_request E eid) (\<lambda>(_, tasks). return_step tasks)"
| "handle E eid (Retry txt) = bind_step (retry_request E eid txt) (\<lambda>(_, tasks). return_step tasks)"

text \<open>A request that succeeds on an execution in state \<open>s\<close>: the new state and the tasks.\<close>

fun follows :: "string \<Rightarrow> request \<Rightarrow> exec_state \<Rightarrow> exec_state \<Rightarrow> background list \<Rightarrow> bool" where
  "follows eid (SetState n msg) s s' tasks =
     (\<not> terminal s \<and> s' \<in> {EFailed, ECancelled} \<and> state_name s' = n \<and> tasks = [])"
| "follows eid Cancel s s' tasks = (\<not> terminal s \<and> s' = ECancelled \<and> tasks = [])"
| "follows eid Pause s s' tasks = (s \<in> {EPending, ERunning} \<and> s' = EPaused \<and> tasks = [])"
| "follows eid Resume s s' tasks = (s = EPaused \<and> s' = ERunning \<and> tasks = [ResumeExecution eid])"
| "follows eid (Retry txt) s s' tasks =
     (s \<noteq> EPaused \<and> (if s' = s then tasks = [] else s' = ERunning \<and> tasks = [ResumeExecution eid]))"

text \<open>Rows of other executions stay as they are.\<close>

definition only_run :: "string \<Rightarrow> db \<Rightarrow> db \<Rightarrow> bool" where
  "only_run eid d d' \<longleftrightarrow> (\<forall>i. i \<noteq> eid \<longrightarrow> get_execution i (db_execs d') = get_execution i (db_execs d)) \<and>
     filter (\<lambda>j. j_exec j \<noteq> eid) (db_jobs d') = filter (\<lambda>j. j_exec j \<noteq> eid) (db_jobs d)"

definition same_rows :: "string \<Rightarrow> executions \<Rightarrow> executions \<Rightarrow> bool" where
  "same_rows eid t t' \<longleftrightarrow> (\<forall>i. i \<noteq> eid \<longrightarrow> get_execution i t' = get_execution i t)"

lemma same_rows_refl [simp]: "same_rows eid t t"
  by (simp add: same_rows_def)

lemma same_rows_update: "(\<And>e. e_id (f e) = e_id e) \<Longrightarrow> same_rows eid t (update_where (by_id eid) f t)"
  unfolding same_rows_def by (intro allI impI get_update_other) (auto simp: by_id_def)

lemma update_state_cases:
  "update_execution_state now eid s msg t = (r, t') \<Longrightarrow>
   (case r of None \<Rightarrow> t' = t \<and> state_of eid t = None
    | Some e \<Rightarrow> state_of eid t \<noteq> None \<and> state_of eid t' = Some s \<and> same_rows eid t t')"
  using state_of_update_execution_state [of eid now s msg t]
  by (auto simp: update_execution_state_def state_of_def same_rows_update split: option.splits)

lemma guarded_cases:
  assumes "(case get_execution eid t of None \<Rightarrow> (None, t)
      | Some e \<Rightarrow> if e_state e \<notin> A then (None, t) else update_execution_state now eid s msg t) = (r, t')"
  shows "case r of None \<Rightarrow> t' = t \<and> (\<forall>s0 \<in> A. state_of eid t \<noteq> Some s0)
    | Some e \<Rightarrow> (\<exists>s0 \<in> A. state_of eid t = Some s0) \<and> state_of eid t' = Some s \<and> same_rows eid t t'"
  using assms update_state_cases [of now eid s msg t r t']
  by (auto simp: state_of_def split: option.splits if_splits)

lemma pause_cases:
  "pause_execution now eid t = (r, t') \<Longrightarrow> case r of None \<Rightarrow> t' = t \<and> (\<forall>s0 \<in> {EPending, ERunning}. state_of eid t \<noteq> Some s0)
    | Some e \<Rightarrow> (\<exists>s0 \<in> {EPending, ERunning}. state_of eid t = Some s0) \<and> state_of eid t' = Some EPaused \<and> same_rows eid t t'"
  unfolding pause_execution_def by (rule guarded_cases)

lemma resume_cases:
  assumes "resume_execution now eid t = (r, t')"
  shows "case r of None \<Rightarrow> t' = t \<and> (\<forall>s0 \<in> {EPaused}. state_of eid t \<noteq> Some s0)
    | Some e \<Rightarrow> (\<exists>s0 \<in> {EPaused}. state_of eid t = Some s0) \<and> state_of eid t' = Some ERunning \<and> same_rows eid t t'"
  by (rule guarded_cases [where now = now and msg = None])
    (use assms in \<open>auto simp: resume_execution_def split: option.splits\<close>)

lemma cancel_cases:
  assumes "cancel_execution now eid t = (r, t')"
  shows "case r of None \<Rightarrow> t' = t \<and> (\<forall>s0 \<in> {s. \<not> terminal s}. state_of eid t \<noteq> Some s0)
    | Some e \<Rightarrow> (\<exists>s0 \<in> {s. \<not> terminal s}. state_of eid t = Some s0) \<and> state_of eid t' = Some ECancelled \<and> same_rows eid t t'"
  by (rule guarded_cases [where now = now and msg = "Some ''Cancelled''"])
    (use assms in \<open>auto simp: cancel_execution_def split: option.splits\<close>)

lemma filter_update_where:
  "(\<And>r. P r \<Longrightarrow> \<not> Q r \<and> \<not> Q (f r)) \<Longrightarrow> filter Q (update_where P f t) = filter Q t"
  by (induction t) auto

lemma cancel_jobs_other:
  "cancel_unstarted_jobs now eid t = (n, t') \<Longrightarrow>
   filter (\<lambda>j. j_exec j \<noteq> eid) t' = filter (\<lambda>j. j_exec j \<noteq> eid) t \<and> count_where (unstarted eid) t' = 0"
proof
  assume c: "cancel_unstarted_jobs now eid t = (n, t')"
  show "filter (\<lambda>j. j_exec j \<noteq> eid) t' = filter (\<lambda>j. j_exec j \<noteq> eid) t"
    using c by (auto simp: cancel_unstarted_jobs_def unstarted_def intro!: filter_update_where)
  show "count_where (unstarted eid) t' = 0"
  proof -
    have t': "t' = map (\<lambda>j. if unstarted eid j then j\<lparr>j_state := JCancelled, j_completed_at := Some now, j_updated := now\<rparr> else j) t"
      using c by (simp add: cancel_unstarted_jobs_def update_where_def)
    have "\<not> unstarted eid (if unstarted eid j then j\<lparr>j_state := JCancelled, j_completed_at := Some now, j_updated := now\<rparr> else j)" for j
      by (simp add: unstarted_def)
    then show ?thesis unfolding count_where_zero t' set_map by blast
  qed
qed

lemma requeue_jobs_other:
  "requeue_failed now eid txt t = (n, t') \<Longrightarrow>
   filter (\<lambda>j. j_exec j \<noteq> eid) t' = filter (\<lambda>j. j_exec j \<noteq> eid) t \<and> (n = 0 \<longrightarrow> t' = t)"
  by (auto simp: requeue_failed_def requeueable_def update_where_none intro!: filter_update_where)

lemma reopen_cases:
  assumes "reopen_execution eid t = (r, t')"
  shows "case r of None \<Rightarrow> t' = t \<and> state_of eid t = None
    | Some e \<Rightarrow> state_of eid t \<noteq> None \<and> state_of eid t' = Some ERunning \<and> same_rows eid t t'"
proof (cases "get_execution eid t")
  case (Some e)
  have id: "by_id eid (x\<lparr>e_state := ERunning, e_completed_at := None, e_error := None\<rparr>) = by_id eid x" for x
    by (simp add: by_id_def)
  show ?thesis
    using assms Some get_execution_by_id [OF Some]
    by (auto simp: reopen_execution_def Let_def state_of_def get_update_where id same_rows_update)
qed (use assms in \<open>simp add: reopen_execution_def state_of_def\<close>)

lemma wp_pair: "wp (Pair r) Q s = Q r s"
  by (simp add: wp_def)

lemma wp_alone_execs:
  assumes "alone E" and "en_db_fails E (w_tick w) \<Longrightarrow> Q (Inl DBAPIError) (elapse E w)"
    and "\<And>a t w'. f (w_now w') (db_execs (w_db w)) = (a, t) \<Longrightarrow> w_db w' = (w_db w)\<lparr>db_execs := t\<rparr> \<Longrightarrow> Q (Inr a) w'"
  shows "wp (on_execs E f) Q w"
  using assms(2) assms(3) [where w' = "(elapse E w)\<lparr>w_db := _\<rparr>"]
  by (auto simp: wps alone_elapse [OF assms(1)] split: prod.splits)

lemma wp_alone_jobs:
  assumes "alone E" and "en_db_fails E (w_tick w) \<Longrightarrow> Q (Inl DBAPIError) (elapse E w)"
    and "\<And>a t w'. f (w_now w') (db_jobs (w_db w)) = (a, t) \<Longrightarrow> w_db w' = (w_db w)\<lparr>db_jobs := t\<rparr> \<Longrightarrow> Q (Inr a) w'"
  shows "wp (on_jobs E f) Q w"
  using assms(2) assms(3) [where w' = "(elapse E w)\<lparr>w_db := _\<rparr>"]
  by (auto simp: wps alone_elapse [OF assms(1)] split: prod.splits)

text \<open>What a request may do to the database \<open>d\<close>, by its result.\<close>

definition request_post :: "string \<Rightarrow> request \<Rightarrow> db \<Rightarrow> py_error + background list \<Rightarrow> world \<Rightarrow> bool" where
  "request_post eid q d r w' =
     (only_run eid d (w_db w') \<and>
      (case r of
         Inr tasks \<Rightarrow> \<exists>s s'. state_of eid (db_execs d) = Some s \<and> state_of eid (db_execs (w_db w')) = Some s' \<and> follows eid q s s' tasks \<and>
           (s \<noteq> ECancelled \<and> s' = ECancelled \<longrightarrow> count_where (unstarted eid) (db_jobs (w_db w')) = 0)
       | Inl (HTTPException c m) \<Rightarrow> c \<in> {400, 404, 409, 422} \<and> w_db w' = d
       | Inl e \<Rightarrow> e = DBAPIError))"

lemma only_run_refl [simp]: "only_run eid d d"
  by (simp add: only_run_def)

lemma wp_require:
  assumes "alone E" and "w_db w = d" and "\<And>w'. w_db w' = d \<Longrightarrow> Q (Inl DBAPIError) w'"
    and "\<And>w'. w_db w' = d \<Longrightarrow> get_execution eid (db_execs d) = None \<Longrightarrow> Q (Inl (execution_not_found eid)) w'"
    and "\<And>e w'. w_db w' = d \<Longrightarrow> get_execution eid (db_execs d) = Some e \<Longrightarrow> Q (Inr e) w'"
  shows "wp (require_execution E eid) Q w"
  unfolding require_execution_def find_execution_def wp_bind
proof (rule wp_alone_execs [OF assms(1)], goal_cases)
  case 1
  then show ?case using assms(2,3) alone_elapse [OF assms(1)] by simp
next
  case (2 a t w')
  then have a: "a = get_execution eid (db_execs d)" and w: "w_db w' = d" using assms(2) by auto
  show ?case
  proof (cases a)
    case None
    then show ?thesis using assms(4) [OF w] a by (simp add: wps)
  next
    case (Some x)
    then have "get_execution eid (db_execs d) = Some x" using a by simp
    from assms(5) [OF w this] show ?thesis unfolding Some by (simp only: sum.case option.case wps)
  qed
qed

lemma only_run_rows: "w_db w' = d\<lparr>db_execs := t\<rparr> \<Longrightarrow> same_rows eid (db_execs d) t \<Longrightarrow> only_run eid d (w_db w')"
  by (simp add: only_run_def same_rows_def)

lemma only_run_jobs:
  "w_db w' = d\<lparr>db_jobs := js\<rparr> \<Longrightarrow> filter (\<lambda>j. j_exec j \<noteq> eid) js = filter (\<lambda>j. j_exec j \<noteq> eid) (db_jobs d) \<Longrightarrow> only_run eid d (w_db w')"
  by (simp add: only_run_def)

lemma only_run_trans: "only_run eid d d1 \<Longrightarrow> only_run eid d1 d2 \<Longrightarrow> only_run eid d d2"
  by (simp add: only_run_def)

lemma state_of_get: "get_execution eid t = Some e \<Longrightarrow> state_of eid t = Some (e_state e)"
  by (simp add: state_of_def)

lemma wp_pause: "alone E \<Longrightarrow> wp (handle E eid Pause) (request_post eid Pause (w_db w)) w"
  unfolding handle.simps pause_request_def wp_bind
proof (rule wp_require, assumption, rule refl, goal_cases)
  case (3 e w1)
  show ?case
    unfolding sum.case wp_bind
  proof (rule wp_alone_execs [OF 3(1)], goal_cases)
    case (2 a t w2)
    note c = pause_cases [OF 2(1)]
    show ?case
    proof (cases a)
      case None
      then show ?thesis using c 2(2) 3(2) by (simp add: wps request_post_def)
    next
      case (Some x)
      then show ?thesis
        using c only_run_rows [OF 2(2)] 3(2) 2(2) by (auto simp: wps request_post_def)
    qed
  qed (use 3 alone_elapse [OF 3(1)] in \<open>simp add: request_post_def\<close>)
qed (auto simp: request_post_def execution_not_found_def)

lemma wp_cancel_run:
  assumes "alone E" and "w_db w = d"
  shows "wp (cancel_run E eid) (\<lambda>r w'. case r of
      Inl e \<Rightarrow> e = DBAPIError \<and> only_run eid d (w_db w')
    | Inr None \<Rightarrow> w_db w' = d \<and> (\<forall>s \<in> {s. \<not> terminal s}. state_of eid (db_execs d) \<noteq> Some s)
    | Inr (Some (e, n)) \<Rightarrow> only_run eid d (w_db w') \<and> (\<exists>s. state_of eid (db_execs d) = Some s \<and> \<not> terminal s) \<and>
        state_of eid (db_execs (w_db w')) = Some ECancelled \<and> count_where (unstarted eid) (db_jobs (w_db w')) = 0) w"
  unfolding cancel_run_def wp_bind
proof (rule wp_alone_execs [OF assms(1)], goal_cases)
  case (2 a t w1)
  note c = cancel_cases [OF 2(1)]
  show ?case
  proof (cases a)
    case None
    then show ?thesis using c 2(2) assms(2) by (simp add: wps)
  next
    case (Some x)
    then have rows: "only_run eid d (w_db w1)" "state_of eid t = Some ECancelled" "\<exists>s. state_of eid (db_execs d) = Some s \<and> \<not> terminal s"
      using c only_run_rows [OF 2(2)] assms(2) by auto
    show ?thesis
      unfolding Some sum.case option.case wp_bind
    proof (rule wp_alone_jobs [OF assms(1)], goal_cases)
      case (2 n js w2)
      note j = cancel_jobs_other [OF 2(1)]
      have "only_run eid d (w_db w2)" using only_run_trans [OF rows(1) only_run_jobs [OF 2(2)]] j by blast
      then show ?case using rows j 2(2) \<open>w_db w1 = (w_db w)\<lparr>db_execs := t\<rparr>\<close> by (simp add: wps)
    qed (use rows alone_elapse [OF assms(1)] in simp)
  qed
qed (use assms alone_elapse [OF assms(1)] in simp)

lemma wp_cancel: "alone E \<Longrightarrow> wp (handle E eid Cancel) (request_post eid Cancel (w_db w)) w"
  unfolding handle.simps cancel_request_def wp_bind
proof (rule wp_require, assumption, rule refl, goal_cases)
  case (3 e w1)
  show ?case
    unfolding sum.case wp_bind
    by (rule wp_use [OF wp_cancel_run [OF 3(1,2)]])
      (auto simp: wps request_post_def split: sum.splits option.splits)
qed (auto simp: request_post_def execution_not_found_def)

lemma wp_resume: "alone E \<Longrightarrow> wp (handle E eid Resume) (request_post eid Resume (w_db w)) w"
  unfolding handle.simps resume_request_def wp_bind
proof (rule wp_alone_execs, assumption, goal_cases)
  case (2 a t w2)
  note c = resume_cases [OF 2(2)]
  show ?case
  proof (cases a)
    case None
    then show ?thesis using c 2(3) by (simp add: wps request_post_def)
  next
    case (Some x)
    then show ?thesis using c only_run_rows [OF 2(3)] 2(3) by (auto simp: wps request_post_def)
  qed
qed (simp add: request_post_def alone_elapse)

lemma wp_set_state: "alone E \<Longrightarrow> wp (handle E eid (SetState n msg)) (request_post eid (SetState n msg) (w_db w)) w"
proof -
  assume E: "alone E"
  show ?thesis
  proof (cases "state_named n")
    case None
    then show ?thesis by (simp add: patch_state_def wps request_post_def unknown_state_def)
  next
    case (Some st)
    have name: "state_name st = n" using Some by (auto simp: state_named_def find_Some_iff)
    show ?thesis
    proof (cases "st \<in> {EFailed, ECancelled}")
      case False
      then show ?thesis by (simp add: patch_state_def Some wps request_post_def state_not_settable_def)
    next
      case True
      show ?thesis
        unfolding handle.simps patch_state_def Some option.case wp_bind
        using True
      proof (simp only: not_True_eq_False if_False wp_bind, rule_tac wp_require [OF E refl], goal_cases)
        case (3 e w1)
        have e: "state_of eid (db_execs (w_db w)) = Some (e_state e)" using state_of_get [OF 3(4)] .
        show ?case
        proof (cases "terminal (e_state e)")
          case True
          then show ?thesis using 3(3) by (simp add: wps request_post_def)
        next
          case False
          note live = False
          show ?thesis
          proof (cases "st = ECancelled")
            case True
            show ?thesis
              using live unfolding True
              by (simp only: sum.case if_False simp_thms if_True wp_bind)
                (rule wp_use [OF wp_cancel_run [OF E 3(3)]],
                 use name True e live in \<open>auto simp: wps request_post_def assert_some_def split: sum.splits option.splits\<close>)
          next
            case failed: False
            then have st: "st = EFailed" using \<open>st \<in> {EFailed, ECancelled}\<close> by simp
            have "wp (on_execs E (\<lambda>now. update_execution_state now eid EFailed msg))
                (\<lambda>r s'. case r of Inl e \<Rightarrow> request_post eid (SetState n msg) (w_db w) (Inl e) s'
                  | Inr x \<Rightarrow> wp (bind_step (assert_some x) (\<lambda>_. return_step [])) (request_post eid (SetState n msg) (w_db w)) s') w1"
            proof (rule wp_alone_execs [OF E], goal_cases)
              case (2 a t w2)
              note c = update_state_cases [OF 2(1)]
              obtain x where a: "a = Some x" using c e 3(3) by (cases a) auto
              show ?case
                using c only_run_rows [OF 2(2)] 3(3) 2(2) e live name st
                by (auto simp: a wps wp_pair assert_some_def request_post_def)
            qed (use 3(3) alone_elapse [OF E] in \<open>simp add: request_post_def\<close>)
            then show ?thesis using live failed by (simp only: sum.case if_False wp_bind)
          qed
        qed
      qed (auto simp: request_post_def execution_not_found_def)
    qed
  qed
qed

lemma wp_retry: "alone E \<Longrightarrow> wp (handle E eid (Retry txt)) (request_post eid (Retry txt) (w_db w)) w"
  unfolding handle.simps retry_request_def wp_bind
proof (rule wp_require, assumption, rule refl, goal_cases)
  case (3 e w1)
  note E = 3(1)
  have e: "state_of eid (db_execs (w_db w)) = Some (e_state e)" using state_of_get [OF 3(3)] .
  show ?case
  proof (cases "e_state e = EPaused")
    case True
    then show ?thesis using 3(2) by (simp add: wps request_post_def)
  next
    case False
    have "wp (on_jobs E (\<lambda>now. requeue_failed now eid txt))
       (\<lambda>r s'. case r of Inl e \<Rightarrow> request_post eid (Retry txt) (w_db w) (Inl e) s'
         | Inr n \<Rightarrow> wp (bind_step (if n = 0 then return_step (0, []) else bind_step (on_execs E (\<lambda>now. reopen_execution eid)) (\<lambda>_.
               return_step (n, if e_state e = ERunning then [] else [ResumeExecution eid]))) (\<lambda>(_, tasks). return_step tasks))
             (request_post eid (Retry txt) (w_db w)) s') w1"
    proof (rule wp_alone_jobs [OF E], goal_cases)
      case (2 n js w2)
      note j = requeue_jobs_other [OF 2(1)]
      have d1: "only_run eid (w_db w) (w_db w2)" "state_of eid (db_execs (w_db w2)) = Some (e_state e)"
        using only_run_jobs [where w' = w2 and d = "w_db w" and js = js and eid = eid] 2(2) j 3(2) e by simp_all
      show ?case
      proof (cases "n = 0")
        case True
        then show ?thesis using d1 e False by (auto simp: wps wp_pair request_post_def)
      next
        case n: False
        show ?thesis
          unfolding sum.case
        proof (simp only: n if_False wp_bind, rule wp_alone_execs [OF E], goal_cases)
          case (2 a t w3)
          note c = reopen_cases [OF 2(1)]
          obtain x where a: "a = Some x" using c d1(2) by (cases a) auto
          have "only_run eid (w_db w) (w_db w3)"
            using only_run_trans [OF d1(1) only_run_rows [OF 2(2)]] c a by simp
          then show ?case using c a 2(2) e False by (auto simp: wps wp_pair request_post_def)
        qed (use d1 alone_elapse [OF E] in \<open>simp add: request_post_def\<close>)
      qed
    qed (use 3(2) alone_elapse [OF E] in \<open>simp add: request_post_def\<close>)
    then show ?thesis using False by (simp only: sum.case if_False wp_bind)
  qed
qed (auto simp: request_post_def execution_not_found_def)

lemmas wp_requests = wp_set_state wp_cancel wp_pause wp_resume wp_retry


definition calm :: environment where
  "calm = \<lparr>en_others = (\<lambda>_ s. s), en_db_fails = (\<lambda>_. False), en_send = (\<lambda>_. Sent), en_lag = (\<lambda>_ _. 0)\<rparr>"

lemma alone_calm: "alone calm"
  by (simp add: alone_def calm_def)

definition idle_world :: "executions \<Rightarrow> jobs \<Rightarrow> world" where
  "idle_world es js = \<lparr>w_db = \<lparr>db_execs = es, db_jobs = js, db_buckets = []\<rparr>, w_now = 100, w_tick = 0, w_topic = [], w_unsendable = [],
     w_track = \<lparr>t_finished = 0, t_progress_at = 0, t_warned_at = 0, t_lease_checked_at = 0\<rparr>, w_last_check = 0, w_stop = False\<rparr>"


text \<open>A retry whose second transaction fails strands its jobs: they wait to be sent in an
  execution that is finished, and the same request, sent again, finds no failed job.\<close>

lemma failed_retry_strands_the_jobs:
  fixes E S
  defines "E \<equiv> calm\<lparr>en_db_fails := (\<lambda>n. n = 2)\<rparr>"
    and "w \<equiv> idle_world [(hd lease_example)\<lparr>e_state := EFailed\<rparr>]
      [(new_row 0 (''e'', ''j'', [], 1))\<lparr>j_state := JFailed\<rparr>]"
  shows "case handle E ''e'' (Retry None) w of (r, w') \<Rightarrow>
    r = Inl DBAPIError \<and> state_of ''e'' (db_execs (w_db w')) = Some EFailed \<and> map j_state (db_jobs (w_db w')) = [JPending] \<and>
    fst (handle E ''e'' (Retry None) w') = Inr []"
  unfolding assms by code_simp

section \<open>Accepting a run\<close>

definition run_params :: "run_body \<Rightarrow> pydict" where
  "run_params b = (case rb_params b of None \<Rightarrow> [] | Some d \<Rightarrow> d)"

definition fresh_run :: "string \<Rightarrow> run_body \<Rightarrow> db \<Rightarrow> db \<Rightarrow> bool" where
  "fresh_run eid b d d' \<longleftrightarrow> get_execution eid (db_execs d) = None \<and>
     (\<exists>e. d' = d\<lparr>db_execs := db_execs d @ [e]\<rparr> \<and> e_id e = eid \<and> e_pipeline e = rb_pipeline b \<and> e_state e = EPending \<and>
        e_plan_complete e = Some False \<and> e_driver_id e = None \<and> e_runtime_params e = run_params b \<and> e_rate_limit e = rb_rate_limit b)"

text \<open>What holds when the body of the handler ends, before exceptions become responses.\<close>

definition run_post :: "service \<Rightarrow> run_body \<Rightarrow> string \<Rightarrow> db \<Rightarrow> schedules \<Rightarrow> py_error + pydict \<times> background list \<Rightarrow> service_state \<Rightarrow> bool" where
  "run_post S b eid d t r s' = (case r of
     Inr (resp, tasks) \<Rightarrow>
       (\<exists>p ps. registry_get (sv_registry S) (rb_pipeline b) = Some p \<and> get_all_parameters (sv_python S) p = Inr ps \<and>
          parameter_errors (sv_python S) p ps (apply_defaults ps (run_params b)) = []) \<and>
       fresh_run eid b d (w_db (fst s')) \<and> dget resp ''execution_id'' = Some (PStr eid) \<and>
       tasks = [DispatchJobs eid (rb_pipeline b) (run_params b) (rb_rate_limit b) (rb_mode b) (rb_enable_duplicates b)]
   | Inl e \<Rightarrow> snd s' = t \<and>
       (case e of
          HTTPException c m \<Rightarrow> c \<in> {404, 409, 422} \<and> w_db (fst s') = d
        | IntegrityError m \<Rightarrow> False
        | Interrupted \<Rightarrow> False
        | _ \<Rightarrow> w_db (fst s') = d \<or> fresh_run eid b d (w_db (fst s'))))"

lemma wp_on_world: "wp (on_world m) Q s = wp m (\<lambda>r w. Q r (w, snd s)) (fst s)"
  by (simp add: wp_def on_world_def split: prod.splits)

definition croniter_errors :: "service \<Rightarrow> bool" where
  "croniter_errors S \<longleftrightarrow> (\<forall>C c n e. sv_scheduler S = Some C \<longrightarrow> se_next C c n = Inl e \<longrightarrow> (\<exists>ty m. e = OtherError ty m))"

lemma map_sum_Inl: "map_sum id f x = Inl e \<longleftrightarrow> x = Inl e"
  by (cases x) simp_all

lemma reset_rows_error: "reset_rows C p n t = Inl e \<Longrightarrow> \<exists>c. se_next C c n = Inl e"
  by (induction C p n t rule: reset_rows.induct) (auto simp: map_sum_Inl split: if_splits sum.splits)

lemma reset_if_scheduled_cases:
  assumes "alone (sv_env S)" and "croniter_errors S" and "reset_if_scheduled S name s = (r, s')"
  shows "w_db (fst s') = w_db (fst s) \<and> (case r of Inr _ \<Rightarrow> True | Inl e \<Rightarrow> snd s' = snd s \<and> (e = DBAPIError \<or> (\<exists>ty m. e = OtherError ty m)))"
  using assms(2,3) alone_elapse [OF assms(1)]
  by (auto simp: reset_if_scheduled_def Let_def croniter_errors_def reset_schedule_def dest!: reset_rows_error
      split: sum.splits option.splits if_splits)

text \<open>The part of \<open>/run\<close> behind the checks: the execution is created, then its timer is reset.\<close>

lemma wp_create_and_reset:
  assumes E: "alone (sv_env S)" and C: "croniter_errors S"
    and "registry_get (sv_registry S) (rb_pipeline b) = Some p" "get_all_parameters (sv_python S) p = Inr ps"
    and "parameter_errors (sv_python S) p ps (apply_defaults ps (run_params b)) = []"
    and free: "get_execution eid (db_execs (w_db (fst s))) = None"
  shows "wp (bind_step (on_world (create_run (sv_env S) eid (rb_pipeline b) (run_params b) (rb_rate_limit b))) (\<lambda>_.
      bind_step (reset_if_scheduled S (rb_pipeline b)) (\<lambda>_.
      return_step (run_response eid (rb_pipeline b) u,
        [DispatchJobs eid (rb_pipeline b) (run_params b) (rb_rate_limit b) (rb_mode b) (rb_enable_duplicates b)]))))
    (run_post S b eid (w_db (fst s)) (snd s)) s"
proof -
  let ?d = "w_db (fst s)"
  have accepted: "\<exists>p ps. registry_get (sv_registry S) (rb_pipeline b) = Some p \<and> get_all_parameters (sv_python S) p = Inr ps \<and>
      parameter_errors (sv_python S) p ps (apply_defaults ps (run_params b)) = []"
    using assms(3-5) by blast
  show ?thesis
    unfolding wp_bind wp_on_world create_run_def
  proof (rule wp_alone_execs [OF E], goal_cases)
    case 1
    then show ?case using alone_elapse [OF E] by (simp add: run_post_def)
  next
    case (2 r t' w2)
    obtain now where "(case create_execution now eid (rb_pipeline b) (Some (run_params b)) (rb_rate_limit b) (db_execs ?d) of
        Inl e \<Rightarrow> (Inl e, db_execs ?d) | Inr t' \<Rightarrow> (Inr (), t')) = (r, t')"
      using 2(1) that [of "w_now w2"] by blast
    then have r: "r = Inr ()" and fresh: "fresh_run eid b ?d (w_db w2)"
      using free 2(2) by (auto simp: create_execution_def fresh_run_def get_execution_def)
    show ?case
      unfolding r sum.case
      by (simp only: wps sum.case) (rule wpI, use reset_if_scheduled_cases [OF E C] fresh accepted in
        \<open>fastforce simp: wps run_post_def run_response_def split: sum.splits\<close>)
  qed
qed

lemma wp_run_body:
  assumes E: "alone (sv_env S)" and C: "croniter_errors S"
  shows "wp (run_body_step S b eid) (run_post S b eid (w_db (fst s)) (snd s)) s"
proof (cases "registry_get (sv_registry S) (rb_pipeline b)")
  case None
  then show ?thesis by (simp add: run_body_step_def pipeline_not_found_def wps run_post_def)
next
  case (Some p)
  note body = run_body_step_def [of S b eid, unfolded Some option.case Let_def, folded run_params_def]
  show ?thesis
  proof (cases "get_all_parameters (sv_python S) p")
    case (Inl e)
    then have "\<exists>m. e = ValueError m" by (auto simp: get_all_parameters_def Let_def split: if_splits)
    then show ?thesis by (auto simp: body check_run_params_def Inl wps run_post_def)
  next
    case (Inr ps)
    show ?thesis
    proof (cases "parameter_errors (sv_python S) p ps (apply_defaults ps (run_params b)) = []")
      case False
      then show ?thesis by (simp add: body check_run_params_def Inr wps run_post_def)
    next
      case ok: True
      show ?thesis
        unfolding body check_run_params_def Inr sum.case ok simp_thms if_False wp_bind wp_on_world find_execution_def
      proof (rule wp_alone_execs [OF E], goal_cases)
        case 1
        then show ?case using alone_elapse [OF E] by (simp add: run_post_def)
      next
        case (2 a t w1)
        then have a: "a = get_execution eid (db_execs (w_db (fst s)))" and w1: "w_db w1 = w_db (fst s)" by auto
        show ?case
        proof (cases a)
          case (Some e)
          then show ?thesis using w1 by (simp add: wps run_post_def)
        next
          case None
          then show ?thesis
            using wp_create_and_reset [OF E C Some Inr ok, of eid "(w1, snd s)"] a w1
            by (simp only: sum.case simp_thms if_False fst_conv snd_conv)
        qed
      qed
    qed
  qed
qed


definition run_service :: service where
  "run_service = \<lparr>sv_env = calm, sv_python = plain_python,
     sv_registry = \<lparr>rg_pipelines = [(''user_sync'', ids_example)], rg_failures = []\<rparr>, sv_scheduler = None, sv_uuid = ''u1''\<rparr>"

definition run_example :: run_body where
  "run_example = \<lparr>rb_pipeline = ''user_sync'', rb_params = Some [(''input_ids'', PList [PInt 7])], rb_rate_limit = None,
     rb_execution_id = None, rb_mode = None, rb_enable_duplicates = None\<rparr>"


text \<open>A run whose schedules cannot be reset is refused with a 500, yet its execution stays, and
  the same request, sent again, is refused because it exists.\<close>

lemma refused_run_leaves_its_execution:
  "case run_request (run_service\<lparr>sv_env := calm\<lparr>en_db_fails := (\<lambda>n. n = 2)\<rparr>\<rparr>) (run_example\<lparr>rb_execution_id := Some ''x''\<rparr>)
      (idle_world [] [], []) of (r, (w', t')) \<Rightarrow>
     r = Inl (HTTPException 500 ''Failed to start pipeline: database error'') \<and>
     state_of ''x'' (db_execs (w_db w')) = Some EPending \<and>
     fst (run_request run_service (run_example\<lparr>rb_execution_id := Some ''x''\<rparr>) (w', t')) =
       Inl (HTTPException 409 (''Execution '' @ quoted ''x'' @ '' already exists''))"
  by code_simp

section \<open>Background tasks and restarts\<close>

text \<open>A dispatch that fails is recorded: the task itself never raises, and the execution is
  failed with the error unless the database refuses that, too.\<close>

lemma failed_dispatch_is_recorded:
  assumes "run_pipeline_jobs fuel E S P eid name params rate dups w = (Inl e, w1)" and "e \<noteq> Interrupted"
    and "\<not> en_db_fails E (w_tick w1)" and "state_of eid (db_execs (w_db (elapse E w1))) \<noteq> None"
  shows "case dispatch_task fuel E S P eid name params rate dups w of (r, w') \<Rightarrow>
    r = Inr () \<and> state_of eid (db_execs (w_db w')) = Some EFailed"
proof -
  have "is_exception e" using assms(2) by (simp add: is_exception_def)
  then have "dispatch_task fuel E S P eid name params rate dups w =
      swallow (on_execs E (\<lambda>now. update_execution_state now eid EFailed (Some (error_text e)))) w1"
    using assms(1) by (simp add: dispatch_task_def try_step_def bind_step_def)
  moreover obtain a t where u: "update_execution_state (w_now (elapse E w1)) eid EFailed (Some (error_text e)) (db_execs (w_db (elapse E w1))) = (a, t)"
    by fastforce
  have "state_of eid t = Some EFailed" using update_state_cases [OF u] assms(4) by (cases a) auto
  then have "wp (swallow (on_execs E (\<lambda>now. update_execution_state now eid EFailed (Some (error_text e)))))
      (\<lambda>r w'. r = Inr () \<and> state_of eid (db_execs (w_db w')) = Some EFailed) w1"
    using assms(3) by (simp add: swallow_def wps u)
  ultimately show ?thesis by (simp add: wp_def)
qed

lemma resumed_rows:
  assumes "\<And>e. e_id (g e) = e_id e" and "\<And>e. e_state (g e) = e_state e" and "\<And>e. e_plan_complete (g e) = e_plan_complete e"
  shows "ResumeExecution i \<in> set (map (\<lambda>e. ResumeExecution (e_id e)) (get_interrupted_executions (map g t))) \<longleftrightarrow>
    (\<exists>q \<in> set t. e_id q = i \<and> (e_state q = ERunning \<or> e_state q = EPending \<and> e_plan_complete q = Some False))"
  by (induction t) (auto simp: get_interrupted_executions_def assms)



end
