(* ===== verification/Stats.thy ===== *)
theory Stats
  imports Api Dlq "HOL-Library.AList"
begin

text \<open>
  The statistics of \<open>reflow_manager/stats_routes.py\<close>: the overview, the figures of every
  pipeline and of one, the failures, and the figures of the retry queue. A \<open>GROUP BY\<close> is
  the list of its groups with what the query computes of each; the database returns them in
  any order, so the code that folds over its rows is a function of the list of rows, and what
  it computes is proved for every order. Averages and percentages are exact rationals that
  \<open>round\<close> rounds half to even.
\<close>

subsection \<open>Rounding and grouping\<close>

definition half_even :: "rat \<Rightarrow> int" where
  "half_even x =
     (let d = x - of_int (floor x)
      in if d < 1 / 2 \<or> d = 1 / 2 \<and> even (floor x) then floor x else floor x + 1)"

definition round_to :: "nat \<Rightarrow> rat \<Rightarrow> rat" where
  "round_to n x = of_int (half_even (x * 10 ^ n)) / 10 ^ n"

definition success_rate :: "nat \<Rightarrow> nat \<Rightarrow> rat" where
  "success_rate completed failed =
     (if 0 < completed + failed
      then round_to 2 (of_nat completed / of_nat (completed + failed) * 100) else 100)"

text \<open>\<open>SELECT key, count(*) ... GROUP BY key\<close>, read into a dict with a running total.\<close>

definition count_by :: "('r \<Rightarrow> 'k) \<Rightarrow> 'r list \<Rightarrow> ('k \<times> nat) list" where
  "count_by key rows = map (\<lambda>(k, g). (k, length g)) (group_by key rows)"

definition total_of :: "('k \<times> nat) list \<Rightarrow> nat" where
  "total_of counts = foldl (\<lambda>n (_, c). n + c) 0 counts"

definition count_of :: "('k \<times> nat) list \<Rightarrow> 'k \<Rightarrow> nat" where
  "count_of counts k = (case map_of counts k of None \<Rightarrow> 0 | Some n \<Rightarrow> n)"

subsection \<open>Overview\<close>

record overview =
  ov_total_executions :: nat
  ov_executions :: "(exec_state \<times> nat) list"
  ov_total_jobs :: nat
  ov_jobs :: "(job_state \<times> nat) list"
  ov_success_rate :: rat
  ov_dlq :: "(dlq_status \<times> nat) list"

definition get_overview_stats :: "executions \<Rightarrow> jobs \<Rightarrow> dlq_job list \<Rightarrow> overview" where
  "get_overview_stats es js qs =
     (let by_exec = count_by e_state es; by_job = count_by j_state js
      in \<lparr>ov_total_executions = total_of by_exec, ov_executions = by_exec, ov_total_jobs = total_of by_job,
          ov_jobs = by_job, ov_success_rate = success_rate (count_of by_job JCompleted) (count_of by_job JFailed),
          ov_dlq = count_by q_status qs\<rparr>)"

subsection \<open>Every pipeline\<close>

record job_figures =
  jf_total :: nat
  jf_completed :: nat
  jf_failed :: nat
  jf_success_rate :: rat

record pipeline_entry =
  pe_name :: string
  pe_total :: nat
  pe_last :: "time option"
  pe_states :: "(exec_state \<times> nat) list"
  pe_jobs :: "job_figures option"

text \<open>A row of the executions by pipeline and state -- their number, the latest creation --
  and a row of the jobs by pipeline: their number, the completed, the failed.\<close>

type_synonym exec_row = "(string \<times> exec_state) \<times> nat \<times> time"
type_synonym job_row = "string \<times> nat \<times> nat \<times> nat"

definition exec_rows :: "executions \<Rightarrow> exec_row list" where
  "exec_rows es =
     map (\<lambda>(k, g). (k, length g, Max (set (map e_created_at g)))) (group_by (\<lambda>e. (e_pipeline e, e_state e)) es)"

text \<open>The join of jobs and executions: every job with its execution's pipeline.\<close>

definition jobs_with_pipeline :: "executions \<Rightarrow> jobs \<Rightarrow> (string \<times> job) list" where
  "jobs_with_pipeline es js = concat (map (\<lambda>e. map (Pair (e_pipeline e)) (filter (\<lambda>j. j_exec j = e_id e) js)) es)"

definition job_numbers :: "job list \<Rightarrow> nat \<times> nat \<times> nat" where
  "job_numbers js = (length js, count_where (\<lambda>j. j_state j = JCompleted) js, count_where (\<lambda>j. j_state j = JFailed) js)"

definition job_rows :: "executions \<Rightarrow> jobs \<Rightarrow> job_row list" where
  "job_rows es js = map (\<lambda>(p, g). (p, job_numbers (map snd g))) (group_by fst (jobs_with_pipeline es js))"

definition new_entry :: "string \<Rightarrow> pipeline_entry" where
  "new_entry p = \<lparr>pe_name = p, pe_total = 0, pe_last = None, pe_states = [], pe_jobs = None\<rparr>"

definition entry_at :: "string \<Rightarrow> (string \<times> pipeline_entry) list \<Rightarrow> pipeline_entry" where
  "entry_at p m = (case map_of m p of None \<Rightarrow> new_entry p | Some x \<Rightarrow> x)"

fun add_exec_row :: "exec_row \<Rightarrow> (string \<times> pipeline_entry) list \<Rightarrow> (string \<times> pipeline_entry) list" where
  "add_exec_row ((p, st), n, latest) m =
     (let x = entry_at p m
      in AList.update p
           (x\<lparr>pe_total := pe_total x + n, pe_states := AList.update st n (pe_states x),
              pe_last := (case pe_last x of
                  None \<Rightarrow> Some latest | Some t \<Rightarrow> if t < latest then Some latest else Some t)\<rparr>) m)"

definition figures :: "nat \<times> nat \<times> nat \<Rightarrow> job_figures" where
  "figures r = (case r of (n, c, f) \<Rightarrow>
     \<lparr>jf_total = n, jf_completed = c, jf_failed = f, jf_success_rate = success_rate c f\<rparr>)"

fun add_job_row :: "job_row \<Rightarrow> (string \<times> pipeline_entry) list \<Rightarrow> (string \<times> pipeline_entry) list" where
  "add_job_row (p, r) m =
     (case map_of m p of None \<Rightarrow> m | Some x \<Rightarrow> AList.update p (x\<lparr>pe_jobs := Some (figures r)\<rparr>) m)"

definition set_defaults :: "pipeline_entry \<Rightarrow> pipeline_entry" where
  "set_defaults x =
     (case pe_jobs x of
        None \<Rightarrow> x\<lparr>pe_jobs := Some \<lparr>jf_total = 0, jf_completed = 0, jf_failed = 0, jf_success_rate = 100\<rparr>\<rparr>
      | Some _ \<Rightarrow> x)"

definition pipeline_stats_of :: "exec_row list \<Rightarrow> job_row list \<Rightarrow> pipeline_entry list" where
  "pipeline_stats_of ers jrs = map (set_defaults \<circ> snd) (fold add_job_row jrs (fold add_exec_row ers []))"

definition get_pipeline_stats :: "executions \<Rightarrow> jobs \<Rightarrow> pipeline_entry list" where
  "get_pipeline_stats es js = pipeline_stats_of (exec_rows es) (job_rows es js)"

subsection \<open>One pipeline\<close>

record pipeline_detail =
  pl_name :: string
  pl_total :: nat
  pl_states :: "(exec_state \<times> nat) list"
  pl_jobs :: job_figures
  pl_recent :: executions

datatype pipeline_report = NeverRun pydict | Report pipeline_detail

text \<open>A pipeline that never ran: zeros, with the metadata of the registered pipeline over them.\<close>

definition zero_figures :: "string \<Rightarrow> pydict" where
  "zero_figures name =
     [(''pipeline_name'', PStr name), (''total_executions'', PInt 0), (''executions_by_state'', PDict []),
      (''total_jobs'', PInt 0), (''jobs_completed'', PInt 0), (''jobs_failed'', PInt 0), (''success_rate'', PFloat 100),
      (''recent_executions'', PList [])]"

definition never_run :: "service \<Rightarrow> string \<Rightarrow> py_error + pydict" where
  "never_run S name =
     (case registry_get (sv_registry S) name of
        None \<Rightarrow> Inl (HTTPException 404 (''Pipeline '' @ quoted name @ '' not found in registry or execution history''))
      | Some p \<Rightarrow>
          (case pipeline_to_dict (sv_python S) p of
             Inl e \<Rightarrow> Inl e
           | Inr meta \<Rightarrow> Inr (dupdate (zero_figures name) (dfilter (\<lambda>k. k \<noteq> ''name'') meta))))"

definition recent_executions :: "string \<Rightarrow> nat \<Rightarrow> executions \<Rightarrow> executions" where
  "recent_executions name limit es =
     take limit (sort_key (\<lambda>e. - e_created_at e) (filter (\<lambda>e. e_pipeline e = name) es))"

definition get_pipeline_detail :: "service \<Rightarrow> string \<Rightarrow> nat \<Rightarrow> executions \<Rightarrow> jobs \<Rightarrow> py_error + pipeline_report" where
  "get_pipeline_detail S name limit es js =
     (let mine = filter (\<lambda>e. e_pipeline e = name) es
      in if length mine = 0
         then (case never_run S name of Inl e \<Rightarrow> Inl e | Inr d \<Rightarrow> Inr (NeverRun d))
         else
           (let by_exec = count_by e_state mine
            in Inr (Report \<lparr>pl_name = name, pl_total = total_of by_exec, pl_states = by_exec,
                 pl_jobs = figures (job_numbers (map snd (filter (\<lambda>(p, _). p = name) (jobs_with_pipeline es js)))),
                 pl_recent = recent_executions name limit es\<rparr>)))"

subsection \<open>Failures\<close>

text \<open>An absent or empty name is no filter.\<close>

definition is_named_pipeline :: "string option \<Rightarrow> string \<Rightarrow> bool" where
  "is_named_pipeline name p \<longleftrightarrow> (case name of None \<Rightarrow> True | Some n \<Rightarrow> n = [] \<or> p = n)"

text \<open>\<open>ORDER BY completed_at DESC\<close>: nulls come first.\<close>

definition newest_first :: "time option \<Rightarrow> nat \<times> rat" where
  "newest_first t = (case t of None \<Rightarrow> (0, 0) | Some s \<Rightarrow> (1, - s))"

record failure_stats =
  fs_executions :: executions
  fs_total_executions :: nat
  fs_total_jobs :: nat

definition get_failure_stats :: "string option \<Rightarrow> nat \<Rightarrow> executions \<Rightarrow> jobs \<Rightarrow> failure_stats" where
  "get_failure_stats name limit es js =
     (let failed = filter (\<lambda>e. e_state e = EFailed \<and> is_named_pipeline name (e_pipeline e)) es;
          unfiltered = (case name of None \<Rightarrow> True | Some n \<Rightarrow> n = [])
      in \<lparr>fs_executions = take limit (sort_key (newest_first \<circ> e_completed_at) failed),
          fs_total_executions = length failed,
          fs_total_jobs =
            (if unfiltered then count_where (\<lambda>j. j_state j = JFailed) js
             else count_where (\<lambda>(p, j). j_state j = JFailed \<and> is_named_pipeline name p) (jobs_with_pipeline es js))\<rparr>)"

subsection \<open>The retry queue\<close>

record dlq_entry =
  dp_name :: string
  dp_pending :: nat
  dp_processing :: nat
  dp_completed :: nat
  dp_failed :: nat
  dp_archived :: nat
  dp_avg_retry :: rat
  dp_oldest_pending :: "time option"

text \<open>A row of the queue by pipeline and status: their number, the average of \<open>retry_count\<close> and,
  for the pending ones, the oldest creation.\<close>

type_synonym dlq_row = "(string \<times> dlq_status) \<times> nat \<times> rat \<times> time option"

definition dlq_row_of :: "(string \<times> dlq_status) \<times> dlq_job list \<Rightarrow> dlq_row" where
  "dlq_row_of r = (case r of (k, g) \<Rightarrow>
     (k, length g, of_nat (sum_list (map q_retry g)) / of_nat (length g),
      let pending = filter (\<lambda>q. q_status q = DPending) g
      in if pending = [] then None else Some (Min (set (map q_created pending)))))"

definition dlq_rows :: "dlq_job list \<Rightarrow> dlq_row list" where
  "dlq_rows qs = map dlq_row_of (group_by (\<lambda>q. (q_pipeline q, q_status q)) qs)"

definition new_dlq_entry :: "string \<Rightarrow> nat \<Rightarrow> dlq_entry" where
  "new_dlq_entry p archived =
     \<lparr>dp_name = p, dp_pending = 0, dp_processing = 0, dp_completed = 0, dp_failed = 0, dp_archived = archived,
      dp_avg_retry = 0, dp_oldest_pending = None\<rparr>"

text \<open>\<open>if dlq_status in p: p[dlq_status] = count\<close>: a cancelled job has no figure.\<close>

definition set_status :: "dlq_status \<Rightarrow> nat \<Rightarrow> dlq_entry \<Rightarrow> dlq_entry" where
  "set_status st n x =
     (case st of
        DPending \<Rightarrow> x\<lparr>dp_pending := n\<rparr> | DProcessing \<Rightarrow> x\<lparr>dp_processing := n\<rparr>
      | DCompleted \<Rightarrow> x\<lparr>dp_completed := n\<rparr> | DCancelled \<Rightarrow> x)"

text \<open>The map of the pipelines, and beside it the sum of the retries and the number of jobs each has so far.\<close>

type_synonym dlq_totals = "(string \<times> dlq_entry) list \<times> (string \<times> rat \<times> nat) list"

fun add_dlq_row :: "dlq_row \<Rightarrow> dlq_totals \<Rightarrow> dlq_totals" where
  "add_dlq_row ((p, st), n, avg, oldest) (m, ts) =
     (let x = (case map_of m p of None \<Rightarrow> new_dlq_entry p 0 | Some x \<Rightarrow> x);
          (s, c) = (case map_of ts p of None \<Rightarrow> (0, 0) | Some t \<Rightarrow> t);
          s' = s + avg * of_nat n; c' = c + n;
          x1 = (set_status st n x)\<lparr>dp_avg_retry := if c' \<noteq> 0 then round_to 1 (s' / of_nat c') else 0\<rparr>;
          x2 = (if st = DPending \<and> oldest \<noteq> None then x1\<lparr>dp_oldest_pending := oldest\<rparr> else x1)
      in (AList.update p x2 m, AList.update p (s', c') ts))"

fun add_archived_row :: "string \<times> nat \<Rightarrow> (string \<times> dlq_entry) list \<Rightarrow> (string \<times> dlq_entry) list" where
  "add_archived_row (p, n) m =
     (case map_of m p of
        None \<Rightarrow> AList.update p (new_dlq_entry p n) m
      | Some x \<Rightarrow> AList.update p (x\<lparr>dp_archived := n\<rparr>) m)"

definition dlq_entries :: "dlq_row list \<Rightarrow> (string \<times> nat) list \<Rightarrow> dlq_entry list" where
  "dlq_entries rows archived = map snd (fold add_archived_row archived (fst (fold add_dlq_row rows ([], []))))"

record dlq_stats =
  ds_total :: nat
  ds_by_status :: "(dlq_status \<times> nat) list"
  ds_archived :: nat
  ds_pipelines :: "dlq_entry list"

definition get_dlq_stats :: "string option \<Rightarrow> dlq_job list \<Rightarrow> dlq_archived list \<Rightarrow> dlq_stats" where
  "get_dlq_stats name qs ars =
     (let qs = filter (\<lambda>q. is_named_pipeline name (q_pipeline q)) qs; ars = filter (\<lambda>a. is_named_pipeline name (a_pipeline a)) ars;
          by_status = count_by q_status qs
      in \<lparr>ds_total = total_of by_status, ds_by_status = by_status, ds_archived = length ars,
          ds_pipelines = dlq_entries (dlq_rows qs) (count_by a_pipeline ars)\<rparr>)"


section \<open>Lemmas\<close>

subsection \<open>Groups\<close>

lemma map_of_add_to_group:
  "map_of (add_to_group k x gs) k' =
     (if k' = k then Some ((case map_of gs k of None \<Rightarrow> [] | Some g \<Rightarrow> g) @ [x]) else map_of gs k')"
  by (induction k x gs rule: add_to_group.induct) auto

lemma fst_add_to_group: "fst ` set (add_to_group k x gs) = insert k (fst ` set gs)"
  by (induction k x gs rule: add_to_group.induct) auto

lemma distinct_add_to_group: "distinct (map fst gs) \<Longrightarrow> distinct (map fst (add_to_group k x gs))"
  using fst_add_to_group by (induction k x gs rule: add_to_group.induct) (auto simp: fst_add_to_group)

lemma group_by_snoc: "group_by key (xs @ [x]) = add_to_group (key x) x (group_by key xs)"
  by (simp add: group_by_def)

lemma group_by_Nil [simp]: "group_by key [] = []"
  by (simp add: group_by_def)

lemma distinct_groups: "distinct (map fst (group_by key xs))"
  by (induction xs rule: rev_induct) (simp_all add: group_by_snoc distinct_add_to_group)

lemma keys_of_groups: "fst ` set (group_by key xs) = key ` set xs"
  by (induction xs rule: rev_induct) (auto simp: group_by_snoc fst_add_to_group)

lemma map_of_groups:
  "map_of (group_by key xs) k = (let g = filter (\<lambda>x. key x = k) xs in if g = [] then None else Some g)"
  by (induction xs rule: rev_induct) (auto simp: group_by_snoc map_of_add_to_group Let_def)

lemma sum_add_to_group:
  fixes h :: "'a \<Rightarrow> 'n::comm_monoid_add"
  shows "(\<Sum>(k, g)\<leftarrow>add_to_group k x gs. if P k then sum_list (map h g) else 0) =
    (\<Sum>(k, g)\<leftarrow>gs. if P k then sum_list (map h g) else 0) + (if P k then h x else 0)"
  by (induction k x gs rule: add_to_group.induct) (auto simp: ac_simps)

lemma sum_of_groups:
  fixes h :: "'a \<Rightarrow> 'n::comm_monoid_add"
  shows "(\<Sum>(k, g)\<leftarrow>group_by key xs. if P k then sum_list (map h g) else 0) = sum_list (map h (filter (\<lambda>x. P (key x)) xs))"
  by (induction xs rule: rev_induct) (simp_all add: group_by_snoc sum_add_to_group)

text \<open>Rows in another order, with keys of their own, are the same map.\<close>

lemma map_of_reordered:
  assumes "mset xs = mset ys" "distinct (map fst ys)"
  shows "map_of xs = map_of ys" "distinct (map fst xs)" "set xs = set ys"
proof -
  have "mset (map fst xs) = mset (map fst ys)" using assms(1) by simp
  then show d: "distinct (map fst xs)" using assms(2) by (metis mset_eq_imp_distinct_iff)
  show s: "set xs = set ys" using assms(1) by (rule mset_eq_setD)
  show "map_of xs = map_of ys" using d assms(2) s by (simp add: map_of_inject_set)
qed

lemma sum_reordered:
  fixes f :: "'a \<Rightarrow> 'n::comm_monoid_add"
  shows "mset xs = mset ys \<Longrightarrow> sum_list (map f xs) = sum_list (map f ys)"
  by (metis mset_map sum_mset_sum_list)

lemma total_of_eq: "total_of cs = sum_list (map snd cs)"
proof -
  have "foldl (\<lambda>n (_, c). n + c) m cs = m + sum_list (map snd cs)" for m
    by (induction cs arbitrary: m) auto
  then show ?thesis by (simp add: total_of_def)
qed

lemma total_of_counts [simp]: "total_of (count_by key xs) = length xs"
  using sum_of_groups [of "\<lambda>_. True" "\<lambda>_. 1::nat" key xs]
  by (simp add: total_of_eq count_by_def sum_list_triv comp_def case_prod_unfold)

lemma count_of_counts: "count_of (count_by key xs) k = count_where (\<lambda>x. key x = k) xs"
proof -
  have "map_of (count_by key xs) k = map_option length (map_of (group_by key xs) k)"
    unfolding count_by_def by (simp add: map_of_map)
  then show ?thesis by (simp add: count_of_def map_of_groups count_where_def Let_def)
qed

subsection \<open>Rounding\<close>

lemma half_even_near: "\<bar>of_int (half_even x) - x\<bar> \<le> 1 / 2"
  using floor_correct [of x] unfolding half_even_def Let_def by (auto simp: abs_le_iff)

lemma round_to_near: "\<bar>round_to n x - x\<bar> \<le> 1 / 2 / 10 ^ n"
proof -
  have "round_to n x - x = (of_int (half_even (x * 10 ^ n)) - x * 10 ^ n) / 10 ^ n"
    by (simp add: round_to_def diff_divide_distrib)
  then have "\<bar>round_to n x - x\<bar> = \<bar>of_int (half_even (x * 10 ^ n)) - x * 10 ^ n\<bar> / 10 ^ n"
    by (simp add: abs_divide)
  also have "\<dots> \<le> 1 / 2 / 10 ^ n"
    by (rule divide_right_mono [OF half_even_near]) simp
  finally show ?thesis .
qed

lemma half_even_mono_int: "of_int a \<le> x \<Longrightarrow> x \<le> of_int b \<Longrightarrow> a \<le> half_even x \<and> half_even x \<le> b"
proof -
  assume "of_int a \<le> x" "x \<le> of_int b"
  then have "a \<le> floor x" "floor x \<le> b" by linarith+
  moreover have "floor x + 1 \<le> b" if "\<not> x - of_int (floor x) < 1 / 2"
    using that \<open>x \<le> of_int b\<close> by linarith
  ultimately show ?thesis by (auto simp: half_even_def Let_def)
qed

lemma success_rate_percent: "0 \<le> success_rate c f \<and> success_rate c f \<le> 100"
proof (cases "0 < c + f")
  case True
  let ?x = "(of_nat c :: rat) / of_nat (c + f) * 100 * 10 ^ 2"
  have "0 \<le> half_even ?x \<and> half_even ?x \<le> 10000"
    using True by (intro half_even_mono_int) (auto simp: divide_simps)
  then show ?thesis using True by (auto simp: success_rate_def round_to_def divide_simps)
qed (simp add: success_rate_def)


subsection \<open>The figures of the retry queue\<close>

text \<open>What the rows read so far say of a pipeline.\<close>

definition n_at :: "dlq_row list \<Rightarrow> string \<times> dlq_status \<Rightarrow> nat" where
  "n_at R k = (case map_of R k of None \<Rightarrow> 0 | Some (n, _) \<Rightarrow> n)"

definition oldest_at :: "dlq_row list \<Rightarrow> string \<Rightarrow> time option" where
  "oldest_at R p = (case map_of R (p, DPending) of None \<Rightarrow> None | Some (_, _, t) \<Rightarrow> t)"

definition retries_at :: "dlq_row list \<Rightarrow> string \<Rightarrow> rat" where
  "retries_at R p = (\<Sum>((q, _), n, avg, _)\<leftarrow>R. if q = p then avg * of_nat n else 0)"

definition number_at :: "dlq_row list \<Rightarrow> string \<Rightarrow> nat" where
  "number_at R p = (\<Sum>((q, _), n, _)\<leftarrow>R. if q = p then n else 0)"

definition entry_of_rows :: "dlq_row list \<Rightarrow> string \<Rightarrow> dlq_entry" where
  "entry_of_rows R p =
     \<lparr>dp_name = p, dp_pending = n_at R (p, DPending), dp_processing = n_at R (p, DProcessing),
      dp_completed = n_at R (p, DCompleted), dp_failed = 0, dp_archived = 0,
      dp_avg_retry = (if number_at R p \<noteq> 0 then round_to 1 (retries_at R p / of_nat (number_at R p)) else 0),
      dp_oldest_pending = oldest_at R p\<rparr>"

lemma unread: "k \<notin> fst ` set R \<Longrightarrow> map_of R k = None"
  by (simp add: map_of_eq_None_iff)

lemma n_at_snoc: "k \<notin> fst ` set R \<Longrightarrow> n_at (R @ [(k, n, a, t)]) k' = (if k' = k then n else n_at R k')"
  by (simp add: n_at_def map_add_def unread split: option.splits)

lemma oldest_at_snoc:
  "k \<notin> fst ` set R \<Longrightarrow> oldest_at (R @ [(k, n, a, t)]) p = (if (p, DPending) = k then t else oldest_at R p)"
  by (auto simp: oldest_at_def map_add_def unread split: option.splits)

lemma oldest_at_fresh: "(p, DPending) \<notin> fst ` set R \<Longrightarrow> oldest_at R p = None"
  by (simp add: oldest_at_def unread)

lemma sums_snoc:
  "retries_at (R @ [((q, st), n, a, t)]) p = retries_at R p + (if q = p then a * of_nat n else 0)"
  "number_at (R @ [((q, st), n, a, t)]) p = number_at R p + (if q = p then n else 0)"
  by (simp_all add: retries_at_def number_at_def)

lemma unread_pipeline:
  assumes "p \<notin> fst ` fst ` set R"
  shows "entry_of_rows R p = new_dlq_entry p 0" "retries_at R p = 0" "number_at R p = 0"
proof -
  have none: "map_of R (p, st) = None" for st
    using assms by (intro unread) force
  have "\<forall>((q, _), _) \<in> set R. q \<noteq> p" using assms by force
  then show s: "retries_at R p = 0" and c: "number_at R p = 0"
    by (induction R) (auto simp: retries_at_def number_at_def)
  show "entry_of_rows R p = new_dlq_entry p 0"
    by (simp add: entry_of_rows_def new_dlq_entry_def n_at_def oldest_at_def none c)
qed

lemma add_dlq_row_map: "\<exists>x. fst (add_dlq_row ((p, st), r) mt) = AList.update p x (fst mt)"
  by (cases r; cases mt) (auto simp: Let_def split: prod.split)

lemma fold_dlq_rows:
  "distinct (map fst R) \<Longrightarrow> fold add_dlq_row R ([], []) = (m, ts) \<Longrightarrow>
     map_of m = (\<lambda>p. if p \<in> fst ` fst ` set R then Some (entry_of_rows R p) else None) \<and>
     map_of ts = (\<lambda>p. if p \<in> fst ` fst ` set R then Some (retries_at R p, number_at R p) else None) \<and>
     distinct (map fst m)"
proof (induction R arbitrary: m ts rule: rev_induct)
  case (snoc r R)
  obtain p st n a t where r: "r = ((p, st), n, a, t)" by (cases r) auto
  obtain m0 ts0 where f: "fold add_dlq_row R ([], []) = (m0, ts0)" by (cases "fold add_dlq_row R ([], [])")
  note IH = snoc.IH [OF _ f]
  have d: "distinct (map fst R)" and fresh: "(p, st) \<notin> fst ` set R" using snoc.prems(1) r by auto
  have m0: "map_of m0 q = (if q \<in> fst ` fst ` set R then Some (entry_of_rows R q) else None)"
    and ts0: "map_of ts0 q = (if q \<in> fst ` fst ` set R then Some (retries_at R q, number_at R q) else None)" for q
    using IH [OF d] by simp_all
  have entry: "(case map_of m0 p of None \<Rightarrow> new_dlq_entry p 0 | Some x \<Rightarrow> x) = entry_of_rows R p"
    and total: "(case map_of ts0 p of None \<Rightarrow> (0, 0) | Some t \<Rightarrow> t) = (retries_at R p, number_at R p)"
    using unread_pipeline [of p R] by (simp_all add: m0 ts0)
  have other: "entry_of_rows (R @ [r]) q = entry_of_rows R q" if "q \<noteq> p" for q
    using that fresh by (simp add: r entry_of_rows_def n_at_snoc oldest_at_snoc sums_snoc)
  have run: "(m, ts) = add_dlq_row ((p, st), n, a, t) (m0, ts0)"
    using snoc.prems(2) by (simp add: f r)
  have new: "map_of m p = Some (entry_of_rows (R @ [r]) p)"
    using run fresh oldest_at_fresh [of p R]
    by (cases st) (simp_all add: entry total Let_def update_conv' entry_of_rows_def n_at_snoc oldest_at_snoc sums_snoc r set_status_def)
  have "\<exists>x. m = AList.update p x m0"
    using add_dlq_row_map [of p st "(n, a, t)" "(m0, ts0)"] run by (metis fst_conv)
  moreover have "ts = AList.update p (retries_at (R @ [r]) p, number_at (R @ [r]) p) ts0"
    using run by (simp add: total Let_def sums_snoc r)
  moreover have "fst ` fst ` set (R @ [r]) = insert p (fst ` fst ` set R)" by (simp add: r)
  moreover have "distinct (map fst m0)" using IH [OF d] by simp
  ultimately show ?case
    using new other m0 ts0
    by (elim exE, simp only: update_conv' fun_upd_apply distinct_update if_True fun_eq_iff)
      (simp add: update_conv' sums_snoc r)
qed simp

lemma fold_archived_rows:
  "distinct (map fst A) \<Longrightarrow> distinct (map fst m) \<Longrightarrow>
     map_of (fold add_archived_row A m) = (\<lambda>p. case map_of A p of
         None \<Rightarrow> map_of m p
       | Some n \<Rightarrow> Some ((case map_of m p of None \<Rightarrow> new_dlq_entry p 0 | Some x \<Rightarrow> x)\<lparr>dp_archived := n\<rparr>)) \<and>
     distinct (map fst (fold add_archived_row A m))"
proof (induction A arbitrary: m)
  case (Cons a A)
  obtain p n where a: "a = (p, n)" by (cases a)
  have p: "map_of A p = None" using Cons.prems(1) by (simp add: a map_of_eq_None_iff)
  have step: "map_of (add_archived_row a m) =
      (map_of m)(p \<mapsto> (case map_of m p of None \<Rightarrow> new_dlq_entry p 0 | Some x \<Rightarrow> x)\<lparr>dp_archived := n\<rparr>)"
    by (simp add: a update_conv' new_dlq_entry_def split: option.split)
  have d: "distinct (map fst (add_archived_row a m))"
    using Cons.prems(2) by (auto simp: a distinct_update split: option.split)
  have keys: "map_of (a # A) q = (if q = p then Some n else map_of A q)" for q
    by (simp add: a)
  have "distinct (map fst A)" using Cons.prems(1) by simp
  note IH = Cons.IH [OF this d]
  have run: "fold add_archived_row (a # A) m = fold add_archived_row A (add_archived_row a m)" by simp
  show ?case
    unfolding run IH [THEN conjunct1] step keys using IH [THEN conjunct2] p by (auto simp: fun_eq_iff split: option.split)
qed simp

text \<open>The figures of a pipeline, computed from the tables.\<close>

definition dlq_figures :: "dlq_job list \<Rightarrow> dlq_archived list \<Rightarrow> string \<Rightarrow> dlq_entry" where
  "dlq_figures qs ars p =
     (let mine = filter (\<lambda>q. q_pipeline q = p) qs;
          n = (\<lambda>st. count_where (\<lambda>q. q_status q = st) mine);
          pending = map q_created (filter (\<lambda>q. q_status q = DPending) mine)
      in \<lparr>dp_name = p, dp_pending = n DPending, dp_processing = n DProcessing, dp_completed = n DCompleted, dp_failed = 0,
          dp_archived = count_where (\<lambda>a. a_pipeline a = p) ars,
          dp_avg_retry = (if mine = [] then 0
            else round_to 1 (of_nat (sum_list (map q_retry mine)) / of_nat (length mine))),
          dp_oldest_pending = (if pending = [] then None else Some (Min (set pending)))\<rparr>)"

lemma rows_of_groups: "dlq_rows qs = map (\<lambda>(k, g). (k, snd (dlq_row_of (k, g)))) (group_by (\<lambda>q. (q_pipeline q, q_status q)) qs)"
  by (simp add: dlq_rows_def dlq_row_of_def case_prod_unfold)

lemma distinct_dlq_rows: "distinct (map fst (dlq_rows qs))"
  using distinct_groups [of "\<lambda>q. (q_pipeline q, q_status q)" qs] by (simp add: rows_of_groups comp_def case_prod_unfold)

lemma distinct_counts: "distinct (map fst (count_by key xs))"
  using distinct_groups [of key xs] by (simp add: count_by_def comp_def case_prod_unfold)

lemma keys_of_dlq_rows: "fst ` fst ` set (dlq_rows qs) = q_pipeline ` set qs"
proof -
  have "fst ` set (dlq_rows qs) = fst ` set (group_by (\<lambda>q. (q_pipeline q, q_status q)) qs)"
    by (force simp: rows_of_groups)
  also have "\<dots> = (\<lambda>q. (q_pipeline q, q_status q)) ` set qs" by (rule keys_of_groups)
  finally show ?thesis by (simp add: image_image)
qed

lemma map_of_dlq_rows:
  "map_of (dlq_rows qs) (p, st) =
     (let g = filter (\<lambda>q. q_pipeline q = p \<and> q_status q = st) qs
      in if g = [] then None else Some (snd (dlq_row_of ((p, st), g))))"
  unfolding rows_of_groups by (simp add: map_of_map map_of_groups dlq_row_of_def Let_def)

lemma of_nat_sum_list: "of_nat (sum_list (map f xs)) = sum_list (map (\<lambda>x. of_nat (f x)) xs)"
  by (induction xs) simp_all

lemma sums_of_dlq_rows:
  "retries_at (dlq_rows qs) p = of_nat (sum_list (map q_retry (filter (\<lambda>q. q_pipeline q = p) qs)))"
  "number_at (dlq_rows qs) p = length (filter (\<lambda>q. q_pipeline q = p) qs)"
proof -
  let ?gs = "group_by (\<lambda>q. (q_pipeline q, q_status q)) qs"
  have nonempty: "g \<noteq> []" if "(k, g) \<in> set ?gs" for k g
    using group_by_keys [of "\<lambda>q. (q_pipeline q, q_status q)" qs] that by auto
  have "retries_at (dlq_rows qs) p = (\<Sum>(k, g)\<leftarrow>?gs. if fst k = p then sum_list (map (\<lambda>q. of_nat (q_retry q)) g) else 0)"
    unfolding retries_at_def dlq_rows_def map_map
    by (rule arg_cong [where f = sum_list], rule map_cong [OF refl])
      (auto simp: dlq_row_of_def of_nat_sum_list comp_def dest: nonempty)
  then show "retries_at (dlq_rows qs) p = of_nat (sum_list (map q_retry (filter (\<lambda>q. q_pipeline q = p) qs)))"
    by (simp add: sum_of_groups of_nat_sum_list comp_def)
  have "number_at (dlq_rows qs) p = (\<Sum>(k, g)\<leftarrow>?gs. if fst k = p then sum_list (map (\<lambda>q. 1) g) else 0)"
    unfolding number_at_def dlq_rows_def map_map
    by (rule arg_cong [where f = sum_list], rule map_cong [OF refl])
      (auto simp: dlq_row_of_def sum_list_triv)
  then show "number_at (dlq_rows qs) p = length (filter (\<lambda>q. q_pipeline q = p) qs)"
    by (simp add: sum_of_groups sum_list_triv)
qed

lemma entry_of_dlq_rows: "(entry_of_rows (dlq_rows qs) p)\<lparr>dp_archived := count_where (\<lambda>a. a_pipeline a = p) ars\<rparr> = dlq_figures qs ars p"
proof -
  have n: "n_at (dlq_rows qs) (p, st) = count_where (\<lambda>q. q_status q = st) (filter (\<lambda>q. q_pipeline q = p) qs)" for st
    by (simp add: n_at_def map_of_dlq_rows Let_def dlq_row_of_def count_where_def conj_commute)
  have oldest: "oldest_at (dlq_rows qs) p =
      (let ts = map q_created (filter (\<lambda>q. q_status q = DPending) (filter (\<lambda>q. q_pipeline q = p) qs))
       in if ts = [] then None else Some (Min (set ts)))"
    by (auto simp: oldest_at_def map_of_dlq_rows Let_def dlq_row_of_def conj_commute filter_empty_conv)
  show ?thesis
    by (simp add: entry_of_rows_def dlq_figures_def n oldest sums_of_dlq_rows Let_def)
qed

lemma map_of_counts: "map_of (count_by key xs) k = (let n = count_where (\<lambda>x. key x = k) xs in if n = 0 then None else Some n)"
  by (simp add: count_by_def map_of_map map_of_groups count_where_def Let_def)

text \<open>Whatever order the database returns its groups in, the retry queue's statistics have
  one entry for every pipeline with a queued or an archived job, and it holds the numbers of
  its pending, processing, completed and archived jobs, the average number of retries over
  all of its queued jobs -- the weighted mean of the averages per status -- rounded to one
  decimal, and the creation of its oldest pending job.\<close>

theorem dlq_figures_cover_all_jobs:
  assumes "mset rows = mset (dlq_rows qs)" "mset archived = mset (count_by a_pipeline ars)"
  shows "distinct (map dp_name (dlq_entries rows archived))
    \<and> set (dlq_entries rows archived) = dlq_figures qs ars ` (q_pipeline ` set qs \<union> a_pipeline ` set ars)"
proof -
  note r = map_of_reordered [OF assms(1) distinct_dlq_rows] and a = map_of_reordered [OF assms(2) distinct_counts]
  obtain m ts where f: "fold add_dlq_row rows ([], []) = (m, ts)" by (cases "fold add_dlq_row rows ([], [])")
  define M where "M = fold add_archived_row archived m"
  have sums: "retries_at rows p = retries_at (dlq_rows qs) p" "number_at rows p = number_at (dlq_rows qs) p" for p
    unfolding retries_at_def number_at_def by (rule sum_reordered [OF assms(1)])+
  have same: "entry_of_rows rows p = entry_of_rows (dlq_rows qs) p" for p
    unfolding entry_of_rows_def n_at_def oldest_at_def r(1) sums ..
  have m: "map_of m p = (if p \<in> q_pipeline ` set qs then Some (entry_of_rows (dlq_rows qs) p) else None)"
    and dm: "distinct (map fst m)" for p
    using fold_dlq_rows [OF r(2) f] r(3) keys_of_dlq_rows [of qs] by (simp_all add: same)
  have none: "entry_of_rows (dlq_rows qs) p = new_dlq_entry p 0" if "p \<notin> q_pipeline ` set qs" for p
    using unread_pipeline(1) [of p "dlq_rows qs"] that by (simp add: keys_of_dlq_rows)
  have entry: "(case map_of m p of None \<Rightarrow> new_dlq_entry p 0 | Some x \<Rightarrow> x) = entry_of_rows (dlq_rows qs) p" for p
    by (simp add: m none)
  have M: "map_of M p = (if p \<in> q_pipeline ` set qs \<union> a_pipeline ` set ars then Some (dlq_figures qs ars p) else None)"
    and dM: "distinct (map fst M)" for p
  proof -
    have archived: "(entry_of_rows (dlq_rows qs) p)\<lparr>dp_archived := 0\<rparr> = entry_of_rows (dlq_rows qs) p"
      by (simp add: entry_of_rows_def)
    have "map_of M p = (case map_of (count_by a_pipeline ars) p of
        None \<Rightarrow> map_of m p | Some n \<Rightarrow> Some ((entry_of_rows (dlq_rows qs) p)\<lparr>dp_archived := n\<rparr>))"
      unfolding M_def fold_archived_rows [OF a(2) dm, THEN conjunct1] a(1) entry ..
    moreover have "count_where (\<lambda>a. a_pipeline a = p) ars = 0 \<longleftrightarrow> p \<notin> a_pipeline ` set ars"
      by (auto simp: count_where_def filter_empty_conv)
    ultimately show "map_of M p = (if p \<in> q_pipeline ` set qs \<union> a_pipeline ` set ars then Some (dlq_figures qs ars p) else None)"
      using archived by (auto simp: map_of_counts Let_def m entry_of_dlq_rows [symmetric])
    show "distinct (map fst M)"
      unfolding M_def by (rule fold_archived_rows [OF a(2) dm, THEN conjunct2])
  qed
  have each: "x = dlq_figures qs ars p \<and> p \<in> q_pipeline ` set qs \<union> a_pipeline ` set ars" if "(p, x) \<in> set M" for p x
    using map_of_is_SomeI [OF dM that] by (simp add: M split: if_splits)
  have "dp_name (dlq_figures qs ars p) = p" for p by (simp add: dlq_figures_def Let_def)
  then have names: "map dp_name (map snd M) = map fst M" by (auto dest: each)
  have "set (map snd M) = dlq_figures qs ars ` (q_pipeline ` set qs \<union> a_pipeline ` set ars)"
  proof (rule set_eqI)
    fix x
    have "x \<in> set (map snd M) \<longleftrightarrow> (\<exists>p. map_of M p = Some x)"
      using dM by (auto simp: map_of_eq_Some_iff intro: rev_image_eqI)
    also have "\<dots> \<longleftrightarrow> x \<in> dlq_figures qs ars ` (q_pipeline ` set qs \<union> a_pipeline ` set ars)"
      by (auto simp: M split: if_splits)
    finally show "x \<in> set (map snd M) \<longleftrightarrow> x \<in> dlq_figures qs ars ` (q_pipeline ` set qs \<union> a_pipeline ` set ars)" .
  qed
  moreover have "distinct (map dp_name (map snd M))" unfolding names by (rule dM)
  ultimately show ?thesis
    by (simp only: dlq_entries_def f M_def fst_conv simp_thms)
qed

definition queued :: "int \<Rightarrow> string \<Rightarrow> dlq_status \<Rightarrow> nat \<Rightarrow> time \<Rightarrow> dlq_job" where
  "queued i p st retries created =
     \<lparr>q_id = i, q_payload = [], q_pipeline = p, q_scheduled_at = 0, q_delay = 60, q_status = st, q_retry = retries,
      q_max = 5, q_error = None, q_created = created, q_updated = created, q_processed = None, q_execution = None\<rparr>"

lemma dlq_figures_cover_all_jobs_witness:
  "let qs = [queued 1 ''a'' DPending 0 30, queued 2 ''a'' DCancelled 3 5, queued 3 ''a'' DPending 4 20, queued 4 ''b'' DCompleted 1 7]
   in set (dlq_entries (rev (dlq_rows qs)) []) = dlq_figures qs [] ` {''a'', ''b''}
     \<and> dp_avg_retry (dlq_figures qs [] ''a'') = 23 / 10 \<and> dp_oldest_pending (dlq_figures qs [] ''a'') = Some 20"
proof -
  let ?qs = "[queued 1 ''a'' DPending 0 30, queued 2 ''a'' DCancelled 3 5, queued 3 ''a'' DPending 4 20, queued 4 ''b'' DCompleted 1 7]"
  have "set (dlq_entries (rev (dlq_rows ?qs)) []) = dlq_figures ?qs [] ` (q_pipeline ` set ?qs)"
    using dlq_figures_cover_all_jobs [where rows = "rev (dlq_rows ?qs)" and qs = ?qs and archived = "[]" and ars = "[]"]
    by (simp only: mset_rev count_by_def group_by_Nil list.map simp_thms list.set(1) image_empty Un_empty_right)
  moreover have "dp_avg_retry (dlq_figures ?qs [] ''a'') = 23 / 10" "dp_oldest_pending (dlq_figures ?qs [] ''a'') = Some 20"
    by code_simp+
  ultimately show ?thesis by (simp add: queued_def insert_commute Let_def)
qed

subsection \<open>The figures of the pipelines\<close>

lemma map_of_exec_rows:
  "map_of (exec_rows es) (p, st) =
     (let g = filter (\<lambda>e. e_pipeline e = p \<and> e_state e = st) es
      in if g = [] then None else Some (length g, Max (set (map e_created_at g))))"
  by (simp add: exec_rows_def map_of_map map_of_groups Let_def)

lemma distinct_exec_rows: "distinct (map fst (exec_rows es))"
  using distinct_groups [of "\<lambda>e. (e_pipeline e, e_state e)" es] by (simp add: exec_rows_def comp_def case_prod_unfold)

lemma distinct_job_rows: "distinct (map fst (job_rows es js))"
  using distinct_groups [of fst "jobs_with_pipeline es js"] by (simp add: job_rows_def comp_def case_prod_unfold)

lemma keys_of_exec_rows: "fst ` fst ` set (exec_rows es) = e_pipeline ` set es"
proof -
  have "fst ` set (exec_rows es) = fst ` set (group_by (\<lambda>e. (e_pipeline e, e_state e)) es)"
    by (force simp: exec_rows_def)
  also have "\<dots> = (\<lambda>e. (e_pipeline e, e_state e)) ` set es" by (rule keys_of_groups)
  finally show ?thesis by (simp add: image_image)
qed

definition rows_at :: "exec_row list \<Rightarrow> string \<Rightarrow> exec_row list" where
  "rows_at R p = filter (\<lambda>((q, _), _). q = p) R"

definition latest :: "time list \<Rightarrow> time option" where
  "latest ts = (if ts = [] then None else Some (Max (set ts)))"

lemma latest_snoc: "latest (ts @ [t]) = (case latest ts of None \<Rightarrow> Some t | Some s \<Rightarrow> if s < t then Some t else Some s)"
proof (cases "ts = []")
  case False
  then have "Max (set (ts @ [t])) = max t (Max (set ts))" by simp
  then show ?thesis using False by (simp only: latest_def) (simp add: max_def del: Max_less_iff Max_ge_iff)
qed (simp add: latest_def)

definition entry_of_execs :: "exec_row list \<Rightarrow> string \<Rightarrow> pipeline_entry" where
  "entry_of_execs R p =
     \<lparr>pe_name = p, pe_total = (\<Sum>(_, n, _)\<leftarrow>rows_at R p. n), pe_last = latest (map (\<lambda>(_, _, t). t) (rows_at R p)),
      pe_states = map (\<lambda>((_, st), n, _). (st, n)) (rows_at R p), pe_jobs = None\<rparr>"

lemma update_fresh: "k \<notin> fst ` set al \<Longrightarrow> AList.update k v al = al @ [(k, v)]"
  by (induction al) auto

lemma fold_exec_rows:
  "distinct (map fst R) \<Longrightarrow>
     map_of (fold add_exec_row R []) = (\<lambda>p. if rows_at R p = [] then None else Some (entry_of_execs R p)) \<and>
     distinct (map fst (fold add_exec_row R []))"
proof (induction R rule: rev_induct)
  case (snoc r R)
  obtain p st n t where r: "r = ((p, st), n, t)" by (cases r) auto
  have d: "distinct (map fst R)" and fresh: "(p, st) \<notin> fst ` set R" using snoc.prems r by auto
  define m where "m = fold add_exec_row R []"
  have m: "map_of m q = (if rows_at R q = [] then None else Some (entry_of_execs R q))" and dm: "distinct (map fst m)" for q
    using snoc.IH [OF d] by (simp_all add: m_def)
  have at: "rows_at (R @ [r]) q = (if q = p then rows_at R p @ [r] else rows_at R q)" for q
    by (simp add: rows_at_def r)
  have "entry_at p m = entry_of_execs R p"
    by (simp add: entry_at_def m entry_of_execs_def new_entry_def latest_def)
  moreover have "st \<notin> fst ` set (pe_states (entry_of_execs R p))"
    using fresh by (force simp: entry_of_execs_def rows_at_def)
  ultimately have run: "add_exec_row r m = AList.update p (entry_of_execs (R @ [r]) p) m"
    by (simp add: r Let_def update_fresh) (simp add: entry_of_execs_def at [unfolded r] latest_snoc r)
  have other: "entry_of_execs (R @ [r]) q = entry_of_execs R q" if "q \<noteq> p" for q
    using that by (simp add: entry_of_execs_def at)
  have "fold add_exec_row (R @ [r]) [] = AList.update p (entry_of_execs (R @ [r]) p) m"
    using run by (simp add: m_def)
  then show ?case
    using other by (auto simp: update_conv' distinct_update dm fun_eq_iff m at)
qed (simp add: rows_at_def)

lemma fold_job_rows:
  "distinct (map fst J) \<Longrightarrow> distinct (map fst m) \<Longrightarrow>
     map_of (fold add_job_row J m) = (\<lambda>p. map_option (\<lambda>x.
       case map_of J p of None \<Rightarrow> x | Some r \<Rightarrow> x\<lparr>pe_jobs := Some (figures r)\<rparr>) (map_of m p)) \<and>
     map fst (fold add_job_row J m) = map fst m"
proof (induction J arbitrary: m)
  case (Cons a J)
  obtain p r where a: "a = (p, r)" by (cases a)
  have p: "map_of J p = None" using Cons.prems(1) by (simp add: a map_of_eq_None_iff)
  have step: "map_of (add_job_row a m) =
      (\<lambda>q. map_option (\<lambda>x. if q = p then x\<lparr>pe_jobs := Some (figures r)\<rparr> else x) (map_of m q))"
    by (cases "map_of m p") (auto simp: a update_conv' fun_eq_iff option.map_ident map_option_case split: option.split)
  have same: "map fst (add_job_row a m) = map fst m"
    by (auto simp: a update_keys map_of_eq_None_iff split: option.split dest: map_of_SomeD intro: rev_image_eqI)
  have keys: "map_of (a # J) q = (if q = p then Some r else map_of J q)" for q
    by (simp add: a)
  have "distinct (map fst J)" "distinct (map fst (add_job_row a m))" using Cons.prems same by simp_all
  note IH = Cons.IH [OF this]
  have run: "fold add_job_row (a # J) m = fold add_job_row J (add_job_row a m)" by simp
  show ?case
    unfolding run IH [THEN conjunct1] step keys using IH [THEN conjunct2] p same
    by (auto simp: fun_eq_iff option.map_ident split: option.split)
qed (simp add: option.map_ident)

definition pipeline_jobs :: "executions \<Rightarrow> jobs \<Rightarrow> string \<Rightarrow> jobs" where
  "pipeline_jobs es js p = filter (\<lambda>j. j_exec j \<in> e_id ` set (filter (\<lambda>e. e_pipeline e = p) es)) js"

lemma jobs_of_pipeline:
  assumes "distinct (map e_id es)"
  shows "mset (map snd (filter (\<lambda>(q, _). q = p) (jobs_with_pipeline es js))) = mset (pipeline_jobs es js p)"
  unfolding pipeline_jobs_def using assms
proof (induction es)
  case (Cons e es)
  have apart: "mset (filter (\<lambda>j. j_exec j = e_id e \<or> j_exec j \<in> S) js) =
      mset (filter (\<lambda>j. j_exec j = e_id e) js) + mset (filter (\<lambda>j. j_exec j \<in> S) js)" if "e_id e \<notin> S" for S
    using that by (induction js) auto
  have "e_id e \<notin> e_id ` set (filter (\<lambda>e. e_pipeline e = p) es)" using Cons.prems by auto
  from apart [OF this] show ?case
    using Cons by (simp add: jobs_with_pipeline_def filter_map comp_def)
qed (simp add: jobs_with_pipeline_def)

lemma job_numbers_reordered: "mset xs = mset ys \<Longrightarrow> job_numbers xs = job_numbers ys"
  unfolding job_numbers_def count_where_def by (metis mset_filter size_mset)

lemma map_of_job_rows:
  assumes "distinct (map e_id es)"
  shows "map_of (job_rows es js) p =
    (if pipeline_jobs es js p = [] then None else Some (job_numbers (pipeline_jobs es js p)))"
proof -
  let ?g = "filter (\<lambda>x. fst x = p) (jobs_with_pipeline es js)"
  have "mset (map snd ?g) = mset (pipeline_jobs es js p)"
    using jobs_of_pipeline [OF assms(1)] by (simp add: case_prod_unfold)
  from job_numbers_reordered [OF this] mset_eq_length [OF this]
  have "job_numbers (map snd ?g) = job_numbers (pipeline_jobs es js p)" "?g = [] \<longleftrightarrow> pipeline_jobs es js p = []"
    by simp_all (metis length_0_conv)
  then show ?thesis
    by (simp add: job_rows_def map_of_map map_of_groups Let_def)
qed

text \<open>What the entry of a pipeline has to say.\<close>

definition describes_pipeline :: "executions \<Rightarrow> jobs \<Rightarrow> pipeline_entry \<Rightarrow> bool" where
  "describes_pipeline es js x \<longleftrightarrow>
     (let mine = filter (\<lambda>e. e_pipeline e = pe_name x) es
      in pe_total x = length mine \<and> pe_last x = Some (Max (set (map e_created_at mine)))
        \<and> distinct (map fst (pe_states x))
        \<and> list_all (\<lambda>st. count_of (pe_states x) st = count_where (\<lambda>e. e_state e = st) mine) STATES
        \<and> pe_jobs x = Some (figures (job_numbers (pipeline_jobs es js (pe_name x)))))"

lemma no_jobs: "figures (job_numbers []) = \<lparr>jf_total = 0, jf_completed = 0, jf_failed = 0, jf_success_rate = 100\<rparr>"
  by (simp add: figures_def job_numbers_def success_rate_def)

lemma sum_reordered_filter:
  "mset xs = mset ys \<Longrightarrow> sum_list (map f (filter P xs)) = (sum_list (map f (filter P ys)) :: nat)"
  by (intro sum_reordered) (metis mset_filter)

lemma entry_of_exec_rows:
  assumes "mset R = mset (exec_rows es)" "p \<in> e_pipeline ` set es"
  shows "rows_at R p \<noteq> []"
    "pe_total (entry_of_execs R p) = length (filter (\<lambda>e. e_pipeline e = p) es)"
    "pe_last (entry_of_execs R p) = Some (Max (set (map e_created_at (filter (\<lambda>e. e_pipeline e = p) es))))"
    "distinct (map fst (pe_states (entry_of_execs R p)))"
    "count_of (pe_states (entry_of_execs R p)) st =
       count_where (\<lambda>e. e_state e = st) (filter (\<lambda>e. e_pipeline e = p) es)"
proof -
  note r = map_of_reordered [OF assms(1) distinct_exec_rows]
  let ?mine = "filter (\<lambda>e. e_pipeline e = p) es" and ?gs = "group_by (\<lambda>e. (e_pipeline e, e_state e)) es"
  have "p \<in> fst ` fst ` set R" using assms(2) r(3) by (simp add: keys_of_exec_rows)
  then show some: "rows_at R p \<noteq> []" by (force simp: rows_at_def filter_empty_conv)
  have d: "distinct (map (\<lambda>((_, st), n, _). (st :: exec_state)) (rows_at R p))"
    using r(2) unfolding rows_at_def by (induction R) (auto, force)
  then show "distinct (map fst (pe_states (entry_of_execs R p)))"
    by (simp add: entry_of_execs_def comp_def case_prod_unfold)
  have "map_of (map (\<lambda>((_, st), n, _). (st, n)) (rows_at R p)) st = map_option fst (map_of R (p, st))"
    unfolding rows_at_def by (induction R) auto
  then show "count_of (pe_states (entry_of_execs R p)) st = count_where (\<lambda>e. e_state e = st) ?mine"
    by (simp add: entry_of_execs_def count_of_def r(1) map_of_exec_rows Let_def count_where_def conj_commute)
  have "pe_total (entry_of_execs R p) = (\<Sum>(_, n, _)\<leftarrow>rows_at (exec_rows es) p. n)"
    unfolding entry_of_execs_def rows_at_def by (simp add: sum_reordered_filter [OF assms(1)])
  also have "\<dots> = (\<Sum>(k, g)\<leftarrow>?gs. if fst k = p then sum_list (map (\<lambda>e. 1) g) else 0)"
  proof -
    have "(\<Sum>(_, n, _)\<leftarrow>filter (\<lambda>((q, _), _). q = p) (map (\<lambda>(k, g). (k, length g, f g)) gs). n) =
        (\<Sum>(k, g)\<leftarrow>gs. if fst k = p then sum_list (map (\<lambda>e. 1) g) else 0)" for f :: "execution list \<Rightarrow> time" and gs
      by (induction gs) (auto simp: sum_list_triv)
    then show ?thesis unfolding rows_at_def exec_rows_def .
  qed
  also have "\<dots> = length ?mine" by (simp add: sum_of_groups sum_list_triv)
  finally show "pe_total (entry_of_execs R p) = length ?mine" .
  have "Max (set (map (\<lambda>(_, _, t). t) (rows_at R p))) = Max (set (map e_created_at ?mine))"
  proof (rule Max_eq_if)
    show "finite (set (map (\<lambda>(_, _, t). t) (rows_at R p)))" "finite (set (map e_created_at ?mine))" by simp_all
    have row: "\<exists>n. ((p, st), n, Max (set (map e_created_at (filter (\<lambda>e. e_pipeline e = p \<and> e_state e = st) es)))) \<in> set R"
      if "e \<in> set es" "e_pipeline e = p" "e_state e = st" for e st
    proof -
      have "filter (\<lambda>e. e_pipeline e = p \<and> e_state e = st) es \<noteq> []" using that by (auto simp: filter_empty_conv)
      then show ?thesis using map_of_exec_rows [of es p st] r(3)
        by (auto dest!: map_of_SomeD)
    qed
    have of_row: "\<exists>e \<in> set es. e_pipeline e = p \<and> e_created_at e = t" if "((p, st), n, t) \<in> set R" for st n t
    proof -
      let ?g = "filter (\<lambda>e. e_pipeline e = p \<and> e_state e = st) es"
      have "map_of (exec_rows es) (p, st) = Some (n, t)" using that r by (metis map_of_is_SomeI)
      then have "?g \<noteq> []" "t = Max (set (map e_created_at ?g))" by (auto simp: map_of_exec_rows Let_def split: if_splits)
      moreover have "set (map e_created_at ?g) \<noteq> {}" using \<open>?g \<noteq> []\<close> by (simp only: set_empty map_is_Nil_conv not_False_eq_True)
      ultimately have "t \<in> set (map e_created_at ?g)" using Max_in [of "set (map e_created_at ?g)"] by (simp only: finite_set not_False_eq_True simp_thms)
      then show ?thesis by auto
    qed
    show "\<forall>t \<in> set (map (\<lambda>(_, _, t). t) (rows_at R p)). \<exists>s \<in> set (map e_created_at ?mine). t \<le> s"
      using of_row by (fastforce simp: rows_at_def)
    show "\<forall>s \<in> set (map e_created_at ?mine). \<exists>t \<in> set (map (\<lambda>(_, _, t). t) (rows_at R p)). s \<le> t"
    proof
      fix s assume "s \<in> set (map e_created_at ?mine)"
      then obtain e where e: "e \<in> set es" "e_pipeline e = p" "s = e_created_at e" by auto
      let ?M = "Max (set (map e_created_at (filter (\<lambda>x. e_pipeline x = p \<and> e_state x = e_state e) es)))"
      have "?M \<in> set (map (\<lambda>(_, _, t). t) (rows_at R p))"
        using row [OF e(1,2) refl] by (force simp: rows_at_def)
      moreover have "s \<le> ?M" using e by (intro Max_ge) auto
      ultimately show "\<exists>t \<in> set (map (\<lambda>(_, _, t). t) (rows_at R p)). s \<le> t" by blast
    qed
  qed
  then show "pe_last (entry_of_execs R p) = Some (Max (set (map e_created_at ?mine)))"
    using some by (simp add: entry_of_execs_def latest_def)
qed

text \<open>Whatever order the database returns its groups in, the statistics of the pipelines have one
  entry for every pipeline that ever ran, with the number of its executions, in all and by
  state, its latest start, and the number of its jobs, of the completed and the failed ones,
  with the rate of success over these -- zeros and 100 for a pipeline without jobs.\<close>

theorem pipeline_figures_describe_the_tables:
  assumes "mset ers = mset (exec_rows es)" "mset jrs = mset (job_rows es js)" "distinct (map e_id es)"
  shows "distinct (map pe_name (pipeline_stats_of ers jrs)) \<and> pe_name ` set (pipeline_stats_of ers jrs) = e_pipeline ` set es
    \<and> list_all (describes_pipeline es js) (pipeline_stats_of ers jrs)"
proof -
  note e = map_of_reordered [OF assms(1) distinct_exec_rows] and j = map_of_reordered [OF assms(2) distinct_job_rows]
  define m where "m = fold add_exec_row ers []"
  define M where "M = fold add_job_row jrs m"
  have m: "map_of m p = (if rows_at ers p = [] then None else Some (entry_of_execs ers p))" and dm: "distinct (map fst m)" for p
    unfolding m_def using fold_exec_rows [OF e(2)] by simp_all
  have keys: "rows_at ers p = [] \<longleftrightarrow> p \<notin> e_pipeline ` set es" for p
    using e(3) unfolding keys_of_exec_rows [symmetric] by (force simp: rows_at_def filter_empty_conv)
  define entry where "entry p = (case map_of jrs p of
      None \<Rightarrow> entry_of_execs ers p | Some r \<Rightarrow> (entry_of_execs ers p)\<lparr>pe_jobs := Some (figures r)\<rparr>)" for p
  have M: "map_of M p = (if p \<in> e_pipeline ` set es then Some (entry p) else None)" and dM: "distinct (map fst M)" for p
    using fold_job_rows [OF j(2) dm] dm by (simp_all add: M_def m keys entry_def)
  have each: "x = entry p \<and> p \<in> e_pipeline ` set es" if "(p, x) \<in> set M" for p x
    using map_of_is_SomeI [OF dM that] by (simp add: M split: if_splits)
  have name: "pe_name (set_defaults (entry p)) = p" for p
    by (simp add: entry_def set_defaults_def entry_of_execs_def split: option.split)
  have describes: "describes_pipeline es js (set_defaults (entry p))" if "p \<in> e_pipeline ` set es" for p
  proof -
    have same: "pe_total (set_defaults (entry p)) = pe_total (entry_of_execs ers p)"
      "pe_last (set_defaults (entry p)) = pe_last (entry_of_execs ers p)"
      "pe_states (set_defaults (entry p)) = pe_states (entry_of_execs ers p)"
      by (simp_all add: entry_def set_defaults_def split: option.split)
    have "pe_jobs (set_defaults (entry p)) = Some (figures (job_numbers (pipeline_jobs es js p)))"
      by (simp add: entry_def set_defaults_def entry_of_execs_def j(1) map_of_job_rows [OF assms(3)] no_jobs)
    then show ?thesis
      using entry_of_exec_rows [OF assms(1) that]
      by (simp add: describes_pipeline_def name same list_all_iff)
  qed
  have list: "pipeline_stats_of ers jrs = map (set_defaults \<circ> snd) M"
    by (simp add: pipeline_stats_of_def M_def m_def)
  have names: "map pe_name (pipeline_stats_of ers jrs) = map fst M"
    by (auto simp: list name dest: each)
  have "list_all (describes_pipeline es js) (pipeline_stats_of ers jrs)"
    using describes by (auto simp: list list_all_iff dest: each)
  moreover have "pe_name ` set (pipeline_stats_of ers jrs) = e_pipeline ` set es"
  proof -
    have "pe_name ` set (pipeline_stats_of ers jrs) = fst ` set M" using names by (metis list.set_map)
    also have "\<dots> = dom (map_of M)" by (simp add: dom_map_of_conv_image_fst)
    finally show ?thesis by (auto simp: M dom_def split: if_splits)
  qed
  moreover have "distinct (map pe_name (pipeline_stats_of ers jrs))" unfolding names by (rule dM)
  ultimately show ?thesis by blast
qed

definition ran :: "string \<Rightarrow> string \<Rightarrow> exec_state \<Rightarrow> time \<Rightarrow> execution" where
  "ran i p st t =
     \<lparr>e_id = i, e_pipeline = p, e_state = st, e_total_jobs = 0, e_jobs_dispatched = 0, e_jobs_completed = 0, e_jobs_failed = 0,
      e_deduplicated = 0, e_created_at = t, e_completed_at = None, e_error = None, e_runtime_params = [], e_rate_limit = None,
      e_driver_id = None, e_driver_heartbeat = None, e_plan_complete = None\<rparr>"

lemma pipeline_figures_describe_the_tables_witness:
  "let es = [ran ''1'' ''a'' ECompleted 4, ran ''2'' ''b'' EFailed 9, ran ''3'' ''a'' ERunning 6, ran ''4'' ''a'' ECompleted 2];
     js = [new_row 0 (''3'', ''x'', [], 0), (new_row 0 (''1'', ''y'', [], 0))\<lparr>j_state := JCompleted\<rparr>,
       (new_row 0 (''4'', ''z'', [], 0))\<lparr>j_state := JFailed\<rparr>];
     ps = pipeline_stats_of (rev (exec_rows es)) (rev (job_rows es js))
   in pe_name ` set ps = {''a'', ''b''} \<and> list_all (describes_pipeline es js) ps
     \<and> map pe_last ps = [Some 6, Some 9] \<and> map (map_option jf_success_rate \<circ> pe_jobs) ps = [Some 50, Some 100]"
proof -
  let ?es = "[ran ''1'' ''a'' ECompleted 4, ran ''2'' ''b'' EFailed 9, ran ''3'' ''a'' ERunning 6, ran ''4'' ''a'' ECompleted 2]"
  let ?js = "[new_row 0 (''3'', ''x'', [], 0), (new_row 0 (''1'', ''y'', [], 0))\<lparr>j_state := JCompleted\<rparr>,
       (new_row 0 (''4'', ''z'', [], 0))\<lparr>j_state := JFailed\<rparr>]"
  let ?ps = "pipeline_stats_of (rev (exec_rows ?es)) (rev (job_rows ?es ?js))"
  have "pe_name ` set ?ps = e_pipeline ` set ?es \<and> list_all (describes_pipeline ?es ?js) ?ps"
    by (rule pipeline_figures_describe_the_tables [THEN conjunct2]) (simp_all add: ran_def)
  moreover have "map pe_last ?ps = [Some 6, Some 9]" "map (map_option jf_success_rate \<circ> pe_jobs) ?ps = [Some 50, Some 100]"
    by code_simp+
  ultimately show ?thesis by (simp add: ran_def Let_def insert_commute)
qed

end
