(* ===== verification/Sources.thy ===== *)
theory Sources
  imports Planner "HOL-Library.List_Lexorder" "HOL-Library.Char_ord" "HOL-Library.Multiset"
begin

text \<open>
  The connectors a pipeline reads from (\<open>sources/base.py\<close>, \<open>static.py\<close>, \<open>mock.py\<close>, \<open>sql.py\<close>,
  \<open>s3.py\<close>, \<open>api.py\<close>, \<open>http_auth.py\<close>) and their factory (\<open>factories/source_factory.py\<close>). A source
  is its type and its config; \<open>split\<close> plans it into sources of one job each, \<open>fetch\<close> reads
  the records of one. The database, the bucket and the HTTP API are parameters: what they
  answer to the requests the code sends.
\<close>

subsection \<open>Sources and records\<close>

type_synonym render = "string \<Rightarrow> pydict \<Rightarrow> template_error + string"

definition wrap_as_record :: "pyval \<Rightarrow> pyval" where
  "wrap_as_record item = PDict [(''data'', item)]"

definition source_error :: "string \<Rightarrow> string \<Rightarrow> py_error" where
  "source_error typ m = OtherError ''SourceError'' (''Source '' @ quoted typ @ '' error: '' @ m)"

definition resolve_parameters :: "render \<Rightarrow> slice \<Rightarrow> pydict \<Rightarrow> py_error + pydict" where
  "resolve_parameters render s params =
     (case resolve_templates render params (PDict (sl_config s)) of
        Inl e \<Rightarrow> Inl e | Inr (PDict d) \<Rightarrow> Inr d | Inr _ \<Rightarrow> Inr [])"

definition get_runtime_parameters :: "slice \<Rightarrow> string set" where
  "get_runtime_parameters s = set (extract_parameters (PDict (sl_config s)))"

text \<open>\<open>BaseSource.split\<close>: one job, the source itself.\<close>

definition whole_split :: "slice \<Rightarrow> planned" where
  "whole_split s = ([s], None)"

subsection \<open>Constructors\<close>

text \<open>What \<open>__init__\<close> makes of its keywords: the config it stores, in order, with the defaults
  (\<open>None\<close>: required), whether it takes further keywords, and what it stores for a value.\<close>

record signature =
  sg_params :: "(string \<times> pyval option) list"
  sg_kwargs :: bool
  sg_store :: "string \<Rightarrow> pyval \<Rightarrow> py_error + pyval"

definition sg_names :: "signature \<Rightarrow> string list" where
  "sg_names g = map fst (sg_params g)"

definition argument :: "signature \<Rightarrow> pydict \<Rightarrow> string \<times> pyval option \<Rightarrow> py_error + pyval" where
  "argument g kw p =
     (case dget kw (fst p) of
        Some v \<Rightarrow> sg_store g (fst p) v
      | None \<Rightarrow>
          (case snd p of
             Some v \<Rightarrow> sg_store g (fst p) v
           | None \<Rightarrow> Inl (TypeError (''__init__() missing a required argument: '' @ quoted (fst p)))))"

definition construct :: "signature \<Rightarrow> pydict \<Rightarrow> py_error + pydict" where
  "construct g kw =
     (let extra = dfilter (\<lambda>k. k \<notin> set (sg_names g)) kw
      in if extra \<noteq> [] \<and> \<not> sg_kwargs g
         then Inl (TypeError (''__init__() got an unexpected keyword argument '' @ quoted (fst (hd extra))))
         else case sequence (map (argument g kw) (sg_params g)) of
             Inl e \<Rightarrow> Inl e | Inr vs \<Rightarrow> Inr (zip (sg_names g) vs @ extra))"

definition as_given :: "string \<Rightarrow> pyval \<Rightarrow> py_error + pyval" where
  "as_given k v = Inr v"

definition new_source :: "string \<Rightarrow> signature \<Rightarrow> pydict \<Rightarrow> py_error + slice" where
  "new_source typ g kw = map_sum id (\<lambda>c. \<lparr>sl_type = typ, sl_config = c, sl_params = None\<rparr>) (construct g kw)"

text \<open>\<open>list(records)\<close>.\<close>

definition py_list :: "pyval \<Rightarrow> py_error + pyval" where
  "py_list v = (case v of
      PList xs \<Rightarrow> Inr (PList xs) | PTuple xs \<Rightarrow> Inr (PList xs) | PStr s \<Rightarrow> Inr (PList (map (\<lambda>c. PStr [c]) s))
    | PDict d \<Rightarrow> Inr (PList (map (PStr \<circ> fst) d)) | _ \<Rightarrow> Inl (TypeError ''object is not iterable''))"

definition static_signature :: signature where
  "static_signature = \<lparr>sg_params = [(''records'', None)], sg_kwargs = False, sg_store = (\<lambda>_. py_list)\<rparr>"

definition mock_signature :: signature where
  "mock_signature = \<lparr>sg_params = [(''data'', None), (''batch_size'', Some (PInt 10))], sg_kwargs = False, sg_store = as_given\<rparr>"

definition sql_signature :: signature where
  "sql_signature =
     \<lparr>sg_params = [(''connection_url'', None), (''query'', None), (''id_column'', Some PNone), (''time_column'', Some PNone),
        (''batch_size'', Some (PInt 1000))], sg_kwargs = True, sg_store = as_given\<rparr>"

definition s3_signature :: signature where
  "s3_signature =
     \<lparr>sg_params = [(''bucket'', None), (''prefix'', Some (PStr [])), (''file_pattern'', Some PNone), (''page_size'', Some (PInt 1000)),
        (''read_content'', Some (PBool True)), (''content_type'', Some (PStr ''json'')), (''aws_access_key_id'', Some PNone),
        (''aws_secret_access_key'', Some PNone), (''region_name'', Some (PStr ''us-east-1'')), (''endpoint_url'', Some PNone)],
      sg_kwargs = True, sg_store = as_given\<rparr>"

definition upper :: "string \<Rightarrow> string" where
  "upper s = map (\<lambda>c. if 97 \<le> (of_char c :: nat) \<and> (of_char c :: nat) \<le> 122 then char_of (of_char c - 32 :: nat) else c) s"

definition api_store :: "string \<Rightarrow> pyval \<Rightarrow> py_error + pyval" where
  "api_store k v =
     (if k = ''ids'' then Inr (if truthy v then v else PList [])
      else if k = ''headers'' \<or> k = ''params'' then Inr (if truthy v then v else PDict [])
      else if k = ''method'' then
        (case v of PStr s \<Rightarrow> Inr (PStr (upper s)) | _ \<Rightarrow> Inl (OtherError ''AttributeError'' ''the object has no attribute upper''))
      else Inr v)"

definition api_signature :: signature where
  "api_signature =
     \<lparr>sg_params = [(''base_url'', None), (''endpoint_template'', None), (''ids'', Some PNone), (''method'', Some (PStr ''GET'')),
        (''headers'', Some PNone), (''auth_type'', Some PNone), (''auth_token'', Some PNone), (''batch_size'', Some (PInt 50)),
        (''timeout'', Some (PFloat 30)), (''response_key'', Some PNone), (''body'', Some PNone), (''params'', Some PNone),
        (''health_check_enabled'', Some (PBool True))],
      sg_kwargs = False, sg_store = api_store\<rparr>"

definition elastic_signature :: signature where
  "elastic_signature =
     \<lparr>sg_params = [(''url'', None), (''index'', None), (''base_query'', None), (''scroll'', Some (PStr ''2m'')), (''size'', Some (PInt 1000)),
        (''pit_keep_alive'', Some (PStr ''30m'')), (''auth'', Some PNone), (''verify_certs'', Some (PBool True))],
      sg_kwargs = True, sg_store = as_given\<rparr>"

subsection \<open>The factory\<close>

text \<open>The built-in connectors, less those whose library is not installed.\<close>

definition builtin_sources :: "(string \<Rightarrow> bool) \<Rightarrow> (string \<times> signature) list" where
  "builtin_sources installed =
     [(''StaticSource'', static_signature), (''MockSource'', mock_signature)] @
     filter (installed \<circ> fst) [(''ElasticSource'', elastic_signature), (''SqlSource'', sql_signature), (''S3Source'', s3_signature),
       (''IDBasedAPISource'', api_signature)]"

definition rebuild_source :: "(string \<Rightarrow> bool) \<Rightarrow> string \<Rightarrow> pydict \<Rightarrow> py_error + slice" where
  "rebuild_source installed typ config =
     create_source (\<lambda>t. map_option (new_source t) (map_of (builtin_sources installed) t))
       (sort (map fst (builtin_sources installed))) typ config"

subsection \<open>In memory\<close>

definition items_of :: "pyval \<Rightarrow> py_error + pyval list" where
  "items_of v = (case v of PList xs \<Rightarrow> Inr xs | PTuple xs \<Rightarrow> Inr xs | _ \<Rightarrow> Inl (TypeError ''not a list''))"

definition up_to :: "nat option \<Rightarrow> 'a list \<Rightarrow> 'a list" where
  "up_to limit xs = (case limit of None \<Rightarrow> xs | Some n \<Rightarrow> if n = 0 then xs else take n xs)"

text \<open>\<open>range(0, len(xs), size)\<close> and the slices it starts.\<close>

definition range_chunks :: "pyval \<Rightarrow> 'a list \<Rightarrow> py_error + 'a list list" where
  "range_chunks batch xs =
     (case batch of
        PInt n \<Rightarrow> if n = 0 then Inl (ValueError ''range() arg 3 must not be zero'') else Inr (if n < 0 then [] else chunks (nat n) xs)
      | _ \<Rightarrow> Inl (TypeError ''object cannot be interpreted as an integer''))"

text \<open>\<open>StaticSource.fetch\<close>: the records as they are; a limit of 0 is a limit.\<close>

definition static_fetch :: "slice \<Rightarrow> nat option \<Rightarrow> py_error + pyval list" where
  "static_fetch s limit =
     (case items_of (dget_or (sl_config s) ''records'' PNone) of
        Inl e \<Rightarrow> Inl e | Inr rs \<Rightarrow> Inr (case limit of None \<Rightarrow> rs | Some n \<Rightarrow> take n rs))"

definition mock_fetch :: "slice \<Rightarrow> nat option \<Rightarrow> py_error + pyval list" where
  "mock_fetch s limit =
     (case items_of (dget_or (sl_config s) ''data'' PNone) of
        Inl e \<Rightarrow> Inl e | Inr xs \<Rightarrow> Inr (map wrap_as_record (up_to limit xs)))"

text \<open>A generator that builds one source per part and ends at the first that cannot be built.\<close>

fun plan_each :: "('a \<Rightarrow> py_error + slice) \<Rightarrow> 'a list \<Rightarrow> planned" where
  "plan_each f [] = ([], None)"
| "plan_each f (x # xs) =
     (case f x of Inl e \<Rightarrow> ([], Some e) | Inr s \<Rightarrow> (case plan_each f xs of (ss, e) \<Rightarrow> (s # ss, e)))"

definition mock_part :: "pyval \<Rightarrow> pyval list \<Rightarrow> py_error + slice" where
  "mock_part batch xs = new_source ''MockSource'' mock_signature [(''data'', PList xs), (''batch_size'', batch)]"

definition mock_split :: "slice \<Rightarrow> planned" where
  "mock_split s =
     (let batch = dget_or (sl_config s) ''batch_size'' PNone
      in case items_of (dget_or (sl_config s) ''data'' PNone) of
        Inl e \<Rightarrow> ([], Some e)
      | Inr xs \<Rightarrow>
          (case range_chunks batch xs of
             Inl e \<Rightarrow> ([], Some e) | Inr cs \<Rightarrow> plan_each (mock_part batch) cs))"

subsection \<open>SQL\<close>

text \<open>A database: the rows a query gives at a connection, or the text of its \<open>SQLAlchemyError\<close>.
  A row is the mapping of its columns, in order.\<close>

type_synonym database = "pyval \<Rightarrow> string \<Rightarrow> string + pydict list"

definition sql_text :: "pyval \<Rightarrow> py_error + string" where
  "sql_text v = (case v of PStr s \<Rightarrow> Inr s | _ \<Rightarrow> Inl (OtherError ''ArgumentError'' ''Textual SQL expression expected''))"

definition sql_fetch :: "database \<Rightarrow> render \<Rightarrow> slice \<Rightarrow> pydict \<Rightarrow> nat option \<Rightarrow> py_error + pyval list" where
  "sql_fetch D render s params limit =
     (case resolve_parameters render s params of
        Inl e \<Rightarrow> Inl e
      | Inr c \<Rightarrow>
          (case sql_text (dget_or c ''query'' PNone) of
             Inl e \<Rightarrow> Inl e
           | Inr q \<Rightarrow>
               (case D (dget_or (sl_config s) ''connection_url'' PNone)
                       (case limit of None \<Rightarrow> q | Some n \<Rightarrow> if n = 0 then q else q @ '' LIMIT '' @ nat_text n) of
                  Inl m \<Rightarrow> Inl (source_error ''sql'' (''Failed to fetch data: '' @ m))
                | Inr rows \<Rightarrow> Inr (map (wrap_as_record \<circ> PDict) rows))))"

definition probe_query :: "string \<Rightarrow> string" where
  "probe_query q = ''SELECT 1 FROM ('' @ q @ '') AS sub LIMIT 1''"

definition min_max_query :: "string \<Rightarrow> string \<Rightarrow> string" where
  "min_max_query col q = ''SELECT MIN('' @ col @ '') AS lo, MAX('' @ col @ '') AS hi FROM ('' @ q @ '') AS sub''"

definition window_query :: "string \<Rightarrow> string \<Rightarrow> int \<Rightarrow> int \<Rightarrow> string" where
  "window_query col q a b =
     ''SELECT * FROM ('' @ q @ '') AS sub WHERE '' @ col @ '' >= '' @ int_text a @ '' AND '' @ col @ '' < '' @ int_text b"

text \<open>\<open>int(v)\<close>: a float is truncated.\<close>

definition as_int :: "pyval \<Rightarrow> py_error + int" where
  "as_int v = (case v of
      PInt i \<Rightarrow> Inr i | PBool b \<Rightarrow> Inr (if b then 1 else 0) | PFloat r \<Rightarrow> Inr (if 0 \<le> r then floor r else - floor (- r))
    | PStr s \<Rightarrow> (case py_int s of Some i \<Rightarrow> Inr i | None \<Rightarrow> Inl (ValueError (''invalid literal for int() with base 10: '' @ quoted s)))
    | _ \<Rightarrow> Inl (TypeError ''int() argument must be a string or a real number''))"

text \<open>\<open>while cur <= hi\<close>: with a batch size that is not positive it yields windows for ever (\<open>None\<close>).\<close>

partial_function (option) id_windows :: "int \<Rightarrow> int \<Rightarrow> int \<Rightarrow> (int \<times> int) list option" where
  "id_windows b cur hi =
     (if hi < cur then Some []
      else Option.bind (id_windows b (cur + b) hi) (\<lambda>ws. Some ((cur, cur + b) # ws)))"

definition engine_kwargs :: "pydict \<Rightarrow> pydict" where
  "engine_kwargs c =
     dfilter (\<lambda>k. k \<notin> {''self'', ''connection_url'', ''query'', ''id_column'', ''time_column'', ''batch_size'', ''engine_kwargs'', ''slice''}) c"

definition sql_window :: "pydict \<Rightarrow> pydict \<Rightarrow> string \<Rightarrow> string \<Rightarrow> pyval \<Rightarrow> int \<times> int \<Rightarrow> slice" where
  "sql_window own c col q batch w =
     \<lparr>sl_type = ''SqlSource'',
      sl_config = dset
        ([(''connection_url'', dget_or c ''connection_url'' PNone), (''query'', PStr (window_query col q (fst w) (snd w))),
          (''id_column'', PNone), (''time_column'', dget_or c ''time_column'' PNone), (''batch_size'', batch)] @ engine_kwargs own)
        ''slice'' (PDict [(''lo'', PInt (fst w)), (''hi'', PInt (snd w))]),
      sl_params = None\<rparr>"

text \<open>The bounds of the ids: \<open>None\<close> when there is no row to window.\<close>

definition id_bounds :: "pydict list \<Rightarrow> py_error + (int \<times> int) option" where
  "id_bounds rows = (case rows of
      ((_, lo) # (_, hi) # _) # _ \<Rightarrow>
        if lo = PNone then Inr None
        else (case as_int lo of Inl e \<Rightarrow> Inl e
          | Inr a \<Rightarrow> (case as_int hi of Inl e \<Rightarrow> Inl e | Inr b \<Rightarrow> Inr (Some (a, b))))
    | _ \<Rightarrow> Inr None)"

definition count_of_rows :: "pyval \<Rightarrow> py_error + int" where
  "count_of_rows v = (case v of PInt i \<Rightarrow> Inr i | _ \<Rightarrow> Inl (TypeError ''unsupported operand type(s) for +''))"

definition sql_split :: "database \<Rightarrow> render \<Rightarrow> slice \<Rightarrow> pydict \<Rightarrow> planned option" where
  "sql_split D render s params =
     (case resolve_parameters render s params of
        Inl e \<Rightarrow> Some ([], Some e)
      | Inr c0 \<Rightarrow>
          (let c = (if c0 = [] then sl_config s else c0); run = D (dget_or (sl_config s) ''connection_url'' PNone);
               fail = (\<lambda>m. Some ([], Some (OtherError ''SQLAlchemyError'' m)))
           in case sql_text (dget_or c ''query'' PNone) of
             Inl e \<Rightarrow> Some ([], Some e)
           | Inr q \<Rightarrow>
               (if \<not> truthy (dget_or c ''id_column'' PNone)
                then (case run (probe_query q) of
                    Inl m \<Rightarrow> fail m | Inr rows \<Rightarrow> Some (if rows = [] then [] else [s], None))
                else (case (sql_text (dget_or c ''id_column'' PNone), count_of_rows (dget_or c ''batch_size'' (PInt 1000))) of
                    (Inr col, Inr batch) \<Rightarrow>
                      (case run (min_max_query col q) of
                         Inl m \<Rightarrow> fail m
                       | Inr rows \<Rightarrow>
                           (case id_bounds rows of
                              Inl e \<Rightarrow> Some ([], Some e)
                            | Inr None \<Rightarrow> Some ([], None)
                            | Inr (Some (lo, hi)) \<Rightarrow>
                                map_option (\<lambda>ws. (map (sql_window (sl_config s) c col q (PInt batch)) ws, None)) (id_windows batch lo hi)))
                  | (Inl e, _) \<Rightarrow> Some ([], Some e)
                  | (_, Inl e) \<Rightarrow> Some ([], Some e)))))"

subsection \<open>S3\<close>

text \<open>\<open>fnmatch.fnmatch\<close>: a star, a question mark and character classes.\<close>

datatype class_item = One char | Span char char

fun class_items :: "string \<Rightarrow> class_item list" where
  "class_items (c # m # d # cs) = (if m = CHR ''-'' then Span c d # class_items cs else One c # class_items (m # d # cs))"
| "class_items cs = map One cs"

fun item_matches :: "char \<Rightarrow> class_item \<Rightarrow> bool" where
  "item_matches x (One c) = (x = c)"
| "item_matches x (Span c d) = ((of_char c :: nat) \<le> of_char x \<and> (of_char x :: nat) \<le> of_char d)"

text \<open>The class after an opening bracket: whether it is negated, its items, the rest of the pattern.\<close>

definition bracket :: "string \<Rightarrow> (bool \<times> class_item list \<times> string) option" where
  "bracket p =
     (let neg = (take 1 p = ''!''); q = (if neg then drop 1 p else p); n = (if take 1 q = '']'' then 1 else 0);
          body = takeWhile (\<lambda>c. c \<noteq> CHR '']'') (drop n q); rest = dropWhile (\<lambda>c. c \<noteq> CHR '']'') (drop n q)
      in if rest = [] then None else Some (neg, class_items (take n q @ body), tl rest))"

lemma length_tl_dropWhile: "length (tl (dropWhile P (drop n xs))) \<le> length xs"
  using length_dropWhile_le [of P "drop n xs"] by simp

lemma bracket_shorter: "bracket p = Some (neg, is, rest) \<Longrightarrow> length rest < Suc (length p)"
  using length_tl_dropWhile [of "\<lambda>c. c \<noteq> CHR '']''" 0 p] length_tl_dropWhile [of "\<lambda>c. c \<noteq> CHR '']''" 1 p]
    length_tl_dropWhile [of "\<lambda>c. c \<noteq> CHR '']''" 2 p]
  by (auto simp: bracket_def Let_def drop_drop numeral_2_eq_2 split: if_splits)

function fnmatch :: "string \<Rightarrow> string \<Rightarrow> bool" where
  "fnmatch [] s = (s = [])"
| "fnmatch (c # p) [] = (c = CHR ''*'' \<and> fnmatch p [])"
| "fnmatch (c # p) (x # s) =
     (if c = CHR ''*'' then fnmatch p (x # s) \<or> fnmatch (c # p) s
      else if c = CHR ''?'' then fnmatch p s
      else case (if c = CHR ''['' then bracket p else None) of
          None \<Rightarrow> x = c \<and> fnmatch p s
        | Some (neg, is, rest) \<Rightarrow> list_ex (item_matches x) is \<noteq> neg \<and> fnmatch rest s)"
  by pat_completeness auto
termination
  by (relation "measure (\<lambda>(p, s). length p + length s)") (auto split: if_splits dest: bracket_shorter)

record s3_object =
  ob_key :: string
  ob_size :: int
  ob_modified :: string
  ob_etag :: string

text \<open>A bucket service: the pages of a listing by bucket, prefix and page size, and the
  \<open>ClientError\<close> that ends it early; an object's content; what parsing content gives.\<close>

record s3_service =
  ss_list :: "pyval \<Rightarrow> pyval \<Rightarrow> pyval \<Rightarrow> s3_object list list \<times> string option"
  ss_get :: "pyval \<Rightarrow> string \<Rightarrow> string + string"
  ss_json :: "string \<Rightarrow> py_error + pyval"
  ss_csv :: "string \<Rightarrow> py_error + pyval"
  ss_text :: "string \<Rightarrow> py_error + pyval"

definition matches_pattern :: "slice \<Rightarrow> string \<Rightarrow> bool" where
  "matches_pattern s key =
     (case dget_or (sl_config s) ''file_pattern'' PNone of
        PStr p \<Rightarrow> p = [] \<or> fnmatch p (last (split_at CHR ''/'' key)) | _ \<Rightarrow> True)"

definition read_object_content :: "s3_service \<Rightarrow> slice \<Rightarrow> string \<Rightarrow> py_error + pyval" where
  "read_object_content S s key =
     (case ss_get S (dget_or (sl_config s) ''bucket'' PNone) key of
        Inl m \<Rightarrow> Inl (source_error ''s3'' (''Failed to read object '' @ key @ '': '' @ m))
      | Inr body \<Rightarrow>
          (let typ = dget_or (sl_config s) ''content_type'' PNone
           in if typ = PStr ''json'' then ss_json S body
              else if typ = PStr ''csv'' then ss_csv S body
              else if typ = PStr ''text'' then ss_text S body
              else Inr (POpaque body)))"

definition content_records :: "pyval \<Rightarrow> pyval list" where
  "content_records v = (case v of PList xs \<Rightarrow> map wrap_as_record xs | _ \<Rightarrow> [wrap_as_record v])"

text \<open>Reading in order until the limit: the records, and whether it was reached.\<close>

fun read_each :: "('a \<Rightarrow> py_error + pyval list) \<Rightarrow> nat option \<Rightarrow> pyval list \<Rightarrow> 'a list \<Rightarrow> py_error + pyval list \<times> bool" where
  "read_each f limit acc [] = Inr (acc, False)"
| "read_each f limit acc (x # xs) =
     (case f x of
        Inl e \<Rightarrow> Inl e
      | Inr rs \<Rightarrow>
          (case limit of
             None \<Rightarrow> read_each f limit (acc @ rs) xs
           | Some n \<Rightarrow>
               if 0 < n \<and> n \<le> length (acc @ rs) then Inr (take n (acc @ rs), True)
               else read_each f limit (acc @ rs) xs))"

definition object_metadata :: "s3_object \<Rightarrow> pyval" where
  "object_metadata ob = PDict [(''key'', PStr (ob_key ob)), (''size'', PInt (ob_size ob)),
     (''last_modified'', PStr (ob_modified ob)), (''etag'', PStr (ob_etag ob))]"

definition read_key :: "s3_service \<Rightarrow> slice \<Rightarrow> bool \<Rightarrow> pyval \<Rightarrow> py_error + pyval list" where
  "read_key S s read_content k =
     (if read_content then map_sum id content_records (read_object_content S s (case k of PStr t \<Rightarrow> t | _ \<Rightarrow> []))
      else Inr [wrap_as_record (PDict [(''key'', k)])])"

definition read_listed :: "s3_service \<Rightarrow> slice \<Rightarrow> bool \<Rightarrow> s3_object \<Rightarrow> py_error + pyval list" where
  "read_listed S s read_content ob =
     (if \<not> matches_pattern s (ob_key ob) then Inr []
      else if read_content then map_sum id content_records (read_object_content S s (ob_key ob))
      else Inr [wrap_as_record (object_metadata ob)])"

definition s3_fetch :: "s3_service \<Rightarrow> render \<Rightarrow> slice \<Rightarrow> pydict \<Rightarrow> nat option \<Rightarrow> py_error + pyval list" where
  "s3_fetch S render s params limit =
     (case resolve_parameters render s params of
        Inl e \<Rightarrow> Inl e
      | Inr c \<Rightarrow>
          (let keys = dget_or c ''keys'' PNone; content = truthy (dget_or c ''read_content'' PNone)
           in if truthy keys
              then (case items_of keys of Inl e \<Rightarrow> Inl e | Inr ks \<Rightarrow> map_sum id fst (read_each (read_key S s content) limit [] ks))
              else
                (case ss_list S (dget_or c ''bucket'' PNone) (dget_or c ''prefix'' PNone)
                    (PInt (case limit of None \<Rightarrow> 1000 | Some n \<Rightarrow> if n = 0 then 1000 else min (int n) 1000)) of (pages, failure) \<Rightarrow>
                 case read_each (read_listed S s content) limit [] (concat pages) of
                   Inl e \<Rightarrow> Inl e
                 | Inr (rs, reached) \<Rightarrow>
                     (case failure of
                        Some m \<Rightarrow> if reached then Inr rs else Inl (source_error ''s3'' (''Failed to fetch data: '' @ m))
                      | None \<Rightarrow> Inr rs))))"

definition s3_part :: "pydict \<Rightarrow> pyval \<Rightarrow> string list \<Rightarrow> py_error + slice" where
  "s3_part c page keys =
     (case new_source ''S3Source'' s3_signature
          (map (\<lambda>k. (k, if k = ''page_size'' then page else dget_or c k PNone)) (sg_names s3_signature)) of
        Inl e \<Rightarrow> Inl e
      | Inr s \<Rightarrow> Inr (s\<lparr>sl_config := dset (sl_config s) ''keys'' (PList (map PStr keys))\<rparr>))"

definition s3_split :: "s3_service \<Rightarrow> render \<Rightarrow> slice \<Rightarrow> pydict \<Rightarrow> planned" where
  "s3_split S render s params =
     (case resolve_parameters render s params of
        Inl e \<Rightarrow> ([], Some e)
      | Inr c0 \<Rightarrow>
          (let c = (if c0 = [] then sl_config s else c0); page = dget_or c ''page_size'' (PInt 1000)
           in case ss_list S (dget_or c ''bucket'' PNone) (dget_or c ''prefix'' PNone) page of (pages, failure) \<Rightarrow>
              case plan_each (s3_part c page)
                  (filter (\<lambda>ks. ks \<noteq> []) (map (\<lambda>p. filter (matches_pattern s) (map ob_key p)) pages)) of (ss, e) \<Rightarrow>
              (ss, case e of Some x \<Rightarrow> Some x | None \<Rightarrow> map_option (OtherError ''ClientError'') failure)))"

subsection \<open>HTTP authentication (\<open>http_auth.py\<close>)\<close>

definition utf8 :: "string \<Rightarrow> nat list" where
  "utf8 s = concat (map (\<lambda>c. let n = (of_char c :: nat) in if n < 128 then [n] else [192 + n div 64, 128 + n mod 64]) s)"

definition base64_digit :: "nat \<Rightarrow> char" where
  "base64_digit n =
     (if n < 26 then char_of (65 + n) else if n < 52 then char_of (97 + n - 26) else if n < 62 then char_of (48 + n - 52)
      else if n = 62 then CHR ''+'' else CHR ''/'')"

fun base64 :: "nat list \<Rightarrow> string" where
  "base64 [] = []"
| "base64 [a] = map base64_digit [a div 4, a mod 4 * 16] @ ''==''"
| "base64 [a, b] = map base64_digit [a div 4, a mod 4 * 16 + b div 16, b mod 16 * 4] @ ''=''"
| "base64 (a # b # c # bs) = map base64_digit [a div 4, a mod 4 * 16 + b div 16, b mod 16 * 4 + c div 64, c mod 64] @ base64 bs"

definition build_auth_headers :: "pydict \<Rightarrow> string option \<Rightarrow> string option \<Rightarrow> pydict" where
  "build_auth_headers headers auth_type auth_token =
     (case auth_token of
        None \<Rightarrow> headers
      | Some token \<Rightarrow>
          if token = [] then headers
          else if auth_type = Some ''bearer'' then dset headers ''Authorization'' (PStr (''Bearer '' @ token))
          else if auth_type = Some ''apikey'' then dset headers ''X-API-Key'' (PStr token)
          else if auth_type = Some ''basic'' then dset headers ''Authorization'' (PStr (''Basic '' @ base64 (utf8 token)))
          else headers)"

subsection \<open>HTTP APIs\<close>

text \<open>What a request comes to: a response with its status, its text and its JSON if it is any, or
  httpx's \<open>RequestError\<close>.\<close>

datatype http_result = Response nat string "pyval option" | RequestFailed string

record http_request =
  hq_base_url :: pyval
  hq_headers :: pydict
  hq_timeout :: pyval
  hq_method :: pyval
  hq_endpoint :: string
  hq_body :: pyval
  hq_query :: pyval

text \<open>An API, with the text of an id and what a replacement field other than \<open>{id}\<close> gives.\<close>

record http_api =
  ha_request :: "http_request \<Rightarrow> http_result"
  ha_str :: "pyval \<Rightarrow> string"
  ha_field :: "string \<Rightarrow> pyval \<Rightarrow> py_error + string"

text \<open>\<open>template.format(id=v)\<close>.\<close>

function format_id :: "http_api \<Rightarrow> pyval \<Rightarrow> string \<Rightarrow> py_error + string" where
  "format_id A v [] = Inr []"
| "format_id A v (c # cs) =
     (if c = CHR ''{'' \<and> take 1 cs = ''{'' then map_sum id (Cons CHR ''{'') (format_id A v (tl cs))
      else if c = CHR ''}'' \<and> take 1 cs = ''}'' then map_sum id (Cons CHR ''}'') (format_id A v (tl cs))
      else if c = CHR ''}'' then Inl (ValueError (''Single '' @ quoted ''}'' @ '' encountered in format string''))
      else if c = CHR ''{'' then
        (let field = takeWhile (\<lambda>x. x \<noteq> CHR ''}'') cs; rest = dropWhile (\<lambda>x. x \<noteq> CHR ''}'') cs
         in if rest = [] then Inl (ValueError (''expected '' @ quoted ''}'' @ '' before end of string''))
            else case (if field = ''id'' then Inr (ha_str A v) else ha_field A field v) of
                Inl e \<Rightarrow> Inl e | Inr t \<Rightarrow> map_sum id (append t) (format_id A v (tl rest)))
      else map_sum id (Cons c) (format_id A v cs))"
  by pat_completeness auto
termination
proof (relation "measure (length \<circ> snd \<circ> snd)", goal_cases)
  case (4 A v c cs field rest t)
  then show ?case using length_dropWhile_le [of "\<lambda>x. x \<noteq> CHR ''}''" cs] by (cases rest) auto
qed auto

definition setting :: "slice \<Rightarrow> string \<Rightarrow> pyval" where
  "setting s k = dget_or (sl_config s) k PNone"

definition text_setting :: "slice \<Rightarrow> string \<Rightarrow> string" where
  "text_setting s k = (case setting s k of PStr t \<Rightarrow> t | _ \<Rightarrow> [])"

definition optional_text :: "pyval \<Rightarrow> string option" where
  "optional_text v = (case v of PStr t \<Rightarrow> Some t | _ \<Rightarrow> None)"

definition is_per_id_mode :: "slice \<Rightarrow> bool" where
  "is_per_id_mode s \<longleftrightarrow> substring ''{id}'' (text_setting s ''endpoint_template'')"

definition all_ids :: "slice \<Rightarrow> pydict \<Rightarrow> pyval" where
  "all_ids s params =
     (let own = setting s ''ids''; input_ids = dget_or params ''input_ids'' PNone
      in if truthy own then own else if truthy input_ids then input_ids else dget_or params ''ids'' (PList []))"

fun walk_keys :: "pyval \<Rightarrow> string list \<Rightarrow> pyval option" where
  "walk_keys v [] = Some v"
| "walk_keys (PDict d) (k # ks) = walk_keys (dget_or d k (PList [])) ks"
| "walk_keys v (k # ks) = None"

definition extract_records :: "slice \<Rightarrow> pyval \<Rightarrow> pyval list" where
  "extract_records s response_json =
     (let key = text_setting s ''response_key''
      in if key = [] then (case response_json of PList xs \<Rightarrow> xs | _ \<Rightarrow> [])
         else (case walk_keys response_json (split_at CHR ''.'' key) of
             None \<Rightarrow> [] | Some (PList xs) \<Rightarrow> xs | Some v \<Rightarrow> [v]))"

definition send_request :: "http_api \<Rightarrow> slice \<Rightarrow> string \<Rightarrow> pyval \<Rightarrow> http_result" where
  "send_request A s endpoint body =
     ha_request A
       \<lparr>hq_base_url = setting s ''base_url'',
        hq_headers = build_auth_headers (case setting s ''headers'' of PDict d \<Rightarrow> d | _ \<Rightarrow> [])
          (optional_text (setting s ''auth_type'')) (optional_text (setting s ''auth_token'')),
        hq_timeout = setting s ''timeout'', hq_method = setting s ''method'', hq_endpoint = endpoint, hq_body = body,
        hq_query = (if truthy (setting s ''params'') then setting s ''params'' else PNone)\<rparr>"

definition json_error :: py_error where
  "json_error = OtherError ''JSONDecodeError'' ''Expecting value''"

text \<open>\<open>v.format(id=id_value)\<close> for the text values of a dict body.\<close>

definition format_body :: "http_api \<Rightarrow> slice \<Rightarrow> pyval \<Rightarrow> py_error + pyval" where
  "format_body A s v =
     (if setting s ''method'' \<in> {PStr ''GET'', PStr ''HEAD''} then Inr PNone
      else case setting s ''body'' of
          PDict d \<Rightarrow>
            map_sum id (PDict \<circ> zip (dkeys d))
              (sequence (map (\<lambda>kv. case snd kv of PStr t \<Rightarrow> map_sum id PStr (format_id A v t) | x \<Rightarrow> Inr x) d))
        | b \<Rightarrow> Inr b)"

definition fetch_by_id :: "http_api \<Rightarrow> slice \<Rightarrow> pyval \<Rightarrow> py_error + pyval" where
  "fetch_by_id A s v =
     (case format_id A v (text_setting s ''endpoint_template'') of
        Inl e \<Rightarrow> Inl e
      | Inr endpoint \<Rightarrow>
          (case format_body A s v of
             Inl e \<Rightarrow> Inl e
           | Inr body \<Rightarrow>
               (case send_request A s endpoint body of
                  RequestFailed m \<Rightarrow> Inl (source_error ''id_based_api'' (''Request failed for id '' @ ha_str A v @ '': '' @ m))
                | Response code txt json \<Rightarrow>
                    if code = 404 then Inr PNone
                    else if \<not> (200 \<le> code \<and> code < 300)
                    then Inl (source_error ''id_based_api'' (''HTTP '' @ nat_text code @ '' for id '' @ ha_str A v @ '': '' @ take 200 txt))
                    else (case json of None \<Rightarrow> Inl json_error | Some j \<Rightarrow> Inr j))))"

definition fetch_batch :: "http_api \<Rightarrow> slice \<Rightarrow> py_error + pyval list" where
  "fetch_batch A s =
     (case send_request A s (text_setting s ''endpoint_template'') (setting s ''body'') of
        RequestFailed m \<Rightarrow> Inl (source_error ''id_based_api'' (''Request failed: '' @ m))
      | Response code txt json \<Rightarrow>
          if \<not> (200 \<le> code \<and> code < 300)
          then Inl (source_error ''id_based_api'' (''HTTP '' @ nat_text code @ '': '' @ txt))
          else (case json of None \<Rightarrow> Inl json_error | Some j \<Rightarrow> Inr (map wrap_as_record (extract_records s j))))"

definition fetch_id_record :: "http_api \<Rightarrow> slice \<Rightarrow> pyval \<Rightarrow> py_error + pyval list" where
  "fetch_id_record A s v =
     (case fetch_by_id A s v of Inl e \<Rightarrow> Inl e | Inr r \<Rightarrow> Inr (if truthy r then [wrap_as_record r] else []))"

definition api_fetch :: "http_api \<Rightarrow> render \<Rightarrow> slice \<Rightarrow> pydict \<Rightarrow> nat option \<Rightarrow> py_error + pyval list" where
  "api_fetch A render s params limit =
     (case resolve_parameters render s params of
        Inl e \<Rightarrow> Inl e
      | Inr _ \<Rightarrow>
          (case items_of (all_ids s params) of
             Inl e \<Rightarrow> Inl e
           | Inr xs \<Rightarrow>
               if \<not> is_per_id_mode s then fetch_batch A s
               else map_sum id concat (sequence (map (fetch_id_record A s) (up_to limit xs)))))"

definition api_part :: "slice \<Rightarrow> pyval list \<Rightarrow> py_error + slice" where
  "api_part s xs =
     new_source ''IDBasedAPISource'' api_signature
       (map (\<lambda>k. (k, if k = ''ids'' then PList xs else setting s k)) (sg_names api_signature))"

definition api_split :: "slice \<Rightarrow> pydict \<Rightarrow> planned" where
  "api_split s params =
     (if \<not> is_per_id_mode s then whole_split s
      else case items_of (all_ids s params) of
          Inl e \<Rightarrow> ([], Some e)
        | Inr xs \<Rightarrow>
            (case range_chunks (setting s ''batch_size'') xs of
               Inl e \<Rightarrow> ([], Some e) | Inr cs \<Rightarrow> plan_each (api_part s) cs))"


section \<open>Lemmas\<close>

subsection \<open>Constructors and the factory\<close>

text \<open>A config as a constructor stores it: its settings in order, each a value the constructor
  keeps as it is, and further keywords only where they are taken.\<close>

definition stored :: "signature \<Rightarrow> pydict \<Rightarrow> bool" where
  "stored g c \<longleftrightarrow> (\<exists>A X. c = A @ X \<and> dkeys A = sg_names g \<and> distinct (dkeys c)
     \<and> (\<forall>(k, v) \<in> set A. sg_store g k v = Inr v) \<and> (sg_kwargs g \<or> X = []))"

lemma sequence_map_Inr [simp]: "sequence (map Inr vs) = Inr vs"
  by (induction vs) auto

lemma sequence_Inr_iff: "sequence xs = Inr vs \<longleftrightarrow> xs = map Inr vs"
proof
  show "sequence xs = Inr vs \<Longrightarrow> xs = map Inr vs"
    by (induction xs arbitrary: vs) (auto split: sum.splits)
qed simp

text \<open>Calling the constructor with a config it stored gives that config again.\<close>

lemma construct_stored:
  assumes "stored g c"
  shows "construct g c = Inr c"
proof -
  obtain A X where c: "c = A @ X" "dkeys A = sg_names g" "distinct (dkeys c)" "\<forall>(k, v) \<in> set A. sg_store g k v = Inr v"
    "sg_kwargs g \<or> X = []" using assms by (auto simp: stored_def)
  have apart: "fst ` set A \<inter> fst ` set X = {}" using c(1,3) by (simp add: dkeys_def)
  have names: "set (sg_names g) = fst ` set A" using c(2) by (metis dkeys_def list.set_map)
  have X: "dfilter (\<lambda>k. k \<notin> set (sg_names g)) c = X"
  proof -
    have "filter (\<lambda>(k, _). k \<notin> fst ` set A) A = []" by (auto simp: filter_empty_conv image_iff)
    moreover have "fst x \<notin> fst ` set A" if "x \<in> set X" for x using apart that by blast
    then have "filter (\<lambda>(k, _). k \<notin> fst ` set A) X = X" by (intro filter_True) (simp add: case_prod_unfold)
    ultimately show ?thesis unfolding dfilter_def names c(1) by (simp only: filter_append append_Nil)
  qed
  have len: "length (sg_params g) = length A" using c(2) by (metis dkeys_def length_map sg_names_def)
  have "map (argument g c) (sg_params g) = map Inr (map snd A)"
  proof (rule nth_equalityI)
    fix i assume "i < length (map (argument g c) (sg_params g))"
    then have i: "i < length A" by (simp add: len)
    obtain k v where kv: "A ! i = (k, v)" by (cases "A ! i")
    then have mem: "(k, v) \<in> set A" using i by (metis nth_mem)
    have "fst (sg_params g ! i) = k"
      using c(2) i kv len by (metis dkeys_def fst_conv nth_map sg_names_def)
    moreover have "dget c k = Some v"
      using mem c(1,3) by (simp add: dget_def dkeys_def)
    ultimately show "map (argument g c) (sg_params g) ! i = map Inr (map snd A) ! i"
      using i len c(4) mem by (auto simp: argument_def kv)
  qed (simp add: len)
  then have "sequence (map (argument g c) (sg_params g)) = Inr (map snd A)" by (simp add: sequence_Inr_iff)
  moreover have "zip (sg_names g) (map snd A) = A"
    using c(2) by (metis dkeys_def zip_map_fst_snd)
  ultimately show ?thesis using X c(1,5) by (auto simp: construct_def)
qed

lemma stored_construct:
  assumes "construct g kw = Inr c" "distinct (dkeys kw)" "distinct (sg_names g)"
    and "\<And>k v w. sg_store g k v = Inr w \<Longrightarrow> sg_store g k w = Inr w"
  shows "stored g c"
proof -
  let ?X = "dfilter (\<lambda>k. k \<notin> set (sg_names g)) kw"
  obtain vs where vs: "map (argument g kw) (sg_params g) = map Inr vs" and c: "c = zip (sg_names g) vs @ ?X"
    and kwargs: "?X = [] \<or> sg_kwargs g"
    using assms(1) by (auto simp: construct_def Let_def sequence_Inr_iff split: if_splits sum.splits)
  have len: "length vs = length (sg_names g)" using arg_cong [OF vs, of length] by (simp add: sg_names_def)
  then have keys: "dkeys (zip (sg_names g) vs) = sg_names g" by (simp add: dkeys_def)
  have "sg_store g k v = Inr v" if kv: "(k, v) \<in> set (zip (sg_names g) vs)" for k v
  proof -
    obtain i where i: "i < length vs" "k = sg_names g ! i" "v = vs ! i" using kv by (auto simp: in_set_zip)
    have "argument g kw (sg_params g ! i) = Inr v"
      using arg_cong [OF vs, of "\<lambda>xs. xs ! i"] i len by (simp add: sg_names_def)
    then obtain u where "sg_store g (fst (sg_params g ! i)) u = Inr v"
      by (auto simp: argument_def split: option.splits)
    then show ?thesis using assms(4) i len by (simp add: sg_names_def)
  qed
  moreover have "distinct (dkeys c)"
    using assms(2,3) len by (auto simp: c dkeys_def dfilter_def distinct_map_filter dest: set_zip_leftD)
  ultimately show ?thesis
    unfolding stored_def using c keys kwargs by (intro exI [of _ "zip (sg_names g) vs"] exI [of _ ?X]) auto
qed

lemma dset_append: "k \<notin> set (dkeys A) \<Longrightarrow> dset (A @ X) k v = A @ dset X k v"
  by (induction A) (auto simp: dkeys_def)

lemma stored_dset:
  assumes "stored g c" "sg_kwargs g" "k \<notin> set (sg_names g)"
  shows "stored g (dset c k v)"
proof -
  obtain A X where c: "c = A @ X" "dkeys A = sg_names g" "distinct (dkeys c)" "\<forall>(k, v) \<in> set A. sg_store g k v = Inr v"
    using assms(1) by (auto simp: stored_def)
  have "dset c k v = A @ dset X k v" using c(1,2) assms(3) by (simp add: dset_append)
  moreover have "distinct (dkeys (dset c k v))" using c(3) by (metis dict_ok_def dict_ok_dset)
  ultimately show ?thesis unfolding stored_def using c assms(2) by blast
qed

subsection \<open>Plans of parts\<close>

lemma plan_each_all: "(\<And>x. x \<in> set xs \<Longrightarrow> f x = Inr (h x)) \<Longrightarrow> plan_each f xs = (map h xs, None)"
  by (induction xs) auto

lemma plan_each_built: "s \<in> set (fst (plan_each f xs)) \<Longrightarrow> \<exists>x \<in> set xs. f x = Inr s"
  by (induction xs) (auto split: sum.splits prod.splits)

lemma range_chunks_parts: "range_chunks v xs = Inr cs \<Longrightarrow> c \<in> set cs \<Longrightarrow> c \<noteq> []"
  by (auto simp: range_chunks_def dest: chunks_pieces split: pyval.splits if_splits)

lemma range_chunks_whole: "0 < n \<Longrightarrow> range_chunks (PInt n) xs = Inr (chunks (nat n) xs) \<and> concat (chunks (nat n) xs) = xs"
  by (simp add: range_chunks_def)

text \<open>A value without template text resolves to itself.\<close>

fun plain :: "pyval \<Rightarrow> bool" where
  "plain (PDict kvs) = (\<forall>(k, v) \<in> set kvs. plain v)"
| "plain (PList xs) = (\<forall>x \<in> set xs. plain x)"
| "plain (PStr s) = (\<not> has_template s)"
| "plain v = True"

lemma resolve_plain: "plain v \<Longrightarrow> resolve_templates render params v = Inr v"
proof (induction v)
  case (PList xs)
  then have "map (resolve_templates render params) xs = map Inr xs" by simp
  then show ?case by (simp only: resolve_templates.simps sequence_map_Inr map_sum.simps)
next
  case (PDict kvs)
  have "map (\<lambda>kv. resolve_templates render params (snd kv)) kvs = map Inr (map snd kvs)"
    using PDict by (fastforce simp: case_prod_unfold)
  then show ?case
    by (simp only: resolve_templates.simps sequence_map_Inr map_sum.simps zip_map_fst_snd)
qed (auto simp: resolve_text_def)

lemma resolve_plain_config: "plain (PDict (sl_config s)) \<Longrightarrow> resolve_parameters render s params = Inr (sl_config s)"
  by (simp only: resolve_parameters_def resolve_plain sum.case pyval.case)

subsection \<open>Sharding\<close>

text \<open>The contract between planning and reading: the parts a source is planned into read,
  together, the records the whole source reads, each as often. Nobody has to agree on an
  order: every part is a job of its own.\<close>

locale sharding =
  fixes plan :: "'s \<Rightarrow> 's list" and reads :: "'s \<Rightarrow> py_error + 'r list" and can_shard :: "'s \<Rightarrow> bool"
  assumes covers: "can_shard s \<Longrightarrow> reads s = Inr rs \<Longrightarrow>
    \<exists>rss. map reads (plan s) = map Inr rss \<and> mset (concat rss) = mset rs"
begin

lemma part_reads:
  assumes "can_shard s" "reads s = Inr rs" "t \<in> set (plan s)"
  shows "\<exists>ts. reads t = Inr ts \<and> set ts \<subseteq> set rs"
proof -
  obtain rss where rss: "map reads (plan s) = map Inr rss" "mset (concat rss) = mset rs"
    using covers [OF assms(1,2)] by blast
  obtain ts where ts: "ts \<in> set rss" "reads t = Inr ts"
    using assms(3) arg_cong [OF rss(1), of set] by auto
  have "set ts \<subseteq> set (concat rss)" using ts(1) by auto
  then show ?thesis using ts(2) mset_eq_setD [OF rss(2)] by auto
qed

lemma record_read:
  assumes "can_shard s" "reads s = Inr rs" "r \<in> set rs"
  shows "\<exists>t \<in> set (plan s). \<exists>ts. reads t = Inr ts \<and> r \<in> set ts"
proof -
  obtain rss where rss: "map reads (plan s) = map Inr rss" "mset (concat rss) = mset rs"
    using covers [OF assms(1,2)] by blast
  have "r \<in> set (concat rss)" using assms(3) mset_eq_setD [OF rss(2)] by simp
  then obtain ts where ts: "ts \<in> set rss" "r \<in> set ts" by auto
  then have "Inr ts \<in> set (map reads (plan s))" unfolding rss(1) by simp
  then show ?thesis using ts(2) by force
qed

lemma as_many_records:
  assumes "can_shard s" "reads s = Inr rs"
  shows "(\<Sum>t\<leftarrow>plan s. case reads t of Inr ts \<Rightarrow> length ts | Inl e \<Rightarrow> 0) = length rs"
proof -
  obtain rss where rss: "map reads (plan s) = map Inr rss" "mset (concat rss) = mset rs"
    using covers [OF assms] by blast
  have "map (\<lambda>t. case reads t of Inr ts \<Rightarrow> length ts | Inl e \<Rightarrow> 0) (plan s) = map length rss"
    using arg_cong [OF rss(1), of "map (\<lambda>r. case r of Inr ts \<Rightarrow> length ts | Inl e \<Rightarrow> 0)"] by (simp add: comp_def)
  then show ?thesis using mset_eq_length [OF rss(2)] by (simp add: length_concat)
qed

end


subsection \<open>Reading\<close>

lemma read_each_all: "read_each f None acc xs = map_sum id (\<lambda>rss. (acc @ concat rss, False)) (sequence (map f xs))"
  by (induction xs arbitrary: acc) (auto split: sum.split)

lemma read_each_concat: "map_sum id fst (read_each f None [] xs) = map_sum id concat (sequence (map f xs))"
  by (cases "sequence (map f xs)") (simp_all add: read_each_all)

text \<open>Reading the parts of a list one after the other reads the list.\<close>

lemma sequence_parts:
  assumes "sequence (map f (concat cs)) = Inr rss"
  shows "\<exists>yss. map (\<lambda>c. map_sum id concat (sequence (map f c))) cs = map Inr yss \<and> concat yss = concat rss"
  using assms
proof (induction cs arbitrary: rss)
  case (Cons c cs)
  have all: "map f c @ map f (concat cs) = map Inr rss" using Cons.prems by (simp add: sequence_Inr_iff)
  then obtain us vs where uv: "rss = us @ vs" "map f c = map Inr us" "map f (concat cs) = map Inr vs"
    by (auto simp: append_eq_map_conv)
  then obtain yss where "map (\<lambda>c. map_sum id concat (sequence (map f c))) cs = map Inr yss" "concat yss = concat vs"
    using Cons.IH [of vs] unfolding sequence_Inr_iff by blast
  then show ?case
    using uv(1) by (intro exI [of _ "concat us # yss"]) (simp only: list.map uv(2) sequence_map_Inr map_sum.simps concat.simps concat_append simp_thms)
qed simp

subsection \<open>In memory\<close>

definition mock_can_shard :: "slice \<Rightarrow> bool" where
  "mock_can_shard s \<longleftrightarrow> (case (dget (sl_config s) ''data'', dget (sl_config s) ''batch_size'') of
     (Some (PList xs), Some (PInt n)) \<Rightarrow> 0 < n | _ \<Rightarrow> False)"

lemma mock_part_eq:
  "mock_part n xs = Inr \<lparr>sl_type = ''MockSource'', sl_config = [(''data'', PList xs), (''batch_size'', n)], sl_params = None\<rparr>"
  by (simp add: mock_part_def new_source_def construct_def mock_signature_def sg_names_def argument_def as_given_def dfilter_def)

interpretation mock: sharding "fst \<circ> mock_split" "\<lambda>s. mock_fetch s None" mock_can_shard
proof (unfold_locales, goal_cases)
  case (1 s rs)
  obtain xs n where s: "dget (sl_config s) ''data'' = Some (PList xs)" "dget (sl_config s) ''batch_size'' = Some (PInt n)" "0 < n"
    using 1(1) by (auto simp: mock_can_shard_def split: option.splits pyval.splits)
  have rs: "rs = map wrap_as_record xs" using 1(2) s by (simp add: mock_fetch_def dget_or_def items_of_def up_to_def)
  have "fst (mock_split s) = map (\<lambda>c. \<lparr>sl_type = ''MockSource'', sl_config = [(''data'', PList c), (''batch_size'', PInt n)],
      sl_params = None\<rparr>) (chunks (nat n) xs)"
    using s by (simp add: mock_split_def dget_or_def items_of_def range_chunks_whole plan_each_all [OF mock_part_eq])
  then show ?case
    using s(3) by (intro exI [of _ "map (map wrap_as_record) (chunks (nat n) xs)"])
      (simp add: mock_fetch_def dget_or_def items_of_def up_to_def rs flip: map_concat)
qed

subsection \<open>HTTP APIs\<close>

text \<open>An API source that asks for each id, none of whose texts is a template.\<close>

definition api_can_shard :: "pydict \<Rightarrow> slice \<Rightarrow> bool" where
  "api_can_shard params s \<longleftrightarrow> stored api_signature (sl_config s) \<and> plain (PDict (sl_config s)) \<and> is_per_id_mode s
     \<and> (case all_ids s params of PList xs \<Rightarrow> list_all plain xs | _ \<Rightarrow> False)
     \<and> (case setting s ''batch_size'' of PInt n \<Rightarrow> 0 < n | _ \<Rightarrow> False)"

definition with_ids :: "slice \<Rightarrow> pyval list \<Rightarrow> slice" where
  "with_ids s xs =
     \<lparr>sl_type = ''IDBasedAPISource'',
      sl_config = map (\<lambda>k. (k, if k = ''ids'' then PList xs else setting s k)) (sg_names api_signature), sl_params = None\<rparr>"

lemma distinct_api_names: "distinct (sg_names api_signature)"
  by (simp add: sg_names_def api_signature_def)

lemma stored_with_ids:
  assumes "stored api_signature (sl_config s)"
  shows "stored api_signature (sl_config (with_ids s xs))"
proof -
  obtain A where A: "sl_config s = A" "dkeys A = sg_names api_signature" "distinct (dkeys A)"
      "\<forall>(k, v) \<in> set A. sg_store api_signature k v = Inr v"
    using assms by (auto simp: stored_def api_signature_def)
  have "sg_store api_signature k (setting s k) = Inr (setting s k)" if k: "k \<in> set (sg_names api_signature)" for k
  proof -
    obtain v where v: "(k, v) \<in> set A" using k unfolding A(2) [symmetric] by (auto simp: dkeys_def)
    then have "setting s k = v" using A(1,3) by (simp add: setting_def dget_or_def dget_def dkeys_def)
    then show ?thesis using A(4) v by auto
  qed
  moreover have "sg_store api_signature ''ids'' (PList xs) = Inr (PList xs)"
    by (simp add: api_signature_def api_store_def)
  ultimately show ?thesis
    unfolding stored_def
    by (intro exI [of _ "sl_config (with_ids s xs)"] exI [of _ "[]"]) (auto simp: with_ids_def dkeys_def comp_def distinct_api_names)
qed

lemma api_part_eq: "stored api_signature (sl_config s) \<Longrightarrow> api_part s xs = Inr (with_ids s xs)"
  using construct_stored [OF stored_with_ids [of s xs]] by (simp add: api_part_def new_source_def with_ids_def)

lemma setting_with_ids: "k \<in> set (sg_names api_signature) \<Longrightarrow>
    setting (with_ids s xs) k = (if k = ''ids'' then PList xs else setting s k)"
  by (simp add: setting_def with_ids_def dget_or_def dget_map_keys)

lemmas api_settings = setting_with_ids [unfolded api_signature_def sg_names_def, simplified]

lemma request_with_ids:
  "send_request A (with_ids s xs) = send_request A s" "format_body A (with_ids s xs) = format_body A s"
  by (simp_all add: fun_eq_iff send_request_def format_body_def api_settings)

lemma fetch_with_ids: "fetch_id_record A (with_ids s xs) = fetch_id_record A s"
proof -
  have "text_setting (with_ids s xs) ''endpoint_template'' = text_setting s ''endpoint_template''"
    by (simp add: text_setting_def api_settings)
  then show ?thesis unfolding fetch_id_record_def [abs_def] fetch_by_id_def request_with_ids by (simp only:)
qed

lemma plain_setting: "plain (PDict (sl_config s)) \<Longrightarrow> plain (setting s k)"
  by (auto simp: setting_def dget_or_def dget_def split: option.split dest: map_of_SomeD)

interpretation api: sharding "\<lambda>s. fst (api_split s params)" "\<lambda>s. api_fetch A render s params None" "api_can_shard params"
  for params A render
proof (unfold_locales, goal_cases)
  case (1 s rs)
  obtain xs n where s: "stored api_signature (sl_config s)" "plain (PDict (sl_config s))" "is_per_id_mode s"
      "all_ids s params = PList xs" "list_all plain xs" "setting s ''batch_size'' = PInt n" "0 < n"
    using 1(1) by (auto simp: api_can_shard_def split: pyval.splits)
  let ?cs = "chunks (nat n) xs"
  have cs: "concat ?cs = xs" using s(7) by simp
  have "map_sum id concat (sequence (map (fetch_id_record A s) xs)) = Inr rs"
    using 1(2) s by (simp add: api_fetch_def resolve_plain_config items_of_def up_to_def)
  then obtain rss where rss: "sequence (map (fetch_id_record A s) (concat ?cs)) = Inr rss" "rs = concat rss"
    unfolding cs by (auto simp: map_sum_def split: sum.splits)
  obtain yss where yss: "map (\<lambda>c. map_sum id concat (sequence (map (fetch_id_record A s) c))) ?cs = map Inr yss"
      "concat yss = rs"
    using sequence_parts [OF rss(1)] rss(2) by auto
  have plan: "fst (api_split s params) = map (with_ids s) ?cs"
    using s by (simp add: api_split_def items_of_def range_chunks_whole plan_each_all [OF api_part_eq])
  have "api_fetch A render (with_ids s c) params None = map_sum id concat (sequence (map (fetch_id_record A s) c))" if c: "c \<in> set ?cs" for c
  proof -
    have "c \<noteq> []" "set c \<subseteq> set xs" using chunks_pieces [OF c] cs c by (auto, metis UN_iff set_concat)
    moreover have "plain (PDict (sl_config (with_ids s c)))"
      using s(5) plain_setting [OF s(2)] \<open>set c \<subseteq> set xs\<close> by (auto simp: with_ids_def list_all_iff)
    ultimately show ?thesis
      using s(3) by (simp add: api_fetch_def resolve_plain_config all_ids_def api_settings items_of_def
          is_per_id_mode_def text_setting_def up_to_def fetch_with_ids)
  qed
  then have "map (\<lambda>s. api_fetch A render s params None) (fst (api_split s params)) = map Inr yss"
    unfolding plan yss(1) [symmetric] by simp
  then show ?case using yss(2) by auto
qed

subsection \<open>S3\<close>

definition has_brace :: "string \<Rightarrow> bool" where
  "has_brace s \<longleftrightarrow> CHR 0x7B \<in> set s"

lemma substring_set: "substring t s \<Longrightarrow> set t \<subseteq> set s"
  by (induction s) (auto dest!: set_mono_prefix)

lemma no_brace: "\<not> has_brace s \<Longrightarrow> \<not> has_template s"
  unfolding has_template_def has_brace_def using substring_set [of "''{{''" s] substring_set [of "''{%''" s] by auto

text \<open>A listing that fails nowhere and has the same objects whatever the page size, and keys
  that are no templates.\<close>

definition lists :: "s3_service \<Rightarrow> slice \<Rightarrow> s3_object list \<Rightarrow> bool" where
  "lists S s obs \<longleftrightarrow>
     (\<forall>n. snd (ss_list S (setting s ''bucket'') (setting s ''prefix'') (PInt n)) = None
        \<and> concat (fst (ss_list S (setting s ''bucket'') (setting s ''prefix'') (PInt n))) = obs)
     \<and> (\<forall>ob \<in> set obs. \<not> has_brace (ob_key ob))"

definition s3_can_shard :: "s3_service \<Rightarrow> slice \<Rightarrow> bool" where
  "s3_can_shard S s \<longleftrightarrow> stored s3_signature (sl_config s) \<and> plain (PDict (sl_config s)) \<and> \<not> truthy (setting s ''keys'')
     \<and> truthy (setting s ''read_content'') \<and> (\<exists>n. setting s ''page_size'' = PInt n) \<and> (\<exists>obs. lists S s obs)"

definition with_keys :: "slice \<Rightarrow> string list \<Rightarrow> slice" where
  "with_keys s keys =
     \<lparr>sl_type = ''S3Source'', sl_config = map (\<lambda>k. (k, setting s k)) (sg_names s3_signature) @ [(''keys'', PList (map PStr keys))],
      sl_params = None\<rparr>"

lemma s3_part_eq: "setting s ''page_size'' = n \<Longrightarrow> s3_part (sl_config s) n keys = Inr (with_keys s keys)"
  by (simp add: s3_part_def new_source_def construct_def s3_signature_def sg_names_def argument_def as_given_def dfilter_def
      with_keys_def setting_def)

lemma setting_with_keys: "k \<in> set (sg_names s3_signature) \<Longrightarrow> setting (with_keys s keys) k = setting s k"
  by (auto simp: setting_def with_keys_def dget_or_def dget_def map_add_def map_of_map_restrict s3_signature_def sg_names_def)

lemmas s3_settings = setting_with_keys [unfolded s3_signature_def sg_names_def, simplified]

lemma keys_with_keys: "setting (with_keys s keys) ''keys'' = PList (map PStr keys)"
  by (simp add: setting_def with_keys_def dget_or_def dget_def map_add_def map_of_map_restrict s3_signature_def sg_names_def)

lemma read_with_keys: "read_object_content S (with_keys s keys) = read_object_content S s"
proof -
  have "setting (with_keys s keys) ''bucket'' = setting s ''bucket''"
    "setting (with_keys s keys) ''content_type'' = setting s ''content_type''"
    by (simp_all add: s3_settings)
  note this [unfolded setting_def]
  then show ?thesis unfolding read_object_content_def [abs_def] by (simp only:)
qed

lemma sequence_skip:
  "(\<And>x. x \<in> set xs \<Longrightarrow> g x = (if P x then f x else Inr [])) \<Longrightarrow>
     map_sum id concat (sequence (map g xs)) = map_sum id concat (sequence (map f (filter P xs)))"
proof (induction xs)
  case (Cons x xs)
  have g: "g x = (if P x then f x else Inr [])" by (rule Cons.prems) simp
  have IH: "map_sum id concat (sequence (map g xs)) = map_sum id concat (sequence (map f (filter P xs)))"
    by (rule Cons.IH, rule Cons.prems) simp
  show ?case
    using IH g by (cases "f x"; cases "sequence (map g xs)"; cases "sequence (map f (filter P xs))"; cases "P x") simp_all
qed simp

interpretation s3: sharding "\<lambda>s. fst (s3_split S render s params)" "\<lambda>s. s3_fetch S render s params None" "s3_can_shard S"
  for S render params
proof (unfold_locales, goal_cases)
  case (1 s rs)
  obtain n obs where s: "stored s3_signature (sl_config s)" "plain (PDict (sl_config s))" "\<not> truthy (setting s ''keys'')"
      "truthy (setting s ''read_content'')" "setting s ''page_size'' = PInt n" "lists S s obs"
    using 1(1) by (auto simp: s3_can_shard_def)
  let ?page = "\<lambda>n. ss_list S (setting s ''bucket'') (setting s ''prefix'') (PInt n)"
  let ?f = "\<lambda>key. map_sum id content_records (read_object_content S s key)"
  obtain pages where first: "?page 1000 = (pages, None)" "concat pages = obs"
    using s(6) by (cases "?page 1000") (auto simp: lists_def dest: spec [where x = 1000])
  obtain ps where ps: "?page n = (ps, None)" "concat ps = obs"
    using s(6) by (cases "?page n") (auto simp: lists_def dest: spec [where x = n])
  have filtered: "map_sum id concat (sequence (map (read_listed S s True) obs)) =
      map_sum id concat (sequence (map ?f (filter (matches_pattern s) (map ob_key obs))))" for obs
    unfolding filter_map map_map
    by (rule sequence_skip [where f = "?f \<circ> ob_key" and P = "matches_pattern s \<circ> ob_key"]) (simp add: read_listed_def)
  let ?css = "filter (\<lambda>ks. ks \<noteq> []) (map (\<lambda>p. filter (matches_pattern s) (map ob_key p)) ps)"
  have keys: "concat ?css = filter (matches_pattern s) (map ob_key obs)"
  proof -
    have "concat (filter (\<lambda>ks. ks \<noteq> []) xss) = concat xss" for xss :: "string list list" by (induction xss) auto
    moreover have "concat (map (\<lambda>p. filter (matches_pattern s) (map ob_key p)) xss) =
        filter (matches_pattern s) (map ob_key (concat xss))" for xss :: "s3_object list list" by (induction xss) auto
    ultimately show ?thesis by (simp add: ps(2))
  qed
  have "map_sum id fst (read_each (read_listed S s True) None [] obs) = Inr rs"
    using 1(2) s(3,4) first
    by (simp add: s3_fetch_def resolve_plain_config [OF s(2)] setting_def [symmetric] map_sum_def split: sum.splits prod.splits)
  then have "map_sum id concat (sequence (map ?f (concat ?css))) = Inr rs"
    unfolding keys filtered [symmetric] read_each_concat .
  then obtain rss where rss: "sequence (map ?f (concat ?css)) = Inr rss" "rs = concat rss"
    by (auto simp: map_sum_def split: sum.splits)
  obtain yss where yss: "map (\<lambda>c. map_sum id concat (sequence (map ?f c))) ?css = map Inr yss" "concat yss = rs"
    using sequence_parts [OF rss(1)] rss(2) by auto
  have plan: "fst (s3_split S render s params) = map (with_keys s) ?css"
  proof -
    have "dget_or (sl_config s) ''page_size'' (PInt 1000) = PInt n"
      using s(5) by (simp add: setting_def dget_or_def split: option.splits)
    moreover have "plan_each (s3_part (sl_config s) (PInt n)) ?css = (map (with_keys s) ?css, None)"
      by (rule plan_each_all) (rule s3_part_eq [OF s(5)])
    ultimately show ?thesis
      using ps(1) by (simp add: s3_split_def resolve_plain_config [OF s(2)] setting_def)
  qed
  have "s3_fetch S render (with_keys s c) params None = map_sum id concat (sequence (map ?f c))" if c: "c \<in> set ?css" for c
  proof -
    have "set c \<subseteq> set (concat ?css)" using c by (simp only: set_concat) blast
    then have own: "set c \<subseteq> ob_key ` set obs" unfolding keys by auto
    have "c \<noteq> []" using c by simp
    have "plain (PDict (sl_config (with_keys s c)))"
      using plain_setting [OF s(2)] own s(6) no_brace by (auto simp: with_keys_def lists_def)
    then have "s3_fetch S render (with_keys s c) params None =
        map_sum id fst (read_each (read_key S (with_keys s c) True) None [] (map PStr c))"
      using \<open>c \<noteq> []\<close> s(4)
      by (simp add: s3_fetch_def resolve_plain_config setting_def [symmetric] keys_with_keys s3_settings items_of_def)
    also have "\<dots> = map_sum id concat (sequence (map ?f c))"
      unfolding read_each_concat by (simp add: comp_def read_key_def read_with_keys)
    finally show ?thesis .
  qed
  then have "map (\<lambda>s. s3_fetch S render s params None) (fst (s3_split S render s params)) = map Inr yss"
    unfolding plan yss(1) [symmetric] by simp
  then show ?case using yss(2) by auto
qed

subsection \<open>SQL\<close>

definition in_window :: "string \<Rightarrow> int \<Rightarrow> int \<Rightarrow> pydict \<Rightarrow> bool" where
  "in_window col a b r = (case dget r col of Some (PInt i) \<Rightarrow> a \<le> i \<and> i < b | _ \<Rightarrow> False)"

definition row_ids :: "string \<Rightarrow> pydict list \<Rightarrow> int list" where
  "row_ids col rows = concat (map (\<lambda>r. case dget r col of Some (PInt i) \<Rightarrow> [i] | _ \<Rightarrow> []) rows)"

text \<open>The documented answers of a database whose query \<open>q\<close> has these rows: \<open>MIN\<close> and \<open>MAX\<close> skip
  nulls, and so does a comparison.\<close>

definition row_windows :: "string \<Rightarrow> int \<Rightarrow> pydict list \<Rightarrow> (int \<times> int) list" where
  "row_windows col n rows =
     (if row_ids col rows = [] then []
      else case id_windows n (Min (set (row_ids col rows))) (Max (set (row_ids col rows))) of None \<Rightarrow> [] | Some ws \<Rightarrow> ws)"

definition answers :: "database \<Rightarrow> pyval \<Rightarrow> string \<Rightarrow> string \<Rightarrow> int \<Rightarrow> pydict list \<Rightarrow> bool" where
  "answers D url q col n rows \<longleftrightarrow> D url q = Inr rows
     \<and> D url (min_max_query col q) = Inr [if row_ids col rows = [] then [(''lo'', PNone), (''hi'', PNone)]
         else [(''lo'', PInt (Min (set (row_ids col rows)))), (''hi'', PInt (Max (set (row_ids col rows))))]]
     \<and> list_all (\<lambda>(a, b). D url (window_query col q a b) = Inr (filter (in_window col a b) rows)) (row_windows col n rows)"

lemma windows_cover:
  assumes "0 < b"
  shows "\<exists>ws e. id_windows b cur hi = Some ws \<and> hi < e \<and> cur \<le> max cur e \<and>
    mset (concat (map (\<lambda>w. filter (in_window col (fst w) (snd w)) rows) ws)) = mset (filter (in_window col cur e) rows)"
proof (induction "nat (hi + 1 - cur)" arbitrary: cur rule: less_induct)
  case less
  show ?case
  proof (cases "hi < cur")
    case True
    have "filter (in_window col cur cur) rows = []"
      by (auto simp: filter_empty_conv in_window_def split: option.splits pyval.splits)
    then show ?thesis using True by (intro exI [of _ "[]"] exI [of _ cur]) (simp add: id_windows.simps)
  next
    case False
    obtain ws e where IH: "id_windows b (cur + b) hi = Some ws" "hi < e"
      "mset (concat (map (\<lambda>w. filter (in_window col (fst w) (snd w)) rows) ws)) = mset (filter (in_window col (cur + b) e) rows)"
      using less [of "cur + b"] False assms by auto
    have split: "mset (filter (in_window col cur (cur + b)) rows) + mset (filter (in_window col (cur + b) (max (cur + b) e)) rows) =
        mset (filter (in_window col cur (max (cur + b) e)) rows)"
      using assms by (induction rows) (auto simp: in_window_def split: option.splits pyval.splits)
    have same: "filter (in_window col (cur + b) e) rows = filter (in_window col (cur + b) (max (cur + b) e)) rows"
      by (rule filter_cong) (auto simp: in_window_def split: option.splits pyval.splits)
    have "id_windows b cur hi = Some ((cur, cur + b) # ws)"
      using IH(1) False by (subst id_windows.simps) simp
    then show ?thesis
      using IH(2,3) split same by (intro exI [of _ "(cur, cur + b) # ws"] exI [of _ "max (cur + b) e"]) auto
  qed
qed

text \<open>A batch size that is not positive never gets past the first id.\<close>

lemma no_progress:
  assumes "id_windows b cur hi = Some ws"
  shows "cur \<le> hi \<longrightarrow> 0 < b"
proof (rule id_windows.raw_induct [where P = "\<lambda>b cur hi ws. cur \<le> hi \<longrightarrow> 0 < b", OF _ assms])
  fix f and b cur hi :: int and ws :: "(int \<times> int) list"
  assume "\<And>b cur hi ws. f b cur hi = Some ws \<Longrightarrow> cur \<le> hi \<longrightarrow> 0 < b"
    and "(if hi < cur then Some [] else Option.bind (f b (cur + b) hi) (\<lambda>ws. Some ((cur, cur + b) # ws))) = Some ws"
  then show "cur \<le> hi \<longrightarrow> 0 < b"
    by (cases "hi < cur"; cases "hi < cur + b") (auto split: bind_splits)
qed

lemma nat_text_digits: "c \<in> set (nat_text n) \<Longrightarrow> (of_char c :: nat) < 58"
proof (induction n rule: nat_text.induct)
  case (1 n)
  show ?case
  proof (cases "n < 10")
    case True
    then show ?thesis using 1(2) by (subst (asm) nat_text.simps) simp
  next
    case False
    then have "c \<in> set (nat_text (n div 10)) \<or> c = char_of (48 + n mod 10)"
      using 1(2) by (subst (asm) nat_text.simps) auto
    moreover have "(of_char (char_of (48 + n mod 10) :: char) :: nat) < 58"
      using mod_less_divisor [of 10 n] by simp
    ultimately show ?thesis using 1(1) [OF False] by auto
  qed
qed

lemma int_text_brace: "\<not> has_brace (int_text i)"
  using nat_text_digits [of "CHR 0x7B"] by (auto simp: has_brace_def int_text_def)

lemma window_query_brace: "\<not> has_brace q \<Longrightarrow> \<not> has_brace col \<Longrightarrow> \<not> has_brace (window_query col q a b)"
  using int_text_brace [of a] int_text_brace [of b] by (simp add: window_query_def has_brace_def)

lemma plain_dset: "plain (PDict d) \<Longrightarrow> plain v \<Longrightarrow> plain (PDict (dset d k v))"
  by (induction d) (auto split: if_splits)

lemma plain_window:
  assumes "plain (PDict c)" "\<not> has_brace q" "\<not> has_brace col"
  shows "plain (PDict (sl_config (sql_window c c col q (PInt n) w)))"
proof -
  have "plain (dget_or c k PNone)" for k
    using assms(1) by (auto simp: dget_or_def dget_def split: option.split dest: map_of_SomeD)
  moreover have "plain (PDict (engine_kwargs c))" using assms(1) by (auto simp: engine_kwargs_def dfilter_def)
  ultimately show ?thesis
    using no_brace [OF window_query_brace [OF assms(2,3)]]
    unfolding sql_window_def slice.simps by (intro plain_dset) auto
qed

definition has_id :: "string \<Rightarrow> pydict \<Rightarrow> bool" where
  "has_id col r \<longleftrightarrow> (case dget r col of Some (PInt i) \<Rightarrow> True | _ \<Rightarrow> False)"

lemma in_bounds:
  assumes "row_ids col rows \<noteq> []" "Max (set (row_ids col rows)) < e"
  shows "filter (in_window col (Min (set (row_ids col rows))) e) rows = filter (has_id col) rows"
proof (rule filter_cong [OF refl])
  fix r assume r: "r \<in> set rows"
  have "i \<in> set (row_ids col rows)" if "dget r col = Some (PInt i)" for i
    using r that by (force simp: row_ids_def)
  then have "Min (set (row_ids col rows)) \<le> i \<and> i < e" if "dget r col = Some (PInt i)" for i
    using that assms(2) by (meson List.finite_set Max_ge Min_le le_less_trans)
  then show "in_window col (Min (set (row_ids col rows))) e r = has_id col r"
    by (auto simp: in_window_def has_id_def split: option.split pyval.split)
qed

definition sql_plan :: "database \<Rightarrow> render \<Rightarrow> pydict \<Rightarrow> slice \<Rightarrow> slice list" where
  "sql_plan D render params s = (case sql_split D render s params of Some (ss, _) \<Rightarrow> ss | None \<Rightarrow> [])"

text \<open>A SQL source with an id column and a batch size, and no template text left in its config.\<close>

definition windowed :: "slice \<Rightarrow> string \<Rightarrow> string \<Rightarrow> int \<Rightarrow> bool" where
  "windowed s q col n \<longleftrightarrow> plain (PDict (sl_config s)) \<and> dget (sl_config s) ''query'' = Some (PStr q)
     \<and> dget (sl_config s) ''id_column'' = Some (PStr col) \<and> dget (sl_config s) ''batch_size'' = Some (PInt n)
     \<and> col \<noteq> [] \<and> 0 < n \<and> \<not> has_brace q \<and> \<not> has_brace col"

lemma sql_windows:
  assumes s: "windowed s q col n" and D: "answers D (setting s ''connection_url'') q col n rows"
  shows "\<exists>ss rss. sql_split D render s params = Some (ss, None)
    \<and> map (\<lambda>t. sql_fetch D render t params None) ss = map Inr rss
    \<and> mset (concat rss) = mset (map (wrap_as_record \<circ> PDict) (filter (has_id col) rows))"
proof -
  let ?c = "sl_config s"
  have plan: "sql_split D render s params =
      (if row_ids col rows = [] then Some ([], None)
       else map_option (\<lambda>ws. (map (sql_window ?c ?c col q (PInt n)) ws, None))
         (id_windows n (Min (set (row_ids col rows))) (Max (set (row_ids col rows)))))"
    using s D unfolding windowed_def answers_def setting_def
    by (simp add: sql_split_def resolve_plain_config sql_text_def count_of_rows_def dget_or_def id_bounds_def as_int_def Let_def)
  show ?thesis
  proof (cases "row_ids col rows = []")
    case True
    then have "filter (has_id col) rows = []"
      by (force simp: row_ids_def has_id_def filter_empty_conv split: option.splits pyval.splits)
    then show ?thesis using plan True by simp
  next
    case False
    obtain ws e where ws: "id_windows n (Min (set (row_ids col rows))) (Max (set (row_ids col rows))) = Some ws"
      "Max (set (row_ids col rows)) < e"
      "mset (concat (map (\<lambda>w. filter (in_window col (fst w) (snd w)) rows) ws)) =
         mset (filter (in_window col (Min (set (row_ids col rows))) e) rows)"
      using windows_cover [of n] s unfolding windowed_def by blast
    let ?read = "\<lambda>w. map (wrap_as_record \<circ> PDict) (filter (in_window col (fst w) (snd w)) rows)"
    have "sql_fetch D render (sql_window ?c ?c col q (PInt n) w) params None = Inr (?read w)" if w: "w \<in> set ws" for w
    proof -
      have "resolve_parameters render (sql_window ?c ?c col q (PInt n) w) params = Inr (sl_config (sql_window ?c ?c col q (PInt n) w))"
        using s unfolding windowed_def by (intro resolve_plain_config plain_window) auto
      moreover have "D (setting s ''connection_url'') (window_query col q (fst w) (snd w)) =
          Inr (filter (in_window col (fst w) (snd w)) rows)"
        using D w ws(1) False by (auto simp: answers_def list_all_iff row_windows_def)
      ultimately show ?thesis
        by (simp add: sql_fetch_def sql_window_def sql_text_def dget_or_def setting_def)
    qed
    moreover have "mset (concat (map ?read ws)) = mset (map (wrap_as_record \<circ> PDict) (filter (has_id col) rows))"
    proof -
      have "concat (map ?read ws) = map (wrap_as_record \<circ> PDict) (concat (map (\<lambda>w. filter (in_window col (fst w) (snd w)) rows) ws))"
        by (simp add: map_concat comp_def)
      then show ?thesis using ws(3) unfolding in_bounds [OF False ws(2)] by simp
    qed
    ultimately show ?thesis
      using plan False ws(1) by (intro exI [of _ "map (sql_window ?c ?c col q (PInt n)) ws"] exI [of _ "map ?read ws"]) (simp add: comp_def)
  qed
qed

interpretation sql: sharding "sql_plan D render params" "\<lambda>s. sql_fetch D render s params None"
  "\<lambda>s. \<exists>q col n rows. windowed s q col n \<and> answers D (setting s ''connection_url'') q col n rows \<and> list_all (has_id col) rows"
  for D render params
proof (unfold_locales, goal_cases)
  case (1 s rs)
  then obtain q col n rows where s: "windowed s q col n" "answers D (setting s ''connection_url'') q col n rows"
    "list_all (has_id col) rows" by blast
  obtain ss rss where ss: "sql_split D render s params = Some (ss, None)"
    "map (\<lambda>t. sql_fetch D render t params None) ss = map Inr rss"
    "mset (concat rss) = mset (map (wrap_as_record \<circ> PDict) (filter (has_id col) rows))"
    using sql_windows [OF s(1,2)] by blast
  have "rs = map (wrap_as_record \<circ> PDict) rows"
    using 1(2) s(1,2) by (simp add: windowed_def answers_def sql_fetch_def resolve_plain_config sql_text_def dget_or_def setting_def)
  moreover have "filter (has_id col) rows = rows" using s(3) by (simp add: list_all_iff)
  ultimately show ?case using ss by (auto simp: sql_plan_def)
qed

text \<open>C12: A SQL source with an id column is planned without reading a row, and the jobs of its
  windows read, together, exactly the rows whose id is not null, each once -- whatever the
  ids, their order and their gaps. (Rows without an id are in no window.)\<close>

theorem sql_windows_read_every_row:
  assumes "windowed s q col n" "answers D (setting s ''connection_url'') q col n rows"
  shows "\<exists>ss rss. sql_split D render s params = Some (ss, None)
    \<and> map (\<lambda>t. sql_fetch D render t params None) ss = map Inr rss
    \<and> mset (concat rss) = mset (map (wrap_as_record \<circ> PDict) (filter (has_id col) rows))"
  by (rule sql_windows [OF assms])

definition some_rows :: "pydict list" where
  "some_rows = [[(''id'', PInt 7), (''x'', PStr ''b'')], [(''id'', PNone), (''x'', PStr ''c'')], [(''id'', PInt 1), (''x'', PStr ''a'')]]"

definition some_table :: database where
  "some_table url q =
     (if q = ''SELECT * FROM t'' then Inr some_rows
      else if q = min_max_query ''id'' ''SELECT * FROM t'' then Inr [[(''lo'', PInt 1), (''hi'', PInt 7)]]
      else if q = window_query ''id'' ''SELECT * FROM t'' 1 5 then Inr [some_rows ! 2]
      else if q = window_query ''id'' ''SELECT * FROM t'' 5 9 then Inr [some_rows ! 0]
      else Inl ''no such table'')"

definition some_sql :: slice where
  "some_sql = \<lparr>sl_type = ''SqlSource'',
     sl_config = [(''connection_url'', PStr ''db''), (''query'', PStr ''SELECT * FROM t''), (''id_column'', PStr ''id''),
       (''time_column'', PNone), (''batch_size'', PInt 4)], sl_params = None\<rparr>"

lemma sql_windows_read_every_row_witness:
  "\<exists>ss rss. sql_split some_table (\<lambda>s p. Inr s) some_sql [] = Some (ss, None)
    \<and> map (\<lambda>t. sql_fetch some_table (\<lambda>s p. Inr s) t [] None) ss = map Inr rss
    \<and> mset (concat rss) = {#wrap_as_record (PDict (some_rows ! 0)), wrap_as_record (PDict (some_rows ! 2))#}"
proof -
  have "windowed some_sql ''SELECT * FROM t'' ''id'' 4" by code_simp
  moreover have "answers some_table (setting some_sql ''connection_url'') ''SELECT * FROM t'' ''id'' 4 some_rows"
  proof -
    let ?q = "''SELECT * FROM t''"
    have row_ids: "row_ids ''id'' some_rows = [7, 1]" by code_simp
    have "id_windows 4 1 7 = Some [(1, 5), (5, 9)]"
      by (subst id_windows.simps, simp, subst id_windows.simps, simp, subst id_windows.simps, simp)
    then have "row_windows ''id'' 4 some_rows = [(1, 5), (5, 9)]" by (simp add: row_windows_def row_ids)
    moreover have "some_table u ?q = Inr some_rows"
      "some_table u (min_max_query ''id'' ?q) = Inr [[(''lo'', PInt 1), (''hi'', PInt 7)]]"
      "some_table u (window_query ''id'' ?q 1 5) = Inr (filter (in_window ''id'' 1 5) some_rows)"
      "some_table u (window_query ''id'' ?q 5 9) = Inr (filter (in_window ''id'' 5 9) some_rows)" for u
      by code_simp+
    ultimately show ?thesis by (simp add: answers_def row_ids)
  qed
  ultimately have "\<exists>ss rss. sql_split some_table (\<lambda>s p. Inr s) some_sql [] = Some (ss, None)
      \<and> map (\<lambda>t. sql_fetch some_table (\<lambda>s p. Inr s) t [] None) ss = map Inr rss
      \<and> mset (concat rss) = mset (map (wrap_as_record \<circ> PDict) (filter (has_id ''id'') some_rows))"
    by (rule sql_windows_read_every_row)
  moreover have "filter (has_id ''id'') some_rows = [some_rows ! 0, some_rows ! 2]" by code_simp
  ultimately show ?thesis by simp
qed

end
