(* ===== verification/Elastic.thy ===== *)
theory Elastic
  imports Sources
begin

text \<open>
  The Elasticsearch connector (\<open>sources/elastic.py\<close>): how a query is planned into jobs --
  positional windows of a snapshot, ranges of the first sort key, hash slices, pages of a
  composite aggregation -- and how a job reads its part. The cluster is a parameter: what it
  answers to a search. A loop that goes on as long as the cluster answers is a partial
  function; not returning is \<open>None\<close>.
\<close>

subsection \<open>The client\<close>

datatype es_error = ApiError string | TransportError string

text \<open>The hits of a search with a point in time, of one on an index, the pages of a scroll by
  number, the aggregations of a search, the count of a query, the id of a new point in time.\<close>

record elastic =
  el_pit_search :: "pydict \<Rightarrow> int \<Rightarrow> es_error + pydict list"
  el_search :: "pyval \<Rightarrow> pydict \<Rightarrow> es_error + pydict list"
  el_scroll :: "pyval \<Rightarrow> pyval \<Rightarrow> pyval \<Rightarrow> pyval \<Rightarrow> nat \<Rightarrow> es_error + pydict list"
  el_aggregate :: "pyval \<Rightarrow> pydict \<Rightarrow> es_error + pyval"
  el_count :: "pyval \<Rightarrow> pyval option \<Rightarrow> es_error + int"
  el_open_pit :: "pyval \<Rightarrow> string \<Rightarrow> es_error + pyval"
  el_clear_scroll :: "es_error option"
  el_str :: "pyval \<Rightarrow> string"

definition DEFAULT_PIT_KEEP_ALIVE :: string where "DEFAULT_PIT_KEEP_ALIVE = ''30m''"
definition RANGE_JOB_PIT_KEEP_ALIVE :: string where "RANGE_JOB_PIT_KEEP_ALIVE = ''5m''"
definition WINDOW_RANGE :: string where "WINDOW_RANGE = ''range''"

definition es_failure :: "string \<Rightarrow> py_error" where
  "es_failure m = source_error ''elasticsearch'' m"

text \<open>\<open>except ApiError\<close>: only a range job also catches a \<open>TransportError\<close>.\<close>

definition fetch_failure :: "es_error \<Rightarrow> py_error" where
  "fetch_failure e = (case e of
     ApiError m \<Rightarrow> es_failure (''Failed to fetch data: '' @ m) | TransportError m \<Rightarrow> OtherError ''TransportError'' m)"

definition range_failure :: "es_error \<Rightarrow> py_error" where
  "range_failure e = es_failure (''Failed to fetch data: '' @ (case e of ApiError m \<Rightarrow> m | TransportError m \<Rightarrow> m))"

definition raw_failure :: "es_error \<Rightarrow> py_error" where
  "raw_failure e = (case e of ApiError m \<Rightarrow> OtherError ''ApiError'' m | TransportError m \<Rightarrow> OtherError ''TransportError'' m)"

definition pit_keep_alive :: "elastic \<Rightarrow> pydict \<Rightarrow> string" where
  "pit_keep_alive E c =
     (let v = dget_or c ''pit_keep_alive'' PNone in if truthy v then el_str E v else DEFAULT_PIT_KEEP_ALIVE)"

definition hit_record :: "pydict \<Rightarrow> pyval" where
  "hit_record hit =
     PDict ([(''data'', dget_or hit ''_source'' (PDict []))] @
       (case dget hit ''fields'' of None \<Rightarrow> [] | Some f \<Rightarrow> [(''fields'', f)]))"

subsection \<open>Sort keys and ranges\<close>

definition first_sort_key :: "pydict \<Rightarrow> py_error + string \<times> string" where
  "first_sort_key base_query =
     (let sort = dget_or base_query ''sort'' PNone;
          first = (case sort of PList (x # _) \<Rightarrow> x | _ \<Rightarrow> sort);
          key = (case first of
              PStr f \<Rightarrow> (f, ''asc'')
            | PDict [(f, PStr order)] \<Rightarrow> (f, order)
            | PDict [(f, PDict opts)] \<Rightarrow> (f, case dget_or opts ''order'' (PStr ''asc'') of PStr order \<Rightarrow> order | _ \<Rightarrow> [])
            | PDict [(f, _)] \<Rightarrow> (f, ''asc'')
            | _ \<Rightarrow> ([], ''asc''))
      in if fst key \<in> {[], ''_shard_doc'', ''_doc'', ''_score''} \<or> snd key \<notin> {''asc'', ''desc''}
         then Inl (es_failure ''window_mode=range needs base_query[sort] to start with a field: the windows are ranges of that field'')
         else Inr key)"

definition range_clause :: "string \<Rightarrow> string \<Rightarrow> pyval \<Rightarrow> pyval \<Rightarrow> pyval" where
  "range_clause field order after until =
     PDict [(''range'', PDict [(field, PDict
       ((if after = PNone then [] else [(if order = ''asc'' then ''gt'' else ''lt'', after)]) @
        (if until = PNone then [] else [(if order = ''asc'' then ''lte'' else ''gte'', until)])))])]"

subsection \<open>Composite aggregations\<close>

definition dict_items :: "pyval \<Rightarrow> pydict" where
  "dict_items v = (case v of PDict d \<Rightarrow> d | _ \<Rightarrow> [])"

text \<open>\<open>d.get("aggs") or d.get("aggregations") or {}\<close>, and the key they are under.\<close>

definition aggs_key :: "pyval \<Rightarrow> string" where
  "aggs_key spec = (if truthy (dget_or (dict_items spec) ''aggs'' PNone) then ''aggs'' else ''aggregations'')"

definition sub_aggs :: "pyval \<Rightarrow> pydict" where
  "sub_aggs spec = dict_items (dget_or (dict_items spec) (aggs_key spec) PNone)"

definition with_sub_aggs :: "pyval \<Rightarrow> pydict \<Rightarrow> pyval" where
  "with_sub_aggs spec a =
     (if sub_aggs spec = [] then spec else PDict (dset (dict_items spec) (aggs_key spec) (PDict a)))"

lemma size_item: "(k, v) \<in> set d \<Longrightarrow> size v < size (PDict d)"
  by (induction d) auto

lemma size_sub_aggs: "size (PDict (sub_aggs spec)) \<le> Suc (size spec)"
proof (cases spec)
  case (PDict d)
  have "size (PDict x) \<le> size (PDict d)" if "dget d k = Some (PDict x)" for k x
    using size_item [of k "PDict x" d] that by (auto simp: dget_def dest!: map_of_SomeD)
  from le_SucI [OF this] show ?thesis
    by (auto simp: PDict sub_aggs_def dict_items_def dget_or_def split: option.splits pyval.splits)
qed (auto simp: sub_aggs_def dict_items_def dget_or_def)

function find_composites :: "pydict \<Rightarrow> string list \<Rightarrow> string list list" where
  "find_composites [] path = []"
| "find_composites ((name, spec) # aggs) path =
     (if dget (dict_items spec) ''composite'' \<noteq> None then [path @ [name]]
      else find_composites (sub_aggs spec) (path @ [name])) @ find_composites aggs path"
  by pat_completeness auto
termination
proof (relation "measure (\<lambda>(aggs, _). size (PDict aggs))", goal_cases)
  case (2 name spec aggs path)
  then show ?case using size_sub_aggs [of spec] by simp
qed auto

definition composite_path :: "pyval \<Rightarrow> py_error + string list option" where
  "composite_path base_query =
     (case find_composites (sub_aggs base_query) [] of
        [] \<Rightarrow> Inr None
      | [p] \<Rightarrow> Inr (Some p)
      | ps \<Rightarrow> Inl (es_failure (''Query has '' @ nat_text (length ps) @ '' composite aggregations ('' @
          join '', '' (map (join ''/'') ps) @ ''); only one per source is supported''))) "

text \<open>Changing the aggregation at a path, and dropping all that are not on it.\<close>

fun at_path :: "(pydict \<Rightarrow> pydict) \<Rightarrow> string list \<Rightarrow> pydict \<Rightarrow> pydict" where
  "at_path f [] aggs = aggs"
| "at_path f [n] aggs = dset aggs n (PDict (f (dict_items (dget_or aggs n PNone))))"
| "at_path f (n # p) aggs =
     (let spec = dget_or aggs n PNone in dset aggs n (with_sub_aggs spec (at_path f p (sub_aggs spec))))"

fun prune_to_path :: "string list \<Rightarrow> pydict \<Rightarrow> pydict" where
  "prune_to_path [] aggs = aggs"
| "prune_to_path [n] aggs = dfilter (\<lambda>k. k = n) aggs"
| "prune_to_path (n # p) aggs =
     map (\<lambda>(k, spec). (k, with_sub_aggs spec (prune_to_path p (sub_aggs spec)))) (dfilter (\<lambda>k. k = n) aggs)"

definition in_body :: "(pydict \<Rightarrow> pydict) \<Rightarrow> pydict \<Rightarrow> pydict" where
  "in_body f body = dict_items (with_sub_aggs (PDict body) (f (sub_aggs (PDict body))))"

definition in_composite :: "(pydict \<Rightarrow> pydict) \<Rightarrow> pydict \<Rightarrow> pydict" where
  "in_composite f spec = dset spec ''composite'' (PDict (f (dict_items (dget_or spec ''composite'' PNone))))"

definition composite_request :: "pydict \<Rightarrow> string list \<Rightarrow> pyval \<Rightarrow> pydict" where
  "composite_request c path sz =
     in_body (at_path (in_composite (\<lambda>k.
         if truthy sz then dset k ''size'' sz
         else if dget k ''size'' = None then dset k ''size'' (dget_or c ''size'' PNone) else k)) path \<circ> prune_to_path path)
       (dset (dict_items (dget_or c ''base_query'' PNone)) ''size'' (PInt 0))"

definition set_after :: "string list \<Rightarrow> pyval \<Rightarrow> pydict \<Rightarrow> pydict" where
  "set_after path after body = in_body (at_path (in_composite (\<lambda>k. dset k ''after'' after)) path) body"

definition strip_composite :: "string list \<Rightarrow> pydict \<Rightarrow> pydict" where
  "strip_composite path body = in_body (at_path (dfilter (\<lambda>k. k \<notin> {''aggs'', ''aggregations''})) path) body"

text \<open>The composite spec of the request: where a page starts.\<close>

fun spec_at :: "string list \<Rightarrow> pydict \<Rightarrow> pyval" where
  "spec_at [] aggs = PNone"
| "spec_at [n] aggs = dget_or aggs n PNone"
| "spec_at (n # p) aggs = spec_at p (sub_aggs (dget_or aggs n PNone))"

definition composite_after :: "string list \<Rightarrow> pydict \<Rightarrow> pyval" where
  "composite_after path body =
     dget_or (dict_items (dget_or (dict_items (spec_at path (sub_aggs (PDict body)))) ''composite'' PNone)) ''after'' PNone"

fun walk_aggs :: "pyval \<Rightarrow> string list \<Rightarrow> pyval option" where
  "walk_aggs agg [] = Some agg"
| "walk_aggs agg (n # p) = (case agg of PDict d \<Rightarrow> (case dget d n of None \<Rightarrow> None | Some v \<Rightarrow> walk_aggs v p) | _ \<Rightarrow> None)"

definition composite_page :: "elastic \<Rightarrow> pydict \<Rightarrow> pydict \<Rightarrow> string list \<Rightarrow> py_error + pyval list \<times> pyval" where
  "composite_page E c body path =
     (case el_aggregate E (dget_or c ''index'' PNone) body of
        Inl e \<Rightarrow> Inl (fetch_failure e)
      | Inr aggs \<Rightarrow>
          (case walk_aggs aggs path of
             None \<Rightarrow> Inl (es_failure (''Composite aggregation '' @ quoted (join ''/'' path) @ '' not found in the response''))
           | Some found \<Rightarrow>
               Inr (case dget_or (dict_items found) ''buckets'' (PList []) of PList bs \<Rightarrow> bs | _ \<Rightarrow> [],
                 dget_or (dict_items found) ''after_key'' PNone)))"

definition limit_reached :: "nat option \<Rightarrow> 'a list \<Rightarrow> bool" where
  "limit_reached limit out = (case limit of None \<Rightarrow> False | Some n \<Rightarrow> 0 < n \<and> n \<le> length out)"

text \<open>Every page, one after the other.\<close>

partial_function (option) all_buckets ::
  "elastic \<Rightarrow> pydict \<Rightarrow> string list \<Rightarrow> nat option \<Rightarrow> pydict \<Rightarrow> pyval list \<Rightarrow> (py_error + pyval list) option" where
  "all_buckets E c path limit body acc =
     (case composite_page E c body path of
        Inl e \<Rightarrow> Some (Inl e)
      | Inr (buckets, after_key) \<Rightarrow>
          (let out = acc @ map wrap_as_record buckets
           in if limit_reached limit out then Some (Inr (up_to limit out))
              else if buckets = [] \<or> \<not> truthy after_key then Some (Inr out)
              else all_buckets E c path limit (set_after path after_key body) out))"

definition fetch_composite ::
  "elastic \<Rightarrow> pydict \<Rightarrow> string list \<Rightarrow> nat option \<Rightarrow> (py_error + pyval list) option" where
  "fetch_composite E c path limit =
     (let page = dict_items (dget_or c ''composite_page'' PNone);
          after = dget_or page ''after'' PNone;
          body = composite_request c path (if page = [] then PNone else dget_or page ''size'' PNone)
      in if page \<noteq> []
         then Some (map_sum id (\<lambda>(buckets, _). up_to limit (map wrap_as_record buckets))
                (composite_page E c (if after = PNone then body else set_after path after body) path))
         else all_buckets E c path limit body [])"

subsection \<open>Reading hits\<close>

definition with_cursor :: "pydict \<Rightarrow> pyval \<Rightarrow> pydict" where
  "with_cursor body c = (if c = PNone then body else dset body ''search_after'' c)"

text \<open>A cursor loop: a page, then the next after the last hit's sort values, until a page is
  empty. Where the page itself is used as the cursor before the limit is looked at, a hit
  without sort values fails first.\<close>

partial_function (option) all_hits ::
  "bool \<Rightarrow> (pyval \<Rightarrow> es_error + pydict list) \<Rightarrow> (es_error \<Rightarrow> py_error) \<Rightarrow> nat option \<Rightarrow> pyval \<Rightarrow> pyval list \<Rightarrow>
     (py_error + pyval list) option" where
  "all_hits cursor_first search fail limit cursor acc =
     (case search cursor of
        Inl e \<Rightarrow> Some (Inl (fail e))
      | Inr hits \<Rightarrow>
          if hits = [] then Some (Inr acc)
          else if \<not> cursor_first \<and> limit_reached limit (acc @ map hit_record hits)
          then Some (Inr (up_to limit (acc @ map hit_record hits)))
          else case dget (last hits) ''sort'' of
              None \<Rightarrow> Some (Inl (KeyError ''sort''))
            | Some next_cursor \<Rightarrow>
                if limit_reached limit (acc @ map hit_record hits) then Some (Inr (up_to limit (acc @ map hit_record hits)))
                else all_hits cursor_first search fail limit next_cursor (acc @ map hit_record hits))"

definition int_of :: "pyval \<Rightarrow> py_error + int" where
  "int_of v = (case v of PInt i \<Rightarrow> Inr i | _ \<Rightarrow> Inl (TypeError ''not an integer''))"

definition pit_value :: "pyval \<Rightarrow> string \<Rightarrow> pyval" where
  "pit_value pit keep_alive = PDict [(''id'', pit), (''keep_alive'', PStr keep_alive)]"

definition set_default :: "pydict \<Rightarrow> string \<Rightarrow> pyval \<Rightarrow> pydict" where
  "set_default d k v = (if dget d k = None then dset d k v else d)"

definition shard_order :: pyval where
  "shard_order = PList [PStr ''_shard_doc'']"

definition window_body :: "elastic \<Rightarrow> pydict \<Rightarrow> pyval \<Rightarrow> pydict" where
  "window_body E c pit =
     set_default (dset (dict_items (dget_or c ''base_query'' PNone)) ''pit'' (pit_value pit (pit_keep_alive E c))) ''sort'' shard_order"

text \<open>A positional window: exactly \<open>target\<close> hits after the cursor, or as many as there are.\<close>

function window_hits ::
  "(pyval \<Rightarrow> int \<Rightarrow> es_error + pydict list) \<Rightarrow> int \<Rightarrow> nat option \<Rightarrow> int \<Rightarrow> pyval \<Rightarrow> pyval list \<Rightarrow> py_error + pyval list" where
  "window_hits search page limit target cursor acc =
     (if target \<le> int (length acc) then Inr (take (nat target) acc)
      else case search cursor (min page (target - int (length acc))) of
          Inl e \<Rightarrow> Inl (fetch_failure e)
        | Inr hits \<Rightarrow>
            if hits = [] then Inr (take (nat target) acc)
            else (case dget (last hits) ''sort'' of
                None \<Rightarrow> Inl (KeyError ''sort'')
              | Some next_cursor \<Rightarrow>
                  if limit_reached limit (acc @ map hit_record hits) then Inr (up_to limit (acc @ map hit_record hits))
                  else window_hits search page limit target next_cursor (acc @ map hit_record hits)))"
  by pat_completeness auto
termination
  by (relation "measure (\<lambda>(_, _, _, target, _, acc). nat (target - int (length acc)))") auto

declare window_hits.simps [simp del]

partial_function (option) scroll_hits ::
  "(nat \<Rightarrow> es_error + pydict list) \<Rightarrow> nat option \<Rightarrow> nat \<Rightarrow> pyval list \<Rightarrow> (py_error + pyval list) option" where
  "scroll_hits pages limit n acc =
     (case pages n of
        Inl e \<Rightarrow> Some (Inl (fetch_failure e))
      | Inr hits \<Rightarrow>
          if hits = [] then Some (Inr acc)
          else if limit_reached limit (acc @ map hit_record hits) then Some (Inr (up_to limit (acc @ map hit_record hits)))
          else scroll_hits pages limit (Suc n) (acc @ map hit_record hits))"

definition fetch_window ::
  "elastic \<Rightarrow> pydict \<Rightarrow> pyval \<Rightarrow> pydict \<Rightarrow> nat option \<Rightarrow> (py_error + pyval list) option" where
  "fetch_window E c pit window limit =
     Some (case (as_int (dget_or window ''size'' PNone), int_of (dget_or c ''size'' PNone)) of
        (Inr target, Inr page) \<Rightarrow>
          window_hits (\<lambda>cursor. el_pit_search E (with_cursor (window_body E c pit) cursor)) page limit target
            (dget_or window ''search_after'' PNone) []
      | (Inl e, _) \<Rightarrow> Inl e
      | (_, Inl e) \<Rightarrow> Inl e)"

definition slice_body :: "elastic \<Rightarrow> pydict \<Rightarrow> pyval \<Rightarrow> pyval \<Rightarrow> pyval \<Rightarrow> pydict" where
  "slice_body E c pit part cursor =
     set_default (with_cursor (dset (dset (dict_items (dget_or c ''base_query'' PNone)) ''slice'' part) ''pit''
       (pit_value pit (pit_keep_alive E c))) cursor) ''sort'' shard_order"

definition fetch_slice_part ::
  "elastic \<Rightarrow> pydict \<Rightarrow> pyval \<Rightarrow> pyval \<Rightarrow> nat option \<Rightarrow> (py_error + pyval list) option" where
  "fetch_slice_part E c pit part limit =
     (case int_of (dget_or c ''size'' PNone) of
        Inl e \<Rightarrow> Some (Inl e)
      | Inr page \<Rightarrow> all_hits True (\<lambda>cursor. el_pit_search E (slice_body E c pit part cursor) page) fetch_failure limit PNone [])"

definition fetch_search_after :: "elastic \<Rightarrow> pydict \<Rightarrow> nat option \<Rightarrow> (py_error + pyval list) option" where
  "fetch_search_after E c limit =
     (let q = dict_items (dget_or c ''base_query'' PNone)
      in if \<not> truthy (dget_or q ''sort'' PNone)
         then Some (Inl (es_failure ''search_after needs a sort in the query; it is the cursor key.''))
         else case int_of (dget_or c ''size'' PNone) of
             Inl e \<Rightarrow> Some (Inl e)
           | Inr page \<Rightarrow>
               (let body = dset q ''size'' (PInt (case limit of None \<Rightarrow> page | Some n \<Rightarrow> if n = 0 then page else min (int n) page))
                in all_hits False (\<lambda>cursor. el_search E (dget_or c ''index'' PNone) (with_cursor body cursor))
                     fetch_failure limit PNone []))"

definition range_body :: "pydict \<Rightarrow> pyval \<Rightarrow> string \<Rightarrow> string \<Rightarrow> pyval \<Rightarrow> pyval \<Rightarrow> pydict" where
  "range_body c pit field order after until =
     (let q = dict_items (dget_or c ''base_query'' PNone);
          user = (let u = dget_or q ''query'' PNone in if truthy u then u else PDict [(''match_all'', PDict [])])
      in dset (dfilter (\<lambda>k. k \<noteq> ''search_after'')
           (dset q ''query'' (PDict [(''bool'', PDict [(''filter'', PList [user, range_clause field order after until])])])))
           ''pit'' (pit_value pit RANGE_JOB_PIT_KEEP_ALIVE))"

definition fetch_range_window :: "elastic \<Rightarrow> pydict \<Rightarrow> pydict \<Rightarrow> nat option \<Rightarrow> (py_error + pyval list) option" where
  "fetch_range_window E c window limit =
     (case (dget window ''field'', dget window ''order'') of
        (Some (PStr field), Some (PStr order)) \<Rightarrow>
          (case as_int (dget_or c ''size'' PNone) of
             Inl e \<Rightarrow> Some (Inl e)
           | Inr page \<Rightarrow>
               (case el_open_pit E (dget_or c ''index'' PNone) RANGE_JOB_PIT_KEEP_ALIVE of
                  Inl e \<Rightarrow> Some (Inl (range_failure e))
                | Inr pit \<Rightarrow>
                    all_hits True (\<lambda>cursor. el_pit_search E (with_cursor (range_body c pit field order
                        (dget_or window ''after'' PNone) (dget_or window ''upto'' PNone)) cursor) page) range_failure limit PNone []))
      | _ \<Rightarrow> Some (Inl (KeyError ''field'')))"

definition fetch_scroll :: "elastic \<Rightarrow> pydict \<Rightarrow> nat option \<Rightarrow> (py_error + pyval list) option" where
  "fetch_scroll E c limit =
     (case int_of (dget_or c ''size'' PNone) of
        Inl e \<Rightarrow> Some (Inl e)
      | Inr page \<Rightarrow>
          map_option (\<lambda>r. case r of
              Inl e \<Rightarrow> Inl e
            | Inr rs \<Rightarrow> (case el_clear_scroll E of None \<Rightarrow> Inr rs | Some e \<Rightarrow> Inl (fetch_failure e)))
            (scroll_hits (el_scroll E (dget_or c ''index'' PNone) (dget_or c ''base_query'' PNone) (dget_or c ''scroll'' PNone)
              (PInt (case limit of None \<Rightarrow> page | Some n \<Rightarrow> if n = 0 then page else min (int n) page))) limit 0 []))"

definition elastic_fetch ::
  "elastic \<Rightarrow> render \<Rightarrow> slice \<Rightarrow> pydict \<Rightarrow> nat option \<Rightarrow> (py_error + pyval list) option" where
  "elastic_fetch E render s params limit =
     (case resolve_parameters render s params of
        Inl e \<Rightarrow> Some (Inl e)
      | Inr c \<Rightarrow>
          (let q = dget_or c ''base_query'' PNone; pit = dget_or c ''pit_id'' PNone; window = dget_or c ''window'' PNone;
               part = dget_or c ''slice'' PNone
           in case composite_path q of
             Inl e \<Rightarrow> Some (Inl e)
           | Inr (Some path) \<Rightarrow> fetch_composite E c path limit
           | Inr None \<Rightarrow>
               if dget (dict_items q) ''search_after'' \<noteq> None \<and> \<not> truthy pit then fetch_search_after E c limit
               else if window \<noteq> PNone \<and> dget (dict_items window) ''mode'' = Some (PStr WINDOW_RANGE)
               then fetch_range_window E c (dict_items window) limit
               else if truthy pit \<and> window \<noteq> PNone then fetch_window E c pit (dict_items window) limit
               else if truthy pit \<and> part \<noteq> PNone then fetch_slice_part E c pit part limit
               else fetch_scroll E c limit))"

subsection \<open>Planning\<close>

definition sub_source :: "elastic \<Rightarrow> pydict \<Rightarrow> py_error + slice" where
  "sub_source E c =
     new_source ''ElasticSource'' elastic_signature
       (map (\<lambda>k. (k, if k = ''pit_keep_alive'' then PStr (pit_keep_alive E c) else dget_or c k PNone)) (sg_names elastic_signature))"

definition with_setting :: "string \<Rightarrow> pyval \<Rightarrow> slice \<Rightarrow> slice" where
  "with_setting k v s = s\<lparr>sl_config := dset (sl_config s) k v\<rparr>"

text \<open>A page per job; the scan keeps where each page starts.\<close>

partial_function (option) split_composite ::
  "elastic \<Rightarrow> pydict \<Rightarrow> string list \<Rightarrow> int \<Rightarrow> pydict \<Rightarrow> pyval \<Rightarrow> planned option" where
  "split_composite E c path page body cursor =
     (case composite_page E c body path of
        Inl e \<Rightarrow> Some ([], Some e)
      | Inr (buckets, after_key) \<Rightarrow>
          if buckets = [] then Some ([], None)
          else case sub_source E c of
              Inl e \<Rightarrow> Some ([], Some e)
            | Inr sub \<Rightarrow>
                (let s = with_setting ''composite_page'' (PDict [(''after'', cursor), (''size'', PInt page)]) sub
                 in if int (length buckets) < page \<or> \<not> truthy after_key then Some ([s], None)
                    else Option.bind (split_composite E c path page (set_after path after_key body) after_key)
                      (\<lambda>p. Some (s # fst p, snd p))))"

definition count_documents :: "elastic \<Rightarrow> pydict \<Rightarrow> es_error + int" where
  "count_documents E c = el_count E (dget_or c ''index'' PNone) (dget (dict_items (dget_or c ''base_query'' PNone)) ''query'')"

text \<open>The cursor after every \<open>width\<close>-th hit, up to \<open>number\<close> windows.\<close>

fun take_cursors ::
  "int \<Rightarrow> int \<Rightarrow> int \<Rightarrow> pyval list \<Rightarrow> pyval \<Rightarrow> pydict list \<Rightarrow> py_error + pyval list \<times> int \<times> pyval" where
  "take_cursors width number seen cursors cursor [] = Inr (cursors, seen, cursor)"
| "take_cursors width number seen cursors cursor (h # hs) =
     (case dget h ''sort'' of
        None \<Rightarrow> Inl (KeyError ''sort'')
      | Some c \<Rightarrow>
          take_cursors width number (seen + 1)
            (if (seen + 1) mod width = 0 \<and> int (length cursors) < number then cursors @ [c] else cursors) c hs)"

partial_function (option) scan_cursors ::
  "(pyval \<Rightarrow> es_error + pydict list) \<Rightarrow> int \<Rightarrow> int \<Rightarrow> int \<Rightarrow> pyval list \<Rightarrow> pyval \<Rightarrow> (py_error + pyval list) option" where
  "scan_cursors search width number seen cursors cursor =
     (if number \<le> int (length cursors) then Some (Inr cursors)
      else case search cursor of
          Inl e \<Rightarrow> Some (Inl (raw_failure e))
        | Inr hits \<Rightarrow>
            if hits = [] then Some (Inr cursors)
            else case take_cursors width number seen cursors cursor hits of
                Inl e \<Rightarrow> Some (Inl e)
              | Inr r \<Rightarrow> scan_cursors search width number (fst (snd r)) (fst r) (snd (snd r)))"

definition scan_body :: "elastic \<Rightarrow> pydict \<Rightarrow> pyval \<Rightarrow> pydict" where
  "scan_body E c pit = dset (window_body E c pit) ''_source'' (PBool False)"

definition scan_window_cursors ::
  "elastic \<Rightarrow> pydict \<Rightarrow> pyval \<Rightarrow> int \<Rightarrow> int \<Rightarrow> (py_error + pyval list) option" where
  "scan_window_cursors E c pit width number =
     (case as_int (dget_or c ''size'' PNone) of
        Inl e \<Rightarrow> Some (Inl e)
      | Inr page \<Rightarrow>
          scan_cursors (\<lambda>cursor. el_pit_search E (with_cursor (scan_body E c pit) cursor) page) width number 0 [PNone] PNone)"

text \<open>\<open>min(ceil(count / docs_per_job), max_slices)\<close> windows of \<open>ceil(count / windows)\<close> documents.\<close>

definition ceil_div :: "int \<Rightarrow> int \<Rightarrow> int" where
  "ceil_div a b = \<lceil>of_int a / of_int b :: rat\<rceil>"

definition num_windows :: "pydict \<Rightarrow> int \<Rightarrow> py_error + int" where
  "num_windows c n =
     (case (as_int (dget_or c ''docs_per_job'' PNone), as_int (dget_or c ''max_slices'' (PInt 1024))) of
        (Inr d, Inr m) \<Rightarrow> if d = 0 then Inl ZeroDivisionError else Inr (min (ceil_div n d) m)
      | (Inl e, _) \<Rightarrow> Inl e
      | (_, Inl e) \<Rightarrow> Inl e)"

definition first_value :: "pyval \<Rightarrow> py_error + pyval" where
  "first_value cursor = (case cursor of
     PList (v # _) \<Rightarrow> Inr v | PList [] \<Rightarrow> Inl (OtherError ''IndexError'' ''list index out of range'')
   | _ \<Rightarrow> Inl (TypeError ''object is not subscriptable''))"

text \<open>The boundary values, each once, and the windows between them.\<close>

fun drop_repeats :: "pyval list \<Rightarrow> pyval list" where
  "drop_repeats (x # y # zs) = (if x = y then drop_repeats (y # zs) else x # drop_repeats (y # zs))"
| "drop_repeats xs = xs"

definition window_edges :: "pyval list \<Rightarrow> (pyval \<times> pyval) list" where
  "window_edges bs = zip (PNone # bs) (bs @ [PNone])"

definition range_window :: "elastic \<Rightarrow> pydict \<Rightarrow> string \<Rightarrow> string \<Rightarrow> pyval \<times> pyval \<Rightarrow> py_error + slice" where
  "range_window E c field order w =
     map_sum id (with_setting ''window''
         (PDict [(''mode'', PStr WINDOW_RANGE), (''field'', PStr field), (''order'', PStr order), (''after'', fst w), (''upto'', snd w)]))
       (sub_source E c)"

definition split_range_windows :: "elastic \<Rightarrow> slice \<Rightarrow> pydict \<Rightarrow> int \<Rightarrow> planned option" where
  "split_range_windows E s c n =
     (case (first_sort_key (dict_items (dget_or c ''base_query'' PNone)), num_windows c n) of
        (Inr (field, order), Inr number) \<Rightarrow>
          if number \<le> 1 then Some (whole_split s)
          else (case el_open_pit E (dget_or c ''index'' PNone) (pit_keep_alive E c) of
              Inl e \<Rightarrow> Some ([], Some (raw_failure e))
            | Inr pit \<Rightarrow>
                Option.bind (scan_window_cursors E c pit (ceil_div n number) number) (\<lambda>r. Some
                  (case r of
                     Inl e \<Rightarrow> ([], Some e)
                   | Inr cursors \<Rightarrow>
                       (case sequence (map first_value (tl cursors)) of
                          Inl e \<Rightarrow> ([], Some e)
                        | Inr values \<Rightarrow> plan_each (range_window E c field order) (window_edges (drop_repeats values))))))
      | (Inl e, _) \<Rightarrow> Some ([], Some e)
      | (_, Inl e) \<Rightarrow> Some ([], Some e))"

definition snapshot_window :: "elastic \<Rightarrow> pydict \<Rightarrow> pyval \<Rightarrow> int \<Rightarrow> pyval \<Rightarrow> py_error + slice" where
  "snapshot_window E c pit width start =
     map_sum id (\<lambda>s. with_setting ''window'' (PDict [(''search_after'', start), (''size'', PInt width)]) (with_setting ''pit_id'' pit s))
       (sub_source E c)"

definition split_snapshot_windows :: "elastic \<Rightarrow> slice \<Rightarrow> pydict \<Rightarrow> int \<Rightarrow> planned option" where
  "split_snapshot_windows E s c n =
     (case num_windows c n of
        Inl e \<Rightarrow> Some ([], Some e)
      | Inr number \<Rightarrow>
          if number \<le> 1 then Some (whole_split s)
          else (case el_open_pit E (dget_or c ''index'' PNone) (pit_keep_alive E c) of
              Inl e \<Rightarrow> Some ([], Some (raw_failure e))
            | Inr pit \<Rightarrow>
                Option.bind (scan_window_cursors E c pit (ceil_div n number) number) (\<lambda>r. Some
                  (case r of
                     Inl e \<Rightarrow> ([], Some e)
                   | Inr cursors \<Rightarrow> plan_each (snapshot_window E c pit (ceil_div n number)) cursors))))"

definition hash_slice :: "elastic \<Rightarrow> pydict \<Rightarrow> pyval \<Rightarrow> int \<Rightarrow> int \<Rightarrow> py_error + slice" where
  "hash_slice E c pit number i =
     map_sum id (\<lambda>s. with_setting ''slice'' (PDict [(''id'', PInt i), (''max'', PInt number)]) (with_setting ''pit_id'' pit s))
       (sub_source E c)"

definition split_slices_of :: "elastic \<Rightarrow> slice \<Rightarrow> pydict \<Rightarrow> planned" where
  "split_slices_of E s c =
     (case as_int (dget_or c ''num_slices'' (PInt 1)) of
        Inl e \<Rightarrow> ([], Some e)
      | Inr number \<Rightarrow>
          if number \<le> 1 then whole_split s
          else (case el_open_pit E (dget_or c ''index'' PNone) (pit_keep_alive E c) of
              Inl e \<Rightarrow> ([], Some (raw_failure e))
            | Inr pit \<Rightarrow> plan_each (hash_slice E c pit number) [0..number - 1]))"

text \<open>\<open>int(config.get(k) or n)\<close>.\<close>

definition int_or :: "pydict \<Rightarrow> string \<Rightarrow> int \<Rightarrow> py_error + int" where
  "int_or c k n = (let v = dget_or c k PNone in if truthy v then as_int v else Inr n)"

definition elastic_split :: "elastic \<Rightarrow> render \<Rightarrow> slice \<Rightarrow> pydict \<Rightarrow> planned option" where
  "elastic_split E render s params =
     (case resolve_parameters render s params of
        Inl e \<Rightarrow> Some ([], Some e)
      | Inr c0 \<Rightarrow>
          (let c = (if c0 = [] then sl_config s else c0)
           in case composite_path (dget_or c ''base_query'' PNone) of
             Inl e \<Rightarrow> Some ([], Some e)
           | Inr (Some path) \<Rightarrow>
               (case (int_or c ''num_slices'' 1, int_or c ''docs_per_job'' 0) of
                  (Inr _, Inr d) \<Rightarrow>
                    if d = 0 then Some (whole_split s)
                    else (let body = strip_composite path (composite_request c path (PInt d))
                          in split_composite E c path d body (composite_after path body))
                | (Inl e, _) \<Rightarrow> Some ([], Some e)
                | (_, Inl e) \<Rightarrow> Some ([], Some e))
           | Inr None \<Rightarrow>
               (case count_documents E c of
                  Inl e \<Rightarrow> Some ([], Some (raw_failure e))
                | Inr n \<Rightarrow>
                    if n = 0 then Some ([], None)
                    else if truthy (dget_or c ''docs_per_job'' PNone)
                    then (if dget_or c ''window_mode'' PNone = PStr WINDOW_RANGE then split_range_windows E s c n
                          else split_snapshot_windows E s c n)
                    else Some (split_slices_of E s c))))"

end
