(* ===== verification/ElasticWindows.thy ===== *)
theory ElasticWindows
  imports Elastic
begin

text \<open>
  What the jobs of an Elasticsearch plan read together: the windows of a snapshot and the ranges
  of the first sort key partition the hits of the query, and a query's own \<open>search_after\<close>
  shadows a window. The lemmas follow the cursors through the paging loops; what the cluster is assumed to answer is \<open>serves\<close>.
\<close>

section \<open>Lemmas\<close>

subsection \<open>Cursors\<close>

abbreviation sort_of :: "pydict \<Rightarrow> pyval option" where
  "sort_of h \<equiv> dget h ''sort''"

definition after_cursor :: "pydict list \<Rightarrow> pyval \<Rightarrow> pydict list" where
  "after_cursor H c = (if c = PNone then H else tl (dropWhile (\<lambda>h. sort_of h \<noteq> Some c) H))"

text \<open>The documented answers to a sorted search: the hits in their order, each with sort values
  of its own, the ones after the cursor, as many as asked for.\<close>

definition serves :: "(pyval \<Rightarrow> int \<Rightarrow> es_error + pydict list) \<Rightarrow> pydict list \<Rightarrow> bool" where
  "serves search H \<longleftrightarrow> distinct (map sort_of H) \<and> list_all (\<lambda>h. sort_of h \<noteq> None \<and> sort_of h \<noteq> Some PNone) H
     \<and> (\<forall>c n. 0 < n \<longrightarrow> c \<in> insert PNone (set (map (the \<circ> sort_of) H)) \<longrightarrow> search c n = Inr (take (nat n) (after_cursor H c)))"

definition cursor_at :: "pydict list \<Rightarrow> nat \<Rightarrow> pyval" where
  "cursor_at H k = (if k = 0 then PNone else the (sort_of (H ! (k - 1))))"

lemma after_cursor_at:
  assumes "distinct (map sort_of H)" "list_all (\<lambda>h. sort_of h \<noteq> None \<and> sort_of h \<noteq> Some PNone) H" "k \<le> length H"
  shows "after_cursor H (cursor_at H k) = drop k H"
proof (cases k)
  case (Suc i)
  have i: "i < length H" using assms(3) Suc by simp
  then have c: "sort_of (H ! i) = Some (cursor_at H k)" "cursor_at H k \<noteq> PNone"
    using assms(2) Suc by (auto simp: list_all_length cursor_at_def)
  have H: "H = take i H @ H ! i # drop (Suc i) H" by (rule id_take_nth_drop [OF i])
  have "distinct (map sort_of (take i H @ H ! i # drop (Suc i) H))" using assms(1) H by argo
  then have own: "sort_of (H ! i) \<notin> set (map sort_of (take i H))" by simp
  have "sort_of h \<noteq> Some (cursor_at H k)" if "h \<in> set (take i H)" for h
  proof
    assume "sort_of h = Some (cursor_at H k)"
    then have "sort_of (H ! i) = sort_of h" by (simp only: c(1))
    also have "sort_of h \<in> set (map sort_of (take i H))" unfolding set_map by (rule imageI [OF that])
    finally show False using own by contradiction
  qed
  then have "dropWhile (\<lambda>h. sort_of h \<noteq> Some (cursor_at H k)) (take i H @ H ! i # drop (Suc i) H) = H ! i # drop (Suc i) H"
    using c(1) by (subst dropWhile_append2) auto
  then have "dropWhile (\<lambda>h. sort_of h \<noteq> Some (cursor_at H k)) H = H ! i # drop (Suc i) H" using H by argo
  then show ?thesis using c(2) Suc by (simp add: after_cursor_def)
qed (simp add: after_cursor_def cursor_at_def)

lemma serves_at:
  assumes "serves search H" "k \<le> length H" "0 < n"
  shows "search (cursor_at H k) n = Inr (take (nat n) (drop k H))"
proof -
  have "cursor_at H k \<in> insert PNone (set (map (the \<circ> sort_of) H))"
    using assms(2) by (cases k) (auto simp: cursor_at_def)
  then have "search (cursor_at H k) n = Inr (take (nat n) (after_cursor H (cursor_at H k)))"
    using assms(1,3) unfolding serves_def by blast
  then show ?thesis using after_cursor_at [of H k] assms(1,2) by (simp add: serves_def)
qed

lemma last_hit:
  assumes "serves search H" "k < length H" "0 < n"
  shows "take n (drop k H) \<noteq> []" "dget (last (take n (drop k H))) ''sort'' = Some (cursor_at H (min (k + n) (length H)))"
proof -
  show ne: "take n (drop k H) \<noteq> []" using assms(2,3) by simp
  have "last (take n (drop k H)) = H ! (min (k + n) (length H) - 1)"
  proof -
    let ?n = "length (take n (drop k H))"
    have "k + (?n - 1) = min (k + n) (length H) - 1" using assms(2,3) by auto
    moreover have "take n (drop k H) ! (?n - 1) = H ! (k + (?n - 1))" using assms(2,3) by simp
    ultimately show ?thesis using last_conv_nth [OF ne] by simp
  qed
  moreover have "sort_of (H ! (min (k + n) (length H) - 1)) \<noteq> None"
    using assms by (auto simp: serves_def list_all_length)
  ultimately show "dget (last (take n (drop k H))) ''sort'' = Some (cursor_at H (min (k + n) (length H)))"
    using assms(2,3) by (auto simp: cursor_at_def)
qed

lemma window_reads:
  assumes "serves search H" "0 < page"
  shows "k \<le> length H \<Longrightarrow>
    window_hits search page None target (cursor_at H k) acc = Inr (take (nat target) (acc @ map hit_record (drop k H)))"
proof (induction "nat (target - int (length acc))" arbitrary: k acc rule: less_induct)
  case less
  show ?case
  proof (cases "target \<le> int (length acc)")
    case True
    then show ?thesis by (simp add: window_hits.simps)
  next
    case False
    define n where "n = min page (target - int (length acc))"
    have n: "0 < n" "int (length acc) + n \<le> target" using False assms(2) by (auto simp: n_def)
    have page: "search (cursor_at H k) n = Inr (take (nat n) (drop k H))" by (rule serves_at [OF assms(1) less(2) n(1)])
    show ?thesis
    proof (cases "k = length H")
      case True
      then show ?thesis using False page by (subst window_hits.simps) (simp add: n_def)
    next
      case False
      then have k: "k < length H" using less(2) by simp
      let ?k = "min (k + nat n) (length H)" and ?hits = "take (nat n) (drop k H)"
      note hits = last_hit [OF assms(1) k, of "nat n"]
      have "window_hits search page None target (cursor_at H k) acc =
          window_hits search page None target (cursor_at H ?k) (acc @ map hit_record ?hits)"
        using \<open>\<not> target \<le> int (length acc)\<close> page hits n
        by (subst window_hits.simps) (simp add: n_def limit_reached_def)
      also have "\<dots> = Inr (take (nat target) ((acc @ map hit_record ?hits) @ map hit_record (drop ?k H)))"
        using n k by (intro less(1)) auto
      also have "\<dots> = Inr (take (nat target) (acc @ map hit_record (drop k H)))"
      proof -
        have "?hits @ drop ?k H = drop k H" using append_take_drop_id [of "nat n" "drop k H"] by (auto simp: min_def add.commute)
        then have "map hit_record ?hits @ map hit_record (drop ?k H) = map hit_record (drop k H)" by (metis map_append)
        then show ?thesis by simp
      qed
      finally show ?thesis .
    qed
  qed
qed

subsection \<open>The scan for cursors\<close>

definition cursors_at :: "pydict list \<Rightarrow> nat \<Rightarrow> nat \<Rightarrow> nat \<Rightarrow> pyval list" where
  "cursors_at H width number k = map (\<lambda>i. cursor_at H (i * width)) [0..<min number (1 + k div width)]"

lemma cursors_step:
  assumes "0 < width"
  shows "cursors_at H width number (Suc k) =
    (if Suc k mod width = 0 \<and> length (cursors_at H width number k) < number
     then cursors_at H width number k @ [cursor_at H (Suc k)] else cursors_at H width number k)"
proof (cases "Suc k mod width = 0")
  case True
  then have "Suc k div width * width = Suc k" by (simp add: mod_eq_0_iff_dvd)
  moreover have "Suc k div width = Suc (k div width)" using True by (simp add: div_Suc)
  ultimately have d: "Suc k div width = Suc (k div width)" "Suc (k div width) * width = Suc k" by simp_all
  show ?thesis
  proof (cases "1 + k div width < number")
    case less: True
    then have "min number (1 + Suc (k div width)) = Suc (1 + k div width)" "min number (1 + k div width) = 1 + k div width" by auto
    then show ?thesis using less True d by (simp add: cursors_at_def)
  next
    case False
    then show ?thesis using d(1) by (simp add: cursors_at_def)
  qed
next
  case False
  then have "Suc k div width = k div width" using div_Suc [of k width] by simp
  then show ?thesis using False by (simp add: cursors_at_def)
qed

lemma take_cursors_at:
  assumes "serves search H" "0 < width"
  shows "k + length hits \<le> length H \<Longrightarrow> hits = take (length hits) (drop k H) \<Longrightarrow>
    take_cursors (int width) (int number) (int k) (cursors_at H width number k) (cursor_at H k) hits =
      Inr (cursors_at H width number (k + length hits), int (k + length hits), cursor_at H (k + length hits))"
proof (induction hits arbitrary: k)
  case (Cons h hs)
  have k: "k < length H" using Cons.prems(1) by simp
  then have h: "h = H ! k" "hs = take (length hs) (drop (Suc k) H)"
    using Cons.prems(2) Cons_nth_drop_Suc [OF k] by (metis length_Cons list.inject take_Suc_Cons)+
  have "sort_of h = Some (cursor_at H (Suc k))"
    using assms(1) k by (auto simp: h(1) cursor_at_def serves_def list_all_length)
  moreover have "(int k + 1) mod int width = 0 \<longleftrightarrow> Suc k mod width = 0"
    by (metis Suc_eq_plus1 of_nat_1 of_nat_add of_nat_eq_0_iff zmod_int)
  ultimately have "take_cursors (int width) (int number) (int k) (cursors_at H width number k) (cursor_at H k) (h # hs) =
      take_cursors (int width) (int number) (int (Suc k)) (cursors_at H width number (Suc k)) (cursor_at H (Suc k)) hs"
    using cursors_step [OF assms(2), of H number k] by (simp add: add.commute)
  also have "\<dots> = Inr (cursors_at H width number (Suc k + length hs), int (Suc k + length hs), cursor_at H (Suc k + length hs))"
    using Cons.prems(1) h(2) by (intro Cons.IH) auto
  finally show ?case by simp
qed simp

lemma scan_finds:
  assumes "serves search H" "0 < width" "0 < page"
  shows "k \<le> length H \<Longrightarrow>
    scan_cursors (\<lambda>c. search c page) (int width) (int number) (int k) (cursors_at H width number k) (cursor_at H k) =
      Some (Inr (cursors_at H width number (length H)))"
proof (induction "length H - k" arbitrary: k rule: less_induct)
  case less
  let ?cs = "cursors_at H width number k"
  show ?case
  proof (cases "number \<le> length ?cs")
    case True
    have "k div width \<le> length H div width" using less(2) by (rule div_le_mono)
    then have "min number (1 + k div width) = number" "min number (1 + length H div width) = number"
      using True by (auto simp: cursors_at_def)
    then have "?cs = cursors_at H width number (length H)" by (simp add: cursors_at_def)
    then show ?thesis using True by (subst scan_cursors.simps) simp
  next
    case False
    have page: "search (cursor_at H k) page = Inr (take (nat page) (drop k H))" by (rule serves_at [OF assms(1) less(2) assms(3)])
    show ?thesis
    proof (cases "k = length H")
      case True
      then show ?thesis using False page by (subst scan_cursors.simps) simp
    next
      case k: False
      let ?hits = "take (nat page) (drop k H)"
      have len: "0 < length ?hits" "k + length ?hits \<le> length H" using k less(2) assms(3) by auto
      have "take_cursors (int width) (int number) (int k) ?cs (cursor_at H k) ?hits =
          Inr (cursors_at H width number (k + length ?hits), int (k + length ?hits), cursor_at H (k + length ?hits))"
        using len(2) by (intro take_cursors_at [OF assms(1,2)]) (auto simp: min_def)
      then have "scan_cursors (\<lambda>c. search c page) (int width) (int number) (int k) ?cs (cursor_at H k) =
          scan_cursors (\<lambda>c. search c page) (int width) (int number) (int (k + length ?hits))
            (cursors_at H width number (k + length ?hits)) (cursor_at H (k + length ?hits))"
        using False page len(1) by (subst scan_cursors.simps) auto
      also have "\<dots> = Some (Inr (cursors_at H width number (length H)))"
        using len by (intro less(1)) auto
      finally show ?thesis .
    qed
  qed
qed

text \<open>The windows the cursors start cover the hits up to \<open>number\<close> times \<open>width\<close>.\<close>

lemma windows_concat:
  assumes "0 < width"
  shows "concat (map (\<lambda>i. take width (drop (i * width) H)) [0..<min number (1 + length H div width)]) = take (number * width) H"
proof -
  have upto: "concat (map (\<lambda>i. take width (drop (i * width) H)) [0..<m]) = take (m * width) H" for m
  proof (induction m)
    case (Suc m)
    have "take (m * width) H @ take width (drop (m * width) H) = take (Suc m * width) H"
      using take_add [of "m * width" width H] by (simp add: add.commute)
    then show ?case using Suc by simp
  qed simp
  show ?thesis
  proof (cases "number \<le> 1 + length H div width")
    case False
    have "length H < (1 + length H div width) * width"
      using assms by (metis add.commute dividend_less_times_div mult.commute plus_1_eq_Suc mult_Suc_right add_mult_distrib2)
    moreover have "(1 + length H div width) * width \<le> number * width" using False by (intro mult_right_mono) auto
    ultimately show ?thesis using upto False by (simp add: min_def)
  qed (use upto in \<open>simp add: min_def\<close>)
qed

lemma ceil_div_enough: "0 < b \<Longrightarrow> a \<le> b * ceil_div a b"
proof -
  assume b: "0 < b"
  have "of_int a / of_int b \<le> (of_int (ceil_div a b) :: rat)" unfolding ceil_div_def by (rule le_of_int_ceiling)
  then have "(of_int a :: rat) \<le> of_int (b * ceil_div a b)" using b by (simp add: field_simps)
  then show ?thesis by (simp only: of_int_le_iff)
qed

lemma ceil_div_pos: "0 < a \<Longrightarrow> 0 < b \<Longrightarrow> 0 < ceil_div a b"
  by (simp add: ceil_div_def)

subsection \<open>Parts of a query\<close>

text \<open>An Elasticsearch source with a plain query, without template text.\<close>

definition es_source :: "elastic \<Rightarrow> slice \<Rightarrow> pydict \<Rightarrow> string \<Rightarrow> int \<Rightarrow> bool" where
  "es_source E s q t sz \<longleftrightarrow> plain (PDict (sl_config s)) \<and> dget (sl_config s) ''base_query'' = Some (PDict q)
     \<and> dget (sl_config s) ''pit_keep_alive'' = Some (PStr t) \<and> t \<noteq> [] \<and> el_str E (PStr t) = t
     \<and> dget (sl_config s) ''size'' = Some (PInt sz) \<and> 0 < sz \<and> composite_path (PDict q) = Inr None"

definition sub_config :: "elastic \<Rightarrow> pydict \<Rightarrow> pydict" where
  "sub_config E c =
     map (\<lambda>k. (k, if k = ''pit_keep_alive'' then PStr (pit_keep_alive E c) else dget_or c k PNone)) (sg_names elastic_signature)"

lemma sub_source_eq: "sub_source E c = Inr \<lparr>sl_type = ''ElasticSource'', sl_config = sub_config E c, sl_params = None\<rparr>"
  by (simp add: sub_source_def new_source_def construct_def elastic_signature_def sg_names_def argument_def as_given_def dfilter_def
      sub_config_def)

lemma dget_sub_config:
  "dget (sub_config E c) k = (if k = ''pit_keep_alive'' then Some (PStr (pit_keep_alive E c))
     else if k \<in> set (sg_names elastic_signature) then Some (dget_or c k PNone) else None)"
  by (simp add: sub_config_def dget_map_keys) (simp add: sg_names_def elastic_signature_def)

lemmas sub_settings = dget_sub_config [unfolded sg_names_def elastic_signature_def, simplified]

lemma plain_sub_config:
  assumes "es_source E s q t sz"
  shows "plain (PDict (sub_config E (sl_config s)))"
proof -
  have "pit_keep_alive E (sl_config s) = t" and "\<not> has_template t"
    using assms by (auto simp: es_source_def pit_keep_alive_def dget_or_def dget_def dest!: map_of_SomeD)
  moreover have "plain (dget_or (sl_config s) k PNone)" for k
    using assms by (auto simp: es_source_def dget_or_def dget_def split: option.split dest!: map_of_SomeD)
  ultimately show ?thesis by (simp add: sub_config_def)
qed

definition snapshot_part :: "elastic \<Rightarrow> pydict \<Rightarrow> pyval \<Rightarrow> int \<Rightarrow> pyval \<Rightarrow> slice" where
  "snapshot_part E c pit width start =
     \<lparr>sl_type = ''ElasticSource'',
      sl_config = dset (dset (sub_config E c) ''pit_id'' pit) ''window'' (PDict [(''search_after'', start), (''size'', PInt width)]),
      sl_params = None\<rparr>"

lemma snapshot_window_eq: "snapshot_window E c pit width start = Inr (snapshot_part E c pit width start)"
  by (simp add: snapshot_window_def sub_source_eq with_setting_def snapshot_part_def)

lemma keep_alive_sub:
  assumes "es_source E s q t sz"
  shows "pit_keep_alive E (dset (dset (sub_config E (sl_config s)) ''pit_id'' pit) ''window'' w) = pit_keep_alive E (sl_config s)"
    "pit_keep_alive E (dset (sub_config E (sl_config s)) ''window'' w) = pit_keep_alive E (sl_config s)"
  using assms by (simp_all add: es_source_def pit_keep_alive_def dget_or_def sub_settings)

lemma fetch_snapshot_part:
  assumes "es_source E s q t sz" "truthy pit" "plain pit" "plain start"
  shows "elastic_fetch E render (snapshot_part E (sl_config s) pit width start) params None =
    Some (window_hits (\<lambda>cursor. el_pit_search E (with_cursor (window_body E (sl_config s) pit) cursor)) sz None width start [])"
proof -
  let ?c = "sl_config s" and ?s = "snapshot_part E (sl_config s) pit width start"
  have "plain (PDict (sl_config ?s))"
    unfolding snapshot_part_def slice.simps
    using assms by (intro plain_dset plain_sub_config [OF assms(1)]) auto
  moreover have "dget_or (sl_config ?s) ''base_query'' PNone = PDict q" "dget_or (sl_config ?s) ''size'' PNone = PInt sz"
    "dget_or (sl_config ?s) ''pit_id'' PNone = pit"
    "dget_or (sl_config ?s) ''window'' PNone = PDict [(''search_after'', start), (''size'', PInt width)]"
    "dget_or ?c ''base_query'' PNone = PDict q"
    using assms(1) by (simp_all add: snapshot_part_def dget_or_def sub_settings es_source_def)
  moreover from this have "window_body E (sl_config ?s) pit = window_body E ?c pit"
    unfolding window_body_def by (simp add: snapshot_part_def keep_alive_sub [OF assms(1)])
  moreover have "composite_path (PDict q) = Inr None" using assms(1) by (simp add: es_source_def)
  ultimately show ?thesis
    using assms(2) by (simp add: elastic_fetch_def resolve_plain_config fetch_window_def dict_items_def as_int_def int_of_def dget_or_def [of "[_, _]"])
qed

text \<open>A snapshot plan: the query is counted, a point in time opened, and the cluster serves the
  same hits to the scan and to the jobs.\<close>

definition snapshot_plan :: "elastic \<Rightarrow> slice \<Rightarrow> pydict \<Rightarrow> string \<Rightarrow> int \<Rightarrow> int \<Rightarrow> int \<Rightarrow> pyval \<Rightarrow> pydict list \<Rightarrow> pydict list \<Rightarrow> bool" where
  "snapshot_plan E s q t sz n number pit H scanned \<longleftrightarrow> es_source E s q t sz
     \<and> truthy (dget_or (sl_config s) ''docs_per_job'' PNone) \<and> dget_or (sl_config s) ''window_mode'' PNone \<noteq> PStr WINDOW_RANGE
     \<and> count_documents E (sl_config s) = Inr n \<and> 0 < n \<and> num_windows (sl_config s) n = Inr number \<and> 2 \<le> number
     \<and> el_open_pit E (dget_or (sl_config s) ''index'' PNone) t = Inr pit \<and> truthy pit \<and> plain pit
     \<and> serves (\<lambda>cursor. el_pit_search E (with_cursor (window_body E (sl_config s) pit) cursor)) H
     \<and> serves (\<lambda>cursor. el_pit_search E (with_cursor (scan_body E (sl_config s) pit) cursor)) scanned
     \<and> map sort_of scanned = map sort_of H \<and> list_all (\<lambda>h. plain (the (sort_of h))) H"

lemma cursors_same:
  assumes "map sort_of scanned = map sort_of H"
  shows "cursors_at scanned width number (length scanned) = cursors_at H width number (length H)"
proof -
  have len: "length scanned = length H" using assms by (metis length_map)
  have nth: "sort_of (scanned ! i) = sort_of (H ! i)" if "i < length H" for i
    using arg_cong [OF assms, of "\<lambda>xs. xs ! i"] len that by simp
  have same: "cursor_at scanned k = cursor_at H k" if "k \<le> length H" for k
    using nth [of "k - 1"] that by (simp add: cursor_at_def)
  have "i * width \<le> length H" if "i < min number (1 + length H div width)" for i
  proof -
    have "i \<le> length H div width" using that by simp
    then have "i * width \<le> length H div width * width" by (rule mult_le_mono1)
    also have "\<dots> \<le> length H" by simp
    finally show ?thesis .
  qed
  then show ?thesis
    unfolding cursors_at_def len by (intro map_cong refl same) simp
qed

text \<open>The jobs of a snapshot plan read, in order, the hits up to \<open>number\<close> windows.\<close>

lemma snapshot_reads:
  assumes P: "snapshot_plan E s q t sz n number pit H scanned"
  defines "width \<equiv> nat (ceil_div n number)"
  shows "\<exists>ss rss. elastic_split E render s params = Some (ss, None)
    \<and> map (\<lambda>t. elastic_fetch E render t params None) ss = map (\<lambda>rs. Some (Inr rs)) rss
    \<and> concat rss = map hit_record (take (nat number * width) H) \<and> list_all (\<lambda>rs. length rs \<le> width) rss"
proof -
  let ?c = "sl_config s"
  have src: "es_source E s q t sz" and serve: "serves (\<lambda>cursor. el_pit_search E (with_cursor (window_body E ?c pit) cursor)) H"
    and scan: "serves (\<lambda>cursor. el_pit_search E (with_cursor (scan_body E ?c pit) cursor)) scanned"
    and same: "map sort_of scanned = map sort_of H" and pit: "truthy pit" "plain pit" and n: "0 < n" "2 \<le> number"
    using P by (auto simp: snapshot_plan_def)
  have width: "0 < width" "ceil_div n number = int width" using ceil_div_pos [of n number] n by (auto simp: width_def)
  have len: "length scanned = length H" using same by (metis length_map)
  have keep: "pit_keep_alive E ?c = t" using src by (simp add: es_source_def pit_keep_alive_def dget_or_def)
  have "as_int (dget_or ?c ''size'' PNone) = Inr sz" "0 < sz" using src by (simp_all add: es_source_def dget_or_def as_int_def)
  then have cursors: "scan_window_cursors E ?c pit (ceil_div n number) number = Some (Inr (cursors_at H width (nat number) (length H)))"
    using scan_finds [OF scan width(1), of sz 0 "nat number"] n cursors_same [OF same] width(2)
    by (simp add: scan_window_cursors_def cursors_at_def [of _ _ _ 0] cursor_at_def [of _ 0])
  let ?cs = "cursors_at H width (nat number) (length H)" and ?part = "snapshot_part E ?c pit (int width)"
  have "dget_or ?c ''base_query'' PNone = PDict q" "composite_path (PDict q) = Inr None"
    using src by (simp_all add: es_source_def dget_or_def)
  moreover have "plan_each (snapshot_window E ?c pit (int width)) ?cs = (map ?part ?cs, None)"
    by (rule plan_each_all) (rule snapshot_window_eq)
  ultimately have plan: "elastic_split E render s params = Some (map ?part ?cs, None)"
    using P src keep cursors width(2)
    by (simp add: snapshot_plan_def es_source_def elastic_split_def resolve_plain_config split_snapshot_windows_def)
  let ?read = "\<lambda>i. map hit_record (take width (drop (i * width) H))" and ?is = "[0..<min (nat number) (1 + length H div width)]"
  have reads: "elastic_fetch E render (?part (cursor_at H (i * width))) params None = Some (Inr (?read i))" if "i \<in> set ?is" for i
  proof -
    have i: "i * width \<le> length H"
      using that by (auto simp: less_Suc_eq_le intro: order_trans [OF mult_le_mono1])
    have "plain (cursor_at H (i * width))"
      using P i by (cases "i * width") (auto simp: cursor_at_def snapshot_plan_def list_all_length)
    then have "elastic_fetch E render (?part (cursor_at H (i * width))) params None =
        Some (window_hits (\<lambda>cursor. el_pit_search E (with_cursor (window_body E ?c pit) cursor)) sz None (int width) (cursor_at H (i * width)) [])"
      by (rule fetch_snapshot_part [OF src pit])
    also have "\<dots> = Some (Inr (?read i))"
      using window_reads [OF serve \<open>0 < sz\<close> i] by (simp add: take_map)
    finally show ?thesis .
  qed
  have "map (\<lambda>t. elastic_fetch E render t params None) (map ?part ?cs) = map (\<lambda>rs. Some (Inr rs)) (map ?read ?is)"
    using reads by (simp add: cursors_at_def)
  moreover have "concat (map ?read ?is) = map hit_record (take (nat number * width) H)"
  proof -
    have "concat (map ?read ?is) = map hit_record (concat (map (\<lambda>i. take width (drop (i * width) H)) ?is))"
      by (simp only: map_concat map_map comp_def)
    then show ?thesis by (simp only: windows_concat [OF width(1)])
  qed
  moreover have "list_all (\<lambda>rs. length rs \<le> width) (map ?read ?is)" by (simp add: list_all_iff)
  ultimately show ?thesis using plan by blast
qed

subsection \<open>Ranges of the first sort key\<close>

lemma all_hits_reads:
  assumes "serves search H" "0 < page"
  shows "k \<le> length H \<Longrightarrow>
    all_hits cf (\<lambda>c. search c page) fail None (cursor_at H k) acc = Some (Inr (acc @ map hit_record (drop k H)))"
proof (induction "length H - k" arbitrary: k acc rule: less_induct)
  case less
  have page: "search (cursor_at H k) page = Inr (take (nat page) (drop k H))" by (rule serves_at [OF assms(1) less(2) assms(2)])
  show ?case
  proof (cases "k = length H")
    case True
    then show ?thesis using page by (subst all_hits.simps) simp
  next
    case False
    let ?hits = "take (nat page) (drop k H)" and ?k = "min (k + nat page) (length H)"
    have k: "k < length H" "0 < nat page" using False less(2) assms(2) by auto
    note hits = last_hit [OF assms(1) k]
    have "all_hits cf (\<lambda>c. search c page) fail None (cursor_at H k) acc =
        all_hits cf (\<lambda>c. search c page) fail None (cursor_at H ?k) (acc @ map hit_record ?hits)"
      using page hits by (subst all_hits.simps) (simp add: limit_reached_def)
    also have "\<dots> = Some (Inr ((acc @ map hit_record ?hits) @ map hit_record (drop ?k H)))"
      using k by (intro less(1)) auto
    also have "\<dots> = Some (Inr (acc @ map hit_record (drop k H)))"
    proof -
      have "?hits @ drop ?k H = drop k H" using append_take_drop_id [of "nat page" "drop k H"] by (auto simp: min_def add.commute)
      then have "map hit_record ?hits @ map hit_record (drop ?k H) = map hit_record (drop k H)" by (metis map_append)
      then show ?thesis by simp
    qed
    finally show ?thesis .
  qed
qed

definition precedes :: "string \<Rightarrow> int \<Rightarrow> int \<Rightarrow> bool" where
  "precedes order a b \<longleftrightarrow> (if order = ''asc'' then a < b else b < a)"

text \<open>What the range filter keeps: documents with a value of the field, in the window.\<close>

definition in_range :: "string \<Rightarrow> pyval \<Rightarrow> pyval \<Rightarrow> int option \<Rightarrow> bool" where
  "in_range order after until key = (case key of
     None \<Rightarrow> False
   | Some i \<Rightarrow> (case after of PInt a \<Rightarrow> precedes order a i | _ \<Rightarrow> True) \<and> (case until of PInt b \<Rightarrow> \<not> precedes order b i | _ \<Rightarrow> True))"

lemma ranges_partition:
  assumes "sorted_wrt (precedes order) bs" "case lo of PInt a \<Rightarrow> list_all (precedes order a) bs | _ \<Rightarrow> True"
  shows "mset (concat (map (\<lambda>w. filter (\<lambda>h. in_range order (fst w) (snd w) (key h)) docs) (zip (lo # map PInt bs) (map PInt bs @ [PNone])))) =
    mset (filter (\<lambda>h. in_range order lo PNone (key h)) docs)"
  using assms
proof (induction bs arbitrary: lo)
  case (Cons b bs)
  have split: "mset (filter (\<lambda>h. in_range order lo (PInt b) (key h)) docs) + mset (filter (\<lambda>h. in_range order (PInt b) PNone (key h)) docs) =
      mset (filter (\<lambda>h. in_range order lo PNone (key h)) docs)"
    using Cons.prems(2) by (induction docs) (auto simp: in_range_def precedes_def split: option.splits pyval.splits)
  have "case PInt b of PInt a \<Rightarrow> list_all (precedes order a) bs | _ \<Rightarrow> True" using Cons.prems(1) by (simp add: list_all_iff)
  with Cons.IH [of "PInt b"] Cons.prems(1) split show ?case by simp
qed simp

lemma drop_repeats_ints: "drop_repeats (map PInt vs) = map PInt (remdups_adj vs)"
  by (induction vs rule: remdups_adj.induct) auto

lemma strict_boundaries:
  "sorted_wrt (\<lambda>a b. \<not> precedes order b a) vs \<Longrightarrow> sorted_wrt (precedes order) (remdups_adj vs)"
proof (induction vs rule: remdups_adj.induct)
  case (3 x y zs)
  then show ?case by (auto simp: precedes_def split: if_splits)
qed auto

definition key_of :: "pydict \<Rightarrow> int option" where
  "key_of h = (case sort_of h of Some (PList (PInt i # _)) \<Rightarrow> Some i | _ \<Rightarrow> None)"

text \<open>A range plan: the scan saw documents in the order of their keys, and the cluster serves
  to each job the documents of its window, as they are when the job runs (\<open>docs\<close>).\<close>

definition range_plan ::
  "elastic \<Rightarrow> slice \<Rightarrow> pydict \<Rightarrow> string \<Rightarrow> int \<Rightarrow> int \<Rightarrow> int \<Rightarrow> string \<Rightarrow> string \<Rightarrow> pydict list \<Rightarrow> (pydict \<Rightarrow> int option) \<Rightarrow>
     pydict list \<Rightarrow> bool" where
  "range_plan E s q t sz n number field order scanned key docs \<longleftrightarrow> es_source E s q t sz
     \<and> truthy (dget_or (sl_config s) ''docs_per_job'' PNone) \<and> dget_or (sl_config s) ''window_mode'' PNone = PStr WINDOW_RANGE
     \<and> count_documents E (sl_config s) = Inr n \<and> 0 < n \<and> num_windows (sl_config s) n = Inr number \<and> 2 \<le> number
     \<and> dget q ''search_after'' = None \<and> first_sort_key q = Inr (field, order) \<and> \<not> has_template field
     \<and> (\<exists>pit. el_open_pit E (dget_or (sl_config s) ''index'' PNone) t = Inr pit
          \<and> serves (\<lambda>cursor. el_pit_search E (with_cursor (scan_body E (sl_config s) pit) cursor)) scanned)
     \<and> list_all (\<lambda>h. key_of h \<noteq> None) scanned \<and> sorted_wrt (\<lambda>a b. \<not> precedes order b a) (map (the \<circ> key_of) scanned)
     \<and> (\<exists>pit. el_open_pit E (dget_or (sl_config s) ''index'' PNone) RANGE_JOB_PIT_KEEP_ALIVE = Inr pit
          \<and> (\<forall>after until. serves (\<lambda>cursor. el_pit_search E (with_cursor (range_body (sl_config s) pit field order after until) cursor))
               (filter (\<lambda>h. in_range order after until (key h)) docs)))"

definition range_part :: "elastic \<Rightarrow> pydict \<Rightarrow> string \<Rightarrow> string \<Rightarrow> pyval \<times> pyval \<Rightarrow> slice" where
  "range_part E c field order w =
     \<lparr>sl_type = ''ElasticSource'',
      sl_config = dset (sub_config E c) ''window''
        (PDict [(''mode'', PStr WINDOW_RANGE), (''field'', PStr field), (''order'', PStr order), (''after'', fst w), (''upto'', snd w)]),
      sl_params = None\<rparr>"

lemma range_window_eq: "range_window E c field order w = Inr (range_part E c field order w)"
  by (simp add: range_window_def sub_source_eq with_setting_def range_part_def)

lemma first_sort_key_order: "first_sort_key q = Inr (field, order) \<Longrightarrow> order \<in> {''asc'', ''desc''}"
  by (auto simp: first_sort_key_def Let_def split: if_splits)

lemma fetch_range_part:
  assumes "range_plan E s q t sz n number field order scanned key docs" "plain (fst w)" "plain (snd w)"
  shows "elastic_fetch E render (range_part E (sl_config s) field order w) params None =
    Some (Inr (map hit_record (filter (\<lambda>h. in_range order (fst w) (snd w) (key h)) docs)))"
proof -
  let ?c = "sl_config s" and ?s = "range_part E (sl_config s) field order w"
  have src: "es_source E s q t sz" and q: "dget q ''search_after'' = None" "first_sort_key q = Inr (field, order)" "\<not> has_template field"
    using assms(1) by (auto simp: range_plan_def)
  obtain pit where pit: "el_open_pit E (dget_or ?c ''index'' PNone) RANGE_JOB_PIT_KEEP_ALIVE = Inr pit"
    "serves (\<lambda>cursor. el_pit_search E (with_cursor (range_body ?c pit field order (fst w) (snd w)) cursor))
      (filter (\<lambda>h. in_range order (fst w) (snd w) (key h)) docs)"
    using assms(1) unfolding range_plan_def by blast
  have "plain (PStr order)" using first_sort_key_order [OF q(2)] by (auto simp: has_template_def)
  then have "plain (PDict (sl_config ?s))"
    unfolding range_part_def slice.simps
    using assms(2,3) q(3) by (intro plain_dset plain_sub_config [OF src]) (auto simp: WINDOW_RANGE_def has_template_def)
  moreover have "dget_or (sl_config ?s) ''base_query'' PNone = PDict q" "dget_or (sl_config ?s) ''size'' PNone = PInt sz"
    "dget_or (sl_config ?s) ''index'' PNone = dget_or ?c ''index'' PNone" "dget_or ?c ''base_query'' PNone = PDict q"
    "dget_or (sl_config ?s) ''window'' PNone = PDict [(''mode'', PStr WINDOW_RANGE), (''field'', PStr field), (''order'', PStr order),
      (''after'', fst w), (''upto'', snd w)]"
    using src by (simp_all add: range_part_def dget_or_def sub_settings es_source_def)
  moreover from this have "range_body (sl_config ?s) pit field order = range_body ?c pit field order"
    by (simp add: fun_eq_iff range_body_def)
  moreover have "composite_path (PDict q) = Inr None" "0 < sz" using src by (simp_all add: es_source_def)
  moreover from this have "all_hits True (\<lambda>cursor. el_pit_search E (with_cursor (range_body ?c pit field order (fst w) (snd w)) cursor) sz)
      range_failure None PNone [] = Some (Inr (map hit_record (filter (\<lambda>h. in_range order (fst w) (snd w) (key h)) docs)))"
    using all_hits_reads [OF pit(2), of sz 0] by (simp add: cursor_at_def)
  ultimately show ?thesis
    using pit(1) q(1) by (simp add: elastic_fetch_def resolve_plain_config fetch_range_window_def dict_items_def as_int_def
        dget_or_def [of "_ # _"])
qed

text \<open>The keys at the boundaries.\<close>

definition boundary_keys :: "pydict list \<Rightarrow> nat \<Rightarrow> nat \<Rightarrow> int list" where
  "boundary_keys H width number =
     map (\<lambda>i. the (key_of (H ! (i * width - 1)))) [1..<min number (1 + length H div width)]"

lemma boundaries_found:
  assumes "list_all (\<lambda>h. key_of h \<noteq> None) H" "0 < width"
  shows "sequence (map first_value (tl (cursors_at H width number (length H)))) = Inr (map PInt (boundary_keys H width number))"
proof -
  let ?m = "min number (1 + length H div width)"
  have "first_value (cursor_at H (i * width)) = Inr (PInt (the (key_of (H ! (i * width - 1)))))" if "i \<in> set [1..<?m]" for i
  proof -
    have "0 < i * width" "i * width \<le> length H"
      using that assms(2) by (auto simp: less_Suc_eq_le intro: order_trans [OF mult_le_mono1])
    then have "i * width - 1 < length H" by linarith
    then have "key_of (H ! (i * width - 1)) \<noteq> None" using assms(1) unfolding list_all_length by blast
    then show ?thesis
      using \<open>0 < i * width\<close> by (auto simp: cursor_at_def first_value_def key_of_def split: option.splits pyval.splits list.splits)
  qed
  moreover have "tl (cursors_at H width number (length H)) = map (\<lambda>i. cursor_at H (i * width)) [1..<?m]"
    by (cases ?m) (simp_all add: cursors_at_def map_tl [symmetric] upt_conv_Cons del: upt_Suc)
  ultimately have "map first_value (tl (cursors_at H width number (length H))) = map Inr (map PInt (boundary_keys H width number))"
    by (simp add: boundary_keys_def)
  then show ?thesis by (simp only: sequence_map_Inr)
qed

lemma boundaries_sorted:
  assumes "sorted_wrt (\<lambda>a b. \<not> precedes order b a) (map (the \<circ> key_of) H)" "0 < width"
  shows "sorted_wrt (precedes order) (remdups_adj (boundary_keys H width number))"
proof (rule strict_boundaries)
  let ?m = "min number (1 + length H div width)"
  have "i * width - 1 < j * width - 1 \<and> j * width - 1 < length H" if "0 < i" "i < j" "j < ?m" for i j
  proof -
    have "0 < i * width" "i * width < j * width" "j * width \<le> length H"
      using that assms(2) by (auto simp: less_Suc_eq_le intro: order_trans [OF mult_le_mono1])
    then show ?thesis by linarith
  qed
  then have ordered: "\<not> precedes order (the (key_of (H ! (j * width - 1)))) (the (key_of (H ! (i * width - 1))))"
    if "0 < i" "i < j" "j < ?m" for i j
    using assms(1) that unfolding sorted_wrt_iff_nth_less by (auto simp: comp_def)
  show "sorted_wrt (\<lambda>a b. \<not> precedes order b a) (boundary_keys H width number)"
    unfolding sorted_wrt_iff_nth_less
  proof (intro allI impI)
    fix i j assume "i < j" "j < length (boundary_keys H width number)"
    then have j: "Suc j < ?m" by (simp add: boundary_keys_def less_diff_conv del: upt_Suc)
    then have "[1..<?m] ! i = Suc i" "[1..<?m] ! j = Suc j" using \<open>i < j\<close> nth_upt [of 1 i ?m] nth_upt [of 1 j ?m] by simp_all
    then have "boundary_keys H width number ! i = the (key_of (H ! (Suc i * width - 1)))"
      "boundary_keys H width number ! j = the (key_of (H ! (Suc j * width - 1)))"
      using j \<open>i < j\<close> nth_map [of i "[1..<?m]"] nth_map [of j "[1..<?m]"] by (simp_all only: boundary_keys_def length_upt) auto
    then show "\<not> precedes order (boundary_keys H width number ! j) (boundary_keys H width number ! i)"
      using ordered [of "Suc i" "Suc j"] \<open>i < j\<close> j by simp
  qed
qed

lemma range_reads:
  assumes P: "range_plan E s q t sz n number field order scanned key docs"
  shows "\<exists>ss rss. elastic_split E render s params = Some (ss, None)
    \<and> map (\<lambda>t. elastic_fetch E render t params None) ss = map (\<lambda>rs. Some (Inr rs)) rss
    \<and> mset (concat rss) = mset (map hit_record (filter (\<lambda>h. key h \<noteq> None) docs))"
proof -
  let ?c = "sl_config s"
  define width where "width = nat (ceil_div n number)"
  have src: "es_source E s q t sz" and n: "0 < n" "2 \<le> number"
    and keys: "list_all (\<lambda>h. key_of h \<noteq> None) scanned" "sorted_wrt (\<lambda>a b. \<not> precedes order b a) (map (the \<circ> key_of) scanned)"
    using P by (auto simp: range_plan_def)
  have width: "0 < width" "ceil_div n number = int width" using ceil_div_pos [of n number] n by (auto simp: width_def)
  have keep: "pit_keep_alive E ?c = t" using src by (simp add: es_source_def pit_keep_alive_def dget_or_def)
  obtain pit where pit: "el_open_pit E (dget_or ?c ''index'' PNone) t = Inr pit"
    "serves (\<lambda>cursor. el_pit_search E (with_cursor (scan_body E ?c pit) cursor)) scanned"
    using P unfolding range_plan_def by blast
  have "as_int (dget_or ?c ''size'' PNone) = Inr sz" "0 < sz" using src by (simp_all add: es_source_def dget_or_def as_int_def)
  then have cursors: "scan_window_cursors E ?c pit (ceil_div n number) number =
      Some (Inr (cursors_at scanned width (nat number) (length scanned)))"
    using scan_finds [OF pit(2) width(1), of sz 0 "nat number"] n width(2)
    by (simp add: scan_window_cursors_def cursors_at_def [of _ _ _ 0] cursor_at_def [of _ 0])
  let ?bs = "remdups_adj (boundary_keys scanned width (nat number))" and ?part = "range_part E ?c field order"
  let ?ws = "zip (PNone # map PInt ?bs) (map PInt ?bs @ [PNone])"
  let ?read = "\<lambda>w. filter (\<lambda>h. in_range order (fst w) (snd w) (key h)) docs"
  have edges: "window_edges (drop_repeats (map PInt (boundary_keys scanned width (nat number)))) = ?ws"
    by (simp add: window_edges_def drop_repeats_ints)
  have "dget_or ?c ''base_query'' PNone = PDict q" "composite_path (PDict q) = Inr None"
    using src by (simp_all add: es_source_def dget_or_def)
  moreover have "plan_each (range_window E ?c field order) ?ws = (map ?part ?ws, None)"
    by (rule plan_each_all) (rule range_window_eq)
  ultimately have plan: "elastic_split E render s params = Some (map ?part ?ws, None)"
    using P src keep cursors pit(1) width(2) edges boundaries_found [OF keys(1) width(1), of "nat number"]
    by (simp add: range_plan_def es_source_def elastic_split_def resolve_plain_config split_range_windows_def dict_items_def)
  have "plain (fst w) \<and> plain (snd w)" if "w \<in> set ?ws" for w
    using set_zip_leftD [of "fst w" "snd w"] set_zip_rightD [of "fst w" "snd w"] that by (cases w) fastforce
  then have reads: "map (\<lambda>t. elastic_fetch E render t params None) (map ?part ?ws) = map (\<lambda>rs. Some (Inr rs)) (map (map hit_record \<circ> ?read) ?ws)"
    using fetch_range_part [OF P] by simp
  have "mset (concat (map ?read ?ws)) = mset (filter (\<lambda>h. in_range order PNone PNone (key h)) docs)"
    by (rule ranges_partition) (simp_all add: boundaries_sorted [OF keys(2) width(1)])
  also have "filter (\<lambda>h. in_range order PNone PNone (key h)) docs = filter (\<lambda>h. key h \<noteq> None) docs"
    by (rule filter_cong) (auto simp: in_range_def split: option.split)
  finally have "mset (concat (map (map hit_record \<circ> ?read) ?ws)) = mset (map hit_record (filter (\<lambda>h. key h \<noteq> None) docs))"
    by (simp add: map_concat [symmetric] map_map [symmetric] del: map_map)
  then show ?thesis using plan reads by blast
qed

text \<open>A query that brings its own \<open>search_after\<close> is paged by that cursor, whatever the window of
  the job: \<open>fetch\<close> looks for the cursor first, so every range job reads the whole rest.\<close>

lemma search_after_shadows_the_window:
  assumes "es_source E s q t sz" "dget q ''search_after'' \<noteq> None" "\<not> has_template field" "order \<in> {''asc'', ''desc''}"
    and "plain (fst w)" "plain (snd w)"
  shows "elastic_fetch E render (range_part E (sl_config s) field order w) params limit =
    fetch_search_after E (sl_config (range_part E (sl_config s) field order w)) limit"
proof -
  let ?s = "range_part E (sl_config s) field order w"
  have "plain (PDict (sl_config ?s))"
    unfolding range_part_def slice.simps
    using assms(3-6) by (intro plain_dset plain_sub_config [OF assms(1)]) (auto simp: WINDOW_RANGE_def has_template_def)
  moreover have "dget_or (sl_config ?s) ''base_query'' PNone = PDict q" "dget_or (sl_config ?s) ''pit_id'' PNone = PNone"
    using assms(1) by (simp_all add: range_part_def dget_or_def sub_settings es_source_def)
  moreover have "composite_path (PDict q) = Inr None" using assms(1) by (simp add: es_source_def)
  ultimately show ?thesis
    using assms(2) by (simp add: elastic_fetch_def resolve_plain_config dict_items_def)
qed

section \<open>Properties\<close>

text \<open>C11: The jobs of a snapshot plan partition the result: each reads a run of consecutive hits, at
  most the width of a window, and one after the other they give every hit of the query
  exactly once and in its order -- whatever the page sizes of scan and jobs are. (The
  premise \<open>n = length H\<close> is that no document came or went between counting and opening the
  point in time.)\<close>

theorem snapshot_windows_partition_the_hits:
  assumes "snapshot_plan E s q t sz n number pit H scanned" "n = int (length H)"
  shows "\<exists>ss rss. elastic_split E render s params = Some (ss, None)
    \<and> map (\<lambda>t. elastic_fetch E render t params None) ss = map (\<lambda>rs. Some (Inr rs)) rss
    \<and> concat rss = map hit_record H \<and> list_all (\<lambda>rs. int (length rs) \<le> ceil_div n number) rss"
proof -
  have n: "0 < n" "2 \<le> number" using assms(1) by (auto simp: snapshot_plan_def)
  then have width: "0 < ceil_div n number" by (simp add: ceil_div_pos)
  obtain ss rss where r: "elastic_split E render s params = Some (ss, None)"
    "map (\<lambda>t. elastic_fetch E render t params None) ss = map (\<lambda>rs. Some (Inr rs)) rss"
    "concat rss = map hit_record (take (nat number * nat (ceil_div n number)) H)"
    "list_all (\<lambda>rs. length rs \<le> nat (ceil_div n number)) rss"
    using snapshot_reads [OF assms(1)] by blast
  have "int (length H) \<le> int (nat number * nat (ceil_div n number))"
    using ceil_div_enough [of number n] n width assms(2) by simp
  then have "take (nat number * nat (ceil_div n number)) H = H" by (intro take_all) linarith
  moreover have "list_all (\<lambda>rs. int (length rs) \<le> ceil_div n number) rss"
    using r(4) width by (auto simp: list_all_iff)
  ultimately show ?thesis using r by auto
qed


text \<open>A small cluster: hits in the order of their keys, searches that honour cursor and range.\<close>

definition doc :: "int \<Rightarrow> string \<Rightarrow> pydict" where
  "doc i x = [(''_source'', PDict [(''x'', PStr x)]), (''sort'', PList [PInt i, PStr x])]"

definition range_of_body :: "pydict \<Rightarrow> pyval \<times> pyval" where
  "range_of_body body = (case dget body ''query'' of
     Some (PDict [(b, PDict [(f, PList [u, PDict [(r, PDict [(field, PDict bounds)])]])])]) \<Rightarrow>
       (dget_or bounds ''gt'' PNone, dget_or bounds ''lte'' PNone)
   | _ \<Rightarrow> (PNone, PNone))"

definition cluster :: "pydict list \<Rightarrow> elastic" where
  "cluster docs =
     \<lparr>el_pit_search = (\<lambda>body n. Inr (take (nat n) (after_cursor
          (filter (\<lambda>h. in_range ''asc'' (fst (range_of_body body)) (snd (range_of_body body)) (key_of h)) docs)
          (dget_or body ''search_after'' PNone)))),
      el_search = (\<lambda>_ _. Inr []), el_scroll = (\<lambda>_ _ _ _ _. Inr []), el_aggregate = (\<lambda>_ _. Inr PNone),
      el_count = (\<lambda>_ _. Inr (int (length docs))), el_open_pit = (\<lambda>_ _. Inr (PStr ''pit'')), el_clear_scroll = None,
      el_str = (\<lambda>v. case v of PStr t \<Rightarrow> t | _ \<Rightarrow> [])\<rparr>"

definition some_docs :: "pydict list" where
  "some_docs = [doc 1 ''a'', doc 1 ''b'', doc 1 ''c'', doc 2 ''d'', doc 5 ''e'']"

definition some_query :: pydict where
  "some_query = [(''query'', PDict [(''match_all'', PDict [])]), (''sort'', PList [PDict [(''at'', PStr ''asc'')]])]"

definition some_elastic :: "string \<Rightarrow> slice" where
  "some_elastic mode = \<lparr>sl_type = ''ElasticSource'',
     sl_config = [(''url'', PStr ''http://es''), (''index'', PStr ''logs''), (''base_query'', PDict some_query), (''scroll'', PStr ''2m''),
       (''size'', PInt 2), (''pit_keep_alive'', PStr ''30m''), (''auth'', PNone), (''verify_certs'', PBool True),
       (''docs_per_job'', PInt 2), (''max_slices'', PInt 1024), (''window_mode'', PStr mode)], sl_params = None\<rparr>"

lemma cluster_serves:
  assumes "distinct (map sort_of docs)" "list_all (\<lambda>h. sort_of h \<noteq> None \<and> sort_of h \<noteq> Some PNone) docs"
    and "dget body ''search_after'' = None"
  shows "serves (\<lambda>cursor. el_pit_search (cluster docs) (with_cursor body cursor))
    (filter (\<lambda>h. in_range ''asc'' (fst (range_of_body body)) (snd (range_of_body body)) (key_of h)) docs)"
proof -
  have "range_of_body (with_cursor body c) = range_of_body body" for c
    by (simp add: with_cursor_def range_of_body_def)
  moreover have "dget_or (with_cursor body c) ''search_after'' PNone = c" for c
    using assms(3) by (simp add: with_cursor_def dget_or_def)
  ultimately show ?thesis
    using assms(1,2) by (auto simp: serves_def cluster_def distinct_map_filter list_all_iff)
qed


theorem snapshot_windows_partition_the_hits_witness:
  "let E = cluster some_docs; s = some_elastic ''snapshot'' in
   \<exists>ss rss. elastic_split E (\<lambda>x _. Inr x) s [] = Some (ss, None)
     \<and> map (\<lambda>t. elastic_fetch E (\<lambda>x _. Inr x) t [] None) ss = map (\<lambda>rs. Some (Inr rs)) rss
     \<and> concat rss = map hit_record some_docs \<and> list_all (\<lambda>rs. int (length rs) \<le> ceil_div 5 3) rss"
proof -
  let ?E = "cluster some_docs" and ?s = "some_elastic ''snapshot''"
  have [simp]: "some_query \<noteq> []" by (simp add: some_query_def)
  have S: "serves (\<lambda>cursor. el_pit_search ?E (with_cursor b cursor)) some_docs"
    if "b = window_body ?E (sl_config ?s) (PStr ''pit'') \<or> b = scan_body ?E (sl_config ?s) (PStr ''pit'')" for b
  proof -
    have b: "dget b ''search_after'' = None" "range_of_body b = (PNone, PNone)"
      using that by (elim disjE; simp; code_simp)+
    have "serves (\<lambda>cursor. el_pit_search ?E (with_cursor b cursor))
        (filter (\<lambda>h. in_range ''asc'' (fst (range_of_body b)) (snd (range_of_body b)) (key_of h)) some_docs)"
      by (rule cluster_serves [OF _ _ b(1)]) code_simp+
    moreover have "filter (\<lambda>h. in_range ''asc'' (fst (range_of_body b)) (snd (range_of_body b)) (key_of h)) some_docs = some_docs"
      unfolding b(2) by code_simp
    ultimately show ?thesis by simp
  qed
  have "snapshot_plan ?E ?s some_query ''30m'' 2 5 3 (PStr ''pit'') some_docs some_docs"
    unfolding snapshot_plan_def
    by (intro conjI; (rule S [OF disjI1 [OF refl]] S [OF disjI2 [OF refl]])?; code_simp)
  from snapshot_windows_partition_the_hits [OF this, of "\<lambda>x _. Inr x" "[]"]
  show ?thesis by (simp add: some_docs_def)
qed



end
