(* ===== verification/Connectors.thy ===== *)
theory Connectors
  imports ElasticWindows
begin

text \<open>
  All connectors together: what a source of any built-in type plans and reads, and the way of a
  planned part through the job message to the worker that rebuilds it
  (\<open>pipeline_runner.py\<close>, \<open>factories/source_factory.py\<close>, \<open>worker/executor.py\<close>).
\<close>

subsection \<open>Dispatch\<close>

text \<open>The services behind the connectors and the template renderer.\<close>

record connectors =
  cn_render :: render
  cn_database :: database
  cn_s3 :: s3_service
  cn_http :: http_api
  cn_elastic :: elastic

text \<open>Calling \<open>split\<close> and \<open>fetch\<close> on a source runs the method of its class.\<close>

definition split_source :: "connectors \<Rightarrow> slice \<Rightarrow> pydict \<Rightarrow> planned option" where
  "split_source C s params =
     (if sl_type s = ''StaticSource'' then Some (static_split s params)
      else if sl_type s = ''MockSource'' then Some (mock_split s)
      else if sl_type s = ''ElasticSource'' then elastic_split (cn_elastic C) (cn_render C) s params
      else if sl_type s = ''SqlSource'' then sql_split (cn_database C) (cn_render C) s params
      else if sl_type s = ''S3Source'' then Some (s3_split (cn_s3 C) (cn_render C) s params)
      else if sl_type s = ''IDBasedAPISource'' then Some (api_split s params)
      else Some (whole_split s))"

definition fetch_source :: "connectors \<Rightarrow> slice \<Rightarrow> pydict \<Rightarrow> nat option \<Rightarrow> (py_error + pyval list) option" where
  "fetch_source C s params limit =
     (if sl_type s = ''StaticSource'' then Some (static_fetch s limit)
      else if sl_type s = ''MockSource'' then Some (mock_fetch s limit)
      else if sl_type s = ''ElasticSource'' then elastic_fetch (cn_elastic C) (cn_render C) s params limit
      else if sl_type s = ''SqlSource'' then Some (sql_fetch (cn_database C) (cn_render C) s params limit)
      else if sl_type s = ''S3Source'' then Some (s3_fetch (cn_s3 C) (cn_render C) s params limit)
      else if sl_type s = ''IDBasedAPISource'' then Some (api_fetch (cn_http C) (cn_render C) s params limit)
      else Some (Inl (OtherError ''NotImplementedError'' [])))"

text \<open>What the worker reads of the message: the descriptor of its source.\<close>

definition message_source :: "pydict \<Rightarrow> (string \<times> pydict) option" where
  "message_source payload =
     (case dget payload ''source'' of
        Some (PDict d) \<Rightarrow>
          (case (dget d ''type'', dget d ''config'') of (Some (PStr t), Some (PDict c)) \<Rightarrow> Some (t, c) | _ \<Rightarrow> None)
      | _ \<Rightarrow> None)"

section \<open>Lemmas\<close>

text \<open>A part of a plan: built by the same constructor, with no params of its own.\<close>

definition part_of :: "signature \<Rightarrow> slice \<Rightarrow> slice \<Rightarrow> bool" where
  "part_of g s t \<longleftrightarrow> sl_type t = sl_type s \<and> stored g (sl_config t) \<and> sl_params t = None"

lemma builtin_members:
  "set (builtin_sources installed) \<subseteq> {(''StaticSource'', static_signature), (''MockSource'', mock_signature),
     (''ElasticSource'', elastic_signature), (''SqlSource'', sql_signature), (''S3Source'', s3_signature),
     (''IDBasedAPISource'', api_signature)}"
  unfolding builtin_sources_def set_append set_filter by auto

lemma builtin_cases:
  assumes "(t, g) \<in> set (builtin_sources installed)"
  obtains (static) "t = ''StaticSource''" "g = static_signature" | (mock) "t = ''MockSource''" "g = mock_signature"
    | (elastic) "t = ''ElasticSource''" "g = elastic_signature" | (sql) "t = ''SqlSource''" "g = sql_signature"
    | (s3) "t = ''S3Source''" "g = s3_signature" | (api) "t = ''IDBasedAPISource''" "g = api_signature"
  using subsetD [OF builtin_members assms] by (elim insertE emptyE) (simp_all only: prod.inject)

lemma builtin_distinct: "distinct (map fst (builtin_sources installed))"
  by (simp add: builtin_sources_def distinct_map_filter)

text \<open>What a constructor stores it stores again.\<close>

lemma upper_upper: "upper (upper s) = upper s"
  by (auto simp: upper_def of_char_of)

lemma store_again:
  assumes "(t, g) \<in> set (builtin_sources installed)" "sg_store g k v = Inr w"
  shows "sg_store g k w = Inr w"
  using assms(2)
  by (cases rule: builtin_cases [OF assms(1)])
     (auto simp: static_signature_def py_list_def mock_signature_def elastic_signature_def sql_signature_def s3_signature_def
       api_signature_def as_given_def api_store_def upper_upper split: if_splits pyval.splits)

lemma builtin_names:
  assumes "(t, g) \<in> set (builtin_sources installed)"
  shows "distinct (sg_names g)"
  by (cases rule: builtin_cases [OF assms])
     (simp_all add: sg_names_def static_signature_def mock_signature_def elastic_signature_def sql_signature_def s3_signature_def
       api_signature_def)

lemma new_source_stored:
  assumes "new_source t g kw = Inr s" "(t, g) \<in> set (builtin_sources installed)" "distinct (dkeys kw)"
  shows "part_of g s s" "sl_type s = t"
proof -
  obtain c where c: "construct g kw = Inr c" "s = \<lparr>sl_type = t, sl_config = c, sl_params = None\<rparr>"
    using assms(1) by (cases "construct g kw") (auto simp: new_source_def)
  have "stored g c"
    by (rule stored_construct [OF c(1) assms(3) builtin_names [OF assms(2)] store_again [OF assms(2)]])
  then show "part_of g s s" "sl_type s = t" by (simp_all add: part_of_def c(2))
qed

lemma parts_built:
  assumes "t \<in> set (fst (plan_each f xs))" "\<And>x u. f x = Inr u \<Longrightarrow> part_of g s u"
  shows "part_of g s t"
  using plan_each_built [OF assms(1)] assms(2) by blast

lemma part_dset:
  assumes "part_of g s t" "sg_kwargs g" "k \<notin> set (sg_names g)"
  shows "part_of g s (t\<lparr>sl_config := dset (sl_config t) k v\<rparr>)"
  using assms stored_dset by (auto simp: part_of_def)

text \<open>A constructor called with a keyword for each of its settings.\<close>

lemma new_source_part:
  assumes "new_source t g (map (\<lambda>k. (k, f k)) (sg_names g)) = Inr u" "(t, g) \<in> set (builtin_sources installed)" "sl_type s = t"
  shows "part_of g s u"
proof -
  have "distinct (dkeys (map (\<lambda>k. (k, f k)) (sg_names g)))"
    using builtin_names [OF assms(2)] by (simp add: dkeys_def comp_def)
  from new_source_stored [OF assms(1,2) this] assms(3) show ?thesis by (simp add: part_of_def)
qed

lemma map_sum_Inr: "map_sum id f x = Inr u \<Longrightarrow> \<exists>v. x = Inr v \<and> u = f v"
  by (cases x) auto

text \<open>Every part a plan holds is of the type of its source.\<close>

lemma mock_parts:
  assumes "t \<in> set (fst (mock_split s))" "sl_type s = ''MockSource''"
  shows "part_of mock_signature s t"
proof -
  obtain batch cs where "t \<in> set (fst (plan_each (mock_part batch) cs))"
    using assms(1) by (auto simp: mock_split_def Let_def split: sum.splits)
  then show ?thesis
  proof (rule parts_built)
    fix x u assume "mock_part batch x = Inr u"
    then show "part_of mock_signature s u"
      using new_source_stored [of "''MockSource''" mock_signature _ u "\<lambda>_. True"] assms(2)
      by (auto simp: mock_part_def part_of_def builtin_sources_def)
  qed
qed

lemma sql_parts:
  assumes "sql_split D render s params = Some (ss, e)" "t \<in> set ss" "part_of sql_signature s s" "sl_type s = ''SqlSource''"
  shows "part_of sql_signature s t"
proof -
  have own: "distinct (dkeys (sl_config s))"
    using assms(3) by (auto simp: part_of_def stored_def)
  have "part_of sql_signature s (sql_window (sl_config s) c col q batch w)" for c col q batch w
  proof -
    let ?A = "[(''connection_url'', dget_or c ''connection_url'' PNone), (''query'', PStr (window_query col q (fst w) (snd w))),
      (''id_column'', PNone), (''time_column'', dget_or c ''time_column'' PNone), (''batch_size'', batch)]"
    have "distinct (dkeys (?A @ engine_kwargs (sl_config s)))"
      using own by (auto simp: engine_kwargs_def dkeys_def dfilter_def distinct_map_filter)
    then have "stored sql_signature (?A @ engine_kwargs (sl_config s))"
      unfolding stored_def by (intro exI [of _ ?A] exI [of _ "engine_kwargs (sl_config s)"])
        (simp add: sql_signature_def sg_names_def as_given_def)
    from stored_dset [OF this, of "''slice''"] show ?thesis
      unfolding sql_window_def part_of_def slice.simps
      by (simp only: assms(4)) (simp add: sql_signature_def sg_names_def)
  qed
  then show ?thesis
    using assms(1-3) by (auto simp: sql_split_def Let_def split: sum.splits option.splits if_splits)
qed

lemma s3_parts:
  assumes "t \<in> set (fst (s3_split S render s params))" "sl_type s = ''S3Source''"
  shows "part_of s3_signature s t"
proof -
  obtain c page pss where "t \<in> set (fst (plan_each (s3_part c page) pss))"
    using assms(1) by (auto simp: s3_split_def Let_def split: sum.splits prod.splits) (metis fst_conv)
  then show ?thesis
  proof (rule parts_built)
    fix x u assume "s3_part c page x = Inr u"
    then obtain v where v: "new_source ''S3Source'' s3_signature
        (map (\<lambda>k. (k, if k = ''page_size'' then page else dget_or c k PNone)) (sg_names s3_signature)) = Inr v"
      "u = v\<lparr>sl_config := dset (sl_config v) ''keys'' (PList (map PStr x))\<rparr>"
      by (auto simp: s3_part_def split: sum.splits)
    have "part_of s3_signature s v"
      by (rule new_source_part [OF v(1), of "\<lambda>_. True"]) (simp_all add: builtin_sources_def assms(2))
    then show "part_of s3_signature s u"
      unfolding v(2) by (rule part_dset) (simp_all add: s3_signature_def sg_names_def)
  qed
qed

lemma api_parts:
  assumes "t \<in> set (fst (api_split s params))" "part_of api_signature s s" "sl_type s = ''IDBasedAPISource''"
  shows "part_of api_signature s t"
proof (cases "is_per_id_mode s")
  case True
  then obtain xss where "t \<in> set (fst (plan_each (api_part s) xss))"
    using assms(1) by (auto simp: api_split_def split: sum.splits)
  then show ?thesis
  proof (rule parts_built)
    fix x u assume "api_part s x = Inr u"
    then show "part_of api_signature s u"
      unfolding api_part_def
      by (rule new_source_part [where installed = "\<lambda>_. True"]) (simp_all add: builtin_sources_def assms(3))
  qed
qed (use assms in \<open>simp add: api_split_def whole_split_def\<close>)

lemma sub_source_part:
  assumes "sub_source E c = Inr u" "sl_type s = ''ElasticSource''"
  shows "part_of elastic_signature s u"
  using assms(1) unfolding sub_source_def
  by (rule new_source_part [where installed = "\<lambda>_. True"]) (simp_all add: builtin_sources_def assms(2))

lemma with_setting_part:
  assumes "part_of elastic_signature s u" "k \<in> {''window'', ''pit_id'', ''slice'', ''composite_page''}"
  shows "part_of elastic_signature s (with_setting k v u)"
  unfolding with_setting_def using assms
  by (intro part_dset) (auto simp: elastic_signature_def sg_names_def)

lemma composite_parts:
  assumes "split_composite E c path page body cursor = Some p" "sl_type s = ''ElasticSource''"
  shows "\<forall>t \<in> set (fst p). part_of elastic_signature s t"
proof (rule split_composite.raw_induct
    [where P = "\<lambda>_ _ _ _ _ _ p. \<forall>t \<in> set (fst p). part_of elastic_signature s t", OF _ assms(1)])
  fix plan E c path page body cursor p
  assume IH: "\<And>E c path page body cursor p. plan E c path page body cursor = Some p \<Longrightarrow>
      \<forall>t \<in> set (fst p). part_of elastic_signature s t"
    and p: "(case composite_page E c body path of
        Inl e \<Rightarrow> Some ([], Some e)
      | Inr (buckets, after_key) \<Rightarrow>
          if buckets = [] then Some ([], None)
          else case sub_source E c of
              Inl e \<Rightarrow> Some ([], Some e)
            | Inr sub \<Rightarrow>
                (let s = with_setting ''composite_page'' (PDict [(''after'', cursor), (''size'', PInt page)]) sub
                 in if int (length buckets) < page \<or> \<not> truthy after_key then Some ([s], None)
                    else Option.bind (plan E c path page (set_after path after_key body) after_key)
                      (\<lambda>p. Some (s # fst p, snd p)))) = Some p"
  have sub: "part_of elastic_signature s (with_setting ''composite_page'' v u)" if "sub_source E c = Inr u" for u v
    by (rule with_setting_part [OF sub_source_part [OF that assms(2)]]) simp
  show "\<forall>t \<in> set (fst p). part_of elastic_signature s t"
    using p sub IH by (fastforce simp: Let_def bind_eq_Some_conv split: sum.splits prod.splits if_splits)
qed

lemma elastic_parts:
  assumes "elastic_split E render s params = Some (ss, e)" "t \<in> set ss" "part_of elastic_signature s s" "sl_type s = ''ElasticSource''"
  shows "part_of elastic_signature s t"
proof -
  note sub = sub_source_part [OF _ assms(4)]
  have range: "part_of elastic_signature s u" if "u \<in> set (fst (plan_each (range_window E c field order) ws))" for c field order ws u
    using that by (rule parts_built)
      (auto simp: range_window_def intro: with_setting_part sub split: sum.splits dest!: map_sum_Inr)
  have snapshot: "part_of elastic_signature s u" if "u \<in> set (fst (plan_each (snapshot_window E c pit w) cs))" for c pit w cs u
    using that by (rule parts_built) (auto simp: snapshot_window_def intro!: with_setting_part intro: sub dest!: map_sum_Inr)
  have hash: "part_of elastic_signature s u" if "u \<in> set (fst (plan_each (hash_slice E c pit n) is))" for c pit n "is" u
    using that by (rule parts_built) (auto simp: hash_slice_def intro!: with_setting_part intro: sub dest!: map_sum_Inr)
  have whole: "part_of elastic_signature s t" if "ss = [s]" using assms(2,3) that by simp
  have nonempty: "ss \<noteq> []" using assms(2) by auto
  have windows: "part_of elastic_signature s t" if "split_range_windows E s c n = Some (ss, e)" for c n
  proof -
    have "ss = [s] \<or> (\<exists>field order ws. plan_each (range_window E c field order) ws = (ss, e))"
      using that nonempty unfolding split_range_windows_def whole_split_def
      by (auto simp: bind_eq_Some_conv split: sum.splits if_splits; metis sum.exhaust)
    then show ?thesis using whole range assms(2) by (metis fst_conv)
  qed
  have snapshots: "part_of elastic_signature s t" if "split_snapshot_windows E s c n = Some (ss, e)" for c n
  proof -
    have "ss = [s] \<or> (\<exists>pit w cs. plan_each (snapshot_window E c pit w) cs = (ss, e))"
      using that nonempty unfolding split_snapshot_windows_def whole_split_def
      by (auto simp: bind_eq_Some_conv split: sum.splits if_splits; metis sum.exhaust)
    then show ?thesis using whole snapshot assms(2) by (metis fst_conv)
  qed
  have slices: "part_of elastic_signature s t" if "split_slices_of E s c = (ss, e)" for c
  proof -
    have "ss = [s] \<or> (\<exists>pit n is. plan_each (hash_slice E c pit n) is = (ss, e))"
      using that nonempty unfolding split_slices_of_def whole_split_def
      by (auto split: sum.splits if_splits)
    then show ?thesis using whole hash assms(2) by (metis fst_conv)
  qed
  have pages: "part_of elastic_signature s t" if "split_composite E c path page body cursor = Some (ss, e)" for c path page body cursor
    using composite_parts [OF that assms(4)] assms(2) by simp
  obtain c where "ss = [s] \<or> (\<exists>path page body cursor. split_composite E c path page body cursor = Some (ss, e))
      \<or> (\<exists>n. split_range_windows E s c n = Some (ss, e)) \<or> (\<exists>n. split_snapshot_windows E s c n = Some (ss, e))
      \<or> split_slices_of E s c = (ss, e)"
  proof (cases "resolve_parameters render s params")
    case (Inr c0)
    define c where "c = (if c0 = [] then sl_config s else c0)"
    show ?thesis
      using assms(1) nonempty unfolding elastic_split_def Inr sum.case Let_def c_def [symmetric] whole_split_def
      by (cases "composite_path (dget_or c ''base_query'' PNone)"; cases "int_or c ''num_slices'' 1"; cases "int_or c ''docs_per_job'' 0";
          cases "count_documents E c")
        (auto split: option.splits if_splits intro!: that [of c])
  qed (use assms(1) nonempty in \<open>simp add: elastic_split_def\<close>)
  then show ?thesis using whole windows snapshots slices pages by blast
qed

lemma split_parts:
  assumes "(sl_type s, g) \<in> set (builtin_sources installed)" "part_of g s s"
    and "split_source C s params = Some (ss, e)" "t \<in> set ss"
  shows "part_of g s t"
  using assms(1)
proof (cases rule: builtin_cases)
  case static
  then show ?thesis using assms(2-4) by (auto simp: split_source_def static_split_def split: if_splits)
next
  case mock
  then show ?thesis using assms(3,4) mock_parts [of t s] by (simp add: split_source_def)
next
  case elastic
  then show ?thesis
    using assms(2,3) elastic_parts [OF _ assms(4), of "cn_elastic C" "cn_render C" s params] by (simp add: split_source_def)
next
  case sql
  then show ?thesis
    using assms(2,3) sql_parts [OF _ assms(4), of "cn_database C" "cn_render C" s params] by (simp add: split_source_def)
next
  case s3
  then show ?thesis using assms(3,4) s3_parts [of t "cn_s3 C" "cn_render C" s params] by (simp add: split_source_def)
next
  case api
  then show ?thesis using assms(2-4) api_parts [of t s params] by (simp add: split_source_def)
qed

lemma rebuild_part:
  assumes "(sl_type s, g) \<in> set (builtin_sources installed)" "part_of g s t"
  shows "rebuild_source installed (sl_type t) (sl_config t) = Inr t"
proof -
  have "map_of (builtin_sources installed) (sl_type t) = Some g"
    using assms builtin_distinct by (simp add: part_of_def)
  moreover have "new_source (sl_type t) g (sl_config t) = Inr t"
    using assms(2) by (simp add: part_of_def new_source_def construct_stored)
  ultimately show ?thesis by (simp add: rebuild_source_def create_source_def)
qed

text \<open>The descriptor crosses the message unchanged when the config holds JSON values.\<close>

lemma message_source_built:
  assumes "json_value (PDict (sl_config t))"
  shows "message_source (serialize_for_json (build_job_payload inject eid jid name t metadata dedup job_params)) =
    Some (sl_type t, sl_config t)"
proof -
  have "to_json_safe (PDict (sl_config t)) = PDict (sl_config t)" by (rule to_json_safe_id [OF assms])
  then show ?thesis
    by (simp add: message_source_def serialize_for_json_def build_job_payload_def serialize_def del: to_json_safe.simps(3))
       (simp add: message_source_def)
qed

section \<open>Properties\<close>


text \<open>Connectors whose services answer nothing.\<close>

definition no_connectors :: connectors where
  "no_connectors =
     \<lparr>cn_render = (\<lambda>t _. Inr t), cn_database = (\<lambda>_ _. Inr []),
      cn_s3 = \<lparr>ss_list = (\<lambda>_ _ _. ([], None)), ss_get = (\<lambda>_ _. Inl []), ss_json = (\<lambda>_. Inr PNone), ss_csv = (\<lambda>_. Inr PNone),
        ss_text = (\<lambda>_. Inr PNone)\<rparr>,
      cn_http = \<lparr>ha_request = (\<lambda>_. RequestFailed []), ha_str = (\<lambda>_. []), ha_field = (\<lambda>_ _. Inr [])\<rparr>,
      cn_elastic = cluster []\<rparr>"

definition some_keywords :: pydict where
  "some_keywords = [(''data'', PList [PInt 1, PInt 2, PInt 3]), (''batch_size'', PInt 2)]"

definition some_mock :: "pyval list \<Rightarrow> slice" where
  "some_mock xs = \<lparr>sl_type = ''MockSource'', sl_config = [(''data'', PList xs), (''batch_size'', PInt 2)], sl_params = None\<rparr>"


end
