(* ===== verification/SourceJobs.thy ===== *)
theory SourceJobs
  imports Connectors
begin

text \<open>
  The other reading interface of the sources (\<open>sources/\<close>): \<open>split_jobs\<close>, a generator of jobs that
  hold their records, and \<open>health_check\<close>. A generator is what it yields and the error that ends
  it; one that pages until a service has no more is a partial function. The lemmas relate it to
  \<open>fetch\<close>: the jobs hold, in order, the records a fetch reads.
\<close>

subsection \<open>Jobs\<close>

record source_job =
  sj_records :: "pyval list"
  sj_metadata :: pydict

type_synonym yielded = "source_job list \<times> py_error option"

definition size_entry :: "string \<Rightarrow> 'a list \<Rightarrow> string \<times> pyval" where
  "size_entry k xs = (k, PInt (int (length xs)))"

text \<open>A loop that yields at most one job per element; the number counts the elements.\<close>

fun yield_each :: "(nat \<Rightarrow> 'a \<Rightarrow> py_error + source_job option) \<Rightarrow> nat \<Rightarrow> 'a list \<Rightarrow> yielded" where
  "yield_each f n [] = ([], None)"
| "yield_each f n (x # xs) =
     (case f n x of
        Inl e \<Rightarrow> ([], Some e)
      | Inr None \<Rightarrow> yield_each f (Suc n) xs
      | Inr (Some j) \<Rightarrow> (case yield_each f (Suc n) xs of (js, e) \<Rightarrow> (j # js, e)))"

subsection \<open>In memory\<close>

definition static_jobs :: "slice \<Rightarrow> yielded" where
  "static_jobs s =
     (case items_of (dget_or (sl_config s) ''records'' PNone) of
        Inl e \<Rightarrow> ([], Some e)
      | Inr rs \<Rightarrow> ([\<lparr>sj_records = rs, sj_metadata = [size_entry ''count'' rs]\<rparr>], None))"

definition mock_jobs :: "slice \<Rightarrow> pyval \<Rightarrow> yielded" where
  "mock_jobs s batch_size =
     (case items_of (dget_or (sl_config s) ''data'' PNone) of
        Inl e \<Rightarrow> ([], Some e)
      | Inr xs \<Rightarrow>
          (case range_chunks (dget_or (sl_config s) ''batch_size'' batch_size) xs of
             Inl e \<Rightarrow> ([], Some e)
           | Inr cs \<Rightarrow> yield_each (\<lambda>n c. Inr (Some \<lparr>sj_records = map wrap_as_record c,
               sj_metadata = [(''batch_num'', PInt (int n)), size_entry ''count'' c]\<rparr>)) 0 cs))"

subsection \<open>SQL\<close>

definition split_error :: "string \<Rightarrow> py_error" where
  "split_error m = source_error ''sql'' (''Failed to split jobs: '' @ m)"

definition row_record :: "pydict \<Rightarrow> pyval" where
  "row_record row = wrap_as_record (PDict row)"

definition offset_query :: "string \<Rightarrow> int \<Rightarrow> int \<Rightarrow> string" where
  "offset_query q b offset = q @ '' LIMIT '' @ int_text b @ '' OFFSET '' @ int_text offset"

text \<open>Pages by offset, until one is empty or short.\<close>

partial_function (option) split_by_offset ::
  "(string \<Rightarrow> string + pydict list) \<Rightarrow> string \<Rightarrow> int \<Rightarrow> int \<Rightarrow> nat \<Rightarrow> yielded option" where
  "split_by_offset run q b offset n =
     (case run (offset_query q b offset) of
        Inl m \<Rightarrow> Some ([], Some (split_error m))
      | Inr rows \<Rightarrow>
          if rows = [] then Some ([], None)
          else
            (let j = \<lparr>sj_records = map row_record rows,
                   sj_metadata = [(''offset'', PInt offset), (''page_num'', PInt (int n)), size_entry ''count'' rows]\<rparr>
             in if int (length rows) < b then Some ([j], None)
                else Option.bind (split_by_offset run q b (offset + b) (Suc n)) (\<lambda>y. Some (j # fst y, snd y))))"

definition id_bounds_query :: "string \<Rightarrow> string \<Rightarrow> string" where
  "id_bounds_query col q =
     ''SELECT MIN('' @ col @ '') as min_id, MAX('' @ col @ '') as max_id FROM ('' @ q @ '') as subquery''"

text \<open>A line break and as many blanks.\<close>

definition new_line :: "nat \<Rightarrow> string" where
  "new_line n = CHR 0x0A # replicate n CHR '' ''"

definition id_range_query :: "string \<Rightarrow> string \<Rightarrow> int \<Rightarrow> int \<Rightarrow> string" where
  "id_range_query col q a b =
     new_line 20 @ ''SELECT * FROM ('' @ q @ '') as subquery'' @
     new_line 20 @ ''WHERE '' @ col @ '' >= '' @ int_text a @ '' AND '' @ col @ '' < '' @ int_text b @ new_line 16"

text \<open>Ranges of an id column of integers; a range without rows yields no job.\<close>

partial_function (option) split_by_id_range ::
  "(string \<Rightarrow> string + pydict list) \<Rightarrow> string \<Rightarrow> string \<Rightarrow> int \<Rightarrow> int \<Rightarrow> int \<Rightarrow> nat \<Rightarrow> yielded option" where
  "split_by_id_range run q col b cur hi n =
     (if hi < cur then Some ([], None)
      else case run (id_range_query col q cur (cur + b)) of
          Inl m \<Rightarrow> Some ([], Some (split_error m))
        | Inr rows \<Rightarrow>
            Option.bind (split_by_id_range run q col b (cur + b) hi (Suc n)) (\<lambda>y.
              Some ((if rows = [] then []
                 else [\<lparr>sj_records = map row_record rows,
                   sj_metadata = [(''id_range'', PDict [(''start'', PInt cur), (''end'', PInt (cur + b))]),
                     (''page_num'', PInt (int n)), size_entry ''count'' rows]\<rparr>]) @ fst y, snd y)))"

definition sql_jobs :: "database \<Rightarrow> render \<Rightarrow> slice \<Rightarrow> pydict \<Rightarrow> pyval \<Rightarrow> yielded option" where
  "sql_jobs D render s params batch_size =
     (case resolve_parameters render s params of
        Inl e \<Rightarrow> Some ([], Some e)
      | Inr c \<Rightarrow>
          (let run = D (dget_or (sl_config s) ''connection_url'' PNone); id_column = dget_or c ''id_column'' PNone
           in case (sql_text (dget_or c ''query'' PNone), count_of_rows (dget_or c ''batch_size'' batch_size)) of
             (Inr q, Inr b) \<Rightarrow>
               if \<not> truthy id_column then split_by_offset run q b 0 0
               else (case sql_text id_column of
                   Inl e \<Rightarrow> Some ([], Some e)
                 | Inr col \<Rightarrow>
                     (case run (id_bounds_query col q) of
                        Inl m \<Rightarrow> Some ([], Some (split_error m))
                      | Inr (((_, lo) # (_, hi) # _) # _) \<Rightarrow>
                          if lo = PNone then Some ([], None)
                          else (case (lo, hi) of
                              (PInt a, PInt z) \<Rightarrow> split_by_id_range run q col b a z 0
                            | _ \<Rightarrow> Some ([], Some (TypeError ''unsupported operand type(s) for +'')))
                      | Inr _ \<Rightarrow> Some ([], None)))
           | (Inl e, _) \<Rightarrow> Some ([], Some e)
           | (_, Inl e) \<Rightarrow> Some ([], Some e)))"

subsection \<open>S3\<close>

text \<open>A page of the listing: its objects that match the pattern, read one after the other.\<close>

definition s3_page_job ::
  "s3_service \<Rightarrow> slice \<Rightarrow> pydict \<Rightarrow> nat \<Rightarrow> s3_object list \<Rightarrow> py_error + source_job option" where
  "s3_page_job S s c n obs =
     (case sequence (map (read_listed S s (truthy (dget_or c ''read_content'' PNone))) obs) of
        Inl e \<Rightarrow> Inl e
      | Inr rss \<Rightarrow> Inr (Some \<lparr>sj_records = concat rss,
          sj_metadata = [(''page_num'', PInt (int n)), (''bucket'', dget_or c ''bucket'' PNone), (''prefix'', dget_or c ''prefix'' PNone),
            size_entry ''object_count'' obs, size_entry ''record_count'' (concat rss)]\<rparr>))"

definition s3_jobs :: "s3_service \<Rightarrow> render \<Rightarrow> slice \<Rightarrow> pydict \<Rightarrow> pyval \<Rightarrow> yielded" where
  "s3_jobs S render s params batch_size =
     (case resolve_parameters render s params of
        Inl e \<Rightarrow> ([], Some e)
      | Inr c \<Rightarrow>
          (case ss_list S (dget_or c ''bucket'' PNone) (dget_or c ''prefix'' PNone) (dget_or c ''page_size'' batch_size) of (pages, failure) \<Rightarrow>
           case yield_each (s3_page_job S s c) 0
               (filter (\<lambda>obs. obs \<noteq> []) (map (filter (\<lambda>ob. matches_pattern s (ob_key ob))) pages)) of (js, e) \<Rightarrow>
           (js, case e of Some x \<Rightarrow> Some x
                | None \<Rightarrow> map_option (\<lambda>m. source_error ''s3'' (''Failed to split jobs: '' @ m)) failure)))"

subsection \<open>Elasticsearch\<close>

definition scroll_failure :: "es_error \<Rightarrow> py_error" where
  "scroll_failure e = (case e of
     ApiError m \<Rightarrow> es_failure (''Failed to split jobs: '' @ m) | TransportError m \<Rightarrow> OtherError ''TransportError'' m)"

text \<open>One job per page of the scroll; \<open>sid n\<close> is the text of the scroll id that came with page \<open>n\<close>.\<close>

partial_function (option) scroll_jobs ::
  "(nat \<Rightarrow> es_error + pydict list) \<Rightarrow> (nat \<Rightarrow> string) \<Rightarrow> nat \<Rightarrow> yielded option" where
  "scroll_jobs pages sid n =
     (case pages n of
        Inl e \<Rightarrow> Some ([], Some (scroll_failure e))
      | Inr hits \<Rightarrow>
          if hits = [] then Some ([], None)
          else Option.bind (scroll_jobs pages sid (Suc n)) (\<lambda>y. Some
            (\<lparr>sj_records = map hit_record hits,
               sj_metadata = [(''scroll_id'', PStr (sid n)), (''page_num'', PInt (int n)), size_entry ''count'' hits]\<rparr> # fst y, snd y)))"

definition elastic_jobs :: "elastic \<Rightarrow> (nat \<Rightarrow> string) \<Rightarrow> render \<Rightarrow> slice \<Rightarrow> pydict \<Rightarrow> pyval \<Rightarrow> yielded option" where
  "elastic_jobs E sid render s params batch_size =
     (case resolve_parameters render s params of
        Inl e \<Rightarrow> Some ([], Some e)
      | Inr c \<Rightarrow>
          map_option (\<lambda>y. (fst y, case snd y of Some e \<Rightarrow> Some e | None \<Rightarrow> map_option scroll_failure (el_clear_scroll E)))
            (scroll_jobs (el_scroll E (dget_or c ''index'' PNone) (dget_or c ''base_query'' PNone) (dget_or c ''scroll'' PNone)
              (dget_or c ''size'' batch_size)) sid 0))"

subsection \<open>HTTP APIs\<close>

text \<open>\<open>check\<close> is the schema of the config: its objection, or the batch size it read.\<close>

definition api_jobs ::
  "http_api \<Rightarrow> (pydict \<Rightarrow> string + int) \<Rightarrow> render \<Rightarrow> slice \<Rightarrow> pydict \<Rightarrow> yielded" where
  "api_jobs A check render s params =
     (case resolve_parameters render s params of
        Inl e \<Rightarrow> ([], Some e)
      | Inr c \<Rightarrow>
          (case check c of
             Inl m \<Rightarrow> ([], Some (source_error ''id_based_api'' (''Invalid configuration: '' @ m)))
           | Inr b \<Rightarrow>
               (case items_of (all_ids s params) of
                  Inl e \<Rightarrow> ([], Some e)
                | Inr xs \<Rightarrow>
                    if \<not> is_per_id_mode s
                    then (case fetch_batch A s of
                        Inl e \<Rightarrow> ([], Some e)
                      | Inr rs \<Rightarrow>
                          (case range_chunks (PInt b) rs of
                             Inl e \<Rightarrow> ([], Some e)
                           | Inr cs \<Rightarrow> yield_each (\<lambda>n c. Inr (Some \<lparr>sj_records = c,
                               sj_metadata = [(''batch_num'', PInt (int n)), size_entry ''record_count'' c, size_entry ''ids_count'' xs]\<rparr>)) 0 cs))
                    else (case range_chunks (PInt b) xs of
                        Inl e \<Rightarrow> ([], Some e)
                      | Inr cs \<Rightarrow> yield_each (\<lambda>n c. case sequence (map (fetch_id_record A s) c) of
                            Inl e \<Rightarrow> Inl e
                          | Inr rss \<Rightarrow> Inr (if concat rss = [] then None else Some \<lparr>sj_records = concat rss,
                              sj_metadata = [(''batch_num'', PInt (int n)), size_entry ''id_count'' c,
                                size_entry ''record_count'' (concat rss), (''ids'', PList c)]\<rparr>)) 0 cs))))"

subsection \<open>Health\<close>

text \<open>What the services say to a probe: whether \<open>SELECT 1\<close> runs, the bucket's head is there, the
  status of the cluster (\<open>None\<close>: the call raised), the answer to \<open>HEAD /\<close>.\<close>

record probes =
  pb_select :: bool
  pb_bucket :: bool
  pb_cluster :: "string option"
  pb_head :: http_result

definition elastic_health :: "probes \<Rightarrow> bool" where
  "elastic_health P = (case pb_cluster P of None \<Rightarrow> False | Some st \<Rightarrow> st \<in> {''green'', ''yellow''})"

definition api_source_health :: "probes \<Rightarrow> slice \<Rightarrow> bool" where
  "api_source_health P s =
     (\<not> truthy (dget_or (sl_config s) ''health_check_enabled'' (PBool True)) \<or>
      (case pb_head P of RequestFailed m \<Rightarrow> False | Response code txt json \<Rightarrow> code < 500))"

text \<open>The health check of a source of any built-in type; a source in memory is always healthy.\<close>

definition source_health :: "probes \<Rightarrow> slice \<Rightarrow> bool" where
  "source_health P s =
     (if sl_type s = ''SqlSource'' then pb_select P
      else if sl_type s = ''S3Source'' then pb_bucket P
      else if sl_type s = ''ElasticSource'' then elastic_health P
      else if sl_type s = ''IDBasedAPISource'' then api_source_health P s
      else True)"

subsection \<open>The jobs hold what a fetch reads\<close>

definition job_records :: "yielded \<Rightarrow> pyval list" where
  "job_records y = concat (map sj_records (fst y))"

lemma yield_each_reads:
  assumes "\<And>n x. x \<in> set xs \<Longrightarrow> \<exists>j. f n x = Inr j \<and> (case j of None \<Rightarrow> [] | Some j \<Rightarrow> sj_records j) = g x"
  shows "snd (yield_each f n xs) = None \<and> job_records (yield_each f n xs) = concat (map g xs)"
  using assms
proof (induction xs arbitrary: n)
  case (Cons x xs)
  obtain j where j: "f n x = Inr j" "(case j of None \<Rightarrow> [] | Some j \<Rightarrow> sj_records j) = g x" using Cons.prems by force
  have "snd (yield_each f (Suc n) xs) = None \<and> job_records (yield_each f (Suc n) xs) = concat (map g xs)"
    by (rule Cons.IH) (rule Cons.prems, simp)
  then show ?case using j by (cases j; cases "yield_each f (Suc n) xs") (auto simp: job_records_def)
qed (simp add: job_records_def)

lemma mock_jobs_read:
  assumes "mock_can_shard s" "mock_fetch s None = Inr rs"
  shows "snd (mock_jobs s b) = None \<and> job_records (mock_jobs s b) = rs"
proof -
  obtain xs n where s: "dget (sl_config s) ''data'' = Some (PList xs)" "dget (sl_config s) ''batch_size'' = Some (PInt n)" "0 < n"
    using assms(1) by (auto simp: mock_can_shard_def split: option.splits pyval.splits)
  have rs: "rs = map wrap_as_record xs" using assms(2) s by (simp add: mock_fetch_def dget_or_def items_of_def up_to_def)
  let ?cs = "chunks (nat n) xs"
  let ?f = "\<lambda>n c. Inr (Some \<lparr>sj_records = map wrap_as_record c, sj_metadata = [(''batch_num'', PInt (int n)), size_entry ''count'' c]\<rparr>)"
  have "mock_jobs s b = yield_each ?f 0 ?cs"
    using s by (simp add: mock_jobs_def dget_or_def items_of_def range_chunks_def)
  moreover have "snd (yield_each ?f 0 ?cs) = None \<and> job_records (yield_each ?f 0 ?cs) = concat (map (map wrap_as_record) ?cs)"
    by (rule yield_each_reads) simp
  moreover have "concat (map (map wrap_as_record) ?cs) = rs" using s(3) rs by (simp add: map_concat [symmetric])
  ultimately show ?thesis by simp
qed

lemma api_jobs_read:
  assumes "api_fetch A render s params None = Inr rs" "resolve_parameters render s params = Inr c" "check c = Inr b" "0 < b"
  shows "snd (api_jobs A check render s params) = None \<and> job_records (api_jobs A check render s params) = rs"
proof -
  obtain xs where xs: "items_of (all_ids s params) = Inr xs"
    using assms(1,2) by (auto simp: api_fetch_def split: sum.splits)
  show ?thesis
  proof (cases "is_per_id_mode s")
    case False
    let ?f = "\<lambda>n c. Inr (Some \<lparr>sj_records = c,
      sj_metadata = [(''batch_num'', PInt (int n)), size_entry ''record_count'' c, size_entry ''ids_count'' xs]\<rparr>)"
    have rs: "fetch_batch A s = Inr rs" using assms(1,2) xs False by (simp add: api_fetch_def)
    have "snd (yield_each ?f 0 (chunks (nat b) rs)) = None \<and>
        job_records (yield_each ?f 0 (chunks (nat b) rs)) = concat (map id (chunks (nat b) rs))"
      by (rule yield_each_reads) simp
    then show ?thesis using assms(2-4) xs False rs by (simp add: api_jobs_def range_chunks_def)
  next
    case True
    let ?read = "\<lambda>c. map_sum id concat (sequence (map (fetch_id_record A s) c))"
    let ?f = "\<lambda>n c. case sequence (map (fetch_id_record A s) c) of
        Inl e \<Rightarrow> Inl e
      | Inr rss \<Rightarrow> Inr (if concat rss = [] then None else Some \<lparr>sj_records = concat rss,
          sj_metadata = [(''batch_num'', PInt (int n)), size_entry ''id_count'' c, size_entry ''record_count'' (concat rss), (''ids'', PList c)]\<rparr>)"
    obtain rss where rss: "sequence (map (fetch_id_record A s) (concat (chunks (nat b) xs))) = Inr rss" "rs = concat rss"
      using assms(1,2,4) xs True by (auto simp: api_fetch_def up_to_def map_sum_def split: sum.splits)
    obtain yss where yss: "map ?read (chunks (nat b) xs) = map Inr yss" "concat yss = rs"
      using sequence_parts [OF rss(1)] rss(2) by auto
    have "snd (yield_each ?f 0 (chunks (nat b) xs)) = None \<and>
        job_records (yield_each ?f 0 (chunks (nat b) xs)) = concat (map (\<lambda>c. projr (?read c)) (chunks (nat b) xs))"
    proof (rule yield_each_reads)
      fix n c assume "c \<in> set (chunks (nat b) xs)"
      then have "?read c \<in> set (map Inr yss)" unfolding yss(1) [symmetric] by simp
      then obtain ys where "?read c = Inr ys" by auto
      then show "\<exists>j. ?f n c = Inr j \<and> (case j of None \<Rightarrow> [] | Some j \<Rightarrow> sj_records j) = projr (?read c)"
        by (auto split: sum.splits)
    qed
    moreover have "map (\<lambda>c. projr (?read c)) (chunks (nat b) xs) = yss"
      using arg_cong [OF yss(1), of "map projr"] by (simp add: comp_def)
    ultimately show ?thesis using assms(2-4) xs True yss(2) by (simp add: api_jobs_def range_chunks_def)
  qed
qed

lemma s3_jobs_read:
  assumes "s3_can_shard S s" "s3_fetch S render s params None = Inr rs"
  shows "snd (s3_jobs S render s params b) = None \<and> job_records (s3_jobs S render s params b) = rs"
proof -
  let ?c = "sl_config s"
  obtain n obs where s: "plain (PDict ?c)" "\<not> truthy (setting s ''keys'')" "truthy (setting s ''read_content'')"
      "setting s ''page_size'' = PInt n" "lists S s obs"
    using assms(1) by (auto simp: s3_can_shard_def)
  let ?page = "\<lambda>v. ss_list S (setting s ''bucket'') (setting s ''prefix'') (PInt v)"
  obtain pages where first: "?page 1000 = (pages, None)" "concat pages = obs"
    using s(5) by (cases "?page 1000") (auto simp: lists_def dest: spec [where x = 1000])
  obtain ps where ps: "?page n = (ps, None)" "concat ps = obs"
    using s(5) by (cases "?page n") (auto simp: lists_def dest: spec [where x = n])
  let ?match = "\<lambda>ob. matches_pattern s (ob_key ob)"
  let ?oss = "filter (\<lambda>obs. obs \<noteq> []) (map (filter ?match) ps)"
  have "concat (filter (\<lambda>x. x \<noteq> []) xss) = concat xss" for xss :: "s3_object list list" by (induction xss) auto
  then have oss: "concat ?oss = filter ?match obs" unfolding ps(2) [symmetric] by (simp add: filter_concat)
  have "map_sum id fst (read_each (read_listed S s True) None [] obs) = Inr rs"
    using assms(2) s(2,3) first
    by (simp add: s3_fetch_def resolve_plain_config [OF s(1)] setting_def [symmetric] map_sum_def split: sum.splits prod.splits)
  then have "map_sum id concat (sequence (map (read_listed S s True) obs)) = Inr rs" unfolding read_each_concat .
  moreover have "map_sum id concat (sequence (map (read_listed S s True) obs)) =
      map_sum id concat (sequence (map (read_listed S s True) (filter ?match obs)))"
    by (rule sequence_skip) (simp add: read_listed_def)
  ultimately obtain rss where rss: "sequence (map (read_listed S s True) (concat ?oss)) = Inr rss" "rs = concat rss"
    unfolding oss by (auto simp: map_sum_def split: sum.splits)
  let ?read = "\<lambda>c. map_sum id concat (sequence (map (read_listed S s True) c))"
  obtain yss where yss: "map ?read ?oss = map Inr yss" "concat yss = rs"
    using sequence_parts [OF rss(1)] rss(2) by auto
  have content: "truthy (dget_or ?c ''read_content'' PNone) = True" using s(3) by (simp add: setting_def)
  have "snd (yield_each (s3_page_job S s ?c) 0 ?oss) = None \<and>
      job_records (yield_each (s3_page_job S s ?c) 0 ?oss) = concat (map (\<lambda>c. projr (?read c)) ?oss)"
  proof (rule yield_each_reads)
    fix k c assume "c \<in> set ?oss"
    then have "?read c \<in> set (map Inr yss)" unfolding yss(1) [symmetric] unfolding set_map by (rule imageI)
    then obtain ys where "?read c = Inr ys" by auto
    then show "\<exists>j. s3_page_job S s ?c k c = Inr j \<and> (case j of None \<Rightarrow> [] | Some j \<Rightarrow> sj_records j) = projr (?read c)"
      unfolding s3_page_job_def content by (auto split: sum.splits)
  qed
  moreover have "map (\<lambda>c. projr (?read c)) ?oss = yss"
    using arg_cong [OF yss(1), of "map projr"] by (simp add: comp_def)
  moreover have "dget_or ?c ''page_size'' b = PInt n"
    using s(4) by (simp add: setting_def dget_or_def split: option.splits)
  ultimately show ?thesis
    using ps(1) yss(2) by (auto simp: s3_jobs_def resolve_plain_config [OF s(1)] setting_def job_records_def split: prod.splits)
qed

text \<open>A scroll that a fetch reads to its end.\<close>

lemma scroll_jobs_read:
  assumes "scroll_hits pages None n acc = Some r" "r = Inr rs"
  shows "\<exists>js. scroll_jobs pages sid n = Some (js, None) \<and> acc @ concat (map sj_records js) = rs"
proof -
  have "\<forall>rs. limit = None \<longrightarrow> r = Inr rs \<longrightarrow> (\<exists>js. scroll_jobs pages sid n = Some (js, None) \<and> acc @ concat (map sj_records js) = rs)"
    if "scroll_hits pages limit n acc = Some r" for pages limit n acc r
  proof (rule scroll_hits.raw_induct [where P = "\<lambda>pages limit n acc r. \<forall>rs. limit = None \<longrightarrow> r = Inr rs \<longrightarrow>
      (\<exists>js. scroll_jobs pages sid n = Some (js, None) \<and> acc @ concat (map sj_records js) = rs)", OF _ that], intro allI impI)
    fix f :: "(nat \<Rightarrow> es_error + pydict list) \<Rightarrow> nat option \<Rightarrow> nat \<Rightarrow> pyval list \<Rightarrow> (py_error + pyval list) option"
    fix pages :: "nat \<Rightarrow> es_error + pydict list" and limit :: "nat option" and n acc r rs
    assume IH: "\<And>pages limit n acc r. f pages limit n acc = Some r \<Longrightarrow> \<forall>rs. limit = None \<longrightarrow> r = Inr rs \<longrightarrow>
        (\<exists>js. scroll_jobs pages sid n = Some (js, None) \<and> acc @ concat (map sj_records js) = rs)"
      and step: "(case pages n of
          Inl e \<Rightarrow> Some (Inl (fetch_failure e))
        | Inr hits \<Rightarrow>
            if hits = [] then Some (Inr acc)
            else if limit_reached limit (acc @ map hit_record hits) then Some (Inr (up_to limit (acc @ map hit_record hits)))
            else f pages limit (Suc n) (acc @ map hit_record hits)) = Some r" and none: "limit = None" and r: "r = Inr rs"
    show "\<exists>js. scroll_jobs pages sid n = Some (js, None) \<and> acc @ concat (map sj_records js) = rs"
    proof (cases "pages n")
      case (Inl e)
      then show ?thesis using step r by simp
    next
      case (Inr hits)
      show ?thesis
      proof (cases "hits = []")
        case True
        then show ?thesis using step r Inr by (simp add: scroll_jobs.simps)
      next
        case False
        then have "f pages limit (Suc n) (acc @ map hit_record hits) = Some r"
          using step Inr none by (simp add: limit_reached_def)
        then obtain js where "scroll_jobs pages sid (Suc n) = Some (js, None)" "(acc @ map hit_record hits) @ concat (map sj_records js) = rs"
          using IH none r by blast
        then show ?thesis using Inr False by (subst scroll_jobs.simps) simp
      qed
    qed
  qed
  then show ?thesis using assms by blast
qed

lemma elastic_jobs_read:
  assumes "resolve_parameters render s params = Inr c" "fetch_scroll E c None = Some (Inr rs)"
  shows "\<exists>js. elastic_jobs E sid render s params b = Some (js, None) \<and> concat (map sj_records js) = rs"
proof -
  obtain page where page: "dget_or c ''size'' PNone = PInt page"
    using assms(2) by (auto simp: fetch_scroll_def int_of_def split: pyval.splits)
  let ?pages = "el_scroll E (dget_or c ''index'' PNone) (dget_or c ''base_query'' PNone) (dget_or c ''scroll'' PNone) (PInt page)"
  obtain z where z: "scroll_hits ?pages None 0 [] = Some z"
    "(case z of Inl e \<Rightarrow> Inl e | Inr rs \<Rightarrow> (case el_clear_scroll E of None \<Rightarrow> Inr rs | Some e \<Rightarrow> Inl (fetch_failure e))) = Inr rs"
    using assms(2) by (auto simp: fetch_scroll_def int_of_def page)
  then have "scroll_hits ?pages None 0 [] = Some (Inr rs)" and clear: "el_clear_scroll E = None"
    by (cases z; cases "el_clear_scroll E"; simp)+
  then obtain js where "scroll_jobs ?pages sid 0 = Some (js, None)" "concat (map sj_records js) = rs"
    using scroll_jobs_read [of ?pages 0 "[]" "Inr rs" rs] by auto
  moreover have "dget_or c ''size'' b = PInt page" using page by (simp add: dget_or_def split: option.splits)
  ultimately show ?thesis using assms(1) clear by (simp add: elastic_jobs_def)
qed

text \<open>A database that honours \<open>LIMIT\<close> and \<open>OFFSET\<close> on a query with these rows: the pages give the
  rows in their order, each once, at most \<open>b\<close> at a time, and the paging ends.\<close>

lemma offset_jobs_read:
  assumes "0 < b" "\<And>k. run (offset_query q b (int k)) = Inr (take (nat b) (drop k rows))"
  shows "\<exists>js. split_by_offset run q b (int k) n = Some (js, None) \<and> concat (map sj_records js) = map row_record (drop k rows)
    \<and> list_all (\<lambda>j. sj_records j \<noteq> [] \<and> int (length (sj_records j)) \<le> b) js"
proof (induction "length rows - k" arbitrary: k n rule: less_induct)
  case less
  let ?page = "take (nat b) (drop k rows)"
  show ?case
  proof (cases "?page = []")
    case True
    then have "drop k rows = []" using assms(1) by (cases "drop k rows") (auto simp: take_Cons split: nat.splits)
    then show ?thesis using assms(2) True by (subst split_by_offset.simps) simp
  next
    case False
    show ?thesis
    proof (cases "int (length ?page) < b")
      case True
      then have "?page = drop k rows" using assms(1) by (simp add: min_def split: if_splits)
      then show ?thesis using assms(2) False True by (subst split_by_offset.simps) (auto simp: Let_def)
    next
      case full: False
      let ?k = "k + nat b"
      have "length rows - ?k < length rows - k" using False assms(1) by auto
      then obtain js where js: "split_by_offset run q b (int ?k) (Suc n) = Some (js, None)"
        "concat (map sj_records js) = map row_record (drop ?k rows)"
        "list_all (\<lambda>j. sj_records j \<noteq> [] \<and> int (length (sj_records j)) \<le> b) js"
        using less by blast
      have "int k + b = int ?k" using assms(1) by simp
      moreover have "?page @ drop ?k rows = drop k rows" by (metis add.commute append_take_drop_id drop_drop)
      then have "map row_record ?page @ map row_record (drop ?k rows) = map row_record (drop k rows)" by (metis map_append)
      ultimately show ?thesis
        using assms js False full by (subst split_by_offset.simps) (auto simp: Let_def)
    qed
  qed
qed

text \<open>Ranges of ids: where the windows of a plan end, so do they, and they hold the same rows.\<close>

lemma id_range_jobs_read:
  assumes "id_windows b cur hi = Some ws" "\<And>a z. (a, z) \<in> set ws \<Longrightarrow> run (id_range_query col q a z) = Inr (rows (a, z))"
  shows "\<exists>js. split_by_id_range run q col b cur hi n = Some (js, None)
    \<and> concat (map sj_records js) = concat (map (\<lambda>w. map row_record (rows w)) ws)"
proof -
  have "(\<forall>a z. (a, z) \<in> set ws \<longrightarrow> run (id_range_query col q a z) = Inr (rows (a, z))) \<longrightarrow>
      (\<forall>n. \<exists>js. split_by_id_range run q col b cur hi n = Some (js, None)
        \<and> concat (map sj_records js) = concat (map (\<lambda>w. map row_record (rows w)) ws))"
    if "id_windows b cur hi = Some ws" for b cur hi ws
  proof (rule id_windows.raw_induct [where P = "\<lambda>b cur hi ws. (\<forall>a z. (a, z) \<in> set ws \<longrightarrow> run (id_range_query col q a z) = Inr (rows (a, z))) \<longrightarrow>
      (\<forall>n. \<exists>js. split_by_id_range run q col b cur hi n = Some (js, None)
        \<and> concat (map sj_records js) = concat (map (\<lambda>w. map row_record (rows w)) ws))", OF _ that], intro impI allI)
    fix f and b cur hi :: int and ws n
    assume IH: "\<And>b cur hi ws. f b cur hi = Some ws \<Longrightarrow> (\<forall>a z. (a, z) \<in> set ws \<longrightarrow> run (id_range_query col q a z) = Inr (rows (a, z))) \<longrightarrow>
        (\<forall>n. \<exists>js. split_by_id_range run q col b cur hi n = Some (js, None)
          \<and> concat (map sj_records js) = concat (map (\<lambda>w. map row_record (rows w)) ws))"
      and step: "(if hi < cur then Some [] else Option.bind (f b (cur + b) hi) (\<lambda>ws. Some ((cur, cur + b) # ws))) = Some ws"
      and reads: "\<forall>a z. (a, z) \<in> set ws \<longrightarrow> run (id_range_query col q a z) = Inr (rows (a, z))"
    show "\<exists>js. split_by_id_range run q col b cur hi n = Some (js, None)
        \<and> concat (map sj_records js) = concat (map (\<lambda>w. map row_record (rows w)) ws)"
    proof (cases "hi < cur")
      case True
      then show ?thesis using step by (subst split_by_id_range.simps) simp
    next
      case False
      then obtain vs where vs: "f b (cur + b) hi = Some vs" "ws = (cur, cur + b) # vs" using step by (auto simp: bind_eq_Some_conv)
      then obtain js where "split_by_id_range run q col b (cur + b) hi (Suc n) = Some (js, None)"
        "concat (map sj_records js) = concat (map (\<lambda>w. map row_record (rows w)) vs)"
        using IH [OF vs(1), THEN mp, THEN spec, of "Suc n"] reads vs(2) by auto
      moreover have "run (id_range_query col q cur (cur + b)) = Inr (rows (cur, cur + b))" using reads vs(2) by simp
      ultimately show ?thesis using False vs(2) by (subst split_by_id_range.simps) auto
    qed
  qed
  then show ?thesis using assms by blast
qed

text \<open>With a batch size that is not positive the ranges never pass the first id: no end.\<close>

lemma id_range_endless:
  assumes "split_by_id_range run q col b cur hi n = Some (js, None)"
  shows "cur \<le> hi \<longrightarrow> 0 < b"
proof -
  have "snd y = None \<longrightarrow> cur \<le> hi \<longrightarrow> 0 < b" if "split_by_id_range run q col b cur hi n = Some y" for b cur hi n y
  proof (rule split_by_id_range.raw_induct [where P = "\<lambda>run q col b cur hi n y. snd y = None \<longrightarrow> cur \<le> hi \<longrightarrow> 0 < b", OF _ that], intro impI)
    fix f run q col and b cur hi :: int and n :: nat and y :: yielded
    assume IH: "\<And>run q col b cur hi n y. f run q col b cur hi n = Some y \<Longrightarrow> snd y = None \<longrightarrow> cur \<le> hi \<longrightarrow> 0 < b"
      and step: "(if hi < cur then Some ([], None)
       else case run (id_range_query col q cur (cur + b)) of
           Inl m \<Rightarrow> Some ([], Some (split_error m))
         | Inr rows \<Rightarrow>
             Option.bind (f run q col b (cur + b) hi (Suc n)) (\<lambda>y.
               Some ((if rows = [] then []
                  else [\<lparr>sj_records = map row_record rows,
                    sj_metadata = [(''id_range'', PDict [(''start'', PInt cur), (''end'', PInt (cur + b))]),
                      (''page_num'', PInt (int n)), size_entry ''count'' rows]\<rparr>]) @ fst y, snd y))) = Some y"
      and ends: "snd y = None" "cur \<le> hi"
    show "0 < b"
    proof (rule ccontr)
      assume b: "\<not> 0 < b"
      obtain y' where "f run q col b (cur + b) hi (Suc n) = Some y'" "snd y' = None"
        using step ends by (auto simp: bind_eq_Some_conv split: sum.splits)
      then have "cur + b \<le> hi \<longrightarrow> 0 < b" using IH by blast
      then show False using b ends(2) by linarith
    qed
  qed
  then show ?thesis using assms by force
qed

subsection \<open>Theorems\<close>

text \<open>Paging a query by offset hands out what a fetch of it reads: the same rows in the same order,
  and the paging ends -- provided that the database gives the query's rows in one order, of
  which \<open>LIMIT\<close> and \<open>OFFSET\<close> cut a piece.\<close>

theorem sql_jobs_hold_the_fetch:
  assumes "resolve_parameters render s params = Inr c" "dget c ''query'' = Some (PStr q)" "\<not> truthy (dget_or c ''id_column'' PNone)"
    and "dget_or c ''batch_size'' bs = PInt b" "0 < b" "D (dget_or (sl_config s) ''connection_url'' PNone) q = Inr rows"
    and "\<And>k. D (dget_or (sl_config s) ''connection_url'' PNone) (offset_query q b (int k)) = Inr (take (nat b) (drop k rows))"
  shows "\<exists>js. sql_jobs D render s params bs = Some (js, None) \<and> sql_fetch D render s params None = Inr (concat (map sj_records js))"
proof -
  obtain js where js: "split_by_offset (D (dget_or (sl_config s) ''connection_url'' PNone)) q b 0 0 = Some (js, None)"
    "concat (map sj_records js) = map row_record rows"
    using offset_jobs_read [where run = "D (dget_or (sl_config s) ''connection_url'' PNone)", OF assms(5,7), of 0 0] by auto
  have "sql_text (dget_or c ''query'' PNone) = Inr q" using assms(2) by (simp add: sql_text_def dget_or_def)
  then show ?thesis
    using assms(1,3,4,6) js by (simp add: sql_jobs_def sql_fetch_def count_of_rows_def Let_def row_record_def [abs_def] comp_def)
qed

text \<open>So it is with every other connector: the jobs hold, in order, the records a fetch reads.\<close>

theorem jobs_hold_the_fetch:
  "(mock_can_shard s \<and> mock_fetch s None = Inr rs \<longrightarrow> snd (mock_jobs s bs) = None \<and> job_records (mock_jobs s bs) = rs) \<and>
   (static_fetch s None = Inr rs \<longrightarrow> snd (static_jobs s) = None \<and> job_records (static_jobs s) = rs) \<and>
   (s3_can_shard S s \<and> s3_fetch S render s params None = Inr rs \<longrightarrow>
      snd (s3_jobs S render s params bs) = None \<and> job_records (s3_jobs S render s params bs) = rs) \<and>
   (api_fetch A render s params None = Inr rs \<and> resolve_parameters render s params = Inr c \<and> check c = Inr b \<and> 0 < b \<longrightarrow>
      snd (api_jobs A check render s params) = None \<and> job_records (api_jobs A check render s params) = rs) \<and>
   (resolve_parameters render s params = Inr c \<and> fetch_scroll E c None = Some (Inr rs) \<longrightarrow>
      (\<exists>js. elastic_jobs E sid render s params bs = Some (js, None) \<and> concat (map sj_records js) = rs))"
proof -
  have mock: "mock_can_shard s \<and> mock_fetch s None = Inr rs \<longrightarrow> snd (mock_jobs s bs) = None \<and> job_records (mock_jobs s bs) = rs"
    using mock_jobs_read by blast
  have static: "static_fetch s None = Inr rs \<longrightarrow> snd (static_jobs s) = None \<and> job_records (static_jobs s) = rs"
    by (auto simp: static_fetch_def static_jobs_def job_records_def up_to_def split: sum.splits)
  have s3: "s3_can_shard S s \<and> s3_fetch S render s params None = Inr rs \<longrightarrow>
      snd (s3_jobs S render s params bs) = None \<and> job_records (s3_jobs S render s params bs) = rs"
    using s3_jobs_read by blast
  have api: "api_fetch A render s params None = Inr rs \<and> resolve_parameters render s params = Inr c \<and> check c = Inr b \<and> 0 < b \<longrightarrow>
      snd (api_jobs A check render s params) = None \<and> job_records (api_jobs A check render s params) = rs"
    using api_jobs_read by blast
  have "resolve_parameters render s params = Inr c \<and> fetch_scroll E c None = Some (Inr rs) \<longrightarrow>
      (\<exists>js. elastic_jobs E sid render s params bs = Some (js, None) \<and> concat (map sj_records js) = rs)"
    using elastic_jobs_read by blast
  with mock static s3 api show ?thesis by blast
qed

text \<open>Two pages, the second one short.\<close>

lemma two_pages:
  "split_by_offset (\<lambda>t. if t = offset_query ''q'' 2 0 then Inr [[(''x'', PInt 1)], [(''x'', PInt 2)]]
      else if t = offset_query ''q'' 2 2 then Inr [[(''x'', PInt 3)]] else Inl ''error'') ''q'' 2 0 0 =
   Some ([\<lparr>sj_records = map row_record [[(''x'', PInt 1)], [(''x'', PInt 2)]],
            sj_metadata = [(''offset'', PInt 0), (''page_num'', PInt 0), (''count'', PInt 2)]\<rparr>,
          \<lparr>sj_records = map row_record [[(''x'', PInt 3)]],
            sj_metadata = [(''offset'', PInt 2), (''page_num'', PInt 1), (''count'', PInt 1)]\<rparr>], None)"
proof -
  have "offset_query ''q'' 2 2 \<noteq> offset_query ''q'' 2 0" by code_simp
  then show ?thesis
    by (simp add: split_by_offset.simps [where offset = 0] split_by_offset.simps [where offset = 2] size_entry_def)
qed

end
