(* ===== verification/EndToEnd.thy ===== *)
theory EndToEnd
  imports Connectors Executor
begin

text \<open>
  A run from its source to the workers: the parts a connector plans become rows of the jobs
  table (\<open>Planner\<close>), the payload of a row is the message a worker gets, and the worker fetches
  with the source it rebuilds from it (\<open>Executor\<close>, \<open>Connectors\<close>). Together the workers read
  what the source has.
\<close>

subsection \<open>What a message lets a worker fetch\<close>

text \<open>The head of \<open>make_records\<close>, as a value: the records fetched with the params of the message.\<close>

definition bind_sum :: "py_error + 'a \<Rightarrow> ('a \<Rightarrow> py_error + 'b) \<Rightarrow> py_error + 'b" where
  "bind_sum x f = (case x of Inl e \<Rightarrow> Inl e | Inr v \<Rightarrow> f v)"

definition fetched :: "'d worker \<Rightarrow> pydict \<Rightarrow> py_error + pyval list" where
  "fetched W payload =
     (let descriptor = dget_or payload ''source'' PNone in
      bind_sum (as_dict (dget_or payload ''metadata'' (PDict []))) (\<lambda>metadata.
      bind_sum (build_flat_from_metadata metadata) (\<lambda>params.
      bind_sum (as_dict (if truthy descriptor then descriptor else PDict [])) (\<lambda>d.
      bind_sum (item_of d ''type'') (\<lambda>t.
      bind_sum (item_of d ''config'') (\<lambda>config.
      bind_sum (wn_source W t config) (\<lambda>fetch. fst (fetch params))))))))"

text \<open>A job that got as far as its destination worked on these records.\<close>

lemma job_body_records:
  assumes "job_body raw order fetch p None params = (Inr oc, params')" "oc_destination oc \<noteq> None"
  shows "\<exists>rs. fst (fetch params) = Inr rs \<and> oc_records oc = map to_json_safe rs"
proof (cases "fetch params")
  case (Pair r params1)
  show ?thesis
  proof (cases r)
    case (Inl e)
    then show ?thesis using assms(1) Pair
      by (simp add: job_body_def pipeline_step_def try_step_def bind_step_def)
  next
    case (Inr rs)
    then have "pipeline_step ''source fetch'' (pl_name p) (bind_step fetch (\<lambda>rs. return_step (map to_json_safe rs))) params =
        (Inr (map to_json_safe rs), params1)"
      using Pair by (simp add: pipeline_step_def try_step_def bind_step_def return_step_def)
    then have "oc_records oc = map to_json_safe rs"
      using assms unfolding job_body_def
      by (elim bind_stepE) (auto simp: nothing_to_do_def Let_def split: if_splits elim!: bind_stepE)
    then show ?thesis using Pair Inr by simp
  qed
qed

lemma run_job_records_fetch:
  assumes "run_job_records raw order fetch p None params = (Inr oc, params')" "oc_destination oc \<noteq> None"
  shows "\<exists>rs. fst (fetch params) = Inr rs \<and> oc_records oc = map to_json_safe rs"
proof (cases "job_body raw order fetch p None params")
  case (Pair r params1)
  then have "r = Inr oc"
    using assms by (cases r)
      (auto simp: run_job_records_def try_step_def bind_step_def set_param_def nothing_to_do_def split: if_splits)
  with Pair show ?thesis using job_body_records [of raw order fetch p params oc params1] assms(2) by simp
qed

lemma bind_sum_Inl [simp]: "bind_sum (Inl e) f = Inl e"
  by (simp add: bind_sum_def)

lemma bind_sum_Inr [simp]: "bind_sum (Inr v) f = f v"
  by (simp add: bind_sum_def)

lemma lift_resultE:
  assumes "lift_result x w = (Inr v, w')"
  obtains "x = Inr v" "w' = w"
  using assms by (auto simp: lift_result_def raise_step_def return_step_def split: sum.splits)

lemma wk_params_elapse [simp]: "wk_params (w_elapse W w) = wk_params w"
  by (simp add: w_elapse_def split: prod.split)

lemma fetch_sliceE:
  assumes "fetch_slice W payload w = (Inr fetch, w')"
  obtains d t config where "w' = w"
    "as_dict (let descriptor = dget_or payload ''source'' PNone in if truthy descriptor then descriptor else PDict []) = Inr d"
    "item_of d ''type'' = Inr t" "item_of d ''config'' = Inr config" "wn_source W t config = Inr fetch"
  using assms unfolding fetch_slice_def Let_def
  by (auto elim!: bind_stepE lift_resultE)

lemma on_paramsE:
  assumes "on_params m w = (Inr v, w')"
  obtains p where "m (wk_params w) = (Inr v, p)"
  using assms by (auto simp: on_params_def split: prod.splits)

text \<open>Whatever the pipeline does to them: the records a worker works on are those of its message.\<close>

lemma make_records_fetched:
  assumes "make_records W payload name w = (Inr (p, key, oc), w')" "oc_destination oc \<noteq> None"
  shows "\<exists>rs. fetched W payload = Inr rs \<and> oc_records oc = map to_json_safe rs"
proof -
  have "\<exists>metadata params fetch w2 p0 w3. as_dict (dget_or payload ''metadata'' (PDict [])) = Inr metadata \<and>
      build_flat_from_metadata metadata = Inr params \<and> fetch_slice W payload (w\<lparr>wk_params := params\<rparr>) = (Inr fetch, w2) \<and>
      on_params (run_job_records (wn_concurrency W) (wn_order W) fetch p0 None) (w_elapse W w2) = (Inr oc, w3)"
    using assms(1) unfolding make_records_def
    by (elim bind_stepE) (auto simp: elapse_step_def write_step_def return_step_def raise_step_def split: option.splits
      elim!: bind_stepE lift_resultE, blast)
  then obtain metadata params fetch w2 p0 w3 where m: "as_dict (dget_or payload ''metadata'' (PDict [])) = Inr metadata"
    "build_flat_from_metadata metadata = Inr params" "fetch_slice W payload (w\<lparr>wk_params := params\<rparr>) = (Inr fetch, w2)"
    "on_params (run_job_records (wn_concurrency W) (wn_order W) fetch p0 None) (w_elapse W w2) = (Inr oc, w3)"
    by blast
  obtain d t config where f: "w2 = w\<lparr>wk_params := params\<rparr>"
    "as_dict (let descriptor = dget_or payload ''source'' PNone in if truthy descriptor then descriptor else PDict []) = Inr d"
    "item_of d ''type'' = Inr t" "item_of d ''config'' = Inr config" "wn_source W t config = Inr fetch"
    by (rule fetch_sliceE [OF m(3)])
  obtain q where "run_job_records (wn_concurrency W) (wn_order W) fetch p0 None params = (Inr oc, q)"
    using on_paramsE [OF m(4)] f(1) by auto
  from run_job_records_fetch [OF this assms(2)] obtain rs where
    "fst (fetch params) = Inr rs" "oc_records oc = map to_json_safe rs" by blast
  then show ?thesis using m(1,2) f(2-5) by (simp add: fetched_def Let_def)
qed

subsection \<open>The message of a saved job\<close>

lemma dget_map_values: "dget (map (\<lambda>(k, v). (k, f v)) d) k = map_option f (dget d k)"
  by (induction d) auto

lemma dget_serialized: "dget (serialize_for_json d) k = map_option to_json_safe (dget d k)"
  by (simp add: serialize_for_json_def dget_map_values)

lemma job_metadata_params: "dget (job_metadata ctx base s) ''runtime_params'' = Some (PDict (merged_params base s))"
  by (simp add: job_metadata_def Let_def split: option.split)

text \<open>What is added to a job's metadata on its way, a trace carrier, leaves the params alone.\<close>

definition keeps_params :: "(pydict \<Rightarrow> pydict) \<Rightarrow> bool" where
  "keeps_params inject \<longleftrightarrow> (\<forall>m. dget (inject m) ''runtime_params'' = dget m ''runtime_params'')"

lemma params_arrive:
  assumes "keeps_params inject"
  shows "\<exists>metadata params. as_dict (dget_or (serialize_for_json (build_job_payload inject eid jid name s (job_metadata ctx base s)
      dedup own)) ''metadata'' (PDict [])) = Inr metadata \<and> build_flat_from_metadata metadata = Inr params"
proof -
  let ?m = "serialize_for_json (inject (job_metadata ctx base s))"
  have "dget (serialize_for_json (build_job_payload inject eid jid name s (job_metadata ctx base s) dedup own)) ''metadata'' =
      Some (PDict ?m)"
    by (simp add: dget_serialized build_job_payload_def) (simp add: serialize_for_json_def)
  moreover have "dget ?m ''runtime_params'' = Some (PDict (serialize_for_json (merged_params base s)))"
    using assms by (simp add: dget_serialized keeps_params_def job_metadata_params) (simp add: serialize_for_json_def)
  ultimately show ?thesis by (auto simp: dget_or_def as_dict_def build_flat_from_metadata_def Let_def)
qed

subsection \<open>Parts and jobs\<close>

text \<open>The worker's source factory knows the built-in connectors, and a fetch is theirs.\<close>

definition built_in :: "connectors \<Rightarrow> (string \<Rightarrow> bool) \<Rightarrow> 'd worker \<Rightarrow> bool" where
  "built_in C installed W \<longleftrightarrow> (\<forall>t c src. rebuild_source installed t c = Inr src \<longrightarrow>
     (\<exists>fetch. wn_source W (PStr t) (PDict c) = Inr fetch \<and>
       (\<forall>params r. fetch_source C src params None = Some r \<longrightarrow> fst (fetch params) = r)))"

text \<open>A part that needs no params: JSON values, no template text, and its own ids for an API.\<close>

definition self_contained :: "slice \<Rightarrow> bool" where
  "self_contained t \<longleftrightarrow> json_value (PDict (sl_config t)) \<and> plain (PDict (sl_config t)) \<and>
     (sl_type t = ''IDBasedAPISource'' \<longrightarrow> truthy (setting t ''ids''))"

lemma fetch_settled:
  assumes "self_contained t"
  shows "fetch_source C t params limit = fetch_source C t params' limit"
proof -
  have "plain (PDict (sl_config t))" "sl_type t = ''IDBasedAPISource'' \<Longrightarrow> truthy (setting t ''ids'')"
    using assms by (simp_all add: self_contained_def)
  note plain = resolve_plain_config [OF this(1)] and own = this(2)
  show ?thesis
    using own by (simp add: fetch_source_def elastic_fetch_def sql_fetch_def s3_fetch_def api_fetch_def all_ids_def plain Let_def)
qed

text \<open>The parts of the plan fetch, together, the records \<open>rs\<close>.\<close>

definition partitioned :: "connectors \<Rightarrow> slice \<Rightarrow> pydict \<Rightarrow> slice list \<Rightarrow> pyval list \<Rightarrow> bool" where
  "partitioned C s params ss rs \<longleftrightarrow> split_source C s params = Some (ss, None) \<and>
     (\<exists>rss. map (\<lambda>t. fetch_source C t params None) ss = map (\<lambda>us. Some (Inr us)) rss \<and> mset (concat rss) = mset rs)"

lemma message_fetches:
  assumes "built_in C installed W" "rebuild_source installed (sl_type t) (sl_config t) = Inr t" "self_contained t"
    and "keeps_params inject" "fetch_source C t params None = Some (Inr us)"
  shows "fetched W (serialize_for_json (build_job_payload inject eid jid name t (job_metadata ctx base t) dedup own)) = Inr us"
proof -
  let ?payload = "serialize_for_json (build_job_payload inject eid jid name t (job_metadata ctx base t) dedup own)"
  obtain metadata params' where m: "as_dict (dget_or ?payload ''metadata'' (PDict [])) = Inr metadata"
    "build_flat_from_metadata metadata = Inr params'"
    using params_arrive [OF assms(4)] by blast
  have json: "to_json_safe (PDict (sl_config t)) = PDict (sl_config t)"
    by (rule to_json_safe_id) (use assms(3) in \<open>simp only: self_contained_def\<close>)
  have "dget ?payload ''source'' = Some (to_json_safe (PDict (serialize t)))"
    by (simp add: dget_serialized build_job_payload_def)
  also have "to_json_safe (PDict (serialize t)) = PDict [(''type'', PStr (sl_type t)), (''config'', to_json_safe (PDict (sl_config t)))]"
    by (simp add: serialize_def)
  finally have d: "dget_or ?payload ''source'' PNone = PDict [(''type'', PStr (sl_type t)), (''config'', PDict (sl_config t))]"
    unfolding json by (simp add: dget_or_def)
  obtain fetch where f: "wn_source W (PStr (sl_type t)) (PDict (sl_config t)) = Inr fetch"
    "\<And>params r. fetch_source C t params None = Some r \<Longrightarrow> fst (fetch params) = r"
    using assms(1,2) unfolding built_in_def by blast
  have "fetch_source C t params' None = Some (Inr us)" using fetch_settled [OF assms(3)] assms(5) by metis
  then show ?thesis using f(1) f(2) m by (simp add: fetched_def d as_dict_def item_of_def)
qed

lemma rows_from_slices: "list_all2 (\<lambda>r s. \<exists>i b. r = plan_row c b i s) (rows_from B c i ss) ss"
  by (induction B c i ss rule: rows_from.induct) auto

text \<open>What one saved job makes its worker do.\<close>

definition works_on :: "'d worker \<Rightarrow> string \<Rightarrow> pydict \<Rightarrow> pyval list \<Rightarrow> bool" where
  "works_on W name payload us \<longleftrightarrow> fetched W payload = Inr us \<and>
     (\<forall>v p key oc v'. make_records W payload name v = (Inr (p, key, oc), v') \<and> oc_destination oc \<noteq> None \<longrightarrow>
       oc_records oc = map to_json_safe us)"

lemma works_onI: "fetched W payload = Inr us \<Longrightarrow> works_on W name payload us"
  using make_records_fetched by (fastforce simp: works_on_def)

text \<open>A run that nobody else touches: the execution is there, has no jobs yet, and its ids are fresh.\<close>

definition untouched_run :: "environment \<Rightarrow> settings \<Rightarrow> planner \<Rightarrow> string \<Rightarrow> world \<Rightarrow> bool" where
  "untouched_run E S P eid w \<longleftrightarrow> leaves_alone E eid (range (pl_uuid P)) \<and> (\<forall>n. \<not> en_db_fails E n) \<and> inj (pl_uuid P) \<and>
     0 < checkpoint_batch_size S \<and> own_jobs eid (db_jobs (w_db w)) = [] \<and> distinct (map j_id (db_jobs (w_db w))) \<and>
     (\<forall>j \<in> set (db_jobs (w_db w)). j_id j \<notin> range (pl_uuid P)) \<and> get_execution eid (db_execs (w_db w)) \<noteq> None"

lemma plan_row_works:
  assumes "row_of j = plan_row (plan_config_of P p eid name dup enriched) n i t"
    and "rebuild_source installed (sl_type t) (sl_config t) = Inr t" "self_contained t"
    and "built_in C installed W" "keeps_params (pl_inject P)" "fetch_source C t params None = Some (Inr us)"
  shows "works_on W name (j_payload j) us"
proof -
  let ?c = "plan_config_of P p eid name dup enriched"
  have "j_payload j = serialize_for_json (build_job_payload (pl_inject P) eid (pl_uuid P i) name t
      (job_metadata ((pc_context ?c)\<lparr>cx_batch_number := n\<rparr>) (pc_default_params ?c) t) (pc_dedup ?c) (sl_params t))"
    using assms(1) by (simp add: row_of_def plan_row_def Let_def) (simp add: plan_config_of_def)
  then have "fetched W (j_payload j) = Inr us" using message_fetches [OF assms(4,2,3,5,6)] by simp
  then show ?thesis by (rule works_onI)
qed

lemma saved_jobs_fetch:
  assumes start: "untouched_run E S P eid w"
    and pipeline: "pl_registry P name = Some p" "pp_resolve p params = Inr (enriched, Splitting b)"
    and source: "(sl_type s, g) \<in> set (builtin_sources installed)" "part_of g s s"
    and plan: "partitioned C s enriched ss rs" "bs_split b enriched = (ss, None)" "bs_params b = None" "list_all self_contained ss"
    and worker: "built_in C installed W" "keeps_params (pl_inject P)"
    and run: "plan_phase E S P eid name params dup w = (r, w')"
  shows "r = Inr (Some (length ss div checkpoint_batch_size S + 1))"
    and "\<exists>rss. mset (concat rss) = mset rs \<and>
      list_all2 (\<lambda>j us. j_state j = JPending \<and> works_on W name (j_payload j) us) (own_jobs eid (db_jobs (w_db w'))) rss"
proof -
  let ?c = "plan_config_of P p eid name dup enriched"
  obtain ex where ex: "get_execution eid (db_execs (w_db w)) = Some ex" using start by (auto simp: untouched_run_def)
  have slices: "plan_slices (Splitting b) enriched = (ss, None)"
    using plan(2,3) by (simp add: plan_slices_def split_slices_def inherit_params_def [abs_def])
  have start': "leaves_alone E eid (range (pl_uuid P))" "\<forall>n. \<not> en_db_fails E n" "inj (pl_uuid P)" "0 < checkpoint_batch_size S"
    "own_jobs eid (db_jobs (w_db w)) = []" "distinct (map j_id (db_jobs (w_db w)))"
    "\<forall>j \<in> set (db_jobs (w_db w)). j_id j \<notin> range (pl_uuid P)"
    using start unfolding untouched_run_def by simp_all
  note all_saved = plan_saved [OF start'(1-4) pipeline slices start'(5-7) ex run]
  have saved: "map row_of (own_jobs eid (db_jobs (w_db w'))) = rows_from (checkpoint_batch_size S) ?c 0 ss"
    "\<forall>j \<in> set (own_jobs eid (db_jobs (w_db w'))). j_state j = JPending"
    by (fact conjunct1 [OF conjunct2 [OF all_saved]], fact conjunct1 [OF conjunct2 [OF conjunct2 [OF all_saved]]])
  show "r = Inr (Some (length ss div checkpoint_batch_size S + 1))" by (fact conjunct1 [OF all_saved])
  obtain rss where rss: "split_source C s enriched = Some (ss, None)"
    "map (\<lambda>t. fetch_source C t enriched None) ss = map (\<lambda>us. Some (Inr us)) rss" "mset (concat rss) = mset rs"
    using plan(1) unfolding partitioned_def by blast
  have rows: "list_all2 (\<lambda>j t. \<exists>i n. row_of j = plan_row ?c n i t) (own_jobs eid (db_jobs (w_db w'))) ss"
    using rows_from_slices [of ?c "checkpoint_batch_size S" 0 ss] unfolding saved(1) [symmetric] list_all2_map1
    by (rule list_all2_mono) blast
  have parts: "list_all2 (\<lambda>t us. fetch_source C t enriched None = Some (Inr us)) ss rss"
    using rss(2) by (simp add: list_all2_conv_all_nth list_eq_iff_nth_eq)
  have each: "j_state j = JPending \<and> works_on W name (j_payload j) us"
    if j: "j \<in> set (own_jobs eid (db_jobs (w_db w')))" and t: "t \<in> set ss" "row_of j = plan_row ?c n i t"
      "fetch_source C t enriched None = Some (Inr us)" for j t us n i
  proof -
    have "part_of g s t" by (rule split_parts [OF source rss(1) t(1)])
    then have rebuilt: "rebuild_source installed (sl_type t) (sl_config t) = Inr t" by (rule rebuild_part [OF source(1)])
    have "self_contained t" using plan(4) t(1) by (simp add: list_all_iff)
    from plan_row_works [OF t(2) rebuilt this worker t(3)] show ?thesis using saved(2) j by blast
  qed
  have "list_all2 (\<lambda>j us. j_state j = JPending \<and> works_on W name (j_payload j) us) (own_jobs eid (db_jobs (w_db w'))) rss"
  proof (rule list_all2_all_nthI)
    fix k assume k: "k < length (own_jobs eid (db_jobs (w_db w')))"
    then have "k < length ss" using list_all2_lengthD [OF rows] by simp
    moreover obtain i n where "row_of (own_jobs eid (db_jobs (w_db w')) ! k) = plan_row ?c n i (ss ! k)"
      using list_all2_nthD [OF rows k] by blast
    ultimately show "j_state (own_jobs eid (db_jobs (w_db w')) ! k) = JPending
        \<and> works_on W name (j_payload (own_jobs eid (db_jobs (w_db w')) ! k)) (rss ! k)"
      using list_all2_nthD [OF parts, of k] by (intro each [OF nth_mem [OF k] nth_mem])
  qed (simp add: list_all2_lengthD [OF rows] list_all2_lengthD [OF parts])
  then show "\<exists>rss. mset (concat rss) = mset rs \<and>
      list_all2 (\<lambda>j us. j_state j = JPending \<and> works_on W name (j_payload j) us) (own_jobs eid (db_jobs (w_db w'))) rss"
    using rss(3) by blast
qed

subsection \<open>Which plans are partitions\<close>

lemma part_type:
  assumes "(sl_type s, g) \<in> set (builtin_sources installed)" "part_of g s s" "split_source C s params = Some (ss, e)" "t \<in> set ss"
  shows "sl_type t = sl_type s"
  using split_parts [OF assms] by (simp add: part_of_def)

lemma partitionedI:
  assumes "(sl_type s, g) \<in> set (builtin_sources installed)" "part_of g s s"
    and "\<And>t. sl_type t = sl_type s \<Longrightarrow> fetch_source C t params None = reads t"
    and "split_source C s params = Some (ss, None)" "map reads ss = map (\<lambda>us. Some (Inr us)) rss" "mset (concat rss) = mset rs"
  shows "partitioned C s params ss rs"
proof -
  have "map (\<lambda>t. fetch_source C t params None) ss = map reads ss"
    using assms(3) part_type [OF assms(1,2,4)] by simp
  then show ?thesis using assms(4-6) unfolding partitioned_def by metis
qed

lemmas known = builtin_sources_def fetch_source_def split_source_def

text \<open>Records in memory and objects of a bucket.\<close>

lemma mock_partitioned:
  assumes "sl_type s = ''MockSource''" "part_of mock_signature s s" "mock_can_shard s" "mock_fetch s None = Inr rs"
    and "mock_split s = (ss, None)"
  shows "partitioned C s params ss rs"
proof -
  obtain rss where rss: "map (\<lambda>t. mock_fetch t None) ss = map Inr rss" "mset (concat rss) = mset rs"
    using mock.covers [OF assms(3,4)] assms(5) by auto
  show ?thesis
    by (rule partitionedI [where installed = "\<lambda>_. True" and reads = "\<lambda>t. Some (mock_fetch t None)", OF _ assms(2) _ _ _ rss(2)])
      (use arg_cong [OF rss(1), of "map Some"] assms(1,5) in \<open>simp_all add: known comp_def\<close>)
qed

lemma s3_partitioned:
  assumes "sl_type s = ''S3Source''" "part_of s3_signature s s" "s3_can_shard (cn_s3 C) s"
    and "s3_fetch (cn_s3 C) (cn_render C) s params None = Inr rs" "s3_split (cn_s3 C) (cn_render C) s params = (ss, None)"
  shows "partitioned C s params ss rs"
proof -
  obtain rss where rss: "map (\<lambda>t. s3_fetch (cn_s3 C) (cn_render C) t params None) ss = map Inr rss" "mset (concat rss) = mset rs"
    using s3.covers [OF assms(3,4)] assms(5) by auto
  show ?thesis
    by (rule partitionedI [where installed = "\<lambda>_. True" and reads = "\<lambda>t. Some (s3_fetch (cn_s3 C) (cn_render C) t params None)",
          OF _ assms(2) _ _ _ rss(2)])
      (use arg_cong [OF rss(1), of "map Some"] assms(1,5) in \<open>simp_all add: known comp_def\<close>)
qed

text \<open>Rows of a query, in windows of its id column.\<close>

lemma sql_partitioned:
  assumes "sl_type s = ''SqlSource''" "part_of sql_signature s s"
    and "windowed s q col n" "answers (cn_database C) (setting s ''connection_url'') q col n rows"
  shows "\<exists>ss. partitioned C s params ss (map (wrap_as_record \<circ> PDict) (filter (has_id col) rows))"
proof -
  obtain ss rss where ss: "sql_split (cn_database C) (cn_render C) s params = Some (ss, None)"
    "map (\<lambda>t. sql_fetch (cn_database C) (cn_render C) t params None) ss = map Inr rss"
    "mset (concat rss) = mset (map (wrap_as_record \<circ> PDict) (filter (has_id col) rows))"
    using sql_windows [OF assms(3,4)] by blast
  have "partitioned C s params ss (map (wrap_as_record \<circ> PDict) (filter (has_id col) rows))"
    by (rule partitionedI [where installed = "\<lambda>_. True" and reads = "\<lambda>t. Some (sql_fetch (cn_database C) (cn_render C) t params None)",
          OF _ assms(2) _ _ _ ss(3)])
      (use arg_cong [OF ss(2), of "map Some"] ss(1) assms(1) in \<open>simp_all add: known comp_def\<close>)
  then show ?thesis ..
qed

text \<open>Documents of a query, in ranges of its first sort key.\<close>

lemma elastic_partitioned:
  assumes "sl_type s = ''ElasticSource''" "part_of elastic_signature s s"
    and "range_plan (cn_elastic C) s q t sz n number field order scanned key docs"
  shows "\<exists>ss. partitioned C s params ss (map hit_record (filter (\<lambda>h. key h \<noteq> None) docs))"
proof -
  obtain ss rss where ss: "elastic_split (cn_elastic C) (cn_render C) s params = Some (ss, None)"
    "map (\<lambda>t. elastic_fetch (cn_elastic C) (cn_render C) t params None) ss = map (\<lambda>us. Some (Inr us)) rss"
    "mset (concat rss) = mset (map hit_record (filter (\<lambda>h. key h \<noteq> None) docs))"
    using range_reads [OF assms(3)] by blast
  have "partitioned C s params ss (map hit_record (filter (\<lambda>h. key h \<noteq> None) docs))"
    by (rule partitionedI [where installed = "\<lambda>_. True" and reads = "\<lambda>t. elastic_fetch (cn_elastic C) (cn_render C) t params None",
          OF _ assms(2) _ _ ss(2,3)])
      (use ss(1) assms(1) in \<open>simp_all add: known\<close>)
  then show ?thesis ..
qed

text \<open>Records of an API, id by id.\<close>

lemma api_partitioned:
  assumes "sl_type s = ''IDBasedAPISource''" "part_of api_signature s s" "api_can_shard params s"
    and "api_fetch (cn_http C) (cn_render C) s params None = Inr rs" "api_split s params = (ss, None)"
  shows "partitioned C s params ss rs"
proof -
  obtain rss where rss: "map (\<lambda>t. api_fetch (cn_http C) (cn_render C) t params None) ss = map Inr rss" "mset (concat rss) = mset rs"
    using api.covers [OF assms(3,4)] assms(5) by auto
  show ?thesis
    by (rule partitionedI [where installed = "\<lambda>_. True" and reads = "\<lambda>t. Some (api_fetch (cn_http C) (cn_render C) t params None)",
          OF _ assms(2) _ _ _ rss(2)])
      (use arg_cong [OF rss(1), of "map Some"] assms(1,5) in \<open>simp_all add: known comp_def\<close>)
qed

subsection \<open>Properties\<close>


text \<open>A table of three rows, one of them without an id, planned in two windows.\<close>

definition sql_connectors :: connectors where
  "sql_connectors = no_connectors\<lparr>cn_database := some_table\<rparr>"

definition sql_keywords :: pydict where
  "sql_keywords = [(''connection_url'', PStr ''db''), (''query'', PStr ''SELECT * FROM t''), (''id_column'', PStr ''id''), (''batch_size'', PInt 4)]"

definition sql_base :: base_source where
  "sql_base = \<lparr>bs_split = (\<lambda>params. case split_source sql_connectors some_sql params of Some plan \<Rightarrow> plan | None \<Rightarrow> ([], None)),
     bs_params = None\<rparr>"

definition sql_pipeline :: plan_pipeline where
  "sql_pipeline = \<lparr>pp_resolve = (\<lambda>params. Inr (params, Splitting sql_base)), pp_rate_limit = None, pp_enable_duplicates = True,
     pp_id_based = False\<rparr>"

definition sql_planner :: planner where
  "sql_planner = example_planner\<lparr>pl_registry := (\<lambda>n. if n = ''p'' then Some sql_pipeline else None)\<rparr>"

definition connector_source :: "connectors \<Rightarrow> (string \<Rightarrow> bool) \<Rightarrow> pyval \<Rightarrow> pyval \<Rightarrow> py_error + pyval list hook" where
  "connector_source C installed t c = (case (t, c) of
     (PStr t, PDict c) \<Rightarrow> map_sum id (\<lambda>src params. (case fetch_source C src params None of Some r \<Rightarrow> r | None \<Rightarrow> Inr [], params))
       (rebuild_source installed t c)
   | _ \<Rightarrow> Inl (TypeError ''not a source''))"

definition sql_worker :: "string worker" where
  "sql_worker = (example_worker (\<lambda>_ _ rs. (Inr (), rs)))\<lparr>wn_source := connector_source sql_connectors (\<lambda>_. True)\<rparr>"

definition sql_part :: "int \<Rightarrow> int \<Rightarrow> slice" where
  "sql_part a b = sql_window (sl_config some_sql) (sl_config some_sql) ''id'' ''SELECT * FROM t'' (PInt 4) (a, b)"

lemma sql_plan_parts: "split_source sql_connectors some_sql params = Some ([sql_part 1 5, sql_part 5 9], None)"
proof -
  let ?c = "sl_config some_sql"
  have w: "id_windows 4 1 7 = Some [(1, 5), (5, 9)]"
    by (subst id_windows.simps, simp, subst id_windows.simps, simp, subst id_windows.simps, simp)
  have "plain (PDict ?c)" by code_simp
  note resolved = resolve_plain_config [OF this]
  have c: "?c \<noteq> []" "sql_text (dget_or ?c ''query'' PNone) = Inr ''SELECT * FROM t''" "truthy (dget_or ?c ''id_column'' PNone)"
    "sql_text (dget_or ?c ''id_column'' PNone) = Inr ''id''" "count_of_rows (dget_or ?c ''batch_size'' (PInt 1000)) = Inr 4"
    by code_simp+
  have "some_table (dget_or ?c ''connection_url'' PNone) (min_max_query ''id'' ''SELECT * FROM t'') =
      Inr [[(''lo'', PInt 1), (''hi'', PInt 7)]]" by code_simp
  then show ?thesis
    by (simp add: split_source_def sql_split_def resolved c w sql_connectors_def sql_part_def id_bounds_def as_int_def Let_def)
      (simp add: some_sql_def)
qed


end
