(* ===== verification/Destinations.thy ===== *)
theory Destinations
  imports Sources ContentDedup
begin

text \<open>
  The connectors a pipeline writes to (\<open>destinations/base.py\<close>, \<open>api.py\<close>, \<open>kafka.py\<close>,
  \<open>factories/destination_factory.py\<close>) and the pool that keeps several requests in flight
  (\<open>core/async_utils.py\<close>). The endpoint, the Kafka cluster and the retry library are
  parameters; a request is a step on the state of the world. The pool is a step relation:
  which request is answered next, and what a cancelled one still did, is not determined.
\<close>

subsection \<open>Errors and retries\<close>

definition destination_error :: "string \<Rightarrow> string \<Rightarrow> py_error" where
  "destination_error typ m = OtherError ''DestinationError'' (''Destination '' @ quoted typ @ '' error: '' @ m)"

definition is_destination_error :: "py_error \<Rightarrow> bool" where
  "is_destination_error e = (case e of OtherError t m \<Rightarrow> t = ''DestinationError'' | _ \<Rightarrow> False)"

record retry_config =
  max_attempts :: int
  min_wait_seconds :: rat
  max_wait_seconds :: rat
  multiplier :: rat

definition default_retry_config :: retry_config where
  "default_retry_config = \<lparr>max_attempts = 3, min_wait_seconds = 1, max_wait_seconds = 60, multiplier = 2\<rparr>"

text \<open>The retry library: whether \<open>stop_after_attempt(n)\<close> stops after an attempt, and how long
  \<open>wait_exponential\<close> waits after it.\<close>

record tenacity =
  stops_after :: "int \<Rightarrow> nat \<Rightarrow> bool"
  exponential_wait :: "retry_config \<Rightarrow> nat \<Rightarrow> rat"

partial_function (option) retry_loop ::
  "tenacity \<Rightarrow> retry_config \<Rightarrow> (rat \<Rightarrow> 's \<Rightarrow> 's) \<Rightarrow> ('s, unit) step \<Rightarrow> nat \<Rightarrow> 's \<Rightarrow> ((py_error + unit) \<times> 's) option" where
  "retry_loop T c pause send attempt s =
     (case send s of
        (Inr _, s1) \<Rightarrow> Some (Inr (), s1)
      | (Inl e, s1) \<Rightarrow>
          if \<not> is_destination_error e \<or> stops_after T (max_attempts c) attempt then Some (Inl e, s1)
          else retry_loop T c pause send (Suc attempt) (pause (exponential_wait T c attempt) s1))"

definition send_with_retry ::
  "tenacity \<Rightarrow> retry_config \<Rightarrow> (rat \<Rightarrow> 's \<Rightarrow> 's) \<Rightarrow> ('s, unit) step \<Rightarrow> 's \<Rightarrow> ((py_error + unit) \<times> 's) option" where
  "send_with_retry T c pause send s = retry_loop T c pause send 1 s"

definition check_concurrency :: "string \<Rightarrow> pyval \<Rightarrow> py_error + int" where
  "check_concurrency destination_type concurrency =
     (case concurrency of
        PInt n \<Rightarrow> if n < 1 then Inl (ValueError (destination_type @ '': concurrency must be an integer >= 1'')) else Inr n
      | _ \<Rightarrow> Inl (ValueError (destination_type @ '': concurrency must be an integer >= 1'')))"

subsection \<open>Requests in flight\<close>

text \<open>One request after the other: \<open>for_each_concurrently\<close> with a concurrency of one.\<close>

fun send_each :: "(nat \<Rightarrow> 'a \<Rightarrow> ('s, unit) step) \<Rightarrow> nat \<Rightarrow> 'a list \<Rightarrow> ('s, unit) step" where
  "send_each fn i [] = return_step ()"
| "send_each fn i (x # xs) = bind_step (fn i x) (\<lambda>_. send_each fn (Suc i) xs)"

text \<open>The pool: what is not started yet, the requests in flight, those that reached the
  endpoint so far (in that order), the first failure, and the endpoint. After a failure the
  other workers are cancelled, but one that was answered just then may take another item first.\<close>

record ('a, 's) pool =
  po_waiting :: "(nat \<times> 'a) list"
  po_flying :: "(nat \<times> 'a) list"
  po_landed :: "(nat \<times> 'a) list"
  po_failure :: "py_error option"
  po_world :: 's

definition pool_of :: "'a list \<Rightarrow> 's \<Rightarrow> ('a, 's) pool" where
  "pool_of items w =
     \<lparr>po_waiting = enumerate 0 items, po_flying = [], po_landed = [], po_failure = None, po_world = w\<rparr>"

definition pool_width :: "int \<Rightarrow> nat" where
  "pool_width concurrency = (if concurrency \<le> 1 then 1 else nat concurrency)"

inductive pool_step ::
  "(nat \<Rightarrow> 'a \<Rightarrow> ('s, unit) step) \<Rightarrow> int \<Rightarrow> ('a, 's) pool \<Rightarrow> ('a, 's) pool \<Rightarrow> bool"
  for fn concurrency where
  begins: "length (po_flying p) < (if po_failure p = None then pool_width concurrency else pool_width concurrency - 1) \<Longrightarrow>
    po_waiting p = x # xs \<Longrightarrow>
    pool_step fn concurrency p (p\<lparr>po_waiting := xs, po_flying := po_flying p @ [x]\<rparr>)"
| answered: "po_failure p = None \<Longrightarrow> po_flying p = xs @ (i, x) # ys \<Longrightarrow> fn i x (po_world p) = (Inr u, w) \<Longrightarrow>
    pool_step fn concurrency p (p\<lparr>po_flying := xs @ ys, po_landed := po_landed p @ [(i, x)], po_world := w\<rparr>)"
| failed: "po_failure p = None \<Longrightarrow> po_flying p = xs @ (i, x) # ys \<Longrightarrow> fn i x (po_world p) = (Inl e, w) \<Longrightarrow>
    pool_step fn concurrency p
      (p\<lparr>po_flying := xs @ ys, po_landed := po_landed p @ [(i, x)], po_failure := Some e, po_world := w\<rparr>)"
| landed_late: "po_failure p \<noteq> None \<Longrightarrow> po_flying p = xs @ (i, x) # ys \<Longrightarrow> fn i x (po_world p) = (r, w) \<Longrightarrow>
    pool_step fn concurrency p (p\<lparr>po_flying := xs @ ys, po_landed := po_landed p @ [(i, x)], po_world := w\<rparr>)"
| cancelled: "po_failure p \<noteq> None \<Longrightarrow> po_flying p = xs @ y # ys \<Longrightarrow>
    pool_step fn concurrency p (p\<lparr>po_flying := xs @ ys\<rparr>)"

definition pool_done :: "('a, 's) pool \<Rightarrow> bool" where
  "pool_done p \<longleftrightarrow> po_flying p = [] \<and> (po_failure p \<noteq> None \<or> po_waiting p = [])"

text \<open>What \<open>for_each_concurrently\<close> may come to: the outcome of a run of the pool.\<close>

definition for_each_concurrently ::
  "(nat \<Rightarrow> 'a \<Rightarrow> ('s, unit) step) \<Rightarrow> int \<Rightarrow> 'a list \<Rightarrow> 's \<Rightarrow> (py_error + unit) \<times> 's \<Rightarrow> bool" where
  "for_each_concurrently fn concurrency items w r \<longleftrightarrow>
     (\<exists>p. (pool_step fn concurrency)\<^sup>*\<^sup>* (pool_of items w) p \<and> pool_done p
        \<and> r = ((case po_failure p of None \<Rightarrow> Inr () | Some e \<Rightarrow> Inl e), po_world p))"

subsection \<open>HTTP endpoints\<close>

datatype request_body = NoBody | RawBody string | JsonBody pyval

record http_call =
  hc_method :: pyval
  hc_url :: string
  hc_headers :: pydict
  hc_timeout :: pyval
  hc_params :: pyval
  hc_body :: request_body

text \<open>What httpx makes of a call: a response, a \<open>RequestError\<close>, or any other exception. The text
  of a value and the name of its type are the interpreter's.\<close>

datatype http_outcome = Answered nat string | Unreachable string | Raised string

record 'w endpoint =
  ep_call :: "http_call \<Rightarrow> 'w \<Rightarrow> http_outcome \<times> 'w"
  ep_str :: "pyval \<Rightarrow> string"
  ep_type :: "pyval \<Rightarrow> string"

text \<open>The constructor: a setting for each parameter, after the checks that they fit together.\<close>

definition api_destination_signature :: signature where
  "api_destination_signature =
     \<lparr>sg_params = [(''url'', None), (''method'', Some (PStr ''POST'')), (''headers'', Some PNone), (''auth_type'', Some PNone),
        (''auth_token'', Some PNone), (''timeout'', Some (PFloat 30)), (''params'', Some PNone), (''body'', Some PNone),
        (''health_check_enabled'', Some (PBool True)), (''per_record'', Some (PBool False)), (''body_field'', Some PNone),
        (''concurrency'', Some (PInt 1)), (''params_field'', Some PNone)],
      sg_kwargs = False, sg_store = as_given\<rparr>"

definition api_destination_checks :: "pydict \<Rightarrow> py_error + unit" where
  "api_destination_checks a =
     (let arg = (\<lambda>k. dget_or a k PNone); per_record = truthy (arg ''per_record'')
      in case check_concurrency ''api_destination'' (arg ''concurrency'') of
           Inl e \<Rightarrow> Inl e
         | Inr n \<Rightarrow>
             if 1 < n \<and> \<not> per_record
             then Inl (ValueError ''api_destination: concurrency= requires per_record=True (without it a job is a single request)'')
             else if per_record \<and> arg ''body'' \<noteq> PNone
             then Inl (ValueError ''api_destination: per_record=True sends each record as the body; do not pass body= as well'')
             else if arg ''body_field'' \<noteq> PNone \<and> \<not> per_record
             then Inl (ValueError ''api_destination: body_field= requires per_record=True'')
             else if arg ''params_field'' \<noteq> PNone \<and> \<not> per_record
             then Inl (ValueError ''api_destination: params_field= requires per_record=True'')
             else if arg ''params_field'' \<noteq> PNone \<and> arg ''params_field'' = arg ''body_field''
             then Inl (ValueError ''api_destination: params_field= and body_field= must differ'')
             else Inr ())"

definition new_api_destination :: "pydict \<Rightarrow> py_error + pydict" where
  "new_api_destination kw =
     (case construct api_destination_signature kw of
        Inl e \<Rightarrow> Inl e
      | Inr a \<Rightarrow>
          (case api_destination_checks a of
             Inl e \<Rightarrow> Inl e
           | Inr _ \<Rightarrow> map_sum id (zip (dkeys a)) (sequence (map (\<lambda>(k, v).
               if k = ''method'' \<or> k = ''headers'' then api_store k v else Inr v) a))))"

text \<open>\<open>urllib.parse.quote(s, safe='')\<close>.\<close>

definition unreserved :: "char \<Rightarrow> bool" where
  "unreserved c = (let n = (of_char c :: nat) in
     (48 \<le> n \<and> n \<le> 57) \<or> (65 \<le> n \<and> n \<le> 90) \<or> (97 \<le> n \<and> n \<le> 122) \<or> n \<in> {45, 46, 95, 126})"

definition hex_upper :: "nat \<Rightarrow> char" where
  "hex_upper n = (if n < 10 then char_of (48 + n) else char_of (55 + n))"

definition percent :: "nat \<Rightarrow> string" where
  "percent b = [CHR ''%'', hex_upper (b div 16), hex_upper (b mod 16)]"

definition url_quote :: "string \<Rightarrow> string" where
  "url_quote s = concat (map (\<lambda>b. if b < 128 \<and> unreserved (char_of b) then [char_of b] else percent b) (utf8 s))"

text \<open>A template cut at its placeholders, the matches of \<open>{field}\<close>.\<close>

datatype piece = Literal char | Placeholder string

definition match_placeholder :: "string \<Rightarrow> (string \<times> string) option" where
  "match_placeholder s =
     (let w = takeWhile is_word_char (drop 1 s); rest = dropWhile is_word_char (drop 1 s)
      in if take 1 s = ''{'' \<and> w \<noteq> [] \<and> take 1 rest = ''}'' then Some (w, tl rest) else None)"

lemma match_placeholder_shorter: "match_placeholder s = Some (w, rest) \<Longrightarrow> length rest < length s"
  using length_dropWhile_le [of is_word_char "drop 1 s"]
  by (cases s; cases "dropWhile is_word_char (drop 1 s)") (auto simp: match_placeholder_def Let_def split: if_splits)

function pieces :: "string \<Rightarrow> piece list" where
  "pieces s = (case s of
     [] \<Rightarrow> []
   | c # cs \<Rightarrow> (case match_placeholder s of Some (f, rest) \<Rightarrow> Placeholder f # pieces rest | None \<Rightarrow> Literal c # pieces cs))"
  by pat_completeness auto
termination
  by (relation "measure length") (auto dest: match_placeholder_shorter)

declare pieces.simps [simp del]

text \<open>\<open>_URL_PLACEHOLDER.sub\<close>: each placeholder replaced by what \<open>lookup\<close> gives for its field.\<close>

fun substitute_pieces :: "(string \<Rightarrow> py_error + string) \<Rightarrow> piece list \<Rightarrow> py_error + string" where
  "substitute_pieces lookup [] = Inr []"
| "substitute_pieces lookup (Literal c # ps) = map_sum id (Cons c) (substitute_pieces lookup ps)"
| "substitute_pieces lookup (Placeholder f # ps) =
     (case lookup f of Inl e \<Rightarrow> Inl e | Inr t \<Rightarrow> map_sum id (append t) (substitute_pieces lookup ps))"

definition fill_template :: "(string \<Rightarrow> py_error + string) \<Rightarrow> string \<Rightarrow> py_error + string" where
  "fill_template lookup template = substitute_pieces lookup (pieces template)"

definition record_fields :: "pyval \<Rightarrow> pydict" where
  "record_fields record = (case record of PDict d \<Rightarrow> d | _ \<Rightarrow> [])"

definition braced :: "string \<Rightarrow> string" where
  "braced f = ''{'' @ f @ ''}''"

definition the_text :: "pyval \<Rightarrow> string" where
  "the_text v = (case v of PStr s \<Rightarrow> s | _ \<Rightarrow> [])"

definition record_url :: "'w endpoint \<Rightarrow> pydict \<Rightarrow> pyval \<Rightarrow> nat \<Rightarrow> py_error + string" where
  "record_url E c record index =
     fill_template (\<lambda>field. case dget (record_fields record) field of
         None \<Rightarrow> Inl (ValueError (''api_destination: url placeholder '' @ braced field @
           '' has no matching field on record '' @ nat_text (index + 1)))
       | Some v \<Rightarrow> Inr (url_quote (ep_str E v))) (the_text (dget_or c ''url'' PNone))"

definition fill_param :: "'w endpoint \<Rightarrow> string \<Rightarrow> pyval \<Rightarrow> pydict \<Rightarrow> nat \<Rightarrow> py_error + pyval" where
  "fill_param E name value item index =
     (let lookup = (\<lambda>field. case dget item field of
          None \<Rightarrow> Inl (ValueError (''api_destination: params['' @ quoted name @ ''] placeholder '' @ braced field @
            '' has no matching field on record '' @ nat_text (index + 1)))
        | Some v \<Rightarrow> Inr v)
      in case value of
           PStr template \<Rightarrow>
             (case pieces template of
                [Placeholder field] \<Rightarrow> lookup field
              | ps \<Rightarrow> map_sum id PStr (substitute_pieces (\<lambda>field. map_sum id (ep_str E) (lookup field)) ps))
         | _ \<Rightarrow> Inr value)"

text \<open>The record's own parameters over the static ones; a \<open>None\<close> removes one.\<close>

fun merge_params :: "pydict \<Rightarrow> pydict \<Rightarrow> pydict" where
  "merge_params params [] = params"
| "merge_params params ((name, value) # own) =
     merge_params (if value = PNone then dfilter (\<lambda>k. k \<noteq> name) params else dset params name value) own"

definition static_params :: "'w endpoint \<Rightarrow> pydict \<Rightarrow> pyval \<Rightarrow> nat \<Rightarrow> py_error + pyval" where
  "static_params E c record index =
     (case dget_or c ''params'' PNone of
        PDict static \<Rightarrow> map_sum id (PDict \<circ> zip (dkeys static))
          (sequence (map (\<lambda>(name, value). fill_param E name value (record_fields record) index) static))
      | v \<Rightarrow> Inr v)"

definition record_params :: "'w endpoint \<Rightarrow> pydict \<Rightarrow> pyval \<Rightarrow> nat \<Rightarrow> py_error + pyval" where
  "record_params E c record index =
     (case static_params E c record index of
        Inl e \<Rightarrow> Inl e
      | Inr params \<Rightarrow>
          (let params_field = the_text (dget_or c ''params_field'' PNone)
           in if params_field = [] then Inr params
              else case dget (record_fields record) params_field of
                  None \<Rightarrow> Inr params
                | Some PNone \<Rightarrow> Inr params
                | Some (PDict own) \<Rightarrow> Inr (PDict (merge_params (record_fields params) own))
                | Some v \<Rightarrow> Inl (ValueError (''api_destination: params_field '' @ quoted params_field @ '' on record '' @
                    nat_text (index + 1) @ '' must be a dict of query parameters, got '' @ ep_type E v))))"

definition record_payload :: "pydict \<Rightarrow> pyval \<Rightarrow> pyval" where
  "record_payload c record =
     (case record of
        PDict item \<Rightarrow>
          (let body_field = the_text (dget_or c ''body_field'' PNone); params_field = the_text (dget_or c ''params_field'' PNone)
           in if body_field \<noteq> [] \<and> dget item body_field \<noteq> None then dget_or item body_field PNone
              else if params_field \<noteq> [] \<and> dget item params_field \<noteq> None then PDict (dfilter (\<lambda>k. k \<noteq> params_field) item)
              else record)
      | _ \<Rightarrow> record)"

definition body_of :: "pyval \<Rightarrow> request_body" where
  "body_of v = (case v of PNone \<Rightarrow> NoBody | PStr s \<Rightarrow> RawBody s | _ \<Rightarrow> JsonBody v)"

definition api_call :: "pydict \<Rightarrow> string \<Rightarrow> pyval \<Rightarrow> pyval \<Rightarrow> http_call" where
  "api_call c url body params =
     \<lparr>hc_method = dget_or c ''method'' PNone, hc_url = url,
      hc_headers = build_auth_headers (record_fields (dget_or c ''headers'' PNone))
        (optional_text (dget_or c ''auth_type'' PNone)) (optional_text (dget_or c ''auth_token'' PNone)),
      hc_timeout = dget_or c ''timeout'' PNone, hc_params = params, hc_body = body_of body\<rparr>"

definition outcome_result :: "http_outcome \<Rightarrow> string + unit" where
  "outcome_result r = (case r of
     Answered code t \<Rightarrow> if 200 \<le> code \<and> code < 300 then Inr () else Inl (''HTTP '' @ nat_text code @ '': '' @ t)
   | Unreachable m \<Rightarrow> Inl (''Request failed: '' @ m)
   | Raised m \<Rightarrow> Inl (''Unexpected error: '' @ m))"

definition api_request :: "'w endpoint \<Rightarrow> pydict \<Rightarrow> string \<Rightarrow> pyval \<Rightarrow> pyval \<Rightarrow> ('w, unit) step" where
  "api_request E c url body params w =
     (case ep_call E (api_call c url body params) w of
        (r, w1) \<Rightarrow> (map_sum (destination_error ''api'') id (outcome_result r), w1))"

text \<open>One request for one record; what it is built from is checked before anything is sent, and an
  error of the request says which record it was.\<close>

definition send_record :: "'w endpoint \<Rightarrow> pydict \<Rightarrow> nat \<Rightarrow> nat \<Rightarrow> pyval \<Rightarrow> ('w, unit) step" where
  "send_record E c n index record w =
     (case record_url E c record index of
        Inl e \<Rightarrow> (Inl e, w)
      | Inr url \<Rightarrow>
          (case record_params E c record index of
             Inl e \<Rightarrow> (Inl e, w)
           | Inr params \<Rightarrow>
               (case ep_call E (api_call c url (record_payload c record) params) w of
                  (r, w1) \<Rightarrow> (map_sum (\<lambda>reason. destination_error ''api''
                      (''record '' @ nat_text (index + 1) @ '' of '' @ nat_text n @ '': '' @ reason)) id (outcome_result r), w1))))"

definition concurrency_setting :: "pydict \<Rightarrow> int" where
  "concurrency_setting c = (case dget_or c ''concurrency'' (PInt 1) of PInt n \<Rightarrow> n | _ \<Rightarrow> 1)"

definition api_send :: "'w endpoint \<Rightarrow> pydict \<Rightarrow> pyval list \<Rightarrow> 'w \<Rightarrow> (py_error + unit) \<times> 'w \<Rightarrow> bool" where
  "api_send E c records w r \<longleftrightarrow>
     (if truthy (dget_or c ''per_record'' PNone)
      then for_each_concurrently (send_record E c (length records)) (concurrency_setting c) records w r
      else r = api_request E c (the_text (dget_or c ''url'' PNone)) (dget_or c ''body'' PNone) (dget_or c ''params'' PNone) w)"

definition api_identity_config :: "pydict \<Rightarrow> pydict" where
  "api_identity_config c =
     (let a = dfilter (\<lambda>k. k \<noteq> ''concurrency'') c;
          b = (if truthy (dget_or a ''per_record'' PNone) then a else dfilter (\<lambda>k. k \<noteq> ''per_record'') a);
          body_field = dget_or b ''body_field'' PNone;
          d = dfilter (\<lambda>k. k \<noteq> ''body_field'') b;
          e = (if body_field = PNone then d else dset d ''key_field'' body_field)
      in if dget_or e ''params_field'' PNone = PNone then dfilter (\<lambda>k. k \<noteq> ''params_field'') e else e)"

definition is_up :: "http_outcome \<Rightarrow> bool option" where
  "is_up r = (case r of Answered code t \<Rightarrow> Some (code < 500) | _ \<Rightarrow> None)"

text \<open>A \<open>HEAD\<close>, then an \<open>OPTIONS\<close> if that raised, at the part of the URL before a placeholder.\<close>

definition api_health_check :: "'w endpoint \<Rightarrow> pydict \<Rightarrow> 'w \<Rightarrow> bool \<times> 'w" where
  "api_health_check E c w =
     (if \<not> truthy (dget_or c ''health_check_enabled'' (PBool True)) then (True, w)
      else
        (let url = takeWhile (\<lambda>x. x \<noteq> CHR ''{'') (the_text (dget_or c ''url'' PNone));
             probe = (\<lambda>m. (api_call c url PNone PNone)\<lparr>hc_method := PStr m, hc_timeout := PFloat 5\<rparr>)
         in case ep_call E (probe ''HEAD'') w of (r, w1) \<Rightarrow>
            (case is_up r of
               Some up \<Rightarrow> (up, w1)
             | None \<Rightarrow> (case ep_call E (probe ''OPTIONS'') w1 of (r2, w2) \<Rightarrow> (is_up r2 = Some True, w2)))))"

subsection \<open>Kafka\<close>

text \<open>A header's value as a headers function may give it, and what such a function returns: nothing,
  a mapping (a name that is not a text is the name of its type), or something else.\<close>

datatype header_value = HeaderText string | HeaderBytes "nat list" | HeaderNull | HeaderOther string

datatype produced = NoMapping | Mapping_of "((string + string) \<times> header_value) list" | OtherProduct string

datatype headers_argument =
  NoHeaders | HeadersFunction "pyval \<Rightarrow> py_error + produced" | HeadersMapping "((string + string) \<times> (string + string)) list" | OtherHeaders string

type_synonym kafka_headers = "(string \<times> nat list option) list"

record kafka_message =
  km_topic :: pyval
  km_value :: "nat list"
  km_headers :: "kafka_headers option"

record kafka_destination =
  kd_config :: pydict
  kd_headers_fn :: "(pyval \<Rightarrow> py_error + produced) option"
  kd_ssl_context :: "pyval option"

text \<open>The cluster and its client: starting a producer, sending a message and waiting for the
  acknowledgement, stopping; what a lag check reads; the settings the producer takes.\<close>

record 'w kafka =
  kk_start :: "pydict \<Rightarrow> 'w \<Rightarrow> py_error option \<times> 'w"
  kk_send :: "kafka_message \<Rightarrow> 'w \<Rightarrow> py_error option \<times> 'w"
  kk_stop :: "'w \<Rightarrow> 'w"
  kk_str :: "pyval \<Rightarrow> string"
  kk_float :: "rat \<Rightarrow> string"
  kk_partitions :: "pyval \<Rightarrow> nat \<Rightarrow> py_error + nat list"
  kk_end_offsets :: "pyval \<Rightarrow> nat list \<Rightarrow> py_error + (nat \<Rightarrow> int option)"
  kk_committed :: "pyval \<Rightarrow> py_error + (nat \<Rightarrow> int option)"
  kk_timed_out :: bool
  kk_ssl_default :: pyval
  kk_accepts :: "string \<Rightarrow> bool"

text \<open>A producer is started by the first use and kept until it is closed.\<close>

record 'w producer =
  pr_started :: bool
  pr_world :: 'w

definition kafka_signature :: signature where
  "kafka_signature =
     \<lparr>sg_params = [(''bootstrap_servers'', None), (''topic'', None), (''compression_type'', Some (PStr ''gzip'')),
        (''security_protocol'', Some PNone), (''sasl_mechanism'', Some PNone), (''sasl_username'', Some PNone),
        (''sasl_password'', Some PNone), (''lag_health_check_enabled'', Some (PBool False)), (''consumer_group_id'', Some PNone),
        (''lag_threshold'', Some (PInt 10000)), (''lag_check_timeout'', Some (PFloat 10)), (''key_field'', Some PNone),
        (''concurrency'', Some (PInt 1))],
      sg_kwargs = True, sg_store = as_given\<rparr>"

fun static_headers :: "((string + string) \<times> (string + string)) list \<Rightarrow> py_error + pydict" where
  "static_headers [] = Inr []"
| "static_headers ((Inr name, Inr v) # hs) = map_sum id (Cons (name, PStr v)) (static_headers hs)"
| "static_headers (h # hs) = Inl (TypeError
     ''kafka_destination: static headers must map str to str; use a function of the record for bytes or null values'')"

definition check_headers :: "headers_argument \<Rightarrow> py_error + (pyval \<Rightarrow> py_error + produced) option \<times> pydict option" where
  "check_headers headers = (case headers of
     NoHeaders \<Rightarrow> Inr (None, None)
   | HeadersFunction f \<Rightarrow> Inr (Some f, None)
   | HeadersMapping hs \<Rightarrow> map_sum id (\<lambda>d. (None, Some d)) (static_headers hs)
   | OtherHeaders t \<Rightarrow> Inl (TypeError
       (''kafka_destination: headers must be a mapping of name to string value, or a function of the record; got '' @ t)))"

definition server_list :: "pyval \<Rightarrow> pyval" where
  "server_list v = (case v of
     PStr s \<Rightarrow> if CHR '','' \<in> set s
       then PList (map PStr (filter (\<lambda>x. x \<noteq> []) (map strip (split_at CHR '','' s)))) else v
   | _ \<Rightarrow> v)"

definition new_kafka_destination :: "pydict \<Rightarrow> headers_argument \<Rightarrow> py_error + kafka_destination" where
  "new_kafka_destination kw headers =
     (case construct kafka_signature kw of
        Inl e \<Rightarrow> Inl e
      | Inr a \<Rightarrow>
          (case check_concurrency ''kafka_destination'' (dget_or a ''concurrency'' PNone) of
             Inl e \<Rightarrow> Inl e
           | Inr _ \<Rightarrow>
               (case check_headers headers of
                  Inl e \<Rightarrow> Inl e
                | Inr (fn, static) \<Rightarrow>
                    (let b = (case static of None \<Rightarrow> a | Some d \<Rightarrow> dset a ''headers'' (PDict d));
                         d = dset b ''bootstrap_servers'' (server_list (dget_or a ''bootstrap_servers'' PNone))
                     in Inr \<lparr>kd_config = dfilter (\<lambda>k. k \<noteq> ''ssl_context'') d, kd_headers_fn = fn,
                             kd_ssl_context = dget d ''ssl_context''\<rparr>))))"

definition or_else :: "pyval \<Rightarrow> pyval \<Rightarrow> pyval" where
  "or_else v d = (if truthy v then v else d)"

definition connection_kwargs :: "'w kafka \<Rightarrow> kafka_destination \<Rightarrow> pydict" where
  "connection_kwargs K d =
     (let c = kd_config d; get = (\<lambda>k. dget_or c k PNone);
          servers = [(''bootstrap_servers'', get ''bootstrap_servers'')];
          kw = (if truthy (get ''sasl_username'') \<and> truthy (get ''sasl_password'')
            then servers @ [(''security_protocol'', or_else (get ''security_protocol'') (PStr ''SASL_PLAINTEXT'')),
              (''sasl_mechanism'', or_else (get ''sasl_mechanism'') (PStr ''SCRAM-SHA-256'')),
              (''sasl_plain_username'', get ''sasl_username''), (''sasl_plain_password'', get ''sasl_password'')]
            else if truthy (get ''security_protocol'') then servers @ [(''security_protocol'', get ''security_protocol'')] else servers)
      in if dget kw ''security_protocol'' \<in> {Some (PStr ''SSL''), Some (PStr ''SASL_SSL'')}
         then kw @ [(''ssl_context'', case kd_ssl_context d of None \<Rightarrow> kk_ssl_default K | Some x \<Rightarrow> or_else x (kk_ssl_default K))]
         else kw)"

definition named_config_keys :: "string list" where
  "named_config_keys = sg_names kafka_signature @ [''headers'']"

definition producer_kwargs :: "'w kafka \<Rightarrow> kafka_destination \<Rightarrow> pydict" where
  "producer_kwargs K d =
     (let c = kd_config d;
          kw = dset (connection_kwargs K d) ''compression_type'' (dget_or c ''compression_type'' (PStr ''gzip''));
          kw2 = (if truthy (dget_or c ''sasl_username'' PNone) then dset kw ''client_id'' (dget_or c ''sasl_username'' PNone) else kw)
      in dupdate kw2 (dfilter (\<lambda>k. k \<notin> set named_config_keys \<and> kk_accepts K k) c))"

definition get_producer :: "'w kafka \<Rightarrow> kafka_destination \<Rightarrow> ('w producer, unit) step" where
  "get_producer K d p =
     (if pr_started p then (Inr (), p)
      else case kk_start K (producer_kwargs K d) (pr_world p) of
          (Some e, w) \<Rightarrow> (Inl e, p\<lparr>pr_world := w\<rparr>)
        | (None, w) \<Rightarrow> (Inr (), \<lparr>pr_started = True, pr_world = w\<rparr>))"

definition close_producer :: "'w kafka \<Rightarrow> 'w producer \<Rightarrow> 'w producer" where
  "close_producer K p = (if pr_started p then \<lparr>pr_started = False, pr_world = kk_stop K (pr_world p)\<rparr> else p)"

text \<open>\<open>json.dumps\<close> as a message is written: keys in their order, and an error for what JSON has not.\<close>

fun json_text :: "(rat \<Rightarrow> string) \<Rightarrow> pyval \<Rightarrow> py_error + string" where
  "json_text ft PNone = Inr ''null''"
| "json_text ft (PBool b) = Inr (if b then ''true'' else ''false'')"
| "json_text ft (PInt i) = Inr (int_text i)"
| "json_text ft (PFloat r) = Inr (ft r)"
| "json_text ft (PStr s) = Inr (json_string s)"
| "json_text ft (PList xs) = map_sum id (\<lambda>ts. ''['' @ comma_sep ts @ '']'') (sequence (map (json_text ft) xs))"
| "json_text ft (PTuple xs) = map_sum id (\<lambda>ts. ''['' @ comma_sep ts @ '']'') (sequence (map (json_text ft) xs))"
| "json_text ft (PDict kvs) = map_sum id (\<lambda>ts. ''{'' @ comma_sep ts @ ''}'')
     (sequence (map (\<lambda>(k, v). map_sum id (append (json_string k @ '': '')) (json_text ft v)) kvs))"
| "json_text ft v = Inl (TypeError ''Object is not JSON serializable'')"

subsubsection \<open>Headers\<close>

definition of_record :: "nat \<Rightarrow> nat \<Rightarrow> string" where
  "of_record index n = ''record '' @ nat_text (index + 1) @ '' of '' @ nat_text n"

definition fill_header :: "'w kafka \<Rightarrow> string \<Rightarrow> string \<Rightarrow> pyval \<Rightarrow> nat \<Rightarrow> nat \<Rightarrow> py_error + string" where
  "fill_header K name template record index n =
     fill_template (\<lambda>field. case dget (record_fields record) field of
         None \<Rightarrow> Inl (ValueError (''kafka_destination: header '' @ quoted name @ '' placeholder '' @ braced field @
           '' has no matching field on '' @ of_record index n))
       | Some v \<Rightarrow> Inr (kk_str K v)) template"

definition encode_header :: "nat \<Rightarrow> nat \<Rightarrow> (string + string) \<times> header_value \<Rightarrow> py_error + string \<times> nat list option" where
  "encode_header index n h = (case h of
     (Inl t, _) \<Rightarrow> Inl (ValueError (''kafka_destination: header name '' @ t @ '' on '' @ of_record index n @ ''; header names must be str''))
   | (Inr name, HeaderText s) \<Rightarrow> Inr (name, Some (utf8 s))
   | (Inr name, HeaderBytes bs) \<Rightarrow> Inr (name, Some bs)
   | (Inr name, HeaderNull) \<Rightarrow> Inr (name, None)
   | (Inr name, HeaderOther t) \<Rightarrow> Inl (ValueError (''kafka_destination: header '' @ quoted name @ '' on '' @ of_record index n @
       '' is '' @ t @ ''; header values must be str, bytes or None'')))"

definition encode_headers :: "produced \<Rightarrow> nat \<Rightarrow> nat \<Rightarrow> py_error + kafka_headers" where
  "encode_headers x index n = (case x of
     NoMapping \<Rightarrow> Inr []
   | OtherProduct t \<Rightarrow> Inl (ValueError (''kafka_destination: headers function returned '' @ t @ '' for '' @ of_record index n @
       ''; expected a mapping or None''))
   | Mapping_of hs \<Rightarrow> sequence (map (encode_header index n) hs))"

definition own_headers :: "'w kafka \<Rightarrow> kafka_destination \<Rightarrow> nat \<Rightarrow> nat \<Rightarrow> pyval \<Rightarrow> py_error + kafka_headers" where
  "own_headers K d n index record =
     (case kd_headers_fn d of
        Some f \<Rightarrow>
          (case f record of
             Inl e \<Rightarrow> Inl (ValueError (''kafka_destination: headers function failed on '' @ of_record index n @ '': '' @ error_type e))
           | Inr x \<Rightarrow> encode_headers x index n)
      | None \<Rightarrow>
          sequence (map (\<lambda>(name, template).
            map_sum id (\<lambda>t. (name, Some (utf8 t))) (fill_header K name (the_text template) record index n))
            (record_fields (dget_or (kd_config d) ''headers'' PNone))))"

definition build_headers ::
  "'w kafka \<Rightarrow> kafka_destination \<Rightarrow> pyval list \<Rightarrow> kafka_headers \<Rightarrow> py_error + kafka_headers list option" where
  "build_headers K d records base =
     (if kd_headers_fn d = None \<and> \<not> truthy (dget_or (kd_config d) ''headers'' PNone) then Inr None
      else map_sum id Some (sequence (map (\<lambda>(index, record).
        map_sum id (\<lambda>own. filter (\<lambda>h. fst h \<notin> fst ` set own) base @ own) (own_headers K d (length records) index record))
        (enumerate 0 records))))"

subsubsection \<open>Sending\<close>

definition base_headers :: "pydict \<Rightarrow> kafka_headers" where
  "base_headers metadata = concat (map (\<lambda>(k, v). case v of PStr s \<Rightarrow> [(k, Some (utf8 s))] | _ \<Rightarrow> []) metadata)"

definition message_payload :: "pydict \<Rightarrow> pyval \<Rightarrow> pyval" where
  "message_payload c record =
     (let key_field = the_text (dget_or c ''key_field'' PNone)
      in case record of
           PDict item \<Rightarrow> if key_field \<noteq> [] \<and> dget item key_field \<noteq> None then dget_or item key_field PNone else record
         | _ \<Rightarrow> record)"

definition kafka_message_of ::
  "'w kafka \<Rightarrow> kafka_destination \<Rightarrow> kafka_headers list option \<Rightarrow> kafka_headers \<Rightarrow> nat \<Rightarrow> pyval \<Rightarrow> py_error + kafka_message" where
  "kafka_message_of K d per_record base index record =
     map_sum id (\<lambda>t. let headers = (case per_record of None \<Rightarrow> base | Some hss \<Rightarrow> hss ! index)
         in \<lparr>km_topic = dget_or (kd_config d) ''topic'' PNone, km_value = utf8 t,
             km_headers = (if headers = [] then None else Some headers)\<rparr>)
       (json_text (kk_float K) (message_payload (kd_config d) record))"

definition send_message ::
  "'w kafka \<Rightarrow> kafka_destination \<Rightarrow> kafka_headers list option \<Rightarrow> kafka_headers \<Rightarrow> nat \<Rightarrow> pyval \<Rightarrow> ('w, unit) step" where
  "send_message K d per_record base index record w =
     (case kafka_message_of K d per_record base index record of
        Inl e \<Rightarrow> (Inl e, w)
      | Inr m \<Rightarrow> (case kk_send K m w of (None, w1) \<Rightarrow> (Inr (), w1) | (Some e, w1) \<Rightarrow> (Inl e, w1)))"

definition kafka_failure :: "'w kafka \<Rightarrow> kafka_destination \<Rightarrow> py_error \<Rightarrow> py_error" where
  "kafka_failure K d e =
     destination_error ''kafka''
       (if error_type e = ''KafkaError''
        then ''Failed to send to topic '' @ quoted (kk_str K (dget_or (kd_config d) ''topic'' PNone)) @ '': '' @ error_text e
        else ''Unexpected error: '' @ error_text e)"

definition send_to_topic ::
  "'w kafka \<Rightarrow> kafka_destination \<Rightarrow> pyval list \<Rightarrow> pydict \<Rightarrow> 'w producer \<Rightarrow> (py_error + unit) \<times> 'w producer \<Rightarrow> bool" where
  "send_to_topic K d records metadata p r \<longleftrightarrow>
     (case get_producer K d p of
        (Inl e, p1) \<Rightarrow> r = (Inl e, p1)
      | (Inr _, p1) \<Rightarrow>
          (case build_headers K d records (base_headers metadata) of
             Inl e \<Rightarrow> r = (Inl e, p1)
           | Inr per_record \<Rightarrow>
               (\<exists>x w. for_each_concurrently (send_message K d per_record (base_headers metadata))
                   (concurrency_setting (kd_config d)) records (pr_world p1) (x, w)
                 \<and> r = (map_sum (kafka_failure K d) id x, p1\<lparr>pr_world := w\<rparr>))))"

definition kafka_identity_config :: "kafka_destination \<Rightarrow> pydict" where
  "kafka_identity_config d = dfilter (\<lambda>k. k \<notin> {''concurrency'', ''headers''}) (kd_config d)"

subsubsection \<open>Health\<close>

definition total_lag :: "nat list \<Rightarrow> (nat \<Rightarrow> int option) \<Rightarrow> (nat \<Rightarrow> int option) \<Rightarrow> int" where
  "total_lag partitions ends committed =
     sum_list (map (\<lambda>t. max 0 (case_option 0 id (ends t) - case_option 0 id (committed t))) partitions)"

definition consumer_lag :: "'w kafka \<Rightarrow> kafka_destination \<Rightarrow> pyval \<Rightarrow> py_error + int" where
  "consumer_lag K d group_id =
     (let topic = dget_or (kd_config d) ''topic'' PNone
      in case kk_partitions K topic 0 of
           Inl e \<Rightarrow> Inl e
         | Inr ps0 \<Rightarrow>
             (case (if ps0 = [] then kk_partitions K topic 1 else Inr ps0) of
                Inl e \<Rightarrow> Inl e
              | Inr ps \<Rightarrow>
                  if ps = [] then Inr 0
                  else (case kk_end_offsets K topic (sort ps) of
                      Inl e \<Rightarrow> Inl e
                    | Inr ends \<Rightarrow>
                        Inr (total_lag (sort ps) ends (case kk_committed K group_id of Inl e \<Rightarrow> (\<lambda>_. None) | Inr f \<Rightarrow> f)))))"

definition lag_ok :: "'w kafka \<Rightarrow> kafka_destination \<Rightarrow> pyval \<Rightarrow> int \<Rightarrow> bool" where
  "lag_ok K d group_id threshold =
     (kk_timed_out K \<or> (case consumer_lag K d group_id of Inl e \<Rightarrow> True | Inr lag \<Rightarrow> lag \<le> threshold))"

definition kafka_health_check :: "'w kafka \<Rightarrow> kafka_destination \<Rightarrow> ('w producer, bool) step" where
  "kafka_health_check K d p =
     (case get_producer K d p of
        (Inl e, p1) \<Rightarrow> (Inr False, p1)
      | (Inr _, p1) \<Rightarrow>
          (let c = kd_config d; group_id = dget_or c ''consumer_group_id'' PNone
           in if \<not> truthy (dget_or c ''lag_health_check_enabled'' PNone) \<or> \<not> truthy group_id then (Inr True, p1)
              else case as_int (dget_or c ''lag_threshold'' (PInt 10000)) of
                  Inl e \<Rightarrow> (Inl e, p1)
                | Inr threshold \<Rightarrow> (Inr (lag_ok K d group_id threshold), p1)))"

subsection \<open>The factory\<close>

text \<open>A registered class is its constructor, which takes keywords or the config dict itself.\<close>

definition create_destination :: "(string \<times> (pydict \<Rightarrow> py_error + 'd)) list \<Rightarrow> string \<Rightarrow> pydict \<Rightarrow> py_error + 'd" where
  "create_destination registry type_name config =
     (case map_of registry type_name of
        Some cls \<Rightarrow> cls config
      | None \<Rightarrow> Inl (ValueError (''Unknown destination type: '' @ quoted type_name @ ''. Available types: '' @
          (if registry = [] then ''none'' else join '', '' (map fst registry)))))"

definition builtin_destinations ::
  "(pydict \<Rightarrow> py_error + 'd) \<Rightarrow> (pydict \<Rightarrow> py_error + 'd) \<Rightarrow> (pydict \<Rightarrow> py_error + 'd) \<Rightarrow> (string \<Rightarrow> bool) \<Rightarrow>
     (string \<times> (pydict \<Rightarrow> py_error + 'd)) list" where
  "builtin_destinations kafka api console installed =
     filter (installed \<circ> fst) [(''kafka'', kafka), (''api'', api), (''console'', console)]"

section \<open>Lemmas\<close>

subsection \<open>Retries\<close>

text \<open>What the documentation of the retry library says: \<open>stop_after_attempt(n)\<close> stops after the
  \<open>n\<close>-th attempt.\<close>

definition documented :: "tenacity \<Rightarrow> bool" where
  "documented T \<longleftrightarrow> (\<forall>n k. stops_after T n k \<longleftrightarrow> n \<le> int k)"

text \<open>The state a further attempt starts from, after so many that failed.\<close>

fun after_attempts :: "tenacity \<Rightarrow> retry_config \<Rightarrow> (rat \<Rightarrow> 's \<Rightarrow> 's) \<Rightarrow> ('s, unit) step \<Rightarrow> nat \<Rightarrow> 's \<Rightarrow> 's" where
  "after_attempts T c pause send 0 s = s"
| "after_attempts T c pause send (Suc k) s =
     pause (exponential_wait T c (Suc k)) (snd (send (after_attempts T c pause send k s)))"

definition fails_again :: "('s, unit) step \<Rightarrow> 's \<Rightarrow> bool" where
  "fails_again send s = (case fst (send s) of Inl e \<Rightarrow> is_destination_error e | Inr _ \<Rightarrow> False)"

lemma retry_loop_from:
  assumes "\<And>n k. stops_after T n k \<longleftrightarrow> n \<le> int k" "nat (max_attempts c) - k = m"
  shows "\<exists>j \<ge> k. j < max (Suc k) (nat (max_attempts c))
    \<and> retry_loop T c pause send (Suc k) (after_attempts T c pause send k s) = Some (send (after_attempts T c pause send j s))
    \<and> (\<forall>i. k \<le> i \<and> i < j \<longrightarrow> fails_again send (after_attempts T c pause send i s))
    \<and> (fails_again send (after_attempts T c pause send j s) \<longrightarrow> max_attempts c \<le> int (Suc j))"
  using assms(2)
proof (induction m arbitrary: k)
  case (0 k)
  obtain r s1 where send: "send (after_attempts T c pause send k s) = (r, s1)" by fastforce
  have "retry_loop T c pause send (Suc k) (after_attempts T c pause send k s) = Some (r, s1)"
    using 0 by (subst retry_loop.simps) (auto simp: send assms(1) split: sum.split)
  then show ?case using 0 send by (intro exI [of _ k]) auto
next
  case (Suc m k)
  obtain r s1 where send: "send (after_attempts T c pause send k s) = (r, s1)" by fastforce
  show ?case
  proof (cases "fails_again send (after_attempts T c pause send k s) \<and> \<not> max_attempts c \<le> int (Suc k)")
    case True
    then obtain e where e: "r = Inl e" "is_destination_error e" by (auto simp: fails_again_def send split: sum.splits)
    have step: "retry_loop T c pause send (Suc k) (after_attempts T c pause send k s) =
        retry_loop T c pause send (Suc (Suc k)) (after_attempts T c pause send (Suc k) s)"
      using True e by (subst retry_loop.simps) (simp add: send assms(1))
    have "nat (max_attempts c) - Suc k = m" using Suc.prems by simp
    from Suc.IH [OF this] obtain j where j: "j \<ge> Suc k" "j < max (Suc (Suc k)) (nat (max_attempts c))"
      "retry_loop T c pause send (Suc (Suc k)) (after_attempts T c pause send (Suc k) s) = Some (send (after_attempts T c pause send j s))"
      "\<forall>i. Suc k \<le> i \<and> i < j \<longrightarrow> fails_again send (after_attempts T c pause send i s)"
      "fails_again send (after_attempts T c pause send j s) \<longrightarrow> max_attempts c \<le> int (Suc j)"
      by blast
    have "fails_again send (after_attempts T c pause send i s)" if "k \<le> i" "i < j" for i
      using True j(4) that by (cases "i = k") auto
    moreover have "j < max (Suc k) (nat (max_attempts c))" using j(1,2) True by auto
    ultimately show ?thesis using step j by (intro exI [of _ j]) auto
  next
    case False
    then have "retry_loop T c pause send (Suc k) (after_attempts T c pause send k s) = Some (r, s1)"
      by (subst retry_loop.simps) (auto simp: send assms(1) fails_again_def split: sum.splits)
    then show ?thesis using False send by (intro exI [of _ k]) auto
  qed
qed

subsection \<open>The pool\<close>

text \<open>What requests do that land one after the other: the first error, and the state they leave.\<close>

fun land :: "(nat \<Rightarrow> 'a \<Rightarrow> ('s, unit) step) \<Rightarrow> (nat \<times> 'a) list \<Rightarrow> 's \<Rightarrow> py_error option \<times> 's" where
  "land fn [] w = (None, w)"
| "land fn ((i, x) # xs) w =
     (case fn i x w of (r, w1) \<Rightarrow> (case land fn xs w1 of (e, w2) \<Rightarrow> ((case r of Inl e1 \<Rightarrow> Some e1 | Inr _ \<Rightarrow> e), w2)))"

lemma land_append:
  "land fn (xs @ ys) w = (case land fn xs w of (e1, w1) \<Rightarrow> (case land fn ys w1 of (e2, w2) \<Rightarrow>
     ((case e1 of Some e \<Rightarrow> Some e | None \<Rightarrow> e2), w2)))"
proof (induction xs arbitrary: w)
  case (Cons x xs)
  then show ?case by (cases x) (auto split: prod.splits sum.splits option.splits)
qed (simp split: prod.splits)

text \<open>What holds of the pool at any time: it started the items in order, no more than its width
  are in flight, and what landed explains the failure and the state of the endpoint.\<close>

definition started ::
  "int \<Rightarrow> (nat \<times> 'a) list \<Rightarrow> ('a, 's) pool \<Rightarrow> nat \<Rightarrow> bool" where
  "started concurrency items p n \<longleftrightarrow> po_waiting p = drop n items
     \<and> (if po_failure p = None then mset (po_landed p @ po_flying p) = mset (take n items)
        else mset (po_landed p @ po_flying p) \<subseteq># mset (take n items))
     \<and> (pool_width concurrency = 1 \<longrightarrow> po_landed p @ po_flying p = take n items \<and> (po_failure p = None \<or> po_flying p = []))"

definition pool_ok ::
  "(nat \<Rightarrow> 'a \<Rightarrow> ('s, unit) step) \<Rightarrow> int \<Rightarrow> (nat \<times> 'a) list \<Rightarrow> 's \<Rightarrow> ('a, 's) pool \<Rightarrow> bool" where
  "pool_ok fn concurrency items w p \<longleftrightarrow> length (po_flying p) \<le> pool_width concurrency
     \<and> land fn (po_landed p) w = (po_failure p, po_world p) \<and> (\<exists>n. started concurrency items p n)"

lemma pool_ok_start: "pool_ok fn concurrency (enumerate 0 items) w (pool_of items w)"
  by (auto simp: pool_ok_def started_def pool_of_def intro!: exI [of _ 0])

lemma multi_subset_eq_add: "M \<subseteq># add_mset x M"
  by (metis add_mset_add_single mset_subset_eq_add_left)

lemma started_step:
  assumes "pool_step fn concurrency p q" "started concurrency items p n" "length (po_flying p) \<le> pool_width concurrency"
  shows "\<exists>m. started concurrency items q m"
  using assms(1)
proof (cases rule: pool_step.cases)
  case (begins x xs)
  then have n: "x # xs = drop n items" using assms(2) by (simp add: started_def)
  then have "n < length items" by (metis drop_all leI list.discI)
  from Cons_nth_drop_Suc [OF this] have "items ! n = x" "drop (Suc n) items = xs" unfolding n [symmetric] by simp_all
  then have following: "drop (Suc n) items = xs" "take (Suc n) items = take n items @ [x]"
    using take_Suc_conv_app_nth [OF \<open>n < length items\<close>] by simp_all
  show ?thesis
  proof (cases "po_failure p")
    case None
    then show ?thesis using begins assms(2,3) unfolding started_def by (intro exI [of _ "Suc n"]) (simp add: following)
  next
    case (Some e)
    then have "pool_width concurrency \<noteq> 1" using begins by auto
    then show ?thesis using Some begins assms(2) unfolding started_def by (intro exI [of _ "Suc n"]) (simp add: following)
  qed
next
  case (answered xs i x ys u w1)
  with assms(3) have "pool_width concurrency = 1 \<Longrightarrow> xs = [] \<and> ys = []" by simp
  then show ?thesis
    using answered assms(2) unfolding started_def by (intro exI [of _ n]) (cases "pool_width concurrency = 1"; simp)
next
  case (failed xs i x ys e w1)
  with assms(3) have "pool_width concurrency = 1 \<Longrightarrow> xs = [] \<and> ys = []" by simp
  then show ?thesis
    using failed assms(2) unfolding started_def by (intro exI [of _ n]) (cases "pool_width concurrency = 1"; simp)
next
  case (landed_late xs i x ys r w1)
  then show ?thesis
    using assms(2) unfolding started_def by (intro exI [of _ n]) (cases "pool_width concurrency = 1"; auto)
next
  case (cancelled xs y ys)
  then show ?thesis
    using assms(2) unfolding started_def
    by (intro exI [of _ n]) (cases "pool_width concurrency = 1"; auto intro: subset_mset.order_trans [OF multi_subset_eq_add])
qed

lemma landed_step:
  assumes "pool_step fn concurrency p q" "land fn (po_landed p) w = (po_failure p, po_world p)"
  shows "land fn (po_landed q) w = (po_failure q, po_world q)"
  using assms by (cases rule: pool_step.cases) (auto simp: land_append split: option.splits sum.splits)

lemma flying_step:
  assumes "pool_step fn concurrency p q" "length (po_flying p) \<le> pool_width concurrency"
  shows "length (po_flying q) \<le> pool_width concurrency"
  using assms by (cases rule: pool_step.cases) (auto split: if_splits)

lemma pool_ok_step: "pool_step fn concurrency p q \<Longrightarrow> pool_ok fn concurrency items w p \<Longrightarrow> pool_ok fn concurrency items w q"
  unfolding pool_ok_def using started_step landed_step flying_step by metis

lemma pool_ok_reachable:
  assumes "(pool_step fn concurrency)\<^sup>*\<^sup>* (pool_of items w) p"
  shows "pool_ok fn concurrency (enumerate 0 items) w p"
  using assms by (induction rule: rtranclp_induct) (auto intro: pool_ok_start pool_ok_step)

text \<open>A pool that is not done can go on, and each step leaves less to do.\<close>

definition left_to_do :: "('a, 's) pool \<Rightarrow> nat" where
  "left_to_do p = 2 * length (po_waiting p) + length (po_flying p)"

lemma pool_goes_on:
  assumes "\<not> pool_done p"
  shows "\<exists>q. pool_step fn concurrency p q"
proof (cases "po_flying p")
  case Nil
  then obtain x xs where "po_failure p = None" "po_waiting p = x # xs"
    using assms by (cases "po_waiting p") (auto simp: pool_done_def)
  moreover have "0 < pool_width concurrency" by (simp add: pool_width_def)
  ultimately show ?thesis using Nil using pool_step.begins [of p concurrency x xs] by auto
next
  case (Cons y ys)
  obtain i x where y: "y = (i, x)" by fastforce
  obtain r w where fn: "fn i x (po_world p) = (r, w)" by fastforce
  have flying: "po_flying p = [] @ (i, x) # ys" using Cons y by simp
  show ?thesis
  proof (cases "po_failure p")
    case None
    then show ?thesis using fn flying pool_step.answered [OF None flying] pool_step.failed [OF None flying] by (cases r) blast+
  next
    case (Some e)
    then show ?thesis using pool_step.cancelled [of p "[]" "(i, x)" ys] flying by blast
  qed
qed

lemma pool_step_less: "pool_step fn concurrency p q \<Longrightarrow> left_to_do q < left_to_do p"
  by (induction rule: pool_step.induct) (auto simp: left_to_do_def)

lemma pool_ends: "\<exists>q. (pool_step fn concurrency)\<^sup>*\<^sup>* p q \<and> pool_done q"
proof (induction "left_to_do p" arbitrary: p rule: less_induct)
  case less
  show ?case
  proof (cases "pool_done p")
    case False
    then obtain q where "pool_step fn concurrency p q" using pool_goes_on by blast
    then show ?thesis using less pool_step_less by (meson converse_rtranclp_into_rtranclp)
  qed auto
qed

text \<open>The outcome of a run.\<close>

lemma for_each_landed:
  assumes "for_each_concurrently fn concurrency items w (r, w')"
  shows "\<exists>order. land fn order w = ((case r of Inl e \<Rightarrow> Some e | Inr _ \<Rightarrow> None), w')
    \<and> mset order \<subseteq># mset (enumerate 0 items) \<and> (r = Inr () \<longrightarrow> mset order = mset (enumerate 0 items))
    \<and> (concurrency \<le> 1 \<longrightarrow> order = take (length order) (enumerate 0 items))"
proof -
  obtain p where p: "(pool_step fn concurrency)\<^sup>*\<^sup>* (pool_of items w) p" "pool_done p"
    "r = (case po_failure p of None \<Rightarrow> Inr () | Some e \<Rightarrow> Inl e)" "w' = po_world p"
    using assms by (auto simp: for_each_concurrently_def)
  obtain n where n: "land fn (po_landed p) w = (po_failure p, po_world p)" "started concurrency (enumerate 0 items) p n"
    using pool_ok_reachable [OF p(1)] by (auto simp: pool_ok_def)
  have flying: "po_flying p = []" using p(2) by (simp add: pool_done_def)
  have "mset (take n (enumerate 0 items)) \<subseteq># mset (enumerate 0 items)"
    by (metis append_take_drop_id mset_append mset_subset_eq_add_left)
  then have "mset (po_landed p) \<subseteq># mset (enumerate 0 items)"
    using n(2) flying by (auto simp: started_def split: if_splits intro: subset_mset.order_trans)
  moreover have "mset (po_landed p) = mset (enumerate 0 items)" if "r = Inr ()"
  proof -
    have "po_failure p = None" "po_waiting p = []" using that p(2,3) by (auto simp: pool_done_def split: option.splits)
    then show ?thesis using n(2) flying by (simp add: started_def)
  qed
  moreover have "po_landed p = take (length (po_landed p)) (enumerate 0 items)" if "concurrency \<le> 1"
  proof -
    have "po_landed p = take n (enumerate 0 items)" using n(2) flying that by (simp add: started_def pool_width_def)
    then show ?thesis by (metis length_take min.commute min_def take_all_iff nle_le)
  qed
  moreover have "po_failure p = (case r of Inl e \<Rightarrow> Some e | Inr _ \<Rightarrow> None)" using p(3) by (simp split: option.splits)
  ultimately show ?thesis using n(1) p(4) by (intro exI [of _ "po_landed p"]) auto
qed

text \<open>With a concurrency of one the pool is the loop.\<close>

fun send_all :: "(nat \<Rightarrow> 'a \<Rightarrow> ('s, unit) step) \<Rightarrow> (nat \<times> 'a) list \<Rightarrow> ('s, unit) step" where
  "send_all fn [] w = (Inr (), w)"
| "send_all fn ((i, x) # xs) w = (case fn i x w of (Inl e, w1) \<Rightarrow> (Inl e, w1) | (Inr _, w1) \<Rightarrow> send_all fn xs w1)"

lemma send_each_all: "send_each fn i xs = send_all fn (enumerate i xs)"
  by (induction xs arbitrary: i) (auto simp: fun_eq_iff bind_step_def split: sum.split prod.split)

definition runs_on :: "(nat \<Rightarrow> 'a \<Rightarrow> ('s, unit) step) \<Rightarrow> (nat \<times> 'a) list \<Rightarrow> 's \<Rightarrow> ('a, 's) pool \<Rightarrow> bool" where
  "runs_on fn items w p \<longleftrightarrow> length (po_flying p) \<le> 1 \<and> (case po_failure p of
     None \<Rightarrow> send_all fn (po_flying p @ po_waiting p) (po_world p) = send_all fn items w
   | Some e \<Rightarrow> po_flying p = [] \<and> send_all fn items w = (Inl e, po_world p))"

lemma runs_on_step:
  assumes "pool_step fn concurrency p q" "concurrency \<le> 1" "runs_on fn items w p"
  shows "runs_on fn items w q"
  using assms by (cases rule: pool_step.cases) (auto simp: runs_on_def pool_width_def split: option.splits)

lemma runs_on_reachable:
  assumes "(pool_step fn concurrency)\<^sup>*\<^sup>* (pool_of items w) p" "concurrency \<le> 1"
  shows "runs_on fn (enumerate 0 items) w p"
  using assms(1)
proof (induction rule: rtranclp_induct)
  case base
  then show ?case by (simp add: runs_on_def pool_of_def)
qed (rule runs_on_step [OF _ assms(2)])

lemma sequential_outcome:
  assumes "concurrency \<le> 1"
  shows "for_each_concurrently fn concurrency items w r \<longleftrightarrow> r = send_each fn 0 items w"
proof -
  have "((case po_failure p of None \<Rightarrow> Inr () | Some e \<Rightarrow> Inl e), po_world p) = send_each fn 0 items w"
    if "(pool_step fn concurrency)\<^sup>*\<^sup>* (pool_of items w) p" "pool_done p" for p
    using runs_on_reachable [OF that(1) assms] that(2)
    by (auto simp: runs_on_def pool_done_def send_each_all split: option.splits)
  then show ?thesis
    using pool_ends [of fn concurrency "pool_of items w"] unfolding for_each_concurrently_def by metis
qed

subsection \<open>URLs\<close>

lemma utf8_bytes: "list_all (\<lambda>b. b < 256) (utf8 s)"
proof -
  have "(of_char c :: nat) div 64 < 64" for c :: char
    by (rule less_mult_imp_div_less, rule less_trans [OF nat_of_char_less_256]) simp
  then show ?thesis by (auto simp: utf8_def Let_def list_all_iff split: if_splits)
qed

lemma filter_quoted: "filter (\<lambda>x. \<not> unreserved x \<and> x \<noteq> CHR ''%'') (url_quote s) = []"
proof -
  have "unreserved (hex_upper n)" if "n < 16" for n
    using that by (cases "n < 10") (simp_all add: unreserved_def hex_upper_def of_char_of Let_def)
  then have "filter (\<lambda>x. \<not> unreserved x \<and> x \<noteq> CHR ''%'') (percent b) = []" if "b < 256" for b
    using that by (simp add: percent_def)
  moreover have "b < 256" if "b \<in> set (utf8 s)" for b using utf8_bytes that by (auto simp: list_all_iff)
  ultimately show ?thesis by (auto simp: url_quote_def filter_concat)
qed

fun literals :: "piece list \<Rightarrow> string" where
  "literals [] = []"
| "literals (Literal c # ps) = c # literals ps"
| "literals (Placeholder f # ps) = literals ps"

lemma substituted_shape:
  assumes "substitute_pieces lookup ps = Inr t" "\<And>f u. lookup f = Inr u \<Longrightarrow> filter P u = []"
  shows "filter P t = filter P (literals ps)"
  using assms(1)
proof (induction ps arbitrary: t)
  case (Cons q ps)
  show ?case
  proof (cases q)
    case (Literal c)
    then obtain u where "substitute_pieces lookup ps = Inr u" "t = c # u"
      using Cons.prems by (cases "substitute_pieces lookup ps") auto
    then show ?thesis using Cons.IH Literal by simp
  next
    case (Placeholder f)
    then obtain x u where "lookup f = Inr x" "substitute_pieces lookup ps = Inr u" "t = x @ u"
      using Cons.prems by (cases "substitute_pieces lookup ps") (auto split: sum.splits)
    then show ?thesis using Cons.IH Placeholder assms(2) by simp
  qed
qed simp

text \<open>Quoting loses nothing.\<close>

definition hex_value :: "char \<Rightarrow> nat" where
  "hex_value c = (let n = (of_char c :: nat) in if n < 58 then n - 48 else n - 55)"

fun url_unquote :: "string \<Rightarrow> nat list" where
  "url_unquote [] = []"
| "url_unquote (c # cs) = (case cs of
     x # y # rest \<Rightarrow> if c = CHR ''%'' then (hex_value x * 16 + hex_value y) # url_unquote rest else of_char c # url_unquote cs
   | _ \<Rightarrow> of_char c # url_unquote cs)"

lemma hex_value_upper: "n < 16 \<Longrightarrow> hex_value (hex_upper n) = n"
  by (auto simp: hex_value_def hex_upper_def of_char_of)

lemma unquote_cons:
  assumes "b < 256"
  shows "url_unquote ((if b < 128 \<and> unreserved (char_of b) then [char_of b] else percent b) @ t) = b # url_unquote t"
proof (cases "b < 128 \<and> unreserved (char_of b)")
  case True
  moreover from this have code: "(of_char (char_of b :: char) :: nat) = b" by (simp add: of_char_of)
  moreover have "\<not> unreserved CHR ''%''" by (simp add: unreserved_def)
  ultimately have "char_of b \<noteq> CHR ''%''" by auto
  then show ?thesis using True code by (auto split: list.split)
next
  case False
  then show ?thesis using assms by (auto simp: percent_def hex_value_upper)
qed

lemma unquote_quote: "url_unquote (url_quote s) = utf8 s"
proof -
  have "url_unquote (concat (map (\<lambda>b. if b < 128 \<and> unreserved (char_of b) then [char_of b] else percent b) bs)) = bs"
    if "list_all (\<lambda>b. b < 256) bs" for bs
    using that by (induction bs) (simp_all only: list.map concat.simps list.pred_inject unquote_cons url_unquote.simps)
  from this [OF utf8_bytes] show ?thesis by (simp only: url_quote_def)
qed

subsection \<open>Messages\<close>

text \<open>A broker whose log grows by the messages it acknowledges; a message that was not may be in
  it all the same.\<close>

definition keeps_log :: "'w kafka \<Rightarrow> ('w \<Rightarrow> kafka_message list) \<Rightarrow> bool" where
  "keeps_log K topic_log \<longleftrightarrow> (\<forall>m w e w1. kk_send K m w = (e, w1) \<longrightarrow>
     topic_log w1 = topic_log w @ [m] \<or> e \<noteq> None \<and> topic_log w1 = topic_log w)"

text \<open>A message is written for each record that landed.\<close>

lemma land_messages:
  assumes "keeps_log K topic_log" "land (send_message K d per_record base) order w = (None, w1)"
  shows "\<exists>ms. topic_log w1 = topic_log w @ ms
    \<and> map (\<lambda>(i, r). kafka_message_of K d per_record base i r) order = map Inr ms"
  using assms(2)
proof (induction order arbitrary: w)
  case (Cons x order)
  obtain i r where x: "x = (i, r)" by fastforce
  obtain u w2 where fn: "send_message K d per_record base i r w = (Inr u, w2)"
    and tail: "land (send_message K d per_record base) order w2 = (None, w1)"
    using Cons.prems by (auto simp: x split: prod.splits sum.splits)
  obtain m where m: "kafka_message_of K d per_record base i r = Inr m" "kk_send K m w = (None, w2)"
    using fn by (auto simp: send_message_def split: sum.splits prod.splits option.splits)
  have "topic_log w2 = topic_log w @ [m]" using assms(1) m(2) unfolding keeps_log_def by fastforce
  moreover obtain ms where "topic_log w1 = topic_log w2 @ ms"
    "map (\<lambda>(i, r). kafka_message_of K d per_record base i r) order = map Inr ms"
    using Cons.IH [OF tail] by blast
  ultimately show ?case using m(1) by (intro exI [of _ "m # ms"]) (simp add: x)
qed simp

lemma own_first:
  assumes "build_headers K d records base = Inr (Some hss)" "i < length records"
  shows "\<exists>own. own_headers K d (length records) i (records ! i) = Inr own
    \<and> hss ! i = filter (\<lambda>h. fst h \<notin> fst ` set own) base @ own"
proof -
  let ?f = "\<lambda>(index, record). map_sum id (\<lambda>own. filter (\<lambda>h. fst h \<notin> fst ` set own) base @ own)
      (own_headers K d (length records) index record)"
  have "map_sum id Some (sequence (map ?f (enumerate 0 records))) = Inr (Some hss)"
    using assms(1) unfolding build_headers_def by (simp split: if_split_asm)
  then have "sequence (map ?f (enumerate 0 records)) = Inr hss" by (cases "sequence (map ?f (enumerate 0 records))") simp_all
  then have parts: "map ?f (enumerate 0 records) = map Inr hss" by (simp only: sequence_Inr_iff)
  have "length hss = length records" using arg_cong [OF parts, of length] by simp
  with assms(2) have "?f (i, records ! i) = Inr (hss ! i)"
    using arg_cong [OF parts, of "\<lambda>xs. xs ! i"] assms(2) by (simp add: nth_enumerate_eq)
  then show ?thesis by (cases "own_headers K d (length records) i (records ! i)") simp_all
qed

subsection \<open>Identity\<close>

lemma new_api_keys:
  assumes "new_api_destination kw = Inr c"
  shows "dkeys c = sg_names api_destination_signature"
proof -
  let ?store = "\<lambda>(k, v). if k = ''method'' \<or> k = ''headers'' then api_store k v else Inr v"
  obtain a where a: "construct api_destination_signature kw = Inr a" "map_sum id (zip (dkeys a)) (sequence (map ?store a)) = Inr c"
    using assms unfolding new_api_destination_def by (simp split: sum.split_asm)
  obtain vs where v: "sequence (map ?store a) = Inr vs" "c = zip (dkeys a) vs"
    using a(2) by (cases "sequence (map ?store a)") simp_all
  then have vs: "map ?store a = map Inr vs" by (simp only: sequence_Inr_iff)
  have "length vs = length a" using arg_cong [OF vs, of length] by simp
  then have "dkeys c = dkeys a" by (simp add: v(2) dkeys_def)
  obtain ws where w: "sequence (map (argument api_destination_signature kw) (sg_params api_destination_signature)) = Inr ws"
    "a = zip (sg_names api_destination_signature) ws @ dfilter (\<lambda>k. k \<notin> set (sg_names api_destination_signature)) kw"
    and extra: "dfilter (\<lambda>k. k \<notin> set (sg_names api_destination_signature)) kw = []"
    using a(1) unfolding construct_def Let_def
    by (simp split: if_split_asm sum.split_asm) (simp add: api_destination_signature_def)
  then have "map (argument api_destination_signature kw) (sg_params api_destination_signature) = map Inr ws"
    by (simp only: sequence_Inr_iff)
  from arg_cong [OF this, of length] have "dkeys a = sg_names api_destination_signature"
    using w(2) extra by (simp add: dkeys_def sg_names_def)
  with \<open>dkeys c = dkeys a\<close> show ?thesis by simp
qed

definition settings_of :: "pyval list \<Rightarrow> pyval \<Rightarrow> pyval \<Rightarrow> pyval \<Rightarrow> pyval \<Rightarrow> pydict" where
  "settings_of vs per_record body_field concurrency params_field =
     zip [''url'', ''method'', ''headers'', ''auth_type'', ''auth_token'', ''timeout'', ''params'', ''body'', ''health_check_enabled''] vs @
     [(''per_record'', per_record), (''body_field'', body_field), (''concurrency'', concurrency), (''params_field'', params_field)]"

lemma nine: "length vs = 9 \<Longrightarrow> \<exists>a b c d e f g h i. vs = [a, b, c, d, e, f, g, h, i]"
  by (auto simp: numeral_eq_Suc length_Suc_conv)

lemma api_settings_of:
  assumes "new_api_destination kw = Inr c"
  obtains vs pr bf n pf where "length vs = 9" "c = settings_of vs pr bf n pf"
proof -
  obtain v1 v2 v3 v4 v5 v6 v7 v8 v9 pr bf n pf where
    "c = [(''url'', v1), (''method'', v2), (''headers'', v3), (''auth_type'', v4), (''auth_token'', v5), (''timeout'', v6),
      (''params'', v7), (''body'', v8), (''health_check_enabled'', v9), (''per_record'', pr), (''body_field'', bf),
      (''concurrency'', n), (''params_field'', pf)]"
    using new_api_keys [OF assms] by (auto simp: dkeys_def sg_names_def api_destination_signature_def map_eq_Cons_conv)
  then have "c = settings_of [v1, v2, v3, v4, v5, v6, v7, v8, v9] pr bf n pf" by (simp add: settings_of_def)
  then show ?thesis by (rule that [rotated]) simp
qed

lemma identity_of_settings:
  assumes "length vs = 9"
  shows "api_identity_config (settings_of vs (PBool b) bf n pf) =
    zip [''url'', ''method'', ''headers'', ''auth_type'', ''auth_token'', ''timeout'', ''params'', ''body'', ''health_check_enabled''] vs @
    (if b then [(''per_record'', PBool b)] else []) @ (if pf = PNone then [] else [(''params_field'', pf)]) @
    (if bf = PNone then [] else [(''key_field'', bf)])"
  using nine [OF assms]
  by (elim exE; cases b; cases "bf = PNone"; cases "pf = PNone")
    (simp_all add: api_identity_config_def settings_of_def dfilter_def dget_or_def)

lemma speed_of_settings:
  assumes "length vs = 9"
  shows "dfilter (\<lambda>k. k \<noteq> ''concurrency'') (settings_of vs pr bf n pf) =
    zip [''url'', ''method'', ''headers'', ''auth_type'', ''auth_token'', ''timeout'', ''params'', ''body'', ''health_check_enabled''] vs @
    [(''per_record'', pr), (''body_field'', bf), (''params_field'', pf)]"
  using nine [OF assms] by (elim exE) (simp add: settings_of_def dfilter_def)

lemma per_record_of_settings: "length vs = 9 \<Longrightarrow> dget (settings_of vs pr bf n pf) ''per_record'' = Some pr"
  by (drule nine, elim exE) (simp add: settings_of_def)

section \<open>Properties\<close>

text \<open>C38: A send with retries returns, whatever the destination does: after at most \<open>max_attempts\<close>
  attempts (one, if that is not positive) with a pause between them, its outcome is that of
  the last one; every earlier one failed with a \<open>DestinationError\<close>, and it gives up on such an
  error only after the last attempt allowed. Any other error is never retried.\<close>

theorem send_with_retry_stops:
  assumes "documented T"
  shows "\<exists>j. j < max 1 (nat (max_attempts c))
    \<and> send_with_retry T c pause send s = Some (send (after_attempts T c pause send j s))
    \<and> (\<forall>i < j. fails_again send (after_attempts T c pause send i s))
    \<and> (fails_again send (after_attempts T c pause send j s) \<longrightarrow> Suc j = max 1 (nat (max_attempts c)))"
proof -
  have "\<And>n k. stops_after T n k \<longleftrightarrow> n \<le> int k" using assms by (simp add: documented_def)
  from retry_loop_from [where k = 0 and c = c and pause = pause and send = send and s = s, OF this refl] obtain j where j: "j < max (Suc 0) (nat (max_attempts c))"
    "retry_loop T c pause send (Suc 0) (after_attempts T c pause send 0 s) = Some (send (after_attempts T c pause send j s))"
    "\<forall>i. 0 \<le> i \<and> i < j \<longrightarrow> fails_again send (after_attempts T c pause send i s)"
    "fails_again send (after_attempts T c pause send j s) \<longrightarrow> max_attempts c \<le> int (Suc j)" by blast
  moreover have "Suc j = max 1 (nat (max_attempts c))" if "max_attempts c \<le> int (Suc j)" using j(1) that by auto
  ultimately show ?thesis by (intro exI [of _ j]) (auto simp: send_with_retry_def)
qed

text \<open>An endpoint that is down for a number of calls.\<close>

definition down_for :: "(nat, unit) step" where
  "down_for n = (if n = 0 then (Inr (), 0) else (Inl (destination_error ''api'' ''HTTP 503''), n - 1))"

definition some_tenacity :: tenacity where
  "some_tenacity = \<lparr>stops_after = (\<lambda>n k. n \<le> int k), exponential_wait = (\<lambda>c k. max_wait_seconds c)\<rparr>"

theorem send_with_retry_stops_witness:
  "send_with_retry some_tenacity default_retry_config (\<lambda>_ n. n) down_for 2 = Some (Inr (), 0)
    \<and> send_with_retry some_tenacity default_retry_config (\<lambda>_ n. n) down_for 5 = Some (Inl (destination_error ''api'' ''HTTP 503''), 2)"
proof -
  let ?after = "after_attempts some_tenacity default_retry_config (\<lambda>_ n. n) down_for"
  have doc: "documented some_tenacity" by (simp add: documented_def some_tenacity_def)
  have n: "max 1 (nat (max_attempts default_retry_config)) = 3" by (simp add: default_retry_config_def)
  have fails: "fails_again down_for n \<longleftrightarrow> 0 < n" for n
    by (simp add: fails_again_def down_for_def is_destination_error_def destination_error_def)
  have "snd (down_for m) = m - 1" for m by (simp add: down_for_def)
  then have after: "?after j m = m - j" for j m by (induction j) simp_all
  note stops = send_with_retry_stops [OF doc, of default_retry_config "\<lambda>_ n. n" down_for, unfolded n after fails]
  obtain j where j: "send_with_retry some_tenacity default_retry_config (\<lambda>_ n. n) down_for 2 = Some (down_for (2 - j))"
    "j < 3 \<and> (0 < 2 - j \<longrightarrow> Suc j = 3)" using stops [of 2] by (elim exE conjE) (rule that, assumption, rule conjI)
  obtain k where k: "send_with_retry some_tenacity default_retry_config (\<lambda>_ n. n) down_for 5 = Some (down_for (5 - k))"
    "k < 3 \<and> (0 < 5 - k \<longrightarrow> Suc k = 3)" using stops [of 5] by (elim exE conjE) (rule that, assumption, rule conjI)
  from j(2) have "2 - j = 0" by auto
  moreover from k(2) have "k = 2" by auto
  ultimately show ?thesis using j(1) k(1) by (simp add: down_for_def)
qed


text \<open>Two items on an endpoint that writes them down, the first of which it refuses.\<close>

definition refuses_first :: "nat \<Rightarrow> string \<Rightarrow> (string list, unit) step" where
  "refuses_first i x w = (if i = 0 then (Inl (KeyError x), w) else (Inr (), w @ [x]))"




text \<open>A topic that acknowledges everything, and a destination with a header per record.\<close>

definition some_kafka :: "kafka_message list kafka" where
  "some_kafka =
     \<lparr>kk_start = (\<lambda>_ w. (None, w)), kk_send = (\<lambda>m w. (None, w @ [m])), kk_stop = (\<lambda>w. w),
      kk_str = (\<lambda>v. case v of PStr s \<Rightarrow> s | _ \<Rightarrow> []), kk_float = (\<lambda>_. []), kk_partitions = (\<lambda>_ _. Inr []),
      kk_end_offsets = (\<lambda>_ _. Inr (\<lambda>_. None)), kk_committed = (\<lambda>_. Inr (\<lambda>_. None)), kk_timed_out = False,
      kk_ssl_default = PNone, kk_accepts = (\<lambda>_. False)\<rparr>"

definition some_topic :: kafka_destination where
  "some_topic =
     \<lparr>kd_config = [(''topic'', PStr ''out''), (''concurrency'', PInt 1), (''headers'', PDict [(''tenant'', PStr ''{t}'')])],
      kd_headers_fn = None, kd_ssl_context = None\<rparr>"

definition some_records :: "pyval list" where
  "some_records = [PDict [(''t'', PStr ''a'')], PDict [(''t'', PStr ''b'')]]"

definition sent_messages :: "kafka_message list" where
  "sent_messages = map (\<lambda>(t, v). \<lparr>km_topic = PStr ''out'', km_value = utf8 v,
     km_headers = Some [(''execution_id'', Some (utf8 ''e'')), (''tenant'', Some (utf8 t))]\<rparr>)
     [(''a'', ''{\"t\": \"a\"}''), (''b'', ''{\"t\": \"b\"}'')]"


text \<open>Where a destination writes, for content deduplication, is its config without its
  speed: two API destinations have the same identity exactly if their configs agree in
  everything but \<open>concurrency\<close>. So a change of concurrency makes no record look new, and a
  change of anything else does.\<close>

theorem api_identity_is_all_but_speed:
  assumes "new_api_destination kw = Inr c" "new_api_destination kw' = Inr c'"
    and "dget c ''per_record'' = Some (PBool b)" "dget c' ''per_record'' = Some (PBool b')"
  shows "api_identity_config c = api_identity_config c' \<longleftrightarrow>
    dfilter (\<lambda>k. k \<noteq> ''concurrency'') c = dfilter (\<lambda>k. k \<noteq> ''concurrency'') c'"
proof -
  obtain vs pr bf n pf where d: "length vs = 9" "c = settings_of vs pr bf n pf" using api_settings_of [OF assms(1)] .
  then have c: "length vs = 9" "c = settings_of vs (PBool b) bf n pf" using assms(3) per_record_of_settings by simp_all
  obtain vs' pr' bf' n' pf' where d': "length vs' = 9" "c' = settings_of vs' pr' bf' n' pf'" using api_settings_of [OF assms(2)] .
  then have c': "length vs' = 9" "c' = settings_of vs' (PBool b') bf' n' pf'" using assms(4) per_record_of_settings by simp_all
  let ?rest = "\<lambda>b bf pf. (if b then [(''per_record'', PBool b)] else []) @
      (if pf = PNone then [] else [(''params_field'', pf)]) @ (if bf = PNone then [] else [(''key_field'', bf)])"
  have "?rest b bf pf = ?rest b' bf' pf' \<longleftrightarrow> b = b' \<and> bf = bf' \<and> pf = pf'"
    by (cases b; cases b'; cases "bf = PNone"; cases "bf' = PNone"; cases "pf = PNone"; cases "pf' = PNone"; simp; blast)
  then show ?thesis
    unfolding c(2) c'(2) identity_of_settings [OF c(1)] identity_of_settings [OF c'(1)] speed_of_settings [OF c(1)]
      speed_of_settings [OF c'(1)] using c(1) c'(1) by (auto simp: append_eq_append_conv)
qed

text \<open>One destination in two speeds.\<close>

definition some_api :: "int \<Rightarrow> pydict" where
  "some_api n = [(''url'', PStr ''http://x/{id}''), (''per_record'', PBool True), (''concurrency'', PInt n)]"

theorem api_identity_is_all_but_speed_witness:
  "\<exists>c c'. new_api_destination (some_api 1) = Inr c \<and> new_api_destination (some_api 8) = Inr c' \<and> c \<noteq> c'
    \<and> api_identity_config c = api_identity_config c'"
proof -
  obtain c c' where new: "new_api_destination (some_api 1) = Inr c" "new_api_destination (some_api 8) = Inr c'"
    and per: "dget c ''per_record'' = Some (PBool True)" "dget c' ''per_record'' = Some (PBool True)"
    and same: "dfilter (\<lambda>k. k \<noteq> ''concurrency'') c = dfilter (\<lambda>k. k \<noteq> ''concurrency'') c'" and "c \<noteq> c'"
  proof -
    let ?c = "\<lambda>n. settings_of [PStr ''http://x/{id}'', PStr ''POST'', PDict [], PNone, PNone, PFloat 30, PNone, PNone, PBool True]
      (PBool True) PNone (PInt n) PNone"
    have "new_api_destination (some_api 1) = Inr (?c 1)" "new_api_destination (some_api 8) = Inr (?c 8)" by code_simp+
    then show ?thesis by (rule that) (simp_all add: settings_of_def dfilter_def)
  qed
  then show ?thesis using api_identity_is_all_but_speed [OF new per] by blast
qed

end
