(* ===== verification/Preview.thy ===== *)
theory Preview
  imports Pipelines
begin

text \<open>
  Runs inside one process, without the manager: the status record of an execution
  (\<open>execution/base.py\<close>) and the local executor (\<open>execution/local_executor.py\<close>), which
  plans the slices as the manager does and runs each through \<open>run_job_records\<close>. The world is
  what the destinations can reach; a destination is a parameter: its health check and its
  \<open>send_with_retry\<close>, both coroutines. Calling an \<open>async def\<close> gives its coroutine; the body
  runs when it is awaited, and only then.
\<close>

subsection \<open>The status of an execution\<close>

datatype run_state = RunPending | RunRunning | RunCompleted | RunFailed | RunPartiallyFailed

fun run_state_value :: "run_state \<Rightarrow> string" where
  "run_state_value RunPending = ''pending''"
| "run_state_value RunRunning = ''running''"
| "run_state_value RunCompleted = ''completed''"
| "run_state_value RunFailed = ''failed''"
| "run_state_value RunPartiallyFailed = ''partially_failed''"

record execution_status =
  xs_execution_id :: string
  xs_pipeline_name :: string
  xs_state :: run_state
  xs_total_jobs :: int
  xs_completed_jobs :: int
  xs_failed_jobs :: int
  xs_retry_count :: int
  xs_error_message :: "string option"
  xs_metadata :: pydict

definition new_status :: "string \<Rightarrow> string \<Rightarrow> run_state \<Rightarrow> int \<Rightarrow> execution_status" where
  "new_status eid pipeline_name st total_jobs =
     \<lparr>xs_execution_id = eid, xs_pipeline_name = pipeline_name, xs_state = st, xs_total_jobs = total_jobs,
      xs_completed_jobs = 0, xs_failed_jobs = 0, xs_retry_count = 0, xs_error_message = None, xs_metadata = []\<rparr>"

definition status_success_rate :: "execution_status \<Rightarrow> rat" where
  "status_success_rate s = (if xs_total_jobs s = 0 then 0 else of_int (xs_completed_jobs s) / of_int (xs_total_jobs s))"

definition is_complete :: "execution_status \<Rightarrow> bool" where
  "is_complete s \<longleftrightarrow> xs_state s \<in> {RunCompleted, RunFailed, RunPartiallyFailed}"

definition status_to_dict :: "execution_status \<Rightarrow> pydict" where
  "status_to_dict s =
     [(''execution_id'', PStr (xs_execution_id s)), (''pipeline_name'', PStr (xs_pipeline_name s)),
      (''state'', PStr (run_state_value (xs_state s))), (''total_jobs'', PInt (xs_total_jobs s)),
      (''completed_jobs'', PInt (xs_completed_jobs s)), (''failed_jobs'', PInt (xs_failed_jobs s)),
      (''retry_count'', PInt (xs_retry_count s)), (''success_rate'', PFloat (status_success_rate s)),
      (''error_message'', case xs_error_message s of None \<Rightarrow> PNone | Some m \<Rightarrow> PStr m),
      (''metadata'', PDict (xs_metadata s))]"

subsection \<open>Coroutines and the parameters of a local run\<close>

type_synonym ('w, 'a) coroutine = "('w, 'a) step"

definition call_async :: "('w, 'a) coroutine \<Rightarrow> ('w, ('w, 'a) coroutine) step" where
  "call_async c = return_step c"

definition await :: "('w, 'a) coroutine \<Rightarrow> ('w, 'a) step" where
  "await c = c"

text \<open>The sources' \<open>fetch\<close>, the destinations, the pipeline's hooks after the plan, and what the
  uuid module and the clock gave the context.\<close>

record ('d, 'w) local_env =
  pv_concurrency :: string
  pv_order :: "nat \<Rightarrow> nat list"
  pv_fetch :: "slice \<Rightarrow> pyval list hook"
  pv_health :: "'d \<Rightarrow> ('w, bool) coroutine"
  pv_send :: "'d \<Rightarrow> pyval list \<Rightarrow> pydict \<Rightarrow> ('w, unit) coroutine"
  pv_steps :: "'d JobRunner.pipeline"
  pv_batch_id :: string
  pv_created_at :: string

definition run_slice :: "('d, 'w) local_env \<Rightarrow> nat \<Rightarrow> slice \<Rightarrow> 'd outcome hook" where
  "run_slice X limit sub = run_job_records (pv_concurrency X) (pv_order X) (pv_fetch X sub) (pv_steps X) (Some limit)"

definition no_attribute :: "string \<Rightarrow> string \<Rightarrow> py_error" where
  "no_attribute t attr = OtherError ''AttributeError'' (quoted t @ '' object has no attribute '' @ quoted attr)"

definition context_value :: "('d, 'w) local_env \<Rightarrow> string \<Rightarrow> string \<Rightarrow> string \<Rightarrow> pyval" where
  "context_value X eid pipeline_name k =
     (if k = ''execution_id'' then PStr eid else if k = ''batch_id'' then PStr (pv_batch_id X)
      else if k = ''pipeline_name'' then PStr pipeline_name else if k = ''created_at'' then PStr (pv_created_at X)
      else if k = ''is_retry'' then PBool False else PInt 0)"

subsection \<open>The local executor\<close>

text \<open>The send statement of both loops: the coroutine is made and dropped.\<close>

definition call_send :: "('d, 'w) local_env \<Rightarrow> 'd outcome \<Rightarrow> pydict \<Rightarrow> ('w, unit) step" where
  "call_send X oc params =
     (case oc_destination oc of
        None \<Rightarrow> raise_step (no_attribute ''NoneType'' ''send_with_retry'')
      | Some d \<Rightarrow> bind_step (call_async (pv_send X d (oc_transformed oc) params)) (\<lambda>_. return_step ()))"

text \<open>The loop over the planned slices, each with its own params. The plan is a generator: the
  error \<open>e\<close> at its end is met only when the loop gets there.\<close>

fun slice_loop ::
  "('d, 'w) local_env \<Rightarrow> int \<Rightarrow> pydict \<Rightarrow> slice list \<Rightarrow> py_error option \<Rightarrow> nat \<Rightarrow> nat \<Rightarrow> ('w, nat \<times> nat) step" where
  "slice_loop X max_records flat [] e fetched sent =
     (case e of None \<Rightarrow> return_step (fetched, sent) | Some x \<Rightarrow> raise_step x)"
| "slice_loop X max_records flat (sub # subs) e fetched sent =
     (let remaining = max_records - int fetched in
      if remaining \<le> 0 then return_step (fetched, sent)
      else case run_slice X (nat remaining) sub (job_runtime_params sub flat) of
          (Inl x, _) \<Rightarrow> raise_step x
        | (Inr oc, params) \<Rightarrow>
            if oc_records oc = [] then slice_loop X max_records flat subs e fetched sent
            else bind_step (call_send X oc params) (\<lambda>_.
                 slice_loop X max_records flat subs e
                   (fetched + length (oc_records oc)) (sent + length (oc_transformed oc))))"

definition completed_status :: "nat \<times> nat \<Rightarrow> execution_status \<Rightarrow> execution_status" where
  "completed_status totals s =
     (case totals of (fetched, sent) \<Rightarrow>
        s\<lparr>xs_state := RunCompleted, xs_completed_jobs := 1,
          xs_metadata := (if fetched = 0 then [(''records_count'', PInt 0)]
            else [(''records_fetched'', PInt (int fetched)), (''records_sent'', PInt (int sent))])\<rparr>)"

definition failed_status :: "int \<Rightarrow> py_error \<Rightarrow> execution_status \<Rightarrow> execution_status" where
  "failed_status failed_jobs e s = s\<lparr>xs_state := RunFailed, xs_failed_jobs := failed_jobs, xs_error_message := Some (error_text e)\<rparr>"

text \<open>An invalid run raises before the \<open>try\<close> statement; \<open>pipeline.source\<close> is read inside it.\<close>

definition execute_standard ::
  "('d, 'w) local_env \<Rightarrow> python \<Rightarrow> int \<Rightarrow> pipeline \<Rightarrow> pydict \<Rightarrow> string \<Rightarrow> ('w, execution_status) step" where
  "execute_standard X P max_records p runtime_params eid =
     (case resolve P p runtime_params of
        Inl e \<Rightarrow> raise_step e
      | Inr (resolved_params, src) \<Rightarrow>
          (let flat = build_flat_runtime_params resolved_params (context_value X eid (pd_name p)) None;
               status = new_status eid (pd_name p) RunRunning 1 in
           try_step
             (case resolved_source src of
                Inl e \<Rightarrow> raise_step e
              | Inr source \<Rightarrow>
                  (case plan_slices source flat of (subs, e) \<Rightarrow>
                     bind_step (slice_loop X max_records flat subs e 0 0)
                       (\<lambda>totals. return_step (completed_status totals status))))
             is_exception
             (\<lambda>e. return_step (failed_status 1 e status))))"

text \<open>The loop over the slices of one id: the slices share one dict of params.\<close>

fun id_slice_loop ::
  "('d, 'w) local_env \<Rightarrow> int \<Rightarrow> pydict \<Rightarrow> slice list \<Rightarrow> py_error option \<Rightarrow> nat \<Rightarrow> nat \<Rightarrow> ('w, nat \<times> nat) step" where
  "id_slice_loop X max_records params [] e fetched sent =
     (case e of None \<Rightarrow> return_step (fetched, sent) | Some x \<Rightarrow> raise_step x)"
| "id_slice_loop X max_records params (sub # subs) e fetched sent =
     (let remaining = max_records - int fetched in
      if remaining \<le> 0 then return_step (fetched, sent)
      else case run_slice X (nat remaining) sub params of
          (Inl x, _) \<Rightarrow> raise_step x
        | (Inr oc, params') \<Rightarrow>
            if oc_records oc = [] then id_slice_loop X max_records params' subs e fetched sent
            else bind_step (call_send X oc params') (\<lambda>_.
                 id_slice_loop X max_records params' subs e
                   (fetched + length (oc_records oc)) (sent + length (oc_transformed oc))))"

record 'w id_run =
  ir_world :: 'w
  ir_completed :: nat

definition on_destinations :: "('w, 'a) step \<Rightarrow> ('w id_run, 'a) step" where
  "on_destinations m s = (case m (ir_world s) of (r, w) \<Rightarrow> (r, s\<lparr>ir_world := w\<rparr>))"

definition count_id :: "('w id_run, unit) step" where
  "count_id = write_step (\<lambda>s. s\<lparr>ir_completed := ir_completed s + 1\<rparr>)"

fun id_loop ::
  "('d, 'w) local_env \<Rightarrow> int \<Rightarrow> pipeline \<Rightarrow> (pydict, id_returned) step \<Rightarrow> pydict \<Rightarrow> string \<Rightarrow> pyval list \<Rightarrow> nat \<Rightarrow> nat \<Rightarrow>
     ('w id_run, nat \<times> nat) step" where
  "id_loop X max_records p hook params eid [] fetched sent = return_step (fetched, sent)"
| "id_loop X max_records p hook params eid (current # rest) fetched sent =
     (case resolve_for_ids (pd_name p) hook params [current] of
        Inl e \<Rightarrow> raise_step e
      | Inr (b, own) \<Rightarrow>
          (let flat = dset (build_flat_runtime_params own (context_value X eid (pd_name p)) (Some (PList [current])))
                 ''current_id'' current in
           case plan_slices (Splitting b) flat of (subs, e) \<Rightarrow>
             bind_step (on_destinations (id_slice_loop X max_records flat subs e 0 0)) (\<lambda>(id_fetched, id_sent).
             bind_step count_id (\<lambda>_.
             if id_fetched = 0 then id_loop X max_records p hook params eid rest fetched sent
             else id_loop X max_records p hook params eid rest (fetched + id_fetched) (sent + id_sent)))))"

text \<open>\<open>params.get("input_ids", [])\<close>, then its length.\<close>

definition input_ids :: "pydict \<Rightarrow> py_error + pyval list" where
  "input_ids params = (case dget_or params ''input_ids'' (PList []) of
     PList is \<Rightarrow> Inr is | _ \<Rightarrow> Inl (TypeError ''input_ids has no len()''))"

definition execute_id_based ::
  "('d, 'w) local_env \<Rightarrow> python \<Rightarrow> int \<Rightarrow> pipeline \<Rightarrow> (pydict, id_returned) step \<Rightarrow> pydict \<Rightarrow> string \<Rightarrow>
     ('w, execution_status) step" where
  "execute_id_based X P max_records p hook runtime_params eid w =
     (case resolve P p runtime_params of
        Inl e \<Rightarrow> (Inl e, w)
      | Inr _ \<Rightarrow>
     (case get_all_parameters P p of
        Inl e \<Rightarrow> (Inl e, w)
      | Inr ps \<Rightarrow>
     (let params = apply_defaults ps runtime_params in
      case input_ids params of
        Inl e \<Rightarrow> (Inl e, w)
      | Inr is \<Rightarrow>
          (let status = new_status eid (pd_name p) RunRunning (int (length is)) in
           case id_loop X max_records p hook params eid is 0 0 \<lparr>ir_world = w, ir_completed = 0\<rparr> of
             (Inr (fetched, sent), s) \<Rightarrow>
               (Inr (status\<lparr>xs_state := RunCompleted, xs_completed_jobs := int (ir_completed s),
                  xs_metadata := [(''ids_processed'', PInt (int (length is))), (''records_fetched'', PInt (int fetched)),
                    (''records_sent'', PInt (int sent))]\<rparr>), ir_world s)
           | (Inl e, s) \<Rightarrow>
               (if is_exception e
                then (Inr (failed_status (int (length is) - int (ir_completed s)) e
                        (status\<lparr>xs_completed_jobs := int (ir_completed s)\<rparr>)), ir_world s)
                else (Inl e, ir_world s))))))"

text \<open>\<open>execute\<close>: id by id unless the pipeline has its own \<open>define_jobs\<close>.\<close>

definition local_execute ::
  "('d, 'w) local_env \<Rightarrow> python \<Rightarrow> int \<Rightarrow> pipeline \<Rightarrow> pydict \<Rightarrow> string \<Rightarrow> ('w, execution_status) step" where
  "local_execute X P max_records p runtime_params eid =
     (case (pd_ids_batch_size p, pd_jobs p) of
        (Some _, SourcePerIds hook) \<Rightarrow> execute_id_based X P max_records p hook runtime_params eid
      | _ \<Rightarrow> execute_standard X P max_records p runtime_params eid)"


subsection \<open>What a local run does\<close>

lemma run_job_limit:
  assumes "run_job_records raw order fetch p (Some n) params = (Inr oc, params')"
  shows "length (oc_records oc) \<le> n" and "oc_records oc \<noteq> [] \<Longrightarrow> oc_destination oc \<noteq> None"
proof -
  obtain r q where body: "job_body raw order fetch p (Some n) params = (r, q)" by (cases "job_body raw order fetch p (Some n) params")
  show "length (oc_records oc) \<le> n"
  proof (cases r)
    case (Inl e)
    then show ?thesis using assms body
      by (cases e) (auto simp: run_job_records_def try_step_def bind_step_def set_param_def nothing_to_do_def)
  next
    case (Inr oc')
    then have "oc' = oc" using assms body by (simp add: run_job_records_def try_step_def)
    then show ?thesis using body Inr unfolding job_body_def Let_def
      by (elim bind_stepE) (auto simp: nothing_to_do_def split: if_splits elim!: bind_stepE)
  qed
  show "oc_records oc \<noteq> [] \<Longrightarrow> oc_destination oc \<noteq> None"
    using skip_job_drops_the_job [of raw order fetch p "Some n" params] assms by (auto simp: nothing_to_do_def)
qed

lemma run_slice_cases:
  obtains (raised) x q where "run_slice X limit sub params = (Inl x, q)"
    | (empty) oc q where "run_slice X limit sub params = (Inr oc, q)" and "oc_records oc = []"
    | (records) oc q d where "run_slice X limit sub params = (Inr oc, q)" and "oc_records oc \<noteq> []"
        and "oc_destination oc = Some d" and "length (oc_records oc) \<le> limit"
proof -
  obtain r q where run: "run_slice X limit sub params = (r, q)" by fastforce
  show thesis
  proof (cases r)
    case (Inl x)
    then show ?thesis using run raised by simp
  next
    case (Inr oc)
    note job = run [unfolded Inr run_slice_def]
    show ?thesis
    proof (cases "oc_records oc = []")
      case True
      then show ?thesis using run Inr empty by simp
    next
      case False
      then show ?thesis using run Inr records run_job_limit [OF job] by auto
    qed
  qed
qed

lemma call_send_drops [simp]:
  "oc_destination oc = Some d \<Longrightarrow> call_send X oc params w = (Inr (), w)"
  by (simp add: call_send_def call_async_def bind_step_def)

text \<open>Both loops leave the world as it is and stay under the cap.\<close>

lemma slice_loop_result:
  "slice_loop X max_records flat subs e fetched sent w = (r, w') \<Longrightarrow>
     w' = w \<and> (case r of Inl _ \<Rightarrow> True | Inr (f, s) \<Rightarrow> fetched \<le> f \<and> int f \<le> max (int fetched) max_records)"
proof (induction subs arbitrary: fetched sent)
  case Nil
  then show ?case by (auto split: option.splits)
next
  case (Cons sub subs)
  show ?case
  proof (cases "max_records - int fetched \<le> 0")
    case True
    then show ?thesis using Cons.prems by auto
  next
    case False
    then show ?thesis
      using Cons.prems Cons.IH [of fetched sent]
      by (cases rule: run_slice_cases [where X = X and limit = "nat (max_records - int fetched)" and sub = sub
          and params = "job_runtime_params sub flat"])
        (auto simp: bind_step_def split: sum.splits dest!: Cons.IH)
  qed
qed

lemma id_slice_loop_result:
  "id_slice_loop X max_records params subs e fetched sent w = (r, w') \<Longrightarrow>
     w' = w \<and> (case r of Inl _ \<Rightarrow> True | Inr (f, s) \<Rightarrow> fetched \<le> f \<and> int f \<le> max (int fetched) max_records)"
proof (induction subs arbitrary: params fetched sent)
  case Nil
  then show ?case by (auto split: option.splits)
next
  case (Cons sub subs)
  show ?case
  proof (cases "max_records - int fetched \<le> 0")
    case True
    then show ?thesis using Cons.prems by auto
  next
    case False
    then show ?thesis
      using Cons.prems
      by (cases rule: run_slice_cases [where X = X and limit = "nat (max_records - int fetched)" and sub = sub and params = params])
        (auto simp: bind_step_def split: sum.splits dest!: Cons.IH)
  qed
qed

text \<open>The ids: each is counted when its slices are through; a raise leaves the rest uncounted.\<close>

lemma id_loop_result:
  "id_loop X max_records p hook params eid is fetched sent s = (r, s') \<Longrightarrow>
     ir_world s' = ir_world s \<and>
     (case r of Inl _ \<Rightarrow> ir_completed s' < ir_completed s + length is
      | Inr (f, n) \<Rightarrow> ir_completed s' = ir_completed s + length is \<and> int f \<le> int fetched + int (length is) * max 0 max_records)"
proof (induction "is" arbitrary: fetched sent s r s')
  case Nil
  then show ?case by auto
next
  case (Cons current rest)
  show ?case
  proof (cases "resolve_for_ids (pd_name p) hook params [current]")
    case (Inl e)
    then show ?thesis using Cons.prems by auto
  next
    case (Inr bo)
    obtain b own where bo: "bo = (b, own)" by fastforce
    define flat where "flat = dset (build_flat_runtime_params own (context_value X eid (pd_name p)) (Some (PList [current]))) ''current_id'' current"
    obtain subs e where plan: "plan_slices (Splitting b) flat = (subs, e)" by fastforce
    obtain a w1 where loop: "id_slice_loop X max_records flat subs e 0 0 (ir_world s) = (a, w1)" by fastforce
    note inner = id_slice_loop_result [OF loop]
    note run = Cons.prems [unfolded id_loop.simps Inr bo sum.case prod.case Let_def, folded flat_def, unfolded plan prod.case]
    show ?thesis
    proof (cases a)
      case (Inl x)
      then show ?thesis using run loop inner by (auto simp: bind_step_def on_destinations_def)
    next
      case (Inr fs)
      obtain f n where fs: "fs = (f, n)" by fastforce
      let ?s = "s\<lparr>ir_world := w1, ir_completed := ir_completed s + 1\<rparr>"
      have w1: "w1 = ir_world s" and f: "int f \<le> max 0 max_records" using inner Inr fs by auto
      have rest: "(if f = 0 then id_loop X max_records p hook params eid rest fetched sent
          else id_loop X max_records p hook params eid rest (fetched + f) (sent + n)) ?s = (r, s')"
        using run loop Inr fs by (simp add: bind_step_def on_destinations_def count_id_def)
      show ?thesis
      proof (cases "f = 0")
        case True
        then show ?thesis using Cons.IH [of fetched sent ?s r s'] rest w1 by (auto split: sum.splits simp: algebra_simps)
      next
        case False
        then show ?thesis using Cons.IH [of "fetched + f" "sent + n" ?s r s'] rest w1 f by (auto split: sum.splits simp: algebra_simps)
      qed
    qed
  qed
qed


definition reported :: "execution_status \<Rightarrow> string \<Rightarrow> int" where
  "reported s k = (case dget (xs_metadata s) k of Some (PInt n) \<Rightarrow> n | _ \<Rightarrow> 0)"

text \<open>What holds of every status a local run gives: it is over, its jobs add up, a failure has
  failed jobs, and no more is reported than the cap allows.\<close>

definition run_accounted :: "int \<Rightarrow> execution_status \<Rightarrow> bool" where
  "run_accounted max_records s \<longleftrightarrow> is_complete s
     \<and> xs_completed_jobs s + xs_failed_jobs s = xs_total_jobs s \<and> (xs_state s = RunFailed) = (0 < xs_failed_jobs s)
     \<and> (xs_error_message s = None) = (xs_failed_jobs s = 0)
     \<and> reported s ''records_fetched'' \<le> xs_total_jobs s * max 0 max_records"

lemma execute_standard_result:
  "case execute_standard X P max_records p params eid w of (r, w') \<Rightarrow>
     w' = w \<and> (case r of Inl _ \<Rightarrow> True | Inr s \<Rightarrow> run_accounted max_records s)"
proof (cases "resolve P p params")
  case (Inl e)
  then show ?thesis by (simp add: execute_standard_def)
next
  case (Inr ps)
  obtain resolved src where ps: "ps = (resolved, src)" by fastforce
  define flat where "flat = build_flat_runtime_params resolved (context_value X eid (pd_name p)) None"
  show ?thesis
  proof (cases "resolved_source src")
    case (Inl e)
    then show ?thesis using Inr ps
      by (auto simp: execute_standard_def try_step_def run_accounted_def is_complete_def failed_status_def new_status_def
          reported_def dget_def Let_def)
  next
    case source: (Inr source)
    obtain subs e where plan: "plan_slices source flat = (subs, e)" by fastforce
    obtain r w1 where loop: "slice_loop X max_records flat subs e 0 0 w = (r, w1)" by fastforce
    from slice_loop_result [OF loop] show ?thesis using Inr ps source plan loop
      by (auto simp: execute_standard_def try_step_def bind_step_def run_accounted_def is_complete_def failed_status_def
          completed_status_def new_status_def reported_def dget_def Let_def flat_def [symmetric] split: sum.splits)
  qed
qed

lemma execute_id_based_result:
  "case execute_id_based X P max_records p hook params eid w of (r, w') \<Rightarrow>
     w' = w \<and> (case r of Inl _ \<Rightarrow> True | Inr s \<Rightarrow> run_accounted max_records s)"
proof (cases "resolve P p params")
  case (Inl e)
  then show ?thesis by (simp add: execute_id_based_def)
next
  case (Inr ps)
  show ?thesis
  proof (cases "get_all_parameters P p")
    case (Inl e)
    then show ?thesis using Inr by (simp add: execute_id_based_def)
  next
    case all: (Inr all)
    show ?thesis
    proof (cases "input_ids (apply_defaults all params)")
      case (Inl e)
      then show ?thesis using Inr all by (simp add: execute_id_based_def Let_def)
    next
      case ids: (Inr id_list)
      obtain r s where loop: "id_loop X max_records p hook (apply_defaults all params) eid id_list 0 0 \<lparr>ir_world = w, ir_completed = 0\<rparr> = (r, s)"
        by fastforce
      from id_loop_result [OF loop] show ?thesis using Inr all ids loop
        by (auto simp: execute_id_based_def run_accounted_def is_complete_def failed_status_def new_status_def reported_def
            dget_def Let_def split: sum.splits)
    qed
  qed
qed



text \<open>Three ids, two of them with records: the run reports two records sent.\<close>

definition mailbox_env :: "(unit, pyval list) local_env" where
  "mailbox_env =
     \<lparr>pv_concurrency = [], pv_order = (\<lambda>n. [0..<n]),
      pv_fetch = (\<lambda>s. return_step (case dget (sl_config s) ''records'' of Some (PList rs) \<Rightarrow> rs | _ \<Rightarrow> [])),
      pv_health = (\<lambda>_. return_step True), pv_send = (\<lambda>_ rs _. write_step (\<lambda>received. received @ rs)),
      pv_steps = \<lparr>pl_name = ''user_sync'', pl_record_type = None, pl_skip_invalid = False, pl_validate_steps = False,
        pl_transformations = (\<lambda>_. return_step []), pl_destination = (\<lambda>_. return_step ())\<rparr>,
      pv_batch_id = ''b1'', pv_created_at = ''2026-01-01T00:00:00''\<rparr>"

lemma unsent_records_are_reported:
  "case local_execute mailbox_env plain_python 100 ids_example [(''input_ids'', PList [PInt 1, PInt 2, PInt 3])] ''e1'' [] of
     (Inl _, _) \<Rightarrow> False
   | (Inr s, received) \<Rightarrow> received = [] \<and> xs_state s = RunCompleted \<and> reported s ''records_sent'' = 3"
  by code_simp

end
