(* ===== verification/TestCommand.thy ===== *)
theory TestCommand
  imports Preview
begin

text \<open>
  \<open>reflowfy test\<close> (\<open>cli/commands/test.py\<close>): the pipeline is run in this process on a capped
  sample, in one batch or in one batch per ids, and each batch is reported. What is printed is
  left out; \<open>typer.Exit\<close> is the exception that ends the command with its code. The prompts, the
  file system and the import of a pipeline file are parameters.
\<close>

record test_options =
  to_limit :: int
  to_dry_run :: bool
  to_fail_fast :: bool

record batch_report =
  br_label :: "string option"
  br_fetched :: nat
  br_transformed :: "pyval list"
  br_applied :: "applied_step list"
  br_error :: "py_error option"
  br_sent :: bool
  br_sent_count :: nat
  br_jobs_dropped :: "string list"

definition new_report :: "string option \<Rightarrow> batch_report" where
  "new_report label = \<lparr>br_label = label, br_fetched = 0, br_transformed = [], br_applied = [], br_error = None,
     br_sent = False, br_sent_count = 0, br_jobs_dropped = []\<rparr>"

definition br_ok :: "batch_report \<Rightarrow> bool" where
  "br_ok r \<longleftrightarrow> br_error r = None"

definition br_skipped :: "batch_report \<Rightarrow> nat" where
  "br_skipped r = sum_list (map records_skipped (br_applied r))"

definition typer_exit :: "nat \<Rightarrow> py_error" where
  "typer_exit code = OtherError ''Exit'' (nat_text code)"

subsection \<open>What a failing chain of transformations tells\<close>

text \<open>The attributes \<open>applied_steps\<close> and \<open>records_in\<close> of the exception that ends the chain, of
  which the exception itself keeps only the texts and positions here: a run of the same chain
  up to the step that fails. An error that passes through as it is (\<open>transform_error\<close>) has none;
  a failed output check has the steps.\<close>

definition failure_details :: "py_error \<Rightarrow> applied_step list \<Rightarrow> nat \<Rightarrow> applied_step list \<times> nat option" where
  "failure_details e applied n =
     (case e of
        TransformationError nm m i c \<Rightarrow> ([], None)
      | SkipJob m \<Rightarrow> ([], None)
      | Interrupted \<Rightarrow> ([], None)
      | StepOutputError nm m i c \<Rightarrow> (applied, None)
      | _ \<Rightarrow> (applied, Some n))"

fun chain_failure ::
  "string \<Rightarrow> (nat \<Rightarrow> nat list) \<Rightarrow> 'd JobRunner.pipeline \<Rightarrow> pyval list \<Rightarrow> nat \<Rightarrow> pyval list \<Rightarrow> applied_step list \<Rightarrow> pydict \<Rightarrow>
     applied_step list \<times> nat option" where
  "chain_failure raw order p original left transformed applied params =
     (case pl_transformations p original params of
        (Inl _, _) \<Rightarrow> ([], None)
      | (Inr current, params1) \<Rightarrow>
          if length current \<le> length applied then ([], None)
          else case left of
              0 \<Rightarrow> ([], None)
            | Suc left' \<Rightarrow>
                (let t = current ! length applied in
                 case bind_step (run_step raw order t transformed) (\<lambda>(out, skips).
                        bind_step (if pl_validate_steps p then check_step_output t out (length applied) else return_step ()) (\<lambda>_.
                        return_step (out, skips))) params1 of
                   (Inl e, _) \<Rightarrow> failure_details e applied (length transformed)
                 | (Inr (out, skips), params2) \<Rightarrow>
                     chain_failure raw order p original left' out (applied @ [report_step raw t transformed out skips]) params2))"

declare chain_failure.simps [simp del]

text \<open>The same for a job: the records its chain starts from are those the fetch and the record
  check leave. An error before or after the chain has no steps.\<close>

definition job_failure :: "('d, 'w) local_env \<Rightarrow> nat \<Rightarrow> slice \<Rightarrow> pydict \<Rightarrow> applied_step list \<times> nat option" where
  "job_failure X limit sub params =
     (case bind_step (pv_fetch X sub) (\<lambda>rs. return_step (map to_json_safe rs)) params of
        (Inl _, _) \<Rightarrow> ([], None)
      | (Inr fetched, params1) \<Rightarrow>
          (let records = take limit fetched in
           if records = [] then ([], None)
           else case (case pl_record_type (pv_steps X) of
                  None \<Rightarrow> Inr records
                | Some rt \<Rightarrow> map_sum id fst (check_record_type rt (pl_skip_invalid (pv_steps X)) records)) of
               Inl _ \<Rightarrow> ([], None)
             | Inr checked \<Rightarrow>
                 chain_failure (pv_concurrency X) (pv_order X) (pv_steps X) checked DEFAULT_MAX_STEPS checked [] params1))"

definition is_transformation_error :: "py_error \<Rightarrow> bool" where
  "is_transformation_error e = (case e of TransformationError n m i c \<Rightarrow> True | StepOutputError n m i c \<Rightarrow> True | _ \<Rightarrow> False)"

definition note_failure :: "applied_step list \<times> nat option \<Rightarrow> batch_report \<Rightarrow> batch_report" where
  "note_failure details r =
     (case details of (steps, records_in) \<Rightarrow>
        let r1 = r\<lparr>br_applied := br_applied r @ steps\<rparr> in
        if br_fetched r1 = 0
        then (case steps of s # _ \<Rightarrow> r1\<lparr>br_fetched := ap_in s\<rparr>
             | [] \<Rightarrow> (case records_in of Some n \<Rightarrow> if n \<noteq> 0 then r1\<lparr>br_fetched := n\<rparr> else r1 | None \<Rightarrow> r1))
        else r1)"

subsection \<open>One batch\<close>

record 'w test_run =
  tn_report :: batch_report
  tn_world :: 'w

definition on_reach :: "('w, 'a) step \<Rightarrow> ('w test_run, 'a) step" where
  "on_reach m s = (case m (tn_world s) of (r, w) \<Rightarrow> (r, s\<lparr>tn_world := w\<rparr>))"

definition on_report :: "(batch_report \<Rightarrow> batch_report) \<Rightarrow> ('w test_run, unit) step" where
  "on_report f = write_step (\<lambda>s. s\<lparr>tn_report := f (tn_report s)\<rparr>)"

text \<open>\<open>_send\<close>, and \<open>_send_job\<close>, which runs it to its end.\<close>

definition send_coroutine :: "('d, 'w) local_env \<Rightarrow> 'd option \<Rightarrow> pyval list \<Rightarrow> pydict \<Rightarrow> ('w, unit) coroutine" where
  "send_coroutine X d records params =
     (case d of
        None \<Rightarrow> raise_step (no_attribute ''NoneType'' ''health_check'')
      | Some d' \<Rightarrow>
          bind_step (await (pv_health X d')) (\<lambda>ok.
          if \<not> ok then raise_step (PipelineError ''destination health check failed'')
          else await (pv_send X d' records params)))"

definition send_test_job :: "('d, 'w) local_env \<Rightarrow> 'd option \<Rightarrow> pyval list \<Rightarrow> pydict \<Rightarrow> ('w test_run, unit) step" where
  "send_test_job X d records params =
     try_step
       (bind_step (on_reach (await (send_coroutine X d records params))) (\<lambda>_.
        on_report (\<lambda>r. r\<lparr>br_sent := True, br_sent_count := br_sent_count r + 1\<rparr>)))
       is_exception
       (\<lambda>e. on_report (\<lambda>r. r\<lparr>br_error := Some e\<rparr>))"

definition log_skips :: "python \<Rightarrow> pydict \<Rightarrow> batch_report \<Rightarrow> batch_report" where
  "log_skips P params r =
     (let reason = dget_or params ''skip_reason'' PNone in
      if truthy reason then r\<lparr>br_jobs_dropped := br_jobs_dropped r @ [py_str P reason]\<rparr> else r)"

definition add_outcome :: "'d outcome \<Rightarrow> batch_report \<Rightarrow> batch_report" where
  "add_outcome oc r = r\<lparr>br_fetched := br_fetched r + length (oc_records oc),
     br_transformed := br_transformed r @ oc_transformed oc, br_applied := br_applied r @ oc_applied oc\<rparr>"

fun batch_loop ::
  "('d, 'w) local_env \<Rightarrow> python \<Rightarrow> test_options \<Rightarrow> pydict \<Rightarrow> slice list \<Rightarrow> py_error option \<Rightarrow> ('w test_run, unit) step" where
  "batch_loop X P opts flat [] e = (case e of None \<Rightarrow> return_step () | Some x \<Rightarrow> raise_step x)"
| "batch_loop X P opts flat (sub # subs) e =
     bind_step (read_step (br_fetched \<circ> tn_report)) (\<lambda>fetched.
     let remaining = to_limit opts - int fetched in
     if remaining \<le> 0 then return_step ()
     else case run_slice X (nat remaining) sub (job_runtime_params sub flat) of
         (Inl x, _) \<Rightarrow>
           bind_step (if is_transformation_error x
                then on_report (note_failure (job_failure X (nat remaining) sub (job_runtime_params sub flat)))
                else return_step ()) (\<lambda>_.
           raise_step x)
       | (Inr oc, params) \<Rightarrow>
           bind_step (on_report (add_outcome oc \<circ> log_skips P params)) (\<lambda>_.
           if oc_transformed oc \<noteq> [] \<and> \<not> to_dry_run opts
           then bind_step (send_test_job X (oc_destination oc) (oc_transformed oc) params) (\<lambda>_.
                bind_step (read_step (br_ok \<circ> tn_report)) (\<lambda>ok.
                if \<not> ok then return_step () else batch_loop X P opts flat subs e))
           else batch_loop X P opts flat subs e))"

declare batch_loop.simps [simp del]

definition run_batch ::
  "('d, 'w) local_env \<Rightarrow> python \<Rightarrow> test_options \<Rightarrow> string option \<Rightarrow> plan_source \<Rightarrow> pydict \<Rightarrow> ('w, batch_report) step" where
  "run_batch X P opts label src flat w =
     (case plan_slices src flat of (subs, e) \<Rightarrow>
      case try_step (batch_loop X P opts flat subs e) is_exception (\<lambda>x. on_report (\<lambda>r. r\<lparr>br_error := Some x\<rparr>))
             \<lparr>tn_report = new_report label, tn_world = w\<rparr> of
        (Inl x, s) \<Rightarrow> (Inl x, tn_world s) | (Inr _, s) \<Rightarrow> (Inr (tn_report s), tn_world s))"

subsection \<open>The run\<close>

definition build_flat_params :: "('d, 'w) local_env \<Rightarrow> string \<Rightarrow> string \<Rightarrow> pydict \<Rightarrow> pydict" where
  "build_flat_params X eid pipeline_name params =
     dupdate params (map (\<lambda>k. (k, context_value X eid pipeline_name k))
       [''execution_id'', ''batch_id'', ''pipeline_name'', ''created_at''])"

text \<open>The standard path. \<open>None\<close> has neither \<open>split\<close> nor \<open>__iter__\<close>: it is one job, without a
  \<open>fetch\<close>.\<close>

definition run_single ::
  "('d, 'w) local_env \<Rightarrow> python \<Rightarrow> test_options \<Rightarrow> pipeline \<Rightarrow> pydict \<Rightarrow> string \<Rightarrow> ('w, batch_report) step" where
  "run_single X P opts p params eid =
     (case define_jobs p (build_flat_params X eid (pd_name p) params) of
        (Inl e, _) \<Rightarrow> if is_exception e then return_step ((new_report None)\<lparr>br_error := Some e\<rparr>) else raise_step e
      | (Inr (Some src), flat) \<Rightarrow> run_batch X P opts None src flat
      | (Inr None, flat) \<Rightarrow>
          run_batch (X\<lparr>pv_fetch := (\<lambda>_. raise_step (no_attribute ''NoneType'' ''fetch''))\<rparr>) P opts None
            (Single \<lparr>sl_type = ''NoneType'', sl_config = [], sl_params = None\<rparr>) flat)"

text \<open>\<open>list(params.get("input_ids") or [])\<close>.\<close>

definition listed_ids :: "python \<Rightarrow> pydict \<Rightarrow> py_error + pyval list" where
  "listed_ids P params =
     (let v = dget_or params ''input_ids'' PNone in
      if \<not> truthy v then Inr []
      else case v of
          PList is \<Rightarrow> Inr is
        | PTuple is \<Rightarrow> Inr is
        | PStr s \<Rightarrow> Inr (map (\<lambda>c. PStr [c]) s)
        | PDict d \<Rightarrow> Inr (map (PStr \<circ> fst) d)
        | _ \<Rightarrow> Inl (TypeError (quoted (value_class P v) @ '' object is not iterable'')))"

text \<open>\<open>range(0, len(ids), batch_size)\<close> refuses a step of 0 and is empty for a negative one.\<close>

definition id_batches :: "int \<Rightarrow> 'a list \<Rightarrow> py_error + 'a list list" where
  "id_batches batch_size is =
     (if batch_size = 0 then Inl (ValueError ''range() arg 3 must not be zero'')
      else if batch_size < 0 then Inr [] else Inr (chunks (nat batch_size) is))"

definition batch_label :: "python \<Rightarrow> nat \<Rightarrow> nat \<Rightarrow> pyval list \<Rightarrow> string" where
  "batch_label P number of_batches id_batch =
     ''Batch '' @ nat_text number @ ''/'' @ nat_text of_batches @ '': '' @ py_list_text P id_batch"

definition run_id_batch ::
  "('d, 'w) local_env \<Rightarrow> python \<Rightarrow> test_options \<Rightarrow> pipeline \<Rightarrow> (pydict, id_returned) step \<Rightarrow> pydict \<Rightarrow> string \<Rightarrow> pyval list \<Rightarrow>
     ('w, batch_report) step" where
  "run_id_batch X P opts p hook flat_base label id_batch =
     (case resolve_source (pd_name p) hook
             (dset (dset flat_base ''current_ids'' (PList id_batch)) ''current_id'' (case id_batch of [] \<Rightarrow> PNone | i # _ \<Rightarrow> i)) of
        (Inl e, _) \<Rightarrow> if is_exception e then return_step ((new_report (Some label))\<lparr>br_error := Some e\<rparr>) else raise_step e
      | (Inr b, flat) \<Rightarrow> run_batch X P opts (Some label) (Splitting b) flat)"

fun id_batch_loop ::
  "('d, 'w) local_env \<Rightarrow> python \<Rightarrow> test_options \<Rightarrow> pipeline \<Rightarrow> (pydict, id_returned) step \<Rightarrow> pydict \<Rightarrow> nat \<Rightarrow> nat \<Rightarrow> pyval list list \<Rightarrow>
     ('w, batch_report list) step" where
  "id_batch_loop X P opts p hook flat_base of_batches number [] = return_step []"
| "id_batch_loop X P opts p hook flat_base of_batches number (id_batch # batches) =
     bind_step (run_id_batch X P opts p hook flat_base (batch_label P number of_batches id_batch) id_batch) (\<lambda>r.
     if \<not> br_ok r \<and> to_fail_fast opts then return_step [r]
     else bind_step (id_batch_loop X P opts p hook flat_base of_batches (number + 1) batches) (\<lambda>rs. return_step (r # rs)))"

definition run_id_batches ::
  "('d, 'w) local_env \<Rightarrow> python \<Rightarrow> test_options \<Rightarrow> pipeline \<Rightarrow> int \<Rightarrow> (pydict, id_returned) step \<Rightarrow> pydict \<Rightarrow> string \<Rightarrow>
     ('w, batch_report list) step" where
  "run_id_batches X P opts p batch_size hook params eid =
     (case listed_ids P params of
        Inl e \<Rightarrow> raise_step e
      | Inr is \<Rightarrow>
          if is = [] then raise_step (typer_exit 1)
          else case id_batches batch_size is of
              Inl e \<Rightarrow> raise_step e
            | Inr batches \<Rightarrow>
                id_batch_loop X P opts p hook (build_flat_params X eid (pd_name p) params) (length batches) 1 batches)"

definition runs_id_batches :: "pipeline \<Rightarrow> (int \<times> (pydict, id_returned) step) option" where
  "runs_id_batches p = (case (pd_ids_batch_size p, pd_jobs p) of (Some n, SourcePerIds hook) \<Rightarrow> Some (n, hook) | _ \<Rightarrow> None)"

definition run_pipeline_test ::
  "('d, 'w) local_env \<Rightarrow> python \<Rightarrow> test_options \<Rightarrow> pipeline \<Rightarrow> pydict \<Rightarrow> string \<Rightarrow> ('w, batch_report list) step" where
  "run_pipeline_test X P opts p params eid =
     (case runs_id_batches p of
        Some (n, hook) \<Rightarrow> run_id_batches X P opts p n hook params eid
      | None \<Rightarrow> bind_step (run_single X P opts p params eid) (\<lambda>r. return_step [r]))"

text \<open>The code the command exits with: a failed batch counts unless the ids tolerate it.\<close>

definition exit_code :: "test_options \<Rightarrow> pipeline \<Rightarrow> batch_report list \<Rightarrow> nat" where
  "exit_code opts p reports =
     (if (\<exists>r \<in> set reports. \<not> br_ok r) \<and> (to_fail_fast opts \<or> runs_id_batches p = None) then 1 else 0)"

subsection \<open>Parameters\<close>

text \<open>\<open>raw.partition("=")\<close>; then the flags, a later one replacing an earlier one.\<close>

fun partition_at :: "char \<Rightarrow> string \<Rightarrow> string \<times> bool \<times> string" where
  "partition_at c [] = ([], False, [])"
| "partition_at c (x # xs) =
     (if x = c then ([], True, xs) else case partition_at c xs of (k, sep, v) \<Rightarrow> (x # k, sep, v))"

fun parse_param_flags :: "string list \<Rightarrow> (string \<times> string) list \<Rightarrow> py_error + (string \<times> string) list" where
  "parse_param_flags [] parsed = Inr parsed"
| "parse_param_flags (raw # flags) parsed =
     (case partition_at CHR ''='' raw of (k, sep, v) \<Rightarrow>
        if \<not> sep \<or> k = [] then Inl (typer_exit 2) else parse_param_flags flags (put parsed (strip k) v))"

record prompts =
  ask_text :: "parameter \<Rightarrow> string"
  ask_yes :: "parameter \<Rightarrow> bool"

definition prompted :: "python \<Rightarrow> prompts \<Rightarrow> parameter \<Rightarrow> pyval" where
  "prompted P A q = (if p_type q = TBool then PBool (ask_yes A q) else coerce P q (PStr (ask_text A q)))"

fun collect_loop ::
  "python \<Rightarrow> prompts \<Rightarrow> (string \<times> string) list \<Rightarrow> bool \<Rightarrow> parameter list \<Rightarrow> pydict \<Rightarrow> py_error + pydict" where
  "collect_loop P A supplied no_input [] params = Inr params"
| "collect_loop P A supplied no_input (q # qs) params =
     (case map_of supplied (p_name q) of
        Some v \<Rightarrow> collect_loop P A supplied no_input qs (dset params (p_name q) (coerce P q (PStr v)))
      | None \<Rightarrow>
          if no_input
          then (if p_required q \<and> p_default q = PNone then Inl (typer_exit 2)
                else collect_loop P A supplied no_input qs
                  (if p_default q = PNone then params else dset params (p_name q) (p_default q)))
          else collect_loop P A supplied no_input qs (dset params (p_name q) (prompted P A q)))"

definition collect_params ::
  "python \<Rightarrow> prompts \<Rightarrow> pipeline \<Rightarrow> (string \<times> string) list \<Rightarrow> bool \<Rightarrow> py_error + pydict" where
  "collect_params P A p supplied no_input =
     (case get_all_parameters P p of
        Inl e \<Rightarrow> Inl e
      | Inr [] \<Rightarrow> Inr (map (\<lambda>(k, v). (k, PStr v)) supplied)
      | Inr ps \<Rightarrow> collect_loop P A supplied no_input ps [])"


text \<open>\<open>resolve_pipeline\<close>: the target is a pipeline file if it ends in \<open>.py\<close> or names an existing
  file, else a pipeline's name. A file is imported (an error ends the command) and must leave
  one pipeline in the registry, or the user chooses; Python counts a negative index from the
  end.\<close>

definition py_index :: "'a list \<Rightarrow> int \<Rightarrow> 'a option" where
  "py_index xs i =
     (if 0 \<le> i \<and> i < int (length xs) then Some (xs ! nat i)
      else if i < 0 \<and> - int (length xs) \<le> i then Some (xs ! nat (int (length xs) + i)) else None)"

definition chosen_pipeline :: "'p list \<Rightarrow> bool \<Rightarrow> string \<Rightarrow> py_error + 'p" where
  "chosen_pipeline ps no_input choice =
     (case ps of
        [] \<Rightarrow> Inl (typer_exit 1)
      | [p] \<Rightarrow> Inr p
      | _ \<Rightarrow> if no_input then Inl (typer_exit 1)
          else case py_int choice of
              None \<Rightarrow> Inl (typer_exit 1)
            | Some n \<Rightarrow> (case py_index ps (n - 1) of None \<Rightarrow> Inl (typer_exit 1) | Some p \<Rightarrow> Inr p))"

definition has_py_suffix :: "string \<Rightarrow> bool" where
  "has_py_suffix path =
     (case rev (filter (\<lambda>c. c \<noteq> [] \<and> c \<noteq> ''.'') (split_at CHR ''/'' path)) of
        [] \<Rightarrow> False | name # _ \<Rightarrow> suffix ''.py'' name \<and> 3 < length name)"

definition resolve_pipeline ::
  "(string \<Rightarrow> bool) \<Rightarrow> (string \<Rightarrow> py_error + 'p registry) \<Rightarrow> 'p registry \<Rightarrow> string \<Rightarrow> bool \<Rightarrow> string \<Rightarrow> py_error + 'p" where
  "resolve_pipeline file_exists load_from_path discovered target no_input choice =
     (if has_py_suffix target \<or> file_exists target
      then (if \<not> file_exists target then Inl (typer_exit 1)
            else case load_from_path target of
                Inl e \<Rightarrow> Inl (typer_exit 1)
              | Inr r \<Rightarrow> chosen_pipeline (list_all_pipelines r) no_input choice)
      else case registry_get discovered target of Some p \<Rightarrow> Inr p | None \<Rightarrow> Inl (typer_exit 1))"

section \<open>What a test run does\<close>

subsection \<open>The details of a failure\<close>

definition details_within :: "nat \<Rightarrow> applied_step list \<times> nat option \<Rightarrow> bool" where
  "details_within n d = (case d of (steps, m) \<Rightarrow>
     (case steps of s # _ \<Rightarrow> ap_in s \<le> n | [] \<Rightarrow> (case m of Some k \<Rightarrow> k \<le> n | None \<Rightarrow> True)))"

lemma failure_details_within:
  assumes "details_within n (applied, Some m)"
  shows "details_within n (failure_details e applied m)"
  using assms by (cases e) (auto simp: failure_details_def details_within_def split: list.splits)

lemma chain_failure_within:
  "details_within n (applied, Some (length transformed)) \<Longrightarrow>
     details_within n (chain_failure raw order p original left transformed applied params)"
proof (induction left arbitrary: transformed applied params)
  case 0
  then show ?case
    by (subst chain_failure.simps) (auto simp: details_within_def split: prod.split sum.split)
next
  case (Suc left)
  have more: "details_within n (applied @ [report_step raw t transformed out skips], Some (length out))" for t out skips
    using Suc.prems by (cases applied) (auto simp: details_within_def report_step_def)
  have none: "details_within n ([], None)" by (simp add: details_within_def)
  show ?case
    using Suc.IH [OF more] failure_details_within [OF Suc.prems] none
    by (subst chain_failure.simps) (auto simp: Let_def split: prod.split sum.split)
qed

lemma check_record_type_shorter:
  "map_sum id fst (check_record_type rt skip (take n records)) = Inr kept \<Longrightarrow> length kept \<le> n"
  by (auto simp: check_record_type_def Let_def split: if_splits intro!: order.trans [OF length_filter_le])

lemma job_failure_within: "details_within limit (job_failure X limit sub params)"
proof -
  have none: "details_within limit ([], None)" by (simp add: details_within_def)
  have chain: "details_within limit (chain_failure raw order p checked left checked [] q)" if "length checked \<le> limit"
    for raw order p checked left q
    using that by (intro chain_failure_within) (simp add: details_within_def)
  show ?thesis
    unfolding job_failure_def Let_def using none
    by (auto split: prod.split sum.split option.split intro!: chain intro: check_record_type_shorter)
qed

subsection \<open>A batch stays within its options\<close>

definition within_options :: "test_options \<Rightarrow> 'w \<Rightarrow> 'w test_run \<Rightarrow> bool" where
  "within_options opts w0 s \<longleftrightarrow> int (br_fetched (tn_report s)) \<le> max 0 (to_limit opts)
     \<and> br_sent (tn_report s) = (0 < br_sent_count (tn_report s))
     \<and> (to_dry_run opts \<longrightarrow> tn_world s = w0 \<and> \<not> br_sent (tn_report s))"

lemma note_failure_within:
  assumes "details_within n d" and "int (br_fetched r) \<le> m" and "br_fetched r = 0 \<Longrightarrow> int n \<le> m"
  shows "int (br_fetched (note_failure d r)) \<le> m"
proof -
  obtain steps k where d: "d = (steps, k)" by fastforce
  show ?thesis
    using assms unfolding d note_failure_def details_within_def Let_def prod.case
    by (cases steps; cases k) auto
qed

lemma note_failure_keeps [simp]:
  "br_sent (note_failure d r) = br_sent r" "br_sent_count (note_failure d r) = br_sent_count r"
  by (auto simp: note_failure_def Let_def split: prod.split list.split option.split)

lemma log_skips_keeps [simp]:
  "br_sent (log_skips P params r) = br_sent r" "br_sent_count (log_skips P params r) = br_sent_count r"
  "br_fetched (log_skips P params r) = br_fetched r" "br_transformed (log_skips P params r) = br_transformed r"
  "br_applied (log_skips P params r) = br_applied r" "br_error (log_skips P params r) = br_error r"
  by (simp_all add: log_skips_def Let_def)

text \<open>One turn of the loop, and the send in it, as equations.\<close>

definition sent_report :: "batch_report \<Rightarrow> batch_report" where
  "sent_report r = r\<lparr>br_sent := True, br_sent_count := br_sent_count r + 1\<rparr>"

lemma send_test_job_unfold:
  "send_test_job X d records params s =
     (case send_coroutine X d records params (tn_world s) of
        (Inr _, w) \<Rightarrow> (Inr (), \<lparr>tn_report = sent_report (tn_report s), tn_world = w\<rparr>)
      | (Inl e, w) \<Rightarrow>
          if is_exception e then (Inr (), \<lparr>tn_report = (tn_report s)\<lparr>br_error := Some e\<rparr>, tn_world = w\<rparr>)
          else (Inl e, \<lparr>tn_report = tn_report s, tn_world = w\<rparr>))"
  by (cases s) (simp add: send_test_job_def try_step_def bind_step_def on_reach_def on_report_def await_def sent_report_def
      split: prod.split sum.split)

lemma batch_loop_over:
  "to_limit opts \<le> int (br_fetched (tn_report s)) \<Longrightarrow> batch_loop X P opts flat (sub # subs) e s = (Inr (), s)"
  by (simp add: batch_loop.simps(2) bind_step_def)

lemma batch_loop_raised:
  assumes "int (br_fetched (tn_report s)) < to_limit opts" and "remaining = nat (to_limit opts - int (br_fetched (tn_report s)))"
    and "run_slice X remaining sub (job_runtime_params sub flat) = (Inl x, q)"
  shows "batch_loop X P opts flat (sub # subs) e s =
    (Inl x, s\<lparr>tn_report := (if is_transformation_error x
        then note_failure (job_failure X remaining sub (job_runtime_params sub flat)) (tn_report s) else tn_report s)\<rparr>)"
  using assms by (cases s) (simp add: batch_loop.simps(2) bind_step_def on_report_def)

lemma batch_loop_turn:
  assumes "int (br_fetched (tn_report s)) < to_limit opts" and "remaining = nat (to_limit opts - int (br_fetched (tn_report s)))"
    and "run_slice X remaining sub (job_runtime_params sub flat) = (Inr oc, q)"
    and "s1 = \<lparr>tn_report = add_outcome oc (log_skips P q (tn_report s)), tn_world = tn_world s\<rparr>"
  shows "batch_loop X P opts flat (sub # subs) e s =
    (if oc_transformed oc \<noteq> [] \<and> \<not> to_dry_run opts
     then case send_test_job X (oc_destination oc) (oc_transformed oc) q s1 of
         (Inl x, s2) \<Rightarrow> (Inl x, s2)
       | (Inr _, s2) \<Rightarrow> if br_ok (tn_report s2) then batch_loop X P opts flat subs e s2 else (Inr (), s2)
     else batch_loop X P opts flat subs e s1)"
  using assms by (cases s) (simp add: batch_loop.simps(2) bind_step_def on_report_def split: prod.split sum.split)

lemma sent_report_simps [simp]:
  "br_sent (sent_report r) = True" "br_sent_count (sent_report r) = Suc (br_sent_count r)"
  "br_fetched (sent_report r) = br_fetched r" "br_error (sent_report r) = br_error r"
  "br_transformed (sent_report r) = br_transformed r" "br_applied (sent_report r) = br_applied r"
  by (simp_all add: sent_report_def)

lemma add_outcome_simps [simp]:
  "br_sent (add_outcome oc r) = br_sent r" "br_sent_count (add_outcome oc r) = br_sent_count r"
  "br_fetched (add_outcome oc r) = br_fetched r + length (oc_records oc)" "br_error (add_outcome oc r) = br_error r"
  "br_transformed (add_outcome oc r) = br_transformed r @ oc_transformed oc"
  "br_applied (add_outcome oc r) = br_applied r @ oc_applied oc"
  by (simp_all add: add_outcome_def)

lemma batch_loop_within:
  "batch_loop X P opts flat subs e s = (r, s') \<Longrightarrow> within_options opts w0 s \<Longrightarrow> within_options opts w0 s'"
proof (induction subs arbitrary: s)
  case Nil
  then show ?case by (auto simp: batch_loop.simps split: option.splits)
next
  case (Cons sub subs)
  define remaining where "remaining = nat (to_limit opts - int (br_fetched (tn_report s)))"
  let ?params = "job_runtime_params sub flat"
  show ?case
  proof (cases "to_limit opts \<le> int (br_fetched (tn_report s))")
    case True
    then show ?thesis using Cons.prems by (simp add: batch_loop_over)
  next
    case False
    then have less: "int (br_fetched (tn_report s)) < to_limit opts" by simp
    obtain a q where run: "run_slice X remaining sub ?params = (a, q)" by fastforce
    show ?thesis
    proof (cases a)
      case (Inl x)
      have "int (br_fetched (note_failure (job_failure X remaining sub ?params) (tn_report s))) \<le> max 0 (to_limit opts)"
        using Cons.prems(2) less
        by (intro note_failure_within [OF job_failure_within]) (auto simp: within_options_def remaining_def)
      then show ?thesis using Cons.prems batch_loop_raised [OF less remaining_def run [unfolded Inl]]
        by (cases "is_transformation_error x") (auto simp: within_options_def)
    next
      case (Inr oc)
      define s1 where "s1 = \<lparr>tn_report = add_outcome oc (log_skips P q (tn_report s)), tn_world = tn_world s\<rparr>"
      note turn = batch_loop_turn [OF less remaining_def run [unfolded Inr] s1_def]
      have "length (oc_records oc) \<le> remaining"
        using run Inr unfolding run_slice_def by (simp add: run_job_limit(1))
      then have s1: "within_options opts w0 s1"
        using Cons.prems(2) less by (auto simp: s1_def within_options_def remaining_def)
      show ?thesis
      proof (cases "oc_transformed oc \<noteq> [] \<and> \<not> to_dry_run opts")
        case True
        obtain b s2 where send: "send_test_job X (oc_destination oc) (oc_transformed oc) q s1 = (b, s2)" by fastforce
        then have "within_options opts w0 s2"
          using s1 True unfolding send_test_job_unfold by (auto simp: within_options_def split: prod.splits sum.splits if_splits)
        then show ?thesis using Cons turn send True by (auto split: sum.splits if_splits)
      next
        case False
        then show ?thesis using Cons turn s1 by auto
      qed
    qed
  qed
qed


text \<open>A batch of \<open>reflowfy test\<close> stays within its options whatever the user's code does:
  no ordinary exception leaves it, at most \<open>limit\<close> records are fetched, a batch reports that it
  sent exactly when it counts a send, and a dry run leaves the destinations alone.\<close>

theorem test_batch_stays_within_its_options:
  "case run_batch X P opts label src flat w of
     (Inl x, _) \<Rightarrow> x = Interrupted
   | (Inr r, w') \<Rightarrow> int (br_fetched r) \<le> max 0 (to_limit opts) \<and> br_sent r = (0 < br_sent_count r)
       \<and> (to_dry_run opts \<longrightarrow> w' = w \<and> \<not> br_sent r)"
proof -
  obtain subs e where plan: "plan_slices src flat = (subs, e)" by fastforce
  let ?s = "\<lparr>tn_report = new_report label, tn_world = w\<rparr>"
  obtain a s' where loop: "batch_loop X P opts flat subs e ?s = (a, s')" by fastforce
  have "within_options opts w ?s" by (simp add: within_options_def new_report_def)
  then have "within_options opts w s'" using batch_loop_within [OF loop] by blast
  then show ?thesis using plan loop
    by (auto simp: run_batch_def try_step_def within_options_def on_report_def is_exception_def split: sum.split)
qed

subsection \<open>A test run is production in small\<close>

definition whole_job :: "('d, 'w) local_env \<Rightarrow> slice \<Rightarrow> 'd outcome hook" where
  "whole_job X sub = run_job_records (pv_concurrency X) (pv_order X) (pv_fetch X sub) (pv_steps X) None"

text \<open>The planned jobs as the workers run them, each whole and with its own params; \<open>None\<close> if one
  of them fails. And their sends, one after the other.\<close>

fun planned_outcomes :: "('d, 'w) local_env \<Rightarrow> pydict \<Rightarrow> slice list \<Rightarrow> ('d outcome \<times> pydict) list option" where
  "planned_outcomes X flat [] = Some []"
| "planned_outcomes X flat (sub # subs) =
     (case whole_job X sub (job_runtime_params sub flat) of
        (Inl _, _) \<Rightarrow> None
      | (Inr oc, q) \<Rightarrow> map_option (\<lambda>jobs. (oc, q) # jobs) (planned_outcomes X flat subs))"

fun deliver :: "('d, 'w) local_env \<Rightarrow> ('d outcome \<times> pydict) list \<Rightarrow> ('w, unit) step" where
  "deliver X [] = return_step ()"
| "deliver X ((oc, q) # jobs) =
     (if oc_transformed oc = [] then deliver X jobs
      else bind_step (send_coroutine X (oc_destination oc) (oc_transformed oc) q) (\<lambda>_. deliver X jobs))"

definition fetched_of :: "('d, 'w) local_env \<Rightarrow> slice \<Rightarrow> pydict \<Rightarrow> nat" where
  "fetched_of X sub params = (case pv_fetch X sub params of (Inr rs, _) \<Rightarrow> length rs | (Inl _, _) \<Rightarrow> 0)"

lemma bind_step_cong:
  assumes "\<And>x s1. m s = (Inr x, s1) \<Longrightarrow> f x = g x"
  shows "bind_step m f s = bind_step m g s"
  using assms by (auto simp: bind_step_def split: prod.split sum.split)

lemma fetched_length:
  "pipeline_step what name (bind_step (pv_fetch X sub) (\<lambda>rs. return_step (map to_json_safe rs))) params = (Inr rs, s1) \<Longrightarrow>
     length rs = fetched_of X sub params"
  by (auto simp: pipeline_step_def try_step_def bind_step_def fetched_of_def split: prod.splits sum.splits)

lemma whole_job_unlimited:
  assumes "fetched_of X sub params \<le> n"
  shows "run_slice X n sub params = whole_job X sub params"
proof -
  have "job_body (pv_concurrency X) (pv_order X) (pv_fetch X sub) (pv_steps X) (Some n) params =
      job_body (pv_concurrency X) (pv_order X) (pv_fetch X sub) (pv_steps X) None params"
      unfolding job_body_def
    by (rule bind_step_cong) (use assms in \<open>simp add: fetched_length\<close>)
  then show ?thesis by (simp add: run_slice_def whole_job_def run_job_records_def try_step_def)
qed

lemma whole_job_records:
  assumes "whole_job X sub params = (Inr oc, q)"
  shows "length (oc_records oc) \<le> fetched_of X sub params"
  using assms whole_job_unlimited [OF order.refl, of X sub params] run_job_limit(1)
  unfolding run_slice_def by metis

definition report_of_jobs :: "('d outcome \<times> pydict) list \<Rightarrow> bool \<Rightarrow> batch_report \<Rightarrow> batch_report \<Rightarrow> bool" where
  "report_of_jobs jobs dry r0 r \<longleftrightarrow> br_error r = None
     \<and> br_fetched r = br_fetched r0 + sum_list (map (length \<circ> oc_records \<circ> fst) jobs)
     \<and> br_transformed r = br_transformed r0 @ concat (map (oc_transformed \<circ> fst) jobs)
     \<and> br_applied r = br_applied r0 @ concat (map (oc_applied \<circ> fst) jobs)
     \<and> br_sent_count r = br_sent_count r0 + (if dry then 0 else length (filter (\<lambda>(oc, _). oc_transformed oc \<noteq> []) jobs))"

lemma batch_loop_whole:
  assumes "planned_outcomes X flat subs = Some jobs" and "br_error (tn_report s) = None"
    and "int (br_fetched (tn_report s) + sum_list (map (\<lambda>sub. fetched_of X sub (job_runtime_params sub flat)) subs)) < to_limit opts"
    and "if to_dry_run opts then w' = tn_world s else deliver X jobs (tn_world s) = (Inr (), w')"
  shows "\<exists>r. batch_loop X P opts flat subs None s = (Inr (), \<lparr>tn_report = r, tn_world = w'\<rparr>)
           \<and> report_of_jobs jobs (to_dry_run opts) (tn_report s) r"
  using assms
proof (induction subs arbitrary: jobs s)
  case Nil
  then show ?case by (cases s) (auto simp: batch_loop.simps report_of_jobs_def split: if_splits)
next
  case (Cons sub subs)
  let ?params = "job_runtime_params sub flat"
  define remaining where "remaining = nat (to_limit opts - int (br_fetched (tn_report s)))"
  obtain oc q jobs' where job: "whole_job X sub ?params = (Inr oc, q)" "planned_outcomes X flat subs = Some jobs'"
      and jobs: "jobs = (oc, q) # jobs'"
    using Cons.prems(1) by (auto split: prod.splits sum.splits)
  note records = whole_job_records [OF job(1)]
  have less: "int (br_fetched (tn_report s)) < to_limit opts" using Cons.prems(3) by simp
  have "fetched_of X sub ?params \<le> remaining" using Cons.prems(3) by (simp add: remaining_def)
  then have run: "run_slice X remaining sub ?params = (Inr oc, q)" using job(1) by (simp add: whole_job_unlimited)
  define s1 where "s1 = \<lparr>tn_report = add_outcome oc (log_skips P q (tn_report s)), tn_world = tn_world s\<rparr>"
  note turn = batch_loop_turn [OF less remaining_def run s1_def]
  show ?case
  proof (cases "oc_transformed oc \<noteq> [] \<and> \<not> to_dry_run opts")
    case True
    obtain w1 where send: "send_coroutine X (oc_destination oc) (oc_transformed oc) q (tn_world s) = (Inr (), w1)"
        and rest: "deliver X jobs' w1 = (Inr (), w')"
      using Cons.prems(4) True jobs by (auto elim!: bind_stepE)
    let ?s2 = "\<lparr>tn_report = sent_report (tn_report s1), tn_world = w1\<rparr>"
    have "send_test_job X (oc_destination oc) (oc_transformed oc) q s1 = (Inr (), ?s2)"
      using send by (simp add: send_test_job_unfold s1_def)
    moreover have "br_ok (tn_report ?s2)" using Cons.prems(2) by (simp add: br_ok_def s1_def)
    moreover have "\<exists>r. batch_loop X P opts flat subs None ?s2 = (Inr (), \<lparr>tn_report = r, tn_world = w'\<rparr>)
        \<and> report_of_jobs jobs' (to_dry_run opts) (tn_report ?s2) r"
      using Cons.prems records rest True by (intro Cons.IH [OF job(2)]) (simp_all add: s1_def)
    ultimately show ?thesis using turn True jobs by (auto simp: report_of_jobs_def s1_def)
  next
    case False
    have "\<exists>r. batch_loop X P opts flat subs None s1 = (Inr (), \<lparr>tn_report = r, tn_world = w'\<rparr>)
        \<and> report_of_jobs jobs' (to_dry_run opts) (tn_report s1) r"
      using Cons.prems records False jobs by (intro Cons.IH [OF job(2)]) (auto simp: s1_def split: if_splits)
    then show ?thesis using turn False jobs by (auto simp: report_of_jobs_def s1_def)
  qed
qed


text \<open>Two jobs, one of three records, into a destination that keeps what it gets.\<close>

definition mailbox_jobs :: plan_source where
  "mailbox_jobs = Iterable [ItemRecords [PInt 1, PInt 2, PInt 3], ItemRecords [PInt 4]] None"

theorem test_batch_stays_within_its_options_witness:
  "\<exists>r. run_batch mailbox_env plain_python \<lparr>to_limit = 2, to_dry_run = True, to_fail_fast = False\<rparr> None mailbox_jobs [] [PInt 0] =
         (Inr r, [PInt 0]) \<and> int (br_fetched r) \<le> 2 \<and> \<not> br_sent r \<and> br_fetched r = 2"
proof -
  let ?run = "run_batch mailbox_env plain_python \<lparr>to_limit = 2, to_dry_run = True, to_fail_fast = False\<rparr> None mailbox_jobs [] [PInt 0]"
  have "case ?run of (Inl _, _) \<Rightarrow> False | (Inr r, _) \<Rightarrow> br_fetched r = 2" by code_simp
  then obtain r w' where run: "?run = (Inr r, w')" and "br_fetched r = 2" by (auto split: prod.splits sum.splits)
  then show ?thesis
    using test_batch_stays_within_its_options [where X = mailbox_env and P = plain_python and label = None and src = mailbox_jobs
        and opts = "\<lparr>to_limit = 2, to_dry_run = True, to_fail_fast = False\<rparr>" and flat = "[]" and w = "[PInt 0]"]
    by auto
qed


subsection \<open>The batches of ids, and the exit code\<close>

text \<open>All batches are reported unless \<open>--fail-fast\<close> stopped the run at one that failed; a run of a
  pipeline that works id by id thus exits with 0 under \<open>--fail-fast\<close> only if every batch was run
  and none failed.\<close>

lemma id_batch_reports:
  "id_batch_loop X P opts p hook flat_base of_batches number batches w = (Inr rs, w') \<Longrightarrow>
     length rs = length batches \<or> to_fail_fast opts \<and> (\<exists>r \<in> set rs. \<not> br_ok r)"
proof (induction batches arbitrary: number w rs)
  case Nil
  then show ?case by simp
next
  case (Cons id_batch batches)
  from Cons.prems show ?case
    by (fastforce elim!: bind_stepE split: if_splits dest!: Cons.IH)
qed

theorem green_test_ran_every_batch:
  assumes "id_batch_loop X P opts p hook flat_base of_batches number batches w = (Inr rs, w')"
    and "to_fail_fast opts" and "exit_code opts p rs = 0"
  shows "length rs = length batches \<and> list_all br_ok rs"
  using id_batch_reports [OF assms(1)] assms(2,3) by (auto simp: exit_code_def list_all_iff split: if_splits)

subsection \<open>The parameters\<close>

text \<open>Without prompts, what a declared parameter gets is its flag, coerced, else its default.\<close>

lemma collect_loop_keeps:
  "collect_loop P A supplied no_input qs params = Inr params' \<Longrightarrow> k \<notin> p_name ` set qs \<Longrightarrow> dget params' k = dget params k"
  by (induction qs arbitrary: params) (auto split: option.splits if_splits)

lemma collect_loop_values:
  assumes "collect_loop P A supplied True qs params = Inr params'" and "distinct (map p_name qs)" and "q \<in> set qs"
    and "dget params (p_name q) = None"
  shows "dget params' (p_name q) = (case map_of supplied (p_name q) of
      Some v \<Rightarrow> Some (coerce P q (PStr v)) | None \<Rightarrow> if p_default q = PNone then None else Some (p_default q))"
  using assms
proof (induction qs arbitrary: params)
  case Nil
  then show ?case by simp
next
  case (Cons q' qs)
  show ?case
  proof (cases "q' = q")
    case True
    then show ?thesis using Cons.prems by (auto split: option.splits if_splits dest!: collect_loop_keeps)
  next
    case False
    then have q: "q \<in> set qs" "p_name q' \<noteq> p_name q" "distinct (map p_name qs)" using Cons.prems by auto
    then obtain params1 where "collect_loop P A supplied True qs params1 = Inr params'" and "dget params1 (p_name q) = None"
      using Cons.prems(1,4) by (auto split: option.splits if_splits)
    then show ?thesis using Cons.IH q by blast
  qed
qed

end
