(* ===== verification/UserApi.thy ===== *)
theory UserApi
  imports Preview Api
begin

text \<open>
  The user-facing API: the distributed executor, which hands a run to the manager's \<open>/run\<close>
  (\<open>execution/distributed_executor.py\<close>), the in-memory tracker (\<open>api/execution.py\<close>), and the
  routes made for the registered pipelines (\<open>api/routes.py\<close>, \<open>api/app.py\<close>). FastAPI, pydantic
  and httpx are parameters: what a call of the manager gives, and the objections to a route's
  parameters. A handler gets its arguments as FastAPI has checked and completed them.
\<close>

subsection \<open>The distributed executor\<close>

text \<open>What the call of \<open>/run\<close> comes to: a reply with its code and text and the number under
  \<open>jobs_dispatched\<close>, if its body is an object and has it; no connection or a timeout; another error
  of httpx; any other exception.\<close>

datatype manager_answer =
    ManagerReply nat string "py_error + int option"
  | ManagerDown string
  | ManagerHttpError string
  | ManagerRaised py_error

record 'w manager_port =
  mp_post :: "string \<Rightarrow> pydict \<Rightarrow> 'w \<Rightarrow> manager_answer \<times> 'w"
  mp_status_text :: "nat \<Rightarrow> string"

record distributed_executor =
  de_url :: string
  de_timeout :: rat
  de_mode :: string

definition new_distributed_executor :: "string \<Rightarrow> rat \<Rightarrow> string \<Rightarrow> distributed_executor" where
  "new_distributed_executor url timeout mode =
     \<lparr>de_url = rev (dropWhile (\<lambda>c. c = CHR ''/'') (rev url)), de_timeout = timeout, de_mode = mode\<rparr>"

definition run_payload :: "distributed_executor \<Rightarrow> string \<Rightarrow> pydict \<Rightarrow> string \<Rightarrow> rat option \<Rightarrow> pydict" where
  "run_payload ex pipeline_name runtime_params eid rate =
     [(''pipeline_name'', PStr pipeline_name), (''runtime_params'', PDict runtime_params), (''execution_id'', PStr eid),
      (''rate_limit'', case rate of None \<Rightarrow> PNone | Some r \<Rightarrow> PFloat r), (''mode'', PStr (de_mode ex))]"

definition http_failure :: "bool \<Rightarrow> string \<Rightarrow> execution_status \<Rightarrow> execution_status" where
  "http_failure upstream m s =
     (let s1 = s\<lparr>xs_state := RunFailed, xs_error_message := Some (''ReflowManager HTTP error: '' @ m)\<rparr>
      in if upstream then s1\<lparr>xs_metadata := [(''upstream_error'', PBool True)]\<rparr> else s1)"

definition other_failure :: "py_error \<Rightarrow> execution_status \<Rightarrow> execution_status" where
  "other_failure e s = s\<lparr>xs_state := RunFailed, xs_error_message := Some (''Failed to run pipeline: '' @ error_text e)\<rparr>"

definition distributed_execute ::
  "distributed_executor \<Rightarrow> 'w manager_port \<Rightarrow> string \<Rightarrow> pydict \<Rightarrow> string \<Rightarrow> rat option \<Rightarrow> ('w, execution_status) step" where
  "distributed_execute ex M pipeline_name runtime_params eid rate w =
     (let status = new_status eid pipeline_name RunRunning 0 in
      case mp_post M (de_url ex @ ''/run'') (run_payload ex pipeline_name runtime_params eid rate) w of (answer, w1) \<Rightarrow>
        (case answer of
           ManagerReply code t body \<Rightarrow>
             if 400 \<le> code then (Inr (http_failure (500 \<le> code) (mp_status_text M code) status), w1)
             else (case body of
                 Inl e \<Rightarrow> if is_exception e then (Inr (other_failure e status), w1) else (Inl e, w1)
               | Inr dispatched \<Rightarrow>
                   (let total_jobs = (case dispatched of None \<Rightarrow> 0 | Some n \<Rightarrow> n) in
                    (Inr (status\<lparr>xs_total_jobs := total_jobs,
                       xs_metadata := [(''jobs_dispatched'', PInt total_jobs), (''reflow_manager_url'', PStr (de_url ex))]\<rparr>), w1)))
         | ManagerDown m \<Rightarrow> (Inr (http_failure True m status), w1)
         | ManagerHttpError m \<Rightarrow> (Inr (http_failure False m status), w1)
         | ManagerRaised e \<Rightarrow> if is_exception e then (Inr (other_failure e status), w1) else (Inl e, w1)))"

text \<open>\<open>get_executor\<close>: the keyword arguments, each with its default.\<close>

datatype executor = LocalExec int | DistributedExec distributed_executor

record executor_options =
  eo_max_records :: "int option"
  eo_url :: "string option"
  eo_timeout :: "rat option"
  eo_mode :: "string option"

definition get_executor :: "string \<Rightarrow> executor_options \<Rightarrow> py_error + executor" where
  "get_executor mode kwargs =
     (if mode = ''local'' then Inr (LocalExec (case eo_max_records kwargs of None \<Rightarrow> 100 | Some n \<Rightarrow> n))
      else if mode = ''distributed''
      then Inr (DistributedExec (new_distributed_executor
        (case eo_url kwargs of None \<Rightarrow> ''http://localhost:8001'' | Some u \<Rightarrow> u)
        (case eo_timeout kwargs of None \<Rightarrow> 30 | Some t \<Rightarrow> t) (case eo_mode kwargs of None \<Rightarrow> ''distributed'' | Some m \<Rightarrow> m)))
      else Inl (ValueError (''Unknown execution mode: '' @ mode)))"

subsection \<open>The tracker\<close>

text \<open>The dict of the tracked executions; the lock makes each operation a step of its own.\<close>

type_synonym tracker = "(string \<times> execution_status) list"

definition track_status :: "execution_status \<Rightarrow> tracker \<Rightarrow> tracker" where
  "track_status s t = put t (xs_execution_id s) s"

definition get_status :: "string \<Rightarrow> tracker \<Rightarrow> execution_status option" where
  "get_status eid t = map_of t eid"

definition settle_state :: "execution_status \<Rightarrow> execution_status" where
  "settle_state s =
     (if xs_completed_jobs s + xs_failed_jobs s \<ge> xs_total_jobs s
      then s\<lparr>xs_state := (if xs_failed_jobs s = 0 then RunCompleted
             else if xs_failed_jobs s = xs_total_jobs s then RunFailed else RunPartiallyFailed)\<rparr>
      else s)"

definition count_job :: "bool \<Rightarrow> string option \<Rightarrow> execution_status \<Rightarrow> execution_status" where
  "count_job success error_message s =
     (if success then s\<lparr>xs_completed_jobs := xs_completed_jobs s + 1\<rparr>
      else let s1 = s\<lparr>xs_failed_jobs := xs_failed_jobs s + 1\<rparr> in
           case error_message of
             None \<Rightarrow> s1 | Some m \<Rightarrow> if m = [] then s1 else s1\<lparr>xs_error_message := Some m\<rparr>)"

definition update_job_completion :: "string \<Rightarrow> bool \<Rightarrow> string option \<Rightarrow> tracker \<Rightarrow> tracker" where
  "update_job_completion eid success error_message t =
     (let s = (case get_status eid t of None \<Rightarrow> new_status eid ''unknown'' RunRunning 1 | Some s \<Rightarrow> s)
      in put t eid (settle_state (count_job success error_message s)))"

definition list_executions :: "tracker \<Rightarrow> execution_status list" where
  "list_executions t = map snd t"

definition clear_tracker :: "tracker \<Rightarrow> tracker" where
  "clear_tracker t = []"

subsection \<open>Paths\<close>

text \<open>The module a pipeline's class is defined in, the pipeline module (\<open>PIPELINE_MODULE\<close>), and what
  pydantic and \<open>inspect\<close> object to the parameters of a run route.\<close>

record api_env =
  ge_module :: "pipeline \<Rightarrow> string"
  ge_pipeline_module :: string
  ge_python :: python
  ge_objection :: "parameter list \<Rightarrow> parameter list \<Rightarrow> py_error option"

definition pipeline_folder :: "api_env \<Rightarrow> pipeline \<Rightarrow> string" where
  "pipeline_folder E p =
     (let start = ge_pipeline_module E @ ''.''; defined_in = ge_module E p in
      if \<not> prefix start defined_in then []
      else join ''/'' (butlast (split_at CHR ''.'' (drop (length start) defined_in))))"

definition flat_path :: "pipeline \<Rightarrow> string" where
  "flat_path p = ''/pipelines/'' @ pd_name p"

definition pipeline_route_base :: "api_env \<Rightarrow> pipeline \<Rightarrow> string" where
  "pipeline_route_base E p =
     (let folder = pipeline_folder E p in
      if folder \<noteq> [] then ''/pipelines/'' @ folder @ ''/'' @ pd_name p else flat_path p)"

definition pipeline_tags :: "api_env \<Rightarrow> pipeline \<Rightarrow> string list" where
  "pipeline_tags E p = [if pipeline_folder E p = [] then ''pipelines'' else pipeline_folder E p]"

subsection \<open>Routes\<close>

text \<open>A route: its method and path, whether Swagger shows it, its tags, and its endpoint -- for a
  run route the pipeline, with the parameters of its body and of its query.\<close>

record run_endpoint =
  re_pipeline :: pipeline
  re_body :: "parameter list"
  re_query :: "parameter list"

record route =
  ro_method :: string
  ro_path :: string
  ro_in_schema :: bool
  ro_tags :: "string list"
  ro_endpoint :: "run_endpoint option"

definition register_route :: "api_env \<Rightarrow> string \<Rightarrow> pipeline \<Rightarrow> string \<Rightarrow> run_endpoint \<Rightarrow> route list \<Rightarrow> route list" where
  "register_route E method p route_suffix endpoint routes =
     (let base = pipeline_route_base E p in
      routes @
      [\<lparr>ro_method = method, ro_path = base @ ''/'' @ route_suffix, ro_in_schema = True, ro_tags = pipeline_tags E p,
        ro_endpoint = Some endpoint\<rparr>] @
      (if base \<noteq> flat_path p
       then [\<lparr>ro_method = method, ro_path = flat_path p @ ''/'' @ route_suffix, ro_in_schema = False, ro_tags = [],
               ro_endpoint = Some endpoint\<rparr>]
       else []))"

definition is_body_param :: "parameter \<Rightarrow> bool" where
  "is_body_param q \<longleftrightarrow> p_choices q = None \<and> p_type q \<in> {TList, TDict}"

definition RESERVED_NAMES :: "string list" where
  "RESERVED_NAMES = [''body'', ''mode'', ''rate_limit'']"

definition create_run_route :: "api_env \<Rightarrow> pipeline \<Rightarrow> parameter list \<Rightarrow> (route list, unit) step" where
  "create_run_route E p params =
     (let body_params = filter is_body_param params;
          query_params = filter (\<lambda>q. \<not> is_body_param q) params;
          reserved = filter (\<lambda>n. n \<in> p_name ` set params) RESERVED_NAMES in
      if reserved \<noteq> []
      then raise_step (ValueError (''Pipeline '' @ quoted (pd_name p) @ '' declares parameter(s) '' @
             py_list_text (ge_python E) (map PStr reserved) @
             '' that collide with the run route's reserved names (mode, rate_limit, body); rename them.''))
      else case ge_objection E body_params query_params of
          Some e \<Rightarrow> raise_step e
        | None \<Rightarrow> write_step (register_route E ''post'' p ''run''
            \<lparr>re_pipeline = p, re_body = body_params, re_query = query_params\<rparr>))"

definition create_pipeline_routes :: "api_env \<Rightarrow> pipeline \<Rightarrow> (route list, unit) step" where
  "create_pipeline_routes E p =
     (case get_all_parameters (ge_python E) p of Inl e \<Rightarrow> raise_step e | Inr params \<Rightarrow> create_run_route E p params)"

fun create_all_routes :: "api_env \<Rightarrow> pipeline list \<Rightarrow> (route list, unit) step" where
  "create_all_routes E [] = return_step ()"
| "create_all_routes E (p # ps) = bind_step (create_pipeline_routes E p) (\<lambda>_. create_all_routes E ps)"

definition code_points :: "string \<Rightarrow> nat list" where
  "code_points s = map of_char s"

definition setup_pipeline_routes :: "api_env \<Rightarrow> pipeline registry \<Rightarrow> (route list, unit) step" where
  "setup_pipeline_routes E r =
     create_all_routes E (sort_key (\<lambda>p. (code_points (pipeline_folder E p), code_points (pd_name p))) (list_all_pipelines r))"

text \<open>The routes of \<open>create_app\<close>, and the route a request meets: the first that matches.\<close>

definition app_routes :: "route list" where
  "app_routes = map (\<lambda>path. \<lparr>ro_method = ''get'', ro_path = path, ro_in_schema = True, ro_tags = [], ro_endpoint = None\<rparr>)
     [''/metrics'', ''/health'', ''/pipelines'', ''/executions/{execution_id}/status'']"

definition find_route :: "string \<Rightarrow> string \<Rightarrow> route list \<Rightarrow> route option" where
  "find_route method path routes = find (\<lambda>r. ro_method r = method \<and> ro_path r = path) routes"

subsection \<open>Running a pipeline\<close>

datatype answer = Answer200 pydict | Refused nat pyval

record 'w gateway =
  gw_tracker :: tracker
  gw_world :: 'w

text \<open>\<open>executor.execute(..., rate_limit_override=...)\<close>: the local executor has no such argument.\<close>

definition execute_by ::
  "executor \<Rightarrow> 'w manager_port \<Rightarrow> string \<Rightarrow> pydict \<Rightarrow> string \<Rightarrow> rat option \<Rightarrow> ('w, execution_status) step" where
  "execute_by x M pipeline_name params eid rate =
     (case x of
        LocalExec n \<Rightarrow> raise_step (TypeError ''LocalExecutor.execute() got an unexpected keyword argument rate_limit_override'')
      | DistributedExec ex \<Rightarrow> distributed_execute ex M pipeline_name params eid rate)"

definition check_status :: "execution_status \<Rightarrow> (nat \<times> pyval) option" where
  "check_status s =
     (if xs_state s = RunFailed
      then Some (if truthy (dget_or (xs_metadata s) ''upstream_error'' PNone) then 502 else 422,
        PDict [(''error'', case xs_error_message s of None \<Rightarrow> PNone | Some m \<Rightarrow> PStr m), (''execution_id'', PStr (xs_execution_id s))])
      else None)"

definition run_body_of ::
  "executor \<Rightarrow> executor \<Rightarrow> 'w manager_port \<Rightarrow> string \<Rightarrow> pydict \<Rightarrow> string \<Rightarrow> rat option \<Rightarrow> string \<Rightarrow> ('w gateway, answer) step" where
  "run_body_of local_executor distributed_executor M pipeline_name params mode rate eid g =
     (let x = (if mode = ''local'' then local_executor else distributed_executor);
          mode_label = (if mode = ''local'' then ''local'' else ''distributed'') in
      case execute_by x M pipeline_name params eid rate (gw_world g) of
        (Inl e, w) \<Rightarrow> if is_exception e then (Inr (Refused 500 (PStr (error_text e))), g\<lparr>gw_world := w\<rparr>) else (Inl e, g\<lparr>gw_world := w\<rparr>)
      | (Inr s, w) \<Rightarrow>
          (let g1 = g\<lparr>gw_world := w, gw_tracker := track_status s (gw_tracker g)\<rparr> in
           case check_status s of
             Some (code, detail) \<Rightarrow> (Inr (Refused code detail), g1)
           | None \<Rightarrow> (Inr (Answer200 [(''execution_id'', PStr (xs_execution_id s)), (''pipeline_name'', PStr pipeline_name),
               (''mode'', PStr mode_label), (''rate_limit'', case rate of None \<Rightarrow> PNone | Some r \<Rightarrow> PFloat r),
               (''status'', PDict (status_to_dict s))]), g1)))"

text \<open>\<open>run_pipeline\<close>: the params of the query, then those of the body over them.\<close>

definition runtime_params_of :: "pydict \<Rightarrow> pydict option \<Rightarrow> pydict" where
  "runtime_params_of query body = (case body of None \<Rightarrow> query | Some b \<Rightarrow> dupdate query b)"

text \<open>The two executors of \<open>setup_pipeline_routes\<close>; both hand the run to the manager.\<close>

definition api_executor :: "string \<Rightarrow> string \<Rightarrow> executor" where
  "api_executor url mode = DistributedExec (new_distributed_executor url 30 mode)"

definition handle_run ::
  "string \<Rightarrow> 'w manager_port \<Rightarrow> run_endpoint \<Rightarrow> string \<Rightarrow> rat option \<Rightarrow> pydict \<Rightarrow> pydict option \<Rightarrow> string \<Rightarrow> ('w gateway, answer) step" where
  "handle_run url M endpoint mode rate query body eid =
     run_body_of (api_executor url ''local'') (api_executor url ''distributed'') M (pd_name (re_pipeline endpoint))
       (runtime_params_of query body) mode rate eid"

definition execution_status_endpoint :: "string \<Rightarrow> tracker \<Rightarrow> answer" where
  "execution_status_endpoint eid t =
     (case get_status eid t of
        None \<Rightarrow> Refused 404 (PDict [(''error'', PStr (''Execution '' @ quoted eid @ '' not found''))])
      | Some s \<Rightarrow> Answer200 (status_to_dict s))"

definition listed_pipeline :: "api_env \<Rightarrow> pipeline \<Rightarrow> py_error + pyval" where
  "listed_pipeline E p =
     (case get_transformation_names p of
        Inl e \<Rightarrow> Inl e
      | Inr names \<Rightarrow>
          (case get_all_parameters (ge_python E) p of
             Inl e \<Rightarrow> Inl e
           | Inr params \<Rightarrow> Inr (PDict
               [(''name'', PStr (pd_name p)), (''folder'', PStr (pipeline_folder E p)),
                (''run_path'', PStr (pipeline_route_base E p @ ''/run'')), (''transformations'', PList (map PStr names)),
                (''runtime_parameters'', PList (map PStr (runtime_parameter_names params))),
                (''rate_limit'', case pd_rate_limit p of None \<Rightarrow> PNone | Some x \<Rightarrow> PFloat x)])))"

definition list_pipelines_endpoint :: "api_env \<Rightarrow> pipeline registry \<Rightarrow> py_error + pydict" where
  "list_pipelines_endpoint E r =
     map_sum id (\<lambda>ps. [(''pipelines'', PList ps)]) (sequence (map (listed_pipeline E) (list_all_pipelines r)))"

subsection \<open>The manager behind the API\<close>

text \<open>The manager's \<open>/run\<close> (\<open>run_request\<close>) as the executor calls it; \<open>decode\<close> is pydantic's
  reading of the request. An exception that ends the request is a 500.\<close>

definition answer_of_run :: "py_error + pydict \<times> background list \<Rightarrow> manager_answer" where
  "answer_of_run r =
     (case r of
        Inr (response, _) \<Rightarrow> ManagerReply 202 [] (Inr (case dget response ''jobs_dispatched'' of Some (PInt n) \<Rightarrow> Some n | _ \<Rightarrow> None))
      | Inl (HTTPException code detail) \<Rightarrow> ManagerReply code detail (Inr None)
      | Inl e \<Rightarrow> ManagerReply 500 (error_text e) (Inr None))"

definition manager_behind :: "service \<Rightarrow> (pydict \<Rightarrow> run_body) \<Rightarrow> (nat \<Rightarrow> string) \<Rightarrow> service_state manager_port" where
  "manager_behind S decode status_text =
     \<lparr>mp_post = (\<lambda>url payload st. case run_request S (decode payload) st of (r, st') \<Rightarrow> (answer_of_run r, st')),
      mp_status_text = status_text\<rparr>"


section \<open>Every pipeline answers on its paths\<close>

text \<open>The name of the pipeline is the last segment of a run route but one.\<close>

lemma last_segment:
  assumes "xs @ c # n = ys @ c # m" and "c \<notin> set n" and "c \<notin> set m"
  shows "n = m"
proof -
  have "takeWhile (\<lambda>x. x \<noteq> c) (rev (zs @ c # k)) = rev k" if "c \<notin> set k" for zs and k :: "'a list"
    using that by (simp, subst takeWhile_append2) auto
  then have "rev n = rev m" using assms by metis
  then show ?thesis by simp
qed

definition run_path_of :: "string \<Rightarrow> string \<Rightarrow> bool" where
  "run_path_of name path \<longleftrightarrow> (\<exists>xs. path = xs @ CHR ''/'' # name @ ''/run'')"

lemma run_path_name:
  assumes "run_path_of n path" and "run_path_of m path" and "CHR ''/'' \<notin> set n" and "CHR ''/'' \<notin> set m"
  shows "n = m"
proof -
  obtain xs ys where "xs @ CHR ''/'' # n @ ''/run'' = ys @ CHR ''/'' # m @ ''/run''"
    using assms(1,2) by (auto simp: run_path_of_def)
  then have "(xs @ CHR ''/'' # n) @ ''/run'' = (ys @ CHR ''/'' # m) @ ''/run''" by simp
  then have "xs @ CHR ''/'' # n = ys @ CHR ''/'' # m" by (simp only: append_same_eq)
  then show ?thesis using last_segment assms(3,4) by metis
qed

lemma run_paths: "run_path_of (pd_name p) (pipeline_route_base E p @ ''/run'')" "run_path_of (pd_name p) (flat_path p @ ''/run'')"
proof -
  have "flat_path p @ ''/run'' = ''/pipelines'' @ CHR ''/'' # pd_name p @ ''/run''" by (simp add: flat_path_def)
  then show flat: "run_path_of (pd_name p) (flat_path p @ ''/run'')" by (auto simp: run_path_of_def)
  have "''/pipelines/'' @ pipeline_folder E p @ ''/'' @ pd_name p @ ''/run'' =
      (''/pipelines/'' @ pipeline_folder E p) @ CHR ''/'' # pd_name p @ ''/run''" by simp
  then show "run_path_of (pd_name p) (pipeline_route_base E p @ ''/run'')"
    using flat unfolding pipeline_route_base_def Let_def run_path_of_def by (auto split: if_split)
qed

definition endpoint_of :: "pipeline \<Rightarrow> parameter list \<Rightarrow> run_endpoint" where
  "endpoint_of p params = \<lparr>re_pipeline = p, re_body = filter is_body_param params, re_query = filter (\<lambda>q. \<not> is_body_param q) params\<rparr>"

lemma create_pipeline_routes_result:
  assumes "create_pipeline_routes E p routes = (Inr (), routes')"
  obtains params where "get_all_parameters (ge_python E) p = Inr params"
    and "routes' = register_route E ''post'' p ''run'' (endpoint_of p params) routes"
  using assms
  by (auto simp: create_pipeline_routes_def create_run_route_def endpoint_of_def Let_def split: sum.splits if_splits option.splits)

text \<open>What the routes are after the pipelines \<open>ps\<close>: those from before, and for each of the
  pipelines one or two with its own endpoint.\<close>

definition routes_for :: "api_env \<Rightarrow> pipeline list \<Rightarrow> route list \<Rightarrow> route list \<Rightarrow> bool" where
  "routes_for E ps routes routes' \<longleftrightarrow> set routes \<subseteq> set routes'
     \<and> (\<forall>r \<in> set routes'. r \<in> set routes \<or> (\<exists>p \<in> set ps. \<exists>params. get_all_parameters (ge_python E) p = Inr params
          \<and> ro_endpoint r = Some (endpoint_of p params) \<and> run_path_of (pd_name p) (ro_path r)))
     \<and> (\<forall>p \<in> set ps. \<forall>path \<in> {pipeline_route_base E p @ ''/run'', flat_path p @ ''/run''}.
          \<exists>r \<in> set routes'. ro_method r = ''post'' \<and> ro_path r = path)"

lemma register_route_for:
  assumes "get_all_parameters (ge_python E) p = Inr params"
  shows "routes_for E [p] routes (register_route E ''post'' p ''run'' (endpoint_of p params) routes)"
  using assms run_paths(1) [of p E] run_paths(2) [of p]
  by (cases "pipeline_route_base E p = flat_path p") (auto simp: routes_for_def register_route_def Let_def)

lemma routes_for_append:
  assumes "routes_for E ps routes routes1" and "routes_for E qs routes1 routes2"
  shows "routes_for E (ps @ qs) routes routes2"
  using assms unfolding routes_for_def
proof (elim conjE, intro conjI)
  assume a: "set routes \<subseteq> set routes1" "set routes1 \<subseteq> set routes2"
  then show "set routes \<subseteq> set routes2" by blast
next
  assume a: "\<forall>r \<in> set routes1. r \<in> set routes \<or> (\<exists>p \<in> set ps. \<exists>params. get_all_parameters (ge_python E) p = Inr params
        \<and> ro_endpoint r = Some (endpoint_of p params) \<and> run_path_of (pd_name p) (ro_path r))"
    and b: "\<forall>r \<in> set routes2. r \<in> set routes1 \<or> (\<exists>p \<in> set qs. \<exists>params. get_all_parameters (ge_python E) p = Inr params
        \<and> ro_endpoint r = Some (endpoint_of p params) \<and> run_path_of (pd_name p) (ro_path r))"
  show "\<forall>r \<in> set routes2. r \<in> set routes \<or> (\<exists>p \<in> set (ps @ qs). \<exists>params. get_all_parameters (ge_python E) p = Inr params
        \<and> ro_endpoint r = Some (endpoint_of p params) \<and> run_path_of (pd_name p) (ro_path r))"
    by (intro ballI, drule bspec [OF b], elim disjE) (auto dest: bspec [OF a])
next
  assume a: "\<forall>p \<in> set ps. \<forall>path \<in> {pipeline_route_base E p @ ''/run'', flat_path p @ ''/run''}.
        \<exists>r \<in> set routes1. ro_method r = ''post'' \<and> ro_path r = path"
    and b: "\<forall>p \<in> set qs. \<forall>path \<in> {pipeline_route_base E p @ ''/run'', flat_path p @ ''/run''}.
        \<exists>r \<in> set routes2. ro_method r = ''post'' \<and> ro_path r = path"
    and c: "set routes1 \<subseteq> set routes2"
  show "\<forall>p \<in> set (ps @ qs). \<forall>path \<in> {pipeline_route_base E p @ ''/run'', flat_path p @ ''/run''}.
        \<exists>r \<in> set routes2. ro_method r = ''post'' \<and> ro_path r = path"
    using a b c by (simp only: set_append ball_Un) (meson subsetD)
qed

lemma create_all_routes_for:
  "create_all_routes E ps routes = (Inr (), routes') \<Longrightarrow> routes_for E ps routes routes'"
proof (induction ps arbitrary: routes)
  case Nil
  then show ?case by (simp add: routes_for_def)
next
  case (Cons p ps)
  then obtain routes1 where one: "create_pipeline_routes E p routes = (Inr (), routes1)"
      and rest: "create_all_routes E ps routes1 = (Inr (), routes')"
    by (auto elim!: bind_stepE)
  from one have "routes_for E [p] routes routes1"
    by (rule create_pipeline_routes_result) (simp add: register_route_for)
  from routes_for_append [OF this Cons.IH [OF rest]] show ?case by simp
qed

lemma name_has_no_slash: "name_matches s \<Longrightarrow> CHR ''/'' \<notin> set s"
proof
  assume m: "name_matches s" and slash: "CHR ''/'' \<in> set s"
  have "\<not> name_char CHR ''/''" by code_simp
  then have no: "CHR ''/'' \<notin> set t" if "list_all name_char t" for t using that by (auto simp: list_all_iff)
  show False
  proof (cases "s \<noteq> [] \<and> last s = CHR 0x0A")
    case True
    then obtain t where t: "s = t @ [CHR 0x0A]" by (metis append_butlast_last_id)
    then have "list_all name_char t" using m by (simp add: name_matches_def)
    then show False using no slash t by auto
  next
    case False
    then show False using m slash no by (auto simp: name_matches_def split: if_splits)
  qed
qed

lemma registry_names:
  assumes "registry_ok E0 r" and "p \<in> set (list_all_pipelines r)"
  shows "CHR ''/'' \<notin> set (pd_name p)" and "q \<in> set (list_all_pipelines r) \<Longrightarrow> pd_name q = pd_name p \<Longrightarrow> q = p"
proof -
  obtain n where n: "(n, p) \<in> set (rg_pipelines r)" using assms(2) by (auto simp: list_all_pipelines_def)
  then have "check_pipeline E0 p = None" using assms(1) by (auto simp: registry_ok_def)
  then have "name_matches (pd_name p)" by (simp add: check_pipeline_def split: option.splits if_splits)
  then show "CHR ''/'' \<notin> set (pd_name p)" by (rule name_has_no_slash)
  show "q = p" if q: "q \<in> set (list_all_pipelines r)" and same: "pd_name q = pd_name p"
  proof -
    obtain m where m: "(m, q) \<in> set (rg_pipelines r)" using q by (auto simp: list_all_pipelines_def)
    have "k = pd_name x" if "(k, x) \<in> set (rg_pipelines r)" for k x using that assms(1) unfolding registry_ok_def by blast
    from this [OF m] this [OF n] have "m = n" using same by simp
    moreover have "distinct (map fst (rg_pipelines r))" using assms(1) by (simp add: registry_ok_def list_names_def)
    ultimately show ?thesis using m n by (auto dest: eq_key_imp_eq_value)
  qed
qed

text \<open>C40: After the routes of a valid registry have been set up, every pipeline answers on two
  paths, the one with its folder and the flat one, and each of them leads to that pipeline and
  no other, wherever its file lies; its parameters are all in the route, each in the body or in
  the query.\<close>

theorem pipelines_answer_on_their_paths:
  assumes "registry_ok E0 r" and "setup_pipeline_routes E r app_routes = (Inr (), routes)"
    and "p \<in> set (list_all_pipelines r)" and "path = pipeline_route_base E p \<or> path = flat_path p"
  shows "\<exists>params found. get_all_parameters (ge_python E) p = Inr params
           \<and> find_route ''post'' (path @ ''/run'') routes = Some found \<and> ro_endpoint found = Some (endpoint_of p params)"
proof -
  let ?P = "\<lambda>r. ro_method r = ''post'' \<and> ro_path r = path @ ''/run''"
  have all: "routes_for E (sort_key (\<lambda>p. (code_points (pipeline_folder E p), code_points (pd_name p))) (list_all_pipelines r)) app_routes routes"
    using assms(2) unfolding setup_pipeline_routes_def by (rule create_all_routes_for)
  note parts = all [unfolded routes_for_def set_sort]
  have "path @ ''/run'' \<in> {pipeline_route_base E p @ ''/run'', flat_path p @ ''/run''}" using assms(4) by blast
  then obtain x where "x \<in> set routes" "?P x"
    using parts [THEN conjunct2, THEN conjunct2] assms(3) by blast
  then have "find ?P routes \<noteq> None" by (auto simp: find_None_iff)
  then obtain found where found: "find ?P routes = Some found" by auto
  then have f: "?P found" "found \<in> set routes" by (auto simp: find_Some_iff)
  then have "found \<notin> set app_routes" by (auto simp: app_routes_def)
  with f all obtain q params where q: "q \<in> set (list_all_pipelines r)" "get_all_parameters (ge_python E) q = Inr params"
      "ro_endpoint found = Some (endpoint_of q params)" "run_path_of (pd_name q) (path @ ''/run'')"
    using parts [THEN conjunct2, THEN conjunct1] by metis
  have "run_path_of (pd_name p) (path @ ''/run'')" using assms(4) run_paths(1) [of p E] run_paths(2) [of p] by auto
  then have "pd_name q = pd_name p"
    using q(1,4) assms(3) registry_names(1) [OF assms(1)] run_path_name by blast
  then have "q = p" using registry_names(2) [OF assms(1,3) q(1)] by simp
  then show ?thesis using q found by (auto simp: find_route_def)
qed


subsection \<open>One pipeline can stop the API\<close>

text \<open>A pipeline with a parameter called \<open>mode\<close>, \<open>rate_limit\<close> or \<open>body\<close> is registered without
  complaint; setting up its route raises, and with it the start of the API.\<close>

lemma create_all_routes_raises:
  assumes "\<And>routes. fst (create_pipeline_routes E p routes) \<noteq> Inr ()" and "p \<in> set ps"
  shows "fst (create_all_routes E ps routes) \<noteq> Inr ()"
  using assms(2)
proof (induction ps arbitrary: routes)
  case Nil
  then show ?case by simp
next
  case (Cons q qs)
  then show ?case using assms(1)
    by (cases "create_pipeline_routes E q routes") (auto simp: bind_step_def split: sum.split; metis fst_conv)
qed

theorem reserved_name_stops_the_api:
  assumes "p \<in> set (list_all_pipelines r)" and "get_all_parameters (ge_python E) p = Inr params"
    and "p_name ` set params \<inter> set RESERVED_NAMES \<noteq> {}"
  shows "fst (setup_pipeline_routes E r routes) \<noteq> Inr ()"
proof -
  have "filter (\<lambda>n. n \<in> p_name ` set params) RESERVED_NAMES \<noteq> []" using assms(3) by (auto simp: filter_empty_conv)
  then have "fst (create_pipeline_routes E p rs) \<noteq> Inr ()" for rs
    using assms(2) by (simp add: create_pipeline_routes_def create_run_route_def Let_def)
  then show ?thesis unfolding setup_pipeline_routes_def
    by (rule create_all_routes_raises) (use assms(1) in simp)
qed

section \<open>The tracker follows the jobs\<close>

definition complete_jobs :: "string \<Rightarrow> (bool \<times> string option) list \<Rightarrow> tracker \<Rightarrow> tracker" where
  "complete_jobs eid outcomes t = foldl (\<lambda>t (success, m). update_job_completion eid success m t) t outcomes"

definition tracked_state :: "(bool \<times> string option) list \<Rightarrow> int \<Rightarrow> run_state" where
  "tracked_state outcomes total_jobs =
     (let failed = int (length (filter (\<lambda>(ok, _). \<not> ok) outcomes)) in
      if outcomes = [] \<or> int (length outcomes) < total_jobs then RunRunning
      else if failed = 0 then RunCompleted else if failed = total_jobs then RunFailed else RunPartiallyFailed)"

lemma filter_lengths:
  "int (length (filter fst outcomes)) + int (length (filter (\<lambda>(ok, _). \<not> ok) outcomes)) = int (length outcomes)"
  by (induction outcomes) auto

lemma complete_jobs_snoc:
  "complete_jobs eid (outcomes @ [(ok, m)]) t = update_job_completion eid ok m (complete_jobs eid outcomes t)"
  by (simp add: complete_jobs_def)

lemma update_job_completion_at:
  "get_status k (update_job_completion eid ok m t) =
     (if k = eid then Some (settle_state (count_job ok m (case get_status eid t of None \<Rightarrow> new_status eid ''unknown'' RunRunning 1 | Some s \<Rightarrow> s)))
      else get_status k t)"
  by (simp add: update_job_completion_def get_status_def Let_def)

lemma count_job_counts [simp]:
  "xs_completed_jobs (count_job ok m s) = xs_completed_jobs s + (if ok then 1 else 0)"
  "xs_failed_jobs (count_job ok m s) = xs_failed_jobs s + (if ok then 0 else 1)"
  "xs_total_jobs (count_job ok m s) = xs_total_jobs s" "xs_state (count_job ok m s) = xs_state s"
  by (simp_all add: count_job_def Let_def split: option.split)

lemma settle_state_counts [simp]:
  "xs_completed_jobs (settle_state s) = xs_completed_jobs s" "xs_failed_jobs (settle_state s) = xs_failed_jobs s"
  "xs_total_jobs (settle_state s) = xs_total_jobs s"
  by (simp_all add: settle_state_def)

lemma tracked_execution:
  "\<exists>s. get_status eid (complete_jobs eid outcomes (track_status (new_status eid name RunRunning n) t)) = Some s
      \<and> xs_completed_jobs s = int (length (filter fst outcomes)) \<and> xs_failed_jobs s = int (length (filter (\<lambda>(ok, _). \<not> ok) outcomes))
      \<and> xs_total_jobs s = n \<and> xs_state s = tracked_state outcomes n"
proof (induction outcomes rule: rev_induct)
  case Nil
  then show ?case by (simp add: complete_jobs_def track_status_def get_status_def new_status_def tracked_state_def)
next
  case (snoc x outcomes)
  obtain ok m where x: "x = (ok, m)" by fastforce
  note lengths = filter_lengths [of "outcomes @ [x]"] filter_lengths [of outcomes]
  from snoc obtain s where s: "get_status eid (complete_jobs eid outcomes (track_status (new_status eid name RunRunning n) t)) = Some s"
      "xs_completed_jobs s = int (length (filter fst outcomes))" "xs_failed_jobs s = int (length (filter (\<lambda>(ok, _). \<not> ok) outcomes))"
      "xs_total_jobs s = n" "xs_state s = tracked_state outcomes n" by blast
  have "xs_state (settle_state (count_job ok m s)) = tracked_state (outcomes @ [x]) n"
  proof (cases "int (length (outcomes @ [x])) < n")
    case True
    then have "xs_state (settle_state (count_job ok m s)) = xs_state s" using s lengths x by (simp add: settle_state_def)
    then show ?thesis using True s(5) by (simp add: tracked_state_def Let_def)
  next
    case False
    then have "n \<le> xs_completed_jobs (count_job ok m s) + xs_failed_jobs (count_job ok m s)" using s lengths x by simp
    then show ?thesis using False s x by (auto simp: settle_state_def tracked_state_def Let_def)
  qed
  then show ?case using s x by (simp add: complete_jobs_snoc update_job_completion_at)
qed

lemma other_executions:
  "k \<noteq> eid \<Longrightarrow> get_status k (complete_jobs eid outcomes (track_status (new_status eid name RunRunning n) t)) = get_status k t"
  by (induction outcomes rule: rev_induct)
    (auto simp: complete_jobs_snoc update_job_completion_at, simp add: complete_jobs_def track_status_def get_status_def new_status_def)

text \<open>In the tracker, an execution of \<open>n\<close> jobs is running until the \<open>n\<close>-th job is over; then
  it is completed if no job failed, failed if all did, partially failed otherwise, and its
  counts are those of the jobs. The other executions stay as they were.\<close>

theorem tracker_follows_the_jobs:
  "(\<exists>s. get_status eid (complete_jobs eid outcomes (track_status (new_status eid name RunRunning n) t)) = Some s
      \<and> xs_completed_jobs s = int (length (filter fst outcomes)) \<and> xs_failed_jobs s = int (length (filter (\<lambda>(ok, _). \<not> ok) outcomes))
      \<and> xs_total_jobs s = n \<and> xs_state s = tracked_state outcomes n)
   \<and> (\<lambda>k. if k = eid then None else get_status k (complete_jobs eid outcomes (track_status (new_status eid name RunRunning n) t)))
       = (\<lambda>k. if k = eid then None else get_status k t)"
  using tracked_execution other_executions by (auto simp: fun_eq_iff)

section \<open>A run is answered as the manager answers it\<close>

definition accepted :: "py_error + 'a \<Rightarrow> bool" where
  "accepted a = (case a of Inr _ \<Rightarrow> True | Inl (HTTPException code _) \<Rightarrow> code < 400 | Inl _ \<Rightarrow> False)"

definition refusal_code :: "py_error + 'a \<Rightarrow> nat" where
  "refusal_code a = (case a of Inl (HTTPException code _) \<Rightarrow> if 500 \<le> code then 502 else 422 | _ \<Rightarrow> 502)"

lemma run_response_has_no_count:
  assumes "run_request S b st = (Inr (response, bg), st')"
  shows "dget response ''jobs_dispatched'' = None"
proof -
  have "run_body_step S b (run_execution_id S b) st = (Inr (response, bg), st')"
    using assms by (auto simp: run_request_def try_step_def split: prod.splits sum.splits if_splits)
  then show ?thesis
    unfolding run_body_step_def Let_def
    by (auto simp: run_response_def dget_def split: option.splits sum.splits if_splits elim!: bind_stepE)
qed

lemma answer_of_run_reply:
  assumes "run_request S b st = (a, st')"
  obtains code t where "answer_of_run a = ManagerReply code t (Inr None)" and "accepted a = (code < 400)"
    and "code < 400 \<or> refusal_code a = (if 500 \<le> code then 502 else 422)"
proof (cases a)
  case (Inr rb)
  obtain response bg where rb: "rb = (response, bg)" by fastforce
  have "dget response ''jobs_dispatched'' = None" using assms Inr rb run_response_has_no_count by blast
  then show ?thesis using that [of 202 "[]"] Inr rb by (simp add: answer_of_run_def accepted_def)
next
  case (Inl e)
  then show ?thesis using that [of _ _]
    by (cases e) (simp_all add: answer_of_run_def accepted_def refusal_code_def)
qed

text \<open>The payload the handler's executor sends.\<close>

definition api_payload :: "string \<Rightarrow> pipeline \<Rightarrow> string \<Rightarrow> rat option \<Rightarrow> pydict \<Rightarrow> pydict option \<Rightarrow> string \<Rightarrow> pydict" where
  "api_payload url p mode rate query body eid =
     run_payload (new_distributed_executor url 30 (if mode = ''local'' then ''local'' else ''distributed''))
       (pd_name p) (runtime_params_of query body) eid rate"

text \<open>C21: A run through the API is the manager's: the manager gets the request's params, mode and
  rate, exactly once; the API answers 200 when the manager accepted the run, 502 when the
  manager failed and 422 when it refused, never anything else; and from then on the tracker has
  the execution under its id, running or failed accordingly. Its number of jobs is 0, since
  no answer of \<open>/run\<close> tells it.\<close>

theorem api_run_is_the_managers:
  assumes "run_request S (decode (api_payload url (re_pipeline endpoint) mode rate query body eid)) (gw_world g) = (a, w)"
    and "handle_run url (manager_behind S decode status_text) endpoint mode rate query body eid g = (r, g')"
  shows "gw_world g' = w
    \<and> (case r of Inl _ \<Rightarrow> False | Inr (Answer200 _) \<Rightarrow> accepted a | Inr (Refused code _) \<Rightarrow> \<not> accepted a \<and> code = refusal_code a)
    \<and> (\<exists>s. get_status eid (gw_tracker g') = Some s \<and> xs_state s = (if accepted a then RunRunning else RunFailed) \<and> xs_total_jobs s = 0)"
proof -
  define ex where "ex = new_distributed_executor url 30 (if mode = ''local'' then ''local'' else ''distributed'')"
  define name where "name = pd_name (re_pipeline endpoint)"
  define params where "params = runtime_params_of query body"
  let ?M = "manager_behind S decode status_text"
  have x: "(if mode = ''local'' then api_executor url ''local'' else api_executor url ''distributed'') = DistributedExec ex"
    by (simp add: api_executor_def ex_def)
  have post: "mp_post ?M (de_url ex @ ''/run'') (run_payload ex name params eid rate) (gw_world g) = (answer_of_run a, w)"
    using assms(1) by (simp add: manager_behind_def api_payload_def ex_def name_def params_def)
  obtain code t where answer: "answer_of_run a = ManagerReply code t (Inr None)" "accepted a = (code < 400)"
      "code < 400 \<or> refusal_code a = (if 500 \<le> code then 502 else 422)"
    using answer_of_run_reply [OF assms(1)] by blast
  have run: "handle_run url ?M endpoint mode rate query body eid g =
      run_body_of (DistributedExec ex) (DistributedExec ex) ?M name params mode rate eid g"
    unfolding handle_run_def run_body_of_def Let_def x name_def [symmetric] params_def [symmetric] by simp
  show ?thesis
  proof (cases "code < 400")
    case True
    define s where "s = (new_status eid name RunRunning 0)\<lparr>xs_metadata :=
        [(''jobs_dispatched'', PInt 0), (''reflow_manager_url'', PStr (de_url ex))]\<rparr>"
    have "distributed_execute ex ?M name params eid rate (gw_world g) = (Inr s, w)"
      using True by (simp add: distributed_execute_def post answer(1) s_def new_status_def)
    moreover have "check_status s = None" by (simp add: check_status_def s_def new_status_def)
    ultimately have "g' = g\<lparr>gw_world := w, gw_tracker := track_status s (gw_tracker g)\<rparr>" and "\<exists>d. r = Inr (Answer200 d)"
      using assms(2) by (auto simp: run run_body_of_def execute_by_def Let_def)
    then show ?thesis using True answer(2) by (auto simp: track_status_def get_status_def s_def new_status_def)
  next
    case False
    define s where "s = http_failure (500 \<le> code) (mp_status_text ?M code) (new_status eid name RunRunning 0)"
    have "distributed_execute ex ?M name params eid rate (gw_world g) = (Inr s, w)"
      using False by (simp add: distributed_execute_def post answer(1) s_def)
    moreover obtain detail where "check_status s = Some (refusal_code a, detail)"
      using answer(3) False by (simp add: check_status_def s_def http_failure_def new_status_def dget_or_def dget_def Let_def)
    ultimately have "g' = g\<lparr>gw_world := w, gw_tracker := track_status s (gw_tracker g)\<rparr>" and "r = Inr (Refused (refusal_code a) detail)"
      using assms(2) by (simp_all add: run run_body_of_def execute_by_def Let_def)
    then show ?thesis using False answer(2)
      by (simp add: track_status_def get_status_def s_def http_failure_def new_status_def Let_def)
  qed
qed


section \<open>Examples\<close>

definition bob_env :: api_env where
  "bob_env = \<lparr>ge_module = (\<lambda>p. ''pipelines.bob.'' @ pd_name p), ge_pipeline_module = ''pipelines'', ge_python = plain_python,
     ge_objection = (\<lambda>_ _. None)\<rparr>"

definition bob_registry :: "pipeline registry" where
  "bob_registry = \<lparr>rg_pipelines = [(''user_sync'', ids_example)], rg_failures = []\<rparr>"

theorem pipelines_answer_on_their_paths_witness:
  "\<exists>routes found. setup_pipeline_routes bob_env bob_registry app_routes = (Inr (), routes)
     \<and> find_route ''post'' ''/pipelines/bob/user_sync/run'' routes = Some found
     \<and> ro_endpoint found = Some (endpoint_of ids_example [ids_parameter])"
proof -
  have ok: "registry_ok \<lparr>ce_cron_valid = None, ce_repr = (\<lambda>s. s)\<rparr> bob_registry" by code_simp
  have "fst (setup_pipeline_routes bob_env bob_registry app_routes) = Inr ()" by code_simp
  then obtain routes where made: "setup_pipeline_routes bob_env bob_registry app_routes = (Inr (), routes)"
    by (metis prod.collapse)
  have mem: "ids_example \<in> set (list_all_pipelines bob_registry)" by (simp add: bob_registry_def list_all_pipelines_def)
  have path: "pipeline_route_base bob_env ids_example = ''/pipelines/bob/user_sync''" by code_simp
  have "get_all_parameters (ge_python bob_env) ids_example = Inr [ids_parameter]" by code_simp
  with pipelines_answer_on_their_paths [OF ok made mem, of "''/pipelines/bob/user_sync''"] path made show ?thesis by simp
qed

definition api_example_endpoint :: run_endpoint where
  "api_example_endpoint = endpoint_of ids_example [ids_parameter]"

theorem api_run_is_the_managers_witness:
  "\<exists>r g' s. handle_run ''http://manager'' (manager_behind run_service (\<lambda>_. run_example) (\<lambda>_. [])) api_example_endpoint ''local'' None []
       (Some [(''input_ids'', PList [PInt 7])]) ''u1'' \<lparr>gw_tracker = [], gw_world = (idle_world lease_example [], [])\<rparr> = (r, g')
     \<and> (\<exists>d. r = Inr (Answer200 d)) \<and> get_status ''u1'' (gw_tracker g') = Some s \<and> xs_state s = RunRunning"
proof -
  let ?st = "(idle_world lease_example [], [] :: schedules)"
  let ?M = "manager_behind run_service (\<lambda>_. run_example) (\<lambda>_. [])"
  let ?g = "\<lparr>gw_tracker = [], gw_world = ?st\<rparr>"
  have "(case fst (run_request run_service run_example ?st) of Inl e \<Rightarrow> False | Inr x \<Rightarrow> True)" by code_simp
  then obtain x w where run: "run_request run_service run_example ?st = (Inr x, w)"
    by (cases "run_request run_service run_example ?st") (auto split: sum.splits)
  obtain r g' where h: "handle_run ''http://manager'' ?M api_example_endpoint ''local'' None []
       (Some [(''input_ids'', PList [PInt 7])]) ''u1'' ?g = (r, g')" by fastforce
  have "run_request run_service ((\<lambda>_. run_example) (api_payload ''http://manager'' (re_pipeline api_example_endpoint) ''local'' None []
      (Some [(''input_ids'', PList [PInt 7])]) ''u1'')) (gw_world ?g) = (Inr x, w)"
    using run by simp
  from api_run_is_the_managers [OF this h] have "case r of Inl _ \<Rightarrow> False | Inr (Answer200 _) \<Rightarrow> True | Inr (Refused _ _) \<Rightarrow> False"
    and "\<exists>s. get_status ''u1'' (gw_tracker g') = Some s \<and> xs_state s = RunRunning"
    by (auto simp: accepted_def split: sum.splits answer.splits)
  then show ?thesis using h by (auto split: sum.splits answer.splits)
qed

text \<open>A parameter called \<open>mode\<close>: the pipeline passes its checks, and the API does not start.\<close>

definition moody :: pipeline where
  "moody = ids_example\<lparr>pd_name := ''moody'', pd_own_parameters := Some [ids_parameter\<lparr>p_name := ''mode'', p_type := TStr\<rparr>]\<rparr>"

lemma moody_stops_the_api:
  "check_pipeline \<lparr>ce_cron_valid = None, ce_repr = (\<lambda>s. s)\<rparr> moody = None
   \<and> fst (setup_pipeline_routes bob_env (register ''moody'' moody bob_registry) app_routes) \<noteq> Inr ()"
proof
  show "check_pipeline \<lparr>ce_cron_valid = None, ce_repr = (\<lambda>s. s)\<rparr> moody = None" by code_simp
  have params: "get_all_parameters (ge_python bob_env) moody = Inr [ids_parameter, ids_parameter\<lparr>p_name := ''mode'', p_type := TStr\<rparr>]"
    by code_simp
  show "fst (setup_pipeline_routes bob_env (register ''moody'' moody bob_registry) app_routes) \<noteq> Inr ()"
    by (rule reserved_name_stops_the_api [OF _ params])
      (simp_all add: bob_registry_def register_def list_all_pipelines_def RESERVED_NAMES_def)
qed

end
