(* ===== verification/Declarations.thy ===== *)
theory Declarations
  imports Pipelines
begin

text \<open>
  Transformations as they are declared: the registry and the metaclass that fills it
  (\<open>transformations/registry.py\<close>, \<open>transformations/base.py\<close>), the decorators that make a class
  of a function (\<open>transformations/decorators.py\<close>), the record types read from their annotations
  and the check of records against them (\<open>core/record_validation.py\<close>), and the query files a
  pipeline or a transformation loads (\<open>core/query_loader.py\<close>). pydantic and the file system
  are parameters.
\<close>

subsection \<open>Annotations\<close>

text \<open>What a resolved annotation can be: \<open>typing.Any\<close>, \<open>object\<close>, the type of \<open>None\<close>, or a class,
  bare or with arguments.\<close>

datatype origin = OClass string | ODict | OList | OTuple | OSequence | OUnion

datatype annotation = AnyType | ObjectType | NoneType | Bare origin | Subscripted origin "annotation list"

fun origin_name :: "origin \<Rightarrow> string" where
  "origin_name (OClass c) = c"
| "origin_name ODict = ''dict''"
| "origin_name OList = ''list''"
| "origin_name OTuple = ''tuple''"
| "origin_name OSequence = ''Sequence''"
| "origin_name OUnion = ''Union''"

fun type_label :: "annotation \<Rightarrow> string" where
  "type_label AnyType = ''Any''"
| "type_label ObjectType = ''object''"
| "type_label NoneType = ''NoneType''"
| "type_label (Bare c) = origin_name c"
| "type_label (Subscripted c args) =
     (if args = [] then origin_name c else origin_name c @ ''['' @ join '', '' (map type_label args) @ '']'')"

text \<open>\<open>get_origin(t) or t\<close>, when that is a class, and \<open>get_args(t)\<close>.\<close>

fun origin_of :: "annotation \<Rightarrow> origin option" where
  "origin_of (Bare c) = Some c"
| "origin_of (Subscripted c args) = Some c"
| "origin_of a = None"

fun args_of :: "annotation \<Rightarrow> annotation list" where
  "args_of (Subscripted c args) = args"
| "args_of a = []"

text \<open>Python's \<open>None\<close> is \<open>None\<close> here.\<close>

definition is_checkable :: "annotation option \<Rightarrow> bool" where
  "is_checkable a = (case a of
     None \<Rightarrow> False | Some AnyType \<Rightarrow> False | Some ObjectType \<Rightarrow> False | Some t \<Rightarrow> origin_of t \<noteq> Some ODict)"

definition strip_none :: "annotation \<Rightarrow> annotation" where
  "strip_none a = (case a of
     Subscripted OUnion args \<Rightarrow> (case filter (\<lambda>t. t \<noteq> NoneType) args of [t] \<Rightarrow> t | rest \<Rightarrow> Subscripted OUnion rest)
   | _ \<Rightarrow> a)"

subsection \<open>Transformation classes\<close>

text \<open>A transformation class: its name, what its instances do, an explicit \<open>output_type\<close>, and for a
  decorated function the return annotation (\<open>Some None\<close>: none, or one that cannot be resolved).\<close>

record transformation_class =
  tc_class :: string
  tc_name :: string
  tc_kind :: kind
  tc_output_type :: "annotation option"
  tc_returns :: "annotation option option"

text \<open>\<open>typing.Sequence\<close> is no class: the origin of \<open>Sequence[X]\<close> is the one of \<open>collections.abc\<close>,
  which is not among the four the code compares with.\<close>

definition record_type_of :: "transformation_class \<Rightarrow> annotation option" where
  "record_type_of c =
     (case tc_returns c of
        None \<Rightarrow> None
      | Some None \<Rightarrow> None
      | Some (Some returned) \<Rightarrow>
          (case tc_kind c of
             RecordStep p \<Rightarrow> Some (strip_none returned)
           | _ \<Rightarrow> if origin_of returned \<in> {Some OList, Some OTuple}
                  then (case args_of returned of [] \<Rightarrow> None | t # _ \<Rightarrow> Some t) else None))"

text \<open>The cache by class only saves time.\<close>

definition step_output_type :: "transformation_class \<Rightarrow> annotation option" where
  "step_output_type c =
     (case tc_output_type c of
        Some t \<Rightarrow> if is_checkable (Some t) then Some t else None
      | None \<Rightarrow> if is_checkable (record_type_of c) then record_type_of c else None)"

subsection \<open>Checking records\<close>

text \<open>pydantic's errors for a list of records: the record's position, the path inside the record
  and the type of the error, in its order.\<close>

datatype loc_part = AtIndex nat | AtField string

type_synonym validator = "annotation \<Rightarrow> pyval list \<Rightarrow> (nat \<times> loc_part list \<times> string) list"

definition describe_loc :: "loc_part list \<Rightarrow> string \<Rightarrow> string" where
  "describe_loc loc error_type_name =
     (let path = foldl (\<lambda>path part. case part of
            AtIndex i \<Rightarrow> path @ ''[]''
          | AtField f \<Rightarrow> if path = [] then f else path @ ''.'' @ f) [] loc
      in (if path = [] then ''<record>'' else path) @ '': '' @ error_type_name)"

text \<open>\<open>setdefault\<close>: the first error of a record stays.\<close>

fun first_errors :: "(nat \<times> loc_part list \<times> string) list \<Rightarrow> (nat \<times> string) list \<Rightarrow> (nat \<times> string) list" where
  "first_errors [] invalid = invalid"
| "first_errors ((i, path, t) # errors) invalid =
     first_errors errors (if i \<in> fst ` set invalid then invalid else invalid @ [(i, describe_loc path t)])"

definition find_invalid_records :: "validator \<Rightarrow> annotation \<Rightarrow> pyval list \<Rightarrow> (nat \<times> string) list" where
  "find_invalid_records V t records = first_errors (V t records) []"

definition checked_type :: "validator \<Rightarrow> annotation \<Rightarrow> record_type" where
  "checked_type V t = \<lparr>rt_check = find_invalid_records V t, rt_label = type_label t\<rparr>"

text \<open>An instance of a class in the chain of \<open>transform_loop\<close>; the hooks are not overridden.\<close>

definition instance_of :: "validator \<Rightarrow> transformation_class \<Rightarrow> transformation" where
  "instance_of V c =
     \<lparr>tr_name = tc_name c, tr_kind = tc_kind c, tr_validate_input = (\<lambda>_. return_step ()),
      tr_validate_output = (\<lambda>_. return_step ()), tr_output_type = map_option (checked_type V) (step_output_type c)\<rparr>"

subsection \<open>The registry\<close>

type_synonym classes = "(string \<times> transformation_class) list"

definition register_class :: "transformation_class \<Rightarrow> (classes, unit) step" where
  "register_class c t =
     (if tc_name c = [] then (Inl (ValueError (''Transformation class '' @ tc_class c @ '' must define a non-empty '' @ quoted ''name'' @ '' attribute'')), t)
      else case map_of t (tc_name c) of
          Some other \<Rightarrow> (Inl (ValueError (''Transformation '' @ quoted (tc_name c) @ '' is already registered by '' @ tc_class other @
            ''. Cannot register '' @ tc_class c @ ''.'')), t)
        | None \<Rightarrow> (Inr (), t @ [(tc_name c, c)]))"

definition get_class :: "string \<Rightarrow> classes \<Rightarrow> transformation_class option" where
  "get_class name t = map_of t name"

definition create_instance :: "validator \<Rightarrow> string \<Rightarrow> classes \<Rightarrow> py_error + transformation" where
  "create_instance V name t =
     (case get_class name t of
        None \<Rightarrow> Inl (ValueError (''Transformation '' @ quoted name @ '' not found. Available: ['' @ join '', '' (map (quoted \<circ> fst) t) @ '']''))
      | Some c \<Rightarrow> Inr (instance_of V c))"

definition list_classes :: "classes \<Rightarrow> string list" where
  "list_classes t = map fst t"

definition class_exists :: "string \<Rightarrow> classes \<Rightarrow> bool" where
  "class_exists name t \<longleftrightarrow> map_of t name \<noteq> None"

definition clear_classes :: "classes \<Rightarrow> classes" where
  "clear_classes t = []"

text \<open>The metaclass: a class statement of a subclass that gives a \<open>name\<close> registers it; \<open>None\<close> for
  one that inherits its name.\<close>

definition new_class :: "string option \<Rightarrow> transformation_class \<Rightarrow> (classes, transformation_class) step" where
  "new_class own_name c =
     (if tc_class c \<noteq> ''BaseTransformation'' \<and> own_name \<noteq> None \<and> own_name \<noteq> Some []
      then bind_step (register_class c) (\<lambda>_. return_step c)
      else return_step c)"

subsection \<open>The decorators\<close>

text \<open>A decorated function: its name, its return annotation, and what it does.\<close>

record 'f decorated =
  fn_name :: string
  fn_returns :: "annotation option"
  fn_async :: bool
  fn_body :: 'f

definition make_class :: "'f decorated \<Rightarrow> string \<Rightarrow> kind \<Rightarrow> (classes, transformation_class) step" where
  "make_class f name k =
     new_class (Some name) \<lparr>tc_class = fn_name f, tc_name = name, tc_kind = k, tc_output_type = None, tc_returns = Some (fn_returns f)\<rparr>"

definition decorate :: "string \<Rightarrow> (pyval list \<Rightarrow> pyval list hook) decorated \<Rightarrow> (classes, transformation_class) step" where
  "decorate name f = make_class f name (if fn_async f then AsyncStep (fn_body f) else SyncStep (fn_body f))"

text \<open>\<open>asyncio.wait_for\<close> is a parameter (\<open>None\<close>: the time ran out), and so is the text of a float.\<close>

record waiting =
  wa_wait_for :: "rat \<Rightarrow> pyval option hook \<Rightarrow> pyval option option hook"
  wa_text :: "rat \<Rightarrow> string"

definition timed_apply :: "waiting \<Rightarrow> rat option \<Rightarrow> (pyval \<Rightarrow> pyval option hook) \<Rightarrow> pyval \<Rightarrow> pyval option hook" where
  "timed_apply W timeout f r =
     (case timeout of
        None \<Rightarrow> f r
      | Some t \<Rightarrow> bind_step (wa_wait_for W t (f r)) (\<lambda>v. case v of
            None \<Rightarrow> raise_step (OtherError ''TimeoutError'' (''timed out after '' @ wa_text W t @ ''s''))
          | Some x \<Rightarrow> return_step x))"

definition decorate_record ::
  "waiting \<Rightarrow> (string \<Rightarrow> string) \<Rightarrow> string \<Rightarrow> int option \<Rightarrow> rat option \<Rightarrow> (pyval \<Rightarrow> pyval option hook) decorated \<Rightarrow>
     (classes, transformation_class) step" where
  "decorate_record W repr_text name concurrency timeout f =
     (if (case concurrency of None \<Rightarrow> False | Some n \<Rightarrow> n < 1)
      then raise_step (ValueError (''record_transformation '' @ repr_text name @ '': concurrency must be >= 1''))
      else if (case timeout of None \<Rightarrow> False | Some t \<Rightarrow> t \<le> 0)
      then raise_step (ValueError (''record_transformation '' @ repr_text name @ '': timeout must be > 0''))
      else if \<not> fn_async f
      then raise_step (TypeError (''record_transformation '' @ repr_text name @ '' needs an `async def` function: running records concurrently only helps code that awaits. Use @transformation for a synchronous function.''))
      else make_class f name (RecordStep
        \<lparr>pr_setup = return_step (), pr_teardown = return_step (), pr_apply = timed_apply W timeout (fn_body f),
         pr_concurrency = map_option nat concurrency\<rparr>))"

subsection \<open>Query files\<close>

text \<open>The file system: what is a directory, the files of a name below a directory (sorted), the
  text of a file and the text of a path; \<open>json.loads\<close>, and the module files of the classes.\<close>

record files =
  fs_is_dir :: "string list \<Rightarrow> bool"
  fs_rglob :: "string list \<Rightarrow> string \<Rightarrow> string list list"
  fs_read :: "string list \<Rightarrow> py_error + string"
  fs_cwd :: "string list"
  fs_text :: "string list \<Rightarrow> string"
  fs_lower_suffix :: "string list \<Rightarrow> string"
  fs_loads :: "string \<Rightarrow> py_error + pyval"

text \<open>The parents of a file, the nearest first.\<close>

fun path_parents :: "string list \<Rightarrow> string list list" where
  "path_parents [] = []"
| "path_parents p = butlast p # path_parents (butlast p)"

definition resolve_queries_dir :: "files \<Rightarrow> string list option \<Rightarrow> string list" where
  "resolve_queries_dir F module_file =
     (case module_file of
        None \<Rightarrow> fs_cwd F @ [''queries'']
      | Some m \<Rightarrow> (case find (fs_is_dir F) (map (\<lambda>d. d @ [''queries'']) (path_parents m)) of
            Some d \<Rightarrow> d | None \<Rightarrow> fs_cwd F @ [''queries'']))"

definition resolve_query_path :: "files \<Rightarrow> string list option \<Rightarrow> string \<Rightarrow> py_error + string list" where
  "resolve_query_path F module_file filename =
     (let d = resolve_queries_dir F module_file in
      case fs_rglob F d filename of
        [] \<Rightarrow> Inl (OtherError ''FileNotFoundError'' (''Query '' @ quoted filename @ '' not found under '' @ fs_text F d))
      | [m] \<Rightarrow> Inr m
      | ms \<Rightarrow> Inl (ValueError (''Query '' @ quoted filename @ '' is ambiguous: found '' @ nat_text (length ms) @ '' matches under '' @
          fs_text F d @ '' ('' @ join '', '' (map (fs_text F \<circ> drop (length d)) ms) @
          ''). Make query filenames unique across subfolders.'')))"

text \<open>The texts read so far, by path.\<close>

type_synonym query_cache = "(string list \<times> string) list"

definition read_query_file :: "files \<Rightarrow> string list \<Rightarrow> (query_cache, string) step" where
  "read_query_file F path cache =
     (case map_of cache path of
        Some text \<Rightarrow> (Inr text, cache)
      | None \<Rightarrow> (case fs_read F path of Inl e \<Rightarrow> (Inl e, cache) | Inr text \<Rightarrow> (Inr text, (path, text) # cache)))"

definition load_query_text :: "files \<Rightarrow> string list option \<Rightarrow> string \<Rightarrow> (query_cache, string) step" where
  "load_query_text F module_file filename =
     (case resolve_query_path F module_file filename of Inl e \<Rightarrow> raise_step e | Inr path \<Rightarrow> read_query_file F path)"

definition load_query :: "files \<Rightarrow> string list option \<Rightarrow> string \<Rightarrow> (query_cache, pyval) step" where
  "load_query F module_file filename =
     (case resolve_query_path F module_file filename of
        Inl e \<Rightarrow> raise_step e
      | Inr path \<Rightarrow> bind_step (read_query_file F path) (\<lambda>content.
          if fs_lower_suffix F path = ''.json''
          then (case fs_loads F content of Inl e \<Rightarrow> raise_step e | Inr v \<Rightarrow> return_step v)
          else return_step (PStr content)))"

section \<open>What the declarations give\<close>

lemma first_errors_result:
  "distinct (map fst invalid) \<Longrightarrow> distinct (map fst (first_errors errors invalid)) \<and>
     fst ` set (first_errors errors invalid) = fst ` set invalid \<union> fst ` set errors"
  by (induction errors invalid rule: first_errors.induct) (auto simp: image_iff)

text \<open>A record in the batch is invalid exactly when pydantic has an error for it, and each invalid
  record is named once.\<close>

lemma find_invalid_once:
  "distinct (map fst (find_invalid_records V t records)) \<and> fst ` set (find_invalid_records V t records) = fst ` set (V t records)"
  using first_errors_result [of "[]" "V t records"] by (simp add: find_invalid_records_def)

text \<open>With a declared record type, the records of a job that pydantic finds no error in go on,
  in their order, and when invalid records are skipped each of the others is counted once under
  a reason; when they are not skipped a single one fails the job.\<close>

theorem declared_types_partition_the_records:
  assumes "\<forall>(i, path, e) \<in> set (V t records). i < length records"
  shows "case check_record_type (checked_type V t) skip_invalid records of
      Inl e \<Rightarrow> \<not> skip_invalid \<and> V t records \<noteq> []
    | Inr (kept, step) \<Rightarrow> kept = nths records {i. i \<notin> fst ` set (V t records)}
        \<and> records_skipped step + length kept = length records"
proof -
  have once: "distinct (map fst (rt_check (checked_type V t) records))"
      "fst ` set (rt_check (checked_type V t) records) = fst ` set (V t records)"
    using find_invalid_once by (simp_all add: checked_type_def)
  have "i < length records" if "(i, r) \<in> set (rt_check (checked_type V t) records)" for i r
  proof -
    have "i \<in> fst ` set (V t records)" using that once(2) by (metis fst_conv image_eqI)
    then show ?thesis using assms by auto
  qed
  then have range: "\<forall>(i, r) \<in> set (rt_check (checked_type V t) records). i < length records" by auto
  have "rt_check (checked_type V t) records \<noteq> [] \<Longrightarrow> V t records \<noteq> []" using once(2) by auto
  then show ?thesis
    using record_check_partitions [OF once(1) range, of skip_invalid] once(2) by (auto split: sum.splits)
qed

text \<open>A list of two orders, the second without an amount, which pydantic says twice.\<close>

definition order_errors :: validator where
  "order_errors t rs = concat (map (\<lambda>(i, r). case r of
     PDict d \<Rightarrow> if dget d ''amount'' = None then [(i, [AtField ''amount''], ''missing''), (i, [], ''bad'')] else []
   | _ \<Rightarrow> [(i, [], ''dict_type'')]) (zip [0..<length rs] rs))"

theorem declared_types_partition_the_records_witness:
  "\<exists>step. check_record_type (checked_type order_errors (Bare (OClass ''Order''))) True
      [PDict [(''amount'', PInt 1)], PDict []] = (Inr ([PDict [(''amount'', PInt 1)]], step)) \<and> records_skipped step = 1"
proof -
  let ?rs = "[PDict [(''amount'', PInt 1)], PDict []]" and ?t = "Bare (OClass ''Order'')"
  have errors: "order_errors ?t ?rs = [(1, [AtField ''amount''], ''missing''), (1, [], ''bad'')]" by code_simp
  then have range: "\<forall>(i, path, e) \<in> set (order_errors ?t ?rs). i < length ?rs" by simp
  from declared_types_partition_the_records [of order_errors ?t ?rs True, OF range] show ?thesis
    by (auto simp: errors nths_Cons split: sum.splits prod.splits)
qed

subsection \<open>Promised types\<close>

text \<open>\<open>-> List[T]\<close> is a promise the runner checks; \<open>-> Sequence[T]\<close>, which \<open>_record_type_of\<close>
  names, too, is none.\<close>

lemma list_promise_is_checked:
  assumes "is_checkable (Some t)" and "tc_output_type c = None" and "tc_kind c = SyncStep f"
    and "tc_returns c = Some (Some (Subscripted OList [t]))"
  shows "tr_output_type (instance_of V c) = Some (checked_type V t)"
  using assms by (simp add: instance_of_def step_output_type_def record_type_of_def)

lemma sequence_promise_is_never_checked:
  assumes "tc_output_type c = None" and "tc_kind c = SyncStep f" and "tc_returns c = Some (Some (Subscripted OSequence [t]))"
  shows "tr_output_type (instance_of V c) = None"
  using assms by (simp add: instance_of_def step_output_type_def record_type_of_def is_checkable_def)

subsection \<open>The registry\<close>

text \<open>Each name has one class, the first that claimed it; a second class of that name is an error
  of the module that declares it.\<close>

definition classes_ok :: "classes \<Rightarrow> bool" where
  "classes_ok t \<longleftrightarrow> distinct (map fst t) \<and> (\<forall>(n, c) \<in> set t. n = tc_name c \<and> n \<noteq> [])"

lemma register_class_keeps: "keeps classes_ok (register_class c)"
  by (rule keepsI) (auto simp: register_class_def classes_ok_def map_of_eq_None_iff split: if_splits option.splits)

lemma new_class_keeps: "keeps classes_ok (new_class own c)"
  unfolding new_class_def keeps_def
  by (rule moves_if) (intro steps reflp_imp transp_imp register_class_keeps [unfolded keeps_def])+

lemma decorators_keep: "keeps classes_ok (decorate name f)" "keeps classes_ok (decorate_record W repr_text name concurrency timeout g)"
  by (simp_all add: decorate_def decorate_record_def make_class_def new_class_keeps)
    (auto simp: keeps_def intro!: moves_if steps new_class_keeps [unfolded keeps_def])

theorem first_class_keeps_its_name:
  assumes "map_of t (tc_name c) = Some other"
  shows "fst (register_class c t) \<noteq> Inr ()" and "snd (new_class own d t) = t \<or> map_of (snd (new_class own d t)) (tc_name c) = Some other"
  using assms
  by (auto simp: register_class_def new_class_def bind_step_def map_add_Some_iff split: option.splits if_splits prod.splits sum.splits)

subsection \<open>Query files\<close>

text \<open>A query is read once: while the process runs, a path gives the text it had first.\<close>

lemma queries_are_read_once:
  assumes "load_query_text F module_file filename cache = (Inr text, cache')" and "resolve_query_path F' module_file' filename' = resolve_query_path F module_file filename"
  shows "load_query_text F' module_file' filename' cache' = (Inr text, cache')"
  using assms by (auto simp: load_query_text_def read_query_file_def split: sum.splits option.splits)

end
