(* ===== verification/Spec2Isabelle.thy ===== *)
theory Spec2Isabelle
  imports Consumer Planner Retention Protocol Dlq Schedules Parameters Pipelines Api Stats
    Connectors SourceJobs EndToEnd Destinations TestCommand UserApi Declarations
begin

text \<open>
  Reflowfy runs data pipelines: a pipeline reads records from a source, transforms them and
  writes them to a destination. A manager cuts the source of a run into jobs and dispatches
  them; workers, as many as there are, execute the jobs. This development is a translation of
  that program (the Python package \<open>src/reflowfy\<close>; paths below are relative to it) into
  executable definitions, with the theorems that make its parts and their interplay correct.

  \<^bold>\<open>The program.\<close> A run starts at the user API (\<open>api/\<close>), which hands it to the manager's
  \<open>POST /run\<close> (\<open>reflow_manager/app.py\<close>), or at a cron schedule, or at the retry queue. The
  manager checks the params, creates the execution, resolves the pipeline and saves one job
  per slice of the source (phase 1); a plan is dispatched only when it is complete. A dispatch
  loop (phase 2) puts pending jobs on a Kafka topic under a rate limit (a token bucket in the
  database), a window on the jobs in flight, and a driver lease, so that one loop at most
  drives an execution. A worker takes a message, claims the job's row, fetches the slice,
  transforms it, drops the records whose content hash another job holds, writes the rest and
  settles the row. A retry queue, which clients fill, runs pipelines again with a growing backoff.
  Sweepers reclaim lost jobs and purge
  old executions. The database is the only shared state; every process may stop at any point,
  and a message may be delivered more than once.

  \<^bold>\<open>Theories and sources.\<close>
  \<^item> \<open>Prelude\<close>, \<open>Effects\<close>, \<open>Values\<close>, \<open>Text\<close>: tables as lists of rows with the statements issued
    on them; steps with exceptions and the rules for their effect (collection \<open>steps\<close>); Python's
    values and \<open>core/serialization.py\<close>; strings.
  \<^item> \<open>ExecutionStore\<close> (\<open>reflow_manager/execution.py\<close>), \<open>JobStore\<close> (\<open>job_manager.py\<close>) and
    \<open>RateLimiter\<close> (\<open>rate_limiter.py\<close>): the tables \<open>executions\<close>, \<open>jobs\<close> and \<open>rate_limit_state\<close> of
    \<open>models.py\<close>, every operation on them, their invariants and functional behaviour.
    \<open>DriverLease\<close>: the driver lease of the executions table keeps the contract of a lease.
  \<^item> \<open>Dispatcher\<close> (\<open>dispatcher.py\<close>, \<open>local_dispatcher.py\<close>), \<open>Manager\<close> (the loop of
    \<open>pipeline_runner.py\<close>) and \<open>DriveLoop\<close> (what the loop guarantees: rate, window, order,
    nothing sent without lease, the final state). \<open>Planner\<close>: planning, crash recovery, resume.
  \<^item> \<open>ExecContext\<close> (\<open>core/execution_context.py\<close>), \<open>JobRunner\<close> (\<open>execution/job_runner.py\<close>,
    \<open>transformation_runner.py\<close>), \<open>ContentDedup\<close> (\<open>execution/content_dedup.py\<close>), \<open>Executor\<close>
    (\<open>worker/executor.py\<close>), \<open>Consumer\<close> (\<open>worker/consumer.py\<close>): the worker.
  \<^item> \<open>Protocol\<close>: manager, operator, sweeper and workers interleaved in any order; the jobs table
    refines one small automaton per job (\<open>job_moves\<close>), attempts are capped, cancelled jobs stay so.
  \<^item> \<open>Dlq\<close> (\<open>dlq_scheduler.py\<close>, \<open>dlq_routes.py\<close>), \<open>Schedules\<close> (\<open>pipeline_scheduler.py\<close>),
    \<open>Retention\<close> (\<open>content_dedup_scheduler.py\<close>), \<open>Stats\<close> (\<open>stats_routes.py\<close>), \<open>Api\<close> (\<open>app.py\<close>,
    \<open>manager.py\<close>): the rest of the manager.
  \<^item> \<open>Parameters\<close>, \<open>Pipelines\<close> (\<open>core/abstract_pipeline.py\<close>, \<open>id_based_pipeline.py\<close>,
    \<open>runtime_params.py\<close>, \<open>registry.py\<close>, \<open>pipeline_discovery.py\<close>), \<open>Declarations\<close>
    (\<open>transformations/\<close>, \<open>core/record_validation.py\<close>, \<open>query_loader.py\<close>): what users declare.
  \<^item> \<open>Sources\<close>, \<open>Elastic\<close>, \<open>ElasticWindows\<close> (\<open>sources/\<close>), \<open>SourceJobs\<close> (their \<open>split_jobs\<close>, which
    hands out what \<open>fetch\<close> reads, and \<open>health_check\<close>), \<open>Connectors\<close> (a planned part on its
    way through the message), \<open>EndToEnd\<close> (from the source through plan, table and message to the
    worker that reads it), \<open>Destinations\<close> (\<open>destinations/\<close>, \<open>core/async_utils.py\<close>).
  \<^item> \<open>Preview\<close> (\<open>execution/local_executor.py\<close>), \<open>TestCommand\<close> (\<open>cli/commands/test.py\<close>): runs in one
    process; \<open>UserApi\<close> (\<open>execution/distributed_executor.py\<close>, \<open>api/\<close>), composed with \<open>Api\<close>.

  \<^bold>\<open>How state and operations correspond.\<close> A row is a record with the columns of its class, a
  table the list of its rows in insertion order. A method that is one transaction is one
  function from table to table (\<open>requeue_failed\<close>, \<open>consume_tokens\<close>); code that reads, decides and
  writes several times is a step, a function from state to state with a value or the
  exception raised, and changes made before a raise stay. Between any two
  database operations of a manager's or worker's code the others may act: the \<open>environment\<close>
  (\<open>Manager\<close>), the \<open>worker\<close> record (\<open>Executor\<close>) say what they did, how much time passed, and
  which operations the database refuses; the theorems quantify over them. \<open>Protocol\<close> gives
  the others their own operations: a step relation over the same definitions. An exception is a
  value of \<open>py_error\<close>; a guard, an early return and a handler are branches of the definition. Times
  and floats are exact rationals, Python's ints are \<open>int\<close>; no machine arithmetic overflows here.

  \<^bold>\<open>Locales.\<close> \<open>claim_store\<close> (who holds a hash; \<open>claims\<close> in \<open>ContentDedup\<close>), \<open>lease\<close> (\<open>driver\<close> in
  \<open>DriverLease\<close>), \<open>sending\<close> and its extension \<open>metered_sending\<close> (a batch and its meter;
  \<open>batch\<close>, \<open>rate\<close>, \<open>window\<close> in \<open>DriveLoop\<close>), \<open>loop_relation\<close> (what every pass of the loop respects, so
  the loop does; \<open>spending\<close>, \<open>capping\<close>), \<open>bookkeeping\<close> (a relation the worker's database work
  keeps; \<open>metering\<close>, \<open>nothing\<close>, \<open>among\<close>), \<open>sharding\<close> (a source whose parts read what it reads;
  \<open>mock\<close>, \<open>api\<close>, \<open>s3\<close>, \<open>sql\<close> in \<open>Sources\<close>). Each is interpreted on the definitions of the program.

  \<^bold>\<open>Loops and bounds.\<close> \<open>acquire_token\<close> runs with \<open>acquire_fuel\<close>, the waits that fit in \<open>max_wait\<close> and two
  more, which \<open>acquire_fuel_enough\<close> and \<open>acquire_token_terminates\<close> show to suffice for every
  rate. \<open>drive_loop\<close>, \<open>wait_for_driver_lease\<close> and \<open>recover_plan\<close> wait for other processes and
  need not end: their fuel bounds the passes, \<open>None\<close> says that they are still waiting, and
  the theorems hold for every fuel. A loop over what a service answers is a
  \<open>partial_function\<close> (\<open>id_windows\<close>, \<open>all_hits\<close>, \<open>all_buckets\<close>, \<open>scroll_hits\<close>, \<open>scan_cursors\<close>,
  \<open>split_composite\<close>, \<open>split_by_offset\<close>, \<open>split_by_id_range\<close>, \<open>scroll_jobs\<close>, \<open>retry_loop\<close>), with \<open>None\<close> for not returning; that it returns is part of the
  properties on it. \<open>consume_until_stopped\<close> ends with the messages it is given; the pool of requests
  is a step relation with a proof that every run of it ends.

  \<^bold>\<open>Parameters of the model.\<close> Code outside the repository is an argument: Jinja2, SHA-256, croniter,
  pydantic, Kafka, the HTTP endpoints, the searched cluster and the queried database, the retry
  library, the user's hooks. Hypotheses on them state documented behaviour: \<open>documented\<close> (the
  retry library stops after its attempts), \<open>serves\<close> (a sorted search returns the
  hits after the cursor), \<open>answers\<close> (what the database returns for a query and its bounds). Every
  property with a hypothesis is applied at a concrete instance in its witness.

  \<^bold>\<open>Not modelled.\<close> \<open>observability/\<close> (output only), the project commands of \<open>cli/\<close> (they call docker
  and helm and copy files) and \<open>templates/\<close>, \<open>helm/\<close>; \<open>destinations/console.py\<close> and the
  rendering in \<open>cli/commands/test.py\<close> (they print); \<open>database.py\<close>, \<open>db_settings.py\<close>, \<open>kafka_config.py\<close>
  and \<open>worker/main.py\<close> (connection and process set-up); request schemas and the source and destination
  decorators (a dict of factories that only user code reads); the set-up of the
  sources' clients. Tracing carriers are opaque values; durations and log lines are left out. Floats round in
  the program and not here.
\<close>

end
